(* ===== verification/Prelude.thy ===== *)
theory Prelude
  imports Complex_Main "HOL-Library.AList" "HOL-Library.Word"
begin

text \<open>
  Shared ground of the development: association lists as Go maps, sequences of
  bytes as Go strings, time instants and durations, and the error values that
  the library's functions return next to their result.

  A Go \<open>map[string]T\<close> is an association list read with \<^const>\<open>map_of\<close> and written
  with \<^const>\<open>AList.update\<close>; the model never depends on the order of the pairs,
  as Go programs cannot. A Go \<open>string\<close> is a \<^typ>\<open>string\<close>, one \<^typ>\<open>char\<close> per byte.
  \<open>time.Time\<close> is its instant, in nanoseconds since the Unix epoch, and
  \<open>time.Duration\<close> an integer number of nanoseconds.
\<close>

named_theorems storage_simps \<open>equations of the storage operations\<close>
named_theorems inv_intros \<open>introduction rules of the state invariants\<close>

section \<open>Errors\<close>

text \<open>
  The error values of the library. \<open>ApiError\<close> is \<open>APIError\<close> of errors.go with its
  status and code (the message is for humans and not modelled); \<open>OtherError\<close>
  is any other error, told apart by a label.
\<close>

datatype gerror =
    ErrNotFound
  | ErrUniqueViolation
  | ErrUnknownField "string list"
  | ErrNoSession
  | ErrHasherBusy
  | ApiError nat string
  | OtherError string

text \<open>A Go result pair \<open>(v, err)\<close>: \<open>Inl\<close> the error or \<open>Inr\<close> the value.\<close>

type_synonym 'a result = "gerror + 'a"

text \<open>A result with the state it leaves behind.\<close>

type_synonym ('s, 'a) outcome = "'s \<times> 'a result"

definition is_ok :: "'a result \<Rightarrow> bool" where
  "is_ok r = (case r of Inl _ \<Rightarrow> False | Inr _ \<Rightarrow> True)"

lemma is_ok_simps [simp]: "\<not> is_ok (Inl e)" "is_ok (Inr v)"
  by (simp_all add: is_ok_def)

lemma is_ok_iff: "is_ok r \<longleftrightarrow> (\<exists>v. r = Inr v)"
  by (cases r) auto

section \<open>Sequencing\<close>

text \<open>
  A stateful call. \<open>bind\<close> is a call followed by \<open>if err != nil { return err }\<close>,
  \<open>attempt\<close> a call whose error the caller inspects itself, \<open>query\<close> a call that only
  reads.
\<close>

type_synonym ('s, 'a) act = "'s \<Rightarrow> ('s, 'a) outcome"

definition ret :: "'a \<Rightarrow> ('s, 'a) act" where "ret v s = (s, Inr v)"
definition fail :: "gerror \<Rightarrow> ('s, 'a) act" where "fail e s = (s, Inl e)"
definition query :: "('s \<Rightarrow> 'a result) \<Rightarrow> ('s, 'a) act" where "query q s = (s, q s)"

definition attempt :: "('s, 'a) act \<Rightarrow> ('a result \<Rightarrow> ('s, 'b) act) \<Rightarrow> ('s, 'b) act" where
  "attempt f k s = (case f s of (s', r) \<Rightarrow> k r s')"

definition bind :: "('s, 'a) act \<Rightarrow> ('a \<Rightarrow> ('s, 'b) act) \<Rightarrow> ('s, 'b) act" where
  "bind f k s = (case f s of (s', Inl e) \<Rightarrow> (s', Inl e) | (s', Inr v) \<Rightarrow> k v s')"

text \<open>A call whose result is thrown away.\<close>

definition ignore :: "('s, 'a) act \<Rightarrow> ('s, unit) act" where "ignore f = attempt f (\<lambda>_. ret ())"

text \<open>\<open>for\<close> over a list, stopping at the first error.\<close>

fun for_each :: "('a \<Rightarrow> ('s, unit) act) \<Rightarrow> 'a list \<Rightarrow> ('s, unit) act" where
  "for_each f [] = ret ()"
| "for_each f (x # xs) = bind (f x) (\<lambda>_. for_each f xs)"

lemma act_simps [simp]:
  "ret v s = (s, Inr v)" "fail e s = (s, Inl e)" "query q s = (s, q s)"
  by (simp_all add: ret_def fail_def query_def)

lemma bind_simps [simp]:
  "bind (ret v) k = k v" "bind (fail e) k = fail e" "attempt (ret v) h = h (Inr v)" "attempt (fail e) h = h (Inl e)"
  by (simp_all add: bind_def attempt_def fun_eq_iff)

lemma bind_query: "bind (query q) k s = (case q s of Inl e \<Rightarrow> (s, Inl e) | Inr v \<Rightarrow> k v s)"
  by (simp add: bind_def)

lemma attempt_query: "attempt (query q) k s = k (q s) s"
  by (simp add: attempt_def)

lemma bind_ignore [simp]: "bind (ignore f) k s = k () (fst (f s))"
  by (simp add: ignore_def bind_def attempt_def split: prod.splits)

lemma bind_run:
  "f s = (s', Inr v) \<Longrightarrow> bind f k s = k v s'"
  "f s = (s', Inl e) \<Longrightarrow> bind f k s = (s', Inl e)"
  "f s = (s', r) \<Longrightarrow> attempt f k' s = k' r s'"
  by (simp_all add: bind_def attempt_def)

text \<open>
  Forward simulation of one action by another, through an abstraction of the
  states that an invariant guards. It is closed under sequencing.
\<close>

definition sim :: "('s \<Rightarrow> 't) \<Rightarrow> ('s \<Rightarrow> bool) \<Rightarrow> ('s, 'a) act \<Rightarrow> ('t, 'a) act \<Rightarrow> bool" where
  "sim \<alpha> I f g \<longleftrightarrow>
     (\<forall>s s' r. I s \<longrightarrow> f s = (s', r) \<longrightarrow> I s' \<and> g (\<alpha> s) = (\<alpha> s', r))"

named_theorems sim_intros \<open>rules that build simulations\<close>

lemma simI:
  "(\<And>s s' r. I s \<Longrightarrow> f s = (s', r) \<Longrightarrow> I s' \<and> g (\<alpha> s) = (\<alpha> s', r)) \<Longrightarrow> sim \<alpha> I f g"
  by (simp add: sim_def)

lemma simD: "sim \<alpha> I f g \<Longrightarrow> I s \<Longrightarrow> f s = (s', r) \<Longrightarrow> I s' \<and> g (\<alpha> s) = (\<alpha> s', r)"
  by (simp add: sim_def)

lemma sim_run: "sim \<alpha> I f g \<Longrightarrow> I s \<Longrightarrow> g (\<alpha> s) = (\<alpha> (fst (f s)), snd (f s))"
  by (simp add: sim_def)

lemma sim_basic [sim_intros]: "sim \<alpha> I (ret v) (ret v)" "sim \<alpha> I (fail e) (fail e)"
  by (auto simp: sim_def)

lemma sim_bind [sim_intros]:
  assumes "sim \<alpha> I f g" and "\<And>x. sim \<alpha> I (F x) (G x)"
  shows "sim \<alpha> I (bind f F) (bind g G)"
proof (rule simI)
  fix s s' r assume "I s" and run: "bind f F s = (s', r)"
  obtain s1 r1 where f: "f s = (s1, r1)" by force
  from simD[OF assms(1) \<open>I s\<close> f] have "I s1" and g: "g (\<alpha> s) = (\<alpha> s1, r1)" by auto
  then show "I s' \<and> bind g G (\<alpha> s) = (\<alpha> s', r)"
    using run f simD[OF assms(2) \<open>I s1\<close>] by (cases r1) (auto simp: bind_def)
qed

lemma sim_attempt [sim_intros]:
  assumes "sim \<alpha> I f g" and "\<And>x. sim \<alpha> I (F x) (G x)"
  shows "sim \<alpha> I (attempt f F) (attempt g G)"
proof (rule simI)
  fix s s' r assume "I s" and run: "attempt f F s = (s', r)"
  obtain s1 r1 where f: "f s = (s1, r1)" by force
  from simD[OF assms(1) \<open>I s\<close> f] have "I s1" and g: "g (\<alpha> s) = (\<alpha> s1, r1)" by auto
  then show "I s' \<and> attempt g G (\<alpha> s) = (\<alpha> s', r)"
    using run f simD[OF assms(2) \<open>I s1\<close>] by (auto simp: attempt_def)
qed

lemma sim_ignore [sim_intros]: "sim \<alpha> I f g \<Longrightarrow> sim \<alpha> I (ignore f) (ignore g)"
  unfolding ignore_def by (intro sim_intros)

lemma sim_for_each [sim_intros]:
  "(\<And>x. x \<in> set xs \<Longrightarrow> sim \<alpha> I (F x) (G x)) \<Longrightarrow> sim \<alpha> I (for_each F xs) (for_each G xs)"
  by (induction xs) (auto intro!: sim_intros)

lemma sim_if [sim_intros]:
  "(b \<Longrightarrow> sim \<alpha> I f g) \<Longrightarrow> (\<not> b \<Longrightarrow> sim \<alpha> I f' g') \<Longrightarrow>
   sim \<alpha> I (if b then f else f') (if b then g else g')"
  by simp

lemma sim_result [sim_intros]:
  "(\<And>e. r = Inl e \<Longrightarrow> sim \<alpha> I (F e) (F' e)) \<Longrightarrow> (\<And>v. r = Inr v \<Longrightarrow> sim \<alpha> I (G v) (G' v)) \<Longrightarrow>
   sim \<alpha> I (case r of Inl e \<Rightarrow> F e | Inr v \<Rightarrow> G v) (case r of Inl e \<Rightarrow> F' e | Inr v \<Rightarrow> G' v)"
  by (cases r) auto

lemma sim_option [sim_intros]:
  "(r = None \<Longrightarrow> sim \<alpha> I F F') \<Longrightarrow> (\<And>v. r = Some v \<Longrightarrow> sim \<alpha> I (G v) (G' v)) \<Longrightarrow>
   sim \<alpha> I (case r of None \<Rightarrow> F | Some v \<Rightarrow> G v) (case r of None \<Rightarrow> F' | Some v \<Rightarrow> G' v)"
  by (cases r) auto

section \<open>Maps as association lists\<close>

type_synonym 'v gmap = "(string \<times> 'v) list"

definition gput :: "'v gmap \<Rightarrow> string \<Rightarrow> 'v \<Rightarrow> 'v gmap" where
  "gput m k v = AList.update k v m"

definition ghas :: "'v gmap \<Rightarrow> string \<Rightarrow> bool" where
  "ghas m k = (map_of m k \<noteq> None)"

definition gdelete :: "'v gmap \<Rightarrow> string \<Rightarrow> 'v gmap" where
  "gdelete m k = filter (\<lambda>p. fst p \<noteq> k) m"

text \<open>\<open>for k, v := range u { m[k] = v }\<close>: every entry of \<open>u\<close> overwrites \<open>m\<close>.\<close>

definition gmerge :: "'v gmap \<Rightarrow> 'v gmap \<Rightarrow> 'v gmap" where
  "gmerge m u = foldr (\<lambda>p a. gput a (fst p) (snd p)) u m"

lemma map_of_gput [simp]: "map_of (gput m k v) = (map_of m)(k \<mapsto> v)"
  by (simp add: gput_def update_conv')

lemma map_of_gdelete [simp]: "map_of (gdelete m k) = (map_of m)(k := None)"
  by (induction m) (auto simp: gdelete_def fun_eq_iff)

lemma map_of_gmerge [simp]: "map_of (gmerge m u) = map_of m ++ map_of u"
proof (induction u)
  case Nil
  then show ?case by (simp add: gmerge_def)
next
  case (Cons p u)
  then show ?case by (cases p) (simp add: gmerge_def fun_eq_iff map_add_def)
qed

lemma gmerge_Nil [simp]: "gmerge m [] = m"
  by (simp add: gmerge_def)

lemma ghas_gput [simp]: "ghas (gput m k v) k' \<longleftrightarrow> k = k' \<or> ghas m k'"
  by (simp add: ghas_def)

lemma ghas_iff: "ghas m k \<longleftrightarrow> k \<in> fst ` set m"
  by (simp add: ghas_def map_of_eq_None_iff)

section \<open>The first and the last that match\<close>

lemma find_first_iff:
  "find P xs = Some x \<longleftrightarrow> (\<exists>pre post. xs = pre @ x # post \<and> P x \<and> (\<forall>y\<in>set pre. \<not> P y))"
proof
  assume "find P xs = Some x"
  then show "\<exists>pre post. xs = pre @ x # post \<and> P x \<and> (\<forall>y\<in>set pre. \<not> P y)"
  proof (induction xs)
    case (Cons a xs)
    show ?case
    proof (cases "P a")
      case True
      then show ?thesis using Cons.prems by (intro exI[of _ "[]"] exI[of _ xs]) simp
    next
      case False
      then obtain pre post where "xs = pre @ x # post" "P x" "\<forall>y\<in>set pre. \<not> P y" using Cons by auto
      then show ?thesis using False by (intro exI[of _ "a # pre"] exI[of _ post]) simp
    qed
  qed simp
next
  have *: "\<forall>y\<in>set pre. \<not> P y \<Longrightarrow> find P (pre @ ys) = find P ys" for pre ys by (induction pre) auto
  assume "\<exists>pre post. xs = pre @ x # post \<and> P x \<and> (\<forall>y\<in>set pre. \<not> P y)"
  then show "find P xs = Some x" using * by auto
qed

lemma find_last_iff:
  "find P (rev xs) = Some x \<longleftrightarrow> (\<exists>pre post. xs = pre @ x # post \<and> P x \<and> (\<forall>y\<in>set post. \<not> P y))"
proof
  assume "find P (rev xs) = Some x"
  then obtain pre post where "rev xs = pre @ x # post" "P x" "\<forall>y\<in>set pre. \<not> P y" by (auto simp: find_first_iff)
  then show "\<exists>pre post. xs = pre @ x # post \<and> P x \<and> (\<forall>y\<in>set post. \<not> P y)"
    by (intro exI[of _ "rev post"] exI[of _ "rev pre"]) (simp add: rev_swap)
next
  assume "\<exists>pre post. xs = pre @ x # post \<and> P x \<and> (\<forall>y\<in>set post. \<not> P y)"
  then obtain pre post where "rev xs = rev post @ x # rev pre" "P x" "\<forall>y\<in>set (rev post). \<not> P y" by auto
  then show "find P (rev xs) = Some x" by (auto simp: find_first_iff)
qed

section \<open>Lists\<close>

text \<open>\<open>append\<close> to a list unless it is there already.\<close>

definition add_new :: "'a list \<Rightarrow> 'a \<Rightarrow> 'a list" where
  "add_new xs x = (if x \<in> set xs then xs else xs @ [x])"

lemma set_add_new [simp]: "set (add_new xs x) = insert x (set xs)"
  by (auto simp: add_new_def)

lemma distinct_add_new [simp]: "distinct (add_new xs x) \<longleftrightarrow> distinct xs"
  by (auto simp: add_new_def)

text \<open>
  \<open>sort.SliceStable\<close> with a \<open>less\<close> callback: insertion behind the elements that
  are not greater. For a strict weak order this is the only stable result.
\<close>

fun insert_stable :: "('a \<Rightarrow> 'a \<Rightarrow> bool) \<Rightarrow> 'a \<Rightarrow> 'a list \<Rightarrow> 'a list" where
  "insert_stable lt x [] = [x]"
| "insert_stable lt x (y # ys) =
     (if lt y x then y # insert_stable lt x ys else x # y # ys)"

definition stable_sort :: "('a \<Rightarrow> 'a \<Rightarrow> bool) \<Rightarrow> 'a list \<Rightarrow> 'a list" where
  "stable_sort lt xs = foldr (insert_stable lt) xs []"

lemma set_insert_stable [simp]: "set (insert_stable lt x xs) = insert x (set xs)"
  by (induction xs) auto

lemma mset_insert_stable: "length (insert_stable lt x xs) = Suc (length xs)"
  by (induction xs) auto

lemma set_stable_sort [simp]: "set (stable_sort lt xs) = set xs"
  by (induction xs) (simp_all add: stable_sort_def)

lemma length_stable_sort [simp]: "length (stable_sort lt xs) = length xs"
  by (induction xs) (simp_all add: stable_sort_def mset_insert_stable)

lemma stable_sort_Nil [simp]: "stable_sort lt [] = []"
  by (simp add: stable_sort_def)

lemma stable_sort_single [simp]: "stable_sort lt [x] = [x]"
  by (simp add: stable_sort_def)

text \<open>The result is sorted when \<open>less\<close> is a strict weak order on the elements.\<close>

definition swo_on :: "'a set \<Rightarrow> ('a \<Rightarrow> 'a \<Rightarrow> bool) \<Rightarrow> bool" where
  "swo_on S lt \<longleftrightarrow>
     (\<forall>x\<in>S. \<forall>y\<in>S. lt x y \<longrightarrow> \<not> lt y x) \<and>
     (\<forall>x\<in>S. \<forall>y\<in>S. \<forall>z\<in>S. \<not> lt x y \<longrightarrow> \<not> lt y z \<longrightarrow> \<not> lt x z)"

lemma swo_on_asym: "swo_on S lt \<Longrightarrow> x \<in> S \<Longrightarrow> y \<in> S \<Longrightarrow> lt x y \<Longrightarrow> \<not> lt y x"
  unfolding swo_on_def by blast

lemma swo_on_trans:
  "swo_on S lt \<Longrightarrow> x \<in> S \<Longrightarrow> y \<in> S \<Longrightarrow> z \<in> S \<Longrightarrow> \<not> lt x y \<Longrightarrow> \<not> lt y z \<Longrightarrow> \<not> lt x z"
  unfolding swo_on_def by blast

lemma sorted_insert_stable:
  assumes swo: "swo_on S lt" and "x \<in> S" "set ys \<subseteq> S"
    and "sorted_wrt (\<lambda>a b. \<not> lt b a) ys"
  shows "sorted_wrt (\<lambda>a b. \<not> lt b a) (insert_stable lt x ys)"
  using assms(3,4)
proof (induction ys)
  case Nil
  then show ?case by simp
next
  case (Cons y ys)
  show ?case
  proof (cases "lt y x")
    case True
    then have "\<not> lt x y" using swo_on_asym[OF swo] \<open>x \<in> S\<close> Cons.prems by simp
    with True Cons show ?thesis by simp
  next
    case False
    have "\<not> lt z x" if "z \<in> set ys" for z
      using swo_on_trans[OF swo, of z y x] False Cons.prems that \<open>x \<in> S\<close> by auto
    with False Cons.prems show ?thesis by simp
  qed
qed

lemma sorted_stable_sort:
  assumes "swo_on (set xs) lt"
  shows "sorted_wrt (\<lambda>a b. \<not> lt b a) (stable_sort lt xs)"
proof -
  have "sorted_wrt (\<lambda>a b. \<not> lt b a) (stable_sort lt ys)" if "set ys \<subseteq> set xs" for ys
    using that
  proof (induction ys)
    case Nil
    then show ?case by simp
  next
    case (Cons y ys)
    then have "sorted_wrt (\<lambda>a b. \<not> lt b a) (stable_sort lt ys)" by simp
    then have "sorted_wrt (\<lambda>a b. \<not> lt b a) (insert_stable lt y (stable_sort lt ys))"
      by (rule sorted_insert_stable[OF assms, rotated -1]) (use Cons.prems in auto)
    then show ?case by (simp add: stable_sort_def)
  qed
  then show ?thesis by simp
qed

section \<open>Time\<close>

type_synonym gtime = int
type_synonym duration = int

definition nsec_per_sec :: int where "nsec_per_sec = 1000000000"

definition seconds :: "int \<Rightarrow> duration" where "seconds n = n * nsec_per_sec"
definition minutes :: "int \<Rightarrow> duration" where "minutes n = seconds (60 * n)"
definition hours :: "int \<Rightarrow> duration" where "hours n = seconds (3600 * n)"

text \<open>\<open>time.Time{}\<close>: January 1, year 1, UTC.\<close>

definition zero_time :: gtime where "zero_time = seconds (- 62135596800)"

definition is_zero_time :: "gtime \<Rightarrow> bool" where "is_zero_time t = (t = zero_time)"

text \<open>\<open>t.Unix()\<close> rounds towards the past, \<open>time.Unix(s, 0)\<close> is the inverse on whole seconds.\<close>

definition unix_sec :: "gtime \<Rightarrow> int" where "unix_sec t = t div nsec_per_sec"
definition of_unix :: "int \<Rightarrow> gtime" where "of_unix s = seconds s"
definition of_unix_milli :: "int \<Rightarrow> gtime" where "of_unix_milli ms = ms * 1000000"

text \<open>\<open>t.Sub(u)\<close> saturates at the ends of the 64-bit range of durations.\<close>

definition max_int64 :: int where "max_int64 = 2 ^ 63 - 1"
definition min_int64 :: int where "min_int64 = - (2 ^ 63)"

definition time_sub :: "gtime \<Rightarrow> gtime \<Rightarrow> duration" where
  "time_sub t u = max min_int64 (min max_int64 (t - u))"

definition time_add :: "gtime \<Rightarrow> duration \<Rightarrow> gtime" where
  "time_add t d = t + d"

lemma time_sub_exact: "min_int64 \<le> t - u \<Longrightarrow> t - u \<le> max_int64 \<Longrightarrow> time_sub t u = t - u"
  by (simp add: time_sub_def)

lemma unix_sec_of_unix [simp]: "unix_sec (of_unix s) = s"
  by (simp add: unix_sec_def of_unix_def seconds_def nsec_per_sec_def)

lemmas time_defs = nsec_per_sec_def seconds_def minutes_def hours_def zero_time_def
  is_zero_time_def unix_sec_def of_unix_def of_unix_milli_def time_sub_def time_add_def
  max_int64_def min_int64_def

end
