(* ===== verification/Go_Strings.thy ===== *)
theory Go_Strings
  imports Prelude
begin

text \<open>
  The functions of Go's \<open>strings\<close> and \<open>strconv\<close> packages that the library calls,
  on byte strings. Case mapping and white space are exact on ASCII; bytes from 128
  on are left alone, where Go would decode them as UTF-8.
\<close>

section \<open>Prefixes, suffixes, substrings\<close>

definition has_prefix :: "'a list \<Rightarrow> 'a list \<Rightarrow> bool" where
  "has_prefix s p = (take (length p) s = p)"

definition has_suffix :: "'a list \<Rightarrow> 'a list \<Rightarrow> bool" where
  "has_suffix s p = (length p \<le> length s \<and> drop (length s - length p) s = p)"

definition trim_prefix :: "'a list \<Rightarrow> 'a list \<Rightarrow> 'a list" where
  "trim_prefix s p = (if has_prefix s p then drop (length p) s else s)"

definition trim_suffix :: "'a list \<Rightarrow> 'a list \<Rightarrow> 'a list" where
  "trim_suffix s p = (if has_suffix s p then take (length s - length p) s else s)"

fun str_contains :: "'a list \<Rightarrow> 'a list \<Rightarrow> bool" where
  "str_contains [] sub = (sub = [])"
| "str_contains (c # s) sub = (has_prefix (c # s) sub \<or> str_contains s sub)"

text \<open>\<open>strings.Index\<close>: the first position of \<open>sub\<close>, none for Go's -1.\<close>

fun str_index :: "'a list \<Rightarrow> 'a list \<Rightarrow> nat option" where
  "str_index [] sub = (if sub = [] then Some 0 else None)"
| "str_index (c # s) sub =
     (if has_prefix (c # s) sub then Some 0 else map_option Suc (str_index s sub))"

lemma has_prefix_iff: "has_prefix s p \<longleftrightarrow> (\<exists>r. s = p @ r)"
  by (auto simp: has_prefix_def) (metis append_take_drop_id)

lemma has_prefix_append [simp]: "has_prefix (p @ r) p"
  by (simp add: has_prefix_def)

lemma has_prefix_Nil [simp]: "has_prefix s []"
  by (simp add: has_prefix_def)

lemma has_suffix_iff: "has_suffix s p \<longleftrightarrow> (\<exists>r. s = r @ p)"
  by (auto simp: has_suffix_def) (metis append_take_drop_id)

lemma has_suffix_append [simp]: "has_suffix (r @ p) p"
  by (simp add: has_suffix_def)

lemma trim_prefix_append [simp]: "trim_prefix (p @ r) p = r"
  by (simp add: trim_prefix_def)

lemma trim_suffix_append [simp]: "trim_suffix (r @ p) p = r"
  by (simp add: trim_suffix_def)

lemma str_contains_iff: "str_contains s sub \<longleftrightarrow> (\<exists>a b. s = a @ sub @ b)"
proof (induction s)
  case Nil
  then show ?case by auto
next
  case IH: (Cons c s)
  show ?case (is "?L \<longleftrightarrow> ?R")
  proof
    assume ?L
    then consider "\<exists>r. c # s = sub @ r" | "\<exists>a b. s = a @ sub @ b"
      using IH by (auto simp: has_prefix_iff)
    then show ?R
      by cases (metis append_Nil, metis append_Cons)
  next
    assume ?R
    then obtain a b where ab: "c # s = a @ sub @ b" by blast
    show ?L
    proof (cases a)
      case Nil
      with ab have "has_prefix (c # s) sub" by (simp add: has_prefix_def)
      then show ?thesis by simp
    next
      case (Cons x xs)
      with ab IH show ?thesis by auto
    qed
  qed
qed

lemma str_contains_single: "str_contains s [c] \<longleftrightarrow> c \<in> set s"
  by (auto simp: str_contains_iff in_set_conv_decomp)

section \<open>Splitting and joining\<close>

text \<open>\<open>strings.Split(s, c)\<close> for a separator of one byte.\<close>

fun str_split :: "char \<Rightarrow> string \<Rightarrow> string list" where
  "str_split c [] = [[]]"
| "str_split c (x # s) =
     (if x = c then [] # str_split c s
      else (case str_split c s of [] \<Rightarrow> [[x]] | w # ws \<Rightarrow> (x # w) # ws))"

fun str_join :: "string \<Rightarrow> string list \<Rightarrow> string" where
  "str_join sep [] = []"
| "str_join sep [w] = w"
| "str_join sep (w # v # ws) = w @ sep @ str_join sep (v # ws)"

text \<open>\<open>strings.Cut(s, c)\<close>: what stands before and after the first \<open>c\<close>.\<close>

fun str_cut :: "char \<Rightarrow> string \<Rightarrow> (string \<times> string) option" where
  "str_cut c [] = None"
| "str_cut c (x # s) =
     (if x = c then Some ([], s) else map_option (\<lambda>(a, b). (x # a, b)) (str_cut c s))"

text \<open>What stands before and after the last \<open>c\<close> (\<open>strings.LastIndex\<close>).\<close>

fun str_cut_last :: "char \<Rightarrow> string \<Rightarrow> (string \<times> string) option" where
  "str_cut_last c [] = None"
| "str_cut_last c (x # s) =
     (case str_cut_last c s of
        Some (a, b) \<Rightarrow> Some (x # a, b)
      | None \<Rightarrow> if x = c then Some ([], s) else None)"

lemma str_split_not_Nil [simp]: "str_split c s \<noteq> []"
  by (induction s) (auto split: list.splits)

lemma str_join_split: "str_join [c] (str_split c s) = s"
proof (induction s)
  case Nil
  then show ?case by simp
next
  case (Cons x s)
  obtain w ws where w: "str_split c s = w # ws"
    by (cases "str_split c s") auto
  show ?case
    using Cons.IH w by (cases ws) auto
qed

lemma str_split_no_sep: "c \<notin> set s \<Longrightarrow> str_split c s = [s]"
  by (induction s) auto

lemma str_split_append: "c \<notin> set a \<Longrightarrow> str_split c (a @ c # s) = a # str_split c s"
  by (induction a) auto

lemma str_split_parts: "w \<in> set (str_split c s) \<Longrightarrow> c \<notin> set w"
  by (induction s arbitrary: w) (auto split: list.splits if_splits)

lemma str_cut_append [simp]: "c \<notin> set a \<Longrightarrow> str_cut c (a @ c # s) = Some (a, s)"
  by (induction a) auto

lemma str_cut_SomeD: "str_cut c s = Some (a, b) \<Longrightarrow> s = a @ c # b \<and> c \<notin> set a"
  by (induction s arbitrary: a) (auto split: if_splits)

lemma str_cut_None: "str_cut c s = None \<longleftrightarrow> c \<notin> set s"
  by (induction s) auto

lemma str_cut_last_None: "str_cut_last c s = None \<longleftrightarrow> c \<notin> set s"
  by (induction s) (auto split: option.splits)

lemma str_cut_last_append [simp]: "c \<notin> set b \<Longrightarrow> str_cut_last c (a @ c # b) = Some (a, b)"
  using str_cut_last_None[of c b] by (induction a) auto

lemma str_cut_last_SomeD: "str_cut_last c s = Some (a, b) \<Longrightarrow> s = a @ c # b \<and> c \<notin> set b"
  by (induction s arbitrary: a) (auto split: option.splits if_splits simp: str_cut_last_None)

section \<open>Case and white space\<close>

definition byte_of :: "char \<Rightarrow> nat" where "byte_of c = of_char c"

definition ascii_lower :: "char \<Rightarrow> char" where
  "ascii_lower c = (if 65 \<le> byte_of c \<and> byte_of c \<le> 90 then char_of (byte_of c + 32) else c)"

definition to_lower :: "string \<Rightarrow> string" where "to_lower s = map ascii_lower s"

definition equal_fold :: "string \<Rightarrow> string \<Rightarrow> bool" where
  "equal_fold a b = (to_lower a = to_lower b)"

definition is_space :: "char \<Rightarrow> bool" where
  "is_space c = (byte_of c = 32 \<or> (9 \<le> byte_of c \<and> byte_of c \<le> 13))"

definition trim_space :: "string \<Rightarrow> string" where
  "trim_space s = rev (dropWhile is_space (rev (dropWhile is_space s)))"

text \<open>\<open>strings.Trim(s, cutset)\<close>.\<close>

definition trim_set :: "char list \<Rightarrow> string \<Rightarrow> string" where
  "trim_set cs s =
     rev (dropWhile (\<lambda>c. c \<in> set cs) (rev (dropWhile (\<lambda>c. c \<in> set cs) s)))"

text \<open>\<open>strings.Fields\<close>: the maximal runs without white space.\<close>

fun str_fields_acc :: "string \<Rightarrow> string \<Rightarrow> string list" where
  "str_fields_acc acc [] = (if acc = [] then [] else [acc])"
| "str_fields_acc acc (c # s) =
     (if is_space c then (if acc = [] then [] else [acc]) @ str_fields_acc [] s
      else str_fields_acc (acc @ [c]) s)"

definition str_fields :: "string \<Rightarrow> string list" where "str_fields s = str_fields_acc [] s"

lemma byte_of_less: "byte_of c < 256"
  using of_char_mod_256[of c, where ?'a=nat] by (metis byte_of_def mod_less_divisor zero_less_numeral)

lemma byte_of_char_of: "n < 256 \<Longrightarrow> byte_of (char_of n) = n"
  by (simp add: byte_of_def)

lemma byte_of_inject: "byte_of a = byte_of b \<longleftrightarrow> a = b"
  by (simp add: byte_of_def)

lemma ascii_lower_idem [simp]: "ascii_lower (ascii_lower c) = ascii_lower c"
  by (auto simp: ascii_lower_def byte_of_char_of)

lemma to_lower_idem [simp]: "to_lower (to_lower s) = to_lower s"
  by (simp add: to_lower_def comp_def)

lemma to_lower_append: "to_lower (a @ b) = to_lower a @ to_lower b"
  by (simp add: to_lower_def)

lemma equal_fold_refl [simp]: "equal_fold a a"
  by (simp add: equal_fold_def)

lemma equal_fold_sym: "equal_fold a b \<Longrightarrow> equal_fold b a"
  by (simp add: equal_fold_def)

lemma is_space_ascii_lower [simp]: "is_space (ascii_lower c) = is_space c"
  by (auto simp: is_space_def ascii_lower_def byte_of_char_of)

lemma dropWhile_map_space: "dropWhile is_space (to_lower s) = to_lower (dropWhile is_space s)"
  by (induction s) (auto simp: to_lower_def)

lemma trim_space_to_lower: "trim_space (to_lower s) = to_lower (trim_space s)"
proof -
  have "rev (to_lower t) = to_lower (rev t)" for t by (simp add: to_lower_def rev_map)
  then show ?thesis by (simp add: trim_space_def dropWhile_map_space)
qed

lemma dropWhile_idem: "dropWhile P (dropWhile P s) = dropWhile P s"
  by (induction s) auto

lemma dropWhile_rev_dropWhile:
  "dropWhile P (rev (dropWhile P (rev (dropWhile P s)))) = rev (dropWhile P (rev (dropWhile P s)))"
proof (cases "dropWhile P s")
  case Nil
  then show ?thesis by (simp only: dropWhile.simps rev.simps)
next
  case (Cons c t)
  then have c: "\<not> P c" by (metis hd_dropWhile list.distinct(1) list.sel(1))
  have "\<exists>u. dropWhile P (rev t @ [c]) = u @ [c]"
    using c by (auto simp: dropWhile_append)
  then have "\<exists>u. rev (dropWhile P (rev t @ [c])) = c # u"
    by (metis rev.simps(2) rev_rev_ident rev_swap)
  then show ?thesis using Cons c by auto
qed

lemma trim_space_idem [simp]: "trim_space (trim_space s) = trim_space s"
  by (simp add: trim_space_def dropWhile_rev_dropWhile dropWhile_idem)

section \<open>Decimal numbers\<close>

definition digit_char :: "nat \<Rightarrow> char" where "digit_char d = ''0123456789'' ! (d mod 10)"

definition is_digit :: "char \<Rightarrow> bool" where "is_digit c = (48 \<le> byte_of c \<and> byte_of c \<le> 57)"

definition digit_val :: "char \<Rightarrow> nat" where "digit_val c = byte_of c - 48"

fun show_nat :: "nat \<Rightarrow> string" where
  "show_nat n = (if n < 10 then [digit_char n] else show_nat (n div 10) @ [digit_char n])"

declare show_nat.simps [simp del]

text \<open>\<open>strconv.Itoa\<close> and \<open>strconv.FormatInt(n, 10)\<close>.\<close>

definition itoa :: "int \<Rightarrow> string" where
  "itoa n = (if n < 0 then CHR ''-'' # show_nat (nat (- n)) else show_nat (nat n))"

definition digits_val :: "string \<Rightarrow> nat" where
  "digits_val s = foldl (\<lambda>a c. 10 * a + digit_val c) 0 s"

text \<open>
  \<open>strconv.ParseInt(s, 10, 64)\<close>: an optional sign, at least one digit, and nothing
  else; \<open>None\<close> is the error, out of range included.
\<close>

definition parse_int64 :: "string \<Rightarrow> int option" where
  "parse_int64 s =
     (let (neg, ds) = (case s of c # r \<Rightarrow> if c = CHR ''-'' then (True, r)
                                       else if c = CHR ''+'' then (False, r) else (False, s)
                             | [] \<Rightarrow> (False, s));
          v = int (digits_val ds)
      in if ds = [] \<or> \<not> list_all is_digit ds then None
         else if neg then (if v \<le> 2 ^ 63 then Some (- v) else None)
         else (if v < 2 ^ 63 then Some v else None))"

text \<open>
  The number \<open>strconv.Atoi\<close> returns next to its error: 0 for a syntax error, the
  nearest bound for one out of range.
\<close>

definition atoi_lax :: "string \<Rightarrow> int" where
  "atoi_lax s =
     (case parse_int64 s of Some n \<Rightarrow> n
      | None \<Rightarrow>
        (let (neg, ds) = (case s of c # r \<Rightarrow> if c = CHR ''-'' then (True, r)
                                       else if c = CHR ''+'' then (False, r) else (False, s)
                             | [] \<Rightarrow> (False, s))
         in if ds = [] \<or> \<not> list_all is_digit ds then 0
            else if neg then min_int64 else max_int64))"

lemma digit_char_cases:
  assumes "d < 10"
  shows "byte_of (digit_char d) = 48 + d"
proof -
  have "d \<in> {0,1,2,3,4,5,6,7,8,9}" using assms by auto
  then show ?thesis by (auto simp: digit_char_def byte_of_def)
qed

lemma digit_val_char [simp]: "d < 10 \<Longrightarrow> digit_val (digit_char d) = d"
  by (simp add: digit_val_def digit_char_cases)

lemma is_digit_char: "d < 10 \<Longrightarrow> is_digit (digit_char d)"
  by (simp add: is_digit_def digit_char_cases)

lemma digit_char_mod: "digit_char (n mod 10) = digit_char n"
  by (simp add: digit_char_def)

lemma show_nat_digits: "list_all is_digit (show_nat n)"
proof (induction n rule: show_nat.induct)
  case (1 n)
  then show ?case
    by (subst show_nat.simps)
      (use is_digit_char[of "n mod 10"] in \<open>auto simp: digit_char_mod is_digit_char\<close>)
qed

lemma show_nat_not_Nil [simp]: "show_nat n \<noteq> []"
  by (subst show_nat.simps) simp

lemma digits_val_show_nat [simp]: "digits_val (show_nat n) = n"
proof (induction n rule: show_nat.induct)
  case (1 n)
  show ?case
  proof (cases "n < 10")
    case True
    then show ?thesis by (simp add: show_nat.simps[of n] digits_val_def)
  next
    case False
    have "digit_val (digit_char n) = n mod 10"
      using digit_val_char[of "n mod 10"] by (simp add: digit_char_mod)
    with False 1 show ?thesis by (simp add: show_nat.simps[of n] digits_val_def)
  qed
qed

lemma digit_no_sign: "is_digit c \<Longrightarrow> c \<noteq> CHR ''-'' \<and> c \<noteq> CHR ''+''"
  by (auto simp: is_digit_def byte_of_def)

lemma parse_itoa:
  assumes "min_int64 \<le> n" and "n \<le> max_int64"
  shows "parse_int64 (itoa n) = Some n"
proof (cases "n < 0")
  case True
  then show ?thesis
    using assms show_nat_digits[of "nat (- n)"]
    by (simp add: parse_int64_def itoa_def min_int64_def)
next
  case False
  obtain c r where cr: "show_nat (nat n) = c # r" by (cases "show_nat (nat n)") auto
  then have "c \<noteq> CHR ''-'' \<and> c \<noteq> CHR ''+''"
    using show_nat_digits[of "nat n"] digit_no_sign by auto
  moreover have "digits_val (c # r) = nat n" using cr by (metis digits_val_show_nat)
  moreover have "list_all is_digit (c # r)" using cr show_nat_digits[of "nat n"] by simp
  ultimately show ?thesis
    using False assms cr by (simp add: parse_int64_def itoa_def max_int64_def)
qed

lemma itoa_no_char:
  assumes "\<not> is_digit c" and "c \<noteq> CHR ''-''"
  shows "c \<notin> set (itoa n)"
  using assms show_nat_digits by (auto simp: itoa_def list_all_iff)

lemma atoi_lax_itoa: "min_int64 \<le> n \<Longrightarrow> n \<le> max_int64 \<Longrightarrow> atoi_lax (itoa n) = n"
  by (simp add: atoi_lax_def parse_itoa)

end
