(* ===== verification/Go_Values.thy ===== *)
theory Go_Values
  imports Go_Strings
begin

text \<open>
  The dynamic values (\<open>any\<close>) a record may hold, and the comparisons the storage
  layer defines on them: \<open>equal\<close>, \<open>compare\<close> and \<open>toFloat\<close> of storage/compare.go,
  the field readers \<open>str\<close>, \<open>boolean\<close> and \<open>timeVal\<close> of storage/model.go and the
  sort order \<open>lessValue\<close> of storage/memory/util.go.

  The model's values are the scalars the schema's field types produce. Slices
  occur as filter arguments only (\<open>warg\<close>).
\<close>

section \<open>Values\<close>

text \<open>
  A float64 as the rational it denotes, with the three values that denote none.
  The sign of zero is not represented; no comparison below depends on it.
\<close>

datatype gfloat = FNaN | FInf | FNegInf | FFin rat

datatype gval =
    VNil
  | VStr string
  | VBool bool
  | VInt int
  | VInt32 int
  | VInt64 int
  | VF32 gfloat
  | VF64 gfloat
  | VTime gtime

type_synonym grec = "gval gmap"

text \<open>\<open>m[k]\<close> of a missing key is nil.\<close>

definition rget :: "grec \<Rightarrow> string \<Rightarrow> gval" where
  "rget r k = (case map_of r k of None \<Rightarrow> VNil | Some v \<Rightarrow> v)"

lemma rget_gput [simp]: "rget (gput r k v) k' = (if k = k' then v else rget r k')"
  by (simp add: rget_def)

lemma rget_Some [simp]: "map_of r k = Some v \<Longrightarrow> rget r k = v"
  by (simp add: rget_def)

lemma rget_cong: "map_of r = map_of r' \<Longrightarrow> rget r = rget r'"
  by (simp add: rget_def fun_eq_iff)

section \<open>float64\<close>

text \<open>
  The conversion \<open>float64(n)\<close> of an integer: exact up to 53 bits, beyond that
  rounded to the nearest multiple of a power of two, ties to even.
\<close>

fun bit_len :: "nat \<Rightarrow> nat" where
  "bit_len n = (if n = 0 then 0 else Suc (bit_len (n div 2)))"

declare bit_len.simps [simp del]

definition round_even :: "nat \<Rightarrow> nat \<Rightarrow> nat" where
  "round_even n s =
     (let q = n div s; r = n mod s
      in s * (if 2 * r < s then q else if 2 * r > s then Suc q
              else if even q then q else Suc q))"

definition f64_of_int :: "int \<Rightarrow> rat" where
  "f64_of_int n =
     (let m = nat \<bar>n\<bar>; b = bit_len m
      in if b \<le> 53 then of_int n
         else of_int (sgn n * int (round_even m (2 ^ (b - 53)))))"

fun to_float :: "gval \<Rightarrow> gfloat option" where
  "to_float (VInt n) = Some (FFin (f64_of_int n))"
| "to_float (VInt32 n) = Some (FFin (f64_of_int n))"
| "to_float (VInt64 n) = Some (FFin (f64_of_int n))"
| "to_float (VF32 f) = Some f"
| "to_float (VF64 f) = Some f"
| "to_float _ = None"

fun f_eq :: "gfloat \<Rightarrow> gfloat \<Rightarrow> bool" where
  "f_eq FNaN _ = False"
| "f_eq _ FNaN = False"
| "f_eq a b = (a = b)"

fun f_less :: "gfloat \<Rightarrow> gfloat \<Rightarrow> bool" where
  "f_less (FFin a) (FFin b) = (a < b)"
| "f_less FNegInf (FFin b) = True"
| "f_less (FFin a) FInf = True"
| "f_less FNegInf FInf = True"
| "f_less _ _ = False"

text \<open>\<open>int64(f)\<close> truncates towards zero; out of range it is the amd64 result.\<close>

fun f_trunc :: "gfloat \<Rightarrow> int" where
  "f_trunc (FFin q) =
     (let n = (if q < 0 then \<lceil>q\<rceil> else \<lfloor>q\<rfloor>)
      in if min_int64 \<le> n \<and> n \<le> max_int64 then n else min_int64)"
| "f_trunc _ = min_int64"

lemma f_eq_refl [simp]: "f_eq a a \<longleftrightarrow> a \<noteq> FNaN"
  by (cases a) auto

lemma f_eqD: "f_eq a b \<Longrightarrow> a = b"
  by (cases a; cases b) auto

lemma f_eq_sym: "f_eq a b = f_eq b a"
  by (cases a; cases b) auto

lemma bit_len_bound: "n < 2 ^ bit_len n"
proof (induction n rule: bit_len.induct)
  case (1 n)
  show ?case
  proof (cases "n = 0")
    case False
    with 1 have "n div 2 < 2 ^ bit_len (n div 2)" by simp
    then have "n < 2 * 2 ^ bit_len (n div 2)" by linarith
    with False show ?thesis by (simp add: bit_len.simps[of n])
  qed (simp add: bit_len.simps)
qed

lemma bit_len_lower: "0 < n \<Longrightarrow> 2 ^ (bit_len n - 1) \<le> n"
proof (induction n rule: bit_len.induct)
  case (1 n)
  show ?case
  proof (cases "n < 2")
    case True
    with 1 show ?thesis by (simp add: bit_len.simps[of n] bit_len.simps[of 0])
  next
    case False
    then have "0 < n div 2" by simp
    with 1 have "2 ^ (bit_len (n div 2) - 1) \<le> n div 2" by simp
    moreover have "bit_len (n div 2) = Suc (bit_len (n div 2) - 1)"
      using \<open>0 < n div 2\<close> by (simp add: bit_len.simps[of "n div 2"])
    ultimately have "2 ^ bit_len (n div 2) \<le> 2 * (n div 2)"
      by (metis mult_le_mono2 power_Suc)
    then show ?thesis using False by (simp add: bit_len.simps[of n])
  qed
qed

lemma bit_len_le:
  assumes "n < 2 ^ k"
  shows "bit_len n \<le> k"
proof (rule ccontr)
  assume "\<not> bit_len n \<le> k"
  then have "k \<le> bit_len n - 1" and "0 < n" by (auto simp: bit_len.simps[of 0] intro: gr0I)
  then have "(2::nat) ^ k \<le> 2 ^ (bit_len n - 1)" by (intro power_increasing) auto
  with bit_len_lower[OF \<open>0 < n\<close>] assms show False by linarith
qed

lemma f64_of_int_exact: "\<bar>n\<bar> < 2 ^ 53 \<Longrightarrow> f64_of_int n = of_int n"
proof -
  assume "\<bar>n\<bar> < 2 ^ 53"
  then have "nat \<bar>n\<bar> < 2 ^ 53" by (simp add: nat_less_iff)
  then have "bit_len (nat \<bar>n\<bar>) \<le> 53" by (rule bit_len_le)
  then show ?thesis by (simp add: f64_of_int_def)
qed

section \<open>Equality and order of dynamic values\<close>

text \<open>\<open>reflect.DeepEqual\<close> on scalars: the same dynamic type and an equal value.\<close>

fun deep_equal :: "gval \<Rightarrow> gval \<Rightarrow> bool" where
  "deep_equal (VF32 a) (VF32 b) = f_eq a b"
| "deep_equal (VF64 a) (VF64 b) = f_eq a b"
| "deep_equal a b = (a = b)"

definition val_equal :: "gval \<Rightarrow> gval \<Rightarrow> bool" where
  "val_equal a b =
     (if a = VNil \<and> b = VNil then True
      else case (a, b) of
        (VTime ta, VTime tb) \<Rightarrow> ta = tb
      | _ \<Rightarrow> (case (to_float a, to_float b) of
                (Some na, Some nb) \<Rightarrow> f_eq na nb
              | _ \<Rightarrow> deep_equal a b))"

text \<open>The order of Go strings: bytewise.\<close>

fun str_less :: "string \<Rightarrow> string \<Rightarrow> bool" where
  "str_less _ [] = False"
| "str_less [] (_ # _) = True"
| "str_less (a # s) (b # t) = (byte_of a < byte_of b \<or> (a = b \<and> str_less s t))"

datatype operator = OpDefault | OpEq | OpNe | OpGt | OpGte | OpLt | OpLte | OpIn
  | OpContains | OpStartsWith | OpEndsWith | OpOther

definition cmp_op :: "operator \<Rightarrow> bool \<Rightarrow> bool \<Rightarrow> bool \<Rightarrow> bool" where
  "cmp_op op lt eq gt =
     (case op of OpGt \<Rightarrow> gt | OpGte \<Rightarrow> gt \<or> eq | OpLt \<Rightarrow> lt | OpLte \<Rightarrow> lt \<or> eq | _ \<Rightarrow> False)"

definition val_compare :: "gval \<Rightarrow> gval \<Rightarrow> operator \<Rightarrow> bool" where
  "val_compare a b op =
     (case a of
        VTime ta \<Rightarrow> (case b of VTime tb \<Rightarrow> cmp_op op (ta < tb) (ta = tb) (tb < ta) | _ \<Rightarrow> False)
      | _ \<Rightarrow> (case (to_float a, to_float b) of
                (Some na, Some nb) \<Rightarrow> cmp_op op (f_less na nb) (f_eq na nb) (f_less nb na)
              | _ \<Rightarrow> (case (a, b) of
                       (VStr sa, VStr sb) \<Rightarrow> cmp_op op (str_less sa sb) (sa = sb) (str_less sb sa)
                     | _ \<Rightarrow> False)))"

text \<open>\<open>lessValue\<close>: the order \<open>FindMany\<close> sorts by. Values of different types are not ordered.\<close>

definition less_value :: "gval \<Rightarrow> gval \<Rightarrow> bool" where
  "less_value a b =
     (case (a, b) of
        (VTime x, VTime y) \<Rightarrow> x < y
      | (VStr x, VStr y) \<Rightarrow> str_less x y
      | (VInt x, VInt y) \<Rightarrow> x < y
      | (VInt64 x, VInt64 y) \<Rightarrow> x < y
      | (VF64 x, VF64 y) \<Rightarrow> f_less x y
      | _ \<Rightarrow> False)"

lemma val_equal_str [simp]: "val_equal v (VStr s) \<longleftrightarrow> v = VStr s"
  by (cases v) (auto simp: val_equal_def)

lemma val_equal_str2 [simp]: "val_equal (VStr s) v \<longleftrightarrow> v = VStr s"
  by (cases v) (auto simp: val_equal_def)

lemma val_equal_bool [simp]: "val_equal v (VBool b) \<longleftrightarrow> v = VBool b"
  by (cases v) (auto simp: val_equal_def)

lemma val_equal_nil [simp]: "val_equal v VNil \<longleftrightarrow> v = VNil"
  by (cases v) (auto simp: val_equal_def)

lemma val_equal_time [simp]: "val_equal v (VTime t) \<longleftrightarrow> v = VTime t"
  by (cases v) (auto simp: val_equal_def)

lemma val_equal_sym: "val_equal a b = val_equal b a"
  by (cases a; cases b) (auto simp: val_equal_def f_eq_sym)

text \<open>
  Integers compare through float64: equality of two int64 values is exact below
  53 bits, and above it two different numbers can be \<open>equal\<close>.
\<close>

lemma val_equal_int64_exact:
  assumes "\<bar>a\<bar> < 2 ^ 53" and "\<bar>b\<bar> < 2 ^ 53"
  shows "val_equal (VInt64 a) (VInt64 b) \<longleftrightarrow> a = b"
  using assms by (simp add: val_equal_def f64_of_int_exact)

lemma bit_len_2_53: "bit_len (2 ^ 53) = 54" "bit_len (2 ^ 53 + 1) = 54"
  by (simp_all add: bit_len.simps)

lemma val_equal_int64_collision: "val_equal (VInt64 (2 ^ 53)) (VInt64 (2 ^ 53 + 1))"
  using bit_len_2_53 by (simp add: val_equal_def f64_of_int_def round_even_def)

lemma str_less_irrefl [simp]: "\<not> str_less s s"
  by (induction s) auto

lemma str_less_asym: "str_less s t \<Longrightarrow> \<not> str_less t s"
  by (induction s t rule: str_less.induct) auto

lemma str_less_trans: "str_less s t \<Longrightarrow> str_less t u \<Longrightarrow> str_less s u"
proof (induction s t arbitrary: u rule: str_less.induct)
  case (3 a s b t)
  then show ?case by (cases u) auto
qed (auto elim: str_less.elims)

lemma str_less_linear: "str_less s t \<or> s = t \<or> str_less t s"
proof (induction s t rule: str_less.induct)
  case (1 s)
  then show ?case by (cases s) auto
next
  case (3 a s b t)
  then show ?case using byte_of_inject[of a b] by auto
qed auto

lemma less_value_swo_time: "swo_on (VTime ` T) less_value"
  by (auto simp: swo_on_def less_value_def)

lemma less_value_swo_str: "swo_on (VStr ` T) less_value"
  unfolding swo_on_def less_value_def
  by (auto dest: str_less_asym) (metis str_less_linear str_less_trans)

section \<open>Reading fields\<close>

fun str_val :: "gval \<Rightarrow> string" where
  "str_val (VStr s) = s"
| "str_val _ = []"

fun bool_val :: "gval \<Rightarrow> bool" where
  "bool_val (VBool b) = b"
| "bool_val (VInt64 n) = (n \<noteq> 0)"
| "bool_val (VInt n) = (n \<noteq> 0)"
| "bool_val (VF64 f) = (f \<noteq> FFin 0)"
| "bool_val _ = False"

subsection \<open>RFC 3339 times\<close>

definition leap_year :: "nat \<Rightarrow> bool" where
  "leap_year y = (y mod 4 = 0 \<and> (y mod 100 \<noteq> 0 \<or> y mod 400 = 0))"

definition days_in_month :: "nat \<Rightarrow> nat \<Rightarrow> nat" where
  "days_in_month y m =
     (if m = 2 then (if leap_year y then 29 else 28)
      else if m \<in> {4, 6, 9, 11} then 30 else 31)"

text \<open>Days from January 1, 1970 to the given date of the Gregorian calendar.\<close>

definition days_from_civil :: "nat \<Rightarrow> nat \<Rightarrow> nat \<Rightarrow> int" where
  "days_from_civil y m d =
     (let py = int y - 1
      in 365 * py + py div 4 - py div 100 + py div 400
         + int (sum_list (map (days_in_month y) [1..<m])) + int d - 1 - 719162)"

definition num_of :: "string \<Rightarrow> nat option" where
  "num_of s = (if list_all is_digit s then Some (digits_val s) else None)"

definition parse_offset :: "string \<Rightarrow> int option" where
  "parse_offset z =
     (if z = ''Z'' then Some 0
      else if length z = 6 \<and> z ! 3 = CHR '':'' then
        (case (num_of (take 2 (drop 1 z)), num_of (drop 4 z)) of
           (Some h, Some m) \<Rightarrow>
             if h \<le> 24 \<and> m \<le> 60 then
               (if z ! 0 = CHR ''+'' then Some (int (3600 * h + 60 * m))
                else if z ! 0 = CHR ''-'' then Some (- int (3600 * h + 60 * m)) else None)
             else None
         | _ \<Rightarrow> None)
      else None)"

text \<open>
  \<open>time.Parse(time.RFC3339Nano, s)\<close> on the RFC 3339 grammar. The lenient forms Go
  also takes (a one-digit hour, a comma before the fraction) are not accepted here.
\<close>

definition parse_rfc3339 :: "string \<Rightarrow> gtime option" where
  "parse_rfc3339 s =
     (if length s < 20 \<or> s ! 4 \<noteq> CHR ''-'' \<or> s ! 7 \<noteq> CHR ''-'' \<or> s ! 10 \<noteq> CHR ''T''
         \<or> s ! 13 \<noteq> CHR '':'' \<or> s ! 16 \<noteq> CHR '':'' then None
      else case (num_of (take 4 s), num_of (take 2 (drop 5 s)), num_of (take 2 (drop 8 s)),
                 num_of (take 2 (drop 11 s)), num_of (take 2 (drop 14 s)), num_of (take 2 (drop 17 s)))
      of (Some y, Some mo, Some d, Some h, Some mi, Some se) \<Rightarrow>
        (let rest = drop 19 s;
             frac = (if rest \<noteq> [] \<and> hd rest = CHR ''.'' then takeWhile is_digit (tl rest) else []);
             zone = (if frac \<noteq> [] then drop (Suc (length frac)) rest else rest)
         in case parse_offset zone of
              None \<Rightarrow> None
            | Some off \<Rightarrow>
                if 1 \<le> mo \<and> mo \<le> 12 \<and> 1 \<le> d \<and> d \<le> days_in_month y mo \<and> h < 24 \<and> mi < 60 \<and> se < 60
                then Some (seconds (86400 * days_from_civil y mo d + int (3600 * h + 60 * mi + se) - off)
                           + int (digits_val (take 9 (frac @ ''000000000''))))
                else None)
      | _ \<Rightarrow> None)"

fun time_val :: "gval \<Rightarrow> gtime" where
  "time_val (VTime t) = t"
| "time_val (VStr s) = (case parse_rfc3339 s of Some t \<Rightarrow> t | None \<Rightarrow> zero_time)"
| "time_val (VInt64 n) = of_unix_milli n"
| "time_val (VF64 f) = of_unix_milli (f_trunc f)"
| "time_val _ = zero_time"

lemmas parse_time_defs = parse_rfc3339_def num_of_def digits_val_def digit_val_def is_digit_def
  byte_of_def parse_offset_def days_from_civil_def days_in_month_def leap_year_def seconds_def
  nsec_per_sec_def

lemma parse_epoch: "parse_rfc3339 ''1970-01-01T00:00:00Z'' = Some 0"
  by (simp add: parse_time_defs upt_rec)

lemma parse_leap_day:
  "parse_rfc3339 ''2024-02-29T12:30:15.25+02:00'' = Some 1709202615250000000"
  by (simp add: parse_time_defs upt_rec)

lemma parse_no_leap_day: "parse_rfc3339 ''2023-02-29T12:30:15Z'' = None"
  by (simp add: parse_time_defs upt_rec)

end
