(* ===== verification/Storage_Query.thy ===== *)
theory Storage_Query
  imports Go_Values
begin

text \<open>
  Filters: \<open>Where\<close>, \<open>matchOne\<close> and \<open>Matches\<close> of storage/storage.go, with the
  substring tests of storage/compare.go, and the sorting and paging every
  \<open>FindMany\<close> applies.
\<close>

section \<open>Clauses\<close>

datatype connector = ConnDefault | ConnAnd | ConnOr | ConnOther

text \<open>A filter argument: a scalar, or the elements \<open>anySlice\<close> extracts from a slice.\<close>

datatype warg = WVal gval | WSlice "gval list"

record clause =
  w_field :: string
  w_op :: operator
  w_value :: warg
  w_conn :: connector

text \<open>\<open>storage.W\<close>: equality, connector left empty.\<close>

definition W :: "string \<Rightarrow> gval \<Rightarrow> clause" where
  "W f v = \<lparr>w_field = f, w_op = OpEq, w_value = WVal v, w_conn = ConnDefault\<rparr>"

definition W_op :: "string \<Rightarrow> operator \<Rightarrow> gval \<Rightarrow> clause" where
  "W_op f op v = \<lparr>w_field = f, w_op = op, w_value = WVal v, w_conn = ConnDefault\<rparr>"

fun any_slice :: "warg \<Rightarrow> gval list option" where
  "any_slice (WSlice vs) = Some vs"
| "any_slice (WVal _) = None"

fun arg_equal :: "gval \<Rightarrow> warg \<Rightarrow> bool" where
  "arg_equal v (WVal x) = val_equal v x"
| "arg_equal v (WSlice _) = False"

fun arg_str :: "warg \<Rightarrow> string" where
  "arg_str (WVal x) = str_val x"
| "arg_str (WSlice _) = []"

fun arg_compare :: "gval \<Rightarrow> warg \<Rightarrow> operator \<Rightarrow> bool" where
  "arg_compare v (WVal x) op = val_compare v x op"
| "arg_compare v (WSlice _) op = False"

definition fold_contains :: "string \<Rightarrow> string \<Rightarrow> bool" where
  "fold_contains s sub = str_contains (to_lower s) (to_lower sub)"

definition fold_has_prefix :: "string \<Rightarrow> string \<Rightarrow> bool" where
  "fold_has_prefix s p = has_prefix (to_lower s) (to_lower p)"

definition fold_has_suffix :: "string \<Rightarrow> string \<Rightarrow> bool" where
  "fold_has_suffix s p = has_suffix (to_lower s) (to_lower p)"

definition match_one :: "grec \<Rightarrow> clause \<Rightarrow> bool" where
  "match_one r w =
     (let v = rget r (w_field w);
          op = (if w_op w = OpDefault then OpEq else w_op w)
      in case op of
           OpEq \<Rightarrow> arg_equal v (w_value w)
         | OpNe \<Rightarrow> \<not> arg_equal v (w_value w)
         | OpIn \<Rightarrow> (case any_slice (w_value w) of
                     None \<Rightarrow> False
                   | Some vs \<Rightarrow> list_ex (\<lambda>item. val_equal v item) vs)
         | OpContains \<Rightarrow> fold_contains (str_val v) (arg_str (w_value w))
         | OpStartsWith \<Rightarrow> fold_has_prefix (str_val v) (arg_str (w_value w))
         | OpEndsWith \<Rightarrow> fold_has_suffix (str_val v) (arg_str (w_value w))
         | OpGt \<Rightarrow> arg_compare v (w_value w) op
         | OpGte \<Rightarrow> arg_compare v (w_value w) op
         | OpLt \<Rightarrow> arg_compare v (w_value w) op
         | OpLte \<Rightarrow> arg_compare v (w_value w) op
         | _ \<Rightarrow> False)"

text \<open>
  The clauses fold from the left: the connector of a clause joins it to the result
  so far, and the connector of the first clause is not looked at.
\<close>

definition matches :: "grec \<Rightarrow> clause list \<Rightarrow> bool" where
  "matches r ws =
     (case ws of
        [] \<Rightarrow> True
      | w # rest \<Rightarrow>
          foldl (\<lambda>result v. if w_conn v = ConnOr then result \<or> match_one r v
                            else result \<and> match_one r v)
            (match_one r w) rest)"

lemma W_sel [simp]:
  "w_field (W f v) = f" "w_op (W f v) = OpEq" "w_value (W f v) = WVal v" "w_conn (W f v) = ConnDefault"
  by (simp_all add: W_def)

lemma W_op_sel [simp]:
  "w_field (W_op f op v) = f" "w_op (W_op f op v) = op" "w_value (W_op f op v) = WVal v"
  "w_conn (W_op f op v) = ConnDefault"
  by (simp_all add: W_op_def)

lemma match_one_W [simp]: "match_one r (W f v) \<longleftrightarrow> val_equal (rget r f) v"
  by (simp add: match_one_def)

lemma matches_Nil [simp]: "matches r []"
  by (simp add: matches_def)

lemma matches_single [simp]: "matches r [w] \<longleftrightarrow> match_one r w"
  by (simp add: matches_def)

lemma matches_pair [simp]:
  "w_conn v = ConnDefault \<Longrightarrow> matches r [w, v] \<longleftrightarrow> match_one r w \<and> match_one r v"
  by (simp add: matches_def)

lemma foldl_and:
  "(\<And>v. v \<in> set ws \<Longrightarrow> w_conn v \<noteq> ConnOr) \<Longrightarrow>
   foldl (\<lambda>result v. if w_conn v = ConnOr then result \<or> P v else result \<and> P v) b ws
   \<longleftrightarrow> b \<and> (\<forall>v\<in>set ws. P v)"
  by (induction ws arbitrary: b) auto

text \<open>Clauses without an OR connector all have to hold.\<close>

lemma matches_all:
  "(\<And>v. v \<in> set (tl ws) \<Longrightarrow> w_conn v \<noteq> ConnOr) \<Longrightarrow> matches r ws \<longleftrightarrow> (\<forall>w\<in>set ws. match_one r w)"
  by (cases ws) (auto simp: matches_def foldl_and)

lemma match_one_rget_cong: "rget r = rget r' \<Longrightarrow> match_one r w = match_one r' w"
  by (simp add: match_one_def)

lemma matches_cong: "map_of r = map_of r' \<Longrightarrow> matches r ws = matches r' ws"
proof -
  assume "map_of r = map_of r'"
  then have "rget r = rget r'" by (rule rget_cong)
  then have "match_one r = match_one r'"
    by (auto simp: match_one_def fun_eq_iff)
  then show ?thesis by (simp only: matches_def)
qed

text \<open>An OpNe clause on a key the record does not have is true of any scalar but nil.\<close>

lemma match_ne_missing: "\<not> ghas r f \<Longrightarrow> v \<noteq> VNil \<Longrightarrow> match_one r (W_op f OpNe v)"
  by (cases v) (auto simp: match_one_def ghas_def rget_def val_equal_def)

section \<open>Sorting and paging\<close>

record find_options =
  fo_limit :: int
  fo_offset :: int
  fo_sort :: "(string \<times> string) option"

definition sort_desc :: "string \<Rightarrow> find_options" where
  "sort_desc f = \<lparr>fo_limit = 0, fo_offset = 0, fo_sort = Some (f, ''desc'')\<rparr>"

definition less_by :: "string \<Rightarrow> bool \<Rightarrow> grec \<Rightarrow> grec \<Rightarrow> bool" where
  "less_by f desc a b = (if desc then less_value (rget b f) (rget a f)
                         else less_value (rget a f) (rget b f))"

definition page :: "find_options option \<Rightarrow> grec list \<Rightarrow> grec list" where
  "page opts out =
     (case opts of
        None \<Rightarrow> out
      | Some fo \<Rightarrow>
          (let sorted = (case fo_sort fo of
                           None \<Rightarrow> out
                         | Some (f, dir) \<Rightarrow> stable_sort (less_by f (dir = ''desc'')) out);
               skipped = (if fo_offset fo > 0 then drop (nat (fo_offset fo)) sorted else sorted)
           in if fo_limit fo > 0 then take (nat (fo_limit fo)) skipped else skipped))"

lemma page_None [simp]: "page None out = out"
  by (simp add: page_def)

lemma page_Nil [simp]: "page opts [] = []"
  by (auto simp: page_def split: option.splits)

lemma page_subset: "set (page opts out) \<subseteq> set out"
  by (auto simp: page_def Let_def split: option.splits if_splits
      dest!: in_set_takeD in_set_dropD)

lemma set_page_sort [simp]: "set (page (Some (sort_desc f)) out) = set out"
  by (simp add: page_def sort_desc_def)

end
