(* ===== verification/Storage_Schema.thy ===== *)
theory Storage_Schema
  imports Storage_Query
begin

text \<open>
  The schema of storage/storage.go: \<open>Field\<close>, \<open>Table\<close>, \<open>Schema\<close> and their
  operations, and \<open>CoreSchema\<close>. A field default of nil is \<open>None\<close>.
\<close>

section \<open>Data\<close>

datatype field_type = FieldString | FieldBool | FieldInt | FieldTime | FieldText

record reference =
  ref_model :: string
  ref_field :: string
  ref_on_delete :: string

record field =
  fd_name :: string
  fd_type :: field_type
  fd_required :: bool
  fd_unique :: bool
  fd_index :: bool
  fd_references :: "reference option"
  fd_default :: "gval option"
  fd_input :: bool

record table =
  tb_name :: string
  tb_fields :: "field list"
  tb_uniques :: "string list list"

record schema =
  sc_tables :: "table gmap"
  sc_order :: "string list"

section \<open>Table operations\<close>

definition field_by_name :: "table \<Rightarrow> string \<Rightarrow> field option" where
  "field_by_name t name = find (\<lambda>f. fd_name f = name) (tb_fields t)"

definition has_field :: "table \<Rightarrow> string \<Rightarrow> bool" where
  "has_field t name = (field_by_name t name \<noteq> None)"

fun apply_default_fields :: "field list \<Rightarrow> grec \<Rightarrow> grec" where
  "apply_default_fields [] data = data"
| "apply_default_fields (f # fs) data =
     (case fd_default f of
        None \<Rightarrow> apply_default_fields fs data
      | Some v \<Rightarrow> apply_default_fields fs (if ghas data (fd_name f) then data else gput data (fd_name f) v))"

definition apply_defaults :: "table \<Rightarrow> grec \<Rightarrow> grec" where
  "apply_defaults t data = apply_default_fields (tb_fields t) data"

definition unique_fields :: "table \<Rightarrow> string list" where
  "unique_fields t = map fd_name (filter fd_unique (tb_fields t))"

fun same_columns :: "string list \<Rightarrow> string list \<Rightarrow> bool" where
  "same_columns [] [] = True"
| "same_columns (a # as) (b # bs) = (a = b \<and> same_columns as bs)"
| "same_columns _ _ = False"

definition add_unique_constraint :: "string list \<Rightarrow> table \<Rightarrow> table" where
  "add_unique_constraint cols t =
     (if length cols < 2 then t
      else if list_ex (\<lambda>uc. same_columns uc cols) (tb_uniques t) then t
      else t\<lparr>tb_uniques := tb_uniques t @ [cols]\<rparr>)"

definition add_field :: "table \<Rightarrow> field \<Rightarrow> table" where
  "add_field t f = (if has_field t (fd_name f) then t else t\<lparr>tb_fields := tb_fields t @ [f]\<rparr>)"

section \<open>Schema operations\<close>

definition new_schema :: schema where
  "new_schema = \<lparr>sc_tables = [], sc_order = []\<rparr>"

definition add_table :: "table \<Rightarrow> schema \<Rightarrow> schema" where
  "add_table t s =
     (case map_of (sc_tables s) (tb_name t) of
        Some existing \<Rightarrow>
          (let e1 = foldl add_field existing (tb_fields t);
               e2 = foldl (\<lambda>e uc. add_unique_constraint uc e) e1 (tb_uniques t)
           in s\<lparr>sc_tables := gput (sc_tables s) (tb_name t) e2\<rparr>)
      | None \<Rightarrow>
          s\<lparr>sc_tables := gput (sc_tables s) (tb_name t) t, sc_order := sc_order s @ [tb_name t]\<rparr>)"

definition add_fields :: "string \<Rightarrow> field list \<Rightarrow> schema \<Rightarrow> schema" where
  "add_fields model fs s =
     (case map_of (sc_tables s) model of
        Some t \<Rightarrow> s\<lparr>sc_tables := gput (sc_tables s) model (foldl add_field t fs)\<rparr>
      | None \<Rightarrow>
          s\<lparr>sc_tables := gput (sc_tables s) model
              (foldl add_field \<lparr>tb_name = model, tb_fields = [], tb_uniques = []\<rparr> fs),
            sc_order := sc_order s @ [model]\<rparr>)"

definition table_names :: "schema \<Rightarrow> string list" where
  "table_names s = sc_order s"

definition schema_table :: "schema option \<Rightarrow> string \<Rightarrow> table option" where
  "schema_table s model = (case s of None \<Rightarrow> None | Some sc \<Rightarrow> map_of (sc_tables sc) model)"

section \<open>The core schema\<close>

definition col :: "string \<Rightarrow> field_type \<Rightarrow> field" where
  "col n ty = \<lparr>fd_name = n, fd_type = ty, fd_required = False, fd_unique = False, fd_index = False,
               fd_references = None, fd_default = None, fd_input = False\<rparr>"

abbreviation required :: "field \<Rightarrow> field" where "required f \<equiv> f\<lparr>fd_required := True\<rparr>"
abbreviation unique :: "field \<Rightarrow> field" where "unique f \<equiv> f\<lparr>fd_unique := True\<rparr>"
abbreviation indexed :: "field \<Rightarrow> field" where "indexed f \<equiv> f\<lparr>fd_index := True\<rparr>"
abbreviation defaulted :: "gval \<Rightarrow> field \<Rightarrow> field" where
  "defaulted v f \<equiv> f\<lparr>fd_default := Some v\<rparr>"

definition model_user :: string where "model_user = ''user''"
definition model_session :: string where "model_session = ''session''"
definition model_account :: string where "model_account = ''account''"
definition model_verification :: string where "model_verification = ''verification''"

definition ref_user :: reference where
  "ref_user = \<lparr>ref_model = model_user, ref_field = ''id'', ref_on_delete = ''cascade''\<rparr>"

abbreviation references_user :: "field \<Rightarrow> field" where
  "references_user f \<equiv> f\<lparr>fd_references := Some ref_user\<rparr>"

definition user_table :: table where
  "user_table = \<lparr>tb_name = model_user, tb_fields =
     [unique (required (col ''id'' FieldString)),
      col ''name'' FieldString,
      unique (required (col ''email'' FieldString)),
      defaulted (VBool False) (col ''emailVerified'' FieldBool),
      col ''image'' FieldText,
      required (col ''createdAt'' FieldTime),
      required (col ''updatedAt'' FieldTime)], tb_uniques = []\<rparr>"

definition session_table :: table where
  "session_table = \<lparr>tb_name = model_session, tb_fields =
     [unique (required (col ''id'' FieldString)),
      references_user (indexed (required (col ''userId'' FieldString))),
      unique (required (col ''token'' FieldString)),
      indexed (required (col ''expiresAt'' FieldTime)),
      col ''ipAddress'' FieldString,
      col ''userAgent'' FieldText,
      required (col ''createdAt'' FieldTime),
      required (col ''updatedAt'' FieldTime)], tb_uniques = []\<rparr>"

definition account_table :: table where
  "account_table = \<lparr>tb_name = model_account, tb_fields =
     [unique (required (col ''id'' FieldString)),
      references_user (indexed (required (col ''userId'' FieldString))),
      required (col ''accountId'' FieldString),
      required (col ''providerId'' FieldString),
      col ''accessToken'' FieldText,
      col ''refreshToken'' FieldText,
      col ''idToken'' FieldText,
      col ''accessTokenExpiresAt'' FieldTime,
      col ''refreshTokenExpiresAt'' FieldTime,
      col ''scope'' FieldText,
      col ''password'' FieldText,
      required (col ''createdAt'' FieldTime),
      required (col ''updatedAt'' FieldTime)],
     tb_uniques = [[''providerId'', ''accountId'']]\<rparr>"

definition verification_table :: table where
  "verification_table = \<lparr>tb_name = model_verification, tb_fields =
     [unique (required (col ''id'' FieldString)),
      indexed (required (col ''identifier'' FieldString)),
      required (col ''value'' FieldText),
      indexed (required (col ''expiresAt'' FieldTime)),
      required (col ''createdAt'' FieldTime),
      required (col ''updatedAt'' FieldTime)], tb_uniques = []\<rparr>"

definition core_schema :: schema where
  "core_schema =
     add_table verification_table (add_table account_table
       (add_table session_table (add_table user_table new_schema)))"

lemmas model_names = model_user_def model_session_def model_account_def model_verification_def
lemmas core_tables = user_table_def session_table_def account_table_def verification_table_def

section \<open>Extension is conservative\<close>

lemma find_append: "find P (xs @ ys) = (case find P xs of None \<Rightarrow> find P ys | Some x \<Rightarrow> Some x)"
  by (induction xs) auto

lemma field_by_name_add_field:
  "field_by_name (add_field t f) n =
     (case field_by_name t n of Some g \<Rightarrow> Some g | None \<Rightarrow> if fd_name f = n then Some f else None)"
  by (auto simp: add_field_def has_field_def field_by_name_def find_append split: option.splits)

lemma field_by_name_add_fields_keep:
  "field_by_name t n = Some g \<Longrightarrow> field_by_name (foldl add_field t fs) n = Some g"
  by (induction fs arbitrary: t) (auto simp: field_by_name_add_field)

lemma field_by_name_uniques [simp]:
  "field_by_name (add_unique_constraint uc t) n = field_by_name t n"
  by (simp add: add_unique_constraint_def field_by_name_def)

lemma field_by_name_foldl_uniques [simp]:
  "field_by_name (foldl (\<lambda>e uc. add_unique_constraint uc e) t ucs) n = field_by_name t n"
  by (induction ucs arbitrary: t) auto

lemma same_columns_eq [simp]: "same_columns a b \<longleftrightarrow> a = b"
  by (induction a b rule: same_columns.induct) auto

lemma uniques_add_unique: "set (tb_uniques t) \<subseteq> set (tb_uniques (add_unique_constraint uc t))"
  by (auto simp: add_unique_constraint_def)

lemma uniques_foldl_add_field [simp]: "tb_uniques (foldl add_field t fs) = tb_uniques t"
  by (induction fs arbitrary: t) (auto simp: add_field_def)

lemma uniques_foldl: "set (tb_uniques t) \<subseteq> set (tb_uniques (foldl (\<lambda>e uc. add_unique_constraint uc e) t ucs))"
proof (induction ucs arbitrary: t)
  case (Cons uc ucs)
  then show ?case using uniques_add_unique[of t uc] by fastforce
qed simp

definition schema_field :: "schema \<Rightarrow> string \<Rightarrow> string \<Rightarrow> field option" where
  "schema_field s m n = (case map_of (sc_tables s) m of None \<Rightarrow> None | Some t \<Rightarrow> field_by_name t n)"

lemma schema_field_add_table:
  "schema_field s m n = Some g \<Longrightarrow> schema_field (add_table t s) m n = Some g"
  by (auto simp: schema_field_def add_table_def Let_def field_by_name_add_fields_keep
      split: option.splits)

lemma schema_field_add_fields:
  "schema_field s m n = Some g \<Longrightarrow> schema_field (add_fields m' fs s) m n = Some g"
  by (auto simp: schema_field_def add_fields_def field_by_name_add_fields_keep split: option.splits)

lemma unique_fields_iff:
  "n \<in> set (unique_fields t) \<longleftrightarrow> (\<exists>f\<in>set (tb_fields t). fd_name f = n \<and> fd_unique f)"
  by (auto simp: unique_fields_def)

lemma field_by_name_unique: "field_by_name t n = Some f \<Longrightarrow> fd_unique f \<Longrightarrow> n \<in> set (unique_fields t)"
  by (auto simp: unique_fields_iff field_by_name_def find_Some_iff)

text \<open>Every table of the schema has a unique column named id.\<close>

definition wf_table :: "table \<Rightarrow> bool" where
  "wf_table t = (case field_by_name t ''id'' of None \<Rightarrow> False | Some f \<Rightarrow> fd_unique f \<and> fd_default f = None)"

definition wf_schema :: "schema \<Rightarrow> bool" where
  "wf_schema s = list_all (\<lambda>p. wf_table (snd p)) (sc_tables s)"

lemma wf_tableD: "wf_table t \<Longrightarrow> ''id'' \<in> set (unique_fields t)"
  by (auto simp: wf_table_def field_by_name_unique split: option.splits)

lemma wf_schemaD: "wf_schema s \<Longrightarrow> map_of (sc_tables s) m = Some t \<Longrightarrow> wf_table t"
  unfolding wf_schema_def list_all_iff using map_of_SomeD by fastforce

lemma wf_table_add_fields: "wf_table t \<Longrightarrow> wf_table (foldl add_field t fs)"
  by (auto simp: wf_table_def field_by_name_add_fields_keep split: option.splits)

lemma wf_table_uniques: "wf_table t \<Longrightarrow> wf_table (foldl (\<lambda>e uc. add_unique_constraint uc e) t ucs)"
  by (simp add: wf_table_def)

lemma wf_schema_gput:
  assumes "wf_schema s" and "wf_table t"
  shows "list_all (\<lambda>p. wf_table (snd p)) (gput (sc_tables s) m t)"
proof -
  have "set (AList.update m t al) \<subseteq> insert (m, t) (set al)" for al :: "table gmap"
    by (induction al) auto
  then show ?thesis using assms by (fastforce simp: wf_schema_def list_all_iff gput_def)
qed

lemma wf_schema_add_table:
  assumes "wf_schema s" and "wf_table t"
  shows "wf_schema (add_table t s)"
proof (cases "map_of (sc_tables s) (tb_name t)")
  case None
  then show ?thesis
    using wf_schema_gput[OF assms] by (simp add: add_table_def wf_schema_def)
next
  case (Some e)
  then have "wf_table (foldl (\<lambda>e uc. add_unique_constraint uc e)
      (foldl add_field e (tb_fields t)) (tb_uniques t))"
    using assms(1) by (intro wf_table_uniques wf_table_add_fields wf_schemaD)
  from wf_schema_gput[OF assms(1) this] Some show ?thesis
    by (simp add: add_table_def Let_def wf_schema_def)
qed

lemma wf_schema_add_fields:
  assumes "wf_schema s" and "map_of (sc_tables s) m = Some t"
  shows "wf_schema (add_fields m fs s)"
proof -
  have "wf_table (foldl add_field t fs)"
    using assms by (blast intro: wf_table_add_fields wf_schemaD)
  then show ?thesis
    using assms wf_schema_gput by (simp add: add_fields_def wf_schema_def[of "_\<lparr>sc_tables := _\<rparr>"])
qed

lemma wf_core_schema: "wf_schema core_schema"
proof -
  have "wf_table user_table" "wf_table session_table" "wf_table account_table"
    "wf_table verification_table"
    by (simp_all add: wf_table_def core_tables field_by_name_def col_def)
  moreover have "wf_schema new_schema" by (simp add: wf_schema_def new_schema_def)
  ultimately show ?thesis unfolding core_schema_def by (intro wf_schema_add_table)
qed

section \<open>Defaults\<close>

lemma apply_default_fields_keep:
  "map_of d k = Some v \<Longrightarrow> map_of (apply_default_fields fs d) k = Some v"
proof (induction fs arbitrary: d)
  case (Cons f fs)
  then show ?case by (cases "k = fd_name f") (auto split: option.splits simp: ghas_def)
qed simp

lemma apply_defaults_keep: "map_of d k = Some v \<Longrightarrow> map_of (apply_defaults t d) k = Some v"
  by (simp add: apply_defaults_def apply_default_fields_keep)

text \<open>A key absent from the data gets the default of the first field of that name that has one.\<close>

lemma apply_default_fields_absent:
  "map_of d k = None \<Longrightarrow> map_of (apply_default_fields fs d) k =
     (case find (\<lambda>f. fd_name f = k \<and> fd_default f \<noteq> None) fs of None \<Rightarrow> None | Some f \<Rightarrow> fd_default f)"
proof (induction fs arbitrary: d)
  case (Cons f fs)
  show ?case
  proof (cases "fd_default f")
    case None
    with Cons show ?thesis by simp
  next
    case (Some v)
    show ?thesis
    proof (cases "fd_name f = k")
      case True
      with Some Cons.prems show ?thesis
        by (simp add: ghas_def apply_default_fields_keep)
    next
      case False
      with Some Cons show ?thesis by simp
    qed
  qed
qed simp

end
