(* ===== verification/Storage_Spec.thy ===== *)
theory Storage_Spec
  imports Storage_Schema
begin

text \<open>
  The storage interface and its reference semantics. \<open>adapter\<close> is the interface
  \<open>storage.Adapter\<close> (with the optional \<open>Transactor\<close>) as a record of operations over
  a state type, so that the code above it is defined once for every adapter, as Go's
  dynamic dispatch does. \<open>sdb\<close> is the reference store: per model the rows in
  insertion order, searched by scanning. The locale \<open>storage_contract\<close> says what it
  means for an adapter to implement the reference.
\<close>

section \<open>The interface\<close>

text \<open>The record a transaction yields is what its function leaves in the caller's variables.\<close>

record 's adapter =
  ad_create :: "string \<Rightarrow> grec \<Rightarrow> 's \<Rightarrow> ('s, grec) outcome"
  ad_find_one :: "string \<Rightarrow> clause list \<Rightarrow> 's \<Rightarrow> grec result"
  ad_find_many :: "string \<Rightarrow> clause list \<Rightarrow> find_options option \<Rightarrow> 's \<Rightarrow> grec list result"
  ad_update :: "string \<Rightarrow> clause list \<Rightarrow> grec \<Rightarrow> 's \<Rightarrow> ('s, grec) outcome"
  ad_update_many :: "string \<Rightarrow> clause list \<Rightarrow> grec \<Rightarrow> 's \<Rightarrow> ('s, nat) outcome"
  ad_delete :: "string \<Rightarrow> clause list \<Rightarrow> 's \<Rightarrow> ('s, unit) outcome"
  ad_delete_many :: "string \<Rightarrow> clause list \<Rightarrow> 's \<Rightarrow> ('s, nat) outcome"
  ad_count :: "string \<Rightarrow> clause list \<Rightarrow> 's \<Rightarrow> nat result"
  ad_transaction :: "(('s \<Rightarrow> ('s, grec) outcome) \<Rightarrow> 's \<Rightarrow> ('s, grec) outcome) option"

section \<open>Shared checks\<close>

text \<open>Go's \<open>==\<close> on interface values; NaN differs from itself.\<close>

abbreviation go_eq :: "gval \<Rightarrow> gval \<Rightarrow> bool" where "go_eq \<equiv> deep_equal"

fun indexable :: "gval \<Rightarrow> bool" where
  "indexable (VStr _) = True"
| "indexable (VBool _) = True"
| "indexable (VInt _) = True"
| "indexable (VInt32 _) = True"
| "indexable (VInt64 _) = True"
| "indexable (VF32 _) = True"
| "indexable (VF64 _) = True"
| "indexable _ = False"

definition same_record :: "grec \<Rightarrow> grec \<Rightarrow> bool" where
  "same_record a b =
     (case (map_of a ''id'', map_of b ''id'') of
        (Some x, Some y) \<Rightarrow> go_eq x y
      | _ \<Rightarrow> False)"

definition skipped :: "grec option \<Rightarrow> grec \<Rightarrow> bool" where
  "skipped skip row = (case skip of None \<Rightarrow> False | Some s \<Rightarrow> same_record row s)"

text \<open>The values of a composite key, if none is missing or nil.\<close>

fun composite_key :: "string list \<Rightarrow> grec \<Rightarrow> gval list option" where
  "composite_key [] r = Some []"
| "composite_key (c # cs) r =
     (case map_of r c of
        None \<Rightarrow> None
      | Some v \<Rightarrow> if v = VNil then None else map_option (\<lambda>vs. v # vs) (composite_key cs r))"

fun composite_match :: "string list \<Rightarrow> gval list \<Rightarrow> grec \<Rightarrow> bool" where
  "composite_match (c # cs) (v # vs) row = (go_eq (rget row c) v \<and> composite_match cs vs row)"
| "composite_match _ _ row = True"

definition violates_composite :: "table option \<Rightarrow> grec list \<Rightarrow> grec \<Rightarrow> grec option \<Rightarrow> bool" where
  "violates_composite t rows r skip =
     (case t of
        None \<Rightarrow> False
      | Some tb \<Rightarrow>
          list_ex (\<lambda>uc. case composite_key uc r of
                          None \<Rightarrow> False
                        | Some vals \<Rightarrow>
                            list_ex (\<lambda>row. \<not> skipped skip row \<and> composite_match uc vals row) rows)
            (tb_uniques tb))"

text \<open>
  The keys a table does not declare, in the order of the error message. A model
  without a table is not checked.
\<close>

definition unknown_keys :: "table option \<Rightarrow> string list \<Rightarrow> string list" where
  "unknown_keys t ks =
     (case t of
        None \<Rightarrow> []
      | Some tb \<Rightarrow> stable_sort str_less (remdups (filter (\<lambda>k. \<not> has_field tb k) ks)))"

definition check_writable_fields :: "table option \<Rightarrow> grec \<Rightarrow> gerror option" where
  "check_writable_fields t data =
     (case unknown_keys t (map fst data) of [] \<Rightarrow> None | ks \<Rightarrow> Some (ErrUnknownField ks))"

definition check_where_fields :: "table option \<Rightarrow> clause list \<Rightarrow> gerror option" where
  "check_where_fields t ws =
     (case unknown_keys t (map w_field ws) of [] \<Rightarrow> None | ks \<Rightarrow> Some (ErrUnknownField ks))"

section \<open>The reference store\<close>

record sdb =
  sd_rows :: "string \<Rightarrow> grec list"
  sd_schema :: "schema option"

definition sd_table :: "sdb \<Rightarrow> string \<Rightarrow> table option" where
  "sd_table d m = schema_table (sd_schema d) m"

definition uniq_of :: "table option \<Rightarrow> string list" where
  "uniq_of t = (case t of None \<Rightarrow> [''id''] | Some tb \<Rightarrow> unique_fields tb)"

definition sd_uniq :: "sdb \<Rightarrow> string \<Rightarrow> string list" where
  "sd_uniq d m = uniq_of (sd_table d m)"

definition set_rows :: "string \<Rightarrow> grec list \<Rightarrow> sdb \<Rightarrow> sdb" where
  "set_rows m rows d = d\<lparr>sd_rows := (sd_rows d)(m := rows)\<rparr>"

text \<open>Two rows clash on a field when both have it, with the same indexable value.\<close>

definition clash :: "string \<Rightarrow> grec \<Rightarrow> grec \<Rightarrow> bool" where
  "clash f a b =
     (case (map_of a f, map_of b f) of
        (Some x, Some y) \<Rightarrow> indexable x \<and> go_eq x y
      | _ \<Rightarrow> False)"

definition spec_violates :: "sdb \<Rightarrow> string \<Rightarrow> grec \<Rightarrow> grec option \<Rightarrow> bool" where
  "spec_violates d m r skip =
     (list_ex (\<lambda>f. list_ex (\<lambda>row. \<not> skipped skip row \<and> clash f r row) (sd_rows d m)) (sd_uniq d m)
      \<or> violates_composite (sd_table d m) (sd_rows d m) r skip)"

fun map_first :: "('a \<Rightarrow> bool) \<Rightarrow> ('a \<Rightarrow> 'a) \<Rightarrow> 'a list \<Rightarrow> 'a list" where
  "map_first P f [] = []"
| "map_first P f (x # xs) = (if P x then f x # xs else x # map_first P f xs)"

fun remove_first :: "('a \<Rightarrow> bool) \<Rightarrow> 'a list \<Rightarrow> 'a list" where
  "remove_first P [] = []"
| "remove_first P (x # xs) = (if P x then xs else x # remove_first P xs)"

definition spec_create :: "string \<Rightarrow> grec \<Rightarrow> sdb \<Rightarrow> (sdb, grec) outcome" where
  "spec_create m data d =
     (case check_writable_fields (sd_table d m) data of
        Some e \<Rightarrow> (d, Inl e)
      | None \<Rightarrow>
          (let r = (case sd_table d m of None \<Rightarrow> data | Some t \<Rightarrow> apply_defaults t data)
           in if spec_violates d m r None then (d, Inl ErrUniqueViolation)
              else (set_rows m (sd_rows d m @ [r]) d, Inr r)))"

definition spec_find_one :: "string \<Rightarrow> clause list \<Rightarrow> sdb \<Rightarrow> grec result" where
  "spec_find_one m ws d =
     (case check_where_fields (sd_table d m) ws of
        Some e \<Rightarrow> Inl e
      | None \<Rightarrow> (case find (\<lambda>r. matches r ws) (sd_rows d m) of
                    None \<Rightarrow> Inl ErrNotFound
                  | Some r \<Rightarrow> Inr r))"

definition spec_find_many ::
  "string \<Rightarrow> clause list \<Rightarrow> find_options option \<Rightarrow> sdb \<Rightarrow> grec list result" where
  "spec_find_many m ws opts d =
     (case check_where_fields (sd_table d m) ws of
        Some e \<Rightarrow> Inl e
      | None \<Rightarrow> Inr (page opts (filter (\<lambda>r. matches r ws) (sd_rows d m))))"

definition spec_update :: "string \<Rightarrow> clause list \<Rightarrow> grec \<Rightarrow> sdb \<Rightarrow> (sdb, grec) outcome" where
  "spec_update m ws u d =
     (case check_where_fields (sd_table d m) ws of
        Some e \<Rightarrow> (d, Inl e)
      | None \<Rightarrow>
          (case check_writable_fields (sd_table d m) u of
             Some e \<Rightarrow> (d, Inl e)
           | None \<Rightarrow>
               (case find (\<lambda>r. matches r ws) (sd_rows d m) of
                  None \<Rightarrow> (d, Inl ErrNotFound)
                | Some row \<Rightarrow>
                    if spec_violates d m (gmerge row u) (Some row) then (d, Inl ErrUniqueViolation)
                    else (set_rows m (map_first (\<lambda>r. matches r ws) (\<lambda>r. gmerge r u) (sd_rows d m)) d,
                          Inr (gmerge row u)))))"

definition spec_update_many :: "string \<Rightarrow> clause list \<Rightarrow> grec \<Rightarrow> sdb \<Rightarrow> (sdb, nat) outcome" where
  "spec_update_many m ws u d =
     (if u = [] then (d, Inr 0)
      else case check_where_fields (sd_table d m) ws of
        Some e \<Rightarrow> (d, Inl e)
      | None \<Rightarrow>
          (case check_writable_fields (sd_table d m) u of
             Some e \<Rightarrow> (d, Inl e)
           | None \<Rightarrow>
               (set_rows m (map (\<lambda>r. if matches r ws then gmerge r u else r) (sd_rows d m)) d,
                Inr (length (filter (\<lambda>r. matches r ws) (sd_rows d m))))))"

definition spec_delete :: "string \<Rightarrow> clause list \<Rightarrow> sdb \<Rightarrow> (sdb, unit) outcome" where
  "spec_delete m ws d =
     (case check_where_fields (sd_table d m) ws of
        Some e \<Rightarrow> (d, Inl e)
      | None \<Rightarrow> (set_rows m (remove_first (\<lambda>r. matches r ws) (sd_rows d m)) d, Inr ()))"

definition spec_delete_many :: "string \<Rightarrow> clause list \<Rightarrow> sdb \<Rightarrow> (sdb, nat) outcome" where
  "spec_delete_many m ws d =
     (case check_where_fields (sd_table d m) ws of
        Some e \<Rightarrow> (d, Inl e)
      | None \<Rightarrow> (set_rows m (filter (\<lambda>r. \<not> matches r ws) (sd_rows d m)) d,
                  Inr (length (filter (\<lambda>r. matches r ws) (sd_rows d m)))))"

definition spec_count :: "string \<Rightarrow> clause list \<Rightarrow> sdb \<Rightarrow> nat result" where
  "spec_count m ws d =
     (case check_where_fields (sd_table d m) ws of
        Some e \<Rightarrow> Inl e
      | None \<Rightarrow> Inr (length (filter (\<lambda>r. matches r ws) (sd_rows d m))))"

text \<open>All or nothing: a failing function leaves no trace.\<close>

definition spec_transaction :: "('s, 'a) act \<Rightarrow> ('s, 'a) act" where
  "spec_transaction f d = (case f d of (d', Inl e) \<Rightarrow> (d, Inl e) | (d', Inr v) \<Rightarrow> (d', Inr v))"

definition spec_adapter :: "sdb adapter" where
  "spec_adapter = \<lparr>ad_create = spec_create, ad_find_one = spec_find_one,
     ad_find_many = spec_find_many, ad_update = spec_update, ad_update_many = spec_update_many,
     ad_delete = spec_delete, ad_delete_many = spec_delete_many, ad_count = spec_count,
     ad_transaction = Some spec_transaction\<rparr>"

lemma spec_adapter_sel [simp]:
  "ad_create spec_adapter = spec_create" "ad_find_one spec_adapter = spec_find_one"
  "ad_find_many spec_adapter = spec_find_many" "ad_update spec_adapter = spec_update"
  "ad_update_many spec_adapter = spec_update_many" "ad_delete spec_adapter = spec_delete"
  "ad_delete_many spec_adapter = spec_delete_many" "ad_count spec_adapter = spec_count"
  "ad_transaction spec_adapter = Some spec_transaction"
  by (simp_all add: spec_adapter_def)

section \<open>The invariant of the reference store\<close>

definition has_str_id :: "grec \<Rightarrow> bool" where
  "has_str_id r = (\<exists>s. map_of r ''id'' = Some (VStr s))"

definition rows_ok :: "string list \<Rightarrow> grec list \<Rightarrow> bool" where
  "rows_ok us rows \<longleftrightarrow>
     (\<forall>r\<in>set rows. has_str_id r) \<and> (\<forall>f\<in>set us. sorted_wrt (\<lambda>a b. \<not> clash f a b) rows)"

definition sdb_inv :: "sdb \<Rightarrow> bool" where
  "sdb_inv d \<longleftrightarrow>
     (case sd_schema d of None \<Rightarrow> True | Some s \<Rightarrow> wf_schema s) \<and>
     (\<forall>m. rows_ok (sd_uniq d m) (sd_rows d m))"

lemma set_rows_sel [simp]:
  "sd_rows (set_rows m rows d) = (sd_rows d)(m := rows)"
  "sd_schema (set_rows m rows d) = sd_schema d"
  "sd_table (set_rows m rows d) = sd_table d"
  "sd_uniq (set_rows m rows d) = sd_uniq d"
  by (simp_all add: set_rows_def sd_table_def sd_uniq_def fun_eq_iff)

lemma deep_equal_sym: "deep_equal a b = deep_equal b a"
  by (cases a; cases b) (auto simp: f_eq_sym)

lemma deep_equalD: "deep_equal a b \<Longrightarrow> a = b"
  by (cases a; cases b) (auto dest: f_eqD)

lemma deep_equal_str [simp]: "deep_equal (VStr s) v \<longleftrightarrow> v = VStr s" "deep_equal v (VStr s) \<longleftrightarrow> v = VStr s"
  by (cases v; auto)+

lemma clash_sym: "clash f a b = clash f b a"
  by (auto simp: clash_def deep_equal_sym split: option.splits dest: deep_equalD)

lemma clash_iff:
  "clash f a b \<longleftrightarrow> (\<exists>v. map_of a f = Some v \<and> map_of b f = Some v \<and> indexable v \<and> go_eq v v)"
  by (auto simp: clash_def split: option.splits dest: deep_equalD)

lemma clash_cong: "map_of a f = map_of a' f \<Longrightarrow> clash f a b = clash f a' b"
  by (simp add: clash_iff)

lemma clash_id: "has_str_id a \<Longrightarrow> clash ''id'' a b \<longleftrightarrow> map_of b ''id'' = map_of a ''id''"
  by (auto simp: has_str_id_def clash_iff)

lemma same_record_id: "has_str_id a \<Longrightarrow> same_record a b \<longleftrightarrow> map_of b ''id'' = map_of a ''id''"
  by (auto simp: has_str_id_def same_record_def split: option.splits)

lemma id_in_uniq: "sdb_inv d \<Longrightarrow> ''id'' \<in> set (sd_uniq d m)"
  by (auto simp: sdb_inv_def sd_uniq_def uniq_of_def sd_table_def schema_table_def
      dest: wf_schemaD wf_tableD split: option.splits)

lemma sdb_invD: "sdb_inv d \<Longrightarrow> rows_ok (sd_uniq d m) (sd_rows d m)"
  by (simp add: sdb_inv_def)

lemma sdb_inv_set_rows:
  "sdb_inv d \<Longrightarrow> rows_ok (sd_uniq d m) rows \<Longrightarrow> sdb_inv (set_rows m rows d)"
  by (auto simp: sdb_inv_def split: option.splits)

lemma apply_defaults_id: "wf_table t \<Longrightarrow> has_str_id r \<Longrightarrow> has_str_id (apply_defaults t r)"
  by (auto simp: has_str_id_def apply_defaults_keep)

lemma gmerge_id: "has_str_id r \<Longrightarrow> \<not> ghas u ''id'' \<Longrightarrow> has_str_id (gmerge r u)"
  by (simp add: has_str_id_def ghas_def map_add_def)

lemma spec_create_inv:
  assumes "sdb_inv d" and "has_str_id data"
  shows "sdb_inv (fst (spec_create m data d))"
proof (cases "check_writable_fields (sd_table d m) data")
  case None
  let ?r = "case sd_table d m of None \<Rightarrow> data | Some t \<Rightarrow> apply_defaults t data"
  have id: "has_str_id ?r"
    using assms by (auto simp: has_str_id_def apply_defaults_keep split: option.splits)
  show ?thesis
  proof (cases "spec_violates d m ?r None")
    case False
    then have "\<forall>f\<in>set (sd_uniq d m). \<forall>row\<in>set (sd_rows d m). \<not> clash f row ?r"
      by (auto simp: spec_violates_def list_ex_iff skipped_def clash_sym)
    then have "rows_ok (sd_uniq d m) (sd_rows d m @ [?r])"
      using sdb_invD[OF assms(1), of m] id by (auto simp: rows_ok_def sorted_wrt_append)
    with None False assms(1) show ?thesis by (simp add: spec_create_def Let_def sdb_inv_set_rows)
  qed (use None assms in \<open>simp add: spec_create_def Let_def\<close>)
qed (use assms in \<open>simp add: spec_create_def\<close>)

text \<open>Replacing one row of a list keeps the pairwise condition if the new row satisfies it.\<close>

lemma sorted_wrt_map_first:
  assumes sym: "\<And>x y. Q x y = Q y x" and "sorted_wrt Q xs"
    and "\<And>x ys zs. xs = ys @ x # zs \<Longrightarrow> P x \<Longrightarrow> (\<forall>y\<in>set ys. \<not> P y) \<Longrightarrow>
           (\<forall>y\<in>set ys \<union> set zs. Q (f x) y)"
  shows "sorted_wrt Q (map_first P f xs)"
  using assms(2,3)
proof (induction xs)
  case (Cons x xs)
  show ?case
  proof (cases "P x")
    case True
    then have "\<forall>y\<in>set xs. Q (f x) y" using Cons.prems(2)[of "[]" x xs] by simp
    with True Cons.prems show ?thesis by simp
  next
    case False
    have *: "\<forall>y\<in>set ys \<union> set zs. Q (f z) y"
      if "xs = ys @ z # zs" "P z" "\<forall>y\<in>set ys. \<not> P y" for z ys zs
      using Cons.prems(2)[of "x # ys" z zs] that False by auto
    have "Q x y" if y: "y \<in> set (map_first P f xs)" for y
    proof -
      have "y \<in> set xs \<or> (\<exists>ys z zs. xs = ys @ z # zs \<and> P z \<and> (\<forall>w\<in>set ys. \<not> P w) \<and> y = f z)"
        using y
      proof (induction xs)
        case (Cons w ws)
        show ?case
        proof (cases "P w")
          case True
          with Cons.prems show ?thesis
            by (auto intro: exI[of _ "[]"])
        next
          case False
          with Cons show ?thesis
            by (auto simp: Cons_eq_append_conv) (metis append_Cons set_ConsD)
        qed
      qed simp
      then show ?thesis
      proof
        assume "y \<in> set xs"
        with Cons.prems(1) show ?thesis by simp
      next
        assume "\<exists>ys z zs. xs = ys @ z # zs \<and> P z \<and> (\<forall>w\<in>set ys. \<not> P w) \<and> y = f z"
        then obtain ys z zs where z: "xs = ys @ z # zs" "P z" "\<forall>w\<in>set ys. \<not> P w" "y = f z" by blast
        then show ?thesis using Cons.prems(2)[of "x # ys" z zs] False sym by auto
      qed
    qed
    with False Cons * show ?thesis by simp
  qed
qed simp

lemma find_split: "P x \<Longrightarrow> \<forall>y\<in>set ys. \<not> P y \<Longrightarrow> find P (ys @ x # zs) = Some x"
  by (induction ys) auto

lemma set_map_first:
  "y \<in> set (map_first P f xs) \<Longrightarrow> y \<in> set xs \<or> (\<exists>x\<in>set xs. P x \<and> y = f x)"
  by (induction xs) (auto split: if_splits)

lemma rows_ok_map_first:
  assumes ok: "rows_ok us rows" and id: "''id'' \<in> set us" "\<not> ghas u ''id''"
    and row: "find P rows = Some row"
    and new: "\<forall>f\<in>set us. \<forall>r\<in>set rows. \<not> same_record r row \<longrightarrow> \<not> clash f (gmerge row u) r"
  shows "rows_ok us (map_first P (\<lambda>r. gmerge r u) rows)"
proof -
  have ids: "has_str_id r" if "r \<in> set rows" for r using ok that by (simp add: rows_ok_def)
  have "\<forall>r\<in>set (map_first P (\<lambda>r. gmerge r u) rows). has_str_id r"
    using ids id(2) by (auto dest!: set_map_first simp: gmerge_id)
  moreover have "sorted_wrt (\<lambda>a b. \<not> clash f a b) (map_first P (\<lambda>r. gmerge r u) rows)"
    if f: "f \<in> set us" for f
  proof (rule sorted_wrt_map_first)
    show "sorted_wrt (\<lambda>a b. \<not> clash f a b) rows" using ok f by (simp add: rows_ok_def)
    fix x ys zs
    assume x: "rows = ys @ x # zs" "P x" "\<forall>y\<in>set ys. \<not> P y"
    then have "find P rows = Some x" by (simp add: find_split)
    then have xr: "x = row" using row by simp
    have "sorted_wrt (\<lambda>a b. \<not> clash ''id'' a b) rows" using ok id(1) by (simp add: rows_ok_def)
    then have "\<forall>y\<in>set ys \<union> set zs. \<not> clash ''id'' x y"
      using x(1) by (auto simp: sorted_wrt_append clash_sym)
    then have "\<forall>y\<in>set ys \<union> set zs. \<not> same_record y row"
      using ids x(1) xr by (auto simp: clash_id same_record_id)
    then show "\<forall>y\<in>set ys \<union> set zs. \<not> clash f (gmerge x u) y"
      using new f xr x(1) by auto
  qed (simp add: clash_sym)
  ultimately show ?thesis by (simp add: rows_ok_def)
qed

lemma spec_update_inv:
  assumes "sdb_inv d" and "\<not> ghas u ''id''"
  shows "sdb_inv (fst (spec_update m ws u d))"
proof -
  have "rows_ok (sd_uniq d m) (map_first (\<lambda>r. matches r ws) (\<lambda>r. gmerge r u) (sd_rows d m))"
    if row: "find (\<lambda>r. matches r ws) (sd_rows d m) = Some row"
      and "\<not> spec_violates d m (gmerge row u) (Some row)" for row
  proof (rule rows_ok_map_first[OF sdb_invD[OF assms(1)] id_in_uniq[OF assms(1)] assms(2) row])
    show "\<forall>f\<in>set (sd_uniq d m). \<forall>r\<in>set (sd_rows d m). \<not> same_record r row \<longrightarrow> \<not> clash f (gmerge row u) r"
      using that(2) by (auto simp: spec_violates_def list_ex_iff skipped_def)
  qed
  then show ?thesis
    using assms(1) by (auto simp: spec_update_def sdb_inv_set_rows split: option.splits)
qed

lemma sorted_wrt_map_weak:
  "sorted_wrt Q xs \<Longrightarrow> (\<And>x y. Q x y \<Longrightarrow> Q (g x) (g y)) \<Longrightarrow> sorted_wrt Q (map g xs)"
  by (simp add: sorted_wrt_map) (metis (mono_tags, lifting) sorted_wrt_mono_rel)

lemma spec_update_many_inv:
  assumes "sdb_inv d" and "\<forall>f\<in>set (sd_uniq d m). \<not> ghas u f"
  shows "sdb_inv (fst (spec_update_many m ws u d))"
proof -
  let ?g = "\<lambda>r. if matches r ws then gmerge r u else r"
  have keep: "map_of (?g r) f = map_of r f" if "f \<in> set (sd_uniq d m)" for r f
    using assms(2) that by (simp add: ghas_def map_add_def)
  have id: "''id'' \<in> set (sd_uniq d m)" by (rule id_in_uniq[OF assms(1)])
  have "sorted_wrt (\<lambda>a b. \<not> clash f a b) (map ?g (sd_rows d m))" if f: "f \<in> set (sd_uniq d m)" for f
  proof (rule sorted_wrt_map_weak)
    show "sorted_wrt (\<lambda>a b. \<not> clash f a b) (sd_rows d m)"
      using sdb_invD[OF assms(1), of m] f by (simp add: rows_ok_def)
    show "\<not> clash f (?g x) (?g y)" if "\<not> clash f x y" for x y
      using that by (simp only: clash_iff keep[OF f] not_False_eq_True)
  qed
  moreover have "has_str_id (?g r)" if "r \<in> set (sd_rows d m)" for r
    using sdb_invD[OF assms(1), of m] that keep[OF id, of r] by (simp only: rows_ok_def has_str_id_def)
  ultimately have "rows_ok (sd_uniq d m) (map ?g (sd_rows d m))"
    by (simp only: rows_ok_def set_map) blast
  then show ?thesis
    using assms(1) by (auto simp: spec_update_many_def sdb_inv_set_rows split: option.splits)
qed

lemma remove_first_split:
  "remove_first P xs = xs \<or> (\<exists>ys x zs. xs = ys @ x # zs \<and> P x \<and> (\<forall>y\<in>set ys. \<not> P y) \<and> remove_first P xs = ys @ zs)"
proof (induction xs)
  case (Cons x xs)
  show ?case
  proof (cases "P x")
    case True
    then show ?thesis by (auto intro: exI[of _ "[]"])
  next
    case False
    from Cons show ?thesis
    proof
      assume "remove_first P xs = xs"
      with False show ?thesis by simp
    next
      assume "\<exists>ys z zs. xs = ys @ z # zs \<and> P z \<and> (\<forall>y\<in>set ys. \<not> P y) \<and> remove_first P xs = ys @ zs"
      then obtain ys z zs where "xs = ys @ z # zs" "P z" "\<forall>y\<in>set ys. \<not> P y"
        "remove_first P xs = ys @ zs" by blast
      with False have "x # xs = (x # ys) @ z # zs \<and> P z \<and> (\<forall>y\<in>set (x # ys). \<not> P y) \<and>
          remove_first P (x # xs) = (x # ys) @ zs" by simp
      then show ?thesis by blast
    qed
  qed
qed simp

lemma rows_ok_filter: "rows_ok us rows \<Longrightarrow> rows_ok us (filter P rows)"
  by (auto simp: rows_ok_def sorted_wrt_filter)

lemma rows_ok_remove_first: "rows_ok us rows \<Longrightarrow> rows_ok us (remove_first P rows)"
  using remove_first_split[of P rows] by (auto simp: rows_ok_def sorted_wrt_append)

lemma spec_delete_inv: "sdb_inv d \<Longrightarrow> sdb_inv (fst (spec_delete m ws d))"
  by (auto simp: spec_delete_def sdb_inv_set_rows rows_ok_remove_first sdb_invD split: option.splits)

lemma spec_delete_many_inv: "sdb_inv d \<Longrightarrow> sdb_inv (fst (spec_delete_many m ws d))"
  by (auto simp: spec_delete_many_def sdb_inv_set_rows rows_ok_filter sdb_invD split: option.splits)

lemmas spec_inv = spec_create_inv spec_update_inv spec_update_many_inv spec_delete_inv
  spec_delete_many_inv

section \<open>The contract of an adapter\<close>

text \<open>
  A lookup by one numeric value is outside the contract: an indexed lookup compares
  with \<open>==\<close>, a scan across the numeric types (see \<open>val_equal_int64_collision\<close>).
\<close>

fun numeric_arg :: "warg \<Rightarrow> bool" where
  "numeric_arg (WVal v) = (to_float v \<noteq> None)"
| "numeric_arg (WSlice _) = False"

definition good_query :: "clause list \<Rightarrow> bool" where
  "good_query ws = (case ws of [w] \<Rightarrow> \<not> numeric_arg (w_value w) | _ \<Rightarrow> True)"

lemma good_query_simps [simp]:
  "good_query []" "good_query (v # w # ws)"
  "good_query [W f (VStr s)]" "good_query [W f (VBool b)]" "good_query [W f (VTime t)]"
  "good_query [W_op f op (VTime t)]" "good_query [W_op f op (VStr s)]"
  by (simp_all add: good_query_def W_def W_op_def)

definition uniq_in :: "schema option \<Rightarrow> string \<Rightarrow> string list" where
  "uniq_in S m = uniq_of (schema_table S m)"

text \<open>
  \<open>\<alpha>\<close> is the content of a concrete state and \<open>I\<close> the states the operations
  reach; \<open>S\<close> is the schema the adapter was given.
\<close>

locale storage_contract =
  fixes A :: "'s adapter" and \<alpha> :: "'s \<Rightarrow> sdb" and I :: "'s \<Rightarrow> bool" and S :: "schema option"
  assumes inv_abs: "I s \<Longrightarrow> sdb_inv (\<alpha> s)"
    and inv_schema: "I s \<Longrightarrow> sd_schema (\<alpha> s) = S"
    and create_sim: "has_str_id data \<Longrightarrow> sim \<alpha> I (ad_create A m data) (spec_create m data)"
    and find_one_sim: "good_query ws \<Longrightarrow> I s \<Longrightarrow> ad_find_one A m ws s = spec_find_one m ws (\<alpha> s)"
    and find_many_sim: "I s \<Longrightarrow> ad_find_many A m ws opts s = spec_find_many m ws opts (\<alpha> s)"
    and update_sim: "\<not> ghas u ''id'' \<Longrightarrow> sim \<alpha> I (ad_update A m ws u) (spec_update m ws u)"
    and update_many_sim: "(\<And>f. f \<in> set (uniq_in S m) \<Longrightarrow> \<not> ghas u f) \<Longrightarrow>
      sim \<alpha> I (ad_update_many A m ws u) (spec_update_many m ws u)"
    and delete_sim: "sim \<alpha> I (ad_delete A m ws) (spec_delete m ws)"
    and delete_many_sim: "sim \<alpha> I (ad_delete_many A m ws) (spec_delete_many m ws)"
    and count_sim: "I s \<Longrightarrow> ad_count A m ws s = spec_count m ws (\<alpha> s)"
    and transaction_sim: "ad_transaction A = Some tx \<Longrightarrow> sim \<alpha> I f g \<Longrightarrow>
      sim \<alpha> I (tx f) (spec_transaction g)"
    and transactional: "ad_transaction A \<noteq> None"
begin

lemma query_find_one: "good_query ws \<Longrightarrow> sim \<alpha> I (query (ad_find_one A m ws)) (query (spec_find_one m ws))"
  by (rule simI) (simp add: find_one_sim)

lemma query_find_many: "sim \<alpha> I (query (ad_find_many A m ws opts)) (query (spec_find_many m ws opts))"
  by (rule simI) (simp add: find_many_sim)

lemma query_count: "sim \<alpha> I (query (ad_count A m ws)) (query (spec_count m ws))"
  by (rule simI) (simp add: count_sim)

lemmas storage_sims = create_sim query_find_one query_find_many update_sim update_many_sim
  delete_sim delete_many_sim query_count

text \<open>A row just created is found by its id, whatever the adapter.\<close>

lemma find_created:
  assumes "I s" and id: "map_of data ''id'' = Some (VStr i)"
    and ok: "ad_create A m data s = (s', Inr r)"
  shows "ad_find_one A m [W ''id'' (VStr i)] s' = Inr r"
proof -
  have has: "has_str_id data" using id by (simp add: has_str_id_def)
  from simD[OF create_sim[OF has] \<open>I s\<close>, of m] ok
  have I': "I s'" and spec: "spec_create m data (\<alpha> s) = (\<alpha> s', Inr r)"
    by (auto simp: prod_eq_iff)
  note d = inv_abs[OF \<open>I s\<close>]
  from spec have r: "r = (case sd_table (\<alpha> s) m of None \<Rightarrow> data | Some t \<Rightarrow> apply_defaults t data)"
    and viol: "\<not> spec_violates (\<alpha> s) m r None"
    and s': "\<alpha> s' = set_rows m (sd_rows (\<alpha> s) m @ [r]) (\<alpha> s)"
    by (auto simp: spec_create_def Let_def split: option.splits if_splits)
  have rid: "map_of r ''id'' = Some (VStr i)"
    unfolding r using id by (auto simp: apply_defaults_keep split: option.splits)
  have "\<not> clash ''id'' r row" if "row \<in> set (sd_rows (\<alpha> s) m)" for row
    using viol id_in_uniq[OF d, of m] that by (auto simp: spec_violates_def list_ex_iff skipped_def)
  then have fresh: "rget row ''id'' \<noteq> VStr i" if "row \<in> set (sd_rows (\<alpha> s) m)" for row
    using that rid by (fastforce simp: clash_iff rget_def split: option.splits)
  have "unknown_keys (sd_table (\<alpha> s) m) [''id''] = []"
    using d has id spec
    by (auto simp: unknown_keys_def sdb_inv_def sd_table_def schema_table_def wf_table_def has_field_def
        dest!: wf_schemaD split: option.splits)
  then have "check_where_fields (sd_table (\<alpha> s) m) [W ''id'' (VStr i)] = None"
    by (simp add: check_where_fields_def)
  moreover have "find (\<lambda>r. rget r ''id'' = VStr i) (sd_rows (\<alpha> s) m @ [r]) = Some r"
    using fresh rid find_split[of "\<lambda>r. rget r ''id'' = VStr i" r "sd_rows (\<alpha> s) m" "[]"]
    by (simp add: rget_def)
  ultimately have "spec_find_one m [W ''id'' (VStr i)] (\<alpha> s') = Inr r"
    by (simp add: spec_find_one_def s')
  then show ?thesis using find_one_sim[OF _ I'] by simp
qed

end

text \<open>The reference store is its own implementation.\<close>

definition spec_inv_of :: "schema option \<Rightarrow> sdb \<Rightarrow> bool" where
  "spec_inv_of S d \<longleftrightarrow> sdb_inv d \<and> sd_schema d = S"

lemma spec_schema [simp]:
  "sd_schema (fst (spec_create m data d)) = sd_schema d"
  "sd_schema (fst (spec_update m ws u d)) = sd_schema d"
  "sd_schema (fst (spec_update_many m ws u d)) = sd_schema d"
  "sd_schema (fst (spec_delete m ws d)) = sd_schema d"
  "sd_schema (fst (spec_delete_many m ws d)) = sd_schema d"
  by (simp_all add: spec_create_def spec_update_def spec_update_many_def spec_delete_def
      spec_delete_many_def Let_def split: option.splits)

lemma sd_uniq_in: "sd_schema d = S \<Longrightarrow> sd_uniq d m = uniq_in S m"
  by (simp add: sd_uniq_def uniq_in_def sd_table_def)

lemma sim_id: "(\<And>d. I d \<Longrightarrow> I (fst (f d))) \<Longrightarrow> sim id I f f"
proof (rule simI)
  fix s s' r assume "\<And>d. I d \<Longrightarrow> I (fst (f d))" and "I s" and "f s = (s', r)"
  then show "I s' \<and> f (id s) = (id s', r)" by (metis fst_conv id_apply)
qed

lemma sim_spec_transaction:
  assumes "sim \<alpha> I f g"
  shows "sim \<alpha> I (spec_transaction f) (spec_transaction g)"
proof (rule simI)
  fix s s' r assume "I s" and run: "spec_transaction f s = (s', r)"
  obtain s1 r1 where f: "f s = (s1, r1)" by force
  from simD[OF assms \<open>I s\<close> f] have g: "I s1 \<and> g (\<alpha> s) = (\<alpha> s1, r1)" .
  show "I s' \<and> spec_transaction g (\<alpha> s) = (\<alpha> s', r)"
    by (cases r1) (use run f g \<open>I s\<close> in \<open>auto simp: spec_transaction_def\<close>)
qed

interpretation spec: storage_contract spec_adapter id "spec_inv_of S" S for S
proof (unfold_locales, goal_cases)
  case (7 m u ws)
  have "sim id (spec_inv_of S) (spec_update_many m ws u) (spec_update_many m ws u)"
    by (rule sim_id) (use 7 in \<open>auto simp: spec_inv_of_def sd_uniq_in intro!: spec_update_many_inv\<close>)
  then show ?case by simp
next
  case (11 tx f g)
  then show ?case by (auto intro: sim_spec_transaction)
qed (auto intro!: sim_id simp: spec_inv_of_def spec_inv)

end
