(* ===== verification/Memory.thy ===== *)
theory Memory
  imports Storage_Spec
begin

text \<open>
  The in-memory adapter of storage/memory/memory.go. Records are Go maps shared
  between the row list of a model and the indexes of its unique fields, so the state
  has an explicit heap: rows and index entries are addresses. An index is total and a
  map the code has not made yet is the one without entries.

  The last part shows that the adapter keeps its invariant (every index holds exactly
  the rows of its model) and implements the reference store.
\<close>

section \<open>State\<close>

type_synonym addr = nat
type_synonym index = "string \<Rightarrow> gval \<Rightarrow> addr option"

record mem =
  m_tables :: "string \<Rightarrow> addr list"
  m_heap :: "addr \<Rightarrow> grec"
  m_next :: addr
  m_index :: "string \<Rightarrow> index"
  m_schema :: "schema option"
  m_unique :: "string \<Rightarrow> string list option"

definition mem_new :: mem where
  "mem_new = \<lparr>m_tables = (\<lambda>_. []), m_heap = (\<lambda>_. []), m_next = 0, m_index = (\<lambda>_ _ _. None),
             m_schema = None, m_unique = (\<lambda>_. None)\<rparr>"

definition mem_set_schema :: "schema \<Rightarrow> mem \<Rightarrow> mem" where
  "mem_set_schema sc s =
     s\<lparr>m_schema := Some sc, m_unique := (\<lambda>m. map_option unique_fields (map_of (sc_tables sc) m))\<rparr>"

definition mem_table :: "mem \<Rightarrow> string \<Rightarrow> table option" where
  "mem_table s m = schema_table (m_schema s) m"

definition mem_uniq :: "mem \<Rightarrow> string \<Rightarrow> string list" where
  "mem_uniq s m = (case m_unique s m of Some fs \<Rightarrow> fs | None \<Rightarrow> [''id''])"

definition mem_rows :: "mem \<Rightarrow> string \<Rightarrow> grec list" where
  "mem_rows s m = map (m_heap s) (m_tables s m)"

section \<open>Indexes\<close>

text \<open>A Go map finds nothing under a NaN key.\<close>

definition idx_get :: "index \<Rightarrow> string \<Rightarrow> gval \<Rightarrow> addr option" where
  "idx_get ix f v = (if go_eq v v then ix f v else None)"

definition idx_put :: "index \<Rightarrow> string \<Rightarrow> gval \<Rightarrow> addr option \<Rightarrow> index" where
  "idx_put ix f v a = ix(f := (ix f)(v := a))"

fun add_to_index :: "string list \<Rightarrow> grec \<Rightarrow> addr \<Rightarrow> index \<Rightarrow> index" where
  "add_to_index [] r a ix = ix"
| "add_to_index (f # fs) r a ix =
     (case map_of r f of
        None \<Rightarrow> add_to_index fs r a ix
      | Some v \<Rightarrow> add_to_index fs r a (if indexable v then idx_put ix f v (Some a) else ix))"

fun remove_from_index :: "string list \<Rightarrow> (addr \<Rightarrow> grec) \<Rightarrow> grec \<Rightarrow> index \<Rightarrow> index" where
  "remove_from_index [] h r ix = ix"
| "remove_from_index (f # fs) h r ix =
     (case map_of r f of
        None \<Rightarrow> remove_from_index fs h r ix
      | Some v \<Rightarrow>
          remove_from_index fs h r
            (if indexable v then
               (case idx_get ix f v of
                  Some b \<Rightarrow> if same_record (h b) r then idx_put ix f v None else ix
                | None \<Rightarrow> ix)
             else ix))"

text \<open>\<open>None\<close>: the clause is not an indexed lookup.\<close>

definition lookup_unique :: "mem \<Rightarrow> string \<Rightarrow> clause list \<Rightarrow> addr option option" where
  "lookup_unique s m ws =
     (case ws of
        [w] \<Rightarrow>
          if w_op w \<noteq> OpDefault \<and> w_op w \<noteq> OpEq then None
          else (case w_value w of
                  WVal v \<Rightarrow>
                    if \<not> indexable v then None
                    else if w_field w \<in> set (mem_uniq s m) then Some (idx_get (m_index s m) (w_field w) v)
                    else None
                | WSlice _ \<Rightarrow> None)
      | _ \<Rightarrow> None)"

definition violates_unique :: "mem \<Rightarrow> string \<Rightarrow> grec \<Rightarrow> grec option \<Rightarrow> bool" where
  "violates_unique s m r skip =
     (list_ex (\<lambda>f. case map_of r f of
                     None \<Rightarrow> False
                   | Some v \<Rightarrow> indexable v \<and>
                       (case idx_get (m_index s m) f v of
                          None \<Rightarrow> False
                        | Some b \<Rightarrow> \<not> skipped skip (m_heap s b)))
        (mem_uniq s m)
      \<or> violates_composite (mem_table s m) (mem_rows s m) r skip)"

section \<open>Operations\<close>

definition set_index :: "string \<Rightarrow> index \<Rightarrow> mem \<Rightarrow> mem" where
  "set_index m ix s = s\<lparr>m_index := (m_index s)(m := ix)\<rparr>"

definition set_addrs :: "string \<Rightarrow> addr list \<Rightarrow> mem \<Rightarrow> mem" where
  "set_addrs m as s = s\<lparr>m_tables := (m_tables s)(m := as)\<rparr>"

definition write_rec :: "addr \<Rightarrow> grec \<Rightarrow> mem \<Rightarrow> mem" where
  "write_rec a r s = s\<lparr>m_heap := (m_heap s)(a := r)\<rparr>"

definition mem_create :: "string \<Rightarrow> grec \<Rightarrow> mem \<Rightarrow> (mem, grec) outcome" where
  "mem_create m data s =
     (case check_writable_fields (mem_table s m) data of
        Some e \<Rightarrow> (s, Inl e)
      | None \<Rightarrow>
          (let r = (case mem_table s m of None \<Rightarrow> data | Some t \<Rightarrow> apply_defaults t data)
           in if violates_unique s m r None then (s, Inl ErrUniqueViolation)
              else
                (let a = m_next s;
                     s1 = write_rec a r (s\<lparr>m_next := Suc a\<rparr>);
                     s2 = set_addrs m (m_tables s m @ [a]) s1;
                     s3 = set_index m (add_to_index (mem_uniq s m) r a (m_index s m)) s2
                 in (s3, Inr r))))"

definition mem_find_one :: "string \<Rightarrow> clause list \<Rightarrow> mem \<Rightarrow> grec result" where
  "mem_find_one m ws s =
     (case check_where_fields (mem_table s m) ws of
        Some e \<Rightarrow> Inl e
      | None \<Rightarrow>
          (case lookup_unique s m ws of
             Some None \<Rightarrow> Inl ErrNotFound
           | Some (Some a) \<Rightarrow> Inr (m_heap s a)
           | None \<Rightarrow>
               (case find (\<lambda>r. matches r ws) (mem_rows s m) of
                  None \<Rightarrow> Inl ErrNotFound
                | Some r \<Rightarrow> Inr r)))"

definition mem_find_many ::
  "string \<Rightarrow> clause list \<Rightarrow> find_options option \<Rightarrow> mem \<Rightarrow> grec list result" where
  "mem_find_many m ws opts s =
     (case check_where_fields (mem_table s m) ws of
        Some e \<Rightarrow> Inl e
      | None \<Rightarrow> Inr (page opts (filter (\<lambda>r. matches r ws) (mem_rows s m))))"

text \<open>The body the update loops share: unindex the row, overwrite its fields, index it again.\<close>

definition rewrite_row :: "string \<Rightarrow> grec \<Rightarrow> addr \<Rightarrow> mem \<Rightarrow> mem" where
  "rewrite_row m u a s =
     (let s1 = set_index m (remove_from_index (mem_uniq s m) (m_heap s) (m_heap s a) (m_index s m)) s;
          s2 = write_rec a (gmerge (m_heap s a) u) s1
      in set_index m (add_to_index (mem_uniq s m) (m_heap s2 a) a (m_index s2 m)) s2)"

fun update_rows :: "string \<Rightarrow> clause list \<Rightarrow> grec \<Rightarrow> addr list \<Rightarrow> mem \<Rightarrow> (mem, grec) outcome" where
  "update_rows m ws u [] s = (s, Inl ErrNotFound)"
| "update_rows m ws u (a # as) s =
     (if \<not> matches (m_heap s a) ws then update_rows m ws u as s
      else if violates_unique s m (gmerge (m_heap s a) u) (Some (m_heap s a))
      then (s, Inl ErrUniqueViolation)
      else (rewrite_row m u a s, Inr (gmerge (m_heap s a) u)))"

definition mem_update :: "string \<Rightarrow> clause list \<Rightarrow> grec \<Rightarrow> mem \<Rightarrow> (mem, grec) outcome" where
  "mem_update m ws u s =
     (case check_where_fields (mem_table s m) ws of
        Some e \<Rightarrow> (s, Inl e)
      | None \<Rightarrow>
          (case check_writable_fields (mem_table s m) u of
             Some e \<Rightarrow> (s, Inl e)
           | None \<Rightarrow> update_rows m ws u (m_tables s m) s))"

fun update_many_rows :: "string \<Rightarrow> clause list \<Rightarrow> grec \<Rightarrow> addr list \<Rightarrow> mem \<times> nat \<Rightarrow> mem \<times> nat" where
  "update_many_rows m ws u [] (s, n) = (s, n)"
| "update_many_rows m ws u (a # as) (s, n) =
     (if \<not> matches (m_heap s a) ws then update_many_rows m ws u as (s, n)
      else update_many_rows m ws u as (rewrite_row m u a s, Suc n))"

definition mem_update_many :: "string \<Rightarrow> clause list \<Rightarrow> grec \<Rightarrow> mem \<Rightarrow> (mem, nat) outcome" where
  "mem_update_many m ws u s =
     (if u = [] then (s, Inr 0)
      else case check_where_fields (mem_table s m) ws of
        Some e \<Rightarrow> (s, Inl e)
      | None \<Rightarrow>
          (case check_writable_fields (mem_table s m) u of
             Some e \<Rightarrow> (s, Inl e)
           | None \<Rightarrow> (case update_many_rows m ws u (m_tables s m) (s, 0) of (s', n) \<Rightarrow> (s', Inr n))))"

definition unindex_row :: "string \<Rightarrow> addr \<Rightarrow> mem \<Rightarrow> mem" where
  "unindex_row m a s =
     set_index m (remove_from_index (mem_uniq s m) (m_heap s) (m_heap s a) (m_index s m)) s"

fun delete_rows :: "string \<Rightarrow> clause list \<Rightarrow> addr list \<Rightarrow> addr list \<Rightarrow> mem \<Rightarrow> mem" where
  "delete_rows m ws before [] s = s"
| "delete_rows m ws before (a # as) s =
     (if matches (m_heap s a) ws then set_addrs m (before @ as) (unindex_row m a s)
      else delete_rows m ws (before @ [a]) as s)"

definition mem_delete :: "string \<Rightarrow> clause list \<Rightarrow> mem \<Rightarrow> (mem, unit) outcome" where
  "mem_delete m ws s =
     (case check_where_fields (mem_table s m) ws of
        Some e \<Rightarrow> (s, Inl e)
      | None \<Rightarrow> (delete_rows m ws [] (m_tables s m) s, Inr ()))"

fun delete_many_rows ::
  "string \<Rightarrow> clause list \<Rightarrow> addr list \<Rightarrow> mem \<times> addr list \<times> nat \<Rightarrow> mem \<times> addr list \<times> nat" where
  "delete_many_rows m ws [] (s, kept, n) = (s, kept, n)"
| "delete_many_rows m ws (a # as) (s, kept, n) =
     (if matches (m_heap s a) ws then delete_many_rows m ws as (unindex_row m a s, kept, Suc n)
      else delete_many_rows m ws as (s, kept @ [a], n))"

definition mem_delete_many :: "string \<Rightarrow> clause list \<Rightarrow> mem \<Rightarrow> (mem, nat) outcome" where
  "mem_delete_many m ws s =
     (case check_where_fields (mem_table s m) ws of
        Some e \<Rightarrow> (s, Inl e)
      | None \<Rightarrow> (case delete_many_rows m ws (m_tables s m) (s, [], 0) of
                    (s', kept, n) \<Rightarrow> (set_addrs m kept s', Inr n)))"

definition mem_count :: "string \<Rightarrow> clause list \<Rightarrow> mem \<Rightarrow> nat result" where
  "mem_count m ws s =
     (case check_where_fields (mem_table s m) ws of
        Some e \<Rightarrow> Inl e
      | None \<Rightarrow> Inr (length (filter (\<lambda>r. matches r ws) (mem_rows s m))))"

text \<open>
  The child adapter of a transaction: its own copy of every record (the heap, by
  value) and indexes built from nothing. Committing swaps its tables and indexes in.
\<close>

fun index_rows :: "string list \<Rightarrow> (addr \<Rightarrow> grec) \<Rightarrow> addr list \<Rightarrow> index \<Rightarrow> index" where
  "index_rows us h [] ix = ix"
| "index_rows us h (a # as) ix = index_rows us h as (add_to_index us (h a) a ix)"

definition mem_child :: "mem \<Rightarrow> mem" where
  "mem_child s = s\<lparr>m_index := (\<lambda>m. index_rows (mem_uniq s m) (m_heap s) (m_tables s m) (\<lambda>_ _. None))\<rparr>"

definition mem_transaction :: "(mem, 'a) act \<Rightarrow> (mem, 'a) act" where
  "mem_transaction f s =
     (case f (mem_child s) of
        (c, Inl e) \<Rightarrow> (s, Inl e)
      | (c, Inr v) \<Rightarrow>
          (s\<lparr>m_tables := m_tables c, m_index := m_index c, m_heap := m_heap c, m_next := m_next c\<rparr>,
           Inr v))"

definition mem_adapter :: "mem adapter" where
  "mem_adapter = \<lparr>ad_create = mem_create, ad_find_one = mem_find_one,
     ad_find_many = mem_find_many, ad_update = mem_update, ad_update_many = mem_update_many,
     ad_delete = mem_delete, ad_delete_many = mem_delete_many, ad_count = mem_count,
     ad_transaction = Some mem_transaction\<rparr>"

lemma mem_adapter_sel [simp]:
  "ad_create mem_adapter = mem_create" "ad_find_one mem_adapter = mem_find_one"
  "ad_find_many mem_adapter = mem_find_many" "ad_update mem_adapter = mem_update"
  "ad_update_many mem_adapter = mem_update_many" "ad_delete mem_adapter = mem_delete"
  "ad_delete_many mem_adapter = mem_delete_many" "ad_count mem_adapter = mem_count"
  "ad_transaction mem_adapter = Some mem_transaction"
  by (simp_all add: mem_adapter_def)

section \<open>Exact indexes\<close>

lemma set_sel [simp]:
  "m_tables (set_index m ix s) = m_tables s" "m_heap (set_index m ix s) = m_heap s"
  "m_next (set_index m ix s) = m_next s" "m_schema (set_index m ix s) = m_schema s"
  "m_unique (set_index m ix s) = m_unique s" "m_index (set_index m ix s) = (m_index s)(m := ix)"
  "m_tables (set_addrs m as s) = (m_tables s)(m := as)" "m_heap (set_addrs m as s) = m_heap s"
  "m_next (set_addrs m as s) = m_next s" "m_schema (set_addrs m as s) = m_schema s"
  "m_unique (set_addrs m as s) = m_unique s" "m_index (set_addrs m as s) = m_index s"
  "m_tables (write_rec a r s) = m_tables s" "m_heap (write_rec a r s) = (m_heap s)(a := r)"
  "m_next (write_rec a r s) = m_next s" "m_schema (write_rec a r s) = m_schema s"
  "m_unique (write_rec a r s) = m_unique s" "m_index (write_rec a r s) = m_index s"
  by (simp_all add: set_index_def set_addrs_def write_rec_def)

lemma add_to_index_apply:
  "add_to_index us r a ix f v =
     (if f \<in> set us \<and> map_of r f = Some v \<and> indexable v then Some a else ix f v)"
  by (induction us arbitrary: ix) (auto simp: idx_put_def split: option.splits)

definition own_entry :: "(addr \<Rightarrow> grec) \<Rightarrow> grec \<Rightarrow> index \<Rightarrow> string \<Rightarrow> gval \<Rightarrow> bool" where
  "own_entry h r ix f v =
     (map_of r f = Some v \<and> indexable v \<and>
      (case idx_get ix f v of None \<Rightarrow> False | Some b \<Rightarrow> same_record (h b) r))"

lemma remove_step:
  "remove_from_index [g] h r ix f v = (if f = g \<and> own_entry h r ix f v then None else ix f v)"
  by (auto simp: idx_put_def own_entry_def split: option.splits)

lemma remove_from_index_Cons:
  "remove_from_index (g # us) h r ix = remove_from_index us h r (remove_from_index [g] h r ix)"
  by (simp split: option.splits)

lemma remove_from_index_apply:
  "remove_from_index us h r ix f v = (if f \<in> set us \<and> own_entry h r ix f v then None else ix f v)"
proof (induction us arbitrary: ix)
  case (Cons g us)
  have own: "own_entry h r (remove_from_index [g] h r ix) f v \<longleftrightarrow> f \<noteq> g \<and> own_entry h r ix f v"
    unfolding own_entry_def[of h r "remove_from_index [g] h r ix"] idx_get_def remove_step
    by (auto simp: own_entry_def idx_get_def)
  show ?case
    by (subst remove_from_index_Cons, subst Cons.IH, subst own, subst remove_step) auto
qed simp

text \<open>The index of every unique field holds exactly the rows at the addresses \<open>A\<close>.\<close>

definition idx_ok :: "string list \<Rightarrow> (addr \<Rightarrow> grec) \<Rightarrow> addr set \<Rightarrow> index \<Rightarrow> bool" where
  "idx_ok us h A ix \<longleftrightarrow>
     (\<forall>f\<in>set us. \<forall>v. indexable v \<longrightarrow> go_eq v v \<longrightarrow>
        (\<forall>a. ix f v = Some a \<longleftrightarrow> a \<in> A \<and> map_of (h a) f = Some v))"

lemma idx_okD:
  "idx_ok us h A ix \<Longrightarrow> f \<in> set us \<Longrightarrow> indexable v \<Longrightarrow> go_eq v v \<Longrightarrow>
   ix f v = Some a \<longleftrightarrow> a \<in> A \<and> map_of (h a) f = Some v"
  by (simp add: idx_ok_def)

lemma idx_ok_heap: "idx_ok us h A ix \<Longrightarrow> (\<And>a. a \<in> A \<Longrightarrow> h' a = h a) \<Longrightarrow> idx_ok us h' A ix"
  by (auto simp: idx_ok_def)

lemma idx_ok_empty: "idx_ok us h {} (\<lambda>_ _. None)"
  by (simp add: idx_ok_def)

lemma idx_ok_add:
  assumes ok: "idx_ok us h A ix" and "a \<notin> A"
    and no: "\<And>f b. f \<in> set us \<Longrightarrow> b \<in> A \<Longrightarrow> \<not> clash f (h a) (h b)"
  shows "idx_ok us h (insert a A) (add_to_index us (h a) a ix)"
  unfolding idx_ok_def
proof (intro ballI allI impI)
  fix f v b assume f: "f \<in> set us" and v: "indexable v" "go_eq v v"
  note ex = idx_okD[OF ok f v]
  have "b \<notin> A" if "map_of (h a) f = Some v" "map_of (h b) f = Some v"
    using no[OF f, of b] that v by (auto simp: clash_iff)
  then show "add_to_index us (h a) a ix f v = Some b \<longleftrightarrow> b \<in> insert a A \<and> map_of (h b) f = Some v"
    using f v ex by (auto simp: add_to_index_apply)
qed

lemma idx_ok_remove:
  assumes ok: "idx_ok us h A ix" and "a \<in> A"
    and ids: "\<And>b. b \<in> A \<Longrightarrow> same_record (h b) (h a) \<longleftrightarrow> b = a"
  shows "idx_ok us h (A - {a}) (remove_from_index us h (h a) ix)"
  unfolding idx_ok_def
proof (intro ballI allI impI)
  fix f v b assume f: "f \<in> set us" and v: "indexable v" "go_eq v v"
  note ex = idx_okD[OF ok f v]
  have own: "own_entry h (h a) ix f v \<longleftrightarrow> map_of (h a) f = Some v \<and> ix f v = Some a"
  proof (cases "ix f v")
    case None
    then show ?thesis using v by (simp add: own_entry_def idx_get_def)
  next
    case (Some b)
    then show ?thesis using v ex[of b] ids[of b] by (auto simp: own_entry_def idx_get_def)
  qed
  show "remove_from_index us h (h a) ix f v = Some b \<longleftrightarrow> b \<in> A - {a} \<and> map_of (h b) f = Some v"
    using f ex[of a] ex[of b] own \<open>a \<in> A\<close>
    by (cases "ix f v") (auto simp: remove_from_index_apply)
qed

section \<open>The invariant\<close>

definition mem_abs :: "mem \<Rightarrow> sdb" where
  "mem_abs s = \<lparr>sd_rows = mem_rows s, sd_schema = m_schema s\<rparr>"

definition uniq_cache :: "schema option \<Rightarrow> string \<Rightarrow> string list option" where
  "uniq_cache S m = (case S of None \<Rightarrow> None | Some sc \<Rightarrow> map_option unique_fields (map_of (sc_tables sc) m))"

definition addrs_ok :: "mem \<Rightarrow> bool" where
  "addrs_ok s \<longleftrightarrow> (\<forall>m. distinct (m_tables s m) \<and> (\<forall>a\<in>set (m_tables s m). a < m_next s)) \<and>
     (\<forall>m m'. m \<noteq> m' \<longrightarrow> set (m_tables s m) \<inter> set (m_tables s m') = {})"

definition model_ok :: "mem \<Rightarrow> string \<Rightarrow> bool" where
  "model_ok s m \<longleftrightarrow> rows_ok (mem_uniq s m) (mem_rows s m) \<and>
     idx_ok (mem_uniq s m) (m_heap s) (set (m_tables s m)) (m_index s m)"

definition mem_inv :: "schema option \<Rightarrow> mem \<Rightarrow> bool" where
  "mem_inv S s \<longleftrightarrow> m_schema s = S \<and> m_unique s = uniq_cache S \<and>
     (case S of None \<Rightarrow> True | Some sc \<Rightarrow> wf_schema sc) \<and> addrs_ok s \<and> (\<forall>m. model_ok s m)"

lemma mem_abs_sel [simp]:
  "sd_rows (mem_abs s) = mem_rows s" "sd_schema (mem_abs s) = m_schema s"
  "sd_table (mem_abs s) = mem_table s"
  by (simp_all add: mem_abs_def sd_table_def mem_table_def fun_eq_iff)

lemma mem_uniq_eq: "m_unique s = uniq_cache (m_schema s) \<Longrightarrow> mem_uniq s m = sd_uniq (mem_abs s) m"
  by (auto simp: mem_uniq_def uniq_cache_def sd_uniq_def uniq_of_def mem_table_def schema_table_def
      split: option.splits)

lemma mem_inv_uniq: "mem_inv S s \<Longrightarrow> mem_uniq s m = sd_uniq (mem_abs s) m"
  by (rule mem_uniq_eq) (simp add: mem_inv_def)

lemma mem_inv_abs: "mem_inv S s \<Longrightarrow> sdb_inv (mem_abs s)"
  by (auto simp: sdb_inv_def mem_inv_def model_ok_def mem_uniq_eq split: option.splits)

lemma mem_uniq_cong: "m_unique s = m_unique s' \<Longrightarrow> mem_uniq s = mem_uniq s'"
  by (simp add: mem_uniq_def fun_eq_iff)

lemma mem_uniq_set [simp]:
  "mem_uniq (set_index m ix s) = mem_uniq s" "mem_uniq (set_addrs m as s) = mem_uniq s"
  "mem_uniq (write_rec a r s) = mem_uniq s" "mem_uniq (s\<lparr>m_next := n\<rparr>) = mem_uniq s"
  by (rule mem_uniq_cong; simp)+

lemma id_in_mem_uniq: "mem_inv S s \<Longrightarrow> ''id'' \<in> set (mem_uniq s m)"
  by (simp add: mem_inv_uniq id_in_uniq mem_inv_abs)

lemma mem_invD:
  assumes "mem_inv S s"
  shows "model_ok s m" "addrs_ok s" "distinct (m_tables s m)" "a \<in> set (m_tables s m) \<Longrightarrow> a < m_next s"
    "a \<in> set (m_tables s m) \<Longrightarrow> has_str_id (m_heap s a)"
    "idx_ok (mem_uniq s m) (m_heap s) (set (m_tables s m)) (m_index s m)"
    "rows_ok (mem_uniq s m) (mem_rows s m)"
  using assms by (auto simp: mem_inv_def addrs_ok_def model_ok_def rows_ok_def mem_rows_def)

lemma mem_inv_same_model:
  "mem_inv S s \<Longrightarrow> a \<in> set (m_tables s m) \<Longrightarrow> a \<in> set (m_tables s m') \<Longrightarrow> m' = m"
  unfolding mem_inv_def addrs_ok_def by blast

lemma mem_inv_disjoint:
  "mem_inv S s \<Longrightarrow> m' \<noteq> m \<Longrightarrow> set (m_tables s m) \<inter> set (m_tables s m') = {}"
  unfolding mem_inv_def addrs_ok_def by blast

text \<open>Distinct addresses of a model hold records that do not clash on a unique field.\<close>

lemma no_clash_addr:
  assumes "rows_ok us (map h as)" and "f \<in> set us" and "distinct as" and "a \<in> set as" "b \<in> set as"
    and "a \<noteq> b"
  shows "\<not> clash f (h a) (h b)"
proof -
  have s: "sorted_wrt (\<lambda>a b. \<not> clash f a b) (map h as)" using assms(1,2) by (simp add: rows_ok_def)
  obtain i j where i: "i < length as" "as ! i = a" and j: "j < length as" "as ! j = b"
    using assms(4,5) by (metis in_set_conv_nth)
  with \<open>a \<noteq> b\<close> have "i < j \<or> j < i" by (metis linorder_neqE_nat)
  then show ?thesis
    using sorted_wrt_nth_less[OF s, of i j] sorted_wrt_nth_less[OF s, of j i] i j
    by (auto simp: clash_sym)
qed

lemma same_record_addr:
  assumes "rows_ok us (map h as)" and "''id'' \<in> set us" and "distinct as" and "a \<in> set as" "b \<in> set as"
  shows "same_record (h b) (h a) \<longleftrightarrow> b = a"
proof -
  have "has_str_id (h a)" "has_str_id (h b)" using assms by (auto simp: rows_ok_def)
  then show ?thesis
    using no_clash_addr[OF assms(1,2,3,4,5)] by (metis clash_id same_record_id)
qed

section \<open>The operations keep the invariant and implement the reference\<close>

text \<open>Changing the rows and the index of one model.\<close>

lemma mem_inv_modify:
  assumes inv: "mem_inv S s" and same: "m_schema s' = m_schema s" "m_unique s' = m_unique s"
    and others: "\<And>m'. m' \<noteq> m \<Longrightarrow> m_tables s' m' = m_tables s m' \<and> m_index s' m' = m_index s m' \<and>
                   (\<forall>a\<in>set (m_tables s m'). m_heap s' a = m_heap s a)"
    and nxt: "m_next s \<le> m_next s'"
    and addrs: "distinct (m_tables s' m)" "\<And>a. a \<in> set (m_tables s' m) \<Longrightarrow> a < m_next s'"
      "\<And>a m'. a \<in> set (m_tables s' m) \<Longrightarrow> m' \<noteq> m \<Longrightarrow> a \<notin> set (m_tables s m')"
    and ok: "model_ok s' m"
  shows "mem_inv S s' \<and> mem_abs s' = set_rows m (mem_rows s' m) (mem_abs s)"
proof -
  have u: "mem_uniq s' = mem_uniq s" by (rule mem_uniq_cong) (rule same)
  have rows: "mem_rows s' m' = mem_rows s m'" if "m' \<noteq> m" for m'
    using others[OF that] by (simp add: mem_rows_def)
  have "model_ok s' m'" for m'
  proof (cases "m' = m")
    case False
    then show ?thesis
      using mem_invD(1)[OF inv, of m'] others[OF False] rows[OF False]
      by (auto simp: model_ok_def u intro: idx_ok_heap)
  qed (simp add: ok)
  moreover have "addrs_ok s'"
    unfolding addrs_ok_def
  proof (intro conjI allI impI ballI)
    fix m' show "distinct (m_tables s' m')"
      using others[of m'] addrs(1) mem_invD(3)[OF inv, of m'] by (cases "m' = m") auto
    fix a assume "a \<in> set (m_tables s' m')"
    then show "a < m_next s'"
      using others[of m'] addrs(2)[of a] mem_invD(4)[OF inv, of a m'] nxt by (cases "m' = m") auto
  next
    fix p q :: string assume "p \<noteq> q"
    then show "set (m_tables s' p) \<inter> set (m_tables s' q) = {}"
      using others[of p] others[of q] addrs(3) mem_inv_disjoint[OF inv, of q p] by (cases "p = m"; cases "q = m") auto
  qed
  ultimately have "mem_inv S s'" using inv same by (simp add: mem_inv_def)
  moreover have "mem_abs s' = set_rows m (mem_rows s' m) (mem_abs s)"
    using rows same by (simp add: mem_abs_def set_rows_def fun_eq_iff)
  ultimately show ?thesis ..
qed

lemma violates_unique_spec:
  assumes inv: "mem_inv S s"
  shows "violates_unique s m r skip = spec_violates (mem_abs s) m r skip"
proof -
  have "(case map_of r f of None \<Rightarrow> False
         | Some v \<Rightarrow> indexable v \<and> (case idx_get (m_index s m) f v of None \<Rightarrow> False
                                   | Some b \<Rightarrow> \<not> skipped skip (m_heap s b)))
      \<longleftrightarrow> (\<exists>row\<in>set (mem_rows s m). \<not> skipped skip row \<and> clash f r row)"
    if f: "f \<in> set (mem_uniq s m)" for f
  proof (cases "map_of r f")
    case None
    then show ?thesis by (simp add: clash_def)
  next
    case (Some v)
    show ?thesis
    proof (cases "indexable v \<and> go_eq v v")
      case True
      have ix: "idx_get (m_index s m) f v = Some b \<longleftrightarrow> b \<in> set (m_tables s m) \<and> map_of (m_heap s b) f = Some v" for b
        using idx_okD[OF mem_invD(6)[OF inv] f] True by (simp add: idx_get_def)
      have "(\<exists>row\<in>set (mem_rows s m). \<not> skipped skip row \<and> clash f r row)
        \<longleftrightarrow> (\<exists>b. idx_get (m_index s m) f v = Some b \<and> \<not> skipped skip (m_heap s b))"
        unfolding ix using Some True by (auto simp: clash_iff mem_rows_def)
      then show ?thesis
        using Some True by (simp split: option.splits)
    next
      case False
      then show ?thesis using Some by (auto simp: clash_iff idx_get_def split: option.splits)
    qed
  qed
  then show ?thesis
    by (auto simp: violates_unique_def spec_violates_def list_ex_iff mem_inv_uniq[OF inv])
qed

lemma mem_create_sim:
  assumes id: "has_str_id data"
  shows "sim mem_abs (mem_inv S) (mem_create m data) (spec_create m data)"
proof (rule simI)
  fix s s' r assume inv: "mem_inv S s" and run: "mem_create m data s = (s', r)"
  let ?r = "case mem_table s m of None \<Rightarrow> data | Some t \<Rightarrow> apply_defaults t data"
  let ?a = "m_next s"
  let ?s1 = "write_rec ?a ?r (s\<lparr>m_next := Suc ?a\<rparr>)"
  let ?s2 = "set_addrs m (m_tables s m @ [?a]) ?s1"
  let ?s3 = "set_index m (add_to_index (mem_uniq s m) ?r ?a (m_index s m)) ?s2"
  show "mem_inv S s' \<and> spec_create m data (mem_abs s) = (mem_abs s', r)"
  proof (cases "check_writable_fields (mem_table s m) data = None \<and> \<not> violates_unique s m ?r None")
    case True
    have s': "s' = ?s3" "r = Inr ?r" using run True by (auto simp: mem_create_def Let_def)
    have u: "mem_uniq ?s3 = mem_uniq s" by (rule mem_uniq_cong) simp
    have a: "?a \<notin> set (m_tables s m')" for m' using mem_invD(4)[OF inv] by blast
    have rows: "mem_rows ?s3 m = mem_rows s m @ [?r]"
      using a[of m] by (auto simp: mem_rows_def)
    have spec: "spec_create m data (mem_abs s) = (set_rows m (mem_rows s m @ [?r]) (mem_abs s), Inr ?r)"
      using True by (simp add: spec_create_def violates_unique_spec[OF inv] Let_def)
    have "sdb_inv (set_rows m (mem_rows s m @ [?r]) (mem_abs s))"
      using spec_create_inv[OF mem_inv_abs[OF inv] id, of m] by (simp add: spec)
    from sdb_invD[OF this, of m] have ok: "rows_ok (mem_uniq s m) (mem_rows s m @ [?r])"
      by (simp add: mem_inv_uniq[OF inv])
    have "idx_ok (mem_uniq s m) (m_heap ?s3) (set (m_tables s m)) (m_index s m)"
      using a by (intro idx_ok_heap[OF mem_invD(6)[OF inv]]) auto
    then have "idx_ok (mem_uniq s m) (m_heap ?s3) (insert ?a (set (m_tables s m)))
        (add_to_index (mem_uniq s m) (m_heap ?s3 ?a) ?a (m_index s m))"
    proof (rule idx_ok_add[OF _ a])
      fix f b assume "f \<in> set (mem_uniq s m)" and b: "b \<in> set (m_tables s m)"
      then have "\<not> clash f (m_heap s b) ?r"
        using ok by (auto simp: rows_ok_def sorted_wrt_append mem_rows_def)
      then show "\<not> clash f (m_heap ?s3 ?a) (m_heap ?s3 b)" using a[of m] b by (auto simp: clash_sym)
    qed
    then have "model_ok ?s3 m" using ok rows by (simp add: model_ok_def u)
    then have "mem_inv S ?s3 \<and> mem_abs ?s3 = set_rows m (mem_rows ?s3 m) (mem_abs s)"
      by (rule mem_inv_modify[OF inv, rotated -1])
        (use a mem_invD(3,4)[OF inv] mem_inv_same_model[OF inv] in \<open>auto simp: less_Suc_eq\<close>)
    then show ?thesis using s' spec rows by simp
  next
    case False
    then show ?thesis
      using run inv by (auto simp: mem_create_def spec_create_def Let_def violates_unique_spec[OF inv]
          split: option.splits if_splits)
  qed
qed

lemma lookup_unique_spec:
  assumes inv: "mem_inv S s" and good: "good_query ws" and lu: "lookup_unique s m ws = Some res"
  shows "map_option (m_heap s) res = find (\<lambda>r. matches r ws) (mem_rows s m)"
proof -
  from lu obtain w v where ws: "ws = [w]" and op: "w_op w = OpDefault \<or> w_op w = OpEq"
    and v: "w_value w = WVal v" and ixv: "indexable v" and f: "w_field w \<in> set (mem_uniq s m)"
    and res: "res = idx_get (m_index s m) (w_field w) v"
    by (auto simp: lookup_unique_def split: list.splits warg.splits if_splits)
  have v': "(\<exists>x. v = VStr x) \<or> (\<exists>b. v = VBool b)"
    using good ixv ws v by (cases v) (auto simp: good_query_def)
  then have refl: "go_eq v v" by auto
  have m1: "match_one r w \<longleftrightarrow> map_of r (w_field w) = Some v" for r
    using op v v' by (auto simp: match_one_def rget_def split: option.splits)
  note ex = idx_okD[OF mem_invD(6)[OF inv] f ixv refl]
  show ?thesis
  proof (cases res)
    case None
    then have "find (\<lambda>r. matches r ws) (mem_rows s m) = None"
      using ex res refl by (auto simp: find_None_iff ws m1 mem_rows_def idx_get_def)
    then show ?thesis by (simp add: None)
  next
    case (Some a)
    then have a: "a \<in> set (m_tables s m)" "map_of (m_heap s a) (w_field w) = Some v"
      using ex[of a] res refl by (auto simp: idx_get_def)
    have uniq: "b = a" if "b \<in> set (m_tables s m)" "map_of (m_heap s b) (w_field w) = Some v" for b
      using ex[of a] ex[of b] a that by simp
    obtain ys zs where split: "m_tables s m = ys @ a # zs" "a \<notin> set ys"
      using a(1) by (metis split_list_first)
    have "\<forall>y\<in>set (map (m_heap s) ys). \<not> matches y ws"
      using uniq split by (auto simp: ws m1)
    then have "find (\<lambda>r. matches r ws) (mem_rows s m) = Some (m_heap s a)"
      using find_split[of "\<lambda>r. matches r ws" "m_heap s a" "map (m_heap s) ys" "map (m_heap s) zs"] a
      by (simp add: mem_rows_def split ws m1)
    then show ?thesis by (simp add: Some)
  qed
qed

lemma mem_find_one_spec:
  assumes inv: "mem_inv S s" and good: "good_query ws"
  shows "mem_find_one m ws s = spec_find_one m ws (mem_abs s)"
proof (cases "lookup_unique s m ws")
  case None
  then show ?thesis by (simp add: mem_find_one_def spec_find_one_def split: option.splits)
next
  case (Some res)
  then show ?thesis
    using lookup_unique_spec[OF inv good Some]
    by (cases res) (auto simp: mem_find_one_def spec_find_one_def split: option.splits)
qed

lemma mem_same_record:
  "mem_inv S s \<Longrightarrow> a \<in> set (m_tables s m) \<Longrightarrow> b \<in> set (m_tables s m) \<Longrightarrow>
   same_record (m_heap s b) (m_heap s a) \<longleftrightarrow> b = a"
  using mem_invD(7)[of S s m] unfolding mem_rows_def
  by (rule same_record_addr[OF _ id_in_mem_uniq mem_invD(3)])

text \<open>Rewriting one row, when the new values clash with no other row of the model.\<close>

lemma rewrite_row_inv:
  assumes inv: "mem_inv S s" and a: "a \<in> set (m_tables s m)" and id: "\<not> ghas u ''id''"
    and no: "\<And>f b. f \<in> set (mem_uniq s m) \<Longrightarrow> b \<in> set (m_tables s m) \<Longrightarrow> b \<noteq> a \<Longrightarrow>
               \<not> clash f (gmerge (m_heap s a) u) (m_heap s b)"
    and rows: "rows_ok (mem_uniq s m) (map ((m_heap s)(a := gmerge (m_heap s a) u)) (m_tables s m))"
  shows "mem_inv S (rewrite_row m u a s) \<and>
         mem_abs (rewrite_row m u a s) =
           set_rows m (map ((m_heap s)(a := gmerge (m_heap s a) u)) (m_tables s m)) (mem_abs s)"
proof -
  let ?us = "mem_uniq s m" and ?r = "gmerge (m_heap s a) u" and ?A = "set (m_tables s m)"
  let ?h = "(m_heap s)(a := ?r)" and ?ix = "remove_from_index (mem_uniq s m) (m_heap s) (m_heap s a) (m_index s m)"
  let ?s = "rewrite_row m u a s"
  have sel: "m_tables ?s = m_tables s" "m_heap ?s = ?h" "m_next ?s = m_next s" "m_schema ?s = m_schema s"
    "m_unique ?s = m_unique s" "m_index ?s = (m_index s)(m := add_to_index ?us ?r a ?ix)"
    by (simp_all add: rewrite_row_def Let_def)
  have u: "mem_uniq ?s = mem_uniq s" by (rule mem_uniq_cong) (rule sel)
  have "idx_ok ?us (m_heap s) (?A - {a}) ?ix"
    by (rule idx_ok_remove[OF mem_invD(6)[OF inv] a mem_same_record[OF inv a]])
  then have "idx_ok ?us ?h (?A - {a}) ?ix" by (rule idx_ok_heap) simp
  then have "idx_ok ?us ?h (insert a (?A - {a})) (add_to_index ?us (?h a) a ?ix)"
    by (rule idx_ok_add) (use no in auto)
  then have "model_ok ?s m"
    using rows a by (simp add: model_ok_def u sel mem_rows_def insert_absorb)
  then have "mem_inv S ?s \<and> mem_abs ?s = set_rows m (mem_rows ?s m) (mem_abs s)"
    by (rule mem_inv_modify[OF inv, rotated -1])
      (use mem_invD(3,4)[OF inv] mem_inv_same_model[OF inv] a in \<open>auto simp: sel\<close>)
  then show ?thesis by (simp add: mem_rows_def sel)
qed

lemma update_rows_find:
  "update_rows m ws u as s =
     (case find (\<lambda>a. matches (m_heap s a) ws) as of
        None \<Rightarrow> (s, Inl ErrNotFound)
      | Some a \<Rightarrow> if violates_unique s m (gmerge (m_heap s a) u) (Some (m_heap s a))
                 then (s, Inl ErrUniqueViolation)
                 else (rewrite_row m u a s, Inr (gmerge (m_heap s a) u)))"
  by (induction as) auto

lemma find_map_addr: "find P (map h as) = map_option h (find (\<lambda>a. P (h a)) as)"
  by (induction as) auto

lemma map_first_addr:
  "distinct as \<Longrightarrow> find (\<lambda>a. P (h a)) as = Some a \<Longrightarrow> map_first P g (map h as) = map (h(a := g (h a))) as"
proof (induction as)
  case (Cons b as)
  show ?case
  proof (cases "P (h b)")
    case True
    then have "a = b" "b \<notin> set as" using Cons.prems by auto
    with True show ?thesis by simp
  next
    case False
    then have "a \<in> set as" using Cons.prems by (auto simp: find_Some_iff)
    then have "a \<noteq> b" using Cons.prems by auto
    with False Cons show ?thesis by simp
  qed
qed simp

lemma mem_update_sim:
  assumes id: "\<not> ghas u ''id''"
  shows "sim mem_abs (mem_inv S) (mem_update m ws u) (spec_update m ws u)"
proof (rule simI)
  fix s s' r assume inv: "mem_inv S s" and run: "mem_update m ws u s = (s', r)"
  let ?f = "find (\<lambda>a. matches (m_heap s a) ws) (m_tables s m)"
  have rows: "find (\<lambda>r. matches r ws) (mem_rows s m) = map_option (m_heap s) ?f"
    by (simp add: mem_rows_def find_map_addr)
  show "mem_inv S s' \<and> spec_update m ws u (mem_abs s) = (mem_abs s', r)"
  proof (cases "check_where_fields (mem_table s m) ws = None \<and> check_writable_fields (mem_table s m) u = None")
    case False
    then show ?thesis using run inv by (auto simp: mem_update_def spec_update_def split: option.splits)
  next
    case checks: True
    show ?thesis
    proof (cases ?f)
      case None
      then show ?thesis using run inv checks rows
        by (simp add: mem_update_def spec_update_def update_rows_find)
    next
      case (Some a)
      then have a: "a \<in> set (m_tables s m)" by (auto simp: find_Some_iff)
      let ?r = "gmerge (m_heap s a) u"
      show ?thesis
      proof (cases "violates_unique s m ?r (Some (m_heap s a))")
        case True
        then show ?thesis using run inv checks rows Some
          by (simp add: mem_update_def spec_update_def update_rows_find violates_unique_spec[OF inv])
      next
        case False
        have mf: "map_first (\<lambda>r. matches r ws) (\<lambda>r. gmerge r u) (mem_rows s m) = map ((m_heap s)(a := ?r)) (m_tables s m)"
          unfolding mem_rows_def by (rule map_first_addr) (use Some mem_invD(3)[OF inv] in auto)
        have s': "s' = rewrite_row m u a s" "r = Inr ?r"
          using run checks Some False by (simp_all add: mem_update_def update_rows_find)
        have spec: "spec_update m ws u (mem_abs s) =
            (set_rows m (map ((m_heap s)(a := ?r)) (m_tables s m)) (mem_abs s), Inr ?r)"
          using checks rows Some False by (simp add: spec_update_def violates_unique_spec[OF inv] mf)
        from sdb_invD[OF spec_update_inv[OF mem_inv_abs[OF inv] id, of m ws], of m] spec
        have ok: "rows_ok (mem_uniq s m) (map ((m_heap s)(a := ?r)) (m_tables s m))"
          by (simp add: mem_inv_uniq[OF inv])
        have "\<not> clash f ?r (m_heap s b)"
          if "f \<in> set (mem_uniq s m)" "b \<in> set (m_tables s m)" "b \<noteq> a" for f b
          using no_clash_addr[OF ok that(1) mem_invD(3)[OF inv] a that(2)] that(3) by auto
        from rewrite_row_inv[OF inv a id this ok] show ?thesis using s' spec by simp
      qed
    qed
  qed
qed

lemma rows_ok_same:
  assumes "rows_ok us (map h as)" and "''id'' \<in> set us"
    and same: "\<And>a f. a \<in> set as \<Longrightarrow> f \<in> set us \<Longrightarrow> map_of (h' a) f = map_of (h a) f"
  shows "rows_ok us (map h' as)"
proof -
  have "has_str_id (h' a)" if "a \<in> set as" for a
    using assms that by (simp add: rows_ok_def has_str_id_def)
  moreover have "sorted_wrt (\<lambda>a b. \<not> clash f (h' a) (h' b)) as" if "f \<in> set us" for f
  proof -
    have "sorted_wrt (\<lambda>a b. \<not> clash f (h a) (h b)) as"
      using assms(1) that by (simp add: rows_ok_def sorted_wrt_map)
    then show ?thesis
      by (rule sorted_wrt_mono_rel[rotated]) (simp add: clash_iff same that)
  qed
  ultimately show ?thesis by (simp add: rows_ok_def sorted_wrt_map)
qed

lemma set_rows_twice [simp]: "set_rows m x (set_rows m y d) = set_rows m x d"
  by (simp add: set_rows_def)

lemma rewrite_row_sel [simp]:
  "m_tables (rewrite_row m u a s) = m_tables s"
  "m_heap (rewrite_row m u a s) = (m_heap s)(a := gmerge (m_heap s a) u)"
  "m_unique (rewrite_row m u a s) = m_unique s" "m_schema (rewrite_row m u a s) = m_schema s"
  by (simp_all add: rewrite_row_def Let_def)

lemma rewrite_untouched:
  assumes inv: "mem_inv S s" and a: "a \<in> set (m_tables s m)"
    and no: "\<And>f. f \<in> set (mem_uniq s m) \<Longrightarrow> \<not> ghas u f"
  shows "mem_inv S (rewrite_row m u a s) \<and>
         mem_abs (rewrite_row m u a s) =
           set_rows m (map ((m_heap s)(a := gmerge (m_heap s a) u)) (m_tables s m)) (mem_abs s)"
proof (rule rewrite_row_inv[OF inv a])
  note id = id_in_mem_uniq[OF inv, of m]
  then show "\<not> ghas u ''id''" by (rule no)
  have keep: "map_of (gmerge (m_heap s a) u) f = map_of (m_heap s a) f" if "f \<in> set (mem_uniq s m)" for f
    using no[OF that] by (simp add: ghas_def map_add_def)
  then show "\<not> clash f (gmerge (m_heap s a) u) (m_heap s b)"
    if "f \<in> set (mem_uniq s m)" "b \<in> set (m_tables s m)" "b \<noteq> a" for f b
    using no_clash_addr[OF mem_invD(7)[OF inv, unfolded mem_rows_def] that(1) mem_invD(3)[OF inv] a that(2)] that(1,3)
    by (simp add: clash_iff)
  show "rows_ok (mem_uniq s m) (map ((m_heap s)(a := gmerge (m_heap s a) u)) (m_tables s m))"
    by (rule rows_ok_same[OF mem_invD(7)[OF inv, unfolded mem_rows_def] id]) (use keep in auto)
qed

lemma update_many_rows_inv:
  assumes "mem_inv S s" and "set as \<subseteq> set (m_tables s m)" and "distinct as"
    and "\<And>f. f \<in> set (mem_uniq s m) \<Longrightarrow> \<not> ghas u f"
    and "update_many_rows m ws u as (s, n) = (s', n')"
  shows "mem_inv S s' \<and> n' = n + length (filter (\<lambda>a. matches (m_heap s a) ws) as) \<and>
    mem_abs s' = set_rows m (map (\<lambda>a. if a \<in> set as \<and> matches (m_heap s a) ws
                                      then gmerge (m_heap s a) u else m_heap s a) (m_tables s m)) (mem_abs s)"
  using assms
proof (induction as arbitrary: s n)
  case Nil
  then show ?case by (simp add: set_rows_def mem_abs_def mem_rows_def[abs_def] fun_eq_iff)
next
  case (Cons a as)
  show ?case
  proof (cases "matches (m_heap s a) ws")
    case False
    then have "(a' = a \<or> a' \<in> set as) \<and> matches (m_heap s a') ws \<longleftrightarrow> a' \<in> set as \<and> matches (m_heap s a') ws" for a'
      by auto
    with False Cons.IH[of s n] Cons.prems show ?thesis by simp
  next
    case True
    let ?s = "rewrite_row m u a s"
    have a: "a \<in> set (m_tables s m)" using Cons.prems by simp
    have u: "mem_uniq ?s = mem_uniq s" by (rule mem_uniq_cong) simp
    have s1: "mem_inv S ?s"
      "mem_abs ?s = set_rows m (map ((m_heap s)(a := gmerge (m_heap s a) u)) (m_tables s m)) (mem_abs s)"
      using rewrite_untouched[OF Cons.prems(1) a Cons.prems(4)] by auto
    have run: "update_many_rows m ws u as (?s, Suc n) = (s', n')" using True Cons.prems(5) by simp
    have heap: "m_heap ?s b = m_heap s b" if "b \<in> set as" for b
      using that Cons.prems(3) by auto
    have fl: "filter (\<lambda>a. matches (m_heap ?s a) ws) as = filter (\<lambda>a. matches (m_heap s a) ws) as"
      by (rule filter_cong) (simp_all only: heap)
    have mp: "map (\<lambda>b. if b \<in> set as \<and> matches (m_heap ?s b) ws then gmerge (m_heap ?s b) u else m_heap ?s b)
          (m_tables ?s m) =
        map (\<lambda>b. if b \<in> set (a # as) \<and> matches (m_heap s b) ws then gmerge (m_heap s b) u else m_heap s b)
          (m_tables s m)"
      using True Cons.prems(3) by (intro map_cong) auto
    from Cons.IH[OF s1(1) _ _ _ run] Cons.prems(2-4)
    show ?thesis unfolding fl mp s1(2) by (simp add: u True)
  qed
qed

lemma mem_update_many_sim:
  assumes no: "\<And>f. f \<in> set (uniq_in S m) \<Longrightarrow> \<not> ghas u f"
  shows "sim mem_abs (mem_inv S) (mem_update_many m ws u) (spec_update_many m ws u)"
proof (rule simI)
  fix s s' r assume inv: "mem_inv S s" and run: "mem_update_many m ws u s = (s', r)"
  have us: "mem_uniq s m = uniq_in S m"
    using inv by (simp add: mem_inv_uniq[OF inv] sd_uniq_in[of "mem_abs s"] mem_inv_def)
  show "mem_inv S s' \<and> spec_update_many m ws u (mem_abs s) = (mem_abs s', r)"
  proof (cases "u \<noteq> [] \<and> check_where_fields (mem_table s m) ws = None \<and> check_writable_fields (mem_table s m) u = None")
    case False
    then show ?thesis using run inv
      by (auto simp: mem_update_many_def spec_update_many_def split: option.splits if_splits)
  next
    case True
    obtain n where r: "update_many_rows m ws u (m_tables s m) (s, 0) = (s', n)" "r = Inr n"
      using True run by (auto simp: mem_update_many_def split: prod.splits)
    from update_many_rows_inv[OF inv _ mem_invD(3)[OF inv] no r(1)] us True r(2)
    show ?thesis
      by (simp add: spec_update_many_def mem_rows_def comp_def filter_map cong: map_cong)
  qed
qed

lemma unindex_row_sel [simp]:
  "m_tables (unindex_row m a s) = m_tables s" "m_heap (unindex_row m a s) = m_heap s"
  "m_next (unindex_row m a s) = m_next s" "m_schema (unindex_row m a s) = m_schema s"
  "m_unique (unindex_row m a s) = m_unique s" "mem_uniq (unindex_row m a s) = mem_uniq s"
  "m_index (unindex_row m a s) =
     (m_index s)(m := remove_from_index (mem_uniq s m) (m_heap s) (m_heap s a) (m_index s m))"
  by (simp_all add: unindex_row_def)

text \<open>Dropping rows of a model together with their index entries.\<close>

lemma drop_rows_inv:
  assumes inv: "mem_inv S s" and keep: "as = filter P (m_tables s m)"
    and same: "m_tables s' = (m_tables s)(m := as)" "m_heap s' = m_heap s" "m_next s' = m_next s"
      "m_schema s' = m_schema s" "m_unique s' = m_unique s" "\<And>m'. m' \<noteq> m \<Longrightarrow> m_index s' m' = m_index s m'"
    and ix: "idx_ok (mem_uniq s m) (m_heap s) (set as) (m_index s' m)"
  shows "mem_inv S s' \<and> mem_abs s' = set_rows m (map (m_heap s) as) (mem_abs s)"
proof -
  have u: "mem_uniq s' = mem_uniq s" by (rule mem_uniq_cong) (rule same)
  have "map (m_heap s) as = map (m_heap s) (filter P (m_tables s m))" by (simp add: keep)
  have rows: "rows_ok (mem_uniq s m) (map (m_heap s) as)"
    using mem_invD(7)[OF inv, of m]
    by (auto simp: rows_ok_def keep mem_rows_def sorted_wrt_map sorted_wrt_filter)
  have sub: "set as \<subseteq> set (m_tables s m)" by (auto simp: keep)
  have "model_ok s' m" using rows ix by (simp add: model_ok_def u mem_rows_def same)
  then have "mem_inv S s' \<and> mem_abs s' = set_rows m (mem_rows s' m) (mem_abs s)"
    by (rule mem_inv_modify[OF inv, rotated -1])
      (use same sub mem_invD(3,4)[OF inv] mem_inv_same_model[OF inv] in \<open>auto simp: keep\<close>)
  then show ?thesis by (simp add: mem_rows_def same)
qed

lemma delete_rows_find:
  "delete_rows m ws before as s =
     (case find (\<lambda>a. matches (m_heap s a) ws) as of
        None \<Rightarrow> s
      | Some a \<Rightarrow> set_addrs m (before @ remove_first (\<lambda>a. matches (m_heap s a) ws) as) (unindex_row m a s))"
  by (induction as arbitrary: before) (auto split: option.splits)

lemma remove_first_map: "remove_first P (map h as) = map h (remove_first (\<lambda>a. P (h a)) as)"
  by (induction as) auto

lemma remove_first_distinct:
  "distinct as \<Longrightarrow> find P as = Some a \<Longrightarrow> remove_first P as = filter (\<lambda>b. b \<noteq> a) as"
proof (induction as)
  case (Cons b as)
  then show ?case by (cases "P b") (auto simp: find_Some_iff intro: filter_True[symmetric])
qed simp

lemma remove_first_none: "find P as = None \<Longrightarrow> remove_first P as = as"
  by (induction as) (auto split: if_splits)

lemma set_rows_id: "set_rows m (sd_rows d m) d = d"
  by (simp add: set_rows_def)

lemma mem_delete_sim: "sim mem_abs (mem_inv S) (mem_delete m ws) (spec_delete m ws)"
proof (rule simI)
  fix s s' r assume inv: "mem_inv S s" and run: "mem_delete m ws s = (s', r)"
  let ?P = "\<lambda>a. matches (m_heap s a) ws"
  show "mem_inv S s' \<and> spec_delete m ws (mem_abs s) = (mem_abs s', r)"
  proof (cases "check_where_fields (mem_table s m) ws")
    case (Some e)
    then show ?thesis using run inv by (auto simp: mem_delete_def spec_delete_def)
  next
    case None
    have rows: "remove_first (\<lambda>r. matches r ws) (mem_rows s m) = map (m_heap s) (remove_first ?P (m_tables s m))"
      by (simp add: mem_rows_def remove_first_map)
    show ?thesis
    proof (cases "find ?P (m_tables s m)")
      case none: None
      then show ?thesis
        using run inv None set_rows_id[of m "mem_abs s"] rows
        by (simp add: mem_delete_def spec_delete_def delete_rows_find remove_first_none mem_rows_def)
    next
      case (Some a)
      then have a: "a \<in> set (m_tables s m)" by (auto simp: find_Some_iff)
      let ?as = "remove_first ?P (m_tables s m)"
      let ?s = "set_addrs m ?as (unindex_row m a s)"
      have as: "?as = filter (\<lambda>b. b \<noteq> a) (m_tables s m)"
        by (rule remove_first_distinct[OF mem_invD(3)[OF inv] Some])
      have "idx_ok (mem_uniq s m) (m_heap s) (set (m_tables s m) - {a}) (m_index ?s m)"
        using idx_ok_remove[OF mem_invD(6)[OF inv] a mem_same_record[OF inv a]] by simp
      then have "mem_inv S ?s \<and> mem_abs ?s = set_rows m (map (m_heap s) ?as) (mem_abs s)"
        by (intro drop_rows_inv[OF inv as]) (simp_all add: as set_filter set_diff_eq)
      then show ?thesis
        using run None Some by (simp add: mem_delete_def spec_delete_def delete_rows_find rows)
    qed
  qed
qed

lemma delete_many_rows_inv:
  assumes "idx_ok (mem_uniq s m) (m_heap s) A (m_index s m)" and "set as \<subseteq> A" and "distinct as"
    and "\<And>a b. a \<in> A \<Longrightarrow> b \<in> A \<Longrightarrow> same_record (m_heap s b) (m_heap s a) \<longleftrightarrow> b = a"
    and "delete_many_rows m ws as (s, kept, n) = (s', kept', n')"
  shows "kept' = kept @ filter (\<lambda>a. \<not> matches (m_heap s a) ws) as \<and>
    n' = n + length (filter (\<lambda>a. matches (m_heap s a) ws) as) \<and>
    m_tables s' = m_tables s \<and> m_heap s' = m_heap s \<and> m_next s' = m_next s \<and>
    m_schema s' = m_schema s \<and> m_unique s' = m_unique s \<and>
    (\<forall>m'. m' \<noteq> m \<longrightarrow> m_index s' m' = m_index s m') \<and>
    idx_ok (mem_uniq s m) (m_heap s) (A - {a \<in> set as. matches (m_heap s a) ws}) (m_index s' m)"
  using assms
proof (induction as arbitrary: s kept n A)
  case (Cons a as)
  show ?case
  proof (cases "matches (m_heap s a) ws")
    case True
    let ?s = "unindex_row m a s"
    have a: "a \<in> A" using Cons.prems by simp
    have ix: "idx_ok (mem_uniq ?s m) (m_heap ?s) (A - {a}) (m_index ?s m)"
      using idx_ok_remove[OF Cons.prems(1) a Cons.prems(4)[OF a]] by simp
    have run: "delete_many_rows m ws as (?s, kept, Suc n) = (s', kept', n')"
      using True Cons.prems(5) by simp
    have "A - {a} - {b \<in> set as. matches (m_heap s b) ws} = A - {b \<in> set (a # as). matches (m_heap s b) ws}"
      using True by auto
    with Cons.IH[OF ix _ _ _ run] Cons.prems(2-4) True show ?thesis by auto
  next
    case False
    have run: "delete_many_rows m ws as (s, kept @ [a], n) = (s', kept', n')"
      using False Cons.prems(5) by simp
    have "{b \<in> set as. matches (m_heap s b) ws} = {b \<in> set (a # as). matches (m_heap s b) ws}"
      using False by auto
    with Cons.IH[OF Cons.prems(1) _ _ Cons.prems(4) run] Cons.prems(2,3) False show ?thesis by simp
  qed
qed simp

lemma mem_delete_many_sim: "sim mem_abs (mem_inv S) (mem_delete_many m ws) (spec_delete_many m ws)"
proof (rule simI)
  fix s s' r assume inv: "mem_inv S s" and run: "mem_delete_many m ws s = (s', r)"
  let ?P = "\<lambda>a. matches (m_heap s a) ws"
  show "mem_inv S s' \<and> spec_delete_many m ws (mem_abs s) = (mem_abs s', r)"
  proof (cases "check_where_fields (mem_table s m) ws")
    case (Some e)
    then show ?thesis using run inv by (auto simp: mem_delete_many_def spec_delete_many_def)
  next
    case None
    obtain s1 kept n where loop: "delete_many_rows m ws (m_tables s m) (s, [], 0) = (s1, kept, n)"
      by (metis prod_cases3)
    then have s': "s' = set_addrs m kept s1" "r = Inr n"
      using run None by (auto simp: mem_delete_many_def)
    note l = delete_many_rows_inv[OF mem_invD(6)[OF inv] subset_refl mem_invD(3)[OF inv]
        mem_same_record[OF inv] loop]
    have kept: "kept = filter (\<lambda>a. \<not> ?P a) (m_tables s m)" using l by simp
    have "set (m_tables s m) - {a \<in> set (m_tables s m). ?P a} = set kept" using kept by auto
    then have "mem_inv S s' \<and> mem_abs s' = set_rows m (map (m_heap s) kept) (mem_abs s)"
      using l by (intro drop_rows_inv[OF inv kept]) (simp_all add: s')
    then show ?thesis
      using None l s' by (simp add: spec_delete_many_def mem_rows_def filter_map comp_def kept)
  qed
qed

lemma index_rows_ok:
  assumes "idx_ok us h A ix" and "distinct as" and "A \<inter> set as = {}"
    and "\<And>f a b. f \<in> set us \<Longrightarrow> a \<in> A \<union> set as \<Longrightarrow> b \<in> A \<union> set as \<Longrightarrow> a \<noteq> b \<Longrightarrow> \<not> clash f (h a) (h b)"
  shows "idx_ok us h (A \<union> set as) (index_rows us h as ix)"
  using assms
proof (induction as arbitrary: A ix)
  case (Cons a as)
  have "idx_ok us h (insert a A) (add_to_index us (h a) a ix)"
    by (rule idx_ok_add[OF Cons.prems(1)]) (use Cons.prems(3,4) in auto)
  from Cons.IH[OF this] Cons.prems(2-4) show ?case by auto
qed simp

lemma mem_child_inv: "mem_inv S s \<Longrightarrow> mem_inv S (mem_child s) \<and> mem_abs (mem_child s) = mem_abs s"
proof -
  assume inv: "mem_inv S s"
  have u: "mem_uniq (mem_child s) = mem_uniq s" by (rule mem_uniq_cong) (simp add: mem_child_def)
  have rows: "mem_rows (mem_child s) = mem_rows s" by (simp add: mem_child_def mem_rows_def fun_eq_iff)
  have "model_ok (mem_child s) m" for m
  proof -
    have "idx_ok (mem_uniq s m) (m_heap s) ({} \<union> set (m_tables s m))
        (index_rows (mem_uniq s m) (m_heap s) (m_tables s m) (\<lambda>_ _. None))"
      by (rule index_rows_ok[OF idx_ok_empty mem_invD(3)[OF inv]])
        (use no_clash_addr[OF mem_invD(7)[OF inv, of m, unfolded mem_rows_def] _ mem_invD(3)[OF inv]] in auto)
    then show ?thesis
      using mem_invD(7)[OF inv, of m] by (simp add: model_ok_def u rows) (simp add: mem_child_def)
  qed
  moreover have "addrs_ok (mem_child s)"
    using mem_invD(2)[OF inv] by (simp add: addrs_ok_def mem_child_def)
  ultimately show ?thesis using inv by (simp add: mem_inv_def mem_abs_def rows) (simp add: mem_child_def)
qed

lemma mem_transaction_sim:
  assumes fg: "sim mem_abs (mem_inv S) f g"
  shows "sim mem_abs (mem_inv S) (mem_transaction f) (spec_transaction g)"
proof (rule simI)
  fix s s' r assume inv: "mem_inv S s" and run: "mem_transaction f s = (s', r)"
  obtain c rc where c: "f (mem_child s) = (c, rc)" by force
  note child = mem_child_inv[OF inv]
  from simD[OF fg _ c] child have ci: "mem_inv S c" and g: "g (mem_abs s) = (mem_abs c, rc)" by auto
  show "mem_inv S s' \<and> spec_transaction g (mem_abs s) = (mem_abs s', r)"
  proof (cases rc)
    case (Inl e)
    then have "s' = s" "r = Inl e" using run c by (simp_all add: mem_transaction_def)
    then show ?thesis using g inv Inl by (simp add: spec_transaction_def)
  next
    case (Inr v)
    have "s' = s\<lparr>m_tables := m_tables c, m_index := m_index c, m_heap := m_heap c, m_next := m_next c\<rparr>"
      using run c Inr by (simp add: mem_transaction_def)
    moreover have "m_schema s = m_schema c" "m_unique s = m_unique c"
      using inv ci by (simp_all add: mem_inv_def)
    ultimately have "s' = c" by (cases s; cases c) simp
    moreover have "r = Inr v" using run c Inr by (simp add: mem_transaction_def)
    ultimately show ?thesis using g ci Inr by (simp add: spec_transaction_def)
  qed
qed

lemma mem_find_many_spec: "mem_find_many m ws opts s = spec_find_many m ws opts (mem_abs s)"
  by (simp add: mem_find_many_def spec_find_many_def split: option.splits)

lemma mem_count_spec: "mem_count m ws s = spec_count m ws (mem_abs s)"
  by (simp add: mem_count_def spec_count_def split: option.splits)

lemma mem_inv_schema: "mem_inv S s \<Longrightarrow> m_schema s = S"
  by (simp add: mem_inv_def)

interpretation mem: storage_contract mem_adapter mem_abs "mem_inv S" S for S
proof (unfold_locales, goal_cases)
  case (7 m u ws)
  then show ?case using mem_update_many_sim[OF 7] by simp
qed (auto simp: mem_inv_abs mem_find_one_spec mem_find_many_spec mem_count_spec mem_create_sim
    mem_update_sim mem_delete_sim mem_delete_many_sim mem_transaction_sim mem_inv_schema)

text \<open>A new adapter that was given its schema before any row.\<close>

definition mem_start :: "schema \<Rightarrow> mem" where
  "mem_start sc = mem_set_schema sc mem_new"

lemma mem_start_inv [inv_intros]: "wf_schema sc \<Longrightarrow> mem_inv (Some sc) (mem_start sc)"
  by (auto simp: mem_inv_def mem_start_def mem_set_schema_def mem_new_def addrs_ok_def model_ok_def
      rows_ok_def mem_rows_def idx_ok_empty fun_eq_iff uniq_cache_def)

lemma mem_abs_start: "mem_abs (mem_start sc) = \<lparr>sd_rows = (\<lambda>_. []), sd_schema = Some sc\<rparr>"
  by (simp add: mem_abs_def mem_start_def mem_set_schema_def mem_new_def mem_rows_def fun_eq_iff)

end
