(* ===== verification/Storage_Trace.thy ===== *)
theory Storage_Trace
  imports Memory
begin

text \<open>
  Sequences of calls on an adapter. Inside the contract a sequence of requests gets
  the same responses from every adapter; through the interpretation this holds of the
  in-memory adapter, whose tables then never hold a duplicate. The last section shows
  what the contract leaves out: bulk updates of unique fields, and rows that were there
  before the schema.
\<close>

section \<open>Requests\<close>

datatype request =
    RCreate string grec
  | RFindOne string "clause list"
  | RFindMany string "clause list" "find_options option"
  | RUpdate string "clause list" grec
  | RUpdateMany string "clause list" grec
  | RDelete string "clause list"
  | RDeleteMany string "clause list"
  | RCount string "clause list"

datatype response = PRec grec | PRecs "grec list" | PCount nat | PDone

definition as_response :: "('a \<Rightarrow> response) \<Rightarrow> ('s, 'a) act \<Rightarrow> ('s, response) act" where
  "as_response c f = bind f (\<lambda>v. ret (c v))"

fun run_request :: "'s adapter \<Rightarrow> request \<Rightarrow> ('s, response) act" where
  "run_request A (RCreate m d) = as_response PRec (ad_create A m d)"
| "run_request A (RFindOne m ws) = as_response PRec (query (ad_find_one A m ws))"
| "run_request A (RFindMany m ws o') = as_response PRecs (query (ad_find_many A m ws o'))"
| "run_request A (RUpdate m ws u) = as_response PRec (ad_update A m ws u)"
| "run_request A (RUpdateMany m ws u) = as_response PCount (ad_update_many A m ws u)"
| "run_request A (RDelete m ws) = as_response (\<lambda>_. PDone) (ad_delete A m ws)"
| "run_request A (RDeleteMany m ws) = as_response PCount (ad_delete_many A m ws)"
| "run_request A (RCount m ws) = as_response PCount (query (ad_count A m ws))"

text \<open>Every call is answered, errors included, and the next one runs on the state it left.\<close>

fun run_requests :: "'s adapter \<Rightarrow> request list \<Rightarrow> 's \<Rightarrow> 's \<times> response result list" where
  "run_requests A [] s = (s, [])"
| "run_requests A (q # qs) s =
     (case run_request A q s of (s1, r) \<Rightarrow> (case run_requests A qs s1 of (s2, rs) \<Rightarrow> (s2, r # rs)))"

fun in_contract :: "schema option \<Rightarrow> request \<Rightarrow> bool" where
  "in_contract S (RCreate m d) = (case map_of d ''id'' of Some (VStr _) \<Rightarrow> True | _ \<Rightarrow> False)"
| "in_contract S (RFindOne m ws) = good_query ws"
| "in_contract S (RUpdate m ws u) = (\<not> ghas u ''id'')"
| "in_contract S (RUpdateMany m ws u) = list_all (\<lambda>f. \<not> ghas u f) (uniq_in S m)"
| "in_contract S _ = True"

lemma in_contract_create: "in_contract S (RCreate m d) \<longleftrightarrow> has_str_id d"
  by (auto simp: has_str_id_def split: option.splits gval.splits)

context storage_contract
begin

lemma run_request_sim:
  assumes "in_contract S q"
  shows "sim \<alpha> I (run_request A q) (run_request spec_adapter q)"
proof (cases q)
  case (RCreate m d)
  then show ?thesis using assms
    by (auto simp: as_response_def in_contract_create simp del: in_contract.simps intro!: sim_intros storage_sims)
qed (use assms in \<open>auto simp: as_response_def list_all_iff intro!: sim_intros storage_sims\<close>)

lemma run_requests_sim:
  "list_all (in_contract S) qs \<Longrightarrow> I s \<Longrightarrow> run_requests A qs s = (s', rs) \<Longrightarrow>
   I s' \<and> run_requests spec_adapter qs (\<alpha> s) = (\<alpha> s', rs)"
proof (induction qs arbitrary: s s' rs)
  case (Cons q qs)
  obtain s1 r where q: "run_request A q s = (s1, r)" by force
  obtain s2 rs2 where qs: "run_requests A qs s1 = (s2, rs2)" by force
  have 1: "I s1 \<and> run_request spec_adapter q (\<alpha> s) = (\<alpha> s1, r)"
    using simD[OF run_request_sim _ q] Cons.prems by simp
  have "I s2 \<and> run_requests spec_adapter qs (\<alpha> s1) = (\<alpha> s2, rs2)"
    using Cons.IH[OF _ _ qs] Cons.prems 1 by simp
  then show ?case using 1 q qs Cons.prems(3) by simp
qed simp

text \<open>Two rows of a model that agree on a unique field are the same row.\<close>

lemma unique_rows:
  assumes "I s" and "i < length (sd_rows (\<alpha> s) m)" "j < length (sd_rows (\<alpha> s) m)"
    and "f \<in> set (uniq_in S m)"
    and "map_of (sd_rows (\<alpha> s) m ! i) f = Some (VStr v)" "map_of (sd_rows (\<alpha> s) m ! j) f = Some (VStr v)"
  shows "i = j"
proof (rule ccontr)
  assume "i \<noteq> j"
  have "sorted_wrt (\<lambda>a b. \<not> clash f a b) (sd_rows (\<alpha> s) m)"
    using sdb_invD[OF inv_abs[OF \<open>I s\<close>], of m] assms(4) sd_uniq_in[OF inv_schema[OF \<open>I s\<close>], of m]
    by (simp add: rows_ok_def)
  then have "\<not> clash f (sd_rows (\<alpha> s) m ! i) (sd_rows (\<alpha> s) m ! j)"
    using \<open>i \<noteq> j\<close> assms(2,3) by (metis clash_sym linorder_neqE_nat sorted_wrt_nth_less)
  then show False using assms(5,6) by (auto simp: clash_iff)
qed

end

section \<open>The in-memory adapter\<close>

definition sdb_start :: "schema \<Rightarrow> sdb" where
  "sdb_start sc = \<lparr>sd_rows = (\<lambda>_. []), sd_schema = Some sc\<rparr>"

text \<open>
  C1: the in-memory adapter implements the reference store. Started empty with a
  well-formed schema it answers every sequence of requests inside the contract, errors
  included, exactly as scanning the rows does: indexes, shared records and the unique
  cache are never observable, and afterwards its content is that of the reference.
\<close>

theorem memory_refines_reference:
  assumes "wf_schema sc" and "list_all (in_contract (Some sc)) qs"
  shows "snd (run_requests mem_adapter qs (mem_start sc)) = snd (run_requests spec_adapter qs (sdb_start sc))
    \<and> mem_abs (fst (run_requests mem_adapter qs (mem_start sc))) = fst (run_requests spec_adapter qs (sdb_start sc))
    \<and> mem_inv (Some sc) (fst (run_requests mem_adapter qs (mem_start sc)))"
  using mem.run_requests_sim[OF assms(2) mem_start_inv[OF assms(1)] surjective_pairing]
  by (simp add: mem_abs_start sdb_start_def)

definition demo_user :: "string \<Rightarrow> string \<Rightarrow> grec" where
  "demo_user i e = [(''id'', VStr i), (''email'', VStr e)]"

definition demo_requests :: "request list" where
  "demo_requests =
     [RCreate ''user'' (demo_user ''1'' ''a''), RCreate ''user'' (demo_user ''2'' ''b''),
      RUpdate ''user'' [W ''id'' (VStr ''2'')] [(''email'', VStr ''c'')],
      RFindOne ''user'' [W ''email'' (VStr ''c'')],
      RUpdateMany ''user'' [] [(''name'', VStr ''n'')],
      RDelete ''user'' [W ''email'' (VStr ''a'')], RCount ''user'' []]"

lemma core_user_table: "map_of (sc_tables core_schema) ''user'' = Some user_table"
  by (simp add: core_schema_def add_table_def new_schema_def core_tables model_names gput_def)

lemma core_unique_user: "uniq_in (Some core_schema) ''user'' = [''id'', ''email'']"
  by (simp add: uniq_in_def schema_table_def core_user_table uniq_of_def unique_fields_def
      user_table_def col_def)

lemma memory_refines_reference_witness:
  "snd (run_requests mem_adapter demo_requests (mem_start core_schema)) =
   snd (run_requests spec_adapter demo_requests (sdb_start core_schema))"
  using memory_refines_reference[OF wf_core_schema, of demo_requests]
  by (simp add: demo_requests_def demo_user_def core_unique_user ghas_def)

text \<open>
  C2: at most one row of a model holds a given string in a unique field, after any
  sequence of requests inside the contract.
\<close>

theorem memory_unique_rows:
  assumes "wf_schema sc" and "list_all (in_contract (Some sc)) qs" and "f \<in> set (uniq_in (Some sc) m)"
    and "rows = mem_rows (fst (run_requests mem_adapter qs (mem_start sc))) m"
  shows "card {i. i < length rows \<and> map_of (rows ! i) f = Some (VStr v)} \<le> 1"
proof -
  have "mem_inv (Some sc) (fst (run_requests mem_adapter qs (mem_start sc)))"
    using mem.run_requests_sim[OF assms(2) mem_start_inv[OF assms(1)] surjective_pairing] by blast
  then have "i = j" if "i < length rows" "j < length rows"
    "map_of (rows ! i) f = Some (VStr v)" "map_of (rows ! j) f = Some (VStr v)" for i j
    using mem.unique_rows[of "Some sc" _ i m j f v] that assms(3) by (simp add: assms(4))
  then show ?thesis by (simp add: card_le_Suc0_iff_eq)
qed

lemma memory_unique_rows_witness:
  "card {i. i < length (mem_rows (fst (run_requests mem_adapter demo_requests (mem_start core_schema))) ''user'')
      \<and> map_of (mem_rows (fst (run_requests mem_adapter demo_requests (mem_start core_schema))) ''user'' ! i) ''email''
        = Some (VStr ''c'')} \<le> 1"
  by (rule memory_unique_rows[OF wf_core_schema, where qs = demo_requests])
    (simp_all add: demo_requests_def demo_user_def core_unique_user ghas_def)

section \<open>Transactions\<close>

text \<open>A function that asks its adapter for a list of requests and gives up at the first error.\<close>

fun run_all :: "'s adapter \<Rightarrow> request list \<Rightarrow> ('s, response list) act" where
  "run_all A [] = ret []"
| "run_all A (q # qs) = bind (run_request A q) (\<lambda>r. bind (run_all A qs) (\<lambda>rs. ret (r # rs)))"

lemma run_all_ok:
  "run_all A qs s = (s', Inr rs) \<Longrightarrow> run_requests A qs s = (s', map Inr rs)"
proof (induction qs arbitrary: s rs)
  case (Cons q qs)
  from Cons.prems show ?case by (auto simp: bind_def ret_def Cons.IH split: prod.splits sum.splits)
qed (simp add: ret_def)

lemma run_all_error:
  "run_all A qs s = (s', Inl e) \<Longrightarrow> \<exists>rs qs1 q qs2. qs = qs1 @ q # qs2 \<and> snd (run_requests A (qs1 @ [q]) s) = map Inr rs @ [Inl e]"
proof (induction qs arbitrary: s)
  case (Cons q qs)
  obtain s1 r where q: "run_request A q s = (s1, r)" by force
  show ?case
  proof (cases r)
    case (Inl e')
    then have "e' = e" using Cons.prems q by (simp add: bind_def)
    then show ?thesis using q Inl by (intro exI[of _ "[]"] exI[of _ q] exI[of _ qs]) simp
  next
    case (Inr v)
    then have "run_all A qs s1 = (s', Inl e)" using Cons.prems q by (auto simp: bind_def ret_def split: prod.splits sum.splits)
    from Cons.IH[OF this] obtain rs qs1 q' qs2 where *: "qs = qs1 @ q' # qs2" "snd (run_requests A (qs1 @ [q']) s1) = map Inr rs @ [Inl e]" by blast
    have "snd (run_requests A ((q # qs1) @ [q']) s) = map Inr (v # rs) @ [Inl e]"
      using * q Inr by (auto split: prod.splits)
    with *(1) show ?thesis by (metis append_Cons)
  qed
qed (simp add: ret_def)

context storage_contract
begin

lemma run_all_sim: "list_all (in_contract S) qs \<Longrightarrow> sim \<alpha> I (run_all A qs) (run_all spec_adapter qs)"
  by (induction qs) (auto intro!: sim_intros run_request_sim)

end

text \<open>
  C3: a transaction on the in-memory adapter is all or nothing, and takes place as a whole. Whatever
  requests were asked before, a batch of requests asked inside a transaction is answered
  as the reference store answers it; if one of them fails, that is the result, and every later request is
  answered as if the batch had never been asked; otherwise every later request, one that asks for a value of a
  unique field taken in the batch included, is answered as if the batch had been asked outside.
\<close>

theorem memory_transaction_atomic:
  assumes "wf_schema sc" and "list_all (in_contract (Some sc)) (before @ batch @ after)"
    and "s = fst (run_requests mem_adapter before (mem_start sc))" and "d = fst (run_requests spec_adapter before (sdb_start sc))"
    and "mem_transaction (run_all mem_adapter batch) s = (s', r)"
  shows "r = snd (run_all spec_adapter batch d)
    \<and> (case r of
         Inl e \<Rightarrow> (\<exists>rs n. snd (run_requests spec_adapter (take n batch) d) = map Inr rs @ [Inl e])
           \<and> s' = s \<and> snd (run_requests mem_adapter after s') = snd (run_requests spec_adapter after d)
       | Inr rs \<Rightarrow> snd (run_requests spec_adapter batch d) = map Inr rs
           \<and> snd (run_requests mem_adapter after s') = snd (run_requests spec_adapter after (fst (run_requests spec_adapter batch d))))"
proof -
  have ok: "list_all (in_contract (Some sc)) before" "list_all (in_contract (Some sc)) batch" "list_all (in_contract (Some sc)) after"
    using assms(2) by simp_all
  have s: "mem_inv (Some sc) s" "mem_abs s = d"
    using mem.run_requests_sim[OF ok(1) mem_start_inv[OF assms(1)] surjective_pairing] assms(3,4)
    by (simp_all add: mem_abs_start sdb_start_def prod_eq_iff)
  from simD[OF mem_transaction_sim[OF mem.run_all_sim[OF ok(2)]] s(1) assms(5)] s(2)
  have inv: "mem_inv (Some sc) s'" and spec: "spec_transaction (run_all spec_adapter batch) d = (mem_abs s', r)" by simp_all
  obtain d' r' where run: "run_all spec_adapter batch d = (d', r')" by force
  have later: "snd (run_requests mem_adapter after s') = snd (run_requests spec_adapter after (mem_abs s'))"
    using mem.run_requests_sim[OF ok(3) inv surjective_pairing] by simp
  show ?thesis
  proof (cases r')
    case (Inl e)
    then have r: "r = Inl e" "mem_abs s' = d" using spec run by (simp_all add: spec_transaction_def)
    have "s' = s" using assms(5) r(1) by (auto simp: mem_transaction_def split: prod.splits sum.splits)
    moreover obtain rs qs1 q qs2 where "batch = qs1 @ q # qs2" "snd (run_requests spec_adapter (qs1 @ [q]) d) = map Inr rs @ [Inl e]"
      using run_all_error run Inl by metis
    then have "\<exists>rs n. snd (run_requests spec_adapter (take n batch) d) = map Inr rs @ [Inl e]"
      by (intro exI[of _ rs] exI[of _ "Suc (length qs1)"]) simp
    ultimately show ?thesis using r run Inl later by simp
  next
    case (Inr rs)
    then have r: "r = Inr rs" "mem_abs s' = d'" using spec run by (simp_all add: spec_transaction_def)
    from run_all_ok[OF run[unfolded Inr]] show ?thesis using r run Inr later by simp
  qed
qed

definition demo_batch :: "request list" where
  "demo_batch = [RCreate ''user'' (demo_user ''2'' ''b''), RUpdate ''user'' [W ''id'' (VStr ''1'')] [(''email'', VStr ''c'')]]"

definition demo_taken :: request where "demo_taken = RCreate ''user'' (demo_user ''3'' ''b'')"

lemma memory_transaction_atomic_witness:
  "(let s = fst (run_requests mem_adapter [RCreate ''user'' (demo_user ''1'' ''a'')] (mem_start core_schema)) in
     (case mem_transaction (run_all mem_adapter demo_batch) s of
        (s', Inr rs) \<Rightarrow> snd (run_requests mem_adapter [demo_taken] s') = [Inl ErrUniqueViolation] | _ \<Rightarrow> False)
     \<and> (case mem_transaction (run_all mem_adapter (demo_batch @ [demo_taken])) s of
        (s', Inl e) \<Rightarrow> e = ErrUniqueViolation \<and> s' = s \<and> is_ok (hd (snd (run_requests mem_adapter [demo_taken] s'))) | _ \<Rightarrow> False))"
proof -
  let ?one = "[RCreate ''user'' (demo_user ''1'' ''a'')]"
  let ?s = "fst (run_requests mem_adapter ?one (mem_start core_schema))"
  let ?d = "fst (run_requests spec_adapter ?one (sdb_start core_schema))"
  note contract = demo_batch_def demo_taken_def demo_user_def
  obtain s1 r1 where 1: "mem_transaction (run_all mem_adapter demo_batch) ?s = (s1, r1)" by force
  obtain s2 r2 where 2: "mem_transaction (run_all mem_adapter (demo_batch @ [demo_taken])) ?s = (s2, r2)" by force
  have k: "list_all (in_contract (Some core_schema)) (?one @ demo_batch @ [demo_taken])"
    "list_all (in_contract (Some core_schema)) (?one @ (demo_batch @ [demo_taken]) @ [demo_taken])"
    by (simp_all add: contract ghas_def)
  have e: "is_ok (snd (run_all spec_adapter demo_batch ?d))"
    "snd (run_requests spec_adapter [demo_taken] (fst (run_requests spec_adapter demo_batch ?d))) = [Inl ErrUniqueViolation]"
    "snd (run_all spec_adapter (demo_batch @ [demo_taken]) ?d) = Inl ErrUniqueViolation"
    "is_ok (hd (snd (run_requests spec_adapter [demo_taken] ?d)))" by code_simp+
  show ?thesis
    using memory_transaction_atomic[OF wf_core_schema k(1) refl refl 1] memory_transaction_atomic[OF wf_core_schema k(2) refl refl 2] e 1 2
    by (auto simp: Let_def split: sum.splits)
qed

section \<open>What the contract leaves out\<close>

lemma user_table_simps:
  "has_field user_table f \<longleftrightarrow> f \<in> set [''id'', ''name'', ''email'', ''emailVerified'', ''image'', ''createdAt'', ''updatedAt'']"
  "unique_fields user_table = [''id'', ''email'']" "tb_uniques user_table = []"
  "apply_defaults user_table d = (if ghas d ''emailVerified'' then d else gput d ''emailVerified'' (VBool False))"
  by (auto simp: has_field_def field_by_name_def user_table_def col_def unique_fields_def apply_defaults_def)

lemmas mem_eval = mem_start_def mem_set_schema_def mem_new_def mem_create_def mem_update_many_def
  mem_table_def schema_table_def core_user_table check_writable_fields_def check_where_fields_def
  unknown_keys_def user_table_simps mem_uniq_def
  violates_unique_def violates_composite_def mem_rows_def idx_get_def idx_put_def rewrite_row_def
  set_index_def set_addrs_def write_rec_def ghas_def Let_def

text \<open>The user rows after two inserts and a bulk update of the unique email.\<close>

definition bulk_email_rows :: "grec list" where
  "bulk_email_rows =
     mem_rows (fst (mem_update_many ''user'' [] [(''email'', VStr ''x'')]
       (fst (mem_create ''user'' (demo_user ''2'' ''b'')
         (fst (mem_create ''user'' (demo_user ''1'' ''a'') (mem_start core_schema))))))) ''user''"

text \<open>
  C4: \<open>UpdateMany\<close> of the in-memory adapter does not look for unique violations: two
  users created with different emails end up sharing one, which \<open>Create\<close> and
  \<open>Update\<close> would have refused.
\<close>

theorem memory_update_many_duplicates:
  "map (\<lambda>r. map_of r ''email'') bulk_email_rows = [Some (VStr ''x''), Some (VStr ''x'')]"
  by (simp add: mem_eval bulk_email_rows_def demo_user_def)

text \<open>A row written before \<open>SetSchema\<close>.\<close>

definition preloaded :: mem where
  "preloaded = mem_set_schema core_schema (fst (mem_create ''user'' (demo_user ''1'' ''a'') mem_new))"

text \<open>
  C5: \<open>SetSchema\<close> does not index rows that are already there: a lookup by email misses
  a user that a scan with the same filter finds.
\<close>

theorem memory_set_schema_misses_rows:
  "mem_find_one ''user'' [W ''email'' (VStr ''a'')] preloaded = Inl ErrNotFound
   \<and> mem_find_many ''user'' [W ''email'' (VStr ''a'')] None preloaded = Inr [demo_user ''1'' ''a'']"
  by (simp add: mem_eval preloaded_def mem_find_one_def mem_find_many_def lookup_unique_def demo_user_def
      rget_def page_def)

end
