(* ===== verification/Row_Types.thy ===== *)
theory Row_Types
  imports Storage_Trace
begin

text \<open>
  What a stored row looks like: it has a string id, no column that its table does not
  declare, and whatever an adapter was asked, in whatever order, does not change that.
\<close>

definition declared_row :: "table option \<Rightarrow> grec \<Rightarrow> bool" where
  "declared_row t row = (case t of None \<Rightarrow> True | Some tb \<Rightarrow> list_all (\<lambda>(k, _). has_field tb k) row)"

definition declared :: "sdb \<Rightarrow> bool" where
  "declared d \<longleftrightarrow> (\<forall>m. list_all (declared_row (sd_table d m)) (sd_rows d m))"

lemma declared_row_iff: "declared_row t row \<longleftrightarrow> (\<forall>tb. t = Some tb \<longrightarrow> (\<forall>k\<in>fst ` set row. has_field tb k))"
  by (auto simp: declared_row_def list_all_iff split: option.splits)

lemma unknown_keys_none: "unknown_keys t ks = [] \<longleftrightarrow> (\<forall>tb. t = Some tb \<longrightarrow> (\<forall>k\<in>set ks. has_field tb k))"
proof -
  have "stable_sort str_less xs = [] \<longleftrightarrow> xs = []" for xs :: "string list"
    by (metis length_0_conv length_stable_sort)
  then show ?thesis by (auto simp: unknown_keys_def filter_empty_conv split: option.splits)
qed

lemma writable_declared: "check_writable_fields t row = None \<longleftrightarrow> declared_row t row"
proof -
  have "check_writable_fields t row = None \<longleftrightarrow> unknown_keys t (map fst row) = []"
    by (simp add: check_writable_fields_def split: list.split)
  then show ?thesis by (auto simp: unknown_keys_none declared_row_iff)
qed

lemma keys_gmerge: "fst ` set (gmerge a b) = fst ` set a \<union> fst ` set b"
  by (metis Un_commute dom_map_add dom_map_of_conv_image_fst map_of_gmerge)

lemma declared_gmerge: "declared_row t a \<Longrightarrow> declared_row t b \<Longrightarrow> declared_row t (gmerge a b)"
  by (auto simp: declared_row_iff keys_gmerge)

lemma keys_gput: "fst ` set (gput a k v) = insert k (fst ` set a)"
  by (metis dom_fun_upd dom_map_of_conv_image_fst map_of_gput option.distinct(1))

lemma declared_gput: "declared_row (Some t) r \<Longrightarrow> has_field t k \<Longrightarrow> declared_row (Some t) (gput r k v)"
  by (auto simp: declared_row_iff keys_gput)

lemma declared_defaults: "declared_row (Some t) r \<Longrightarrow> declared_row (Some t) (apply_defaults t r)"
proof -
  have "\<forall>f\<in>set fs. has_field t (fd_name f) \<Longrightarrow> declared_row (Some t) r \<Longrightarrow> declared_row (Some t) (apply_default_fields fs r)" for fs
  proof (induction fs arbitrary: r)
    case (Cons f fs)
    then show ?case using declared_gput[of t r "fd_name f"] by (auto split: option.splits)
  qed simp
  moreover have "has_field t (fd_name f)" if "f \<in> set (tb_fields t)" for f
    using that by (auto simp: has_field_def field_by_name_def find_None_iff)
  ultimately show "declared_row (Some t) r \<Longrightarrow> declared_row (Some t) (apply_defaults t r)" by (simp add: apply_defaults_def)
qed

lemma declared_set_rows:
  "declared d \<Longrightarrow> list_all (declared_row (sd_table d m)) rows \<Longrightarrow> declared (set_rows m rows d)"
  by (simp add: declared_def)

lemma declared_rows: "declared d \<Longrightarrow> r \<in> set (sd_rows d m) \<Longrightarrow> sd_table d m = t \<Longrightarrow> declared_row t r"
  by (auto simp: declared_def list_all_iff)

text \<open>Every operation of the reference store keeps rows declared.\<close>

lemma declared_step:
  assumes "declared d" and "run_request spec_adapter q d = (d', r)"
  shows "declared d'"
proof (cases q)
  case (RCreate m data)
  then show ?thesis using assms
    by (auto simp: as_response_def bind_def spec_create_def Let_def writable_declared list_all_iff
        intro!: declared_set_rows dest: declared_rows declared_defaults split: prod.splits sum.splits option.splits if_splits)
next
  case (RUpdate m ws u)
  then show ?thesis using assms
    by (auto simp: as_response_def bind_def spec_update_def writable_declared list_all_iff
        intro!: declared_set_rows declared_gmerge dest!: set_map_first dest: declared_rows
        split: prod.splits sum.splits option.splits if_splits)
next
  case (RUpdateMany m ws u)
  then show ?thesis using assms
    by (auto simp: as_response_def bind_def spec_update_many_def writable_declared list_all_iff
        intro!: declared_set_rows declared_gmerge dest: declared_rows split: prod.splits sum.splits option.splits if_splits)
next
  case (RDelete m ws)
  have "set (remove_first P xs) \<subseteq> set xs" for P and xs :: "grec list" by (induction xs) auto
  then show ?thesis using RDelete assms
    by (auto simp: as_response_def bind_def spec_delete_def list_all_iff
        intro!: declared_set_rows dest: declared_rows split: prod.splits sum.splits option.splits if_splits) (meson declared_rows subsetD)
next
  case (RDeleteMany m ws)
  then show ?thesis using assms
    by (auto simp: as_response_def bind_def spec_delete_many_def list_all_iff
        intro!: declared_set_rows dest: declared_rows split: prod.splits sum.splits option.splits if_splits)
qed (use assms in \<open>auto simp: as_response_def bind_query split: sum.splits\<close>)

lemma declared_run: "declared d \<Longrightarrow> declared (fst (run_requests spec_adapter qs d))"
proof (induction qs arbitrary: d)
  case (Cons q qs)
  obtain d1 r where q: "run_request spec_adapter q d = (d1, r)" by (meson surj_pair)
  show ?case using Cons.IH[OF declared_step[OF Cons.prems q]] by (simp add: q split_beta)
qed simp

text \<open>
  C30: whatever requests inside the contract the in-memory adapter has answered since it was
  started empty, every row of every model has a string id, and no column that the schema
  does not declare for that model.
\<close>

theorem memory_rows_declared:
  assumes "wf_schema sc" and "list_all (in_contract (Some sc)) qs"
    and "row \<in> set (mem_rows (fst (run_requests mem_adapter qs (mem_start sc))) m)"
  shows "has_str_id row \<and> declared_row (schema_table (Some sc) m) row"
proof -
  obtain s rs where run: "run_requests mem_adapter qs (mem_start sc) = (s, rs)" by (meson surj_pair)
  from mem.run_requests_sim[OF assms(2) mem_start_inv[OF assms(1)] run]
  have inv: "mem_inv (Some sc) s" and spec: "run_requests spec_adapter qs (sdb_start sc) = (mem_abs s, rs)"
    by (auto simp: mem_abs_start sdb_start_def)
  have "declared (mem_abs s)" using declared_run[of "sdb_start sc" qs] spec by (simp add: declared_def sdb_start_def)
  moreover have "sd_table (mem_abs s) m = schema_table (Some sc) m" using mem.inv_schema[OF inv] by (simp add: sd_table_def del: mem_abs_sel)
  moreover have "row \<in> set (sd_rows (mem_abs s) m)" using assms(3) run by simp
  ultimately have "declared_row (schema_table (Some sc) m) row" by (blast intro: declared_rows)
  moreover have "has_str_id row"
    using sdb_invD[OF mem.inv_abs[OF inv], of m] \<open>row \<in> set (sd_rows (mem_abs s) m)\<close> by (simp add: rows_ok_def)
  ultimately show ?thesis by blast
qed

lemma memory_rows_declared_witness:
  "\<exists>row. row \<in> set (mem_rows (fst (run_requests mem_adapter demo_requests (mem_start core_schema))) ''user'')
    \<and> has_str_id row \<and> declared_row (schema_table (Some core_schema) ''user'') row"
proof -
  have ok: "list_all (in_contract (Some core_schema)) demo_requests" by code_simp
  have "sd_rows (fst (run_requests spec_adapter demo_requests (sdb_start core_schema))) ''user'' \<noteq> []" by code_simp
  moreover have "mem_rows (fst (run_requests mem_adapter demo_requests (mem_start core_schema)))
      = sd_rows (fst (run_requests spec_adapter demo_requests (sdb_start core_schema)))"
    using mem.run_requests_sim[OF ok mem_start_inv[OF wf_core_schema] surjective_pairing]
    by (simp add: mem_abs_start sdb_start_def)
  ultimately obtain row where "row \<in> set (mem_rows (fst (run_requests mem_adapter demo_requests (mem_start core_schema))) ''user'')"
    by (metis list.set_intros(1) neq_Nil_conv)
  then show ?thesis using memory_rows_declared[OF wf_core_schema ok] by blast
qed

end
