(* ===== verification/Models.thy ===== *)
theory Models
  imports Storage_Schema
begin

text \<open>
  The domain types of storage/model.go and their conversion to and from generic
  records. \<open>Extra\<close> carries the columns an application added.
\<close>

section \<open>Types\<close>

record user =
  u_id :: string
  u_name :: string
  u_email :: string
  u_email_verified :: bool
  u_image :: string
  u_created :: gtime
  u_updated :: gtime
  u_extra :: grec

record session =
  s_id :: string
  s_user :: string
  s_token :: string
  s_expires :: gtime
  s_ip :: string
  s_agent :: string
  s_created :: gtime
  s_updated :: gtime
  s_extra :: grec

record account =
  a_id :: string
  a_user :: string
  a_account :: string
  a_provider :: string
  a_access_token :: string
  a_refresh_token :: string
  a_id_token :: string
  a_access_expires :: gtime
  a_refresh_expires :: gtime
  a_scope :: string
  a_password :: string
  a_created :: gtime
  a_updated :: gtime
  a_extra :: grec

record verification =
  v_id :: string
  v_identifier :: string
  v_value :: string
  v_expires :: gtime
  v_created :: gtime
  v_updated :: gtime

section \<open>Conversions\<close>

definition user_to_map :: "user \<Rightarrow> grec" where
  "user_to_map u = gmerge
     [(''id'', VStr (u_id u)), (''name'', VStr (u_name u)), (''email'', VStr (u_email u)),
      (''emailVerified'', VBool (u_email_verified u)), (''image'', VStr (u_image u)),
      (''createdAt'', VTime (u_created u)), (''updatedAt'', VTime (u_updated u))] (u_extra u)"

definition user_keys :: "string list" where
  "user_keys = [''id'', ''name'', ''email'', ''emailVerified'', ''image'', ''createdAt'', ''updatedAt'']"

definition user_from_map :: "grec \<Rightarrow> user" where
  "user_from_map m =
     \<lparr>u_id = str_val (rget m ''id''), u_name = str_val (rget m ''name''),
      u_email = str_val (rget m ''email''), u_email_verified = bool_val (rget m ''emailVerified''),
      u_image = str_val (rget m ''image''), u_created = time_val (rget m ''createdAt''),
      u_updated = time_val (rget m ''updatedAt''),
      u_extra = filter (\<lambda>p. fst p \<notin> set user_keys) m\<rparr>"

definition session_to_map :: "session \<Rightarrow> grec" where
  "session_to_map s = gmerge
     [(''id'', VStr (s_id s)), (''userId'', VStr (s_user s)), (''token'', VStr (s_token s)),
      (''expiresAt'', VTime (s_expires s)), (''ipAddress'', VStr (s_ip s)),
      (''userAgent'', VStr (s_agent s)), (''createdAt'', VTime (s_created s)),
      (''updatedAt'', VTime (s_updated s))] (s_extra s)"

definition session_keys :: "string list" where
  "session_keys = [''id'', ''userId'', ''token'', ''expiresAt'', ''ipAddress'', ''userAgent'',
                   ''createdAt'', ''updatedAt'']"

definition session_from_map :: "grec \<Rightarrow> session" where
  "session_from_map m =
     \<lparr>s_id = str_val (rget m ''id''), s_user = str_val (rget m ''userId''),
      s_token = str_val (rget m ''token''), s_expires = time_val (rget m ''expiresAt''),
      s_ip = str_val (rget m ''ipAddress''), s_agent = str_val (rget m ''userAgent''),
      s_created = time_val (rget m ''createdAt''), s_updated = time_val (rget m ''updatedAt''),
      s_extra = filter (\<lambda>p. fst p \<notin> set session_keys) m\<rparr>"

definition account_to_map :: "account \<Rightarrow> grec" where
  "account_to_map a = gmerge
     [(''id'', VStr (a_id a)), (''userId'', VStr (a_user a)), (''accountId'', VStr (a_account a)),
      (''providerId'', VStr (a_provider a)), (''accessToken'', VStr (a_access_token a)),
      (''refreshToken'', VStr (a_refresh_token a)), (''idToken'', VStr (a_id_token a)),
      (''accessTokenExpiresAt'', VTime (a_access_expires a)),
      (''refreshTokenExpiresAt'', VTime (a_refresh_expires a)), (''scope'', VStr (a_scope a)),
      (''password'', VStr (a_password a)), (''createdAt'', VTime (a_created a)),
      (''updatedAt'', VTime (a_updated a))] (a_extra a)"

definition account_keys :: "string list" where
  "account_keys = [''id'', ''userId'', ''accountId'', ''providerId'', ''accessToken'', ''refreshToken'',
                   ''idToken'', ''accessTokenExpiresAt'', ''refreshTokenExpiresAt'', ''scope'',
                   ''password'', ''createdAt'', ''updatedAt'']"

definition account_from_map :: "grec \<Rightarrow> account" where
  "account_from_map m =
     \<lparr>a_id = str_val (rget m ''id''), a_user = str_val (rget m ''userId''),
      a_account = str_val (rget m ''accountId''), a_provider = str_val (rget m ''providerId''),
      a_access_token = str_val (rget m ''accessToken''),
      a_refresh_token = str_val (rget m ''refreshToken''), a_id_token = str_val (rget m ''idToken''),
      a_access_expires = time_val (rget m ''accessTokenExpiresAt''),
      a_refresh_expires = time_val (rget m ''refreshTokenExpiresAt''),
      a_scope = str_val (rget m ''scope''), a_password = str_val (rget m ''password''),
      a_created = time_val (rget m ''createdAt''), a_updated = time_val (rget m ''updatedAt''),
      a_extra = filter (\<lambda>p. fst p \<notin> set account_keys) m\<rparr>"

definition verification_to_map :: "verification \<Rightarrow> grec" where
  "verification_to_map v =
     [(''id'', VStr (v_id v)), (''identifier'', VStr (v_identifier v)), (''value'', VStr (v_value v)),
      (''expiresAt'', VTime (v_expires v)), (''createdAt'', VTime (v_created v)),
      (''updatedAt'', VTime (v_updated v))]"

definition verification_from_map :: "grec \<Rightarrow> verification" where
  "verification_from_map m =
     \<lparr>v_id = str_val (rget m ''id''), v_identifier = str_val (rget m ''identifier''),
      v_value = str_val (rget m ''value''), v_expires = time_val (rget m ''expiresAt''),
      v_created = time_val (rget m ''createdAt''), v_updated = time_val (rget m ''updatedAt'')\<rparr>"

section \<open>Round trips\<close>

lemma rget_gmerge: "rget (gmerge m u) k = (if ghas u k then rget u k else rget m k)"
  by (auto simp: rget_def ghas_def map_add_def split: option.splits)

lemma map_of_filter_key: "map_of (filter (\<lambda>p. P (fst p)) m) k = (if P k then map_of m k else None)"
  by (induction m) auto

definition same_user :: "user \<Rightarrow> user \<Rightarrow> bool" where
  "same_user a b \<longleftrightarrow> a\<lparr>u_extra := []\<rparr> = b\<lparr>u_extra := []\<rparr> \<and> map_of (u_extra a) = map_of (u_extra b)"

definition same_session :: "session \<Rightarrow> session \<Rightarrow> bool" where
  "same_session a b \<longleftrightarrow> a\<lparr>s_extra := []\<rparr> = b\<lparr>s_extra := []\<rparr> \<and> map_of (s_extra a) = map_of (s_extra b)"

definition same_account :: "account \<Rightarrow> account \<Rightarrow> bool" where
  "same_account a b \<longleftrightarrow> a\<lparr>a_extra := []\<rparr> = b\<lparr>a_extra := []\<rparr> \<and> map_of (a_extra a) = map_of (a_extra b)"

lemma map_of_filter_merge:
  assumes "\<And>k. k \<in> set ks \<Longrightarrow> \<not> ghas u k" and "\<And>k. k \<notin> set ks \<Longrightarrow> map_of base k = None"
  shows "map_of (filter (\<lambda>p. fst p \<notin> set ks) (gmerge base u)) = map_of u"
proof
  fix k show "map_of (filter (\<lambda>p. fst p \<notin> set ks) (gmerge base u)) k = map_of u k"
    using assms[of k] map_of_filter_key[of "\<lambda>k. k \<notin> set ks" "gmerge base u" k]
    by (auto simp: ghas_def map_add_def split: option.splits)
qed

text \<open>
  A user, session, account or verification survives the trip through its generic
  record, added columns included, unless an added column has the name of a core one.
\<close>

theorem model_round_trips:
  assumes "\<forall>k\<in>set user_keys. \<not> ghas (u_extra u) k" and "\<forall>k\<in>set session_keys. \<not> ghas (s_extra s) k"
    and "\<forall>k\<in>set account_keys. \<not> ghas (a_extra a) k"
  shows "same_user (user_from_map (user_to_map u)) u \<and> same_session (session_from_map (session_to_map s)) s
    \<and> same_account (account_from_map (account_to_map a)) a
    \<and> verification_from_map (verification_to_map v) = v"
proof (intro conjI)
  show "same_user (user_from_map (user_to_map u)) u"
    using assms(1) unfolding same_user_def user_from_map_def user_to_map_def
    by (intro conjI, simp add: rget_gmerge user_keys_def, simp add: rget_def,
        simp, intro map_of_filter_merge) (auto simp: user_keys_def)
  show "same_session (session_from_map (session_to_map s)) s"
    using assms(2) unfolding same_session_def session_from_map_def session_to_map_def
    by (intro conjI, simp add: rget_gmerge session_keys_def, simp add: rget_def,
        simp, intro map_of_filter_merge) (auto simp: session_keys_def)
  show "same_account (account_from_map (account_to_map a)) a"
    using assms(3) unfolding same_account_def account_from_map_def account_to_map_def
    by (intro conjI, simp add: rget_gmerge account_keys_def, simp add: rget_def,
        simp, intro map_of_filter_merge) (auto simp: account_keys_def)
  show "verification_from_map (verification_to_map v) = v"
    by (simp add: verification_from_map_def verification_to_map_def rget_def)
qed

lemma model_round_trips_witness:
  "same_user (user_from_map (user_to_map (user_from_map [(''plan'', VStr ''pro'')])))
     (user_from_map [(''plan'', VStr ''pro'')])"
  by (rule conjunct1[OF model_round_trips[of _ "session_from_map []" "account_from_map []"]])
    (auto simp: user_from_map_def session_from_map_def account_from_map_def ghas_def map_of_filter_key)

end
