(* ===== verification/Store.thy ===== *)
theory Store
  imports Models Storage_Trace
begin

text \<open>
  The typed store of store.go and the delete cascade of cascade.go, over any adapter.
  Time and generated identifiers are arguments. A database hook gets the record,
  may change it, and may refuse.

  The operations simulate themselves on the reference store (inside the locale
  \<open>storage_contract\<close>), so what is shown of them there holds of every adapter that keeps
  the contract.
\<close>

section \<open>Hooks and transactions\<close>

type_synonym hook = "grec \<Rightarrow> grec result"

record db_hooks =
  user_before_create :: "hook option"
  user_after_create :: "hook option"
  user_before_update :: "hook option"
  user_after_update :: "hook option"
  session_before_create :: "hook option"
  session_after_create :: "hook option"
  account_before_create :: "hook option"
  account_after_create :: "hook option"

definition no_hooks :: db_hooks where
  "no_hooks = \<lparr>user_before_create = None, user_after_create = None, user_before_update = None,
     user_after_update = None, session_before_create = None, session_after_create = None,
     account_before_create = None, account_after_create = None\<rparr>"

definition run_hook :: "hook option \<Rightarrow> grec \<Rightarrow> ('s, grec) act" where
  "run_hook h r = (case h of None \<Rightarrow> ret r | Some f \<Rightarrow> (\<lambda>s. (s, f r)))"

definition store_transaction :: "'s adapter \<Rightarrow> ('s, grec) act \<Rightarrow> ('s, grec) act" where
  "store_transaction A f = (case ad_transaction A of None \<Rightarrow> f | Some tr \<Rightarrow> tr f)"

definition normalize_email :: "string \<Rightarrow> string" where
  "normalize_email e = to_lower (trim_space e)"

section \<open>Users\<close>

definition create_user :: "'s adapter \<Rightarrow> db_hooks \<Rightarrow> gtime \<Rightarrow> string \<Rightarrow> user \<Rightarrow> ('s, user) act" where
  "create_user A H now gen u =
     (let u1 = u\<lparr>u_id := (if u_id u = '''' then gen else u_id u), u_email := normalize_email (u_email u),
                 u_created := now, u_updated := now\<rparr>
      in bind (run_hook (user_before_create H) (user_to_map u1)) (\<lambda>r.
         bind (ad_create A model_user r) (\<lambda>out.
         bind (run_hook (user_after_create H) out) (\<lambda>out'.
         ret (user_from_map out')))))"

definition find_user_by_id :: "'s adapter \<Rightarrow> string \<Rightarrow> ('s, user) act" where
  "find_user_by_id A i =
     bind (query (ad_find_one A model_user [W ''id'' (VStr i)])) (\<lambda>r. ret (user_from_map r))"

definition find_user_by_email :: "'s adapter \<Rightarrow> string \<Rightarrow> ('s, user) act" where
  "find_user_by_email A e =
     bind (query (ad_find_one A model_user [W ''email'' (VStr (normalize_email e))]))
       (\<lambda>r. ret (user_from_map r))"

definition update_user :: "'s adapter \<Rightarrow> db_hooks \<Rightarrow> gtime \<Rightarrow> string \<Rightarrow> grec \<Rightarrow> ('s, user) act" where
  "update_user A H now i upd =
     bind (run_hook (user_before_update H) (gput upd ''updatedAt'' (VTime now))) (\<lambda>u.
     bind (ad_update A model_user [W ''id'' (VStr i)] u) (\<lambda>r.
     bind (run_hook (user_after_update H) r) (\<lambda>r'.
     ret (user_from_map r'))))"

text \<open>The first column of a table that references the user table, or nothing.\<close>

definition references_user_model :: "field \<Rightarrow> bool" where
  "references_user_model f = (case fd_references f of None \<Rightarrow> False | Some r \<Rightarrow> ref_model r = model_user)"

definition user_reference_field :: "table \<Rightarrow> string" where
  "user_reference_field t =
     (case find references_user_model (tb_fields t) of None \<Rightarrow> '''' | Some f \<Rightarrow> fd_name f)"

definition cascade_table :: "'s adapter \<Rightarrow> string \<Rightarrow> string \<times> table \<Rightarrow> ('s, unit) act" where
  "cascade_table A i p =
     (if fst p = model_user \<or> fst p = model_session \<or> fst p = model_account then ret ()
      else if user_reference_field (snd p) = '''' then ret ()
      else bind (ad_delete_many A (fst p) [W (user_reference_field (snd p)) (VStr i)]) (\<lambda>_. ret ()))"

definition delete_user_plugin_data :: "'s adapter \<Rightarrow> schema option \<Rightarrow> string \<Rightarrow> ('s, unit) act" where
  "delete_user_plugin_data A S i =
     (case S of None \<Rightarrow> ret () | Some sc \<Rightarrow> for_each (cascade_table A i) (sc_tables sc))"

definition delete_user_body :: "'s adapter \<Rightarrow> schema option \<Rightarrow> string \<Rightarrow> ('s, unit) act" where
  "delete_user_body A S i =
     bind (ad_delete_many A model_session [W ''userId'' (VStr i)]) (\<lambda>_.
     bind (ad_delete_many A model_account [W ''userId'' (VStr i)]) (\<lambda>_.
     bind (delete_user_plugin_data A S i) (\<lambda>_.
     ad_delete A model_user [W ''id'' (VStr i)])))"

definition delete_user :: "'s adapter \<Rightarrow> schema option \<Rightarrow> string \<Rightarrow> ('s, unit) act" where
  "delete_user A S i = bind (store_transaction A (bind (delete_user_body A S i) (\<lambda>_. ret []))) (\<lambda>_. ret ())"

section \<open>Sessions\<close>

definition create_session ::
  "'s adapter \<Rightarrow> db_hooks \<Rightarrow> gtime \<Rightarrow> string \<Rightarrow> string \<Rightarrow> session \<Rightarrow> ('s, session) act" where
  "create_session A H now gen_id gen_token s =
     (let s1 = s\<lparr>s_id := (if s_id s = '''' then gen_id else s_id s),
                 s_token := (if s_token s = '''' then gen_token else s_token s),
                 s_created := now, s_updated := now\<rparr>
      in bind (run_hook (session_before_create H) (session_to_map s1)) (\<lambda>r.
         bind (ad_create A model_session r) (\<lambda>out.
         bind (run_hook (session_after_create H) out) (\<lambda>out'.
         ret (session_from_map out')))))"

definition find_session_by_token :: "'s adapter \<Rightarrow> string \<Rightarrow> ('s, session) act" where
  "find_session_by_token A tok =
     bind (query (ad_find_one A model_session [W ''token'' (VStr tok)])) (\<lambda>r. ret (session_from_map r))"

definition update_session :: "'s adapter \<Rightarrow> gtime \<Rightarrow> string \<Rightarrow> grec \<Rightarrow> ('s, session) act" where
  "update_session A now tok upd =
     bind (ad_update A model_session [W ''token'' (VStr tok)] (gput upd ''updatedAt'' (VTime now)))
       (\<lambda>r. ret (session_from_map r))"

definition delete_session_by_token :: "'s adapter \<Rightarrow> string \<Rightarrow> ('s, unit) act" where
  "delete_session_by_token A tok = ad_delete A model_session [W ''token'' (VStr tok)]"

definition find_session_by_id :: "'s adapter \<Rightarrow> string \<Rightarrow> ('s, session) act" where
  "find_session_by_id A i =
     bind (query (ad_find_one A model_session [W ''id'' (VStr i)])) (\<lambda>r. ret (session_from_map r))"

definition delete_session_by_id :: "'s adapter \<Rightarrow> string \<Rightarrow> ('s, unit) act" where
  "delete_session_by_id A i = ad_delete A model_session [W ''id'' (VStr i)]"

definition delete_user_sessions :: "'s adapter \<Rightarrow> string \<Rightarrow> ('s, unit) act" where
  "delete_user_sessions A uid =
     bind (ad_delete_many A model_session [W ''userId'' (VStr uid)]) (\<lambda>_. ret ())"

definition list_user_sessions :: "'s adapter \<Rightarrow> string \<Rightarrow> ('s, session list) act" where
  "list_user_sessions A uid =
     bind (query (ad_find_many A model_session [W ''userId'' (VStr uid)] (Some (sort_desc ''createdAt''))))
       (\<lambda>rs. ret (map session_from_map rs))"

section \<open>Accounts\<close>

definition create_account :: "'s adapter \<Rightarrow> db_hooks \<Rightarrow> gtime \<Rightarrow> string \<Rightarrow> account \<Rightarrow> ('s, account) act" where
  "create_account A H now gen a =
     (let a1 = a\<lparr>a_id := (if a_id a = '''' then gen else a_id a), a_created := now, a_updated := now\<rparr>
      in bind (run_hook (account_before_create H) (account_to_map a1)) (\<lambda>r.
         bind (ad_create A model_account r) (\<lambda>out.
         bind (run_hook (account_after_create H) out) (\<lambda>out'.
         ret (account_from_map out')))))"

definition list_user_accounts :: "'s adapter \<Rightarrow> string \<Rightarrow> ('s, account list) act" where
  "list_user_accounts A uid =
     bind (query (ad_find_many A model_account [W ''userId'' (VStr uid)] None))
       (\<lambda>rs. ret (map account_from_map rs))"

definition find_account :: "'s adapter \<Rightarrow> string \<Rightarrow> string \<Rightarrow> ('s, account) act" where
  "find_account A pid aid =
     bind (query (ad_find_one A model_account [W ''providerId'' (VStr pid), W ''accountId'' (VStr aid)]))
       (\<lambda>r. ret (account_from_map r))"

definition find_credential_account :: "'s adapter \<Rightarrow> string \<Rightarrow> ('s, account) act" where
  "find_credential_account A uid =
     bind (query (ad_find_one A model_account
             [W ''userId'' (VStr uid), W ''providerId'' (VStr ''credential'')]))
       (\<lambda>r. ret (account_from_map r))"

definition update_account :: "'s adapter \<Rightarrow> gtime \<Rightarrow> string \<Rightarrow> grec \<Rightarrow> ('s, account) act" where
  "update_account A now i upd =
     bind (ad_update A model_account [W ''id'' (VStr i)] (gput upd ''updatedAt'' (VTime now)))
       (\<lambda>r. ret (account_from_map r))"

definition delete_account :: "'s adapter \<Rightarrow> string \<Rightarrow> ('s, unit) act" where
  "delete_account A i = ad_delete A model_account [W ''id'' (VStr i)]"

section \<open>Verifications\<close>

definition new_verification :: "gtime \<Rightarrow> string \<Rightarrow> string \<Rightarrow> string \<Rightarrow> duration \<Rightarrow> verification" where
  "new_verification now gen ident val ttl =
     \<lparr>v_id = gen, v_identifier = ident, v_value = val, v_expires = time_add now ttl,
      v_created = now, v_updated = now\<rparr>"

definition create_verification ::
  "'s adapter \<Rightarrow> gtime \<Rightarrow> string \<Rightarrow> string \<Rightarrow> string \<Rightarrow> duration \<Rightarrow> ('s, verification) act" where
  "create_verification A now gen ident val ttl =
     (let v = new_verification now gen ident val ttl
      in bind (ad_create A model_verification (verification_to_map v)) (\<lambda>_. ret v))"

definition live_verification :: "gtime \<Rightarrow> grec \<Rightarrow> bool" where
  "live_verification now r = (v_expires (verification_from_map r) > now)"

definition find_verification :: "'s adapter \<Rightarrow> gtime \<Rightarrow> string \<Rightarrow> ('s, verification) act" where
  "find_verification A now ident =
     bind (query (ad_find_many A model_verification [W ''identifier'' (VStr ident)]
             (Some (sort_desc ''createdAt'')))) (\<lambda>recs.
       case find (live_verification now) recs of
         Some r \<Rightarrow> ret (verification_from_map r)
       | None \<Rightarrow>
           attempt (ad_delete_many A model_verification
                     [W ''identifier'' (VStr ident), W_op ''expiresAt'' OpLte (VTime now)])
             (\<lambda>_. fail ErrNotFound))"

definition delete_verification :: "'s adapter \<Rightarrow> string \<Rightarrow> ('s, unit) act" where
  "delete_verification A i = ad_delete A model_verification [W ''id'' (VStr i)]"

definition delete_verifications_by_identifier :: "'s adapter \<Rightarrow> string \<Rightarrow> ('s, unit) act" where
  "delete_verifications_by_identifier A ident =
     bind (ad_delete_many A model_verification [W ''identifier'' (VStr ident)]) (\<lambda>_. ret ())"

section \<open>Simulation\<close>

text \<open>Hooks may change and refuse records, but leave the id of a new record and add none to an update.\<close>

definition keeps_id :: "hook option \<Rightarrow> bool" where
  "keeps_id h \<longleftrightarrow> (\<forall>f r r'. h = Some f \<longrightarrow> f r = Inr r' \<longrightarrow> map_of r' ''id'' = map_of r ''id'')"

definition hooks_ok :: "db_hooks \<Rightarrow> bool" where
  "hooks_ok H \<longleftrightarrow> keeps_id (user_before_create H) \<and> keeps_id (user_before_update H) \<and>
     keeps_id (session_before_create H) \<and> keeps_id (account_before_create H)"

lemma hooks_ok_no_hooks [simp]: "hooks_ok no_hooks"
  by (simp add: hooks_ok_def keeps_id_def no_hooks_def)

lemma sim_hook:
  assumes "keeps_id h"
    and "\<And>r'. map_of r' ''id'' = map_of r ''id'' \<Longrightarrow> sim \<alpha> I (F r') (G r')"
  shows "sim \<alpha> I (bind (run_hook h r) F) (bind (run_hook h r) G)"
proof (cases h)
  case None
  then show ?thesis using assms(2)[of r] by (simp add: run_hook_def)
next
  case (Some f)
  show ?thesis
  proof (cases "f r")
    case (Inl e)
    then have "bind (run_hook h r) F = fail e" "bind (run_hook h r) G = fail e"
      using Some by (simp_all add: run_hook_def bind_def fun_eq_iff)
    then show ?thesis by (simp add: sim_basic)
  next
    case (Inr r')
    then have "bind (run_hook h r) F = F r'" "bind (run_hook h r) G = G r'"
      using Some by (simp_all add: run_hook_def bind_def fun_eq_iff)
    then show ?thesis using assms Some Inr by (simp add: keeps_id_def)
  qed
qed

lemma sim_run_hook: "sim \<alpha> I (run_hook h r) (run_hook h r)"
  by (cases h) (auto simp: run_hook_def sim_def)

lemma user_to_map_id: "\<not> ghas (u_extra u) ''id'' \<Longrightarrow> map_of (user_to_map u) ''id'' = Some (VStr (u_id u))"
  by (simp add: user_to_map_def ghas_def map_add_def)

lemma session_to_map_id: "\<not> ghas (s_extra s) ''id'' \<Longrightarrow> map_of (session_to_map s) ''id'' = Some (VStr (s_id s))"
  by (simp add: session_to_map_def ghas_def map_add_def)

lemma account_to_map_id: "\<not> ghas (a_extra a) ''id'' \<Longrightarrow> map_of (account_to_map a) ''id'' = Some (VStr (a_id a))"
  by (simp add: account_to_map_def ghas_def map_add_def)

context storage_contract
begin

lemma create_user_sim:
  assumes "hooks_ok H" and "\<not> ghas (u_extra u) ''id''"
  shows "sim \<alpha> I (create_user A H now gen u) (create_user spec_adapter H now gen u)"
  using assms unfolding create_user_def Let_def
  by (intro sim_hook)
    (auto simp: hooks_ok_def has_str_id_def user_to_map_id intro!: sim_intros sim_run_hook storage_sims)

lemma create_session_sim:
  assumes "hooks_ok H" and "\<not> ghas (s_extra s) ''id''"
  shows "sim \<alpha> I (create_session A H now gi gt s) (create_session spec_adapter H now gi gt s)"
  using assms unfolding create_session_def Let_def
  by (intro sim_hook)
    (auto simp: hooks_ok_def has_str_id_def session_to_map_id intro!: sim_intros sim_run_hook storage_sims)

lemma create_account_sim:
  assumes "hooks_ok H" and "\<not> ghas (a_extra a) ''id''"
  shows "sim \<alpha> I (create_account A H now gi a) (create_account spec_adapter H now gi a)"
  using assms unfolding create_account_def Let_def
  by (intro sim_hook)
    (auto simp: hooks_ok_def has_str_id_def account_to_map_id intro!: sim_intros sim_run_hook storage_sims)

lemma find_sims:
  "sim \<alpha> I (find_user_by_id A i) (find_user_by_id spec_adapter i)"
  "sim \<alpha> I (find_user_by_email A e) (find_user_by_email spec_adapter e)"
  "sim \<alpha> I (find_session_by_token A tok) (find_session_by_token spec_adapter tok)"
  "sim \<alpha> I (find_session_by_id A i) (find_session_by_id spec_adapter i)"
  "sim \<alpha> I (list_user_sessions A i) (list_user_sessions spec_adapter i)"
  "sim \<alpha> I (list_user_accounts A i) (list_user_accounts spec_adapter i)"
  "sim \<alpha> I (find_account A pid aid) (find_account spec_adapter pid aid)"
  "sim \<alpha> I (find_credential_account A i) (find_credential_account spec_adapter i)"
  unfolding find_user_by_id_def find_user_by_email_def find_session_by_token_def
    find_session_by_id_def list_user_sessions_def list_user_accounts_def find_account_def
    find_credential_account_def
  by (auto intro!: sim_intros storage_sims)

lemma update_user_sim:
  assumes "hooks_ok H" and "\<not> ghas upd ''id''"
  shows "sim \<alpha> I (update_user A H now i upd) (update_user spec_adapter H now i upd)"
  using assms unfolding update_user_def
  by (intro sim_hook) (auto simp: hooks_ok_def ghas_def intro!: sim_intros sim_run_hook storage_sims)

lemma update_sims:
  "\<not> ghas upd ''id'' \<Longrightarrow> sim \<alpha> I (update_session A now tok upd) (update_session spec_adapter now tok upd)"
  "\<not> ghas upd ''id'' \<Longrightarrow> sim \<alpha> I (update_account A now i upd) (update_account spec_adapter now i upd)"
  unfolding update_session_def update_account_def by (auto intro!: sim_intros storage_sims)

lemma delete_sims:
  "sim \<alpha> I (delete_session_by_token A tok) (delete_session_by_token spec_adapter tok)"
  "sim \<alpha> I (delete_session_by_id A i) (delete_session_by_id spec_adapter i)"
  "sim \<alpha> I (delete_user_sessions A i) (delete_user_sessions spec_adapter i)"
  "sim \<alpha> I (delete_account A i) (delete_account spec_adapter i)"
  "sim \<alpha> I (delete_verification A i) (delete_verification spec_adapter i)"
  "sim \<alpha> I (delete_verifications_by_identifier A ident) (delete_verifications_by_identifier spec_adapter ident)"
  unfolding delete_session_by_token_def delete_session_by_id_def delete_user_sessions_def
    delete_account_def delete_verification_def delete_verifications_by_identifier_def
  by (auto intro!: sim_intros storage_sims)

lemma transaction_sims:
  "sim \<alpha> I f g \<Longrightarrow> sim \<alpha> I (store_transaction A f) (store_transaction spec_adapter g)"
  using transactional by (auto simp: store_transaction_def intro: transaction_sim)

lemma delete_user_sim: "sim \<alpha> I (delete_user A Sc i) (delete_user spec_adapter Sc i)"
  unfolding delete_user_def delete_user_body_def delete_user_plugin_data_def cascade_table_def
  by (cases Sc) (auto intro!: transaction_sims sim_intros storage_sims)

lemma verification_sims:
  "sim \<alpha> I (create_verification A now gen ident val ttl) (create_verification spec_adapter now gen ident val ttl)"
  "sim \<alpha> I (find_verification A now ident) (find_verification spec_adapter now ident)"
  unfolding create_verification_def find_verification_def Let_def
  by (auto simp: has_str_id_def verification_to_map_def intro!: sim_intros storage_sims)

lemmas store_sims = create_user_sim create_session_sim create_account_sim find_sims update_user_sim
  update_sims delete_sims delete_user_sim verification_sims

end

end
