(* ===== verification/Tokens.thy ===== *)
theory Tokens
  imports Store
begin

text \<open>
  One-time tokens (token.go): the verification table keyed by kind and digest of the
  token, lookup, consumption and cleanup. The digest is an argument; the theorems use
  nothing of it but that it is a function. The last section interleaves consumers.
\<close>

section \<open>Operations\<close>

definition token_identifier :: "(string \<Rightarrow> string) \<Rightarrow> string \<Rightarrow> string \<Rightarrow> string" where
  "token_identifier hash kind tok = kind @ '':'' @ hash tok"

definition store_token ::
  "'s adapter \<Rightarrow> (string \<Rightarrow> string) \<Rightarrow> gtime \<Rightarrow> string \<Rightarrow> string \<Rightarrow> string \<Rightarrow> string \<Rightarrow> duration \<Rightarrow> ('s, string) act" where
  "store_token A hash now gen_id gen_token kind val ttl =
     bind (create_verification A now gen_id (token_identifier hash kind gen_token) val ttl)
       (\<lambda>_. ret gen_token)"

definition store_token_value ::
  "'s adapter \<Rightarrow> (string \<Rightarrow> string) \<Rightarrow> gtime \<Rightarrow> string \<Rightarrow> string \<Rightarrow> string \<Rightarrow> string \<Rightarrow> duration \<Rightarrow> ('s, unit) act" where
  "store_token_value A hash now gen_id kind tok val ttl =
     bind (delete_verifications_by_identifier A (token_identifier hash kind tok)) (\<lambda>_.
     bind (create_verification A now gen_id (token_identifier hash kind tok) val ttl) (\<lambda>_. ret ()))"

definition dummy_token_write ::
  "'s adapter \<Rightarrow> (string \<Rightarrow> string) \<Rightarrow> gtime \<Rightarrow> string \<Rightarrow> string \<Rightarrow> ('s, unit) act" where
  "dummy_token_write A hash now gen_id gen_token =
     attempt (create_verification A now gen_id (token_identifier hash ''dummy'' gen_token) [] (minutes 1))
       (\<lambda>r. if is_ok r
            then attempt (delete_verifications_by_identifier A (token_identifier hash ''dummy'' gen_token))
                   (\<lambda>_. ret ())
            else ret ())"

definition lookup_token ::
  "'s adapter \<Rightarrow> (string \<Rightarrow> string) \<Rightarrow> gtime \<Rightarrow> string \<Rightarrow> string \<Rightarrow> ('s, verification) act" where
  "lookup_token A hash now kind tok =
     (if tok = '''' then fail ErrNotFound
      else find_verification A now (token_identifier hash kind tok))"

text \<open>The second half of \<open>ConsumeToken\<close>: the delete that claims a row.\<close>

definition claim_token :: "'s adapter \<Rightarrow> verification \<Rightarrow> ('s, string) act" where
  "claim_token A v =
     bind (ad_delete_many A model_verification [W ''id'' (VStr (v_id v))])
       (\<lambda>claimed. if claimed \<noteq> 1 then fail ErrNotFound else ret (v_value v))"

definition consume_token ::
  "'s adapter \<Rightarrow> (string \<Rightarrow> string) \<Rightarrow> gtime \<Rightarrow> string \<Rightarrow> string \<Rightarrow> ('s, string) act" where
  "consume_token A hash now kind tok = bind (lookup_token A hash now kind tok) (claim_token A)"

text \<open>\<open>CleanupExpired\<close> returns the count next to the error; on an error only the error is kept here.\<close>

definition cleanup_expired :: "'s adapter \<Rightarrow> gtime \<Rightarrow> ('s, nat) act" where
  "cleanup_expired A now =
     bind (ad_delete_many A model_verification [W_op ''expiresAt'' OpLte (VTime now)]) (\<lambda>v.
     bind (ad_delete_many A model_session [W_op ''expiresAt'' OpLte (VTime now)]) (\<lambda>n.
     ret (v + n)))"

context storage_contract
begin

lemma token_sims:
  "sim \<alpha> I (store_token A hash now gi gt kind val ttl) (store_token spec_adapter hash now gi gt kind val ttl)"
  "sim \<alpha> I (store_token_value A hash now gi kind tok val ttl) (store_token_value spec_adapter hash now gi kind tok val ttl)"
  "sim \<alpha> I (dummy_token_write A hash now gi gt) (dummy_token_write spec_adapter hash now gi gt)"
  "sim \<alpha> I (lookup_token A hash now kind tok) (lookup_token spec_adapter hash now kind tok)"
  "sim \<alpha> I (claim_token A v) (claim_token spec_adapter v)"
  "sim \<alpha> I (consume_token A hash now kind tok) (consume_token spec_adapter hash now kind tok)"
  "sim \<alpha> I (cleanup_expired A now) (cleanup_expired spec_adapter now)"
  unfolding store_token_def store_token_value_def dummy_token_write_def lookup_token_def
    claim_token_def consume_token_def cleanup_expired_def
  by (auto intro!: sim_intros store_sims storage_sims)

end

section \<open>The verification table\<close>

lemma core_verification_table: "schema_table (Some core_schema) model_verification = Some verification_table"
  by (simp add: schema_table_def core_schema_def add_table_def new_schema_def core_tables model_names gput_def)

lemma verification_fields [simp]:
  "has_field verification_table f \<longleftrightarrow>
     f \<in> set [''id'', ''identifier'', ''value'', ''expiresAt'', ''createdAt'', ''updatedAt'']"
  by (auto simp: has_field_def field_by_name_def verification_table_def col_def)

lemma verification_simps [simp]:
  "unique_fields verification_table = [''id'']" "tb_uniques verification_table = []"
  "apply_defaults verification_table d = d"
  by (simp_all add: verification_table_def col_def unique_fields_def apply_defaults_def)

text \<open>The store of an instance whose schema extends the core schema with tables of plugins.\<close>

definition core_store :: "sdb \<Rightarrow> bool" where
  "core_store d \<longleftrightarrow> sd_table d model_verification = Some verification_table"

abbreviation vrows :: "sdb \<Rightarrow> grec list" where "vrows d \<equiv> sd_rows d model_verification"

lemma check_verification [simp]:
  "check_where_fields (Some verification_table) [W ''id'' x] = None"
  "check_where_fields (Some verification_table) [W ''identifier'' x] = None"
  "check_where_fields (Some verification_table) [W ''identifier'' x, W_op ''expiresAt'' op y] = None"
  "check_where_fields (Some verification_table) [W_op ''expiresAt'' op y] = None"
  "check_writable_fields (Some verification_table) (verification_to_map v) = None"
  by (simp_all add: check_where_fields_def check_writable_fields_def unknown_keys_def verification_to_map_def)

lemma violates_verification:
  "core_store d \<Longrightarrow> map_of r ''id'' = Some (VStr i) \<Longrightarrow>
   spec_violates d model_verification r None \<longleftrightarrow> (\<exists>row\<in>set (vrows d). map_of row ''id'' = Some (VStr i))"
  by (auto simp: spec_violates_def core_store_def sd_uniq_def uniq_of_def violates_composite_def
      list_ex_iff skipped_def clash_iff)

lemma core_store_set_rows [simp]: "core_store (set_rows m rows d) = core_store d"
  by (simp add: core_store_def)

definition with_identifier :: "string \<Rightarrow> grec \<Rightarrow> bool" where
  "with_identifier ident row \<longleftrightarrow> rget row ''identifier'' = VStr ident"

definition with_id :: "string \<Rightarrow> grec \<Rightarrow> bool" where
  "with_id i row \<longleftrightarrow> rget row ''id'' = VStr i"

lemma with_id_iff: "with_id i row \<longleftrightarrow> map_of row ''id'' = Some (VStr i)"
  by (auto simp: with_id_def rget_def split: option.splits)

lemma find_many_verification:
  "core_store d \<Longrightarrow> spec_find_many model_verification [W ''identifier'' (VStr ident)] opts d =
     Inr (page opts (filter (with_identifier ident) (vrows d)))"
  by (simp add: spec_find_many_def core_store_def with_identifier_def[abs_def])

lemma delete_many_verification:
  "core_store d \<Longrightarrow> spec_delete_many model_verification [W ''identifier'' (VStr ident)] d =
     (set_rows model_verification (filter (\<lambda>r. \<not> with_identifier ident r) (vrows d)) d,
      Inr (length (filter (with_identifier ident) (vrows d))))"
  "core_store d \<Longrightarrow> spec_delete_many model_verification [W ''id'' (VStr i)] d =
     (set_rows model_verification (filter (\<lambda>r. \<not> with_id i r) (vrows d)) d,
      Inr (length (filter (with_id i) (vrows d))))"
  by (simp_all add: spec_delete_many_def core_store_def with_identifier_def[abs_def] with_id_def[abs_def])

lemma create_verification_spec:
  assumes "core_store d"
  shows "create_verification spec_adapter now gen ident val ttl d =
    (if \<exists>row\<in>set (vrows d). with_id gen row then (d, Inl ErrUniqueViolation)
     else (set_rows model_verification
             (vrows d @ [verification_to_map (new_verification now gen ident val ttl)]) d,
           Inr (new_verification now gen ident val ttl)))"
proof -
  let ?r = "verification_to_map (new_verification now gen ident val ttl)"
  have "map_of ?r ''id'' = Some (VStr gen)" by (simp add: verification_to_map_def new_verification_def)
  from violates_verification[OF assms this] show ?thesis
    using assms by (auto simp: create_verification_def Let_def bind_def spec_create_def core_store_def with_id_iff)
qed

text \<open>What a lookup does: the newest live row, or cleaning up and not found.\<close>

lemma find_verification_spec:
  assumes "core_store d"
  shows "find_verification spec_adapter now ident d =
    (case find (live_verification now)
            (page (Some (sort_desc ''createdAt'')) (filter (with_identifier ident) (vrows d))) of
       Some r \<Rightarrow> (d, Inr (verification_from_map r))
     | None \<Rightarrow> (fst (spec_delete_many model_verification
                  [W ''identifier'' (VStr ident), W_op ''expiresAt'' OpLte (VTime now)] d), Inl ErrNotFound))"
  using assms by (auto simp: find_verification_def bind_query find_many_verification attempt_def
      split: option.splits prod.splits)

lemma find_in: "find P xs = Some x \<Longrightarrow> x \<in> set xs \<and> P x"
  by (auto simp: find_Some_iff)

lemma find_verification_found:
  assumes "core_store d" and "find_verification spec_adapter now ident d = (d', Inr v)"
  shows "d' = d \<and> v_expires v > now \<and>
    (\<exists>row\<in>set (vrows d). with_identifier ident row \<and> v = verification_from_map row)"
proof -
  let ?rs = "page (Some (sort_desc ''createdAt'')) (filter (with_identifier ident) (vrows d))"
  from assms obtain r where r: "find (live_verification now) ?rs = Some r"
    and d: "d' = d" "v = verification_from_map r"
    by (auto simp: find_verification_spec split: option.splits)
  then have "r \<in> set ?rs" "live_verification now r" using find_in[OF r] by blast+
  then show ?thesis using d by (auto simp: live_verification_def)
qed

lemma claim_token_spec:
  assumes "core_store d"
  shows "claim_token spec_adapter v d =
    (set_rows model_verification (filter (\<lambda>r. \<not> with_id (v_id v) r) (vrows d)) d,
     if length (filter (with_id (v_id v)) (vrows d)) = 1 then Inr (v_value v) else Inl ErrNotFound)"
  using assms by (simp add: claim_token_def bind_def delete_many_verification)

lemma verification_map_sel [simp]:
  "with_id i (verification_to_map v) \<longleftrightarrow> v_id v = i"
  "with_identifier ident (verification_to_map v) \<longleftrightarrow> v_identifier v = ident"
  "live_verification now (verification_to_map v) \<longleftrightarrow> v_expires v > now"
  "verification_from_map (verification_to_map v) = v"
  by (auto simp: with_id_def with_identifier_def live_verification_def verification_to_map_def
      verification_from_map_def rget_def)

lemma page_single [simp]: "page (Some (sort_desc f)) [x] = [x]"
  by (simp add: page_def sort_desc_def)

text \<open>Storing leaves exactly one row for the token; consuming it leaves none.\<close>

lemma store_token_value_spec:
  assumes "core_store d" and ok: "store_token_value spec_adapter hash now gi kind tok val ttl d = (d', Inr ())"
  shows "core_store d' \<and> filter (with_identifier (token_identifier hash kind tok)) (vrows d') =
      [verification_to_map (new_verification now gi (token_identifier hash kind tok) val ttl)] \<and>
    filter (with_id gi) (vrows d') =
      [verification_to_map (new_verification now gi (token_identifier hash kind tok) val ttl)]"
proof -
  let ?id = "token_identifier hash kind tok" and ?v = "new_verification now gi (token_identifier hash kind tok) val ttl"
  let ?rows = "filter (\<lambda>r. \<not> with_identifier ?id r) (vrows d)"
  have ok': "\<not> (\<exists>row\<in>set ?rows. with_id gi row)" "d' = set_rows model_verification (?rows @ [verification_to_map ?v]) d"
    using assms by (auto simp: store_token_value_def delete_verifications_by_identifier_def bind_def
        delete_many_verification create_verification_spec split: if_splits)
  then have "filter (with_id gi) ?rows = []" by (simp add: filter_empty_conv)
  moreover have "v_id ?v = gi" "v_identifier ?v = ?id" by (simp_all add: new_verification_def)
  ultimately show ?thesis using assms(1) by (simp add: ok'(2))
qed

lemma consume_token_found:
  assumes "core_store d" and "tok \<noteq> ''''" and "v_expires v > now"
    and "filter (with_identifier (token_identifier hash kind tok)) (vrows d) = [verification_to_map v]"
    and "filter (with_id (v_id v)) (vrows d) = [verification_to_map v]"
  shows "consume_token spec_adapter hash now kind tok d =
    (set_rows model_verification (filter (\<lambda>r. \<not> with_id (v_id v) r) (vrows d)) d, Inr (v_value v))"
  using assms by (simp add: consume_token_def lookup_token_def bind_def find_verification_spec claim_token_spec)

lemma consume_token_missing:
  assumes "core_store d" and "filter (with_identifier (token_identifier hash kind tok)) (vrows d) = []"
  shows "snd (consume_token spec_adapter hash now kind tok d) = Inl ErrNotFound"
  using assms by (simp add: consume_token_def lookup_token_def bind_def find_verification_spec)

lemma filter_disjoint: "filter P xs = [x] \<Longrightarrow> Q x \<Longrightarrow> filter P (filter (\<lambda>y. \<not> Q y) xs) = []"
proof -
  assume *: "filter P xs = [x]" "Q x"
  have "y = x" if "y \<in> set xs" "P y" for y
  proof -
    have "y \<in> set (filter P xs)" using that by simp
    then show ?thesis using * by simp
  qed
  then show ?thesis using *(2) by (auto simp: filter_empty_conv)
qed

lemma spec_token_single_use:
  assumes "core_store d" and "store_token_value spec_adapter hash now gi kind tok val ttl d = (d1, Inr ())"
    and "tok \<noteq> ''''" and "t < now + ttl"
  shows "\<exists>d2. consume_token spec_adapter hash t kind tok d1 = (d2, Inr val) \<and>
    snd (consume_token spec_adapter hash t' kind tok d2) = Inl ErrNotFound"
proof -
  let ?v = "new_verification now gi (token_identifier hash kind tok) val ttl"
  note st = store_token_value_spec[OF assms(1,2)]
  have v: "v_id ?v = gi" "v_value ?v = val" "v_expires ?v = now + ttl"
    by (simp_all add: new_verification_def time_add_def)
  have c: "consume_token spec_adapter hash t kind tok d1 =
      (set_rows model_verification (filter (\<lambda>r. \<not> with_id gi r) (vrows d1)) d1, Inr val)"
    using consume_token_found[where d = d1 and v = ?v and now = t and hash = hash and kind = kind and tok = tok] st assms(3,4) v by simp
  have "filter (with_identifier (token_identifier hash kind tok)) (filter (\<lambda>r. \<not> with_id gi r) (vrows d1)) = []"
    using st by (intro filter_disjoint) (auto simp: v)
  then show ?thesis
    unfolding c using st by (auto intro!: consume_token_missing)
qed

text \<open>The in-memory adapter with a schema in which the verification table is the core one.\<close>

definition has_core_tables :: "schema \<Rightarrow> bool" where
  "has_core_tables sc \<longleftrightarrow> wf_schema sc \<and> map_of (sc_tables sc) model_verification = Some verification_table
     \<and> map_of (sc_tables sc) model_session = Some session_table
     \<and> map_of (sc_tables sc) model_user = Some user_table
     \<and> map_of (sc_tables sc) model_account = Some account_table"

lemma core_schema_tables: "has_core_tables core_schema"
  using wf_core_schema
  by (simp add: has_core_tables_def core_schema_def add_table_def new_schema_def core_tables model_names gput_def)

lemma core_store_mem: "has_core_tables sc \<Longrightarrow> mem_inv (Some sc) s \<Longrightarrow> core_store (mem_abs s)"
  by (simp add: core_store_def has_core_tables_def mem_table_def schema_table_def mem_inv_schema)

text \<open>
  A value stored under a token is handed out once. Before the token expires
  \<open>ConsumeToken\<close> returns the value that \<open>StoreTokenValue\<close> stored last, whatever was
  stored under the same token before, and every later \<open>ConsumeToken\<close> fails.
\<close>

theorem token_single_use:
  assumes "has_core_tables sc" and "mem_inv (Some sc) s"
    and "store_token_value mem_adapter hash now gi kind tok val ttl s = (s1, Inr ())"
    and "tok \<noteq> ''''" and "t < now + ttl"
  shows "\<exists>s2. consume_token mem_adapter hash t kind tok s1 = (s2, Inr val) \<and>
    snd (consume_token mem_adapter hash t' kind tok s2) = Inl ErrNotFound"
proof -
  note store = simD[OF mem.token_sims(2) assms(2,3)]
  from spec_token_single_use[OF core_store_mem[OF assms(1,2)] conjunct2[OF store] assms(4,5), of t']
  obtain d2 where d2: "consume_token spec_adapter hash t kind tok (mem_abs s1) = (d2, Inr val)"
    "snd (consume_token spec_adapter hash t' kind tok d2) = Inl ErrNotFound" by blast
  obtain s2 r where c: "consume_token mem_adapter hash t kind tok s1 = (s2, r)" by force
  from simD[OF mem.token_sims(6) conjunct1[OF store] c] d2(1)
  have s2: "mem_inv (Some sc) s2" "mem_abs s2 = d2" "r = Inr val" by auto
  have "snd (consume_token mem_adapter hash t' kind tok s2) = Inl ErrNotFound"
    using sim_run[OF mem.token_sims(6) s2(1), of hash t' kind tok] d2(2) s2(2) by simp
  then show ?thesis using c s2(3) by blast
qed

lemma token_single_use_witness:
  "\<exists>s1 s2. store_token_value mem_adapter (\<lambda>x. x) 0 ''v1'' ''reset'' ''abc'' ''user1'' (hours 1) (mem_start core_schema)
      = (s1, Inr ()) \<and>
    consume_token mem_adapter (\<lambda>x. x) 5 ''reset'' ''abc'' s1 = (s2, Inr ''user1'') \<and>
    snd (consume_token mem_adapter (\<lambda>x. x) 6 ''reset'' ''abc'' s2) = Inl ErrNotFound"
proof -
  let ?st = "store_token_value mem_adapter (\<lambda>x. x) 0 ''v1'' ''reset'' ''abc'' ''user1'' (hours 1) (mem_start core_schema)"
  have inv: "mem_inv (Some core_schema) (mem_start core_schema)" by (rule mem_start_inv[OF wf_core_schema])
  have "snd ?st = Inr ()"
  proof -
    have core: "core_store (mem_abs (mem_start core_schema))"
      by (rule core_store_mem[OF core_schema_tables inv])
    have "snd (store_token_value spec_adapter (\<lambda>x. x) 0 ''v1'' ''reset'' ''abc'' ''user1'' (hours 1)
        (mem_abs (mem_start core_schema))) = Inr ()"
      using core by (simp add: store_token_value_def delete_verifications_by_identifier_def bind_def
          delete_many_verification create_verification_spec mem_abs_start)
    then show ?thesis using sim_run[OF mem.token_sims(2) inv] by simp
  qed
  then obtain s1 where s1: "?st = (s1, Inr ())" by (metis prod.collapse)
  from token_single_use[OF core_schema_tables inv s1, of 5 6] s1 show ?thesis
    by (auto simp: hours_def seconds_def nsec_per_sec_def)
qed

section \<open>Concurrent consumers\<close>

text \<open>
  \<open>ConsumeToken\<close> is two calls on the store, and between them other requests run.
  Consumers are numbered; each first looks the token up and then tries to claim the
  row it saw. \<open>E c s s'\<close> is what the rest of the system may do to the store while the
  consumers are at \<open>c\<close>.
\<close>

datatype pc = Start | Looked verification | Lost | Won string

inductive cstep ::
  "'s adapter \<Rightarrow> (string \<Rightarrow> string) \<Rightarrow> string \<Rightarrow> string \<Rightarrow> ((nat \<Rightarrow> pc) \<Rightarrow> 's \<Rightarrow> 's \<Rightarrow> bool) \<Rightarrow>
   's \<times> (nat \<Rightarrow> pc) \<Rightarrow> 's \<times> (nat \<Rightarrow> pc) \<Rightarrow> bool"
  for A hash kind tok E where
  look: "c i = Start \<Longrightarrow> lookup_token A hash now kind tok s = (s', r) \<Longrightarrow>
    cstep A hash kind tok E (s, c) (s', c(i := (case r of Inl _ \<Rightarrow> Lost | Inr v \<Rightarrow> Looked v)))"
| claim: "c i = Looked v \<Longrightarrow> claim_token A v s = (s', r) \<Longrightarrow>
    cstep A hash kind tok E (s, c) (s', c(i := (case r of Inl _ \<Rightarrow> Lost | Inr x \<Rightarrow> Won x)))"
| other: "E c s s' \<Longrightarrow> cstep A hash kind tok E (s, c) (s', c)"

text \<open>
  The rest of the system may delete rows and add rows, but no row for this token, and
  no row with an id a consumer has seen: ids are generated.
\<close>

definition env_rows :: "string \<Rightarrow> (nat \<Rightarrow> pc) \<Rightarrow> sdb \<Rightarrow> sdb \<Rightarrow> bool" where
  "env_rows ident c d d' \<longleftrightarrow>
     length (filter (with_identifier ident) (vrows d')) \<le> length (filter (with_identifier ident) (vrows d)) \<and>
     (\<forall>row\<in>set (vrows d'). row \<notin> set (vrows d) \<longrightarrow>
        (\<forall>i v. c i = Looked v \<longrightarrow> \<not> with_id (v_id v) row))"

definition is_won :: "pc \<Rightarrow> bool" where
  "is_won p = (case p of Won _ \<Rightarrow> True | _ \<Rightarrow> False)"

definition race_inv :: "string \<Rightarrow> sdb \<Rightarrow> (nat \<Rightarrow> pc) \<Rightarrow> bool" where
  "race_inv ident d c \<longleftrightarrow>
     length (filter (with_identifier ident) (vrows d)) \<le> (if \<exists>i. is_won (c i) then 0 else 1) \<and>
     (\<forall>i v. c i = Looked v \<longrightarrow>
        (\<forall>row\<in>set (vrows d). with_id (v_id v) row \<longrightarrow> with_identifier ident row)) \<and>
     (\<forall>i j. is_won (c i) \<longrightarrow> is_won (c j) \<longrightarrow> i = j)"

lemma is_won_simps [simp]: "is_won (Won x)" "\<not> is_won Start" "\<not> is_won Lost" "\<not> is_won (Looked v)"
  by (simp_all add: is_won_def)

lemma race_start: "length (filter (with_identifier ident) (vrows d)) \<le> 1 \<Longrightarrow> race_inv ident d (\<lambda>_. Start)"
  by (simp add: race_inv_def)

text \<open>Rows can go, and a consumer can give up.\<close>

lemma length_filter_subset:
  "length (filter P (filter Q xs)) \<le> length (filter P xs)"
  by (induction xs) auto

lemma race_weaken:
  assumes "race_inv ident d c" and "vrows d' = filter Q (vrows d)"
  shows "race_inv ident d' c"
  using assms length_filter_subset[of "with_identifier ident" Q "vrows d"]
  by (auto simp: race_inv_def simp del: filter_filter split: if_splits)

lemma race_lost: "race_inv ident d c \<Longrightarrow> \<not> is_won (c i) \<Longrightarrow> race_inv ident d (c(i := Lost))"
  by (auto simp: race_inv_def split: if_splits)

lemma race_looked:
  assumes "race_inv ident d c" and "\<not> is_won (c i)"
    and "\<And>row. row \<in> set (vrows d) \<Longrightarrow> with_id (v_id v) row \<Longrightarrow> with_identifier ident row"
  shows "race_inv ident d (c(i := Looked v))"
  using assms by (auto simp: race_inv_def split: if_splits)

lemma vrows_ids:
  assumes inv: "sdb_inv d" and core: "core_store d" and r: "r \<in> set (vrows d)" "r' \<in> set (vrows d)"
    and i: "with_id i r" "with_id i r'"
  shows "r = r'"
proof (rule ccontr)
  assume ne: "r \<noteq> r'"
  have s: "sorted_wrt (\<lambda>a b. \<not> clash ''id'' a b) (vrows d)"
    using sdb_invD[OF inv, of model_verification] id_in_uniq[OF inv] by (simp add: rows_ok_def)
  obtain p q where p: "p < length (vrows d)" "vrows d ! p = r" and q: "q < length (vrows d)" "vrows d ! q = r'"
    using r by (metis in_set_conv_nth)
  with ne have "p < q \<or> q < p" by (metis linorder_neqE_nat)
  then have "\<not> clash ''id'' r r'"
    using sorted_wrt_nth_less[OF s, of p q] sorted_wrt_nth_less[OF s, of q p] p q by (auto simp: clash_sym)
  then show False using i by (simp add: with_id_iff clash_iff)
qed

lemma race_lookup:
  assumes inv: "sdb_inv d" and core: "core_store d" and race: "race_inv (token_identifier hash kind tok) d c"
    and st: "c i = Start" and run: "lookup_token spec_adapter hash now kind tok d = (d', r)"
  shows "race_inv (token_identifier hash kind tok) d' (c(i := (case r of Inl _ \<Rightarrow> Lost | Inr v \<Rightarrow> Looked v)))"
proof -
  let ?id = "token_identifier hash kind tok"
  have nw: "\<not> is_won (c i)" using st by simp
  show ?thesis
  proof (cases r)
    case (Inl e)
    have "\<exists>Q. vrows d' = filter Q (vrows d)"
    proof (cases "tok = '''' \<or> d' = d")
      case True
      then have "d' = d" using run by (auto simp: lookup_token_def)
      then show ?thesis by (auto intro: exI[of _ "\<lambda>_. True"])
    next
      case False
      then show ?thesis
        using run core by (auto simp: lookup_token_def find_verification_spec spec_delete_many_def core_store_def
            split: option.splits)
    qed
    then show ?thesis using race_lost[OF race nw] race_weaken Inl by fastforce
  next
    case (Inr v)
    then have "find_verification spec_adapter now ?id d = (d', Inr v)"
      using run by (auto simp: lookup_token_def split: if_splits)
    from find_verification_found[OF core this] obtain row
      where d': "d' = d" and row: "row \<in> set (vrows d)" "with_identifier ?id row" "v = verification_from_map row"
      by blast
    have "has_str_id row" using sdb_invD[OF inv, of model_verification] row(1) by (simp add: rows_ok_def)
    then have "with_id (v_id v) row"
      by (auto simp: has_str_id_def row(3) verification_from_map_def with_id_iff rget_def)
    then have "with_identifier ?id row'" if "row' \<in> set (vrows d)" "with_id (v_id v) row'" for row'
      using vrows_ids[OF inv core row(1) that(1) _ that(2)] row(2) by simp
    then show ?thesis using race_looked[OF race nw] Inr d' by simp
  qed
qed

lemma race_claim:
  assumes core: "core_store d" and race: "race_inv ident d c"
    and st: "c i = Looked v" and run: "claim_token spec_adapter v d = (d', r)"
  shows "race_inv ident d' (c(i := (case r of Inl _ \<Rightarrow> Lost | Inr x \<Rightarrow> Won x)))"
proof -
  have d': "vrows d' = filter (\<lambda>r. \<not> with_id (v_id v) r) (vrows d)"
    and r: "r = (if length (filter (with_id (v_id v)) (vrows d)) = 1 then Inr (v_value v) else Inl ErrNotFound)"
    using run by (auto simp: claim_token_spec[OF core])
  note weak = race_weaken[OF race d']
  show ?thesis
  proof (cases r)
    case (Inl e)
    then show ?thesis using race_lost[OF weak, of i] st by simp
  next
    case (Inr x)
    then obtain row where row: "filter (with_id (v_id v)) (vrows d) = [row]"
      using r by (auto simp: length_Suc_conv split: if_splits)
    then have "row \<in> set (filter (with_id (v_id v)) (vrows d))" by simp
    then have "row \<in> set (vrows d)" "with_id (v_id v) row" by simp_all
    then have ident: "with_identifier ident row" using race st by (auto simp: race_inv_def)
    let ?rows = "filter (with_identifier ident) (vrows d)"
    have "row \<in> set ?rows" using \<open>row \<in> set (vrows d)\<close> ident by simp
    moreover have "length ?rows \<le> 1 \<and> (length ?rows = 1 \<longrightarrow> \<not> (\<exists>i. is_won (c i)))"
      using race by (auto simp: race_inv_def split: if_splits)
    ultimately have one: "?rows = [row]" and nowin: "\<not> is_won (c j)" for j
      by (cases ?rows; auto)+
    have "filter (with_identifier ident) (vrows d') = []"
      unfolding d' by (rule filter_disjoint[OF one]) (rule \<open>with_id (v_id v) row\<close>)
    then show ?thesis using weak nowin Inr by (auto simp: race_inv_def)
  qed
qed

lemma race_env:
  assumes "race_inv ident d c" and "env_rows ident c d d'"
  shows "race_inv ident d' c"
proof -
  have len: "length (filter (with_identifier ident) (vrows d')) \<le> (if \<exists>i. is_won (c i) then 0 else 1)"
    using assms unfolding race_inv_def env_rows_def by linarith
  moreover have "with_identifier ident row"
    if "c i = Looked v" "row \<in> set (vrows d')" "with_id (v_id v) row" for i v row
    using assms that unfolding race_inv_def env_rows_def by blast
  ultimately show ?thesis using assms(1) unfolding race_inv_def by blast
qed

context storage_contract
begin

lemma cstep_race:
  assumes "has_core_tables sc" and "S = Some sc"
    and env: "\<And>c s s'. I s \<Longrightarrow> E c s s' \<Longrightarrow> I s' \<and> env_rows (token_identifier hash kind tok) c (\<alpha> s) (\<alpha> s')"
    and step: "cstep A hash kind tok E p p'"
    and "I (fst p)" and "race_inv (token_identifier hash kind tok) (\<alpha> (fst p)) (snd p)"
  shows "I (fst p') \<and> race_inv (token_identifier hash kind tok) (\<alpha> (fst p')) (snd p')"
  using step assms(5,6)
proof (induction rule: cstep.induct)
  case (look c i now s s' r)
  then have I: "I s" and race: "race_inv (token_identifier hash kind tok) (\<alpha> s) c" by simp_all
  have core: "core_store (\<alpha> s)"
    using assms(1,2) inv_schema[OF I] by (simp add: core_store_def has_core_tables_def sd_table_def schema_table_def)
  from simD[OF token_sims(4) I look(2)] have "I s'"
    and run: "lookup_token spec_adapter hash now kind tok (\<alpha> s) = (\<alpha> s', r)" by auto
  with race_lookup[OF inv_abs[OF I] core race look(1) run] show ?case by (simp only: fst_conv snd_conv)
next
  case (claim c i v s s' r)
  then have I: "I s" and race: "race_inv (token_identifier hash kind tok) (\<alpha> s) c" by simp_all
  have core: "core_store (\<alpha> s)"
    using assms(1,2) inv_schema[OF I] by (simp add: core_store_def has_core_tables_def sd_table_def schema_table_def)
  from simD[OF token_sims(5) I claim(2)] have "I s'"
    and run: "claim_token spec_adapter v (\<alpha> s) = (\<alpha> s', r)" by auto
  with race_claim[OF core race claim(1) run] show ?case by (simp only: fst_conv snd_conv)
next
  case (other c s s')
  then show ?case using env[of s c s'] race_env by auto
qed

lemma csteps_one_winner:
  assumes "has_core_tables sc" and "S = Some sc"
    and "\<And>c s s'. I s \<Longrightarrow> E c s s' \<Longrightarrow> I s' \<and> env_rows (token_identifier hash kind tok) c (\<alpha> s) (\<alpha> s')"
    and "I s" and "length (filter (with_identifier (token_identifier hash kind tok)) (vrows (\<alpha> s))) \<le> 1"
    and "(cstep A hash kind tok E)\<^sup>*\<^sup>* (s, \<lambda>_. Start) (s', c)" and "is_won (c i)" "is_won (c j)"
  shows "i = j"
proof -
  have "I (fst (s', c)) \<and> race_inv (token_identifier hash kind tok) (\<alpha> (fst (s', c))) (snd (s', c))"
    using assms(6)
  proof (induction rule: rtranclp_induct)
    case base
    then show ?case using assms(4,5) by (simp add: race_start)
  next
    case (step p p')
    then show ?case using cstep_race[OF assms(1-3) step(2)] by blast
  qed
  then show ?thesis using assms(7,8) by (auto simp: race_inv_def)
qed

end

text \<open>
  C4: of any number of requests that race to consume one token at most one wins,
  however their lookups and deletes interleave with each other and with the rest of
  the system, on the in-memory adapter.
\<close>

theorem token_race_one_winner:
  assumes "has_core_tables sc" and "mem_inv (Some sc) s"
    and "length (filter (with_identifier (token_identifier hash kind tok)) (mem_rows s model_verification)) \<le> 1"
    and "\<And>c s s'. mem_inv (Some sc) s \<Longrightarrow> E c s s' \<Longrightarrow>
      mem_inv (Some sc) s' \<and> env_rows (token_identifier hash kind tok) c (mem_abs s) (mem_abs s')"
    and "(cstep mem_adapter hash kind tok E)\<^sup>*\<^sup>* (s, \<lambda>_. Start) (s', c)"
  shows "\<forall>i j. is_won (c i) \<and> is_won (c j) \<longrightarrow> i = j"
  using mem.csteps_one_winner[OF assms(1) refl assms(4,2) _ assms(5)] assms(3) by simp

text \<open>Two consumers that both look before either claims.\<close>

definition race_store :: mem where
  "race_store = fst (store_token mem_adapter (\<lambda>x. x) 0 ''v1'' ''t'' ''k'' ''val'' (hours 1) (mem_start core_schema))"

definition race_row :: verification where
  "race_row = new_verification 0 ''v1'' ''k:t'' ''val'' (hours 1)"

lemma race_store_rows:
  "mem_abs race_store = set_rows model_verification [verification_to_map race_row] (sdb_start core_schema)
   \<and> mem_inv (Some core_schema) race_store"
proof -
  have inv: "mem_inv (Some core_schema) (mem_start core_schema)" by (rule mem_start_inv[OF wf_core_schema])
  let ?d = "mem_abs (mem_start core_schema)"
  let ?op = "\<lambda>A. store_token A (\<lambda>x. x) 0 ''v1'' ''t'' ''k'' ''val'' (hours 1)"
  have core: "core_store ?d" by (rule core_store_mem[OF core_schema_tables inv])
  have spec: "?op spec_adapter ?d =
      (set_rows model_verification [verification_to_map race_row] ?d, Inr ''t'')"
    using create_verification_spec[OF core, of 0 "''v1''" "''k:t''" "''val''" "hours 1"]
    by (simp add: store_token_def bind_def token_identifier_def mem_abs_start race_row_def)
  obtain r where op: "?op mem_adapter (mem_start core_schema) = (race_store, r)"
    unfolding race_store_def by (metis prod.collapse)
  show ?thesis
    using simD[OF mem.token_sims(1) inv op] spec by (simp add: mem_abs_start sdb_start_def)
qed

lemma race_mem_rows: "mem_rows race_store model_verification = [verification_to_map race_row]"
  using arg_cong[OF conjunct1[OF race_store_rows], of "\<lambda>d. sd_rows d model_verification"] by simp

lemma race_lookup_mem:
  assumes "mem_inv (Some core_schema) s" and "mem_abs s = mem_abs race_store"
  shows "\<exists>s'. lookup_token mem_adapter (\<lambda>x. x) 5 ''k'' ''t'' s = (s', Inr race_row) \<and>
    mem_inv (Some core_schema) s' \<and> mem_abs s' = mem_abs race_store"
proof -
  have core: "core_store (mem_abs s)" by (rule core_store_mem[OF core_schema_tables assms(1)])
  obtain s' r where run: "lookup_token mem_adapter (\<lambda>x. x) 5 ''k'' ''t'' s = (s', r)" by force
  have "filter (with_identifier ''k:t'') (vrows (mem_abs s)) = [verification_to_map race_row]"
    using race_store_rows assms(2) by (simp add: race_row_def new_verification_def)
  then have "lookup_token spec_adapter (\<lambda>x. x) 5 ''k'' ''t'' (mem_abs s) = (mem_abs s, Inr race_row)"
    by (simp add: lookup_token_def token_identifier_def find_verification_spec[OF core])
      (simp add: race_row_def new_verification_def time_add_def hours_def seconds_def nsec_per_sec_def)
  then show ?thesis using simD[OF mem.token_sims(4) assms(1) run] run assms(2) by auto
qed

text \<open>Both look before either claims; the first claim wins, so the second consumer does not.\<close>

lemma token_race_one_winner_witness:
  "\<exists>s c. (cstep mem_adapter (\<lambda>x. x) ''k'' ''t'' (\<lambda>_ _ _. False))\<^sup>*\<^sup>* (race_store, \<lambda>_. Start) (s, c)
     \<and> c 0 = Won ''val'' \<and> \<not> is_won (c 1)"
proof -
  let ?step = "cstep mem_adapter (\<lambda>x. x) ''k'' ''t'' (\<lambda>_ _ _. False)"
  obtain s1 where s1: "lookup_token mem_adapter (\<lambda>x. x) 5 ''k'' ''t'' race_store = (s1, Inr race_row)"
    "mem_inv (Some core_schema) s1" "mem_abs s1 = mem_abs race_store"
    using race_lookup_mem race_store_rows by blast
  obtain s2 where s2: "lookup_token mem_adapter (\<lambda>x. x) 5 ''k'' ''t'' s1 = (s2, Inr race_row)"
    "mem_inv (Some core_schema) s2" "mem_abs s2 = mem_abs race_store"
    using race_lookup_mem[OF s1(2,3)] by blast
  obtain s3 r3 where s3: "claim_token mem_adapter race_row s2 = (s3, r3)" by force
  have "claim_token spec_adapter race_row (mem_abs s2) = (mem_abs s3, r3)"
    using simD[OF mem.token_sims(5) s2(2) s3] by blast
  then have r3: "r3 = Inr ''val''"
    using claim_token_spec[OF core_store_mem[OF core_schema_tables s2(2)], of race_row] race_store_rows s2(3)
    by simp (simp add: race_row_def new_verification_def)
  obtain s4 r4 where s4: "claim_token mem_adapter race_row s3 = (s4, r4)" by force
  let ?c2 = "(\<lambda>_. Start)((0::nat) := Looked race_row, 1 := Looked race_row)"
  let ?c4 = "?c2(0 := Won ''val'', 1 := (case r4 of Inl _ \<Rightarrow> Lost | Inr x \<Rightarrow> Won x))"
  have "?step (race_store, \<lambda>_. Start) (s1, (\<lambda>_. Start)(0 := Looked race_row))"
    using cstep.look[of "\<lambda>_. Start" 0, OF _ s1(1)] by simp
  moreover have "?step (s1, (\<lambda>_. Start)(0 := Looked race_row)) (s2, ?c2)"
    using cstep.look[of "(\<lambda>_. Start)(0 := Looked race_row)" 1, OF _ s2(1)] by simp
  moreover have "?step (s2, ?c2) (s3, ?c2(0 := Won ''val''))"
    using cstep.claim[of ?c2 0, OF _ s3] r3 by simp
  moreover have "?step (s3, ?c2(0 := Won ''val'')) (s4, ?c4)"
    using cstep.claim[of "?c2(0 := Won ''val'')" 1, OF _ s4] by simp
  ultimately have run: "?step\<^sup>*\<^sup>* (race_store, \<lambda>_. Start) (s4, ?c4)"
    by (meson r_into_rtranclp rtranclp_trans)
  have "\<forall>i j. is_won (?c4 i) \<and> is_won (?c4 j) \<longrightarrow> i = j"
    by (rule token_race_one_winner[OF core_schema_tables _ _ _ run])
      (use race_store_rows in \<open>auto simp: race_mem_rows\<close>)
  then have "\<not> is_won (?c4 1)" by (metis fun_upd_apply is_won_simps(1) zero_neq_one)
  with run show ?thesis by (intro exI[of _ s4] exI[of _ ?c4]) simp
qed

end
