(* ===== verification/Sessions.thy ===== *)
theory Sessions
  imports Tokens
begin

text \<open>
  Session resolution (session.go): lookup by token with sliding expiration and session
  guards, the sign-in guard chain, revocation, freshness, and the session handlers of
  handler_session.go without their HTTP output. Events and cookies are not part of the
  state.
\<close>

section \<open>Configuration and data\<close>

record session_data =
  sd_session :: session
  sd_user :: user
  sd_from_cache :: bool

text \<open>The guards a plugin has; a plugin without one of the interfaces has \<open>None\<close>.\<close>

record plugin =
  pl_id :: string
  pl_sign_in :: "(user \<Rightarrow> bool result) option"
  pl_session :: "(session_data \<Rightarrow> gerror option) option"

record session_config =
  expires_in :: duration
  update_age :: duration
  fresh_age :: duration
  disable_refresh :: bool
  accept_stale :: bool

section \<open>Guards\<close>

fun run_session_guards :: "plugin list \<Rightarrow> session_data \<Rightarrow> gerror option" where
  "run_session_guards [] sd = None"
| "run_session_guards (p # ps) sd =
     (case pl_session p of
        None \<Rightarrow> run_session_guards ps sd
      | Some g \<Rightarrow> (case g sd of Some e \<Rightarrow> Some e | None \<Rightarrow> run_session_guards ps sd))"

text \<open>\<open>Inr True\<close>: a guard took over and wrote a response.\<close>

fun run_sign_in_guards :: "plugin list \<Rightarrow> user \<Rightarrow> bool result" where
  "run_sign_in_guards [] u = Inr False"
| "run_sign_in_guards (p # ps) u =
     (case pl_sign_in p of
        None \<Rightarrow> run_sign_in_guards ps u
      | Some g \<Rightarrow>
          (case g u of
             Inl e \<Rightarrow> Inl e
           | Inr True \<Rightarrow> Inr True
           | Inr False \<Rightarrow> run_sign_in_guards ps u))"

fun run_sign_in_guards_after :: "plugin list \<Rightarrow> user \<Rightarrow> string \<Rightarrow> bool result" where
  "run_sign_in_guards_after [] u pid = Inr False"
| "run_sign_in_guards_after (p # ps) u pid =
     (if pl_id p = pid then run_sign_in_guards ps u else run_sign_in_guards_after ps u pid)"

section \<open>Creation\<close>

definition create_session_with ::
  "'s adapter \<Rightarrow> db_hooks \<Rightarrow> session_config \<Rightarrow> gtime \<Rightarrow> string \<Rightarrow> string \<Rightarrow> string \<times> string \<Rightarrow>
   user \<Rightarrow> grec \<Rightarrow> duration \<Rightarrow> ('s, session) act" where
  "create_session_with A H cfg now gen_id gen_token client u extra dur =
     (let d = (if dur \<le> 0 then expires_in cfg else dur)
      in create_session A H now gen_id gen_token
           \<lparr>s_id = '''', s_user = u_id u, s_token = '''', s_expires = time_add now d,
            s_ip = fst client, s_agent = snd client, s_created = zero_time, s_updated = zero_time,
            s_extra = extra\<rparr>)"

definition sign_in_user ::
  "'s adapter \<Rightarrow> db_hooks \<Rightarrow> session_config \<Rightarrow> plugin list \<Rightarrow> gtime \<Rightarrow> string \<Rightarrow> string \<Rightarrow> string \<times> string \<Rightarrow>
   user \<Rightarrow> ('s, session option) act" where
  "sign_in_user A H cfg ps now gen_id gen_token client u =
     (case run_sign_in_guards ps u of
        Inl e \<Rightarrow> fail e
      | Inr True \<Rightarrow> ret None
      | Inr False \<Rightarrow>
          bind (create_session_with A H cfg now gen_id gen_token client u [] (expires_in cfg))
            (\<lambda>s. ret (Some s)))"

section \<open>Resolution\<close>

definition session_refreshable :: "session_config \<Rightarrow> session \<Rightarrow> bool" where
  "session_refreshable cfg s =
     (if is_zero_time (s_created s) then False
      else time_sub (s_expires s) (s_created s) \<ge> expires_in cfg - seconds 1)"

definition refresh_due :: "session_config \<Rightarrow> gtime \<Rightarrow> session \<Rightarrow> bool" where
  "refresh_due cfg now s =
     (\<not> disable_refresh cfg \<and> session_refreshable cfg s \<and>
      now > time_add (time_add (s_expires s) (- expires_in cfg)) (update_age cfg))"

definition slide_session :: "'s adapter \<Rightarrow> session_config \<Rightarrow> gtime \<Rightarrow> string \<Rightarrow> session \<Rightarrow> ('s, session) act" where
  "slide_session A cfg now tok s =
     (if refresh_due cfg now s
      then attempt (update_session A now tok [(''expiresAt'', VTime (time_add now (expires_in cfg)))])
             (\<lambda>r. case r of Inr updated \<Rightarrow> ret updated | Inl _ \<Rightarrow> ret s)
      else ret s)"

text \<open>A missing row is no session; any other storage error is passed on.\<close>

definition no_session :: "gerror \<Rightarrow> gerror" where
  "no_session e = (if e = ErrNotFound then ErrNoSession else e)"

definition get_session_from_token ::
  "'s adapter \<Rightarrow> session_config \<Rightarrow> plugin list \<Rightarrow> gtime \<Rightarrow> string \<Rightarrow> ('s, session_data) act" where
  "get_session_from_token A cfg ps now tok =
     attempt (find_session_by_token A tok) (\<lambda>r. case r of
       Inl e \<Rightarrow> fail (no_session e)
     | Inr s \<Rightarrow>
         if \<not> s_expires s > now
         then attempt (delete_session_by_token A tok) (\<lambda>_. fail ErrNoSession)
         else attempt (find_user_by_id A (s_user s)) (\<lambda>r. case r of
           Inl e \<Rightarrow> fail (no_session e)
         | Inr u \<Rightarrow>
             bind (slide_session A cfg now tok s) (\<lambda>s'.
               let sd = \<lparr>sd_session = s', sd_user = u, sd_from_cache = False\<rparr>
               in case run_session_guards ps sd of Some e \<Rightarrow> fail e | None \<Rightarrow> ret sd)))"

text \<open>
  \<open>GetSession\<close> given the verified cookie token, if any, and what the cookie cache
  holds, if it verified.
\<close>

definition has_session_guards :: "plugin list \<Rightarrow> bool" where
  "has_session_guards ps = list_ex (\<lambda>p. pl_session p \<noteq> None) ps"

definition get_session ::
  "'s adapter \<Rightarrow> session_config \<Rightarrow> plugin list \<Rightarrow> gtime \<Rightarrow> string option \<Rightarrow> session_data option \<Rightarrow>
   ('s, session_data) act" where
  "get_session A cfg ps now token cached =
     (case token of
        None \<Rightarrow> fail ErrNoSession
      | Some tok \<Rightarrow>
          (case (if \<not> has_session_guards ps \<or> accept_stale cfg then cached else None) of
             Some sd \<Rightarrow>
               if s_token (sd_session sd) = tok \<and> s_expires (sd_session sd) > now then
                 (if has_session_guards ps
                  then (case run_session_guards ps sd of Some e \<Rightarrow> fail e | None \<Rightarrow> ret sd)
                  else ret sd)
               else get_session_from_token A cfg ps now tok
           | None \<Rightarrow> get_session_from_token A cfg ps now tok))"

definition is_fresh :: "session_config \<Rightarrow> gtime \<Rightarrow> session \<Rightarrow> bool" where
  "is_fresh cfg now s = (if fresh_age cfg \<le> 0 then True else time_sub now (s_created s) < fresh_age cfg)"

section \<open>Revocation\<close>

definition revoke_session :: "'s adapter \<Rightarrow> string \<Rightarrow> ('s, unit) act" where
  "revoke_session A tok = delete_session_by_token A tok"

definition revoke_session_by_id :: "'s adapter \<Rightarrow> string \<Rightarrow> ('s, unit) act" where
  "revoke_session_by_id A i = delete_session_by_id A i"

definition revoke_user_sessions :: "'s adapter \<Rightarrow> string \<Rightarrow> ('s, unit) act" where
  "revoke_user_sessions A uid = delete_user_sessions A uid"

definition revoke_other_sessions :: "'s adapter \<Rightarrow> string \<Rightarrow> string \<Rightarrow> ('s, unit) act" where
  "revoke_other_sessions A uid keep =
     bind (list_user_sessions A uid) (\<lambda>ss.
       for_each (\<lambda>s. if s_token s \<noteq> keep
                     then attempt (delete_session_by_token A (s_token s)) (\<lambda>_. ret ()) else ret ()) ss)"

text \<open>\<open>/revoke-session\<close> for a signed-in user: by id, else by token, and only the user's own; yields the id of the session.\<close>

definition handle_revoke_session :: "'s adapter \<Rightarrow> session_data \<Rightarrow> string \<Rightarrow> string \<Rightarrow> ('s, string) act" where
  "handle_revoke_session A sd session_id tok =
     (if session_id = '''' \<and> tok = '''' then fail (ApiError 400 ''INVALID_TOKEN'')
      else attempt (if session_id \<noteq> '''' then find_session_by_id A session_id else find_session_by_token A tok)
        (\<lambda>r. case r of
           Inl _ \<Rightarrow> fail (ApiError 400 ''INVALID_TOKEN'')
         | Inr target \<Rightarrow>
             if s_user target \<noteq> u_id (sd_user sd) then fail (ApiError 400 ''INVALID_TOKEN'')
             else bind (delete_session_by_id A (s_id target)) (\<lambda>_. ret (s_id target))))"

section \<open>Simulation\<close>

context storage_contract
begin

lemma slide_session_sim: "sim \<alpha> I (slide_session A cfg now tok s) (slide_session spec_adapter cfg now tok s)"
  unfolding slide_session_def by (auto simp: ghas_def intro!: sim_intros store_sims)

lemma get_session_from_token_sim:
  "sim \<alpha> I (get_session_from_token A cfg ps now tok) (get_session_from_token spec_adapter cfg ps now tok)"
  unfolding get_session_from_token_def Let_def
  by (intro sim_intros store_sims slide_session_sim)

lemma get_session_sim:
  "sim \<alpha> I (get_session A cfg ps now token cached) (get_session spec_adapter cfg ps now token cached)"
  unfolding get_session_def by (intro sim_intros get_session_from_token_sim)

lemma sign_in_user_sim:
  "hooks_ok H \<Longrightarrow> sim \<alpha> I (sign_in_user A H cfg ps now gi gt cl u) (sign_in_user spec_adapter H cfg ps now gi gt cl u)"
  unfolding sign_in_user_def create_session_with_def Let_def
  by (auto simp: ghas_def intro!: sim_intros store_sims split: bool.splits)

lemma revoke_sims:
  "sim \<alpha> I (revoke_session A tok) (revoke_session spec_adapter tok)"
  "sim \<alpha> I (revoke_session_by_id A i) (revoke_session_by_id spec_adapter i)"
  "sim \<alpha> I (revoke_user_sessions A i) (revoke_user_sessions spec_adapter i)"
  "sim \<alpha> I (revoke_other_sessions A i keep) (revoke_other_sessions spec_adapter i keep)"
  "sim \<alpha> I (handle_revoke_session A sd i tok) (handle_revoke_session spec_adapter sd i tok)"
  unfolding revoke_session_def revoke_session_by_id_def revoke_user_sessions_def
    revoke_other_sessions_def handle_revoke_session_def
  by (intro sim_intros store_sims)+

lemmas session_sims = slide_session_sim get_session_from_token_sim get_session_sim sign_in_user_sim revoke_sims

end

section \<open>Sessions and users on the reference store\<close>

definition core_db :: "sdb \<Rightarrow> bool" where
  "core_db d \<longleftrightarrow> sdb_inv d \<and> sd_table d model_session = Some session_table \<and>
     sd_table d model_user = Some user_table \<and> sd_table d model_account = Some account_table \<and> core_store d"

abbreviation srows :: "sdb \<Rightarrow> grec list" where "srows d \<equiv> sd_rows d model_session"
abbreviation urows :: "sdb \<Rightarrow> grec list" where "urows d \<equiv> sd_rows d model_user"

lemma core_db_mem: "has_core_tables sc \<Longrightarrow> mem_inv (Some sc) s \<Longrightarrow> core_db (mem_abs s)"
  by (simp add: core_db_def core_store_mem mem_inv_abs)
    (simp add: has_core_tables_def mem_table_def schema_table_def mem_inv_schema)

lemma session_table_simps [simp]:
  "has_field session_table f \<longleftrightarrow> f \<in> set [''id'', ''userId'', ''token'', ''expiresAt'', ''ipAddress'',
     ''userAgent'', ''createdAt'', ''updatedAt'']"
  "unique_fields session_table = [''id'', ''token'']" "tb_uniques session_table = []"
  "apply_defaults session_table r = r"
  by (auto simp: has_field_def field_by_name_def session_table_def col_def unique_fields_def apply_defaults_def)

lemma check_session [simp]:
  "f \<in> set session_keys \<Longrightarrow> check_where_fields (Some session_table) [W f x] = None"
  by (auto simp: check_where_fields_def unknown_keys_def session_keys_def)

lemma check_user [simp]:
  "f \<in> set user_keys \<Longrightarrow> check_where_fields (Some user_table) [W f x] = None"
  by (auto simp: check_where_fields_def unknown_keys_def user_keys_def user_table_simps)

definition with_str :: "string \<Rightarrow> string \<Rightarrow> grec \<Rightarrow> bool" where
  "with_str f x row \<longleftrightarrow> rget row f = VStr x"

lemma with_str_iff: "with_str f x row \<longleftrightarrow> map_of row f = Some (VStr x)"
  by (auto simp: with_str_def rget_def split: option.splits)

lemma find_session_spec:
  assumes "core_db d" and "f \<in> {''id'', ''token''}"
  shows "spec_find_one model_session [W f (VStr x)] d =
    (case find (with_str f x) (srows d) of None \<Rightarrow> Inl ErrNotFound | Some r \<Rightarrow> Inr r)"
  using assms by (auto simp: spec_find_one_def core_db_def session_keys_def with_str_def[abs_def])

lemma find_session_by_token_spec:
  "core_db d \<Longrightarrow> find_session_by_token spec_adapter tok d =
    (d, case find (with_str ''token'' tok) (srows d) of None \<Rightarrow> Inl ErrNotFound
        | Some r \<Rightarrow> Inr (session_from_map r))"
  by (simp add: find_session_by_token_def bind_query find_session_spec split: option.splits)

lemma find_session_by_id_spec:
  "core_db d \<Longrightarrow> find_session_by_id spec_adapter i d =
    (d, case find (with_str ''id'' i) (srows d) of None \<Rightarrow> Inl ErrNotFound
        | Some r \<Rightarrow> Inr (session_from_map r))"
  by (simp add: find_session_by_id_def bind_query find_session_spec split: option.splits)

lemma find_user_by_id_spec:
  "core_db d \<Longrightarrow> find_user_by_id spec_adapter i d =
    (d, case find (with_str ''id'' i) (urows d) of None \<Rightarrow> Inl ErrNotFound
        | Some r \<Rightarrow> Inr (user_from_map r))"
  by (simp add: find_user_by_id_def bind_query spec_find_one_def core_db_def user_keys_def
      with_str_def[abs_def] split: option.splits)

lemma delete_session_by_token_spec:
  "core_db d \<Longrightarrow> delete_session_by_token spec_adapter tok d =
    (set_rows model_session (remove_first (with_str ''token'' tok) (srows d)) d, Inr ())"
  by (simp add: delete_session_by_token_def spec_delete_def core_db_def session_keys_def with_str_def[abs_def])

lemma delete_session_by_id_spec:
  "core_db d \<Longrightarrow> delete_session_by_id spec_adapter i d =
    (set_rows model_session (remove_first (with_str ''id'' i) (srows d)) d, Inr ())"
  by (simp add: delete_session_by_id_def spec_delete_def core_db_def session_keys_def with_str_def[abs_def])

text \<open>Different rows of a model do not clash.\<close>

lemma rows_no_clash:
  assumes "rows_ok us rows" and "f \<in> set us" and "a \<in> set rows" "b \<in> set rows" "a \<noteq> b"
  shows "\<not> clash f a b"
proof -
  have s: "sorted_wrt (\<lambda>a b. \<not> clash f a b) rows" using assms(1,2) by (simp add: rows_ok_def)
  obtain i j where i: "i < length rows" "rows ! i = a" and j: "j < length rows" "rows ! j = b"
    using assms(3,4) by (metis in_set_conv_nth)
  with assms(5) have "i < j \<or> j < i" by (metis linorder_neqE_nat)
  then show ?thesis
    using sorted_wrt_nth_less[OF s, of i j] sorted_wrt_nth_less[OF s, of j i] i j by (auto simp: clash_sym)
qed

lemma update_no_violation:
  assumes inv: "sdb_inv d" and t: "sd_table d m = Some t" "tb_uniques t = []" and row: "row \<in> set (sd_rows d m)"
    and u: "\<And>f. f \<in> set (sd_uniq d m) \<Longrightarrow> \<not> ghas u f"
  shows "\<not> spec_violates d m (gmerge row u) (Some row)"
proof -
  have "\<not> clash f (gmerge row u) r"
    if "f \<in> set (sd_uniq d m)" "r \<in> set (sd_rows d m)" "\<not> same_record r row" for f r
  proof -
    have "has_str_id r" using sdb_invD[OF inv, of m] that(2) by (simp add: rows_ok_def)
    then have "r \<noteq> row" using that(3) by (auto simp: same_record_id)
    then have "\<not> clash f row r" using rows_no_clash[OF sdb_invD[OF inv] that(1) row that(2)] by blast
    moreover have "map_of (gmerge row u) f = map_of row f" using u[OF that(1)] by (simp add: ghas_def map_add_def)
    ultimately show ?thesis by (simp add: clash_iff)
  qed
  then show ?thesis
    by (auto simp: spec_violates_def list_ex_iff skipped_def violates_composite_def t)
qed

lemma sd_uniq_session: "core_db d \<Longrightarrow> sd_uniq d model_session = [''id'', ''token'']"
  by (simp add: sd_uniq_def uniq_of_def core_db_def)

text \<open>At most one session row has a given id or token.\<close>

lemma session_unique:
  assumes "core_db d" and "f \<in> {''id'', ''token''}"
    and "a \<in> set (srows d)" "b \<in> set (srows d)" and "with_str f x a" "with_str f x b"
  shows "a = b"
proof (rule ccontr)
  assume "a \<noteq> b"
  moreover have "rows_ok [''id'', ''token''] (srows d)"
    using sdb_invD[of d model_session] sd_uniq_session[OF assms(1)] assms(1) by (simp add: core_db_def)
  ultimately have "\<not> clash f a b" using assms rows_no_clash by fastforce
  then show False using assms(5,6) by (simp add: clash_iff with_str_iff)
qed

lemma remove_first_eq_filter:
  assumes "distinct xs" and "\<And>a b. a \<in> set xs \<Longrightarrow> b \<in> set xs \<Longrightarrow> P a \<Longrightarrow> P b \<Longrightarrow> a = b"
  shows "remove_first P xs = filter (\<lambda>x. \<not> P x) xs"
  using assms
proof (induction xs)
  case (Cons x xs)
  have IH: "remove_first P xs = filter (\<lambda>x. \<not> P x) xs"
    by (rule Cons.IH) (use Cons.prems in auto)
  show ?case
  proof (cases "P x")
    case True
    then have "\<not> P y" if "y \<in> set xs" for y using Cons.prems that by fastforce
    then have "filter (\<lambda>x. \<not> P x) xs = xs" by simp
    with True show ?thesis by simp
  qed (simp add: IH)
qed simp

lemma rows_distinct:
  assumes "sdb_inv d"
  shows "distinct (sd_rows d m)"
proof -
  have ok: "rows_ok (sd_uniq d m) (sd_rows d m)" by (rule sdb_invD[OF assms])
  have self: "clash ''id'' a a" if "a \<in> set (sd_rows d m)" for a
    using ok that by (auto simp: rows_ok_def clash_id)
  have "sorted_wrt (\<lambda>a b. \<not> clash ''id'' a b) (sd_rows d m)"
    using ok id_in_uniq[OF assms] by (simp add: rows_ok_def)
  then have "sorted_wrt (\<lambda>a b. a \<noteq> b) (sd_rows d m)"
    by (rule sorted_wrt_mono_rel[rotated]) (use self in auto)
  then show ?thesis by (simp add: distinct_conv_nth sorted_wrt_iff_nth_less) (metis linorder_neqE_nat)
qed

lemma remove_session:
  assumes "core_db d" and "f \<in> {''id'', ''token''}"
  shows "remove_first (with_str f x) (srows d) = filter (\<lambda>r. \<not> with_str f x r) (srows d)"
  using assms by (intro remove_first_eq_filter rows_distinct) (auto simp: core_db_def intro: session_unique[OF assms])

section \<open>Resolution on the reference store\<close>

definition refresh_fields :: "session_config \<Rightarrow> gtime \<Rightarrow> grec" where
  "refresh_fields cfg now =
     gput [(''expiresAt'', VTime (time_add now (expires_in cfg)))] ''updatedAt'' (VTime now)"

lemma refresh_fields_map:
  "map_of (refresh_fields cfg now) = [''expiresAt'' \<mapsto> VTime (time_add now (expires_in cfg)), ''updatedAt'' \<mapsto> VTime now]"
  by (auto simp: refresh_fields_def)

lemma refreshed_session [simp]:
  "s_id (session_from_map (gmerge row (refresh_fields cfg now))) = s_id (session_from_map row)"
  "s_user (session_from_map (gmerge row (refresh_fields cfg now))) = s_user (session_from_map row)"
  "s_token (session_from_map (gmerge row (refresh_fields cfg now))) = s_token (session_from_map row)"
  "s_created (session_from_map (gmerge row (refresh_fields cfg now))) = s_created (session_from_map row)"
  "s_expires (session_from_map (gmerge row (refresh_fields cfg now))) = time_add now (expires_in cfg)"
  by (simp_all add: session_from_map_def rget_def map_add_def refresh_fields_map)

text \<open>The refresh always succeeds: it changes no unique field.\<close>

lemma slide_session_spec:
  assumes core: "core_db d" and row: "find (with_str ''token'' tok) (srows d) = Some row"
  shows "slide_session spec_adapter cfg now tok (session_from_map row) d =
    (if refresh_due cfg now (session_from_map row)
     then (set_rows model_session (map_first (with_str ''token'' tok) (\<lambda>r. gmerge r (refresh_fields cfg now)) (srows d)) d,
           Inr (session_from_map (gmerge row (refresh_fields cfg now))))
     else (d, Inr (session_from_map row)))"
proof -
  let ?u = "refresh_fields cfg now"
  have "row \<in> set (srows d)" using find_in[OF row] by blast
  then have viol: "\<not> spec_violates d model_session (gmerge row ?u) (Some row)"
    using core by (intro update_no_violation[where t = session_table])
      (auto simp: core_db_def sd_uniq_session ghas_def refresh_fields_map)
  have w: "check_writable_fields (Some session_table) ?u = None"
    by (simp add: check_writable_fields_def unknown_keys_def refresh_fields_def gput_def)
  have "spec_update model_session [W ''token'' (VStr tok)] ?u d =
      (set_rows model_session (map_first (with_str ''token'' tok) (\<lambda>r. gmerge r ?u) (srows d)) d,
       Inr (gmerge row ?u))"
    using core viol w row
    by (simp add: spec_update_def core_db_def session_keys_def with_str_def[abs_def])
  then show ?thesis
    by (simp add: slide_session_def update_session_def attempt_def bind_def refresh_fields_def[symmetric])
qed

definition session_sd :: "session \<Rightarrow> user \<Rightarrow> session_data" where
  "session_sd s u = \<lparr>sd_session = s, sd_user = u, sd_from_cache = False\<rparr>"

text \<open>The whole of a session lookup, case by case.\<close>

lemma get_session_from_token_spec:
  assumes "core_db d"
  shows "get_session_from_token spec_adapter cfg ps now tok d =
    (case find (with_str ''token'' tok) (srows d) of
       None \<Rightarrow> (d, Inl ErrNoSession)
     | Some row \<Rightarrow>
         if s_expires (session_from_map row) \<le> now
         then (set_rows model_session (filter (\<lambda>r. \<not> with_str ''token'' tok r) (srows d)) d, Inl ErrNoSession)
         else (case find (with_str ''id'' (s_user (session_from_map row))) (urows d) of
           None \<Rightarrow> (d, Inl ErrNoSession)
         | Some urow \<Rightarrow>
             (case slide_session spec_adapter cfg now tok (session_from_map row) d of
                (d', Inl e) \<Rightarrow> (d', Inl e)
              | (d', Inr s') \<Rightarrow>
                  (d', case run_session_guards ps (session_sd s' (user_from_map urow)) of
                         Some e \<Rightarrow> Inl e | None \<Rightarrow> Inr (session_sd s' (user_from_map urow))))))"
proof (cases "find (with_str ''token'' tok) (srows d)")
  case None
  then show ?thesis
    using assms by (simp add: get_session_from_token_def attempt_def find_session_by_token_spec no_session_def)
next
  case (Some row)
  note step = get_session_from_token_def attempt_def find_session_by_token_spec[OF assms] Some
  show ?thesis
  proof (cases "s_expires (session_from_map row) \<le> now")
    case True
    then show ?thesis
      by (simp add: step delete_session_by_token_spec[OF assms] remove_session[OF assms])
  next
    case False
    show ?thesis
    proof (cases "find (with_str ''id'' (s_user (session_from_map row))) (urows d)")
      case None
      then show ?thesis using False by (simp add: step find_user_by_id_spec[OF assms] no_session_def)
    next
      case (Some urow)
      then show ?thesis using False
        by (simp add: step find_user_by_id_spec[OF assms] bind_def session_sd_def Let_def split: option.splits prod.splits sum.splits)
    qed
  qed
qed

lemma get_session_from_token_ok:
  assumes "core_db d" and "get_session_from_token spec_adapter cfg ps now tok d = (d', Inr sd)"
  shows "\<exists>row urow. row \<in> set (srows d) \<and> with_str ''token'' tok row \<and>
    s_expires (session_from_map row) > now \<and>
    urow \<in> set (urows d) \<and> with_str ''id'' (s_user (session_from_map row)) urow \<and>
    sd_user sd = user_from_map urow \<and> run_session_guards ps sd = None \<and>
    (if refresh_due cfg now (session_from_map row)
     then sd_session sd = session_from_map (gmerge row (refresh_fields cfg now))
     else sd_session sd = session_from_map row \<and> d' = d)"
proof -
  note spec = assms(2)[unfolded get_session_from_token_spec[OF assms(1)]]
  obtain row where row: "find (with_str ''token'' tok) (srows d) = Some row"
    using spec by (auto split: option.splits)
  obtain urow where urow: "find (with_str ''id'' (s_user (session_from_map row))) (urows d) = Some urow"
    and live: "now < s_expires (session_from_map row)"
    using spec row by (auto split: option.splits if_splits)
  show ?thesis
    using spec row urow live find_in[OF row] find_in[OF urow] slide_session_spec[OF assms(1) row, of cfg now]
    by (intro exI[of _ row] exI[of _ urow]) (auto simp: session_sd_def split: option.splits if_splits)
qed

section \<open>Properties\<close>

lemma mem_core: "has_core_tables sc \<Longrightarrow> mem_inv (Some sc) s \<Longrightarrow> f s = (s', r) \<Longrightarrow>
    sim mem_abs (mem_inv (Some sc)) f g \<Longrightarrow>
    core_db (mem_abs s) \<and> mem_inv (Some sc) s' \<and> g (mem_abs s) = (mem_abs s', r)"
  by (simp only: core_db_mem simD)

lemma session_row_ids:
  "core_db d \<Longrightarrow> row \<in> set (srows d) \<Longrightarrow> \<exists>i. map_of row ''id'' = Some (VStr i)"
  using sdb_invD[of d model_session] by (auto simp: core_db_def rows_ok_def has_str_id_def)

text \<open>
  C5: a session that \<open>GetSessionFromToken\<close> returns is backed by the store: a session
  row with exactly this token exists and has not expired, its user exists and is the one
  returned, and every session guard of every plugin has accepted it.
\<close>

theorem get_session_sound:
  assumes "has_core_tables sc" and "mem_inv (Some sc) s"
    and "get_session_from_token mem_adapter cfg ps now tok s = (s', Inr sd)"
  shows "\<exists>row\<in>set (mem_rows s model_session). \<exists>urow\<in>set (mem_rows s model_user).
    map_of row ''token'' = Some (VStr tok) \<and> s_expires (session_from_map row) > now \<and>
    map_of urow ''id'' = Some (VStr (s_user (session_from_map row))) \<and> sd_user sd = user_from_map urow \<and>
    s_token (sd_session sd) = tok \<and> s_user (sd_session sd) = s_user (session_from_map row) \<and>
    list_all (\<lambda>p. case pl_session p of None \<Rightarrow> True | Some g \<Rightarrow> g sd = None) ps"
proof -
  have guards: "run_session_guards ps sd = None \<Longrightarrow>
    list_all (\<lambda>p. case pl_session p of None \<Rightarrow> True | Some g \<Rightarrow> g sd = None) ps"
    by (induction ps) (auto split: option.splits)
  from mem_core[OF assms mem.get_session_from_token_sim]
  have core: "core_db (mem_abs s)"
    and run: "get_session_from_token spec_adapter cfg ps now tok (mem_abs s) = (mem_abs s', Inr sd)" by auto
  from get_session_from_token_ok[OF core run] obtain row urow where
    *: "row \<in> set (srows (mem_abs s))" "with_str ''token'' tok row" "s_expires (session_from_map row) > now"
      "urow \<in> set (urows (mem_abs s))" "with_str ''id'' (s_user (session_from_map row)) urow"
      "sd_user sd = user_from_map urow" "run_session_guards ps sd = None"
    and sess: "sd_session sd = session_from_map row \<or> sd_session sd = session_from_map (gmerge row (refresh_fields cfg now))"
    by (metis (no_types, lifting))
  have "s_token (session_from_map row) = tok" using *(2) by (simp add: session_from_map_def with_str_def)
  then have "s_token (sd_session sd) = tok \<and> s_user (sd_session sd) = s_user (session_from_map row)"
    using sess by auto
  with * guards show ?thesis by (auto simp: with_str_iff)
qed

text \<open>A store with one user and one session, for the witnesses.\<close>

definition demo_session :: "gtime \<Rightarrow> gtime \<Rightarrow> session" where
  "demo_session created expires = \<lparr>s_id = ''s1'', s_user = ''u1'', s_token = ''tok'', s_expires = expires,
     s_ip = '''', s_agent = '''', s_created = created, s_updated = created, s_extra = []\<rparr>"

definition demo_user_row :: user where
  "demo_user_row = \<lparr>u_id = ''u1'', u_name = ''Ann'', u_email = ''ann@example.com'', u_email_verified = True,
     u_image = '''', u_created = 0, u_updated = 0, u_extra = []\<rparr>"

definition demo_state :: "gtime \<Rightarrow> gtime \<Rightarrow> mem" where
  "demo_state created expires =
     fst (mem_create model_session (session_to_map (demo_session created expires))
       (fst (mem_create model_user (user_to_map demo_user_row) (mem_start core_schema))))"

lemma demo_state_facts:
  "mem_inv (Some core_schema) (demo_state c e)
   \<and> mem_rows (demo_state c e) model_session = [session_to_map (demo_session c e)]
   \<and> mem_rows (demo_state c e) model_user = [user_to_map demo_user_row]
   \<and> mem_rows (demo_state c e) model_verification = []"
proof -
  have ids: "has_str_id (user_to_map demo_user_row)" "has_str_id (session_to_map (demo_session c e))"
    by (auto simp: has_str_id_def user_to_map_id session_to_map_id demo_user_row_def demo_session_def ghas_def)
  have inv0: "mem_inv (Some core_schema) (mem_start core_schema)" by (rule mem_start_inv[OF wf_core_schema])
  obtain s1 r1 where c1: "mem_create model_user (user_to_map demo_user_row) (mem_start core_schema) = (s1, r1)" by force
  obtain s2 r2 where c2: "mem_create model_session (session_to_map (demo_session c e)) s1 = (s2, r2)" by force
  from mem_core[OF core_schema_tables inv0 c1 mem_create_sim[OF ids(1)]]
  have inv1: "mem_inv (Some core_schema) s1" and core0: "core_db (mem_abs (mem_start core_schema))"
    and sp1: "spec_create model_user (user_to_map demo_user_row) (mem_abs (mem_start core_schema)) = (mem_abs s1, r1)" by auto
  from mem_core[OF core_schema_tables inv1 c2 mem_create_sim[OF ids(2)]]
  have inv2: "mem_inv (Some core_schema) s2" and core1: "core_db (mem_abs s1)"
    and sp2: "spec_create model_session (session_to_map (demo_session c e)) (mem_abs s1) = (mem_abs s2, r2)" by auto
  have "check_writable_fields (Some user_table) (user_to_map demo_user_row) = None"
    by (simp add: check_writable_fields_def unknown_keys_def user_table_simps user_to_map_def demo_user_row_def)
  then have 1: "mem_abs s1 = set_rows model_user [user_to_map demo_user_row] (mem_abs (mem_start core_schema))"
    using sp1 core0
    by (simp add: spec_create_def core_db_def mem_abs_start spec_violates_def violates_composite_def
        user_table_simps list_ex_iff ghas_def user_to_map_def demo_user_row_def Let_def split: if_splits)
  have "check_writable_fields (Some session_table) (session_to_map (demo_session c e)) = None"
    by (simp add: check_writable_fields_def unknown_keys_def session_to_map_def demo_session_def)
  then have 2: "mem_abs s2 = set_rows model_session [session_to_map (demo_session c e)] (mem_abs s1)"
    using sp2 core1 1
    by (simp add: spec_create_def core_db_def mem_abs_start spec_violates_def violates_composite_def
        list_ex_iff Let_def model_names split: if_splits)
  have s2: "demo_state c e = s2" by (simp add: demo_state_def c1 c2)
  have "mem_rows s2 = sd_rows (mem_abs s2)" by simp
  then show ?thesis
    unfolding s2 using inv2 by (simp add: 2 1 mem_abs_start model_names del: mem_abs_sel)
qed

lemma demo_get_session:
  assumes "e > now" and "\<not> refresh_due cfg now (demo_session c e)"
  shows "\<exists>s'. get_session_from_token mem_adapter cfg [] now ''tok'' (demo_state c e) =
    (s', Inr (session_sd (session_from_map (session_to_map (demo_session c e))) (user_from_map (user_to_map demo_user_row))))
    \<and> mem_inv (Some core_schema) s' \<and> mem_abs s' = mem_abs (demo_state c e)"
proof -
  let ?row = "session_to_map (demo_session c e)" and ?urow = "user_to_map demo_user_row"
  have f: "mem_rows (demo_state c e) model_session = [?row]" "mem_rows (demo_state c e) model_user = [?urow]"
    and inv: "mem_inv (Some core_schema) (demo_state c e)" using demo_state_facts by auto
  have row: "session_from_map ?row = demo_session c e" "with_str ''token'' ''tok'' ?row"
    by (simp_all add: session_from_map_def session_to_map_def demo_session_def rget_def with_str_def session_keys_def)
  have urow: "with_str ''id'' ''u1'' ?urow" by (simp add: user_to_map_def demo_user_row_def rget_def with_str_def)
  obtain s' r where g: "get_session_from_token mem_adapter cfg [] now ''tok'' (demo_state c e) = (s', r)" by force
  from mem_core[OF core_schema_tables inv g mem.get_session_from_token_sim]
  have core: "core_db (mem_abs (demo_state c e))" and inv': "mem_inv (Some core_schema) s'"
    and sp: "get_session_from_token spec_adapter cfg [] now ''tok'' (mem_abs (demo_state c e)) = (mem_abs s', r)" by auto
  have fs: "find (with_str ''token'' ''tok'') (srows (mem_abs (demo_state c e))) = Some ?row"
    using row by (simp add: f)
  have "s_user (demo_session c e) = ''u1''" "s_expires (demo_session c e) = e" by (simp_all add: demo_session_def)
  then have "(mem_abs s', r) = (mem_abs (demo_state c e), Inr (session_sd (session_from_map ?row) (user_from_map ?urow)))"
    using sp assms slide_session_spec[OF core fs, of cfg now] urow
    by (simp add: get_session_from_token_spec[OF core] fs f row)
  then show ?thesis using g inv' by simp
qed

definition demo_cfg :: session_config where
  "demo_cfg = \<lparr>expires_in = hours 168, update_age = hours 24, fresh_age = hours 24,
               disable_refresh = False, accept_stale = False\<rparr>"

lemma get_session_sound_witness:
  "\<exists>s' sd. get_session_from_token mem_adapter demo_cfg [] (seconds 10) ''tok'' (demo_state 0 (hours 168)) = (s', Inr sd)
    \<and> s_token (sd_session sd) = ''tok''"
proof -
  have "\<not> refresh_due demo_cfg (seconds 10) (demo_session 0 (hours 168))"
    by (simp add: refresh_due_def demo_cfg_def demo_session_def time_defs)
  from demo_get_session[OF _ this] obtain s' sd where
    g: "get_session_from_token mem_adapter demo_cfg [] (seconds 10) ''tok'' (demo_state 0 (hours 168)) = (s', Inr sd)"
    by (auto simp: time_defs)
  from get_session_sound[OF core_schema_tables conjunct1[OF demo_state_facts] g] g show ?thesis by blast
qed

end
