(* ===== verification/Session_Laws.thy ===== *)
theory Session_Laws
  imports Sessions
begin

text \<open>
  Properties of session resolution and revocation (session.go, handler_session.go) on
  the in-memory adapter: sliding expiration, the guards, revocation.
\<close>

section \<open>Sliding expiration\<close>

text \<open>
  A session minted with a lifetime more than a second shorter than the configured
  one is never extended: resolving it leaves the store as it is and returns the stored
  expiry.
\<close>

theorem short_session_fixed_expiry:
  assumes "has_core_tables sc" and "mem_inv (Some sc) s"
    and "get_session_from_token mem_adapter cfg ps now tok s = (s', Inr sd)"
    and "row \<in> set (mem_rows s model_session)" and "map_of row ''token'' = Some (VStr tok)"
    and "time_sub (s_expires (session_from_map row)) (s_created (session_from_map row)) < expires_in cfg - seconds 1"
  shows "mem_abs s' = mem_abs s \<and> sd_session sd = session_from_map row"
proof -
  from mem_core[OF assms(1-3) mem.get_session_from_token_sim]
  have core: "core_db (mem_abs s)"
    and run: "get_session_from_token spec_adapter cfg ps now tok (mem_abs s) = (mem_abs s', Inr sd)" by auto
  from get_session_from_token_ok[OF core run] obtain row' where
    row': "row' \<in> set (srows (mem_abs s))" "with_str ''token'' tok row'"
    and res: "if refresh_due cfg now (session_from_map row')
      then sd_session sd = session_from_map (gmerge row' (refresh_fields cfg now))
      else sd_session sd = session_from_map row' \<and> mem_abs s' = mem_abs s" by blast
  have "row' = row"
    using session_unique[OF core, of "''token''" row' row tok] row' assms(4,5) by (simp add: with_str_iff)
  moreover have "\<not> refresh_due cfg now (session_from_map row)"
    using assms(6) by (simp add: refresh_due_def session_refreshable_def)
  ultimately show ?thesis using res by simp
qed

lemma short_session_fixed_expiry_witness:
  "\<exists>s' sd. get_session_from_token mem_adapter demo_cfg [] (minutes 59) ''tok'' (demo_state 0 (hours 1)) = (s', Inr sd)
    \<and> mem_abs s' = mem_abs (demo_state 0 (hours 1)) \<and> s_expires (sd_session sd) = hours 1"
proof -
  let ?row = "session_to_map (demo_session 0 (hours 1))"
  have row: "session_from_map ?row = demo_session 0 (hours 1)" "map_of ?row ''token'' = Some (VStr ''tok'')"
    by (simp_all add: session_from_map_def session_to_map_def demo_session_def rget_def session_keys_def)
  have short: "time_sub (s_expires (demo_session 0 (hours 1))) (s_created (demo_session 0 (hours 1)))
      < expires_in demo_cfg - seconds 1"
    by (simp add: demo_cfg_def demo_session_def time_defs)
  then have "\<not> refresh_due demo_cfg (minutes 59) (demo_session 0 (hours 1))"
    by (simp add: refresh_due_def session_refreshable_def)
  from demo_get_session[OF _ this] obtain s' sd where
    g: "get_session_from_token mem_adapter demo_cfg [] (minutes 59) ''tok'' (demo_state 0 (hours 1)) = (s', Inr sd)"
    by (auto simp: time_defs)
  note st = demo_state_facts[of 0 "hours 1"]
  have "mem_abs s' = mem_abs (demo_state 0 (hours 1)) \<and> sd_session sd = session_from_map ?row"
    by (rule short_session_fixed_expiry[OF core_schema_tables conjunct1[OF st] g]) (use st row short in simp_all)
  then show ?thesis using g row by (simp add: demo_session_def)
qed

text \<open>
  A refresh sets the stored expiry to a full lifetime from now and keeps the
  session eligible for the next one: resolving an active session that is due writes
  \<open>now + ExpiresIn\<close> to its row, the row keeps its token and creation time, and the
  new expiry is again a refreshable lifetime.
\<close>

theorem refresh_extends_session:
  assumes "has_core_tables sc" and "mem_inv (Some sc) s"
    and "get_session_from_token mem_adapter cfg ps now tok s = (s', Inr sd)"
    and "row \<in> set (mem_rows s model_session)" and "map_of row ''token'' = Some (VStr tok)"
    and "refresh_due cfg now (session_from_map row)"
    and "s_created (session_from_map row) \<le> now" and "expires_in cfg \<le> max_int64"
  shows "\<exists>row'\<in>set (mem_rows s' model_session). map_of row' ''token'' = Some (VStr tok) \<and>
    sd_session sd = session_from_map row' \<and>
    s_expires (session_from_map row') = now + expires_in cfg \<and>
    s_created (session_from_map row') = s_created (session_from_map row) \<and>
    session_refreshable cfg (session_from_map row')"
proof -
  from mem_core[OF assms(1-3) mem.get_session_from_token_sim]
  have core: "core_db (mem_abs s)"
    and run: "get_session_from_token spec_adapter cfg ps now tok (mem_abs s) = (mem_abs s', Inr sd)" by auto
  let ?row = "gmerge row (refresh_fields cfg now)"
  have row: "row \<in> set (srows (mem_abs s))" "with_str ''token'' tok row"
    using assms(4,5) by (simp_all add: with_str_iff)
  have first: "find (with_str ''token'' tok) (srows (mem_abs s)) = Some row"
  proof (cases "find (with_str ''token'' tok) (srows (mem_abs s))")
    case None
    then show ?thesis using row by (auto simp: find_None_iff)
  next
    case (Some r)
    then show ?thesis using session_unique[OF core _ _ row(1) _ row(2)] find_in[OF Some] by fastforce
  qed
  have "sd_session sd = session_from_map ?row \<and>
    mem_abs s' = set_rows model_session (map_first (with_str ''token'' tok) (\<lambda>r. gmerge r (refresh_fields cfg now)) (srows (mem_abs s))) (mem_abs s)"
    using run first assms(6) slide_session_spec[OF core first, of cfg now]
    by (auto simp: get_session_from_token_spec[OF core] session_sd_def split: if_splits option.splits)
  then have sd: "sd_session sd = session_from_map ?row"
    and rows: "mem_rows s' model_session = map_first (with_str ''token'' tok) (\<lambda>r. gmerge r (refresh_fields cfg now)) (mem_rows s model_session)"
    by (metis, metis mem_abs_sel(1) set_rows_sel(1) fun_upd_same)
  have "find P xs = Some x \<Longrightarrow> f x \<in> set (map_first P f xs)" for P xs and x :: grec and f
    by (induction xs) (auto split: if_splits)
  then have "?row \<in> set (mem_rows s' model_session)" using first by (simp add: rows)
  moreover have "map_of ?row ''token'' = Some (VStr tok)"
    using assms(5) by (simp add: map_add_def refresh_fields_map)
  moreover have "session_refreshable cfg (session_from_map ?row)"
    using assms(6-8) by (auto simp: session_refreshable_def refresh_due_def time_defs)
  ultimately show ?thesis using sd by (intro bexI[of _ ?row]) (simp_all add: time_add_def del: map_of_gmerge)
qed

lemma demo_get_session_any:
  assumes "e > now"
  shows "\<exists>s' sd. get_session_from_token mem_adapter cfg [] now ''tok'' (demo_state c e) = (s', Inr sd)"
proof -
  let ?row = "session_to_map (demo_session c e)" and ?urow = "user_to_map demo_user_row"
  note st = demo_state_facts[of c e]
  have row: "session_from_map ?row = demo_session c e" "with_str ''token'' ''tok'' ?row"
    by (simp_all add: session_from_map_def session_to_map_def demo_session_def rget_def with_str_def session_keys_def)
  have urow: "with_str ''id'' ''u1'' ?urow" by (simp add: user_to_map_def demo_user_row_def rget_def with_str_def)
  obtain s' r where g: "get_session_from_token mem_adapter cfg [] now ''tok'' (demo_state c e) = (s', r)" by force
  from mem_core[OF core_schema_tables conjunct1[OF st] g mem.get_session_from_token_sim]
  have core: "core_db (mem_abs (demo_state c e))"
    and sp: "get_session_from_token spec_adapter cfg [] now ''tok'' (mem_abs (demo_state c e)) = (mem_abs s', r)" by auto
  have fs: "find (with_str ''token'' ''tok'') (srows (mem_abs (demo_state c e))) = Some ?row"
    using row st by simp
  have "s_user (demo_session c e) = ''u1''" "s_expires (demo_session c e) = e" by (simp_all add: demo_session_def)
  then have "\<exists>sd. r = Inr sd"
    using sp assms slide_session_spec[OF core fs, of cfg now] urow st fs
    by (auto simp: get_session_from_token_spec[OF core] row split: if_splits)
  then show ?thesis using g by blast
qed

lemma refresh_extends_session_witness:
  "\<exists>s' sd. get_session_from_token mem_adapter demo_cfg [] (hours 100) ''tok'' (demo_state 0 (hours 168)) = (s', Inr sd)
    \<and> s_expires (sd_session sd) = hours 268"
proof -
  let ?row = "session_to_map (demo_session 0 (hours 168))"
  have row: "session_from_map ?row = demo_session 0 (hours 168)" "map_of ?row ''token'' = Some (VStr ''tok'')"
    by (simp_all add: session_from_map_def session_to_map_def demo_session_def rget_def session_keys_def)
  have due: "refresh_due demo_cfg (hours 100) (session_from_map ?row)"
    unfolding row by (simp add: refresh_due_def session_refreshable_def demo_cfg_def demo_session_def time_defs)
  obtain s' sd where
    g: "get_session_from_token mem_adapter demo_cfg [] (hours 100) ''tok'' (demo_state 0 (hours 168)) = (s', Inr sd)"
    using demo_get_session_any[of "hours 100" "hours 168" demo_cfg 0] by (auto simp: time_defs)
  note st = demo_state_facts[of 0 "hours 168"]
  have "s_created (session_from_map ?row) \<le> hours 100" "expires_in demo_cfg \<le> max_int64"
    unfolding row by (simp_all add: demo_session_def demo_cfg_def time_defs)
  then have "s_expires (sd_session sd) = hours 100 + expires_in demo_cfg"
    using refresh_extends_session[OF core_schema_tables conjunct1[OF st] g _ row(2) due] st by fastforce
  then show ?thesis using g by (auto simp: demo_cfg_def time_defs)
qed

section \<open>Guards\<close>

text \<open>
  C6: with session guards and without \<open>AcceptStaleAuthorization\<close> the cookie cache
  cannot answer: whatever it holds, \<open>GetSession\<close> does what a lookup in the store
  does. And in every configuration a session that is returned passed every guard.
\<close>

theorem cache_cannot_bypass_guards:
  shows "(has_session_guards ps \<longrightarrow> \<not> accept_stale cfg \<longrightarrow>
      get_session A cfg ps now (Some tok) cached s = get_session_from_token A cfg ps now tok s)
    \<and> (snd (get_session A cfg ps now token cached s) = Inr sd \<longrightarrow> run_session_guards ps sd = None)"
proof (intro conjI impI)
  assume "has_session_guards ps" "\<not> accept_stale cfg"
  then show "get_session A cfg ps now (Some tok) cached s = get_session_from_token A cfg ps now tok s"
    by (simp add: get_session_def)
next
  have none: "\<not> has_session_guards ps \<Longrightarrow> run_session_guards ps sd = None" for sd
    unfolding has_session_guards_def by (induction ps) auto
  have store: "run_session_guards ps sd = None" if "snd (get_session_from_token A cfg ps now tok s) = Inr sd" for tok
    using that unfolding get_session_from_token_def attempt_def bind_def Let_def
    by (auto split: prod.splits sum.splits if_splits option.splits)
  assume "snd (get_session A cfg ps now token cached s) = Inr sd"
  then show "run_session_guards ps sd = None"
    using none store by (auto simp: get_session_def split: option.splits if_splits)
qed

definition demo_guard :: plugin where
  "demo_guard = \<lparr>pl_id = ''admin'', pl_sign_in = Some (\<lambda>u. if u_id u = ''u2'' then Inl (ApiError 403 ''BANNED'') else Inr False),
     pl_session = Some (\<lambda>sd. if u_id (sd_user sd) = ''u2'' then Some (ApiError 403 ''BANNED'') else None)\<rparr>"

lemma cache_cannot_bypass_guards_witness:
  "get_session mem_adapter demo_cfg [demo_guard] 5 (Some ''tok'')
     (Some (session_sd (demo_session 0 (hours 1)) demo_user_row)) (demo_state 0 (hours 168))
   = get_session_from_token mem_adapter demo_cfg [demo_guard] 5 ''tok'' (demo_state 0 (hours 168))"
  using cache_cannot_bypass_guards[of "[demo_guard]" demo_cfg mem_adapter 5 "''tok''"
      "Some (session_sd (demo_session 0 (hours 1)) demo_user_row)" "demo_state 0 (hours 168)"]
  by (simp add: has_session_guards_def demo_guard_def demo_cfg_def)

text \<open>
  No sign-in guard can be skipped. A session is only minted when every guard let
  the user pass; and when a guard takes over and its plugin later finishes the sign-in
  by running the guards after it, every guard but its own has let the user pass.
\<close>

theorem sign_in_guards_complete:
  shows "(snd (sign_in_user A H cfg ps now gi gt client u s) = Inr (Some sess) \<longrightarrow>
      list_all (\<lambda>p. case pl_sign_in p of None \<Rightarrow> True | Some g \<Rightarrow> g u = Inr False) ps)
    \<and> (ps = before @ p # after \<longrightarrow> pl_id p \<notin> pl_id ` set before \<longrightarrow> run_sign_in_guards before u = Inr False \<longrightarrow>
       run_sign_in_guards_after ps u (pl_id p) = Inr False \<longrightarrow>
       list_all (\<lambda>q. case pl_sign_in q of None \<Rightarrow> True | Some g \<Rightarrow> g u = Inr False) (before @ after))"
proof -
  let ?pass = "\<lambda>p. case pl_sign_in p of None \<Rightarrow> True | Some g \<Rightarrow> g u = Inr False"
  have all: "run_sign_in_guards qs u = Inr False \<longleftrightarrow> list_all ?pass qs" for qs
    by (induction qs) (auto split: option.splits sum.splits bool.splits)
  have after: "pl_id p \<notin> pl_id ` set xs \<Longrightarrow> run_sign_in_guards_after (xs @ p # ys) u (pl_id p) = run_sign_in_guards ys u" for xs ys
    by (induction xs) auto
  have "snd (sign_in_user A H cfg ps now gi gt client u s) = Inr (Some sess) \<Longrightarrow> run_sign_in_guards ps u = Inr False"
    unfolding sign_in_user_def by (auto split: sum.splits bool.splits)
  then show ?thesis using all after by auto
qed

lemma sign_in_guards_complete_witness:
  "list_all (\<lambda>q. case pl_sign_in q of None \<Rightarrow> True | Some g \<Rightarrow> g demo_user_row = Inr False) ([demo_guard] @ [])"
  using sign_in_guards_complete[of mem_adapter no_hooks demo_cfg
      "[demo_guard] @ demo_guard\<lparr>pl_id := ''two-factor'', pl_sign_in := Some (\<lambda>_. Inr True)\<rparr> # []" 0 "''a''" "''b''"
      "('''', '''')" demo_user_row "mem_start core_schema" "demo_session 0 0" "[demo_guard]"
      "demo_guard\<lparr>pl_id := ''two-factor'', pl_sign_in := Some (\<lambda>_. Inr True)\<rparr>" "[]"]
  by (simp add: demo_guard_def demo_user_row_def)

section \<open>Revocation\<close>

lemma get_session_user_gone:
  assumes "core_db d" and "get_session_from_token spec_adapter cfg ps now tok d = (d', Inr sd)"
  shows "\<exists>row\<in>set (srows d). with_str ''token'' tok row \<and> str_val (rget row ''userId'') = s_user (sd_session sd)"
proof -
  obtain row where "row \<in> set (srows d)" "with_str ''token'' tok row"
    "sd_session sd = session_from_map row \<or> sd_session sd = session_from_map (gmerge row (refresh_fields cfg now))"
    using get_session_from_token_ok[OF assms] by metis
  then show ?thesis by (auto simp: session_from_map_def[of row] intro!: bexI[of _ row])
qed

lemma spec_delete_sessions:
  "core_db d \<Longrightarrow> spec_delete_many model_session [W ''userId'' (VStr uid)] d =
    (set_rows model_session (filter (\<lambda>r. \<not> with_str ''userId'' uid r) (srows d)) d,
     Inr (length (filter (with_str ''userId'' uid) (srows d))))"
  by (simp add: spec_delete_many_def core_db_def session_keys_def with_str_def[abs_def])

text \<open>
  Revocation takes effect at once. After a token is revoked no lookup with it
  succeeds; after all sessions of a user are revoked no token resolves to that user.
\<close>

theorem revocation_effective:
  assumes "has_core_tables sc" and "mem_inv (Some sc) s"
  shows "snd (get_session_from_token mem_adapter cfg ps now tok (fst (revoke_session mem_adapter tok s))) = Inl ErrNoSession
    \<and> (uid \<noteq> '''' \<longrightarrow> snd (get_session_from_token mem_adapter cfg ps now tok' (fst (revoke_user_sessions mem_adapter uid s))) = Inr sd
       \<longrightarrow> s_user (sd_session sd) \<noteq> uid)"
proof (intro conjI impI)
  obtain s1 r1 where 1: "revoke_session mem_adapter tok s = (s1, r1)" by force
  from mem_core[OF assms 1 mem.revoke_sims(1)] have core: "core_db (mem_abs s)" and inv: "mem_inv (Some sc) s1"
    and "revoke_session spec_adapter tok (mem_abs s) = (mem_abs s1, r1)" by auto
  then have "srows (mem_abs s1) = filter (\<lambda>r. \<not> with_str ''token'' tok r) (srows (mem_abs s))"
    using remove_session[OF core, of "''token''" tok]
    by (simp add: revoke_session_def delete_session_by_token_spec[OF core]) (metis set_rows_sel(1) fun_upd_same mem_abs_sel(1))
  then have "find (with_str ''token'' tok) (srows (mem_abs s1)) = None" by (simp add: find_None_iff)
  then have "snd (get_session_from_token spec_adapter cfg ps now tok (mem_abs s1)) = Inl ErrNoSession"
    using get_session_from_token_spec[OF core_db_mem[OF assms(1) inv]] by simp
  then show "snd (get_session_from_token mem_adapter cfg ps now tok (fst (revoke_session mem_adapter tok s))) = Inl ErrNoSession"
    using sim_run[OF mem.get_session_from_token_sim inv, of cfg ps now tok] 1 by simp
next
  obtain s1 r1 where 1: "revoke_user_sessions mem_adapter uid s = (s1, r1)" by force
  from mem_core[OF assms 1 mem.revoke_sims(3)] have core: "core_db (mem_abs s)" and inv: "mem_inv (Some sc) s1"
    and "revoke_user_sessions spec_adapter uid (mem_abs s) = (mem_abs s1, r1)" by auto
  then have "srows (mem_abs s1) = filter (\<lambda>r. \<not> with_str ''userId'' uid r) (srows (mem_abs s))"
    by (simp add: revoke_user_sessions_def delete_user_sessions_def bind_def spec_delete_sessions)
      (metis set_rows_sel(1) fun_upd_same mem_abs_sel(1))
  then have gone: "\<not> with_str ''userId'' uid row" if "row \<in> set (srows (mem_abs s1))" for row using that by auto
  assume "uid \<noteq> ''''" and "snd (get_session_from_token mem_adapter cfg ps now tok' (fst (revoke_user_sessions mem_adapter uid s))) = Inr sd"
  then obtain s2 where "get_session_from_token mem_adapter cfg ps now tok' s1 = (s2, Inr sd)"
    using 1 by (metis fst_conv prod.collapse)
  from get_session_user_gone[OF core_db_mem[OF assms(1) inv] conjunct2[OF simD[OF mem.get_session_from_token_sim inv this]]]
  obtain row where "row \<in> set (srows (mem_abs s1))" "str_val (rget row ''userId'') = s_user (sd_session sd)" by blast
  then show "s_user (sd_session sd) \<noteq> uid"
    using gone[of row] \<open>uid \<noteq> ''''\<close> by (cases "rget row ''userId''") (auto simp: with_str_def)
qed

lemma revocation_effective_witness:
  "snd (get_session_from_token mem_adapter demo_cfg [] 5 ''tok''
     (fst (revoke_session mem_adapter ''tok'' (demo_state 0 (hours 168))))) = Inl ErrNoSession"
  using revocation_effective[OF core_schema_tables conjunct1[OF demo_state_facts]] by blast

text \<open>
  C9: \<open>/revoke-session\<close> only ever removes sessions of the signed-in user: whatever id
  or token is submitted, the rows of every other user stay, and if the submitted id or
  token is not one of the user's the request fails and nothing changes.
\<close>

theorem revoke_session_ownership:
  assumes "has_core_tables sc" and "mem_inv (Some sc) s" and "u_id (sd_user sd) \<noteq> ''''"
    and "handle_revoke_session mem_adapter sd i tok s = (s', r)"
  shows "filter (\<lambda>row. \<not> with_str ''userId'' (u_id (sd_user sd)) row) (mem_rows s' model_session) =
      filter (\<lambda>row. \<not> with_str ''userId'' (u_id (sd_user sd)) row) (mem_rows s model_session)
    \<and> (\<not> is_ok r \<longrightarrow> mem_abs s' = mem_abs s)"
proof -
  let ?me = "u_id (sd_user sd)"
  from mem_core[OF assms(1,2,4) mem.revoke_sims(5)] have core: "core_db (mem_abs s)"
    and run: "handle_revoke_session spec_adapter sd i tok (mem_abs s) = (mem_abs s', r)" by auto
  let ?f = "if i \<noteq> '''' then ''id'' else ''token''" and ?x = "if i \<noteq> '''' then i else tok"
  have look: "(if i \<noteq> '''' then find_session_by_id spec_adapter i else find_session_by_token spec_adapter tok) (mem_abs s) =
      (mem_abs s, case find (with_str ?f ?x) (srows (mem_abs s)) of None \<Rightarrow> Inl ErrNotFound | Some row \<Rightarrow> Inr (session_from_map row))"
    by (simp add: find_session_by_id_spec[OF core] find_session_by_token_spec[OF core])
  note run' = run[unfolded handle_revoke_session_def attempt_def]
  have "mem_abs s' = mem_abs s \<and> \<not> is_ok r \<or> is_ok r \<and>
    (\<exists>row. find (with_str ?f ?x) (srows (mem_abs s)) = Some row \<and> s_user (session_from_map row) = ?me \<and>
      mem_abs s' = set_rows model_session (remove_first (with_str ''id'' (s_id (session_from_map row))) (srows (mem_abs s))) (mem_abs s))"
    using run' look delete_session_by_id_spec[OF core]
    by (cases "find (with_str ?f ?x) (srows (mem_abs s))") (auto simp: bind_def split: if_splits)
  then show ?thesis
  proof
    assume "mem_abs s' = mem_abs s \<and> \<not> is_ok r"
    then have "mem_rows s' = mem_rows s" by (metis mem_abs_sel(1))
    then show ?thesis using \<open>mem_abs s' = mem_abs s \<and> \<not> is_ok r\<close> by simp
  next
    assume "is_ok r \<and> (\<exists>row. find (with_str ?f ?x) (srows (mem_abs s)) = Some row \<and> s_user (session_from_map row) = ?me \<and>
      mem_abs s' = set_rows model_session (remove_first (with_str ''id'' (s_id (session_from_map row))) (srows (mem_abs s))) (mem_abs s))"
    then obtain row where ok: "is_ok r" and row: "row \<in> set (srows (mem_abs s))" "s_user (session_from_map row) = ?me"
      and s': "mem_abs s' = set_rows model_session (remove_first (with_str ''id'' (s_id (session_from_map row))) (srows (mem_abs s))) (mem_abs s)"
      using find_in by metis
    let ?i = "s_id (session_from_map row)"
    have rowid: "with_str ''id'' ?i row"
      using session_row_ids[OF core row(1)] by (auto simp: with_str_iff session_from_map_def rget_def)
    have rows: "mem_rows s' model_session = filter (\<lambda>r. \<not> with_str ''id'' ?i r) (mem_rows s model_session)"
      using arg_cong[OF s', of "\<lambda>d. sd_rows d model_session"] remove_session[OF core, of "''id''" ?i] by simp
    have mine: "with_str ''userId'' ?me r" if "r \<in> set (mem_rows s model_session)" "with_str ''id'' ?i r" for r
    proof -
      have "r = row" using session_unique[OF core _ _ row(1) that(2) rowid] that(1) by simp
      then show ?thesis using row(2) assms(3)
        by (cases "rget row ''userId''") (auto simp: session_from_map_def with_str_def)
    qed
    show ?thesis using ok mine unfolding rows by (auto intro!: filter_cong)
  qed
qed

lemma revoke_session_ownership_witness:
  "\<exists>s' r. handle_revoke_session mem_adapter (session_sd (demo_session 0 0) (demo_user_row\<lparr>u_id := ''u2''\<rparr>)) ''s1'' ''''
      (demo_state 0 (hours 168)) = (s', r)
    \<and> filter (\<lambda>row. \<not> with_str ''userId'' ''u2'' row) (mem_rows s' model_session) =
      filter (\<lambda>row. \<not> with_str ''userId'' ''u2'' row) (mem_rows (demo_state 0 (hours 168)) model_session)"
proof -
  let ?sd = "session_sd (demo_session 0 0) (demo_user_row\<lparr>u_id := ''u2''\<rparr>)"
  obtain s' r where h: "handle_revoke_session mem_adapter ?sd ''s1'' '''' (demo_state 0 (hours 168)) = (s', r)" by force
  show ?thesis
    using revoke_session_ownership[OF core_schema_tables conjunct1[OF demo_state_facts] _ h] h
    by (auto simp: session_sd_def)
qed

end
