(* ===== verification/Store_Laws.thy ===== *)
theory Store_Laws
  imports Session_Laws
begin

text \<open>
  Properties of the typed store (store.go, cascade.go) and of token cleanup (token.go)
  on the in-memory adapter: accounts are unique up to the spelling of the email, and
  deleting a user removes everything that references them and nothing else.
\<close>

section \<open>Creating users\<close>

lemma check_writable_user [simp]:
  "u_extra u = [] \<Longrightarrow> check_writable_fields (Some user_table) (user_to_map u) = None"
  by (simp add: check_writable_fields_def unknown_keys_def user_table_simps user_to_map_def)

lemma user_map_plain [simp]:
  "u_extra u = [] \<Longrightarrow> apply_defaults user_table (user_to_map u) = user_to_map u"
  "u_extra u = [] \<Longrightarrow> map_of (user_to_map u) ''id'' = Some (VStr (u_id u))"
  "u_extra u = [] \<Longrightarrow> map_of (user_to_map u) ''email'' = Some (VStr (u_email u))"
  "u_extra u = [] \<Longrightarrow> user_from_map (user_to_map u) = u"
  by (simp_all add: user_table_simps user_to_map_def ghas_def user_from_map_def user_keys_def rget_def)

lemma sd_uniq_user: "core_db d \<Longrightarrow> sd_uniq d model_user = [''id'', ''email'']"
  by (simp add: sd_uniq_def uniq_of_def core_db_def user_table_simps)

lemma create_user_spec:
  assumes "core_db d" and "u_extra u = []"
    and u1: "u1 = u\<lparr>u_id := (if u_id u = '''' then gen else u_id u), u_email := normalize_email (u_email u),
                 u_created := now, u_updated := now\<rparr>"
  shows "create_user spec_adapter no_hooks now gen u d =
    (if \<exists>row\<in>set (urows d). with_str ''id'' (u_id u1) row \<or> with_str ''email'' (u_email u1) row
     then (d, Inl ErrUniqueViolation)
     else (set_rows model_user (urows d @ [user_to_map u1]) d, Inr u1))"
proof -
  have e: "u_extra u1 = []" using assms(2) u1 by simp
  have viol: "spec_violates d model_user (user_to_map u1) None \<longleftrightarrow>
      (\<exists>row\<in>set (urows d). with_str ''id'' (u_id u1) row \<or> with_str ''email'' (u_email u1) row)"
    using assms(1) e
    by (auto simp: spec_violates_def sd_uniq_user list_ex_iff skipped_def clash_iff with_str_iff violates_composite_def
        core_db_def user_table_simps)
  show ?thesis
    using assms(1) e viol
    by (simp add: create_user_def no_hooks_def run_hook_def bind_def spec_create_def core_db_def u1[symmetric] Let_def)
qed

lemma find_user_by_email_spec:
  "core_db d \<Longrightarrow> find_user_by_email spec_adapter e d =
    (d, case find (with_str ''email'' (normalize_email e)) (urows d) of None \<Rightarrow> Inl ErrNotFound
        | Some r \<Rightarrow> Inr (user_from_map r))"
  by (simp add: find_user_by_email_def bind_query spec_find_one_def core_db_def user_keys_def
      with_str_def[abs_def] split: option.splits)

text \<open>
  An email address identifies at most one user however it is spelled: after a user
  is created, every spelling of the address that differs in case or surrounding space
  finds that user, and creating another user with such a spelling is refused.
\<close>

theorem email_identifies_user:
  assumes "has_core_tables sc" and "mem_inv (Some sc) s" and "u_extra u = []" and "u_extra w = []"
    and "create_user mem_adapter no_hooks now gen u s = (s1, Inr u1)"
    and "normalize_email e = normalize_email (u_email u)" and "normalize_email (u_email w) = normalize_email e"
  shows "snd (find_user_by_email mem_adapter e s1) = Inr u1
    \<and> u_email u1 = normalize_email e
    \<and> snd (create_user mem_adapter no_hooks now' gen' w s1) = Inl ErrUniqueViolation"
proof -
  have sim: "sim mem_abs (mem_inv (Some sc)) (create_user mem_adapter no_hooks n g v) (create_user spec_adapter no_hooks n g v)"
    if "u_extra v = []" for n g v
    using that by (intro mem.create_user_sim) (simp_all add: ghas_def)
  from mem_core[OF assms(1,2,5) sim[OF assms(3)]] have core: "core_db (mem_abs s)" and inv: "mem_inv (Some sc) s1"
    and run: "create_user spec_adapter no_hooks now gen u (mem_abs s) = (mem_abs s1, Inr u1)" by auto
  let ?u1 = "u\<lparr>u_id := (if u_id u = '''' then gen else u_id u), u_email := normalize_email (u_email u),
                 u_created := now, u_updated := now\<rparr>"
  have u1: "u1 = ?u1" and rows: "mem_abs s1 = set_rows model_user (urows (mem_abs s) @ [user_to_map ?u1]) (mem_abs s)"
    and fresh: "\<not> (\<exists>row\<in>set (urows (mem_abs s)). with_str ''email'' (normalize_email e) row)"
    using run create_user_spec[OF core assms(3) refl, of now gen] assms(6) by (auto split: if_splits)
  note core1 = core_db_mem[OF assms(1) inv]
  have ur: "mem_rows s1 model_user = mem_rows s model_user @ [user_to_map u1]"
    using arg_cong[OF rows, of "\<lambda>d. sd_rows d model_user"] u1 by simp
  have ex1: "u_extra u1 = []" "u_email u1 = normalize_email e" using assms(3,6) u1 by simp_all
  then have new: "with_str ''email'' (normalize_email e) (user_to_map u1)" by (simp add: with_str_iff)
  have "find (with_str ''email'' (normalize_email e)) (mem_rows s model_user @ [user_to_map u1]) = Some (user_to_map u1)"
    using fresh new by (intro find_split) auto
  then have "find (with_str ''email'' (normalize_email e)) (urows (mem_abs s1)) = Some (user_to_map u1)"
    by (simp add: ur)
  then have "snd (find_user_by_email spec_adapter e (mem_abs s1)) = Inr u1"
    using find_user_by_email_spec[OF core1, of e] ex1 by simp
  then have "snd (find_user_by_email mem_adapter e s1) = Inr u1"
    using sim_run[OF mem.find_sims(2) inv] by simp
  moreover have "snd (create_user spec_adapter no_hooks now' gen' w (mem_abs s1)) = Inl ErrUniqueViolation"
    using create_user_spec[OF core1 assms(4) refl, of now' gen'] assms(7) new ur by simp
  then have "snd (create_user mem_adapter no_hooks now' gen' w s1) = Inl ErrUniqueViolation"
    using sim_run[OF sim[OF assms(4)] inv, of now' gen'] by simp
  ultimately show ?thesis using ex1 by simp
qed

lemma email_identifies_user_witness:
  "\<exists>s1 u1. create_user mem_adapter no_hooks 1 ''g1'' (demo_user_row\<lparr>u_email := '' Ann@Example.com ''\<rparr>) (mem_start core_schema) = (s1, Inr u1)
    \<and> snd (find_user_by_email mem_adapter ''ANN@example.com'' s1) = Inr u1
    \<and> snd (create_user mem_adapter no_hooks 2 ''g2'' (demo_user_row\<lparr>u_id := ''u9'', u_email := ''ann@EXAMPLE.com''\<rparr>) s1) = Inl ErrUniqueViolation"
proof -
  let ?u = "demo_user_row\<lparr>u_email := '' Ann@Example.com ''\<rparr>"
  let ?w = "demo_user_row\<lparr>u_id := ''u9'', u_email := ''ann@EXAMPLE.com''\<rparr>"
  have inv: "mem_inv (Some core_schema) (mem_start core_schema)" by (rule mem_start_inv[OF wf_core_schema])
  have ex: "u_extra ?u = []" "u_extra ?w = []" by (simp_all add: demo_user_row_def)
  have sim: "sim mem_abs (mem_inv (Some core_schema)) (create_user mem_adapter no_hooks 1 ''g1'' ?u) (create_user spec_adapter no_hooks 1 ''g1'' ?u)"
    using ex by (intro mem.create_user_sim) (simp_all add: ghas_def)
  obtain s1 r where c: "create_user mem_adapter no_hooks 1 ''g1'' ?u (mem_start core_schema) = (s1, r)" by force
  from mem_core[OF core_schema_tables inv c sim] create_user_spec[OF _ ex(1) refl, of "mem_abs (mem_start core_schema)" 1 "''g1''"]
  obtain u1 where "r = Inr u1" by (auto simp: mem_abs_start)
  moreover have n: "normalize_email ''ANN@example.com'' = ''ann@example.com''" "normalize_email '' Ann@Example.com '' = ''ann@example.com''"
    "normalize_email ''ann@EXAMPLE.com'' = ''ann@example.com''"
    by code_simp+
  ultimately show ?thesis
    using email_identifies_user[OF core_schema_tables inv ex, of 1 "''g1''" s1 u1 "''ANN@example.com''" 2 "''g2''"] c by simp
qed

section \<open>Deleting users\<close>

lemma spec_delete_many_eq:
  assumes "sd_table d m = Some t" and "has_field t f"
  shows "spec_delete_many m [W f (VStr i)] d =
    (set_rows m (filter (\<lambda>r. \<not> with_str f i r) (sd_rows d m)) d, Inr (length (filter (with_str f i) (sd_rows d m))))"
  using assms by (simp add: spec_delete_many_def check_where_fields_def unknown_keys_def with_str_def[abs_def])

lemma has_field_reference: "user_reference_field t \<noteq> '''' \<Longrightarrow> has_field t (user_reference_field t)"
  by (auto simp: user_reference_field_def has_field_def field_by_name_def find_None_iff split: option.splits
      dest: find_in)

definition core_models :: "string list" where
  "core_models = [model_user, model_session, model_account]"

text \<open>What the cascade leaves of the rows of a model.\<close>

definition cascade_rows :: "(string \<times> table) list \<Rightarrow> string \<Rightarrow> string \<Rightarrow> grec list \<Rightarrow> grec list" where
  "cascade_rows ts i m rows =
     (case map_of ts m of
        None \<Rightarrow> rows
      | Some t \<Rightarrow> if m \<in> set core_models \<or> user_reference_field t = '''' then rows
                 else filter (\<lambda>r. \<not> with_str (user_reference_field t) i r) rows)"

lemma cascade_spec:
  assumes "distinct (map fst ts)" and "\<And>m t. (m, t) \<in> set ts \<Longrightarrow> sd_table d m = Some t"
  shows "\<exists>d'. for_each (cascade_table spec_adapter i) ts d = (d', Inr ()) \<and> sd_schema d' = sd_schema d \<and>
    (\<forall>m. sd_rows d' m = cascade_rows ts i m (sd_rows d m))"
  using assms
proof (induction ts arbitrary: d)
  case Nil
  then show ?case by (simp add: cascade_rows_def)
next
  case (Cons p ts)
  obtain m t where p: "p = (m, t)" by force
  have mt: "sd_table d m = Some t" using Cons.prems(2) p by simp
  have out: "map_of ts m = None" using Cons.prems(1) p by (simp add: map_of_eq_None_iff)
  show ?case
  proof (cases "m \<in> set core_models \<or> user_reference_field t = ''''")
    case True
    then have "cascade_table spec_adapter i p = ret ()"
      by (auto simp: cascade_table_def p core_models_def)
    moreover have "cascade_rows (p # ts) i m' rows = cascade_rows ts i m' rows" for m' rows
      using True p out by (auto simp: cascade_rows_def)
    ultimately show ?thesis using Cons.IH[of d] Cons.prems by simp
  next
    case False
    let ?d = "set_rows m (filter (\<lambda>r. \<not> with_str (user_reference_field t) i r) (sd_rows d m)) d"
    have step: "for_each (cascade_table spec_adapter i) (p # ts) d = for_each (cascade_table spec_adapter i) ts ?d"
      using False has_field_reference[of t] spec_delete_many_eq[OF mt]
      by (simp add: cascade_table_def p bind_def core_models_def)
    obtain d' where d': "for_each (cascade_table spec_adapter i) ts ?d = (d', Inr ())" "sd_schema d' = sd_schema ?d"
      "\<And>m'. sd_rows d' m' = cascade_rows ts i m' (sd_rows ?d m')"
      using Cons.IH[of ?d] Cons.prems by auto
    have "cascade_rows ts i m' (sd_rows ?d m') = cascade_rows (p # ts) i m' (sd_rows d m')" for m'
      using False out p by (auto simp: cascade_rows_def)
    then show ?thesis using step d' by simp
  qed
qed

lemma account_table_fields [simp]: "f \<in> set account_keys \<Longrightarrow> has_field account_table f"
  by (auto simp: has_field_def field_by_name_def account_table_def col_def account_keys_def)

text \<open>Which column of a model points to the user, with the id of the user row itself.\<close>

definition reference_column :: "schema \<Rightarrow> string \<Rightarrow> string" where
  "reference_column sc m =
     (if m = model_user then ''id''
      else case map_of (sc_tables sc) m of None \<Rightarrow> '''' | Some t \<Rightarrow> user_reference_field t)"

lemma core_references:
  "has_core_tables sc \<Longrightarrow> reference_column sc model_session = ''userId''"
  "has_core_tables sc \<Longrightarrow> reference_column sc model_account = ''userId''"
  by (simp_all add: reference_column_def has_core_tables_def model_names user_reference_field_def
      session_table_def account_table_def col_def references_user_model_def ref_user_def)

lemma sd_table_set_rows2: "sd_schema d' = sd_schema d \<Longrightarrow> sd_table d' = sd_table d"
  by (simp add: sd_table_def fun_eq_iff)

lemma delete_user_columns:
  assumes sc: "has_core_tables sc" "distinct (map fst (sc_tables sc))"
    and core: "core_db d" and schema: "sd_schema d = Some sc"
  shows "\<exists>d'. delete_user_body spec_adapter (Some sc) i d = (d', Inr ()) \<and>
    (\<forall>m. sd_rows d' m = (if reference_column sc m = '''' then sd_rows d m
                         else filter (\<lambda>r. \<not> with_str (reference_column sc m) i r) (sd_rows d m)))"
proof -
  let ?d1 = "set_rows model_session (filter (\<lambda>r. \<not> with_str ''userId'' i r) (srows d)) d"
  let ?d2 = "set_rows model_account (filter (\<lambda>r. \<not> with_str ''userId'' i r) (sd_rows d model_account)) ?d1"
  have t: "sd_table d model_account = Some account_table" using core by (simp add: core_db_def)
  have s1: "spec_delete_many model_session [W ''userId'' (VStr i)] d = (?d1, Inr (length (filter (with_str ''userId'' i) (srows d))))"
    by (rule spec_delete_sessions[OF core])
  have "\<exists>n. spec_delete_many model_account [W ''userId'' (VStr i)] ?d1 = (?d2, Inr n)"
    using spec_delete_many_eq[of ?d1 model_account account_table "''userId''" i] t
    by (simp add: model_names account_keys_def)
  then obtain n where s2: "spec_delete_many model_account [W ''userId'' (VStr i)] ?d1 = (?d2, Inr n)" ..
  have tabs: "sd_table ?d2 m = Some t'" if "(m, t') \<in> set (sc_tables sc)" for m t'
    using that sc(2) schema by (simp add: sd_table_def schema_table_def)
  obtain d3 where s3: "for_each (cascade_table spec_adapter i) (sc_tables sc) ?d2 = (d3, Inr ())"
    "sd_schema d3 = sd_schema ?d2" "\<And>m. sd_rows d3 m = cascade_rows (sc_tables sc) i m (sd_rows ?d2 m)"
    using cascade_spec[OF sc(2) tabs, of i] by blast
  have u3: "urows d3 = urows d"
    by (simp add: s3(3) cascade_rows_def core_models_def model_names split: option.splits)
  have "sd_table d3 = sd_table d" using s3(2) by (intro sd_table_set_rows2) simp
  then have ut: "sd_table d3 model_user = Some user_table" using core by (simp add: core_db_def)
  have "remove_first (with_str ''id'' i) (urows d) = filter (\<lambda>r. \<not> with_str ''id'' i r) (urows d)"
  proof (rule remove_first_eq_filter)
    show "distinct (urows d)" using core by (simp add: core_db_def rows_distinct)
    fix a b assume *: "a \<in> set (urows d)" "b \<in> set (urows d)" "with_str ''id'' i a" "with_str ''id'' i b"
    have "rows_ok (sd_uniq d model_user) (urows d)" using core by (simp add: core_db_def sdb_invD)
    from rows_no_clash[OF this _ *(1,2), of "''id''"] * show "a = b"
      by (auto simp: sd_uniq_user[OF core] clash_iff with_str_iff)
  qed
  then have s4: "spec_delete model_user [W ''id'' (VStr i)] d3 =
      (set_rows model_user (filter (\<lambda>r. \<not> with_str ''id'' i r) (urows d)) d3, Inr ())"
    by (simp add: spec_delete_def ut user_keys_def u3 with_str_def[abs_def])
  have "sd_rows (set_rows model_user (filter (\<lambda>r. \<not> with_str ''id'' i r) (urows d)) d3) m =
      (if reference_column sc m = '''' then sd_rows d m
       else filter (\<lambda>r. \<not> with_str (reference_column sc m) i r) (sd_rows d m))" for m
  proof (cases "m \<in> set core_models")
    case True
    then show ?thesis
      using core_references[OF sc(1)]
      by (auto simp: core_models_def s3(3) cascade_rows_def reference_column_def model_names split: option.splits)
  next
    case False
    then show ?thesis
      by (auto simp: core_models_def s3(3) cascade_rows_def reference_column_def split: option.splits)
  qed
  then show ?thesis
    using s1 s2 s3(1) s4 by (simp add: delete_user_body_def bind_def delete_user_plugin_data_def)
qed

text \<open>
  What a schema declares to be a user's own: the user row, and in every other table the rows whose first
  column that is declared to reference the user table holds the id.
\<close>

definition refers_to_user :: "field \<Rightarrow> bool" where
  "refers_to_user f \<longleftrightarrow> (\<exists>r. fd_references f = Some r \<and> ref_model r = model_user)"

definition owner_column :: "table \<Rightarrow> string \<Rightarrow> bool" where
  "owner_column t c \<longleftrightarrow> (\<exists>pre f post. tb_fields t = pre @ f # post \<and> refers_to_user f \<and> fd_name f = c
     \<and> (\<forall>g\<in>set pre. \<not> refers_to_user g))"

definition belongs_to :: "schema \<Rightarrow> string \<Rightarrow> string \<Rightarrow> grec \<Rightarrow> bool" where
  "belongs_to sc i m row \<longleftrightarrow>
     (if m = model_user then rget row ''id'' = VStr i
      else \<exists>t c. map_of (sc_tables sc) m = Some t \<and> owner_column t c \<and> c \<noteq> '''' \<and> rget row c = VStr i)"

lemma owner_column_iff:
  assumes "c \<noteq> ''''" shows "owner_column t c \<longleftrightarrow> user_reference_field t = c"
proof -
  have "references_user_model = refers_to_user"
    by (auto simp: fun_eq_iff references_user_model_def refers_to_user_def split: option.splits)
  moreover have "owner_column t c \<longleftrightarrow> (\<exists>f. find refers_to_user (tb_fields t) = Some f \<and> fd_name f = c)"
    unfolding owner_column_def find_first_iff by blast
  ultimately show ?thesis using assms by (auto simp: user_reference_field_def split: option.splits)
qed

lemma belongs_to_iff: "belongs_to sc i m row \<longleftrightarrow> reference_column sc m \<noteq> '''' \<and> with_str (reference_column sc m) i row"
  unfolding belongs_to_def reference_column_def with_str_def using owner_column_iff
  by (cases "map_of (sc_tables sc) m") auto

lemma delete_user_spec:
  assumes "has_core_tables sc" "distinct (map fst (sc_tables sc))" and "core_db d" and "sd_schema d = Some sc"
  shows "\<exists>d'. delete_user_body spec_adapter (Some sc) i d = (d', Inr ()) \<and>
    (\<forall>m. sd_rows d' m = filter (\<lambda>r. \<not> belongs_to sc i m r) (sd_rows d m))"
  using delete_user_columns[OF assms, of i] by (auto simp: belongs_to_iff)


lemma core_distinct: "distinct (map fst (sc_tables core_schema))"
  by (simp add: core_schema_def add_table_def new_schema_def core_tables model_names gput_def)

text \<open>A plugin's table with two columns that reference the user, the author's first.\<close>

definition note_schema :: schema where
  "note_schema = add_table \<lparr>tb_name = ''note'', tb_fields = [unique (required (col ''id'' FieldString)), col ''text'' FieldString,
      references_user (col ''author'' FieldString), references_user (col ''reader'' FieldString)], tb_uniques = []\<rparr> core_schema"

definition demo_note :: "string \<Rightarrow> string \<Rightarrow> string \<Rightarrow> grec" where
  "demo_note i a b = [(''id'', VStr i), (''author'', VStr a), (''reader'', VStr b)]"

definition demo_notes :: "request list" where
  "demo_notes = [RCreate model_user (user_to_map demo_user_row), RCreate ''note'' (demo_note ''n1'' ''u1'' ''u2''),
     RCreate ''note'' (demo_note ''n2'' ''u2'' ''u1'')]"


section \<open>Cleanup\<close>

definition expired_row :: "gtime \<Rightarrow> grec \<Rightarrow> bool" where
  "expired_row now row \<longleftrightarrow> (\<exists>t. rget row ''expiresAt'' = VTime t \<and> t \<le> now)"

text \<open>
  C15: \<open>CleanupExpired\<close> removes exactly the verifications and sessions whose expiry has
  passed, and reports how many there were.
\<close>

theorem cleanup_removes_expired:
  assumes "has_core_tables sc" and "mem_inv (Some sc) s"
    and "\<forall>row\<in>set (mem_rows s model_verification) \<union> set (mem_rows s model_session). \<exists>t. rget row ''expiresAt'' = VTime t"
    and "cleanup_expired mem_adapter now s = (s', r)"
  shows "r = Inr (length (filter (expired_row now) (mem_rows s model_verification)) + length (filter (expired_row now) (mem_rows s model_session)))
    \<and> mem_rows s' model_verification = filter (\<lambda>row. \<not> expired_row now row) (mem_rows s model_verification)
    \<and> mem_rows s' model_session = filter (\<lambda>row. \<not> expired_row now row) (mem_rows s model_session)
    \<and> (\<forall>m. m \<noteq> model_verification \<longrightarrow> m \<noteq> model_session \<longrightarrow> mem_rows s' m = mem_rows s m)"
proof -
  from mem_core[OF assms(1,2,4) mem.token_sims(7)] have core: "core_db (mem_abs s)"
    and run: "cleanup_expired spec_adapter now (mem_abs s) = (mem_abs s', r)" by auto
  have m1: "match_one row (W_op ''expiresAt'' OpLte (VTime now)) \<longleftrightarrow> expired_row now row"
    if row: "row \<in> set (mem_rows s model_verification) \<union> set (mem_rows s model_session)" for row
  proof -
    obtain t where t: "rget row ''expiresAt'' = VTime t" using bspec[OF assms(3) row] by blast
    have "match_one row (W_op ''expiresAt'' OpLte (VTime now)) \<longleftrightarrow> t < now \<or> t = now"
      by (simp add: match_one_def t val_compare_def cmp_op_def)
    moreover have "expired_row now row \<longleftrightarrow> t \<le> now" by (simp add: expired_row_def t)
    ultimately show ?thesis by linarith
  qed
  have del: "spec_delete_many m [W_op ''expiresAt'' OpLte (VTime now)] d =
      (set_rows m (filter (\<lambda>row. \<not> expired_row now row) (sd_rows d m)) d, Inr (length (filter (expired_row now) (sd_rows d m))))"
    if "sd_table d m = Some t" "has_field t ''expiresAt''"
      "\<And>row. row \<in> set (sd_rows d m) \<Longrightarrow> match_one row (W_op ''expiresAt'' OpLte (VTime now)) \<longleftrightarrow> expired_row now row" for d m t
    using that by (simp add: spec_delete_many_def check_where_fields_def unknown_keys_def cong: filter_cong)
  let ?d1 = "set_rows model_verification (filter (\<lambda>row. \<not> expired_row now row) (mem_rows s model_verification)) (mem_abs s)"
  have s1: "spec_delete_many model_verification [W_op ''expiresAt'' OpLte (VTime now)] (mem_abs s) =
      (?d1, Inr (length (filter (expired_row now) (mem_rows s model_verification))))"
    using del[of "mem_abs s" model_verification verification_table] core m1 by (simp add: core_db_def core_store_def)
  have s2: "spec_delete_many model_session [W_op ''expiresAt'' OpLte (VTime now)] ?d1 =
      (set_rows model_session (filter (\<lambda>row. \<not> expired_row now row) (mem_rows s model_session)) ?d1,
       Inr (length (filter (expired_row now) (mem_rows s model_session))))"
    using del[of ?d1 model_session session_table] core m1 by (simp add: core_db_def model_names)
  have s': "mem_abs s' = set_rows model_session (filter (\<lambda>row. \<not> expired_row now row) (mem_rows s model_session)) ?d1"
    and r: "r = Inr (length (filter (expired_row now) (mem_rows s model_verification)) + length (filter (expired_row now) (mem_rows s model_session)))"
    using run s1 s2 by (auto simp: cleanup_expired_def bind_def)
  have "mem_rows s' = sd_rows (mem_abs s')" by simp
  also have "\<dots> = (mem_rows s)(model_verification := filter (\<lambda>row. \<not> expired_row now row) (mem_rows s model_verification),
      model_session := filter (\<lambda>row. \<not> expired_row now row) (mem_rows s model_session))"
    unfolding s' by simp
  finally show ?thesis using r by (simp add: model_names)
qed

lemma cleanup_removes_expired_witness:
  "snd (cleanup_expired mem_adapter (hours 2) (demo_state 0 (hours 1))) = Inr 1"
proof -
  note st = demo_state_facts[of 0 "hours 1"]
  obtain s' r where c: "cleanup_expired mem_adapter (hours 2) (demo_state 0 (hours 1)) = (s', r)" by force
  have row: "rget (session_to_map (demo_session 0 (hours 1))) ''expiresAt'' = VTime (hours 1)"
    by (simp add: session_to_map_def demo_session_def rget_def)
  show ?thesis
    using cleanup_removes_expired[OF core_schema_tables conjunct1[OF st] _ c] st row c
    by (simp add: expired_row_def hours_def seconds_def nsec_per_sec_def)
qed

end
