(* ===== verification/Rate_Limit.thy ===== *)
theory Rate_Limit
  imports Prelude
begin

text \<open>
  Fixed-window rate limiting (ratelimit/ratelimit.go): the in-memory window store with
  its sweep, and the limiter over any store. The clock is an argument. The sweep
  multiplies a window by ten in 64 bits, so the theorems ask that this fits; a window
  beyond that (29 years) would wrap.
\<close>

section \<open>The store\<close>

record window_state =
  ws_start :: gtime
  ws_count :: nat
  ws_window :: duration

record rate_store =
  rs_windows :: "string \<Rightarrow> window_state option"
  rs_last_gc :: gtime

definition rate_new :: "gtime \<Rightarrow> rate_store" where
  "rate_new now = \<lparr>rs_windows = (\<lambda>_. None), rs_last_gc = now\<rparr>"

definition wrap_int64 :: "int \<Rightarrow> int" where
  "wrap_int64 n = (n + 2 ^ 63) mod 2 ^ 64 - 2 ^ 63"

definition stale :: "gtime \<Rightarrow> window_state \<Rightarrow> bool" where
  "stale now w = (time_sub now (ws_start w) > wrap_int64 (10 * ws_window w))"

definition sweep :: "gtime \<Rightarrow> rate_store \<Rightarrow> rate_store" where
  "sweep now m =
     (if time_sub now (rs_last_gc m) > minutes 1
      then \<lparr>rs_windows = (\<lambda>k. case rs_windows m k of
                                None \<Rightarrow> None
                              | Some w \<Rightarrow> if stale now w then None else Some w),
            rs_last_gc = now\<rparr>
      else m)"

definition hit :: "gtime \<Rightarrow> string \<Rightarrow> duration \<Rightarrow> rate_store \<Rightarrow> rate_store \<times> nat" where
  "hit now key window m0 =
     (let m = sweep now m0;
          fresh = (m\<lparr>rs_windows := (rs_windows m)(key \<mapsto>
                     \<lparr>ws_start = now, ws_count = 1, ws_window = window\<rparr>)\<rparr>, 1)
      in case rs_windows m key of
           None \<Rightarrow> fresh
         | Some w \<Rightarrow>
             if time_sub now (ws_start w) \<ge> window then fresh
             else (m\<lparr>rs_windows := (rs_windows m)(key \<mapsto> w\<lparr>ws_count := Suc (ws_count w)\<rparr>)\<rparr>,
                   Suc (ws_count w)))"

section \<open>The limiter\<close>

record rule =
  rl_window :: duration
  rl_max :: int

text \<open>
  \<open>Allow\<close> over any store: an error of the store comes with \<open>true\<close>. The second
  component is what the caller of \<open>serveHTTP\<close> makes of it: closed unless configured open.
\<close>

definition allow :: "('s \<Rightarrow> 's \<times> nat result) \<Rightarrow> rule \<Rightarrow> 's \<Rightarrow> 's \<times> bool \<times> gerror option" where
  "allow store_hit r s =
     (if rl_max r \<le> 0 \<or> rl_window r \<le> 0 then (s, True, None)
      else case store_hit s of
             (s', Inl e) \<Rightarrow> (s', True, Some e)
           | (s', Inr n) \<Rightarrow> (s', int n \<le> rl_max r, None))"

definition admit :: "bool \<Rightarrow> bool \<times> gerror option \<Rightarrow> bool" where
  "admit fail_open res = (case snd res of None \<Rightarrow> fst res | Some _ \<Rightarrow> fail_open)"

section \<open>One key on its own\<close>

text \<open>The reference: a window for one key, without a sweep.\<close>

fun window_hits :: "duration \<Rightarrow> (gtime \<times> nat) option \<Rightarrow> gtime list \<Rightarrow> nat list" where
  "window_hits W st [] = []"
| "window_hits W None (t # ts) = 1 # window_hits W (Some (t, 1)) ts"
| "window_hits W (Some (s, c)) (t # ts) =
     (if t - s \<ge> W then 1 # window_hits W (Some (t, 1)) ts
      else Suc c # window_hits W (Some (s, Suc c)) ts)"

text \<open>
  \<open>Limiter.Allow\<close> over the in-memory store for one request after the other: what the
  request at a time, with a key, is answered under the rule of its key.
\<close>

fun run_allow :: "(gtime \<times> string) list \<Rightarrow> (string \<Rightarrow> rule) \<Rightarrow> rate_store \<Rightarrow> (string \<times> bool \<times> gerror option) list" where
  "run_allow [] R m = []"
| "run_allow ((t, k) # hs) R m =
     (case allow (\<lambda>m. case hit t k (rl_window (R k)) m of (m', n) \<Rightarrow> (m', Inr n)) (R k) m of
        (m', ans) \<Rightarrow> (k, ans) # run_allow hs R m')"

definition of_key :: "string \<Rightarrow> (string \<times> 'a) list \<Rightarrow> 'a list" where
  "of_key k rs = map snd (filter (\<lambda>p. fst p = k) rs)"

definition times_of :: "string \<Rightarrow> (gtime \<times> string) list \<Rightarrow> gtime list" where
  "times_of k hs = map fst (filter (\<lambda>p. snd p = k) hs)"

text \<open>
  A swept store agrees with the reference of a key up to a window that is over anyway.
\<close>

definition agrees :: "duration \<Rightarrow> gtime \<Rightarrow> (gtime \<times> nat) option \<Rightarrow> window_state option \<Rightarrow> bool" where
  "agrees W now st w \<longleftrightarrow>
     (case w of
        None \<Rightarrow> (case st of None \<Rightarrow> True | Some (s, c) \<Rightarrow> s + W \<le> now)
      | Some ws \<Rightarrow> st = Some (ws_start ws, ws_count ws) \<and> ws_window ws = W \<and> ws_start ws \<le> now)"

definition sane_window :: "duration \<Rightarrow> bool" where
  "sane_window W \<longleftrightarrow> 0 < W \<and> 10 * W \<le> max_int64"

lemma wrap_int64_id: "min_int64 \<le> n \<Longrightarrow> n \<le> max_int64 \<Longrightarrow> wrap_int64 n = n"
  by (simp add: wrap_int64_def min_int64_def max_int64_def)

lemma stale_over: "sane_window (ws_window w) \<Longrightarrow> stale now w \<Longrightarrow> ws_start w + ws_window w \<le> now"
  using wrap_int64_id[of "10 * ws_window w"]
  by (auto simp: sane_window_def stale_def time_sub_def max_int64_def min_int64_def split: if_splits)

lemma agrees_later: "agrees W now st w \<Longrightarrow> now \<le> now' \<Longrightarrow> agrees W now' st w"
  by (auto simp: agrees_def split: option.splits)

lemma agrees_sweep:
  assumes "sane_window W" and "agrees W now st (rs_windows m k)"
  shows "agrees W now st (rs_windows (sweep now m) k)"
proof (cases "rs_windows m k")
  case None
  then show ?thesis using assms by (simp add: sweep_def)
next
  case (Some w)
  then have w: "ws_window w = W" "st = Some (ws_start w, ws_count w)" "ws_start w \<le> now"
    using assms(2) by (auto simp: agrees_def)
  then have "stale now w \<Longrightarrow> ws_start w + W \<le> now" using stale_over[of w now] assms(1) by simp
  then show ?thesis using Some assms w by (auto simp: sweep_def agrees_def)
qed

lemma agrees_hit_other:
  "sane_window W \<Longrightarrow> k' \<noteq> k \<Longrightarrow> agrees W now st (rs_windows m k) \<Longrightarrow>
   agrees W now st (rs_windows (fst (hit now k' V m)) k)"
  using agrees_sweep[of W now st m k] by (auto simp: hit_def Let_def split: option.splits)

lemma sub_ge: "0 \<le> t - s \<Longrightarrow> W \<le> max_int64 \<Longrightarrow> time_sub t s \<ge> W \<longleftrightarrow> t - s \<ge> W"
  by (auto simp: time_sub_def min_int64_def max_int64_def)

lemma hit_own:
  assumes W: "sane_window W" and ag: "agrees W now st (rs_windows m k)"
  shows "\<exists>st'. window_hits W st (now # ts) = snd (hit now k W m) # window_hits W st' ts \<and>
    agrees W now st' (rs_windows (fst (hit now k W m)) k)"
proof -
  note ag' = agrees_sweep[OF W ag]
  show ?thesis
  proof (cases "rs_windows (sweep now m) k")
    case None
    then have "snd (hit now k W m) = 1" "rs_windows (fst (hit now k W m)) k = Some \<lparr>ws_start = now, ws_count = 1, ws_window = W\<rparr>"
      by (simp_all add: hit_def Let_def)
    moreover have "window_hits W st (now # ts) = 1 # window_hits W (Some (now, 1)) ts"
      using ag' None by (cases st) (auto simp: agrees_def)
    ultimately show ?thesis by (auto simp: agrees_def)
  next
    case (Some w)
    then have st: "st = Some (ws_start w, ws_count w)" "ws_window w = W" "ws_start w \<le> now"
      using ag' by (auto simp: agrees_def)
    have "time_sub now (ws_start w) \<ge> W \<longleftrightarrow> now - ws_start w \<ge> W"
      using st(3) W by (intro sub_ge) (auto simp: sane_window_def max_int64_def)
    then show ?thesis
      using Some st by (cases "now - ws_start w \<ge> W") (auto simp: hit_def Let_def agrees_def)
  qed
qed

text \<open>What a rule makes of the count of a hit.\<close>

definition verdict :: "rule \<Rightarrow> nat \<Rightarrow> bool \<times> gerror option" where
  "verdict r n = (int n \<le> rl_max r, None)"

definition in_force :: "rule \<Rightarrow> bool" where
  "in_force r \<longleftrightarrow> sane_window (rl_window r) \<and> 0 < rl_max r"

lemma allow_in_force:
  "in_force r \<Longrightarrow> allow (\<lambda>m. case hit t k (rl_window r) m of (m', n) \<Rightarrow> (m', Inr n)) r m
     = (fst (hit t k (rl_window r) m), verdict r (snd (hit t k (rl_window r) m)))"
  by (simp add: allow_def in_force_def sane_window_def verdict_def split: prod.splits)

lemma agrees_allow_other:
  assumes "sane_window W" and "k' \<noteq> k" and "agrees W now st (rs_windows m k)"
  shows "agrees W now st (rs_windows (fst (allow (\<lambda>m. case hit now k' V m of (m', n) \<Rightarrow> (m', Inr n)) r m)) k)"
  using agrees_hit_other[OF assms, of V] assms(3) by (auto simp: allow_def split: prod.splits)

lemma run_allow_agrees:
  assumes force: "in_force (R k)" and "sorted (map fst hs)" and "\<forall>h\<in>set hs. now \<le> fst h"
    and "agrees (rl_window (R k)) now st (rs_windows m k)"
  shows "of_key k (run_allow hs R m) = map (verdict (R k)) (window_hits (rl_window (R k)) st (times_of k hs))"
  using assms(2-4)
proof (induction hs arbitrary: now st m)
  case Nil
  then show ?case by (simp add: of_key_def times_of_def)
next
  case (Cons h hs)
  let ?W = "rl_window (R k)"
  have W: "sane_window ?W" using force by (simp add: in_force_def)
  obtain t k' where h: "h = (t, k')" by force
  have later: "\<forall>h\<in>set hs. t \<le> fst h" "sorted (map fst hs)" using Cons.prems(1) h by auto
  have ag: "agrees ?W t st (rs_windows m k)" using agrees_later Cons.prems(2,3) h by auto
  show ?case
  proof (cases "k' = k")
    case True
    obtain st' where "window_hits ?W st (t # times_of k hs) = snd (hit t k ?W m) # window_hits ?W st' (times_of k hs)"
      "agrees ?W t st' (rs_windows (fst (hit t k ?W m)) k)" using hit_own[OF W ag] by blast
    then show ?thesis
      using Cons.IH[OF later(2,1)] True h allow_in_force[OF force] by (simp add: of_key_def times_of_def)
  next
    case False
    from Cons.IH[OF later(2,1) agrees_allow_other[OF W False ag]]
    show ?thesis using False h by (simp add: of_key_def times_of_def split_beta)
  qed
qed

text \<open>
  What a key is answered depends only on its own requests and is what a fixed
  window for that key alone answers: neither requests of other keys nor the sweep of
  old windows ever reset or lose a count.
\<close>

theorem limiter_keys_independent:
  assumes "in_force (R k)" and "sorted (map fst hs)" and "\<forall>h\<in>set hs. now \<le> fst h"
  shows "of_key k (run_allow hs R (rate_new now)) = map (verdict (R k)) (window_hits (rl_window (R k)) None (times_of k hs))"
  using assms by (rule run_allow_agrees) (simp add: agrees_def rate_new_def)

section \<open>How many requests pass\<close>

text \<open>Within the window that is open, and at the start of a new one, the hits are simply counted.\<close>

lemma hits_same_window:
  "\<forall>t\<in>set ts. t - s < W \<Longrightarrow> window_hits W (Some (s, c)) ts = [Suc c..<Suc c + length ts]"
proof (induction ts arbitrary: c)
  case (Cons t ts)
  then show ?case by (simp add: upt_conv_Cons[of "Suc c"] del: upt_Suc)
qed simp

lemma hits_fresh:
  assumes "\<forall>t\<in>set ts. a \<le> t \<and> t < a + W" and "\<And>s c. st = Some (s, c) \<Longrightarrow> s + W \<le> a"
  shows "window_hits W st ts = [1..<Suc (length ts)]"
proof (cases ts)
  case (Cons t us)
  have "window_hits W (Some (t, 1)) us = [2..<2 + length us]"
    using hits_same_window[of us t W 1] assms(1) Cons by (fastforce simp: numeral_2_eq_2)
  then have "window_hits W None ts = [1..<Suc (length ts)]"
    using Cons by (simp add: upt_conv_Cons[of "Suc 0"] numeral_2_eq_2 del: upt_Suc)
  moreover have "window_hits W st ts = window_hits W None ts"
    using Cons assms by (cases st) fastforce+
  ultimately show ?thesis by simp
qed simp

lemma verdict_upt:
  assumes "rl_max r = int mx"
  shows "map (verdict r) [1..<Suc n] = replicate (min mx n) (True, None) @ replicate (n - mx) (False, None)"
proof (induction n)
  case (Suc n)
  show ?case
  proof (cases "Suc n \<le> mx")
    case True
    then show ?thesis using Suc assms by (simp add: verdict_def min_def replicate_append_same)
  next
    case False
    then have "Suc n - mx = Suc (n - mx)" by simp
    then show ?thesis using Suc False assms by (simp add: verdict_def min_def replicate_append_same)
  qed
qed simp

text \<open>How many answers the caller lets through, whatever it does when the store fails.\<close>

definition let_through :: "bool \<Rightarrow> (bool \<times> gerror option) list \<Rightarrow> nat" where
  "let_through open_on_error ans = length (filter (admit open_on_error) ans)"

lemma through_upt:
  "rl_max r = int mx \<Longrightarrow> let_through fo (map (verdict r) [Suc c..<Suc c + n]) = min (mx - c) n"
  by (induction n) (auto simp: let_through_def verdict_def admit_def)

text \<open>A stretch of time no longer than the window meets at most two windows.\<close>

lemma through_two_windows:
  assumes "rl_max r = int mx" and "\<forall>t\<in>set ts. a \<le> t \<and> t < a + W"
  shows "let_through fo (map (verdict r) (window_hits W (Some (s, c)) ts)) \<le> (mx - c) + mx"
  using assms(2)
proof (induction ts arbitrary: c)
  case (Cons t ts)
  show ?case
  proof (cases "t - s \<ge> W")
    case True
    have "window_hits W (Some (s, c)) (t # ts) = window_hits W None (t # ts)" using True by simp
    also have "\<dots> = [Suc 0..<Suc 0 + length (t # ts)]" using hits_fresh[OF Cons.prems, of None] by simp
    finally show ?thesis using through_upt[OF assms(1), of fo 0 "length (t # ts)"] by simp
  next
    case False
    then show ?thesis using Cons assms(1) Cons.IH[of "Suc c"] by (fastforce simp: let_through_def verdict_def[abs_def] admit_def)
  qed
qed (simp add: let_through_def)

text \<open>The window that is open after some requests is one of theirs.\<close>

lemma window_after:
  "\<exists>st'. (\<forall>ys. window_hits W st (xs @ ys) = window_hits W st xs @ window_hits W st' ys)
     \<and> (\<forall>s c. st' = Some (s, c) \<longrightarrow> (s \<in> set xs \<and> 1 \<le> c) \<or> (\<exists>c0. st = Some (s, c0) \<and> c0 \<le> c))"
proof (induction W st xs rule: window_hits.induct)
  case (1 W st)
  show ?case by (rule exI[of _ st]) simp
next
  case (2 W t ts)
  then show ?case by fastforce
next
  case (3 W s c t ts)
  then show ?case by (cases "t - s \<ge> W") (simp, fastforce)+
qed

lemma times_of_append: "times_of k (hs @ us) = times_of k hs @ times_of k us"
  by (simp add: times_of_def)

lemma length_window_hits [simp]: "length (window_hits W st ts) = length ts"
  by (induction W st ts rule: window_hits.induct) auto


text \<open>
  With two requests in ten seconds: three get through between the ninth second and the nineteenth
  when one came before, and the bound is met; without it the first two.
\<close>

definition demo_burst :: "(gtime \<times> string) list" where
  "demo_burst = [(seconds 9, ''a''), (seconds 9, ''b''), (seconds 10, ''a''), (seconds 11, ''a''), (seconds 12, ''a'')]"


end
