(* ===== verification/Router.thy ===== *)
theory Router
  imports Rate_Limit Go_Values
begin

text \<open>
  The HTTP front door (router.go): the built-in route table, the route index and its
  lookup, and the request pipeline up to and after the handler. Handlers are the names
  the table gives them. The outcomes of the origin check, the limiter, the hooks and the
  handler are arguments of the pipeline, which returns the calls it makes, in order.
\<close>

section \<open>Routes\<close>

record route =
  rt_method :: string
  rt_path :: string
  rt_handler :: string
  rt_limit :: "rule option"
  rt_skip_origin :: bool

definition route :: "string \<Rightarrow> string \<Rightarrow> string \<Rightarrow> rule option \<Rightarrow> route" where
  "route m p h l = \<lparr>rt_method = m, rt_path = p, rt_handler = h, rt_limit = l, rt_skip_origin = False\<rparr>"

definition strict_rule :: rule where "strict_rule = \<lparr>rl_window = seconds 10, rl_max = 3\<rparr>"
definition moderate_rule :: rule where "moderate_rule = \<lparr>rl_window = seconds 10, rl_max = 5\<rparr>"

record route_config =
  rc_email_password :: bool
  rc_send_verification :: bool
  rc_change_email :: bool
  rc_delete_user :: bool

abbreviation getr where "getr p h l \<equiv> route ''GET'' p h l"
abbreviation postr where "postr p h l \<equiv> route ''POST'' p h l"

definition core_routes :: "route_config \<Rightarrow> route list" where
  "core_routes cfg =
     [getr ''/ok'' ''ok'' None,
      getr ''/error'' ''error'' None,
      getr ''/get-session'' ''handleGetSession'' None,
      postr ''/sign-out'' ''handleSignOut'' None,
      getr ''/list-sessions'' ''handleListSessions'' None,
      postr ''/revoke-session'' ''handleRevokeSession'' None,
      postr ''/revoke-sessions'' ''handleRevokeSessions'' None,
      postr ''/revoke-other-sessions'' ''handleRevokeOtherSessions'' None,
      postr ''/sign-in/social'' ''handleSignInSocial'' (Some moderate_rule),
      postr ''/id-token/nonce'' ''handleIDTokenNonce'' (Some moderate_rule),
      (route ''*'' ''/callback/:provider'' ''handleOAuthCallback'' None)\<lparr>rt_skip_origin := True\<rparr>,
      postr ''/link-social'' ''handleLinkSocial'' None,
      postr ''/unlink-account'' ''handleUnlinkAccount'' None,
      getr ''/list-accounts'' ''handleListAccounts'' None,
      postr ''/refresh-token'' ''handleRefreshToken'' None,
      getr ''/account-info'' ''handleAccountInfo'' None,
      postr ''/update-user'' ''handleUpdateUser'' None]
     @ (if rc_email_password cfg then
          [postr ''/sign-up/email'' ''handleSignUpEmail'' (Some strict_rule),
           postr ''/sign-in/email'' ''handleSignInEmail'' (Some strict_rule),
           postr ''/forget-password'' ''handleForgetPassword'' (Some strict_rule),
           postr ''/request-password-reset'' ''handleForgetPassword'' (Some strict_rule),
           postr ''/reset-password'' ''handleResetPassword'' (Some strict_rule),
           getr ''/reset-password/:token'' ''handleResetPasswordRedirect'' (Some moderate_rule),
           postr ''/change-password'' ''handleChangePassword'' None,
           postr ''/set-password'' ''handleSetPassword'' (Some strict_rule)] else [])
     @ (if rc_send_verification cfg then
          [postr ''/send-verification-email'' ''handleSendVerificationEmail'' (Some strict_rule)] else [])
     @ [getr ''/verify-email'' ''handleVerifyEmail'' None,
        postr ''/verify-email'' ''handleVerifyEmailPost'' None]
     @ (if rc_change_email cfg then
          [postr ''/change-email'' ''handleChangeEmail'' (Some strict_rule)] else [])
     @ (if rc_delete_user cfg then
          [postr ''/delete-user'' ''handleDeleteUser'' (Some strict_rule),
           getr ''/delete-user/callback'' ''handleDeleteUserConfirm'' None,
           postr ''/delete-user/callback'' ''handleDeleteUserCallback'' None] else [])"

section \<open>The index\<close>

record route_index =
  ri_static :: "route gmap gmap"
  ri_dynamic :: "route list"

definition is_dynamic :: "route \<Rightarrow> bool" where
  "is_dynamic r = str_contains (rt_path r) '':''"

definition by_method :: "route_index \<Rightarrow> string \<Rightarrow> route gmap" where
  "by_method ix p = (case map_of (ri_static ix) p of None \<Rightarrow> [] | Some g \<Rightarrow> g)"

definition index_route :: "route_index \<Rightarrow> route \<Rightarrow> route_index" where
  "index_route ix r =
     (if is_dynamic r then ix\<lparr>ri_dynamic := ri_dynamic ix @ [r]\<rparr>
      else ix\<lparr>ri_static := gput (ri_static ix) (rt_path r) (gput (by_method ix (rt_path r)) (rt_method r) r)\<rparr>)"

definition build_route_index :: "route list \<Rightarrow> route_index" where
  "build_route_index rs = foldl index_route \<lparr>ri_static = [], ri_dynamic = []\<rparr> rs"

section \<open>Matching\<close>

fun match_segments :: "string list \<Rightarrow> string list \<Rightarrow> string gmap \<Rightarrow> string gmap option" where
  "match_segments [] [] ps = Some ps"
| "match_segments (p # pp) (s # sp) ps =
     (if has_prefix p '':'' then
        (if s = '''' then None else match_segments pp sp (gput ps (drop 1 p) s))
      else if p \<noteq> s then None
      else match_segments pp sp ps)"
| "match_segments _ _ ps = None"

definition match_path :: "string \<Rightarrow> string \<Rightarrow> string gmap option" where
  "match_path pattern path =
     (if \<not> str_contains pattern '':'' then (if pattern = path then Some [] else None)
      else (let pp = str_split (CHR ''/'') pattern; sp = str_split (CHR ''/'') path
            in if length pp \<noteq> length sp then None else match_segments pp sp []))"

fun match_dynamic :: "route list \<Rightarrow> string \<Rightarrow> string \<Rightarrow> (route \<times> string gmap) option" where
  "match_dynamic [] m p = None"
| "match_dynamic (r # rs) m p =
     (case match_path (rt_path r) p of
        None \<Rightarrow> match_dynamic rs m p
      | Some ps \<Rightarrow> if rt_method r = m \<or> rt_method r = ''*'' then Some (r, ps) else match_dynamic rs m p)"

definition match_route :: "route_index \<Rightarrow> string \<Rightarrow> string \<Rightarrow> (route \<times> string gmap) option" where
  "match_route ix m p =
     (case map_of (by_method ix p) m of
        Some r \<Rightarrow> Some (r, [])
      | None \<Rightarrow>
          (case map_of (by_method ix p) ''*'' of
             Some r \<Rightarrow> Some (r, [])
           | None \<Rightarrow> match_dynamic (ri_dynamic ix) m p))"

definition allowed_methods :: "route_index \<Rightarrow> string \<Rightarrow> string list" where
  "allowed_methods ix p =
     stable_sort str_less
       (map (\<lambda>m. if m = ''*'' then ''GET, POST'' else m)
         (remdups (map fst (by_method ix p)) @
          map rt_method (filter (\<lambda>r. match_path (rt_path r) p \<noteq> None) (ri_dynamic ix))))"

section \<open>The pipeline\<close>

text \<open>The path below the base path, without a trailing slash, if it is below it.\<close>

definition relative_path :: "string \<Rightarrow> string \<Rightarrow> string option" where
  "relative_path base path =
     (if \<not> has_prefix path base then None
      else (let rel = trim_prefix path base;
                rel1 = (if rel = '''' then ''/'' else rel);
                rel2 = trim_suffix rel1 ''/''
            in Some (if rel2 = '''' then ''/'' else rel2)))"

record limit_config =
  lc_disabled :: bool
  lc_default :: rule
  lc_custom :: "rule gmap"
  lc_fail_open :: bool

definition limit_rule :: "limit_config \<Rightarrow> string \<Rightarrow> route \<Rightarrow> rule" where
  "limit_rule lc rel r =
     (case map_of (lc_custom lc) rel of
        Some custom \<Rightarrow> custom
      | None \<Rightarrow>
          (case map_of (lc_custom lc) (rt_path r) of
             Some custom \<Rightarrow> custom
           | None \<Rightarrow> (case rt_limit r of Some l \<Rightarrow> l | None \<Rightarrow> lc_default lc)))"

datatype call = CheckOrigin string string | Limit string rule | Before nat | Handler string | After nat

datatype reply = NotFoundPlain | MethodNotAllowed "string list" | NotFoundJson | Err gerror
  | HookReply | HandlerReply | HandlerOk

text \<open>A before hook: it may fail, and it may have written the response.\<close>

record http_env =
  or_origin :: "string \<Rightarrow> string \<Rightarrow> gerror option"
  or_client :: string
  or_limit :: "string \<Rightarrow> rule \<Rightarrow> bool \<times> gerror option"
  or_before :: "(gerror option \<times> bool) list"
  or_handler :: "string \<Rightarrow> string gmap \<Rightarrow> gerror option \<times> bool"
  or_after :: nat

definition rate_limited :: gerror where "rate_limited = ApiError 429 ''RATE_LIMITED''"

fun run_before :: "nat \<Rightarrow> (gerror option \<times> bool) list \<Rightarrow> call list \<times> reply option" where
  "run_before i [] = ([], None)"
| "run_before i ((e, written) # hs) =
     (case e of
        Some err \<Rightarrow> ([Before i], Some (Err err))
      | None \<Rightarrow> if written then ([Before i], Some HookReply)
                else (case run_before (Suc i) hs of (cs, r) \<Rightarrow> (Before i # cs, r)))"

definition run_handler :: "http_env \<Rightarrow> string \<Rightarrow> string gmap \<Rightarrow> call list \<times> reply" where
  "run_handler w h ps =
     (Handler h # map After [0..<or_after w],
      case or_handler w h ps of
        (Some e, written) \<Rightarrow> if written then HandlerReply else Err e
      | (None, written) \<Rightarrow> if written then HandlerReply else HandlerOk)"

definition run_limited :: "http_env \<Rightarrow> limit_config \<Rightarrow> string \<Rightarrow> route \<Rightarrow> call list \<times> reply option" where
  "run_limited w lc rel r =
     (if lc_disabled lc then ([], None)
      else (let key = or_client w @ '':'' @ rt_path r; rl = limit_rule lc rel r
            in case or_limit w key rl of
                 (_, Some e) \<Rightarrow> ([Limit key rl], if lc_fail_open lc then None else Some (Err rate_limited))
               | (ok, None) \<Rightarrow> ([Limit key rl], if ok then None else Some (Err rate_limited))))"

definition serve_route :: "http_env \<Rightarrow> limit_config \<Rightarrow> string \<Rightarrow> route \<Rightarrow> string gmap \<Rightarrow> call list \<times> reply" where
  "serve_route w lc rel r ps =
     (case (if rt_skip_origin r then ([], None)
            else ([CheckOrigin rel (rt_path r)], or_origin w rel (rt_path r))) of
        (c1, Some e) \<Rightarrow> (c1, Err e)
      | (c1, None) \<Rightarrow>
          (case run_limited w lc rel r of
             (c2, Some rep) \<Rightarrow> (c1 @ c2, rep)
           | (c2, None) \<Rightarrow>
               (case run_before 0 (or_before w) of
                  (c3, Some rep) \<Rightarrow> (c1 @ c2 @ c3, rep)
                | (c3, None) \<Rightarrow>
                    (case run_handler w (rt_handler r) ps of (c4, rep) \<Rightarrow> (c1 @ c2 @ c3 @ c4, rep)))))"

definition serve_http ::
  "http_env \<Rightarrow> limit_config \<Rightarrow> route_index \<Rightarrow> string \<Rightarrow> string \<Rightarrow> string \<Rightarrow> call list \<times> reply" where
  "serve_http w lc ix base m path =
     (case relative_path base path of
        None \<Rightarrow> ([], NotFoundPlain)
      | Some rel \<Rightarrow>
          (case match_route ix m rel of
             Some (r, ps) \<Rightarrow> serve_route w lc rel r ps
           | None \<Rightarrow>
               (case allowed_methods ix rel of
                  [] \<Rightarrow> ([], NotFoundJson)
                | ms \<Rightarrow> ([], MethodNotAllowed ms))))"

section \<open>The index answers for the table\<close>

text \<open>The last registration of a literal path and method, as the table says.\<close>

definition last_static :: "route list \<Rightarrow> string \<Rightarrow> string \<Rightarrow> route option" where
  "last_static rs p m = find (\<lambda>r. \<not> is_dynamic r \<and> rt_path r = p \<and> rt_method r = m) (rev rs)"

lemma build_snoc: "build_route_index (rs @ [r]) = index_route (build_route_index rs) r"
  by (simp add: build_route_index_def)

lemma by_method_index:
  "by_method (index_route ix r) p =
     (if is_dynamic r \<or> rt_path r \<noteq> p then by_method ix p else gput (by_method ix p) (rt_method r) r)"
  by (auto simp: index_route_def by_method_def)

lemma static_build: "map_of (by_method (build_route_index rs) p) m = last_static rs p m"
proof (induction rs rule: rev_induct)
  case Nil
  then show ?case by (simp add: build_route_index_def by_method_def last_static_def)
next
  case (snoc r rs)
  then show ?case by (auto simp: build_snoc by_method_index last_static_def)
qed

lemma dynamic_build: "ri_dynamic (build_route_index rs) = filter is_dynamic rs"
  by (induction rs rule: rev_induct) (auto simp: build_snoc index_route_def build_route_index_def)

lemma last_static_Some:
  "last_static rs p m = Some r \<Longrightarrow> r \<in> set rs \<and> \<not> is_dynamic r \<and> rt_path r = p \<and> rt_method r = m"
  unfolding last_static_def find_Some_iff by (metis nth_mem set_rev)

lemma last_static_None: "last_static rs p m = None \<longleftrightarrow> \<not> (\<exists>r\<in>set rs. \<not> is_dynamic r \<and> rt_path r = p \<and> rt_method r = m)"
  by (auto simp: last_static_def find_None_iff)

lemma match_path_static: "\<not> is_dynamic r \<Longrightarrow> match_path (rt_path r) p = (if rt_path r = p then Some [] else None)"
  by (simp add: is_dynamic_def match_path_def)

lemma match_dynamic_Some:
  "match_dynamic rs m p = Some (r, ps) \<Longrightarrow>
   r \<in> set rs \<and> match_path (rt_path r) p = Some ps \<and> (rt_method r = m \<or> rt_method r = ''*'')"
  by (induction rs) (auto split: option.splits if_splits)

lemma match_dynamic_None:
  "match_dynamic rs m p = None \<longleftrightarrow>
   (\<forall>r\<in>set rs. match_path (rt_path r) p = None \<or> (rt_method r \<noteq> m \<and> rt_method r \<noteq> ''*''))"
  by (induction rs) (auto split: option.splits)

text \<open>Which routes of a table a request may be given to.\<close>

definition applies :: "string \<Rightarrow> string \<Rightarrow> route \<Rightarrow> bool" where
  "applies m p r \<longleftrightarrow> match_path (rt_path r) p \<noteq> None \<and> (rt_method r = m \<or> rt_method r = ''*'')"

text \<open>
  When a route of the table wins a request: it applies; a literal route is the last one registered for the
  path and its method, and one for any method only stands in when none names the method; a parameterised route
  is the first that applies, when no literal one does.
\<close>

definition wins :: "string \<Rightarrow> string \<Rightarrow> route list \<Rightarrow> route \<Rightarrow> route list \<Rightarrow> bool" where
  "wins m p pre r post \<longleftrightarrow> applies m p r \<and>
     (if is_dynamic r
      then (\<forall>q\<in>set pre. \<not> applies m p q) \<and> (\<forall>q\<in>set post. applies m p q \<longrightarrow> is_dynamic q)
      else (\<forall>q\<in>set post. rt_path q = p \<longrightarrow> rt_method q \<noteq> rt_method r)
        \<and> (rt_method r = m \<or> (\<forall>q\<in>set pre \<union> set post. rt_path q = p \<longrightarrow> rt_method q \<noteq> m)))"

lemma applies_static: "\<not> is_dynamic q \<Longrightarrow> applies m p q \<longleftrightarrow> rt_path q = p \<and> (rt_method q = m \<or> rt_method q = ''*'')"
  using match_path_static[of q p] by (simp add: applies_def)

lemma no_static_applies:
  "(\<forall>q\<in>set rs. applies m p q \<longrightarrow> is_dynamic q) \<longleftrightarrow> last_static rs p m = None \<and> last_static rs p ''*'' = None"
  using applies_static[of _ m p] unfolding last_static_None by blast

lemma last_static_split:
  "last_static rs p m = Some r \<longleftrightarrow> (\<exists>pre post. rs = pre @ r # post \<and> \<not> is_dynamic r \<and> rt_path r = p \<and> rt_method r = m
     \<and> (\<forall>q\<in>set post. rt_path q = p \<longrightarrow> rt_method q \<noteq> m))"
  unfolding last_static_def find_last_iff by (rule arg_cong[of _ _ Ex], rule ext, rule arg_cong[of _ _ Ex], rule ext) (auto simp: is_dynamic_def)

lemma first_dynamic_split:
  "match_dynamic (filter is_dynamic rs) m p = Some (r, ps) \<longleftrightarrow>
   (\<exists>pre post. rs = pre @ r # post \<and> is_dynamic r \<and> applies m p r \<and> match_path (rt_path r) p = Some ps
     \<and> (\<forall>q\<in>set pre. is_dynamic q \<longrightarrow> \<not> applies m p q))"
proof -
  have "match_dynamic qs m p = map_option (\<lambda>r. (r, the (match_path (rt_path r) p))) (find (applies m p) qs)" for qs
    by (induction qs) (auto simp: applies_def split: option.splits)
  moreover have "find (applies m p) (filter is_dynamic rs) = find (\<lambda>q. is_dynamic q \<and> applies m p q) rs"
    by (induction rs) auto
  ultimately have "match_dynamic (filter is_dynamic rs) m p = Some (r, ps) \<longleftrightarrow>
      find (\<lambda>q. is_dynamic q \<and> applies m p q) rs = Some r \<and> ps = the (match_path (rt_path r) p)" by auto
  then show ?thesis unfolding find_first_iff by (auto simp: applies_def)
qed

lemma match_route_cases:
  "match_route (build_route_index rs) m p = Some (r, ps) \<longleftrightarrow>
     (last_static rs p m = Some r \<and> ps = []) \<or> (last_static rs p m = None \<and> last_static rs p ''*'' = Some r \<and> ps = [])
     \<or> (last_static rs p m = None \<and> last_static rs p ''*'' = None \<and> match_dynamic (filter is_dynamic rs) m p = Some (r, ps))"
  by (auto simp: match_route_def static_build dynamic_build split: option.splits)

lemma static_wins:
  assumes "\<not> is_dynamic r"
  shows "(last_static rs p m = Some r \<or> last_static rs p m = None \<and> last_static rs p ''*'' = Some r)
    \<longleftrightarrow> (\<exists>pre post. rs = pre @ r # post \<and> wins m p pre r post)"
proof -
  have dyn: "rt_path q = p \<Longrightarrow> rt_path r = p \<Longrightarrow> \<not> is_dynamic q" for q using assms by (simp add: is_dynamic_def)
  have none: "rt_path r = p \<Longrightarrow> last_static rs p m = None \<longleftrightarrow> (\<forall>q\<in>set rs. rt_path q = p \<longrightarrow> rt_method q \<noteq> m)"
    using dyn by (auto simp: last_static_None)
  show ?thesis
  proof
    assume L: "last_static rs p m = Some r \<or> last_static rs p m = None \<and> last_static rs p ''*'' = Some r"
    then obtain x where x: "last_static rs p x = Some r" "x = m \<or> x = ''*'' \<and> last_static rs p m = None" by blast
    then obtain pre post where rs: "rs = pre @ r # post" and r: "rt_path r = p" "rt_method r = x"
      "\<forall>q\<in>set post. rt_path q = p \<longrightarrow> rt_method q \<noteq> x" unfolding last_static_split by blast
    have "x = m \<or> (\<forall>q\<in>set rs. rt_path q = p \<longrightarrow> rt_method q \<noteq> m)" using x(2) none[OF r(1)] by blast
    then have "wins m p pre r post" using r x(2) rs assms by (auto simp: wins_def applies_static)
    then show "\<exists>pre post. rs = pre @ r # post \<and> wins m p pre r post" using rs by blast
  next
    assume "\<exists>pre post. rs = pre @ r # post \<and> wins m p pre r post"
    then obtain pre post where rs: "rs = pre @ r # post" and w: "wins m p pre r post" by blast
    then have a: "rt_path r = p" "rt_method r = m \<or> rt_method r = ''*''" using assms by (simp_all add: wins_def applies_static)
    have "last_static rs p (rt_method r) = Some r" using w assms a(1) rs by (auto simp: last_static_split wins_def)
    moreover have "rt_method r \<noteq> m \<Longrightarrow> last_static rs p m = None" using w assms a(1) rs none by (auto simp: wins_def)
    ultimately show "last_static rs p m = Some r \<or> last_static rs p m = None \<and> last_static rs p ''*'' = Some r" using a(2) by metis
  qed
qed

lemma dynamic_wins:
  assumes "is_dynamic r"
  shows "(last_static rs p m = None \<and> last_static rs p ''*'' = None \<and> match_dynamic (filter is_dynamic rs) m p = Some (r, ps))
    \<longleftrightarrow> (\<exists>pre post. rs = pre @ r # post \<and> wins m p pre r post \<and> match_path (rt_path r) p = Some ps)"
proof -
  have w: "wins m p pre r post \<longleftrightarrow> (\<forall>q\<in>set rs. applies m p q \<longrightarrow> is_dynamic q) \<and> applies m p r
      \<and> (\<forall>q\<in>set pre. is_dynamic q \<longrightarrow> \<not> applies m p q)" if "rs = pre @ r # post" for pre post
    unfolding wins_def that using assms by auto
  note none = no_static_applies[of rs m p]
  show ?thesis
  proof
    assume L: "last_static rs p m = None \<and> last_static rs p ''*'' = None \<and> match_dynamic (filter is_dynamic rs) m p = Some (r, ps)"
    then obtain pre post where s: "rs = pre @ r # post" "match_path (rt_path r) p = Some ps"
      and "applies m p r" "\<forall>q\<in>set pre. is_dynamic q \<longrightarrow> \<not> applies m p q" unfolding first_dynamic_split by (elim conjE exE)
    then have "wins m p pre r post" using w[OF s(1)] none L by (simp only: simp_thms)
    with s show "\<exists>pre post. rs = pre @ r # post \<and> wins m p pre r post \<and> match_path (rt_path r) p = Some ps" by (intro exI conjI)
  next
    assume "\<exists>pre post. rs = pre @ r # post \<and> wins m p pre r post \<and> match_path (rt_path r) p = Some ps"
    then obtain pre post where s: "rs = pre @ r # post" and won: "wins m p pre r post" "match_path (rt_path r) p = Some ps" by (elim conjE exE)
    note x = iffD1[OF w[OF s] won(1)]
    have "match_dynamic (filter is_dynamic rs) m p = Some (r, ps)"
      unfolding first_dynamic_split using s assms x[THEN conjunct2] won(2) by - (rule exI[of _ pre], rule exI[of _ post], elim conjE, intro conjI)
    then show "last_static rs p m = None \<and> last_static rs p ''*'' = None \<and> match_dynamic (filter is_dynamic rs) m p = Some (r, ps)"
      using none x[THEN conjunct1] by (simp only: simp_thms)
  qed
qed

text \<open>
  C10: the route index is faithful to the route table. A request is matched exactly when
  some route of the table has its method (or any method) and a pattern for its path, and
  then by the one the table says wins, with the parameters of its pattern: of literal routes the last one
  registered, one for the method itself before one for any method, and of parameterised routes, which come
  after every literal one, the first. The methods of a 405 answer are those registered for the path.
\<close>

theorem route_index_faithful:
  shows "(match_route (build_route_index rs) m p = Some (r, ps) \<longleftrightarrow>
      (\<exists>pre post. rs = pre @ r # post \<and> wins m p pre r post \<and> match_path (rt_path r) p = Some ps))
    \<and> (match_route (build_route_index rs) m p = None \<longleftrightarrow> \<not> (\<exists>q\<in>set rs. applies m p q))
    \<and> set (allowed_methods (build_route_index rs) p) =
        (\<lambda>q. if rt_method q = ''*'' then ''GET, POST'' else rt_method q) ` {q \<in> set rs. match_path (rt_path q) p \<noteq> None}"
proof (intro conjI)
  have "last_static rs p x = Some r \<Longrightarrow> \<not> is_dynamic r \<and> match_path (rt_path r) p = Some []" for x
    using last_static_Some[of rs p x r] match_path_static[of r p] by simp
  moreover have "wins m p pre r post \<Longrightarrow> \<not> is_dynamic r \<Longrightarrow> match_path (rt_path r) p = Some []" for pre post
    using match_path_static[of r p] by (simp add: wins_def applies_static)
  moreover have "match_dynamic (filter is_dynamic rs) m p = Some (r, ps) \<Longrightarrow> is_dynamic r"
    by (auto simp: first_dynamic_split)
  ultimately show "match_route (build_route_index rs) m p = Some (r, ps) \<longleftrightarrow>
      (\<exists>pre post. rs = pre @ r # post \<and> wins m p pre r post \<and> match_path (rt_path r) p = Some ps)"
    unfolding match_route_cases using static_wins[of r rs p m] dynamic_wins[of r rs p m ps]
    by (cases "is_dynamic r"; (simp; fail)?) (safe; simp?; blast)+
next
  have "match_dynamic (filter is_dynamic rs) m p = None \<longleftrightarrow> \<not> (\<exists>q\<in>set rs. applies m p q \<and> is_dynamic q)"
    by (auto simp: match_dynamic_None applies_def)
  then show "match_route (build_route_index rs) m p = None \<longleftrightarrow> \<not> (\<exists>q\<in>set rs. applies m p q)"
    using no_static_applies[of rs m p] by (auto simp: match_route_def static_build dynamic_build split: option.splits)
next
  have "fst ` set (by_method (build_route_index rs) p) = {x. last_static rs p x \<noteq> None}"
    using static_build[of rs p] by (auto simp: dom_map_of_conv_image_fst[symmetric] dom_def)
  also have "\<dots> = rt_method ` {q \<in> set rs. \<not> is_dynamic q \<and> match_path (rt_path q) p \<noteq> None}"
    using match_path_static by (auto simp: last_static_None image_iff split: if_splits)
  finally have "set (remdups (map fst (by_method (build_route_index rs) p)) @
      map rt_method (filter (\<lambda>r. match_path (rt_path r) p \<noteq> None) (ri_dynamic (build_route_index rs))))
    = rt_method ` {q \<in> set rs. match_path (rt_path q) p \<noteq> None}"
    unfolding dynamic_build set_append set_remdups set_map set_filter by blast
  then show "set (allowed_methods (build_route_index rs) p) =
        (\<lambda>q. if rt_method q = ''*'' then ''GET, POST'' else rt_method q) ` {q \<in> set rs. match_path (rt_path q) p \<noteq> None}"
    unfolding allowed_methods_def set_stable_sort by (subst set_map) (simp only: image_image)
qed

section \<open>Parameters\<close>

lemma str_split_subset: "w \<in> set (str_split c s) \<Longrightarrow> set w \<subseteq> set s"
proof (induction s arbitrary: w)
  case (Cons a s)
  obtain h t where ht: "str_split c s = h # t" by (cases "str_split c s") auto
  have "set h \<subseteq> set s" "\<And>w. w \<in> set t \<Longrightarrow> set w \<subseteq> set s" using Cons.IH ht by simp_all
  then show ?case using Cons.prems ht by (auto split: if_splits)
qed auto

lemma match_dynamic_free: "str_contains pattern '':'' = (CHR '':'' \<in> set pattern)"
  by (rule str_contains_single)

text \<open>A pattern with its parameters filled in.\<close>

fun fill_segments :: "string list \<Rightarrow> string gmap \<Rightarrow> string list" where
  "fill_segments [] ps = []"
| "fill_segments (p # pp) ps =
     (if has_prefix p '':'' then (case map_of ps (drop 1 p) of Some v \<Rightarrow> v | None \<Rightarrow> p) else p) # fill_segments pp ps"

definition fill_path :: "string \<Rightarrow> string gmap \<Rightarrow> string" where
  "fill_path pattern ps = str_join ''/'' (fill_segments (str_split (CHR ''/'') pattern) ps)"

definition param_names :: "string list \<Rightarrow> string list" where
  "param_names pp = map (drop 1) (filter (\<lambda>p. has_prefix p '':'') pp)"

lemma match_segments_keep:
  "match_segments pp sp ps = Some ps' \<Longrightarrow> k \<notin> set (param_names pp) \<Longrightarrow> map_of ps' k = map_of ps k"
  by (induction pp sp ps rule: match_segments.induct) (auto simp: param_names_def split: if_splits)

lemma fill_match_segments:
  "match_segments pp sp ps = Some ps' \<Longrightarrow> distinct (param_names pp) \<Longrightarrow> fill_segments pp ps' = sp"
proof (induction pp sp ps rule: match_segments.induct)
  case (2 p pp s sp ps)
  show ?case
  proof (cases "has_prefix p '':''")
    case True
    then have run: "match_segments pp sp (gput ps (drop 1 p) s) = Some ps'" and "s \<noteq> ''''"
      using "2.prems"(1) by (auto split: if_splits)
    moreover have "drop 1 p \<notin> set (param_names pp)" "distinct (param_names pp)"
      using "2.prems"(2) True by (auto simp: param_names_def)
    ultimately show ?thesis
      using "2.IH"(1)[OF True] match_segments_keep[OF run] True by simp
  next
    case False
    then show ?thesis using "2.prems" "2.IH"(2)[OF False] by (auto simp: param_names_def split: if_splits)
  qed
qed auto

lemma match_segments_values:
  "match_segments pp sp ps = Some ps' \<Longrightarrow> map_of ps' k = Some v \<Longrightarrow> map_of ps k = Some v \<or> (v \<in> set sp \<and> v \<noteq> '''')"
  by (induction pp sp ps rule: match_segments.induct) (fastforce split: if_splits)+

text \<open>
  A path that a pattern matches is the pattern with the captured parameters filled
  in, and a captured parameter is not empty and has no slash.
\<close>

theorem captured_parameters:
  assumes "match_path pattern path = Some ps" and "distinct (param_names (str_split (CHR ''/'') pattern))"
  shows "fill_path pattern ps = path
    \<and> (\<forall>k v. map_of ps k = Some v \<longrightarrow> v \<noteq> '''' \<and> CHR ''/'' \<notin> set v)"
proof (cases "str_contains pattern '':''")
  case False
  then have "CHR '':'' \<notin> set p" if "p \<in> set (str_split (CHR ''/'') pattern)" for p
    using str_split_subset[OF that] by (auto simp: match_dynamic_free)
  then have plain: "\<forall>p\<in>set (str_split (CHR ''/'') pattern). \<not> has_prefix p '':''"
    by (fastforce simp: has_prefix_iff)
  have "fill_segments pp ps = pp" if "\<forall>p\<in>set pp. \<not> has_prefix p '':''" for pp
    using that by (induction pp) auto
  then have "fill_segments (str_split (CHR ''/'') pattern) ps = str_split (CHR ''/'') pattern"
    using plain by blast
  with False assms show ?thesis
    by (auto simp: match_path_def fill_path_def str_join_split split: if_splits)
next
  case True
  then have m: "match_segments (str_split (CHR ''/'') pattern) (str_split (CHR ''/'') path) [] = Some ps"
    using assms(1) by (auto simp: match_path_def Let_def split: if_splits)
  have "fill_path pattern ps = path"
    unfolding fill_path_def fill_match_segments[OF m assms(2)] by (rule str_join_split)
  moreover have "v \<noteq> '''' \<and> CHR ''/'' \<notin> set v" if "map_of ps k = Some v" for k v
    using match_segments_values[OF m that] str_split_parts by auto
  ultimately show ?thesis by blast
qed

definition demo_routes :: "route list" where
  "demo_routes = [route ''POST'' ''/a'' ''old'' None, route ''*'' ''/a'' ''any'' None, route ''GET'' ''/:x'' ''dyn'' None,
     route ''GET'' ''/:y'' ''late'' None, route ''POST'' ''/a'' ''new'' None]"

lemma route_index_faithful_witness:
  "match_route (build_route_index demo_routes) ''POST'' ''/a'' = Some (route ''POST'' ''/a'' ''new'' None, [])
   \<and> match_route (build_route_index demo_routes) ''GET'' ''/b'' = Some (route ''GET'' ''/:x'' ''dyn'' None, [(''x'', ''b'')])
   \<and> match_route (build_route_index demo_routes) ''POST'' ''/b'' = None"
proof -
  have won: "demo_routes = take 4 demo_routes @ route ''POST'' ''/a'' ''new'' None # []"
    "demo_routes = take 2 demo_routes @ route ''GET'' ''/:x'' ''dyn'' None # drop 3 demo_routes"
    "wins ''POST'' ''/a'' (take 4 demo_routes) (route ''POST'' ''/a'' ''new'' None) []"
    "wins ''GET'' ''/b'' (take 2 demo_routes) (route ''GET'' ''/:x'' ''dyn'' None) (drop 3 demo_routes)"
    "match_path (rt_path (route ''POST'' ''/a'' ''new'' None)) ''/a'' = Some []"
    "match_path (rt_path (route ''GET'' ''/:x'' ''dyn'' None)) ''/b'' = Some [(''x'', ''b'')]"
    "\<not> (\<exists>q\<in>set demo_routes. applies ''POST'' ''/b'' q)" by code_simp+
  note faithful = route_index_faithful[of demo_routes]
  have "match_route (build_route_index demo_routes) ''POST'' ''/a'' = Some (route ''POST'' ''/a'' ''new'' None, [])"
    by (rule faithful[THEN conjunct1, THEN iffD2], rule exI, rule exI, intro conjI, rule won(1), rule won(3), rule won(5))
  moreover have "match_route (build_route_index demo_routes) ''GET'' ''/b'' = Some (route ''GET'' ''/:x'' ''dyn'' None, [(''x'', ''b'')])"
    by (rule faithful[THEN conjunct1, THEN iffD2], rule exI, rule exI, intro conjI, rule won(2), rule won(4), rule won(6))
  moreover have "match_route (build_route_index demo_routes) ''POST'' ''/b'' = None"
    by (rule faithful[THEN conjunct2, THEN conjunct1, THEN iffD2], rule won(7))
  ultimately show ?thesis by (intro conjI)
qed

lemma captured_parameters_witness:
  "match_path ''/callback/:provider'' ''/callback/github'' = Some [(''provider'', ''github'')]
   \<and> fill_path ''/callback/:provider'' [(''provider'', ''github'')] = ''/callback/github''"
proof -
  have m: "match_path ''/callback/:provider'' ''/callback/github'' = Some [(''provider'', ''github'')]"
    by (simp add: match_path_def has_prefix_def gput_def)
  then show ?thesis using captured_parameters[OF m] by (simp add: param_names_def has_prefix_def)
qed

section \<open>The pipeline guards the handler\<close>

lemma run_before_none: "run_before i hs = (cs, None) \<Longrightarrow> list_all (\<lambda>(e, written). e = None \<and> \<not> written) hs"
  by (induction i hs arbitrary: cs rule: run_before.induct) (auto split: option.splits if_splits prod.splits)

lemma run_before_calls: "run_before i hs = (cs, r) \<Longrightarrow> Handler h \<notin> set cs"
  by (induction i hs arbitrary: cs rule: run_before.induct) (auto split: option.splits if_splits prod.splits)

lemma run_limited_calls: "run_limited w lc rel r = (cs, res) \<Longrightarrow> Handler h \<notin> set cs"
  by (auto simp: run_limited_def Let_def split: if_splits prod.splits option.splits)

lemma run_limited_admits:
  "run_limited w lc rel r = (cs, None) \<Longrightarrow>
   lc_disabled lc \<or> admit (lc_fail_open lc) (or_limit w (or_client w @ '':'' @ rt_path r) (limit_rule lc rel r))"
  by (auto simp: run_limited_def Let_def admit_def split: if_splits prod.splits option.splits)

text \<open>
  C9: no handler runs unguarded. A handler is called only for a route the index gives
  for the request, and only after the origin check passed (unless the route opts out),
  the limiter admitted the request under the client and the route pattern, and every
  before hook let it pass; and it is called once.
\<close>

theorem handler_guarded:
  assumes "serve_http w lc ix base m path = (calls, rep)" and "Handler h \<in> set calls"
  shows "\<exists>rel r ps. relative_path base path = Some rel \<and> match_route ix m rel = Some (r, ps) \<and> rt_handler r = h \<and>
    (rt_skip_origin r \<or> or_origin w rel (rt_path r) = None) \<and>
    (lc_disabled lc \<or> admit (lc_fail_open lc) (or_limit w (or_client w @ '':'' @ rt_path r) (limit_rule lc rel r))) \<and>
    list_all (\<lambda>(e, written). e = None \<and> \<not> written) (or_before w) \<and>
    length (filter (\<lambda>c. c = Handler h) calls) = 1"
proof -
  obtain rel where rel: "relative_path base path = Some rel"
    using assms by (auto simp: serve_http_def split: option.splits)
  obtain r ps where r: "match_route ix m rel = Some (r, ps)" and run: "serve_route w lc rel r ps = (calls, rep)"
    using assms rel by (auto simp: serve_http_def split: option.splits list.splits)
  obtain c1 o1 where 1: "(if rt_skip_origin r then ([], None) else ([CheckOrigin rel (rt_path r)], or_origin w rel (rt_path r))) = (c1, o1)"
    by force
  have c1: "Handler h \<notin> set c1" using 1 by (auto split: if_splits)
  obtain c2 o2 where 2: "run_limited w lc rel r = (c2, o2)" by force
  obtain c3 o3 where 3: "run_before 0 (or_before w) = (c3, o3)" by force
  note no2 = run_limited_calls[OF 2, of h] and no3 = run_before_calls[OF 3, of h]
  have o1: "o1 = None" using run assms(2) c1 by (cases o1) (auto simp: serve_route_def 1)
  have o2: "o2 = None" using run assms(2) c1 no2 by (cases o2) (auto simp: serve_route_def 1 2 o1)
  have o3: "o3 = None" using run assms(2) c1 no2 no3 by (cases o3) (auto simp: serve_route_def 1 2 3 o1 o2)
  have calls: "calls = c1 @ c2 @ c3 @ Handler (rt_handler r) # map After [0..<or_after w]"
    using run by (simp add: serve_route_def 1 2 3 o1 o2 o3 run_handler_def)
  then have h: "rt_handler r = h" using assms(2) c1 no2 no3 by auto
  have none: "filter (\<lambda>c. c = Handler h) cs = []" if "Handler h \<notin> set cs" for cs
    using that by (auto simp: filter_empty_conv)
  have "filter (\<lambda>c. c = Handler h) (map After [0..<or_after w]) = []" by (rule none) auto
  then have "length (filter (\<lambda>c. c = Handler h) calls) = 1"
    using none[OF c1] none[OF no2] none[OF no3] h by (simp add: calls)
  moreover have "rt_skip_origin r \<or> or_origin w rel (rt_path r) = None" using 1 o1 by (auto split: if_splits)
  ultimately show ?thesis
    using rel r h run_limited_admits[OF 2[unfolded o2]] run_before_none[OF 3[unfolded o3]] by blast
qed

definition demo_env :: http_env where
  "demo_env = \<lparr>or_origin = (\<lambda>_ _. None), or_client = ''1.2.3.4'', or_limit = (\<lambda>_ _. (True, None)),
     or_before = [(None, False)], or_handler = (\<lambda>_ _. (None, True)), or_after = 1\<rparr>"

lemma handler_guarded_witness:
  "\<exists>calls rep. serve_http demo_env \<lparr>lc_disabled = False, lc_default = strict_rule, lc_custom = [], lc_fail_open = False\<rparr>
      (build_route_index [route ''POST'' ''/a'' ''h'' None]) ''/api'' ''POST'' ''/api/a/'' = (calls, rep)
    \<and> length (filter (\<lambda>c. c = Handler ''h'') calls) = 1"
proof -
  let ?lc = "\<lparr>lc_disabled = False, lc_default = strict_rule, lc_custom = [], lc_fail_open = False\<rparr>"
  let ?ix = "build_route_index [route ''POST'' ''/a'' ''h'' None]"
  obtain calls rep where run: "serve_http demo_env ?lc ?ix ''/api'' ''POST'' ''/api/a/'' = (calls, rep)" by force
  have "relative_path ''/api'' ''/api/a/'' = Some ''/a''"
    by (simp add: relative_path_def has_prefix_def trim_prefix_def trim_suffix_def has_suffix_def)
  moreover have "match_route ?ix ''POST'' ''/a'' = Some (route ''POST'' ''/a'' ''h'' None, [])"
    by (simp add: build_route_index_def index_route_def is_dynamic_def match_route_def by_method_def route_def gput_def has_prefix_def)
  ultimately have "Handler ''h'' \<in> set calls"
    using run by (auto simp: serve_http_def serve_route_def run_limited_def run_handler_def demo_env_def route_def Let_def)
  from handler_guarded[OF run this] show ?thesis using run by blast
qed

section \<open>The built-in table\<close>

lemma distinct_option: "distinct (map f (A @ B @ C)) \<Longrightarrow> distinct (map f (A @ (if p then B else []) @ C))"
  by auto

lemma distinct_parts:
  assumes "distinct (map f (A @ B @ C @ D @ E @ F))"
  shows "distinct (map f (A @ (if p then B else []) @ (if q then C else []) @ D @ (if r then E else []) @ (if s then F else [])))"
  using distinct_option[of f A B "C @ D @ E @ F" p] distinct_option[of f "A @ (if p then B else [])" C "D @ E @ F" q]
    distinct_option[of f "A @ (if p then B else []) @ (if q then C else []) @ D" E F r]
    distinct_option[of f "A @ (if p then B else []) @ (if q then C else []) @ D @ (if r then E else [])" F "[]" s] assms
  by (simp only: append_assoc append_Nil2)

lemma core_routes_distinct: "distinct (map (\<lambda>r. (rt_method r, rt_path r)) (core_routes cfg))"
  unfolding core_routes_def
  by (rule distinct_parts, simp only: append.simps list.map route_def route.simps,
     simp only: distinct.simps list.set insert_iff empty_iff prod.inject refl simp_thms, simp)

lemma find_snoc: "find P (xs @ [x]) = (case find P xs of Some y \<Rightarrow> Some y | None \<Rightarrow> if P x then Some x else None)"
  by (induction xs) auto

lemma find_rev_distinct:
  "distinct (map f xs) \<Longrightarrow> x \<in> set xs \<Longrightarrow> find (\<lambda>y. f y = f x) (rev xs) = Some x"
proof (induction xs)
  case (Cons y xs)
  show ?case
  proof (cases "x = y")
    case True
    then have "\<forall>z\<in>set (rev xs). f z \<noteq> f x" using Cons.prems(1) by (auto simp: image_iff)
    then have "find (\<lambda>y. f y = f x) (rev xs) = None" by (simp add: find_None_iff)
    then show ?thesis using True by (simp add: find_snoc)
  next
    case False
    then show ?thesis using Cons by (simp add: find_snoc)
  qed
qed simp

text \<open>
  In every configuration each built-in endpoint with a literal path is reached by
  its own method and path: no endpoint shadows another. Only the OAuth callback is exempt
  from the origin check, and every endpoint that takes a password, or sends or redeems a
  password-reset token, allows at most five requests in ten seconds per client.
\<close>

theorem core_routes_sound:
  shows "(\<forall>r\<in>set (core_routes cfg). \<not> is_dynamic r \<longrightarrow>
      match_route (build_route_index (core_routes cfg)) (rt_method r) (rt_path r) = Some (r, []))
    \<and> (\<forall>r\<in>set (core_routes cfg). rt_skip_origin r \<longrightarrow> rt_path r = ''/callback/:provider'')
    \<and> (\<forall>r\<in>set (core_routes cfg). rt_handler r \<in> {''handleSignInEmail'', ''handleSignUpEmail'', ''handleForgetPassword'',
        ''handleResetPassword'', ''handleResetPasswordRedirect'', ''handleSetPassword'', ''handleDeleteUser''} \<longrightarrow>
        (\<exists>l. rt_limit r = Some l \<and> rl_max l \<le> 5 \<and> rl_window l = seconds 10))"
proof (intro conjI ballI impI)
  fix r assume r: "r \<in> set (core_routes cfg)" "\<not> is_dynamic r"
  have "find (\<lambda>q. (rt_method q, rt_path q) = (rt_method r, rt_path r)) (rev (core_routes cfg)) = Some r"
    by (rule find_rev_distinct[OF core_routes_distinct r(1)])
  moreover have "(rt_method q, rt_path q) = (rt_method r, rt_path r) \<longleftrightarrow>
      \<not> is_dynamic q \<and> rt_path q = rt_path r \<and> rt_method q = rt_method r" for q
    using r(2) by (auto simp: is_dynamic_def)
  ultimately have "last_static (core_routes cfg) (rt_path r) (rt_method r) = Some r"
    by (simp only: last_static_def)
  then show "match_route (build_route_index (core_routes cfg)) (rt_method r) (rt_path r) = Some (r, [])"
    by (simp add: match_route_def static_build)
qed (auto simp: core_routes_def route_def strict_rule_def moderate_rule_def split: if_splits)

lemma core_routes_sound_witness:
  "\<exists>r\<in>set (core_routes \<lparr>rc_email_password = True, rc_send_verification = True, rc_change_email = True, rc_delete_user = True\<rparr>).
    rt_handler r = ''handleSignInEmail'' \<and> rl_max (the (rt_limit r)) \<le> 5"
proof -
  let ?c = "\<lparr>rc_email_password = True, rc_send_verification = True, rc_change_email = True, rc_delete_user = True\<rparr>"
  have "\<exists>r\<in>set (core_routes ?c). rt_handler r = ''handleSignInEmail''" by (simp add: core_routes_def route_def)
  then obtain r where r: "r \<in> set (core_routes ?c)" "rt_handler r = ''handleSignInEmail''" by blast
  have "\<exists>l. rt_limit r = Some l \<and> rl_max l \<le> 5 \<and> rl_window l = seconds 10"
    using core_routes_sound[of ?c, THEN conjunct2, THEN conjunct2, THEN bspec, OF r(1), THEN mp] r(2) by blast
  then have "rl_max (the (rt_limit r)) \<le> 5" by auto
  with r show ?thesis by blast
qed

end
