(* ===== verification/Go_Base64.thy ===== *)
theory Go_Base64
  imports Go_Strings
begin

text \<open>
  \<open>base64.RawURLEncoding\<close>: three bytes become four characters of the URL alphabet, without
  padding. As in Go, decoding skips line breaks and ignores the unused low bits of the
  last character.
\<close>

definition b64_alphabet :: string where
  "b64_alphabet = ''ABCDEFGHIJKLMNOPQRSTUVWXYZabcdefghijklmnopqrstuvwxyz0123456789-_''"

definition b64_char :: "nat \<Rightarrow> char" where "b64_char n = b64_alphabet ! n"

fun index_from :: "nat \<Rightarrow> 'a list \<Rightarrow> 'a \<Rightarrow> nat option" where
  "index_from i [] c = None"
| "index_from i (x # xs) c = (if x = c then Some i else index_from (Suc i) xs c)"

definition b64_val :: "char \<Rightarrow> nat option" where "b64_val c = index_from 0 b64_alphabet c"

fun b64_groups :: "nat list \<Rightarrow> nat list" where
  "b64_groups (a # b # c # r) =
     [a div 4, (a mod 4) * 16 + b div 16, (b mod 16) * 4 + c div 64, c mod 64] @ b64_groups r"
| "b64_groups [a, b] = [a div 4, (a mod 4) * 16 + b div 16, (b mod 16) * 4]"
| "b64_groups [a] = [a div 4, (a mod 4) * 16]"
| "b64_groups [] = []"

fun b64_ungroup :: "nat list \<Rightarrow> nat list option" where
  "b64_ungroup (w # x # y # z # r) =
     map_option ((@) [w * 4 + x div 16, (x mod 16) * 16 + y div 4, (y mod 4) * 64 + z]) (b64_ungroup r)"
| "b64_ungroup [w, x, y] = Some [w * 4 + x div 16, (x mod 16) * 16 + y div 4]"
| "b64_ungroup [w, x] = Some [w * 4 + x div 16]"
| "b64_ungroup [w] = None"
| "b64_ungroup [] = Some []"

definition b64_encode :: "string \<Rightarrow> string" where
  "b64_encode s = map b64_char (b64_groups (map byte_of s))"

definition b64_decode :: "string \<Rightarrow> string option" where
  "b64_decode s =
     (let cs = filter (\<lambda>c. byte_of c \<noteq> 10 \<and> byte_of c \<noteq> 13) s; vs = map b64_val cs
      in if None \<in> set vs then None else map_option (map char_of) (b64_ungroup (map the vs)))"

section \<open>Facts\<close>

lemma length_b64_alphabet: "length b64_alphabet = 64" by (simp add: b64_alphabet_def)

lemma index_from_nth: "distinct xs \<Longrightarrow> n < length xs \<Longrightarrow> index_from i xs (xs ! n) = Some (i + n)"
  by (induction xs arbitrary: i n) (auto simp: nth_Cons split: nat.split)

lemma distinct_b64_alphabet: "distinct b64_alphabet" by code_simp

lemma b64_val_char [simp]: "n < 64 \<Longrightarrow> b64_val (b64_char n) = Some n"
  using index_from_nth[OF distinct_b64_alphabet, of n 0]
  by (simp add: b64_val_def b64_char_def length_b64_alphabet)

lemma b64_char_alphabet: "n < 64 \<Longrightarrow> b64_char n \<in> set b64_alphabet"
  by (simp add: b64_char_def length_b64_alphabet)

lemma b64_groups_small: "\<forall>b\<in>set bs. b < 256 \<Longrightarrow> \<forall>v\<in>set (b64_groups bs). v < 64"
proof (induction bs rule: b64_groups.induct)
  case (1 a b c r)
  have "a div 4 < 64" "(a mod 4) * 16 + b div 16 < 64" "(b mod 16) * 4 + c div 64 < 64" "c mod 64 < 64"
    using "1.prems" by auto
  then show ?case using 1 by simp
next
  case (2 a b)
  have "a div 4 < 64" "(a mod 4) * 16 + b div 16 < 64" "(b mod 16) * 4 < 64" using "2.prems" by auto
  then show ?case by simp
next
  case (3 a)
  have "a div 4 < 64" "(a mod 4) * 16 < 64" using "3.prems" by auto
  then show ?case by simp
qed simp

lemma b64_ungroup_groups: "\<forall>b\<in>set bs. b < 256 \<Longrightarrow> b64_ungroup (b64_groups bs) = Some bs"
proof (induction bs rule: b64_groups.induct)
  case (1 a b c r)
  have "(a div 4) * 4 + ((a mod 4) * 16 + b div 16) div 16 = a"
    "(((a mod 4) * 16 + b div 16) mod 16) * 16 + ((b mod 16) * 4 + c div 64) div 4 = b"
    "(((b mod 16) * 4 + c div 64) mod 4) * 64 + c mod 64 = c"
    using "1.prems" by auto
  then show ?case using 1 by simp
next
  case (2 a b)
  have "(a div 4) * 4 + ((a mod 4) * 16 + b div 16) div 16 = a"
    "(((a mod 4) * 16 + b div 16) mod 16) * 16 + ((b mod 16) * 4) div 4 = b"
    using "2.prems" by auto
  then show ?case by simp
next
  case (3 a)
  have "(a div 4) * 4 + ((a mod 4) * 16) div 16 = a" using "3.prems" by auto
  then show ?case by simp
qed simp

lemma alphabet_byte: "c \<in> set b64_alphabet \<Longrightarrow> byte_of c \<noteq> 10 \<and> byte_of c \<noteq> 13"
proof -
  have "list_all (\<lambda>c. byte_of c \<noteq> 10 \<and> byte_of c \<noteq> 13) b64_alphabet" by code_simp
  then show "c \<in> set b64_alphabet \<Longrightarrow> byte_of c \<noteq> 10 \<and> byte_of c \<noteq> 13" by (auto simp: list_all_iff)
qed

lemma set_b64_encode: "set (b64_encode s) \<subseteq> set b64_alphabet"
proof -
  have "\<forall>v\<in>set (b64_groups (map byte_of s)). v < 64" by (rule b64_groups_small) (simp add: byte_of_less)
  then show ?thesis by (auto simp: b64_encode_def intro: b64_char_alphabet)
qed

lemma b64_encode_no: "c \<notin> set b64_alphabet \<Longrightarrow> c \<notin> set (b64_encode s)"
  using set_b64_encode by blast

lemma b64_encode_no_dot [simp]: "CHR ''.'' \<notin> set (b64_encode s)"
  by (rule b64_encode_no) code_simp

lemma b64_decode_encode [simp]: "b64_decode (b64_encode s) = Some s"
proof -
  let ?g = "b64_groups (map byte_of s)"
  have small: "\<forall>v\<in>set ?g. v < 64" by (rule b64_groups_small) (simp add: byte_of_less)
  have f: "filter (\<lambda>c. byte_of c \<noteq> 10 \<and> byte_of c \<noteq> 13) (b64_encode s) = b64_encode s"
    using set_b64_encode alphabet_byte by (auto simp: filter_id_conv)
  have v: "map b64_val (b64_encode s) = map Some ?g"
    using small by (auto simp: b64_encode_def)
  have "b64_ungroup ?g = Some (map byte_of s)" by (rule b64_ungroup_groups) (simp add: byte_of_less)
  then have "map_option (map char_of) (b64_ungroup (map the (map Some ?g))) = Some s"
    by (simp add: comp_def byte_of_def)
  moreover have "None \<notin> set (map Some ?g)" by auto
  ultimately show ?thesis unfolding b64_decode_def Let_def f v by (simp only: if_False)
qed

lemma b64_encode_Nil [simp]: "b64_encode s = [] \<longleftrightarrow> s = []"
  by (metis b64_decode_encode b64_encode_def b64_groups.simps(4) list.map(1) option.inject)

lemma b64_encode_inject [simp]: "b64_encode s = b64_encode t \<longleftrightarrow> s = t"
  by (metis b64_decode_encode option.inject)

end
