(* ===== verification/Signing.thy ===== *)
theory Signing
  imports Go_Base64
begin

text \<open>
  crypto/random.go: identifiers, one-time codes and tokens drawn from the system's
  random bytes, and signatures separated by purpose. HMAC-SHA256 and SHA-256 are
  arguments; random bytes come as the batches that \<open>rand.Read\<close> fills.
\<close>

section \<open>Random codes\<close>

definition id_alphabet :: string where
  "id_alphabet = ''0123456789ABCDEFGHIJKLMNOPQRSTUVWXYZabcdefghijklmnopqrstuvwxyz''"

text \<open>What a random byte becomes, if it is not rejected.\<close>

definition pick_id :: "nat \<Rightarrow> char option" where
  "pick_id b = (let v = and b 63 in if length id_alphabet \<le> v then None else Some (id_alphabet ! v))"

definition pick_otp :: "nat \<Rightarrow> char option" where
  "pick_otp b = (if 250 \<le> b then None else Some (char_of (byte_of (CHR ''0'') + b mod 10)))"

text \<open>The inner loop: at most \<open>n\<close> characters from one batch.\<close>

fun fill_from :: "(nat \<Rightarrow> char option) \<Rightarrow> nat \<Rightarrow> nat list \<Rightarrow> string" where
  "fill_from pick n [] = []"
| "fill_from pick n (b # bs) =
     (if n = 0 then []
      else (case pick b of None \<Rightarrow> fill_from pick n bs | Some c \<Rightarrow> c # fill_from pick (n - 1) bs))"

text \<open>The outer loop; \<open>None\<close> when it still waits for more batches.\<close>

fun draw :: "(nat \<Rightarrow> char option) \<Rightarrow> nat \<Rightarrow> nat list list \<Rightarrow> string option" where
  "draw pick n [] = (if n = 0 then Some [] else None)"
| "draw pick n (buf # bufs) =
     (if n = 0 then Some []
      else (let got = fill_from pick n buf in map_option ((@) got) (draw pick (n - length got) bufs)))"

definition generate_id :: "int \<Rightarrow> nat list list \<Rightarrow> string option" where
  "generate_id len bufs = draw pick_id (if len \<le> 0 then 32 else nat len) bufs"

definition generate_otp :: "int \<Rightarrow> nat list list \<Rightarrow> string option" where
  "generate_otp digits bufs = draw pick_otp (if digits \<le> 0 then 6 else nat digits) bufs"

text \<open>The bytes of the only batch, of \<open>n\<close> bytes, or 32 when \<open>n\<close> is not positive.\<close>

definition generate_token :: "int \<Rightarrow> (nat \<Rightarrow> string) \<Rightarrow> string" where
  "generate_token n rand = b64_encode (rand (if n \<le> 0 then 32 else nat n))"

lemma fill_from_spec: "fill_from pick n bs = take n (List.map_filter pick bs)"
  by (induction bs arbitrary: n) (auto simp: map_filter_simps take_Cons' split: option.splits)

lemma draw_spec:
  "draw pick n bufs = (let got = List.map_filter pick (concat bufs) in if n \<le> length got then Some (take n got) else None)"
proof (induction pick n bufs rule: draw.induct)
  case (2 pick n buf bufs)
  show ?case
  proof (cases "n = 0")
    case False
    let ?g = "List.map_filter pick buf"
    have l: "length (fill_from pick n buf) = min n (length ?g)" by (simp add: fill_from_spec)
    have IH: "draw pick (n - length (fill_from pick n buf)) bufs =
        (let got = List.map_filter pick (concat bufs)
         in if n - min n (length ?g) \<le> length got then Some (take (n - min n (length ?g)) got) else None)"
      using "2.IH"[OF False refl] unfolding l .
    have split: "List.map_filter pick (concat (buf # bufs)) = ?g @ List.map_filter pick (concat bufs)"
      by (simp add: List.map_filter_def)
    show ?thesis
      using False unfolding draw.simps Let_def IH split
      by (auto simp: fill_from_spec Let_def min_def)
  qed simp
qed simp

lemma and_63: "and b 63 = b mod (64 :: nat)"
proof -
  have m: "mask 6 = (63 :: nat)" by (simp add: mask_eq_exp_minus_1)
  show ?thesis using take_bit_eq_mask[of 6 b] unfolding m by (simp add: take_bit_eq_mod)
qed

lemma distinct_id_alphabet: "distinct id_alphabet" by code_simp

lemma length_id_alphabet: "length id_alphabet = 62" by (simp add: id_alphabet_def)

lemma pick_id_count:
  assumes "c \<in> set id_alphabet"
  shows "card {b. b < 256 \<and> pick_id b = Some c} = 4"
proof -
  obtain i where i: "i < 62" "c = id_alphabet ! i" using assms by (metis in_set_conv_nth length_id_alphabet)
  have "pick_id b = Some c \<longleftrightarrow> b mod 64 = i" for b
    using i nth_eq_iff_index_eq[OF distinct_id_alphabet, of "b mod 64" i]
    by (auto simp: pick_id_def and_63 Let_def length_id_alphabet)
  then have "{b. b < 256 \<and> pick_id b = Some c} = {b. b < 256 \<and> b mod 64 = i}" by simp
  also have "{b. b < 256 \<and> b mod 64 = i} = (\<lambda>k. i + 64 * k) ` {..<4}"
  proof (intro set_eqI iffI)
    fix b assume "b \<in> {b. b < 256 \<and> b mod 64 = i}"
    then have "b = i + 64 * (b div 64)" "b div 64 < 4" by auto
    then show "b \<in> (\<lambda>k. i + 64 * k) ` {..<4}" by blast
  qed (use i(1) in auto)
  also have "card \<dots> = 4" by (subst card_image) (auto intro: inj_onI)
  finally show ?thesis .
qed

lemma pick_otp_count:
  assumes "d < (10 :: nat)"
  shows "card {b. b < 256 \<and> pick_otp b = Some (char_of (48 + d))} = 25"
proof -
  have z: "byte_of (CHR ''0'') = 48" by code_simp
  have "(char_of (48 + b mod 10) :: char) = char_of (48 + d) \<longleftrightarrow> b mod 10 = d" for b :: nat
  proof -
    have "48 + b mod 10 < 256" "48 + d < 256" using assms by simp_all
    then have "byte_of (char_of (48 + b mod 10)) = 48 + b mod 10" "byte_of (char_of (48 + d)) = 48 + d"
      by (simp_all only: byte_of_char_of)
    then show ?thesis by (metis add_left_cancel)
  qed
  note inj = this
  have "pick_otp b = Some (char_of (48 + d)) \<longleftrightarrow> b < 250 \<and> b mod 10 = d" for b
  proof (cases "250 \<le> b")
    case True
    then show ?thesis unfolding pick_otp_def by (simp only: if_True option.distinct) (simp only: not_less[symmetric] simp_thms)
  next
    case False
    then show ?thesis unfolding pick_otp_def z by (simp only: if_False option.inject inj) (simp only: not_le simp_thms)
  qed
  then have "{b. b < 256 \<and> pick_otp b = Some (char_of (48 + d))} = {b. b < 256 \<and> b < 250 \<and> b mod 10 = d}"
    by (simp only:)
  also have "\<dots> = {b. b < 250 \<and> b mod 10 = d}" by auto
  also have "\<dots> = (\<lambda>k. d + 10 * k) ` {..<25}"
  proof (intro set_eqI iffI)
    fix b assume "b \<in> {b. b < 250 \<and> b mod 10 = d}"
    then have "b = d + 10 * (b div 10)" "b div 10 < 25" by auto
    then show "b \<in> (\<lambda>k. d + 10 * k) ` {..<25}" by blast
  qed (use assms in auto)
  also have "card \<dots> = 25" by (subst card_image) (auto intro: inj_onI)
  finally show ?thesis .
qed

text \<open>
  Identifiers and one-time codes are the first accepted random bytes, whatever the
  batches they arrive in, and are complete as soon as there are enough of them. No
  character is favoured: each alphanumeric one stands for four byte values and each digit
  for twenty-five, so they are uniform when the bytes are.
\<close>

theorem codes_uniform:
  "generate_id len bufs =
     (let n = (if len \<le> 0 then 32 else nat len); got = List.map_filter pick_id (concat bufs)
      in if n \<le> length got then Some (take n got) else None)
   \<and> generate_otp digits bufs =
     (let n = (if digits \<le> 0 then 6 else nat digits); got = List.map_filter pick_otp (concat bufs)
      in if n \<le> length got then Some (take n got) else None)
   \<and> (\<forall>c\<in>set id_alphabet. card {b. b < 256 \<and> pick_id b = Some c} = 4)
   \<and> (\<forall>d<10 :: nat. card {b. b < 256 \<and> pick_otp b = Some (char_of (48 + d))} = 25)"
  unfolding generate_id_def generate_otp_def draw_spec Let_def
  using pick_id_count pick_otp_count by blast

lemma codes_uniform_witness:
  "generate_otp 3 [[251, 7, 12], [249]] = Some ''729'' \<and> card {b. b < 256 \<and> pick_id b = Some (CHR ''z'')} = 4"
proof -
  have "CHR ''z'' \<in> set id_alphabet" by (simp add: id_alphabet_def)
  then have "card {b. b < 256 \<and> pick_id b = Some (CHR ''z'')} = 4"
    using codes_uniform by blast
  moreover have "generate_otp 3 [[251, 7, 12], [249]] = Some ''729''" by code_simp
  ultimately show ?thesis by blast
qed

section \<open>Signatures\<close>

text \<open>What is authenticated: the purpose and a zero byte in front of the value.\<close>

definition mac_message :: "string \<Rightarrow> string \<Rightarrow> string" where
  "mac_message purpose v = (if purpose \<noteq> '''' then purpose @ [char_of (0::nat)] else []) @ v"

text \<open>A pooled hasher: the key it was built with and the bytes written to it so far.\<close>

record pooled_mac =
  pm_key :: string
  pm_written :: string

definition append_hmac ::
  "(string \<Rightarrow> string \<Rightarrow> string) \<Rightarrow> pooled_mac option \<Rightarrow> string \<Rightarrow> string \<Rightarrow> string \<Rightarrow> string \<times> pooled_mac" where
  "append_hmac hmac pool key purpose v =
     (let p = (case pool of
                 None \<Rightarrow> \<lparr>pm_key = key, pm_written = ''''\<rparr>
               | Some q \<Rightarrow> if pm_key q \<noteq> key then \<lparr>pm_key = key, pm_written = ''''\<rparr> else q\<lparr>pm_written := ''''\<rparr>);
          p1 = (if purpose \<noteq> '''' then p\<lparr>pm_written := pm_written p @ purpose @ [char_of (0::nat)]\<rparr> else p);
          p2 = p1\<lparr>pm_written := pm_written p1 @ v\<rparr>
      in (hmac (pm_key p2) (pm_written p2), p2))"

text \<open>Whatever hasher the pool hands out, the signature is that of a fresh one.\<close>

lemma append_hmac_fresh: "fst (append_hmac hmac pool key purpose v) = hmac key (mac_message purpose v)"
  by (auto simp: append_hmac_def mac_message_def Let_def split: option.splits)

definition sign_hmac_purpose :: "(string \<Rightarrow> string \<Rightarrow> string) \<Rightarrow> string \<Rightarrow> string \<Rightarrow> string \<Rightarrow> string" where
  "sign_hmac_purpose hmac key purpose v = b64_encode (fst (append_hmac hmac None key purpose v))"

definition verify_hmac_purpose :: "(string \<Rightarrow> string \<Rightarrow> string) \<Rightarrow> string \<Rightarrow> string \<Rightarrow> string \<Rightarrow> string \<Rightarrow> bool" where
  "verify_hmac_purpose hmac key purpose v sig = (sign_hmac_purpose hmac key purpose v = sig)"

definition sign_hmac :: "(string \<Rightarrow> string \<Rightarrow> string) \<Rightarrow> string \<Rightarrow> string \<Rightarrow> string" where
  "sign_hmac hmac key v = sign_hmac_purpose hmac key '''' v"

definition verify_hmac :: "(string \<Rightarrow> string \<Rightarrow> string) \<Rightarrow> string \<Rightarrow> string \<Rightarrow> string \<Rightarrow> bool" where
  "verify_hmac hmac key v sig = verify_hmac_purpose hmac key '''' v sig"

definition hash_token :: "(string \<Rightarrow> string) \<Rightarrow> string \<Rightarrow> string" where
  "hash_token sha token = b64_encode (sha token)"

lemma sign_no_dot [simp]: "CHR ''.'' \<notin> set (sign_hmac_purpose hmac key purpose v)"
  by (simp add: sign_hmac_purpose_def)

lemma sign_eq: "sign_hmac_purpose hmac key purpose v = b64_encode (hmac key (mac_message purpose v))"
  by (simp add: sign_hmac_purpose_def append_hmac_fresh)

text \<open>Purposes without a zero byte cannot be confused with each other.\<close>

lemma mac_message_inject:
  assumes "CHR 0x00 \<notin> set p" "CHR 0x00 \<notin> set q" "p \<noteq> ''''" "q \<noteq> ''''"
  shows "mac_message p v = mac_message q w \<longleftrightarrow> p = q \<and> v = w"
proof
  assume eq: "mac_message p v = mac_message q w"
  have z: "char_of (0::nat) = CHR 0x00" by code_simp
  have "mac_message p v = p @ CHR 0x00 # v" "mac_message q w = q @ CHR 0x00 # w"
    using assms(3,4) unfolding mac_message_def z by auto
  with eq show "p = q \<and> v = w"
    using str_cut_append[OF assms(1), of v] str_cut_append[OF assms(2), of w] by (metis option.inject prod.inject)
qed simp

end
