(* ===== verification/Go_Url.thy ===== *)
theory Go_Url
  imports Go_Strings
begin

text \<open>
  What the library uses of Go's \<open>net/url\<close>: \<open>url.Parse\<close>, with the errors it returns, and
  the scheme and host of the result. The scheme is lower-cased; the host keeps its
  case and its port, and user information before an \<open>@\<close> is not part of it.
\<close>

record gurl =
  u_scheme :: string
  u_host :: string

definition is_alpha :: "char \<Rightarrow> bool" where
  "is_alpha c = ((65 \<le> byte_of c \<and> byte_of c \<le> 90) \<or> (97 \<le> byte_of c \<and> byte_of c \<le> 122))"

definition is_ctl :: "char \<Rightarrow> bool" where
  "is_ctl c = (byte_of c < 32 \<or> byte_of c = 127)"

definition hex_val :: "char \<Rightarrow> nat option" where
  "hex_val c =
     (if is_digit c then Some (byte_of c - 48)
      else if 97 \<le> byte_of c \<and> byte_of c \<le> 102 then Some (byte_of c - 87)
      else if 65 \<le> byte_of c \<and> byte_of c \<le> 70 then Some (byte_of c - 55)
      else None)"

text \<open>
  \<open>getScheme\<close>: \<open>None\<close> is the error, an empty scheme means there is none. A scheme starts
  with a letter and ends at the first colon.
\<close>

fun get_scheme_from :: "string \<Rightarrow> string \<Rightarrow> (string \<times> string) option" where
  "get_scheme_from seen [] = Some ('''', seen)"
| "get_scheme_from seen (c # s) =
     (if is_alpha c then get_scheme_from (seen @ [c]) s
      else if is_digit c \<or> c \<in> set ''+-.'' then
        (if seen = [] then Some ('''', c # s) else get_scheme_from (seen @ [c]) s)
      else if c = CHR '':'' then (if seen = [] then None else Some (seen, s))
      else Some ('''', seen @ c # s))"

datatype escape_mode = PlainMode | HostMode | ZoneMode

text \<open>The bytes that may stand unescaped in a host.\<close>

definition host_byte :: "char \<Rightarrow> bool" where
  "host_byte c = (is_alpha c \<or> is_digit c \<or> c \<in> set ''-_.~!$&()*+,;=:[]<>'' \<or> byte_of c \<in> {34, 39})"

text \<open>\<open>unescape\<close>: \<open>None\<close> is the error.\<close>

fun unescape :: "escape_mode \<Rightarrow> string \<Rightarrow> string option" where
  "unescape m [] = Some []"
| "unescape m (c # s) =
     (if c = CHR ''%'' then
        (case s of
           a # b # r \<Rightarrow>
             (case (hex_val a, hex_val b) of
                (Some x, Some y) \<Rightarrow>
                  (let v = char_of (16 * x + y); percent = (a = CHR ''2'' \<and> b = CHR ''5'')
                   in if (m = HostMode \<and> x < 8 \<and> \<not> percent)
                         \<or> (m = ZoneMode \<and> \<not> percent \<and> v \<noteq> CHR '' '' \<and> \<not> host_byte v)
                      then None else map_option ((#) v) (unescape m r))
              | _ \<Rightarrow> None)
         | _ \<Rightarrow> None)
      else if m \<noteq> PlainMode \<and> byte_of c < 128 \<and> \<not> host_byte c then None
      else map_option ((#) c) (unescape m s))"

definition valid_port :: "string \<Rightarrow> bool" where
  "valid_port p = (case p of [] \<Rightarrow> True | c # ds \<Rightarrow> c = CHR '':'' \<and> list_all is_digit ds)"

definition parse_host :: "string \<Rightarrow> string option" where
  "parse_host h =
     (if has_prefix h ''['' then
        (case str_cut_last (CHR '']'') h of
           None \<Rightarrow> None
         | Some (a, b) \<Rightarrow>
             if \<not> valid_port b then None
             else (case str_index a ''%25'' of
                     None \<Rightarrow> unescape HostMode h
                   | Some z \<Rightarrow>
                       (case (unescape HostMode (take z a), unescape ZoneMode (drop z a), unescape HostMode (CHR '']'' # b)) of
                          (Some x, Some y, Some w) \<Rightarrow> Some (x @ y @ w)
                        | _ \<Rightarrow> None)))
      else (case str_cut_last (CHR '':'') h of
              None \<Rightarrow> unescape HostMode h
            | Some (a, b) \<Rightarrow> if valid_port (CHR '':'' # b) then unescape HostMode h else None))"

definition user_byte :: "char \<Rightarrow> bool" where
  "user_byte c = (is_alpha c \<or> is_digit c \<or> c \<in> set ''-._:~!$&()*+,;=%@'' \<or> byte_of c = 39)"

definition valid_user :: "string \<Rightarrow> bool" where
  "valid_user w =
     (list_all user_byte w \<and>
      (case str_cut (CHR '':'') w of
         None \<Rightarrow> unescape PlainMode w \<noteq> None
       | Some (n, p) \<Rightarrow> unescape PlainMode n \<noteq> None \<and> unescape PlainMode p \<noteq> None))"

definition parse_authority :: "string \<Rightarrow> string option" where
  "parse_authority a =
     (case str_cut_last (CHR ''@'') a of
        None \<Rightarrow> parse_host a
      | Some (w, h) \<Rightarrow> (case parse_host h of None \<Rightarrow> None | Some x \<Rightarrow> if valid_user w then Some x else None))"

text \<open>What stands before and after the first \<open>c\<close>; nothing after it when there is none.\<close>

definition cut_or_all :: "char \<Rightarrow> string \<Rightarrow> string \<times> string" where
  "cut_or_all c s = (case str_cut c s of None \<Rightarrow> (s, '''') | Some p \<Rightarrow> p)"

text \<open>The part behind the scheme and before the query.\<close>

definition parse_hier :: "string \<Rightarrow> string \<Rightarrow> gurl option" where
  "parse_hier scheme rest =
     (if \<not> has_prefix rest ''/'' then
        (if scheme \<noteq> '''' then Some \<lparr>u_scheme = scheme, u_host = ''''\<rparr>
         else if str_contains (fst (cut_or_all (CHR ''/'') rest)) '':'' then None
         else if unescape PlainMode rest = None then None
         else Some \<lparr>u_scheme = scheme, u_host = ''''\<rparr>)
      else if (scheme \<noteq> '''' \<or> \<not> has_prefix rest ''///'') \<and> has_prefix rest ''//'' then
        (let authority = takeWhile (\<lambda>c. c \<noteq> CHR ''/'') (drop 2 rest);
             path = dropWhile (\<lambda>c. c \<noteq> CHR ''/'') (drop 2 rest)
         in case parse_authority authority of
              None \<Rightarrow> None
            | Some h \<Rightarrow> if unescape PlainMode path = None then None else Some \<lparr>u_scheme = scheme, u_host = h\<rparr>)
      else if unescape PlainMode rest = None then None
      else Some \<lparr>u_scheme = scheme, u_host = ''''\<rparr>)"

definition parse_main :: "string \<Rightarrow> gurl option" where
  "parse_main s =
     (if list_ex is_ctl s then None
      else if s = ''*'' then Some \<lparr>u_scheme = '''', u_host = ''''\<rparr>
      else (case get_scheme_from [] s of
              None \<Rightarrow> None
            | Some (scheme, rest) \<Rightarrow> parse_hier (to_lower scheme) (fst (cut_or_all (CHR ''?'') rest))))"

definition url_parse :: "string \<Rightarrow> gurl option" where
  "url_parse s =
     (let (u, frag) = cut_or_all (CHR ''#'') s
      in case parse_main u of
           None \<Rightarrow> None
         | Some p \<Rightarrow> if unescape PlainMode frag = None then None else Some p)"

text \<open>\<open>u.Scheme + "://" + u.Host\<close>.\<close>

definition url_origin :: "gurl \<Rightarrow> string" where
  "url_origin u = u_scheme u @ ''://'' @ u_host u"

section \<open>Appending a path\<close>

lemma get_scheme_append:
  "get_scheme_from seen s = Some (sch, rest) \<Longrightarrow> sch \<noteq> '''' \<Longrightarrow> get_scheme_from seen (s @ t) = Some (sch, rest @ t)"
  by (induction seen s rule: get_scheme_from.induct) (auto split: if_splits)

lemma get_scheme_not_star: "get_scheme_from [] s = Some (sch, rest) \<Longrightarrow> sch \<noteq> '''' \<Longrightarrow> s \<noteq> ''*''"
  by (auto simp: is_alpha_def is_digit_def byte_of_def)

lemma cut_or_all_append:
  "cut_or_all c (s @ t) = (if c \<in> set s then (fst (cut_or_all c s), snd (cut_or_all c s) @ t)
     else (s @ fst (cut_or_all c t), snd (cut_or_all c t)))"
proof (cases "c \<in> set s")
  case True
  then obtain a b where "s = a @ c # b" "c \<notin> set a" by (metis split_list_first)
  then show ?thesis using str_cut_append[of c a "b @ t"] by (simp add: cut_or_all_def)
next
  case False
  then have "str_cut c (s @ t) = map_option (\<lambda>(a, b). (s @ a, b)) (str_cut c t)"
    by (induction s; cases "str_cut c t") auto
  with False show ?thesis by (auto simp: cut_or_all_def split: option.splits)
qed

lemma parse_hier_append:
  assumes b: "parse_hier sch rest = Some b" and host: "u_host b \<noteq> ''''" and t: "t = '''' \<or> has_prefix t ''/''"
    and p: "parse_hier sch (rest @ t) = Some p"
  shows "p = b"
proof -
  have slashes: "has_prefix rest ''//''" and pre: "sch \<noteq> '''' \<or> \<not> has_prefix rest ''///''"
    using b host by (auto simp: parse_hier_def split: if_splits)
  then obtain r where r: "rest = ''//'' @ r" by (auto simp: has_prefix_iff)
  let ?P = "\<lambda>c. c \<noteq> CHR ''/''"
  have a: "parse_authority (takeWhile ?P r) = Some (u_host b)" and sb: "u_scheme b = sch"
    using b pre r by (auto simp: parse_hier_def Let_def has_prefix_def split: if_splits option.splits)
  have auth: "takeWhile ?P (r @ t) = takeWhile ?P r"
    using t by (induction r) (auto simp: has_prefix_iff)
  have "r \<noteq> []"
  proof
    assume "r = []"
    then have "parse_authority '''' = Some (u_host b)" using a by simp
    then show False using host by (simp add: parse_authority_def parse_host_def has_prefix_def)
  qed
  then have "sch \<noteq> '''' \<or> \<not> has_prefix (rest @ t) ''///''"
    using pre r by (cases r) (auto simp: has_prefix_def)
  then have "u_host p = u_host b \<and> u_scheme p = sch"
    using p r a auth by (auto simp: parse_hier_def Let_def has_prefix_def split: if_splits option.splits)
  with sb show ?thesis by (cases p; cases b) simp
qed

text \<open>A URL that starts with an absolute one, followed by a path, has its scheme and host.\<close>

lemma url_parse_append:
  assumes b: "url_parse base = Some b" and abs: "u_scheme b \<noteq> ''''" "u_host b \<noteq> ''''"
    and t: "has_prefix t ''/''" and p: "url_parse (base @ t) = Some p"
  shows "p = b"
proof -
  define u where "u = fst (cut_or_all (CHR ''#'') base)"
  have main: "parse_main u = Some b"
    using b by (auto simp: url_parse_def u_def split: prod.splits option.splits if_splits)
  then obtain sch rest where sch: "get_scheme_from [] u = Some (sch, rest)"
    and hier: "parse_hier (to_lower sch) (fst (cut_or_all (CHR ''?'') rest)) = Some b"
    using abs by (auto simp: parse_main_def split: option.splits if_splits)
  have "u_scheme b = to_lower sch" using hier by (auto simp: parse_hier_def Let_def split: if_splits option.splits)
  then have ne: "sch \<noteq> ''''" using abs by (auto simp: to_lower_def)
  show ?thesis
  proof (cases "CHR ''#'' \<in> set base")
    case True
    then have "fst (cut_or_all (CHR ''#'') (base @ t)) = u" by (simp add: cut_or_all_append u_def)
    then show ?thesis using p main by (auto simp: url_parse_def split: prod.splits option.splits if_splits)
  next
    case False
    define t' where "t' = fst (cut_or_all (CHR ''#'') t)"
    have u: "u = base" using False by (simp add: u_def cut_or_all_def str_cut_None[THEN iffD2])
    have "fst (cut_or_all (CHR ''#'') (base @ t)) = u @ t'" using False by (simp add: cut_or_all_append u t'_def)
    then have main': "parse_main (u @ t') = Some p"
      using p by (auto simp: url_parse_def split: prod.splits option.splits if_splits)
    have slash: "has_prefix t' ''/''"
      using t by (auto simp: t'_def has_prefix_iff cut_or_all_def split: option.splits)
    have "get_scheme_from [] (u @ t') = Some (sch, rest @ t')" by (rule get_scheme_append[OF sch ne])
    moreover have "u @ t' \<noteq> ''*''" using calculation get_scheme_not_star ne by blast
    ultimately have hier': "parse_hier (to_lower sch) (fst (cut_or_all (CHR ''?'') (rest @ t'))) = Some p"
      using main' by (auto simp: parse_main_def split: if_splits)
    show ?thesis
    proof (cases "CHR ''?'' \<in> set rest")
      case True
      then show ?thesis using hier hier' by (simp add: cut_or_all_append)
    next
      case False
      then have r: "fst (cut_or_all (CHR ''?'') rest) = rest" by (simp add: cut_or_all_def str_cut_None[THEN iffD2])
      have "has_prefix (fst (cut_or_all (CHR ''?'') t')) ''/''"
        using slash by (auto simp: has_prefix_iff cut_or_all_def split: option.splits)
      then show ?thesis
        using parse_hier_append[OF hier[unfolded r] abs(2) disjI2] hier' False by (simp add: cut_or_all_append)
    qed
  qed
qed

end
