(* ===== verification/Origins.thy ===== *)
theory Origins
  imports Go_Url
begin

text \<open>
  The cross-origin policy (origin.go) and what rests on it: which origins are trusted,
  the CSRF check, the CORS wrapper, redirect targets (context.go) and the client address
  behind proxies (context.go, config.go). \<open>url.Parse\<close> is that of Go_Url. Addresses are
  read and printed by arguments, the functions of \<open>net\<close>.
\<close>

section \<open>Requests and configuration\<close>

text \<open>\<open>rq_values\<close> are all values of a header, by canonical name; \<open>Get\<close> is the first.\<close>

record request =
  rq_method :: string
  rq_values :: "string \<Rightarrow> string list"
  rq_cookie :: "string \<Rightarrow> string option"
  rq_remote :: string

definition header :: "request \<Rightarrow> string \<Rightarrow> string" where
  "header rq h = (case rq_values rq h of [] \<Rightarrow> '''' | v # _ \<Rightarrow> v)"

record origin_config =
  oc_base_url :: string
  oc_trusted :: "string list"
  oc_disable_csrf :: bool
  oc_exempt :: "string list"
  oc_session_cookie :: string

definition err_invalid_origin :: gerror where
  "err_invalid_origin = ApiError 403 ''INVALID_ORIGIN''"

section \<open>Trusted origins\<close>

definition same_origin :: "string \<Rightarrow> string \<Rightarrow> bool" where
  "same_origin a b = equal_fold (trim_suffix a ''/'') (trim_suffix b ''/'')"

text \<open>An entry with a \<open>*\<close>, against a parsed origin.\<close>

definition wildcard_match :: "string \<Rightarrow> gurl \<Rightarrow> bool" where
  "wildcard_match trusted ourl =
     (let (scheme, pattern) = (case str_index trusted ''://'' of
                                 Some i \<Rightarrow> (take i trusted, drop (i + 3) trusted)
                               | None \<Rightarrow> ('''', trusted))
      in if scheme \<noteq> '''' \<and> scheme \<noteq> u_scheme ourl then False
         else has_prefix pattern ''*.'' \<and>
              (let suffix = drop 1 pattern
               in length suffix < length (u_host ourl) \<and> has_suffix (u_host ourl) suffix))"

definition trusted_entry :: "string \<Rightarrow> gurl \<Rightarrow> string \<Rightarrow> bool" where
  "trusted_entry origin ourl entry =
     (let trusted = trim_suffix entry ''/''
      in if \<not> str_contains trusted ''*'' then same_origin origin trusted else wildcard_match trusted ourl)"

definition is_base_origin :: "origin_config \<Rightarrow> string \<Rightarrow> bool" where
  "is_base_origin cfg origin =
     (case url_parse (oc_base_url cfg) of
        None \<Rightarrow> False
      | Some base \<Rightarrow> u_host base \<noteq> '''' \<and> same_origin origin (url_origin base))"

definition is_trusted_origin :: "origin_config \<Rightarrow> string \<Rightarrow> bool" where
  "is_trusted_origin cfg origin =
     (origin \<noteq> '''' \<and>
      (is_base_origin cfg origin \<or>
       (case url_parse origin of
          None \<Rightarrow> False
        | Some ourl \<Rightarrow> list_ex (trusted_entry origin ourl) (oc_trusted cfg))))"

section \<open>The CSRF check\<close>

text \<open>\<open>None\<close> when the header is missing, otherwise whether it names the same site.\<close>

definition is_same_site_request :: "request \<Rightarrow> bool option" where
  "is_same_site_request rq =
     (let v = to_lower (header rq ''Sec-Fetch-Site'')
      in if v = '''' then None
         else Some (v \<in> {''same-origin'', ''same-site'', ''none''}))"

definition request_origin :: "request \<Rightarrow> string" where
  "request_origin rq =
     (if header rq ''Origin'' \<noteq> '''' then header rq ''Origin''
      else if header rq ''Referer'' = '''' then ''''
      else (case url_parse (header rq ''Referer'') of
              None \<Rightarrow> ''''
            | Some u \<Rightarrow> if u_host u \<noteq> '''' then url_origin u else ''''))"

definition origin_exempt :: "origin_config \<Rightarrow> string \<Rightarrow> string \<Rightarrow> bool" where
  "origin_exempt cfg path pattern = list_ex (\<lambda>p. p = path \<or> (pattern \<noteq> '''' \<and> p = pattern)) (oc_exempt cfg)"

definition check_origin :: "origin_config \<Rightarrow> request \<Rightarrow> string \<Rightarrow> string \<Rightarrow> gerror option" where
  "check_origin cfg rq path pattern =
     (if oc_disable_csrf cfg then None
      else if rq_method rq \<in> {''GET'', ''HEAD'', ''OPTIONS''} then None
      else if origin_exempt cfg path pattern then None
      else (let origin = request_origin rq
            in if origin \<noteq> '''' then (if is_trusted_origin cfg origin then None else Some err_invalid_origin)
               else (case is_same_site_request rq of
                       Some same \<Rightarrow> if same then None else Some err_invalid_origin
                     | None \<Rightarrow>
                         if rq_cookie rq (oc_session_cookie cfg) = None then None
                         else if has_prefix (header rq ''User-Agent'') ''Mozilla/'' then Some err_invalid_origin
                         else None)))"

section \<open>CORS\<close>

datatype cors_next = Forward | Answer nat

definition cors :: "origin_config \<Rightarrow> request \<Rightarrow> (string \<times> string) list \<times> cors_next" where
  "cors cfg rq =
     (let origin = header rq ''Origin''; vary = (''Vary'', ''Origin'')
      in if origin = '''' then ([], Forward)
         else if \<not> is_trusted_origin cfg origin then
           ([vary], if rq_method rq = ''OPTIONS'' then Answer 403 else Forward)
         else
           (let hs = [vary, (''Access-Control-Allow-Origin'', origin), (''Access-Control-Allow-Credentials'', ''true''),
                      (''Access-Control-Expose-Headers'', ''set-auth-token, set-auth-jwt'')];
                req = header rq ''Access-Control-Request-Headers''
            in if rq_method rq = ''OPTIONS'' then
                 (hs @ [(''Access-Control-Allow-Methods'', ''GET, POST, OPTIONS''),
                        (''Access-Control-Allow-Headers'', if req \<noteq> '''' then req else ''Content-Type, Authorization, x-api-key''),
                        (''Access-Control-Max-Age'', itoa (12 * 3600))], Answer 204)
               else (hs, Forward)))"

section \<open>Redirect targets\<close>

definition safe_redirect :: "origin_config \<Rightarrow> string \<Rightarrow> string option" where
  "safe_redirect cfg raw =
     (if raw = '''' then None
      else if has_prefix raw ''/'' \<and> \<not> has_prefix raw ''//'' then Some (trim_suffix (oc_base_url cfg) ''/'' @ raw)
      else (case url_parse raw of
              None \<Rightarrow> None
            | Some u \<Rightarrow>
                if u_scheme u \<noteq> ''http'' \<and> u_scheme u \<noteq> ''https'' then None
                else if is_trusted_origin cfg (url_origin u) then Some raw else None))"

text \<open>What \<open>Config.validate\<close> establishes of \<open>BaseURL\<close>: an absolute URL without a trailing slash.\<close>

definition valid_base_url :: "string \<Rightarrow> bool" where
  "valid_base_url b =
     (b \<noteq> '''' \<and> \<not> has_suffix b ''/'' \<and>
      (case url_parse b of None \<Rightarrow> False | Some u \<Rightarrow> u_scheme u \<noteq> '''' \<and> u_host u \<noteq> ''''))"

section \<open>The client address\<close>

text \<open>\<open>pe_split\<close>, \<open>pe_parse\<close> and \<open>pe_show\<close> are \<open>net.SplitHostPort\<close> (the host), \<open>net.ParseIP\<close> and \<open>IP.String\<close>.\<close>

record 'ip proxy_env =
  pe_split :: "string \<Rightarrow> string option"
  pe_parse :: "string \<Rightarrow> 'ip option"
  pe_show :: "'ip \<Rightarrow> string"

record 'ip proxy_set =
  ps_all :: bool
  ps_nets :: "('ip \<Rightarrow> bool) list"

definition proxy_contains :: "'ip proxy_set \<Rightarrow> 'ip option \<Rightarrow> bool" where
  "proxy_contains s ip =
     (ps_all s \<or> (case ip of None \<Rightarrow> False | Some a \<Rightarrow> list_ex (\<lambda>net. net a) (ps_nets s)))"

definition forwarded_chain :: "string list \<Rightarrow> string list" where
  "forwarded_chain values = filter (\<lambda>p. p \<noteq> '''') (map trim_space (concat (map (str_split (CHR '','')) values)))"

definition hop_host :: "'ip proxy_env \<Rightarrow> string \<Rightarrow> string" where
  "hop_host env hop = (case pe_split env hop of Some h \<Rightarrow> h | None \<Rightarrow> trim_set ''[]'' hop)"

text \<open>The walk from the right; the argument is the chain reversed.\<close>

fun walk_chain :: "'ip proxy_env \<Rightarrow> 'ip proxy_set \<Rightarrow> string list \<Rightarrow> string option" where
  "walk_chain env s [] = None"
| "walk_chain env s (hop # hops) =
     (case pe_parse env (hop_host env hop) of
        None \<Rightarrow> Some (hop_host env hop)
      | Some ip \<Rightarrow> if proxy_contains s (Some ip) then walk_chain env s hops else Some (pe_show env ip))"

definition client_from_forwarded :: "'ip proxy_env \<Rightarrow> 'ip proxy_set \<Rightarrow> string list \<Rightarrow> string" where
  "client_from_forwarded env s values =
     (let chain = forwarded_chain values
      in case walk_chain env s (rev chain) of
           Some host \<Rightarrow> host
         | None \<Rightarrow> (case chain of [] \<Rightarrow> '''' | c # _ \<Rightarrow> trim_space c))"

definition peer_host :: "'ip proxy_env \<Rightarrow> string \<Rightarrow> string" where
  "peer_host env addr = (case pe_split env addr of None \<Rightarrow> addr | Some h \<Rightarrow> h)"

fun first_forwarded :: "'ip proxy_env \<Rightarrow> 'ip proxy_set \<Rightarrow> request \<Rightarrow> string list \<Rightarrow> string option" where
  "first_forwarded env s rq [] = None"
| "first_forwarded env s rq (h # hs) =
     (if rq_values rq h = [] then first_forwarded env s rq hs
      else (let ip = client_from_forwarded env s (rq_values rq h)
            in if ip \<noteq> '''' then Some ip else first_forwarded env s rq hs))"

definition client_ip :: "'ip proxy_env \<Rightarrow> 'ip proxy_set \<Rightarrow> bool \<Rightarrow> string list \<Rightarrow> request \<Rightarrow> string" where
  "client_ip env s trust_headers ip_headers rq =
     (let peer = peer_host env (rq_remote rq)
      in if \<not> trust_headers \<and> ip_headers = [] then peer
         else if \<not> proxy_contains s (pe_parse env peer) then peer
         else (let headers = (if ip_headers = [] then [''X-Forwarded-For'', ''X-Real-IP''] else ip_headers)
               in case first_forwarded env s rq headers of Some ip \<Rightarrow> ip | None \<Rightarrow> peer))"

section \<open>Trust, exactly\<close>

lemma scheme_no_colon:
  "get_scheme_from seen s = Some (sch, rest) \<Longrightarrow> CHR '':'' \<notin> set seen \<Longrightarrow> CHR '':'' \<notin> set sch"
proof (induction seen s rule: get_scheme_from.induct)
  case (2 seen c s)
  have "\<not> is_alpha (CHR '':'') \<and> \<not> is_digit (CHR '':'')" by code_simp
  then have "CHR '':'' \<noteq> c" if "is_alpha c \<or> is_digit c \<or> c \<in> set ''+-.''" using that by auto
  then show ?case using 2 by (auto split: if_splits)
qed simp

lemma colon_ascii_lower [simp]: "ascii_lower c = CHR '':'' \<longleftrightarrow> c = CHR '':''"
proof -
  have "byte_of (ascii_lower c) = 58 \<longleftrightarrow> byte_of c = 58" by (auto simp: ascii_lower_def byte_of_char_of)
  then show ?thesis using byte_of_inject[of _ "CHR '':''"] by (simp add: byte_of_def)
qed

lemma parse_hier_scheme: "parse_hier scheme rest = Some u \<Longrightarrow> u_scheme u = scheme"
  by (auto simp: parse_hier_def Let_def split: if_splits option.splits)

lemma url_scheme_no_colon:
  assumes "url_parse s = Some u"
  shows "CHR '':'' \<notin> set (u_scheme u)"
proof -
  from assms obtain v where v: "parse_main v = Some u"
    by (auto simp: url_parse_def split: prod.splits option.splits if_splits)
  show ?thesis
  proof (cases "v = ''*''")
    case True
    then show ?thesis using v by (auto simp: parse_main_def split: if_splits)
  next
    case False
    then obtain sch rest where "get_scheme_from [] v = Some (sch, rest)" "u_scheme u = to_lower sch"
      using v parse_hier_scheme by (fastforce simp: parse_main_def split: option.splits if_splits)
    then show ?thesis using scheme_no_colon[of "[]" v sch rest]
      by (metis colon_ascii_lower imageE list.set_map to_lower_def empty_iff empty_set)
  qed
qed

lemma str_index_Some: "str_index s sub = Some i \<Longrightarrow> s = take i s @ sub @ drop (i + length sub) s"
proof (induction s arbitrary: i)
  case (Cons c s)
  show ?case
  proof (cases "has_prefix (c # s) sub")
    case True
    then obtain r where "c # s = sub @ r" by (auto simp: has_prefix_iff)
    moreover have "i = 0" using True Cons.prems by simp
    ultimately show ?thesis by simp
  next
    case False
    then show ?thesis using Cons by (auto split: if_splits)
  qed
qed (auto split: if_splits)

lemma str_index_None: "str_index s sub = None \<longleftrightarrow> \<not> str_contains s sub"
  by (induction s) auto

lemma str_index_first: "c \<notin> set a \<Longrightarrow> str_index (a @ (c # sub) @ b) (c # sub) = Some (length a)"
  by (induction a) (auto simp: has_prefix_def)

text \<open>An entry that stands for the sub-domains of \<open>d\<close> under the scheme.\<close>

definition wild_entry :: "string \<Rightarrow> string \<Rightarrow> string \<Rightarrow> bool" where
  "wild_entry t scheme d =
     (t = ''*.'' @ d \<and> \<not> str_contains t ''://'' \<or> t = ''://*.'' @ d \<or> t = scheme @ ''://*.'' @ d)"

lemma wildcard_match_iff:
  assumes "CHR '':'' \<notin> set (u_scheme u)"
  shows "wildcard_match t u \<longleftrightarrow> (\<exists>sub d. sub \<noteq> '''' \<and> u_host u = sub @ ''.'' @ d \<and> wild_entry t (u_scheme u) d)"
    (is "?L \<longleftrightarrow> ?R")
proof
  assume ?L
  then obtain scheme pattern where split: "(case str_index t ''://'' of Some i \<Rightarrow> (take i t, drop (i + 3) t) | None \<Rightarrow> ('''', t)) = (scheme, pattern)"
    and sch: "scheme = '''' \<or> scheme = u_scheme u"
    and pat: "has_prefix pattern ''*.''" "length (drop 1 pattern) < length (u_host u)" "has_suffix (u_host u) (drop 1 pattern)"
    by (auto simp: wildcard_match_def Let_def split: prod.splits if_splits)
  obtain d where d: "pattern = ''*.'' @ d" using pat(1) by (auto simp: has_prefix_iff)
  obtain sub where sub: "u_host u = sub @ ''.'' @ d" "sub \<noteq> ''''" using pat d by (auto simp: has_suffix_iff)
  have "wild_entry t (u_scheme u) d"
  proof (cases "str_index t ''://''")
    case None
    then have "t = pattern" using split by simp
    moreover have "\<not> str_contains t ''://''" using None str_index_None by blast
    ultimately show ?thesis using d unfolding wild_entry_def by blast
  next
    case (Some i)
    then have "scheme = take i t" "pattern = drop (i + length ''://'') t" using split by (auto simp: numeral_3_eq_3)
    then have "t = scheme @ ''://'' @ pattern" using str_index_Some[OF Some] by simp
    then show ?thesis using sch d by (auto simp: wild_entry_def)
  qed
  with sub show ?R by blast
next
  assume ?R
  then obtain sub d where sub: "sub \<noteq> ''''" "u_host u = sub @ ''.'' @ d" and e: "wild_entry t (u_scheme u) d" by blast
  have "(case str_index t ''://'' of Some i \<Rightarrow> (take i t, drop (i + 3) t) | None \<Rightarrow> ('''', t)) \<in>
      {('''', ''*.'' @ d), (u_scheme u, ''*.'' @ d)}"
    using e str_index_first[of "CHR '':''" "[]" "''//''" "''*.'' @ d"] str_index_first[OF assms, of "''//''" "''*.'' @ d"]
    by (auto simp: wild_entry_def str_index_None[symmetric] simp del: str_index.simps)
  then show ?L using sub by (auto simp: wildcard_match_def Let_def has_prefix_def)
qed

text \<open>
  C11: exactly these origins are trusted: the origin of BaseURL, the literal entries of
  TrustedOrigins (both up to letter case and one trailing slash), and the hosts with at
  least one more character in front of \<open>.d\<close> for an entry \<open>*.d\<close>, under the scheme of the
  entry if it has one. In particular \<open>d\<close> itself and \<open>.d\<close> do not match \<open>*.d\<close>.
\<close>

theorem origin_trust_exact:
  "is_trusted_origin cfg origin \<longleftrightarrow>
     origin \<noteq> '''' \<and>
     (is_base_origin cfg origin \<or>
      (\<exists>u. url_parse origin = Some u \<and>
        (\<exists>entry t. entry \<in> set (oc_trusted cfg) \<and> t = trim_suffix entry ''/'' \<and>
          (same_origin origin t \<and> CHR ''*'' \<notin> set t \<or>
           (\<exists>sub d. sub \<noteq> '''' \<and> u_host u = sub @ ''.'' @ d \<and> wild_entry t (u_scheme u) d)))))"
proof -
  have "trusted_entry origin u e \<longleftrightarrow> (\<exists>t. t = trim_suffix e ''/'' \<and>
      (same_origin origin t \<and> CHR ''*'' \<notin> set t \<or>
       (\<exists>sub d. sub \<noteq> '''' \<and> u_host u = sub @ ''.'' @ d \<and> wild_entry t (u_scheme u) d)))"
    if "url_parse origin = Some u" for u e
  proof -
    have "CHR ''*'' \<in> set t" if "wild_entry t (u_scheme u) d" for t d using that by (auto simp: wild_entry_def)
    then show ?thesis
      using wildcard_match_iff[OF url_scheme_no_colon[OF that], of "trim_suffix e ''/''"]
      by (simp add: trusted_entry_def str_contains_single Let_def) blast
  qed
  then show ?thesis
    by (simp add: is_trusted_origin_def list_ex_iff split: option.splits) blast
qed

definition demo_origins :: origin_config where
  "demo_origins = \<lparr>oc_base_url = ''https://app.test'', oc_trusted = [''https://*.shop.test''], oc_disable_csrf = False,
     oc_exempt = [], oc_session_cookie = ''s''\<rparr>"

lemma origin_trust_exact_witness:
  "is_trusted_origin demo_origins ''https://eu.shop.test'' \<and> \<not> is_trusted_origin demo_origins ''https://eushop.test''"
proof -
  have "url_parse ''https://eu.shop.test'' = Some \<lparr>u_scheme = ''https'', u_host = ''eu.shop.test''\<rparr>" by code_simp
  moreover have "trim_suffix ''https://*.shop.test'' ''/'' = ''https://*.shop.test''" by code_simp
  ultimately have 1: "is_trusted_origin demo_origins ''https://eu.shop.test''"
    by (subst origin_trust_exact) (auto simp: wild_entry_def demo_origins_def intro!: exI[of _ "''eu''"])
  have "\<not> is_trusted_origin demo_origins ''https://eushop.test''" by code_simp
  with 1 show ?thesis by blast
qed

section \<open>CSRF and CORS are one policy\<close>

text \<open>A request that the check does not wave through unseen.\<close>

definition checked :: "origin_config \<Rightarrow> request \<Rightarrow> string \<Rightarrow> string \<Rightarrow> bool" where
  "checked cfg rq path pattern =
     (\<not> oc_disable_csrf cfg \<and> rq_method rq \<notin> {''GET'', ''HEAD'', ''OPTIONS''} \<and> \<not> origin_exempt cfg path pattern)"

lemma request_origin_header: "header rq ''Origin'' \<noteq> '''' \<Longrightarrow> request_origin rq = header rq ''Origin''"
  by (simp add: request_origin_def)

text \<open>
  A state-changing request of a browser that carries the session cookie passes the
  check only if its origin is trusted, or if it names none at all and the browser vouches
  for the same site in Sec-Fetch-Site; any other one is refused with 403.
\<close>

theorem browser_requests_vouched:
  assumes "checked cfg rq path pattern" and "rq_cookie rq (oc_session_cookie cfg) \<noteq> None"
    and "has_prefix (header rq ''User-Agent'') ''Mozilla/''"
  shows "check_origin cfg rq path pattern =
     (if is_trusted_origin cfg (request_origin rq)
        \<or> request_origin rq = '''' \<and> is_same_site_request rq = Some True
      then None else Some (ApiError 403 ''INVALID_ORIGIN''))"
  using assms
  by (auto simp: check_origin_def checked_def Let_def err_invalid_origin_def is_trusted_origin_def split: option.splits)

text \<open>
  The CSRF check and CORS agree: a response lets a script of an origin read it with
  credentials exactly if the check lets that origin send state-changing requests. The
  allowed origin is then the request's own, never a wildcard, and a preflight request is
  answered without reaching the handlers, with 403 for every other origin.
\<close>

theorem cors_agrees_with_csrf:
  assumes "checked cfg rq path pattern" and "header rq ''Origin'' \<noteq> ''''"
    and "rq_method pre = ''OPTIONS''" and "header pre ''Origin'' = header rq ''Origin''"
  shows "((''Access-Control-Allow-Credentials'', ''true'') \<in> set (fst (cors cfg rq))
      \<longleftrightarrow> check_origin cfg rq path pattern = None)
    \<and> ((''Access-Control-Allow-Origin'', v) \<in> set (fst (cors cfg rq))
      \<longleftrightarrow> v = header rq ''Origin'' \<and> check_origin cfg rq path pattern = None)
    \<and> snd (cors cfg pre) = Answer (if check_origin cfg rq path pattern = None then 204 else 403)"
  using assms
  by (auto simp: cors_def check_origin_def checked_def request_origin_header Let_def)

section \<open>No open redirect\<close>

lemma equal_origin_base:
  assumes "valid_base_url (oc_base_url cfg)" and "url_parse (oc_base_url cfg) = Some b"
  shows "is_trusted_origin cfg (url_origin b)"
  using assms
  by (auto simp: valid_base_url_def is_trusted_origin_def is_base_origin_def same_origin_def url_origin_def split: option.splits)

text \<open>
  C12: no open redirect. With a BaseURL that passed validation, a redirect target is accepted in two cases only.
  Either it is a path on this server: it is appended to the BaseURL, whose origin is trusted, and the result
  can parse to nothing but that scheme and host. Or it is kept as it is, and then it parses as an absolute
  http(s) URL whose origin is trusted; a target that does not parse is never accepted.
\<close>

theorem safe_redirect_stays_trusted:
  assumes "valid_base_url (oc_base_url cfg)" and "safe_redirect cfg raw = Some to"
  shows "(has_prefix raw ''/'' \<and> \<not> has_prefix raw ''//'' \<and> to = oc_base_url cfg @ raw
       \<and> (\<exists>b. url_parse (oc_base_url cfg) = Some b \<and> is_trusted_origin cfg (url_origin b)
            \<and> (\<forall>u. url_parse to = Some u \<longrightarrow> u = b)))
     \<or> (to = raw \<and> (\<exists>u. url_parse raw = Some u \<and> u_scheme u \<in> {''http'', ''https''} \<and> is_trusted_origin cfg (url_origin u)))"
proof (cases "has_prefix raw ''/'' \<and> \<not> has_prefix raw ''//''")
  case True
  obtain b where b: "url_parse (oc_base_url cfg) = Some b" "u_scheme b \<noteq> ''''" "u_host b \<noteq> ''''"
    using assms(1) by (auto simp: valid_base_url_def split: option.splits)
  have to: "to = oc_base_url cfg @ raw"
    using assms True by (auto simp: safe_redirect_def valid_base_url_def trim_suffix_def split: if_splits)
  then have "u = b" if "url_parse to = Some u" for u using url_parse_append[OF b] True that by blast
  then show ?thesis using equal_origin_base[OF assms(1) b(1)] to True b(1) by blast
next
  case False
  then show ?thesis using assms(2) by (auto simp: safe_redirect_def split: if_splits option.splits)
qed

section \<open>The client address\<close>

lemma str_split_join_append: "str_split c (a @ c # b) = str_split c a @ str_split c b"
proof (induction a)
  case (Cons x a)
  then show ?case by (cases "str_split c a") auto
qed simp

lemma forwarded_chain_append: "forwarded_chain (vs @ ws) = forwarded_chain vs @ forwarded_chain ws"
  by (simp add: forwarded_chain_def)

lemma forwarded_chain_comma: "forwarded_chain [a @ '','' @ b] = forwarded_chain [a] @ forwarded_chain [b]"
  by (simp add: forwarded_chain_def str_split_join_append)

text \<open>Hops that are our own proxies.\<close>

definition own_hops :: "'ip proxy_env \<Rightarrow> 'ip proxy_set \<Rightarrow> string list \<Rightarrow> bool" where
  "own_hops env s hops =
     list_all (\<lambda>h. pe_parse env (hop_host env h) \<noteq> None \<and> proxy_contains s (pe_parse env (hop_host env h))) hops"

definition show_hop :: "'ip proxy_env \<Rightarrow> string \<Rightarrow> string" where
  "show_hop env hop = (case pe_parse env (hop_host env hop) of Some ip \<Rightarrow> pe_show env ip | None \<Rightarrow> hop_host env hop)"

lemma walk_own_hops:
  "own_hops env s hops \<Longrightarrow> \<not> proxy_contains s (pe_parse env (hop_host env hop)) \<Longrightarrow>
   walk_chain env s (hops @ hop # junk) = Some (show_hop env hop)"
  by (induction hops) (auto simp: own_hops_def show_hop_def split: option.splits)

text \<open>
  A client cannot choose its address. From a peer that is not a trusted proxy no
  header counts. Behind trusted proxies the address is the rightmost hop that is not one
  of them, whatever header lines and list entries the client sent along in front of it.
\<close>

theorem client_address_unspoofable:
  assumes "trust \<or> ip_headers \<noteq> []"
  shows "(\<not> proxy_contains s (pe_parse env (peer_host env (rq_remote rq))) \<longrightarrow>
      client_ip env s trust ip_headers rq = peer_host env (rq_remote rq))
    \<and> (proxy_contains s (pe_parse env (peer_host env (rq_remote rq))) \<and> ip_headers = [h] \<and>
      rq_values rq h = lines @ [spoofed @ '','' @ appended] \<and> forwarded_chain [appended] = hop # own \<and>
      own_hops env s own \<and> \<not> proxy_contains s (pe_parse env (hop_host env hop)) \<and> show_hop env hop \<noteq> '''' \<longrightarrow>
      client_ip env s trust ip_headers rq = show_hop env hop)"
proof (intro conjI impI; (elim conjE)?)
  show "\<not> proxy_contains s (pe_parse env (peer_host env (rq_remote rq))) \<Longrightarrow>
      client_ip env s trust ip_headers rq = peer_host env (rq_remote rq)"
    using assms by (simp add: client_ip_def Let_def)
  assume own: "own_hops env s own" and hop: "\<not> proxy_contains s (pe_parse env (hop_host env hop))"
    and hdr: "rq_values rq h = lines @ [spoofed @ '','' @ appended]" and ch: "forwarded_chain [appended] = hop # own"
    and peer: "proxy_contains s (pe_parse env (peer_host env (rq_remote rq)))" and ne: "show_hop env hop \<noteq> ''''"
    and h: "ip_headers = [h]"
  have "forwarded_chain (rq_values rq h) = forwarded_chain lines @ forwarded_chain [spoofed] @ hop # own"
    unfolding hdr by (subst forwarded_chain_append) (subst forwarded_chain_comma, simp add: ch)
  moreover have "own_hops env s (rev own)" using own by (simp add: own_hops_def)
  ultimately have "client_from_forwarded env s (rq_values rq h) = show_hop env hop"
    using walk_own_hops[OF _ hop, of "rev own" "rev (forwarded_chain lines @ forwarded_chain [spoofed])"]
    by (simp add: client_from_forwarded_def)
  then show "client_ip env s trust ip_headers rq = show_hop env hop"
    using peer ne h hdr by (simp add: client_ip_def)
qed

section \<open>Instances\<close>

definition demo_request :: "(string \<times> string) list \<Rightarrow> request" where
  "demo_request hs = \<lparr>rq_method = ''POST'', rq_values = (\<lambda>h. case map_of hs h of None \<Rightarrow> [] | Some v \<Rightarrow> [v]),
     rq_cookie = (\<lambda>c. if c = ''s'' then Some ''v'' else None), rq_remote = ''10.0.0.1:80''\<rparr>"

lemma browser_requests_vouched_witness:
  "check_origin demo_origins (demo_request [(''User-Agent'', ''Mozilla/5.0''), (''Origin'', ''https://evil.test'')]) ''/sign-out'' ''/sign-out''
     = Some (ApiError 403 ''INVALID_ORIGIN'')"
proof -
  let ?rq = "demo_request [(''User-Agent'', ''Mozilla/5.0''), (''Origin'', ''https://evil.test'')]"
  have "checked demo_origins ?rq ''/sign-out'' ''/sign-out'' \<and> rq_cookie ?rq (oc_session_cookie demo_origins) \<noteq> None
      \<and> has_prefix (header ?rq ''User-Agent'') ''Mozilla/''"
    by (simp add: checked_def demo_origins_def demo_request_def origin_exempt_def header_def has_prefix_def)
  moreover have "request_origin ?rq = ''https://evil.test'' \<and> \<not> is_trusted_origin demo_origins ''https://evil.test''"
    by code_simp
  ultimately show ?thesis
    using browser_requests_vouched[of demo_origins ?rq "''/sign-out''" "''/sign-out''"] by simp
qed

lemma cors_agrees_with_csrf_witness:
  "(''Access-Control-Allow-Origin'', ''https://eu.shop.test'') \<in>
     set (fst (cors demo_origins (demo_request [(''Origin'', ''https://eu.shop.test'')])))"
proof -
  let ?rq = "demo_request [(''Origin'', ''https://eu.shop.test'')]"
  have c: "checked demo_origins ?rq ''/sign-out'' ''/sign-out''" and o: "header ?rq ''Origin'' = ''https://eu.shop.test''"
    by (simp_all add: checked_def demo_origins_def demo_request_def origin_exempt_def header_def)
  have "check_origin demo_origins ?rq ''/sign-out'' ''/sign-out'' = None" by code_simp
  then show ?thesis
    using cors_agrees_with_csrf[OF c, of "?rq\<lparr>rq_method := ''OPTIONS''\<rparr>" "''https://eu.shop.test''"] o
    by (simp add: header_def)
qed

lemma safe_redirect_stays_trusted_witness:
  "is_trusted_origin demo_origins ''https://app.test'' \<and> is_trusted_origin demo_origins ''https://eu.shop.test''
   \<and> safe_redirect demo_origins ''/home'' = Some ''https://app.test/home''
   \<and> safe_redirect demo_origins ''//evil.test'' = None \<and> safe_redirect demo_origins ''https://app.test@evil.test'' = None"
proof -
  have v: "valid_base_url (oc_base_url demo_origins)" and r: "safe_redirect demo_origins ''/home'' = Some ''https://app.test/home''"
    and p: "url_parse ''https://app.test/home'' = Some \<lparr>u_scheme = ''https'', u_host = ''app.test''\<rparr>"
    and e: "safe_redirect demo_origins ''https://eu.shop.test/x'' = Some ''https://eu.shop.test/x''"
    and q: "url_parse ''https://eu.shop.test/x'' = Some \<lparr>u_scheme = ''https'', u_host = ''eu.shop.test''\<rparr>"
    and no: "safe_redirect demo_origins ''//evil.test'' = None" "safe_redirect demo_origins ''https://app.test@evil.test'' = None"
    by code_simp+
  moreover have "is_trusted_origin demo_origins ''https://app.test''"
    using safe_redirect_stays_trusted[OF v r] p by (fastforce simp: url_origin_def)
  moreover have "is_trusted_origin demo_origins ''https://eu.shop.test''"
    using safe_redirect_stays_trusted[OF v e] q by (fastforce simp: url_origin_def has_prefix_def)
  ultimately show ?thesis by blast
qed

lemma client_address_unspoofable_witness:
  "client_ip \<lparr>pe_split = (\<lambda>a. map_option fst (str_cut_last (CHR '':'') a)), pe_parse = Some, pe_show = id\<rparr>
     \<lparr>ps_all = False, ps_nets = [\<lambda>ip. has_prefix ip ''10.'']\<rparr> True [''X-Forwarded-For'']
     (demo_request [(''X-Forwarded-For'', ''1.1.1.1,10.0.0.9, 203.0.113.7, 10.0.0.2'')]) = ''203.0.113.7''"
proof -
  let ?env = "\<lparr>pe_split = (\<lambda>a. map_option fst (str_cut_last (CHR '':'') a)), pe_parse = Some, pe_show = id\<rparr>"
  let ?s = "\<lparr>ps_all = False, ps_nets = [\<lambda>ip. has_prefix ip ''10.'']\<rparr>"
  let ?rq = "demo_request [(''X-Forwarded-For'', ''1.1.1.1,10.0.0.9, 203.0.113.7, 10.0.0.2'')]"
  have peer: "proxy_contains ?s (pe_parse ?env (peer_host ?env (rq_remote ?rq)))" by code_simp
  have vals: "rq_values ?rq ''X-Forwarded-For'' = [] @ [''1.1.1.1,10.0.0.9'' @ '','' @ '' 203.0.113.7, 10.0.0.2'']"
    by (simp add: demo_request_def)
  have chain: "forwarded_chain ['' 203.0.113.7, 10.0.0.2''] = ''203.0.113.7'' # [''10.0.0.2'']" by code_simp
  have own: "own_hops ?env ?s [''10.0.0.2'']" by (simp add: own_hops_def hop_host_def trim_set_def proxy_contains_def has_prefix_def)
  have hop: "\<not> proxy_contains ?s (pe_parse ?env (hop_host ?env ''203.0.113.7''))" and "show_hop ?env ''203.0.113.7'' = ''203.0.113.7''"
    by (simp_all add: show_hop_def hop_host_def trim_set_def proxy_contains_def has_prefix_def)
  moreover have "True \<or> [''X-Forwarded-For''] \<noteq> []" by simp
  from client_address_unspoofable[OF this, of ?s ?env ?rq "''X-Forwarded-For''" "[]" "''1.1.1.1,10.0.0.9''"
      "'' 203.0.113.7, 10.0.0.2''" "''203.0.113.7''" "[''10.0.0.2'']", THEN conjunct2]
  have "show_hop ?env ''203.0.113.7'' \<noteq> '''' \<Longrightarrow>
      client_ip ?env ?s True [''X-Forwarded-For''] ?rq = show_hop ?env ''203.0.113.7''"
    using peer vals chain own hop by blast
  ultimately show ?thesis by simp
qed

end
