(* ===== verification/Cookies.thy ===== *)
theory Cookies
  imports Signing Origins Sessions "HOL-Library.Signed_Division"
begin

text \<open>
  Cookies (cookie.go) and the session cache kept in one of them (session.go): names and
  attributes, signed values, the session and OAuth state cookies, and the snapshot of a
  session that stands in for a database read until its deadline. HMAC, JSON and the
  printed length of a cookie are arguments.
\<close>

section \<open>Cookies and their attributes\<close>

datatype same_site = Same_Lax | Same_Strict | Same_None

record cookie =
  ck_name :: string
  ck_value :: string
  ck_path :: string
  ck_http_only :: bool
  ck_secure :: bool
  ck_same_site :: same_site
  ck_max_age :: int
  ck_expires :: "gtime option"
  ck_domain :: string

record cookie_config =
  cc_prefix :: string
  cc_base_url :: string
  cc_use_secure :: bool
  cc_same_site :: string
  cc_cross_domain :: "string option"
  cc_secret :: string
  cc_session_expires :: duration

definition use_secure_cookies :: "cookie_config \<Rightarrow> bool" where
  "use_secure_cookies cfg = (cc_use_secure cfg \<or> has_prefix (cc_base_url cfg) ''https://'')"

definition cookie_name :: "cookie_config \<Rightarrow> string \<Rightarrow> string" where
  "cookie_name cfg name =
     (if use_secure_cookies cfg then ''__Secure-'' @ cc_prefix cfg @ ''.'' @ name else cc_prefix cfg @ ''.'' @ name)"

definition same_site :: "cookie_config \<Rightarrow> same_site" where
  "same_site cfg =
     (let s = to_lower (cc_same_site cfg)
      in if s = ''strict'' then Same_Strict else if s = ''none'' then Same_None else Same_Lax)"

definition new_cookie :: "cookie_config \<Rightarrow> gtime \<Rightarrow> string \<Rightarrow> string \<Rightarrow> int \<Rightarrow> cookie" where
  "new_cookie cfg now name v max_age =
     \<lparr>ck_name = name, ck_value = v, ck_path = ''/'', ck_http_only = True, ck_secure = use_secure_cookies cfg,
      ck_same_site = same_site cfg,
      ck_max_age = (if max_age > 0 then max_age else if max_age < 0 then - 1 else 0),
      ck_expires = (if max_age > 0 then Some (time_add now (seconds max_age))
                    else if max_age < 0 then Some (of_unix 0) else None),
      ck_domain = (case cc_cross_domain cfg of Some d \<Rightarrow> if d \<noteq> '''' then d else '''' | None \<Rightarrow> '''')\<rparr>"

text \<open>What \<open>Config.validate\<close> demands of \<open>SameSite\<close>, for a parsed \<open>BaseURL\<close>.\<close>

definition same_site_allowed :: "cookie_config \<Rightarrow> bool" where
  "same_site_allowed cfg =
     (case url_parse (cc_base_url cfg) of
        None \<Rightarrow> False
      | Some u \<Rightarrow>
          u_scheme u \<noteq> '''' \<and> u_host u \<noteq> '''' \<and>
          \<not> (equal_fold (cc_same_site cfg) ''none'' \<and> \<not> (cc_use_secure cfg \<or> u_scheme u = ''https'')))"

section \<open>Signed values\<close>

definition split_signed :: "string \<Rightarrow> (string \<times> string) option" where
  "split_signed sv =
     (case str_cut_last (CHR ''.'') sv of
        None \<Rightarrow> None
      | Some (body, sig) \<Rightarrow> if body = '''' \<or> sig = '''' then None else Some (body, sig))"

type_synonym mac = "string \<Rightarrow> string \<Rightarrow> string"

definition sign_cookie_value :: "mac \<Rightarrow> cookie_config \<Rightarrow> string \<Rightarrow> string \<Rightarrow> string" where
  "sign_cookie_value hmac cfg purpose v = v @ ''.'' @ sign_hmac_purpose hmac (cc_secret cfg) purpose v"

definition verify_cookie_value :: "mac \<Rightarrow> cookie_config \<Rightarrow> string \<Rightarrow> string \<Rightarrow> string option" where
  "verify_cookie_value hmac cfg purpose sv =
     (case split_signed sv of
        None \<Rightarrow> None
      | Some (body, sig) \<Rightarrow> if \<not> verify_hmac_purpose hmac (cc_secret cfg) purpose body sig then None else Some body)"

definition session_token_purpose :: string where "session_token_purpose = ''session-token''"
definition cookie_cache_purpose :: string where "cookie_cache_purpose = ''session-data''"

section \<open>The session and state cookies\<close>

definition session_cookie_name :: "cookie_config \<Rightarrow> string" where
  "session_cookie_name cfg = cookie_name cfg ''session_token''"

definition set_session_cookie :: "mac \<Rightarrow> cookie_config \<Rightarrow> gtime \<Rightarrow> string \<Rightarrow> bool \<Rightarrow> cookie" where
  "set_session_cookie hmac cfg now token remember =
     (let max_age = (if \<not> remember then 0 else cc_session_expires cfg sdiv nsec_per_sec)
      in new_cookie cfg now (cookie_name cfg ''session_token'') (sign_cookie_value hmac cfg session_token_purpose token) max_age)"

definition clear_session_cookie :: "cookie_config \<Rightarrow> gtime \<Rightarrow> cookie list" where
  "clear_session_cookie cfg now =
     [new_cookie cfg now (cookie_name cfg ''session_token'') '''' (- 1),
      new_cookie cfg now (cookie_name cfg ''session_data'') '''' (- 1)]"

definition sign_token :: "mac \<Rightarrow> cookie_config \<Rightarrow> string \<Rightarrow> string" where
  "sign_token hmac cfg token = sign_cookie_value hmac cfg session_token_purpose token"

definition verify_signed_token :: "mac \<Rightarrow> cookie_config \<Rightarrow> string \<Rightarrow> string option" where
  "verify_signed_token hmac cfg sv = verify_cookie_value hmac cfg session_token_purpose sv"

text \<open>The cookies of a request, by name.\<close>

type_synonym jar = "string \<Rightarrow> string option"

definition read_session_token :: "mac \<Rightarrow> cookie_config \<Rightarrow> jar \<Rightarrow> string option" where
  "read_session_token hmac cfg jar =
     (case jar (cookie_name cfg ''session_token'') of
        None \<Rightarrow> None
      | Some v \<Rightarrow> if v = '''' then None else verify_cookie_value hmac cfg session_token_purpose v)"

definition set_oauth_state_cookie :: "cookie_config \<Rightarrow> gtime \<Rightarrow> string \<Rightarrow> bool \<Rightarrow> cookie" where
  "set_oauth_state_cookie cfg now state cross_site_post =
     (let c = new_cookie cfg now (cookie_name cfg ''oauth_state'') state 600
      in if cross_site_post \<and> ck_secure c then c\<lparr>ck_same_site := Same_None\<rparr>
         else if ck_same_site c = Same_Strict then c\<lparr>ck_same_site := Same_Lax\<rparr>
         else c)"

definition read_oauth_state_cookie :: "cookie_config \<Rightarrow> jar \<Rightarrow> string" where
  "read_oauth_state_cookie cfg jar = (case jar (cookie_name cfg ''oauth_state'') of None \<Rightarrow> '''' | Some v \<Rightarrow> v)"

definition clear_oauth_state_cookie :: "cookie_config \<Rightarrow> gtime \<Rightarrow> cookie" where
  "clear_oauth_state_cookie cfg now = new_cookie cfg now (cookie_name cfg ''oauth_state'') '''' (- 1)"

section \<open>The session cache\<close>

record cache_config =
  cache_enabled :: bool
  cache_max_age :: duration
  cache_user_fields :: "string list"

text \<open>The payload: session, user (nil when missing) and the deadline in Unix seconds.\<close>

record payload =
  pl_session_map :: "grec option"
  pl_user_map :: "grec option"
  pl_expires :: int

record codec =
  cd_marshal :: "payload \<Rightarrow> string option"
  cd_unmarshal :: "string \<Rightarrow> payload option"
  cd_size :: "cookie \<Rightarrow> nat"

definition max_cookie_cache_bytes :: nat where "max_cookie_cache_bytes = 4096"

definition cookie_cache_user :: "cache_config \<Rightarrow> user \<Rightarrow> grec" where
  "cookie_cache_user cc u = filter (\<lambda>p. fst p \<in> set user_keys \<or> fst p \<in> set (cache_user_fields cc)) (user_to_map u)"

definition cache_payload :: "cache_config \<Rightarrow> gtime \<Rightarrow> session_data \<Rightarrow> payload" where
  "cache_payload cc now sd =
     \<lparr>pl_session_map = Some (session_to_map (sd_session sd)), pl_user_map = Some (cookie_cache_user cc (sd_user sd)),
      pl_expires = unix_sec (time_add now (cache_max_age cc))\<rparr>"

definition set_cookie_cache ::
  "mac \<Rightarrow> codec \<Rightarrow> cookie_config \<Rightarrow> cache_config \<Rightarrow> gtime \<Rightarrow> session_data option \<Rightarrow> cookie list" where
  "set_cookie_cache hmac cd cfg cc now sdo =
     (case sdo of
        None \<Rightarrow> []
      | Some sd \<Rightarrow>
          if \<not> cache_enabled cc then []
          else if sd_from_cache sd then []
          else (case cd_marshal cd (cache_payload cc now sd) of
                  None \<Rightarrow> []
                | Some raw \<Rightarrow>
                    (let v = b64_encode raw;
                         sv = v @ ''.'' @ sign_hmac_purpose hmac (cc_secret cfg) cookie_cache_purpose v;
                         c = new_cookie cfg now (cookie_name cfg ''session_data'') sv (cache_max_age cc sdiv nsec_per_sec)
                     in if max_cookie_cache_bytes < cd_size cd c
                        then [new_cookie cfg now (cookie_name cfg ''session_data'') '''' (- 1)]
                        else [c])))"

definition read_cookie_cache :: "mac \<Rightarrow> codec \<Rightarrow> cookie_config \<Rightarrow> cache_config \<Rightarrow> gtime \<Rightarrow> jar \<Rightarrow> session_data option" where
  "read_cookie_cache hmac cd cfg cc now jar =
     (if \<not> cache_enabled cc then None
      else (case jar (cookie_name cfg ''session_data'') of
        None \<Rightarrow> None
      | Some v \<Rightarrow>
          (if v = '''' then None
           else (case split_signed v of
             None \<Rightarrow> None
           | Some (body, sig) \<Rightarrow>
               (if \<not> verify_hmac_purpose hmac (cc_secret cfg) cookie_cache_purpose body sig then None
                else (case Option.bind (b64_decode body) (cd_unmarshal cd) of
                  None \<Rightarrow> None
                | Some p \<Rightarrow>
                    (if unix_sec now \<ge> pl_expires p then None
                     else (case (pl_session_map p, pl_user_map p) of
                       (Some sm, Some um) \<Rightarrow>
                         if s_token (session_from_map sm) = '''' then None
                         else Some \<lparr>sd_session = session_from_map sm, sd_user = user_from_map um, sd_from_cache = True\<rparr>
                     | _ \<Rightarrow> None))))))))"

section \<open>Signed values cannot be forged\<close>

lemma split_signed_append:
  "v \<noteq> '''' \<Longrightarrow> sig \<noteq> '''' \<Longrightarrow> CHR ''.'' \<notin> set sig \<Longrightarrow> split_signed (v @ CHR ''.'' # sig) = Some (v, sig)"
  by (simp add: split_signed_def)

lemma split_signed_SomeD:
  "split_signed sv = Some (v, sig) \<Longrightarrow> sv = v @ ''.'' @ sig \<and> v \<noteq> '''' \<and> sig \<noteq> '''' \<and> CHR ''.'' \<notin> set sig"
  by (auto simp: split_signed_def split: option.splits prod.splits if_splits dest!: str_cut_last_SomeD)

lemma verify_cookie_value_iff:
  assumes "\<And>k m. hmac k m \<noteq> ''''"
  shows "verify_cookie_value hmac cfg purpose sv = Some v \<longleftrightarrow> v \<noteq> '''' \<and> sv = sign_cookie_value hmac cfg purpose v"
proof
  assume "verify_cookie_value hmac cfg purpose sv = Some v"
  then show "v \<noteq> '''' \<and> sv = sign_cookie_value hmac cfg purpose v"
    by (auto simp: verify_cookie_value_def verify_hmac_purpose_def sign_cookie_value_def split: option.splits if_splits
        dest!: split_signed_SomeD)
next
  assume r: "v \<noteq> '''' \<and> sv = sign_cookie_value hmac cfg purpose v"
  have "sign_hmac_purpose hmac (cc_secret cfg) purpose v \<noteq> ''''" using assms by (simp add: sign_eq)
  with r show "verify_cookie_value hmac cfg purpose sv = Some v"
    by (simp add: verify_cookie_value_def sign_cookie_value_def split_signed_append verify_hmac_purpose_def)
qed

text \<open>
  A signed cookie value is accepted exactly if it is, byte for byte, the value this
  server signs for that purpose, and the session token in it comes back unchanged. A value
  signed for one purpose is not accepted for another unless HMAC maps two different
  messages to the same digest.
\<close>

theorem signed_cookies_unforgeable:
  assumes "\<And>k m. hmac k m \<noteq> ''''"
  shows "(verify_cookie_value hmac cfg purpose sv = Some v \<longleftrightarrow> v \<noteq> '''' \<and> sv = sign_cookie_value hmac cfg purpose v)
    \<and> (token \<noteq> '''' \<longrightarrow> read_session_token hmac cfg
         [ck_name (set_session_cookie hmac cfg now token remember) \<mapsto> ck_value (set_session_cookie hmac cfg now token remember)]
         = Some token)
    \<and> (p \<noteq> q \<and> p \<noteq> '''' \<and> q \<noteq> '''' \<and> CHR 0x00 \<notin> set p \<and> CHR 0x00 \<notin> set q \<and>
         verify_cookie_value hmac cfg q (sign_cookie_value hmac cfg p v) \<noteq> None \<longrightarrow>
         (\<exists>m m'. m \<noteq> m' \<and> hmac (cc_secret cfg) m = hmac (cc_secret cfg) m'))"
proof (intro conjI impI)
  show "verify_cookie_value hmac cfg purpose sv = Some v \<longleftrightarrow> v \<noteq> '''' \<and> sv = sign_cookie_value hmac cfg purpose v"
    by (rule verify_cookie_value_iff[OF assms])
  assume "token \<noteq> ''''"
  then show "read_session_token hmac cfg
         [ck_name (set_session_cookie hmac cfg now token remember) \<mapsto> ck_value (set_session_cookie hmac cfg now token remember)]
         = Some token"
    using verify_cookie_value_iff[of hmac cfg session_token_purpose _ token, OF assms]
    by (simp add: read_session_token_def set_session_cookie_def new_cookie_def Let_def)
      (simp add: sign_cookie_value_def)
next
  assume pq: "p \<noteq> q \<and> p \<noteq> '''' \<and> q \<noteq> '''' \<and> CHR 0x00 \<notin> set p \<and> CHR 0x00 \<notin> set q \<and>
         verify_cookie_value hmac cfg q (sign_cookie_value hmac cfg p v) \<noteq> None"
  then obtain w where "sign_cookie_value hmac cfg p v = sign_cookie_value hmac cfg q w"
    using verify_cookie_value_iff[of hmac cfg q "sign_cookie_value hmac cfg p v", OF assms] by auto
  then have "v @ CHR ''.'' # sign_hmac_purpose hmac (cc_secret cfg) p v = w @ CHR ''.'' # sign_hmac_purpose hmac (cc_secret cfg) q w"
    by (simp add: sign_cookie_value_def)
  then have "sign_hmac_purpose hmac (cc_secret cfg) p v = sign_hmac_purpose hmac (cc_secret cfg) q w"
    using str_cut_last_append[of "CHR ''.''" "sign_hmac_purpose hmac (cc_secret cfg) p v" v]
      str_cut_last_append[of "CHR ''.''" "sign_hmac_purpose hmac (cc_secret cfg) q w" w] by simp
  then have "hmac (cc_secret cfg) (mac_message p v) = hmac (cc_secret cfg) (mac_message q w)" by (simp add: sign_eq)
  moreover have "mac_message p v \<noteq> mac_message q w" using pq mac_message_inject by blast
  ultimately show "\<exists>m m'. m \<noteq> m' \<and> hmac (cc_secret cfg) m = hmac (cc_secret cfg) m'" by blast
qed

section \<open>Attributes\<close>

definition issued_cookies :: "mac \<Rightarrow> codec \<Rightarrow> cookie_config \<Rightarrow> cache_config \<Rightarrow> cookie set" where
  "issued_cookies hmac cd cfg cc =
     {set_session_cookie hmac cfg now token remember | now token remember. True}
     \<union> (\<Union>now. set (clear_session_cookie cfg now))
     \<union> {set_oauth_state_cookie cfg now state cross | now state cross. True}
     \<union> {clear_oauth_state_cookie cfg now | now. True}
     \<union> (\<Union>now sdo. set (set_cookie_cache hmac cd cfg cc now sdo))"

lemma issued_new_cookie:
  assumes "c \<in> issued_cookies hmac cd cfg cc"
  shows "\<exists>now name v age site. c = (new_cookie cfg now (cookie_name cfg name) v age)\<lparr>ck_same_site := site\<rparr>
    \<and> (site = same_site cfg \<or> site = Same_Lax \<or> (site = Same_None \<and> use_secure_cookies cfg))"
proof -
  have base: "c = (new_cookie cfg now (cookie_name cfg name) v age)\<lparr>ck_same_site := same_site cfg\<rparr>
    \<longleftrightarrow> c = new_cookie cfg now (cookie_name cfg name) v age" for now name v age by (simp add: new_cookie_def)
  consider (plain) now name v age where "c = new_cookie cfg now (cookie_name cfg name) v age"
    | (state) now state cross where "c = set_oauth_state_cookie cfg now state cross"
  proof -
    from assms consider (a) now token remember where "c = set_session_cookie hmac cfg now token remember"
      | (b) now where "c \<in> set (clear_session_cookie cfg now)"
      | (c) now state cross where "c = set_oauth_state_cookie cfg now state cross"
      | (d) now where "c = clear_oauth_state_cookie cfg now"
      | (e) now sdo where "c \<in> set (set_cookie_cache hmac cd cfg cc now sdo)"
      unfolding issued_cookies_def by blast
    then show thesis
    proof cases
      case a
      then show ?thesis using plain unfolding set_session_cookie_def Let_def by blast
    next
      case b
      then show ?thesis using plain by (auto simp: clear_session_cookie_def)
    next
      case c
      then show ?thesis by (rule state)
    next
      case d
      then show ?thesis using plain unfolding clear_oauth_state_cookie_def by blast
    next
      case e
      then have "\<exists>v age. c = new_cookie cfg now (cookie_name cfg ''session_data'') v age"
        by (cases sdo; cases "cd_marshal cd (cache_payload cc now (the sdo))") (auto simp: set_cookie_cache_def Let_def split: if_split_asm)
      then show ?thesis using plain by blast
    qed
  qed
  then show ?thesis
  proof cases
    case plain
    then show ?thesis using base by blast
  next
    case state
    define b where "b = new_cookie cfg now (cookie_name cfg ''oauth_state'') state 600"
    have attrs: "ck_secure b = use_secure_cookies cfg" "b\<lparr>ck_same_site := same_site cfg\<rparr> = b"
      by (simp_all add: b_def new_cookie_def)
    have "\<exists>site. c = b\<lparr>ck_same_site := site\<rparr> \<and> (site = same_site cfg \<or> site = Same_Lax \<or> (site = Same_None \<and> use_secure_cookies cfg))"
      unfolding state set_oauth_state_cookie_def Let_def b_def[symmetric] attrs(1)
      using attrs(2) by (metis (full_types))
    then show ?thesis unfolding b_def by blast
  qed
qed

lemma has_prefix_before:
  assumes "has_prefix (p @ d # n) q" and "d \<notin> set q"
  shows "has_prefix p q"
proof -
  obtain r where "p @ d # n = q @ r" using assms(1) by (auto simp: has_prefix_iff)
  then consider us where "p = q @ us" | us where "p @ us = q" "d # n = us @ r" "us \<noteq> []"
    by (metis append_Nil2 append_eq_append_conv2)
  then show ?thesis using assms(2) by cases (auto simp: Cons_eq_append_conv)
qed

lemma lower_https_prefix:
  assumes u: "url_parse base = Some u" and https: "u_scheme u = ''https''" and host: "u_host u \<noteq> ''''"
    and low: "take 5 base = to_lower (take 5 base)"
  shows "has_prefix base ''https://''"
proof -
  define v where "v = fst (cut_or_all (CHR ''#'') base)"
  have "parse_main v = Some u"
    using u by (auto simp: url_parse_def v_def split: prod.splits option.splits if_splits)
  then obtain sch rest where sch: "get_scheme_from [] v = Some (sch, rest)"
    and h: "parse_hier (to_lower sch) (fst (cut_or_all (CHR ''?'') rest)) = Some u"
    using host by (auto simp: parse_main_def split: option.splits if_splits)
  have low': "to_lower sch = ''https''" using parse_hier_scheme[OF h] https by simp
  have "has_prefix (fst (cut_or_all (CHR ''?'') rest)) ''//''"
    using h host by (auto simp: parse_hier_def split: if_splits)
  then have rest: "has_prefix rest ''//''"
    by (auto simp: cut_or_all_def has_prefix_iff split: option.splits prod.splits dest!: str_cut_SomeD)
  have form: "seen @ w = sch @ '':'' @ rest" if "get_scheme_from seen w = Some (sch, rest)" "sch \<noteq> ''''" for seen w
    using that by (induction seen w rule: get_scheme_from.induct) (auto split: if_splits)
  have "v = sch @ '':'' @ rest" using form[OF sch] low' by (auto simp: to_lower_def)
  moreover have "\<exists>t. base = v @ t"
    unfolding v_def cut_or_all_def by (cases "str_cut (CHR ''#'') base") (auto dest!: str_cut_SomeD)
  ultimately obtain t where b: "base = sch @ '':'' @ rest @ t" by auto
  have "length sch = 5" using arg_cong[OF low', of length] by (simp add: to_lower_def)
  then have "take 5 base = sch" using b by simp
  then have "sch = ''https''" using low low' by simp
  then show ?thesis using b rest by (auto simp: has_prefix_iff)
qed

text \<open>
  Every cookie the library issues is hidden from scripts, covers the whole site, has
  the \<open>__Secure-\<close> name prefix exactly if it is marked Secure, and is never SameSite=None
  without Secure, in every configuration that passes validation, provided the scheme of
  BaseURL is written in lower case.
\<close>

theorem issued_cookies_protected:
  assumes "c \<in> issued_cookies hmac cd cfg cc" and "same_site_allowed cfg"
    and "take 5 (cc_base_url cfg) = to_lower (take 5 (cc_base_url cfg))"
    and "\<not> has_prefix (cc_prefix cfg) ''__Secure-''"
  shows "ck_http_only c \<and> ck_path c = ''/'' \<and> (has_prefix (ck_name c) ''__Secure-'' \<longleftrightarrow> ck_secure c)
    \<and> (ck_same_site c = Same_None \<longrightarrow> ck_secure c)"
proof -
  obtain now name v age site where c: "c = (new_cookie cfg now (cookie_name cfg name) v age)\<lparr>ck_same_site := site\<rparr>"
    and site: "site = same_site cfg \<or> site = Same_Lax \<or> (site = Same_None \<and> use_secure_cookies cfg)"
    using issued_new_cookie[OF assms(1)] by blast
  have "use_secure_cookies cfg" if "same_site cfg = Same_None"
  proof -
    have "equal_fold (cc_same_site cfg) ''none''"
      using that by (auto simp: same_site_def Let_def equal_fold_def to_lower_def[of "''none''"] ascii_lower_def byte_of_def split: if_splits)
    then show ?thesis
      using assms(2,3) lower_https_prefix[of "cc_base_url cfg"]
      by (auto simp: same_site_allowed_def use_secure_cookies_def split: option.splits)
  qed
  moreover have "has_prefix (cookie_name cfg name) ''__Secure-'' \<longleftrightarrow> use_secure_cookies cfg"
  proof (cases "use_secure_cookies cfg")
    case True
    then show ?thesis by (simp add: cookie_name_def has_prefix_def)
  next
    case False
    then show ?thesis
      using assms(4) has_prefix_before[of "cc_prefix cfg" "CHR ''.''" name "''__Secure-''"]
      by (auto simp: cookie_name_def)
  qed
  ultimately show ?thesis
    using c site by (auto simp: new_cookie_def)
qed

definition upper_https :: cookie_config where
  "upper_https = \<lparr>cc_prefix = ''app'', cc_base_url = ''HTTPS://app.test'', cc_use_secure = False, cc_same_site = ''none'',
     cc_cross_domain = None, cc_secret = ''k'', cc_session_expires = hours 1\<rparr>"

lemma issued_cookies_protected_witness:
  "ck_secure (set_oauth_state_cookie (upper_https\<lparr>cc_base_url := ''https://app.test''\<rparr>) 0 ''st'' False)"
proof -
  let ?cfg = "upper_https\<lparr>cc_base_url := ''https://app.test''\<rparr>"
  let ?c = "set_oauth_state_cookie ?cfg 0 ''st'' False"
  have "?c \<in> issued_cookies (\<lambda>_ _. ''m'') undefined ?cfg undefined" unfolding issued_cookies_def by blast
  moreover have "same_site_allowed ?cfg" by code_simp
  moreover have "take 5 (cc_base_url ?cfg) = to_lower (take 5 (cc_base_url ?cfg))" by code_simp
  moreover have "\<not> has_prefix (cc_prefix ?cfg) ''__Secure-''" by code_simp
  moreover have "ck_same_site ?c = Same_None" by code_simp
  ultimately show ?thesis using issued_cookies_protected by blast
qed

text \<open>
  The two readings of BaseURL disagree. Validation takes the scheme from the parsed
  URL, in lower case, while the Secure attribute looks for a literal \<open>https://\<close>: with
  \<open>HTTPS://\<close> and SameSite=None the configuration is accepted, but the session cookie goes
  out without Secure and without the \<open>__Secure-\<close> prefix, and browsers drop it.
\<close>

theorem uppercase_scheme_loses_secure:
  "same_site_allowed upper_https
   \<and> ck_same_site (set_session_cookie hmac upper_https now token remember) = Same_None
   \<and> \<not> ck_secure (set_session_cookie hmac upper_https now token remember)
   \<and> ck_name (set_session_cookie hmac upper_https now token remember) = ''app.session_token''"
proof -
  have "same_site_allowed upper_https" "same_site upper_https = Same_None" "\<not> use_secure_cookies upper_https"
    "cookie_name upper_https ''session_token'' = ''app.session_token''" by code_simp+
  then show ?thesis by (simp add: set_session_cookie_def new_cookie_def Let_def)
qed

section \<open>How old a cached session can be\<close>

text \<open>
  The server's side of the cache over time. \<open>w_messages\<close> are the messages it has
  authenticated, \<open>w_reads\<close> the sessions it read from the database, with the time. A
  response may refresh the cache from whatever session the request resolved to.
\<close>

record cache_world =
  w_now :: gtime
  w_messages :: "string list"
  w_reads :: "(gtime \<times> session_data) list"

text \<open>The value of a cache cookie that a response sets, when it sets one.\<close>

definition cache_body :: "codec \<Rightarrow> cache_config \<Rightarrow> gtime \<Rightarrow> session_data \<Rightarrow> string option" where
  "cache_body cd cc now sd = map_option b64_encode (cd_marshal cd (cache_payload cc now sd))"

text \<open>
  A client can present any bytes, but a signature that verifies was made by the server
  for exactly that message: this is what HMAC under a secret key provides.
\<close>

definition presentable :: "mac \<Rightarrow> cookie_config \<Rightarrow> string list \<Rightarrow> jar \<Rightarrow> bool" where
  "presentable hmac cfg messages jar \<longleftrightarrow>
     (\<forall>name v body sig purpose. jar name = Some v \<and> split_signed v = Some (body, sig) \<and>
        verify_hmac_purpose hmac (cc_secret cfg) purpose body sig \<longrightarrow> mac_message purpose body \<in> set messages)"

inductive cache_step :: "mac \<Rightarrow> codec \<Rightarrow> cookie_config \<Rightarrow> cache_config \<Rightarrow> cache_world \<Rightarrow> cache_world \<Rightarrow> bool"
  for hmac cd cfg cc where
  tick: "0 \<le> d \<Longrightarrow> cache_step hmac cd cfg cc w (w\<lparr>w_now := w_now w + d\<rparr>)"
| sign_session: "cache_step hmac cd cfg cc w
     (w\<lparr>w_messages := mac_message session_token_purpose token # w_messages w\<rparr>)"
| from_database: "\<not> sd_from_cache sd \<Longrightarrow>
     set_cookie_cache hmac cd cfg cc (w_now w) (Some sd) \<noteq> [] \<Longrightarrow> cache_body cd cc (w_now w) sd = Some body \<Longrightarrow>
     cache_step hmac cd cfg cc w
       (w\<lparr>w_messages := mac_message cookie_cache_purpose body # w_messages w, w_reads := (w_now w, sd) # w_reads w\<rparr>)"
| from_cache: "presentable hmac cfg (w_messages w) jar \<Longrightarrow>
     read_cookie_cache hmac cd cfg cc (w_now w) jar = Some sd \<Longrightarrow>
     set_cookie_cache hmac cd cfg cc (w_now w) (Some sd) = cs \<Longrightarrow>
     cache_step hmac cd cfg cc w
       (w\<lparr>w_messages := map (\<lambda>c. mac_message cookie_cache_purpose (fst (the (split_signed (ck_value c))))) cs @ w_messages w\<rparr>)"

text \<open>A session as it comes back from the payload of a snapshot.\<close>

definition snapshot_of :: "codec \<Rightarrow> cache_config \<Rightarrow> gtime \<Rightarrow> session_data \<Rightarrow> session_data \<Rightarrow> bool" where
  "snapshot_of cd cc t sd0 sd \<longleftrightarrow>
     (\<exists>raw p sm um. cd_marshal cd (cache_payload cc t sd0) = Some raw \<and> cd_unmarshal cd raw = Some p \<and>
        pl_session_map p = Some sm \<and> pl_user_map p = Some um \<and>
        sd = \<lparr>sd_session = session_from_map sm, sd_user = user_from_map um, sd_from_cache = True\<rparr>)"

definition keeps_deadline :: "codec \<Rightarrow> bool" where
  "keeps_deadline cd \<longleftrightarrow>
     (\<forall>p raw. cd_marshal cd p = Some raw \<longrightarrow> (\<exists>p'. cd_unmarshal cd raw = Some p' \<and> pl_expires p' = pl_expires p))"

text \<open>Every authenticated cache payload is the snapshot of a database read.\<close>

definition cache_inv :: "codec \<Rightarrow> cache_config \<Rightarrow> cache_world \<Rightarrow> bool" where
  "cache_inv cd cc w \<longleftrightarrow>
     (\<forall>body. mac_message cookie_cache_purpose body \<in> set (w_messages w) \<longrightarrow>
        (\<exists>(t, sd)\<in>set (w_reads w). \<not> sd_from_cache sd \<and> t \<le> w_now w \<and> cache_body cd cc t sd = Some body))"

lemma purposes_differ:
  "mac_message session_token_purpose token \<noteq> mac_message cookie_cache_purpose body"
  "mac_message cookie_cache_purpose body = mac_message cookie_cache_purpose body' \<longleftrightarrow> body = body'"
  using mac_message_inject[of session_token_purpose cookie_cache_purpose token body]
    mac_message_inject[of cookie_cache_purpose cookie_cache_purpose body body']
  by (simp_all add: session_token_purpose_def cookie_cache_purpose_def)

lemma cache_never_refreshed_from_itself:
  "read_cookie_cache hmac cd cfg cc now jar = Some sd \<Longrightarrow> set_cookie_cache hmac cd cfg cc t (Some sd) = []"
  by (auto simp: read_cookie_cache_def set_cookie_cache_def split: if_split_asm option.split_asm prod.split_asm)

lemma cache_inv_step: "cache_step hmac cd cfg cc w w' \<Longrightarrow> cache_inv cd cc w \<Longrightarrow> cache_inv cd cc w'"
proof (induction rule: cache_step.induct)
  case (tick d w)
  then show ?case by (auto simp: cache_inv_def case_prod_beta) (metis add_increasing2)
next
  case (sign_session w token)
  then show ?case using purposes_differ(1)[of token, symmetric] by (auto simp: cache_inv_def)
next
  case (from_database sd w body)
  then show ?case by (fastforce simp: cache_inv_def purposes_differ)
next
  case (from_cache w jar sd cs)
  then show ?case using cache_never_refreshed_from_itself by auto
qed

definition reachable_cache :: "mac \<Rightarrow> codec \<Rightarrow> cookie_config \<Rightarrow> cache_config \<Rightarrow> cache_world \<Rightarrow> bool" where
  "reachable_cache hmac cd cfg cc w \<longleftrightarrow>
     (\<exists>t. (cache_step hmac cd cfg cc)\<^sup>*\<^sup>* \<lparr>w_now = t, w_messages = [], w_reads = []\<rparr> w)"

lemma reachable_cache_inv: "reachable_cache hmac cd cfg cc w \<Longrightarrow> cache_inv cd cc w"
proof -
  have "cache_inv cd cc w" if "(cache_step hmac cd cfg cc)\<^sup>*\<^sup>* v w" "cache_inv cd cc v" for v
    using that by (induction rule: rtranclp_induct) (auto intro: cache_inv_step)
  then show "reachable_cache hmac cd cfg cc w \<Longrightarrow> cache_inv cd cc w"
    by (auto simp: reachable_cache_def cache_inv_def)
qed

text \<open>
  C13: the cache cannot defer revocation. However often a client polls, and whichever
  cookies it kept, a session answered from the cache is the snapshot of a database read
  that is less than CookieCache.MaxAge old, not of another cached answer, and nothing the
  server signs for other purposes passes for a snapshot.
\<close>

theorem cached_session_age_bounded:
  assumes "reachable_cache hmac cd cfg cc w" and "presentable hmac cfg (w_messages w) jar" and "keeps_deadline cd"
    and "read_cookie_cache hmac cd cfg cc (w_now w) jar = Some sd"
  shows "\<exists>t sd0. (t, sd0) \<in> set (w_reads w) \<and> \<not> sd_from_cache sd0 \<and> t \<le> w_now w \<and> w_now w < t + cache_max_age cc \<and>
    snapshot_of cd cc t sd0 sd"
proof -
  obtain v body sig raw p sm um where v: "jar (cookie_name cfg ''session_data'') = Some v" "split_signed v = Some (body, sig)"
      "verify_hmac_purpose hmac (cc_secret cfg) cookie_cache_purpose body sig"
    and raw: "b64_decode body = Some raw" "cd_unmarshal cd raw = Some p" and fresh: "unix_sec (w_now w) < pl_expires p"
    and maps: "pl_session_map p = Some sm" "pl_user_map p = Some um"
    and sd: "sd = \<lparr>sd_session = session_from_map sm, sd_user = user_from_map um, sd_from_cache = True\<rparr>"
    using assms(4)
    by (auto simp: read_cookie_cache_def not_le bind_eq_Some_conv split: if_split_asm option.split_asm prod.split_asm)
  have "mac_message cookie_cache_purpose body \<in> set (w_messages w)" using assms(2) v by (auto simp: presentable_def)
  then obtain t sd0 where read: "(t, sd0) \<in> set (w_reads w)" "\<not> sd_from_cache sd0" "t \<le> w_now w"
    and body: "cache_body cd cc t sd0 = Some body"
    using reachable_cache_inv[OF assms(1)] by (auto simp: cache_inv_def)
  have m: "cd_marshal cd (cache_payload cc t sd0) = Some raw"
    using body raw(1) by (auto simp: cache_body_def)
  then have "pl_expires p = pl_expires (cache_payload cc t sd0)"
    using assms(3) raw(2) unfolding keeps_deadline_def by fastforce
  then have "pl_expires p = unix_sec (t + cache_max_age cc)" by (simp add: cache_payload_def time_add_def)
  then have "w_now w < t + cache_max_age cc"
    using fresh zdiv_mono1[of "t + cache_max_age cc" "w_now w" nsec_per_sec]
    by (cases "w_now w < t + cache_max_age cc") (auto simp: unix_sec_def nsec_per_sec_def)
  with read m raw maps sd show ?thesis unfolding snapshot_of_def by blast
qed

section \<open>Instances\<close>

definition demo_hmac :: mac where "demo_hmac k m = ''h'' @ m"

lemma signed_cookies_unforgeable_witness:
  "verify_cookie_value demo_hmac upper_https ''session-token'' (sign_cookie_value demo_hmac upper_https ''session-token'' ''tok'') = Some ''tok''
   \<and> verify_cookie_value demo_hmac upper_https ''session-data'' (sign_cookie_value demo_hmac upper_https ''session-token'' ''tok'') = None"
proof -
  have ne: "\<And>k m. demo_hmac k m \<noteq> ''''" by (simp add: demo_hmac_def)
  have z: "CHR 0x00 \<notin> set ''session-token''" "CHR 0x00 \<notin> set ''session-data''" by simp_all
  have inj: "\<not> (\<exists>m m'. m \<noteq> m' \<and> demo_hmac (cc_secret upper_https) m = demo_hmac (cc_secret upper_https) m')"
    by (simp add: demo_hmac_def)
  show ?thesis
    using signed_cookies_unforgeable[of demo_hmac upper_https "''session-token''" "sign_cookie_value demo_hmac upper_https ''session-token'' ''tok''"
        "''tok''" "''tok''" 0 True "''session-token''" "''session-data''", OF ne] z inj by auto
qed

definition demo_codec :: codec where
  "demo_codec = \<lparr>cd_marshal = (\<lambda>p. if min_int64 \<le> pl_expires p \<and> pl_expires p \<le> max_int64 then Some (itoa (pl_expires p)) else None),
     cd_unmarshal = (\<lambda>s. map_option (\<lambda>n. \<lparr>pl_session_map = Some [(''token'', VStr ''t'')], pl_user_map = Some [], pl_expires = n\<rparr>)
       (parse_int64 s)),
     cd_size = (\<lambda>_. 0)\<rparr>"

definition demo_cache :: cache_config where
  "demo_cache = \<lparr>cache_enabled = True, cache_max_age = minutes 5, cache_user_fields = []\<rparr>"

lemma cached_session_age_bounded_witness:
  "\<exists>w jar sd t sd0. reachable_cache demo_hmac demo_codec upper_https demo_cache w
     \<and> read_cookie_cache demo_hmac demo_codec upper_https demo_cache (w_now w) jar = Some sd
     \<and> (t, sd0) \<in> set (w_reads w) \<and> w_now w < t + minutes 5"
proof -
  let ?sd = "\<lparr>sd_session = session_from_map [(''token'', VStr ''t'')], sd_user = user_from_map [], sd_from_cache = False\<rparr>"
  let ?body = "b64_encode (itoa 300)"
  let ?v = "sign_cookie_value demo_hmac upper_https cookie_cache_purpose ?body"
  let ?start = "\<lparr>w_now = 0, w_messages = [], w_reads = []\<rparr>"
  let ?w = "?start\<lparr>w_messages := mac_message cookie_cache_purpose ?body # w_messages ?start, w_reads := (w_now ?start, ?sd) # w_reads ?start\<rparr>"
  let ?jar = "[cookie_name upper_https ''session_data'' \<mapsto> ?v]"
  have ne: "\<And>k m. demo_hmac k m \<noteq> ''''" by (simp add: demo_hmac_def)
  have exp: "unix_sec (minutes 5) = 300" by (simp add: time_defs)
  have body: "cache_body demo_codec demo_cache (w_now ?start) ?sd = Some ?body"
    by (simp add: cache_body_def demo_codec_def cache_payload_def demo_cache_def time_add_def exp min_int64_def max_int64_def)
  have set: "set_cookie_cache demo_hmac demo_codec upper_https demo_cache (w_now ?start) (Some ?sd) \<noteq> []"
    by (simp add: set_cookie_cache_def demo_codec_def cache_payload_def demo_cache_def time_add_def exp min_int64_def max_int64_def Let_def)
  have "cache_step demo_hmac demo_codec upper_https demo_cache ?start ?w"
    using cache_step.from_database[of ?sd demo_hmac demo_codec upper_https demo_cache ?start ?body, OF _ set body] by simp
  then have reach: "reachable_cache demo_hmac demo_codec upper_https demo_cache ?w"
    unfolding reachable_cache_def by blast
  have sig: "sign_hmac_purpose demo_hmac (cc_secret upper_https) p b = sign_hmac_purpose demo_hmac (cc_secret upper_https) q b' \<longleftrightarrow>
      mac_message p b = mac_message q b'" for p q b b'
    by (simp add: sign_eq demo_hmac_def)
  have split: "split_signed ?v = Some (?body, sign_hmac_purpose demo_hmac (cc_secret upper_https) cookie_cache_purpose ?body)"
    unfolding sign_cookie_value_def append_Cons append_Nil
    by (rule split_signed_append) (simp_all add: sign_eq ne, simp add: itoa_def)
  have pres: "presentable demo_hmac upper_https (w_messages ?w) ?jar"
    using split sig unfolding presentable_def verify_hmac_purpose_def by auto
  have keeps: "keeps_deadline demo_codec"
    by (auto simp: keeps_deadline_def demo_codec_def parse_itoa split: if_splits)
  have "parse_int64 (itoa 300) = Some 300" by (rule parse_itoa) (simp_all add: min_int64_def max_int64_def)
  then have "\<exists>sd. read_cookie_cache demo_hmac demo_codec upper_https demo_cache (w_now ?w) ?jar = Some sd"
    using split
    by (simp add: read_cookie_cache_def demo_cache_def verify_hmac_purpose_def demo_codec_def unix_sec_def session_from_map_def rget_def)
      (simp add: sign_cookie_value_def)
  then obtain sd where read: "read_cookie_cache demo_hmac demo_codec upper_https demo_cache (w_now ?w) ?jar = Some sd" by blast
  have "cache_max_age demo_cache = minutes 5" by (simp add: demo_cache_def)
  then show ?thesis
    using cached_session_age_bounded[OF reach pres keeps read] reach read by metis
qed

end
