(* ===== verification/Json_Enc.thy ===== *)
theory Json_Enc
  imports Models Go_Url
begin

text \<open>
  The hand-written JSON encoder of storage/json.go: the string escaper with its shared
  cursor, the values of extra fields, and the objects written for users and sessions.
  UTF-8 decoding is Go's; printing a time or a finite float is an argument.
\<close>

section \<open>UTF-8\<close>

definition byte_in :: "nat \<Rightarrow> nat \<Rightarrow> char \<Rightarrow> bool" where
  "byte_in lo hi c = (lo \<le> byte_of c \<and> byte_of c \<le> hi)"

definition rune_error :: nat where "rune_error = 0xFFFD"

text \<open>\<open>utf8.DecodeRuneInString\<close>: the rune and its size; an invalid byte is \<open>(RuneError, 1)\<close>.\<close>

fun decode_rune :: "string \<Rightarrow> nat \<times> nat" where
  "decode_rune [] = (rune_error, 0)"
| "decode_rune (c # s) =
     (let b = byte_of c
      in if b < 128 then (b, 1)
         else if 194 \<le> b \<and> b \<le> 223 then
           (case s of
              x # _ \<Rightarrow> if byte_in 128 191 x then ((b - 192) * 64 + (byte_of x - 128), 2) else (rune_error, 1)
            | _ \<Rightarrow> (rune_error, 1))
         else if 224 \<le> b \<and> b \<le> 239 then
           (case s of
              x # y # _ \<Rightarrow>
                if byte_in (if b = 224 then 160 else 128) (if b = 237 then 159 else 191) x \<and> byte_in 128 191 y
                then ((b - 224) * 4096 + (byte_of x - 128) * 64 + (byte_of y - 128), 3) else (rune_error, 1)
            | _ \<Rightarrow> (rune_error, 1))
         else if 240 \<le> b \<and> b \<le> 244 then
           (case s of
              x # y # z # _ \<Rightarrow>
                if byte_in (if b = 240 then 144 else 128) (if b = 244 then 143 else 191) x
                   \<and> byte_in 128 191 y \<and> byte_in 128 191 z
                then ((b - 240) * 262144 + (byte_of x - 128) * 4096 + (byte_of y - 128) * 64 + (byte_of z - 128), 4)
                else (rune_error, 1)
            | _ \<Rightarrow> (rune_error, 1))
         else (rune_error, 1))"

lemma decode_rune_size: "s \<noteq> [] \<Longrightarrow> 0 < snd (decode_rune s)"
  by (cases s) (auto simp: Let_def split: list.split)

lemma decode_rune_length: "snd (decode_rune s) \<le> length s"
  by (cases s) (auto simp: Let_def split: list.split)

text \<open>\<open>utf8.AppendRune\<close>.\<close>

definition encode_rune :: "nat \<Rightarrow> string" where
  "encode_rune r =
     map char_of
       (if r < 128 then [r]
        else if r < 2048 then [192 + r div 64, 128 + r mod 64]
        else if 55296 \<le> r \<and> r \<le> 57343 \<or> 1114111 < r then [239, 191, 189]
        else if r < 65536 then [224 + r div 4096, 128 + r div 64 mod 64, 128 + r mod 64]
        else [240 + r div 262144, 128 + r div 4096 mod 64, 128 + r div 64 mod 64, 128 + r mod 64])"

definition valid_rune :: "nat \<Rightarrow> bool" where
  "valid_rune r = (r < 55296 \<or> 57343 < r \<and> r \<le> 1114111)"

lemma base64_digits:
  fixes r :: nat
  shows "r = (r div 4096) * 4096 + (r div 64 mod 64) * 64 + r mod 64"
    and "r = (r div 262144) * 262144 + (r div 4096 mod 64) * 4096 + (r div 64 mod 64) * 64 + r mod 64"
proof -
  have d: "r div 64 div 64 = r div 4096" "r div 4096 div 64 = r div 262144" by (simp_all add: div_mult2_eq[symmetric])
  show 1: "r = (r div 4096) * 4096 + (r div 64 mod 64) * 64 + r mod 64"
    using div_mult_mod_eq[of r 64] div_mult_mod_eq[of "r div 64" 64] d(1) by linarith
  show "r = (r div 262144) * 262144 + (r div 4096 mod 64) * 4096 + (r div 64 mod 64) * 64 + r mod 64"
    using 1 div_mult_mod_eq[of "r div 4096" 64] d(2) by linarith
qed

lemma base64_place:
  fixes u v w q :: nat
  assumes "v < 64" "w < 64" "q < 64"
  shows "(u * 64 + v) div 64 = u" "(u * 64 + v) mod 64 = v"
    "(u * 4096 + v * 64 + w) div 4096 = u" "(u * 4096 + v * 64 + w) div 64 mod 64 = v" "(u * 4096 + v * 64 + w) mod 64 = w"
    "(u * 262144 + v * 4096 + w * 64 + q) div 262144 = u" "(u * 262144 + v * 4096 + w * 64 + q) div 4096 mod 64 = v"
    "(u * 262144 + v * 4096 + w * 64 + q) div 64 mod 64 = w" "(u * 262144 + v * 4096 + w * 64 + q) mod 64 = q"
proof -
  have step: "(a * 64 + b) div 64 = a \<and> (a * 64 + b) mod 64 = b" if "b < 64" for a b :: nat using that by simp
  have two: "u * 4096 + v * 64 + w = (u * 64 + v) * 64 + w" by simp
  have three: "u * 262144 + v * 4096 + w * 64 + q = ((u * 64 + v) * 64 + w) * 64 + q" by simp
  have d: "n div 4096 = n div 64 div 64" "n div 262144 = n div 64 div 64 div 64" for n :: nat
    by (simp_all add: div_mult2_eq[symmetric])
  show "(u * 64 + v) div 64 = u" "(u * 64 + v) mod 64 = v" using step assms by blast+
  show "(u * 4096 + v * 64 + w) div 4096 = u" "(u * 4096 + v * 64 + w) div 64 mod 64 = v" "(u * 4096 + v * 64 + w) mod 64 = w"
    unfolding two d using step assms by metis+
  show "(u * 262144 + v * 4096 + w * 64 + q) div 262144 = u" "(u * 262144 + v * 4096 + w * 64 + q) div 4096 mod 64 = v"
    "(u * 262144 + v * 4096 + w * 64 + q) div 64 mod 64 = w" "(u * 262144 + v * 4096 + w * 64 + q) mod 64 = q"
    unfolding three d using step assms by metis+
qed

lemma decode_encode:
  assumes "valid_rune r"
  shows "decode_rune (encode_rune r @ t) = (r, length (encode_rune r))"
proof -
  have r: "r \<le> 1114111" "\<not> (55296 \<le> r \<and> r \<le> 57343)" using assms by (auto simp: valid_rune_def)
  consider "r < 128" | "128 \<le> r" "r < 2048" | "2048 \<le> r" "r < 65536" | "65536 \<le> r" by linarith
  then show ?thesis
  proof cases
    case 1
    then show ?thesis by (simp add: encode_rune_def byte_of_char_of)
  next
    case 2
    define b x where "b = 192 + r div 64" and "x = 128 + r mod 64"
    have *: "194 \<le> b" "b \<le> 223" "128 \<le> x" "x \<le> 191" "(b - 192) * 64 + (x - 128) = r"
      using 2 by (auto simp: b_def x_def)
    have e: "encode_rune r = [char_of b, char_of x]" using 2 by (simp add: encode_rune_def b_def x_def)
    show ?thesis unfolding e using * by (simp add: byte_of_char_of byte_in_def)
  next
    case 3
    define b x y where "b = 224 + r div 4096" and "x = 128 + r div 64 mod 64" and "y = 128 + r mod 64"
    have *: "224 \<le> b" "b \<le> 239" "128 \<le> x" "x \<le> 191" "128 \<le> y" "y \<le> 191"
      using 3 by (auto simp: b_def x_def y_def)
    have lo: "b = 224 \<Longrightarrow> 160 \<le> x" and hi: "b = 237 \<Longrightarrow> x \<le> 159"
    proof -
      have d: "r div 4096 = r div 64 div 64" by (simp add: div_mult2_eq[symmetric])
      have m: "r div 64 = (r div 4096) * 64 + r div 64 mod 64" using div_mult_mod_eq[of "r div 64" 64] d by linarith
      have "32 \<le> r div 64" using 3(1) div_le_mono[of 2048 r 64] by simp
      then show "b = 224 \<Longrightarrow> 160 \<le> x" using m by (auto simp: b_def x_def)
      have "r div 64 < 864 \<or> 896 \<le> r div 64" using r(2) div_le_mono[of 57344 r 64] by auto
      then show "b = 237 \<Longrightarrow> x \<le> 159" using m by (auto simp: b_def x_def)
    qed
    have v: "(b - 224) * 4096 + (x - 128) * 64 + (y - 128) = r"
      using base64_digits(1)[of r] by (simp add: b_def x_def y_def)
    have e: "encode_rune r = [char_of b, char_of x, char_of y]" using 3 r by (auto simp: encode_rune_def b_def x_def y_def)
    have "byte_in (if b = 224 then 160 else 128) (if b = 237 then 159 else 191) (char_of x)" "byte_in 128 191 (char_of y)"
      using * lo hi by (simp_all add: byte_in_def byte_of_char_of)
    then show ?thesis unfolding e using * v by (simp add: byte_of_char_of)
  next
    case 4
    define b x y z where "b = 240 + r div 262144" and "x = 128 + r div 4096 mod 64" and "y = 128 + r div 64 mod 64"
      and "z = 128 + r mod 64"
    have *: "240 \<le> b" "b \<le> 244" "128 \<le> x" "x \<le> 191" "128 \<le> y" "y \<le> 191" "128 \<le> z" "z \<le> 191"
      using 4 r(1) by (auto simp: b_def x_def y_def z_def)
    have lo: "b = 240 \<Longrightarrow> 144 \<le> x" and hi: "b = 244 \<Longrightarrow> x \<le> 143"
    proof -
      have d: "r div 262144 = r div 4096 div 64" by (simp add: div_mult2_eq[symmetric])
      have m: "r div 4096 = (r div 262144) * 64 + r div 4096 mod 64" using div_mult_mod_eq[of "r div 4096" 64] d by linarith
      have "16 \<le> r div 4096" using 4 div_le_mono[of 65536 r 4096] by simp
      then show "b = 240 \<Longrightarrow> 144 \<le> x" using m by (auto simp: b_def x_def)
      have "r div 4096 \<le> 271" using r(1) div_le_mono[of r 1114111 4096] by simp
      then show "b = 244 \<Longrightarrow> x \<le> 143" using m by (auto simp: b_def x_def)
    qed
    have v: "(b - 240) * 262144 + (x - 128) * 4096 + (y - 128) * 64 + (z - 128) = r"
      using base64_digits(2)[of r] by (simp add: b_def x_def y_def z_def)
    have e: "encode_rune r = [char_of b, char_of x, char_of y, char_of z]"
      using 4 r by (simp add: encode_rune_def b_def x_def y_def z_def)
    have "byte_in (if b = 240 then 144 else 128) (if b = 244 then 143 else 191) (char_of x)" "byte_in 128 191 (char_of y)"
      "byte_in 128 191 (char_of z)"
      using * lo hi by (simp_all add: byte_in_def byte_of_char_of)
    then show ?thesis unfolding e using * v by (simp add: byte_of_char_of)
  qed
qed

lemma char_of_byte: "char_of (byte_of c) = c" by (simp add: byte_of_def)

text \<open>Every decoding step is an invalid byte or a rune in its shortest encoding.\<close>

lemma decode_rune_cases:
  assumes "s \<noteq> []"
  obtains (invalid) "decode_rune s = (rune_error, 1)" "128 \<le> byte_of (hd s)"
  | (rune) r t where "valid_rune r" "s = encode_rune r @ t" "decode_rune s = (r, length (encode_rune r))"
proof (cases "decode_rune s = (rune_error, 1) \<and> 128 \<le> byte_of (hd s)")
  case True
  then show ?thesis by (auto intro: invalid)
next
  case ok: False
  obtain c s' where s: "s = c # s'" using assms by (cases s) auto
  define b where "b = byte_of c"
  have c: "c = char_of b" by (simp add: b_def char_of_byte)
  have "\<exists>r t. valid_rune r \<and> s = encode_rune r @ t"
  proof (cases "b < 128")
    case True
    then have "valid_rune b \<and> s = encode_rune b @ s'" by (simp add: valid_rune_def encode_rune_def s c)
    then show ?thesis by blast
  next
    case False
    then have ok: "decode_rune s \<noteq> (rune_error, 1)" using ok by (simp add: s b_def)
    consider "194 \<le> b" "b \<le> 223" | "224 \<le> b" "b \<le> 239" | "240 \<le> b" "b \<le> 244"
      using ok False by (auto simp: s b_def Let_def split: if_splits)
    then show ?thesis
    proof cases
      case 1
      then obtain x t where t: "s' = x # t" "byte_in 128 191 x"
        using ok by (auto simp: s b_def Let_def split: list.splits if_splits)
      define u v where "u = b - 192" and "v = byte_of x - 128"
      define r where "r = u * 64 + v"
      have uv: "2 \<le> u" "u \<le> 31" "v < 64" "b = 192 + u" "byte_of x = 128 + v"
        using 1 t(2) by (auto simp: byte_in_def u_def v_def)
      have "128 \<le> r" "r < 2048" "192 + r div 64 = b" "128 + r mod 64 = byte_of x"
        using uv base64_place(1,2)[of v 0 0 u] by (auto simp: r_def)
      then have "valid_rune r \<and> s = encode_rune r @ t"
        by (simp add: valid_rune_def encode_rune_def s t(1) c char_of_byte)
      then show ?thesis by blast
    next
      case 2
      then obtain x y t where t: "s' = x # y # t" "byte_in (if b = 224 then 160 else 128) (if b = 237 then 159 else 191) x"
          "byte_in 128 191 y"
        using ok by (auto simp: s b_def Let_def split: list.splits if_splits)
      define r where "r = (b - 224) * 4096 + (byte_of x - 128) * 64 + (byte_of y - 128)"
      define u v w where "u = b - 224" and "v = byte_of x - 128" and "w = byte_of y - 128"
      have uvw: "u \<le> 15" "v < 64" "w < 64" "b = 224 + u" "byte_of x = 128 + v" "byte_of y = 128 + w"
        "u = 0 \<Longrightarrow> 32 \<le> v" "u = 13 \<Longrightarrow> v < 32"
        using 2 t(2,3) by (auto simp: byte_in_def u_def v_def w_def split: if_splits)
      have r: "r = u * 4096 + v * 64 + w" by (simp add: r_def u_def v_def w_def)
      have "2048 \<le> r" "r < 65536" using uvw r by (cases "u = 0"; simp)+
      moreover have "r div 4096 = u" "r div 64 mod 64 = v" "r mod 64 = w"
        using uvw(2,3) base64_place(3,4,5)[of v w 0 u] unfolding r by simp_all
      moreover have "r < 55296 \<or> 57343 < r" using uvw(1,2,3,8) unfolding r by (cases "u = 13"; cases "u < 13") auto
      ultimately have "valid_rune r \<and> s = encode_rune r @ t"
        using uvw(4,5,6) by (auto simp: valid_rune_def encode_rune_def s t(1) c char_of_byte uvw(5)[symmetric] uvw(6)[symmetric])
      then show ?thesis by blast
    next
      case 3
      then obtain x y z t where t: "s' = x # y # z # t"
          "byte_in (if b = 240 then 144 else 128) (if b = 244 then 143 else 191) x" "byte_in 128 191 y" "byte_in 128 191 z"
        using ok by (auto simp: s b_def Let_def split: list.splits if_splits)
      define u v w q where "u = b - 240" and "v = byte_of x - 128" and "w = byte_of y - 128" and "q = byte_of z - 128"
      have uvw: "u \<le> 4" "v < 64" "w < 64" "q < 64" "b = 240 + u" "byte_of x = 128 + v" "byte_of y = 128 + w" "byte_of z = 128 + q"
        "u = 0 \<Longrightarrow> 16 \<le> v" "u = 4 \<Longrightarrow> v < 16"
        using 3 t(2,3,4) by (auto simp: byte_in_def u_def v_def w_def q_def split: if_splits)
      define r where "r = u * 262144 + v * 4096 + w * 64 + q"
      have "65536 \<le> r" using uvw(9) by (cases "u = 0") (auto simp: r_def)
      moreover have "r \<le> 1114111" using uvw(1,2,3,4,10) by (cases "u = 4") (auto simp: r_def)
      moreover have "r div 262144 = u" "r div 4096 mod 64 = v" "r div 64 mod 64 = w" "r mod 64 = q"
        using uvw(2,3,4) base64_place(6,7,8,9)[of v w q u] unfolding r_def by simp_all
      ultimately have "valid_rune r \<and> s = encode_rune r @ t"
        using uvw(5,6,7,8)
        by (auto simp: valid_rune_def encode_rune_def s t(1) c char_of_byte uvw(6)[symmetric] uvw(7)[symmetric] uvw(8)[symmetric])
      then show ?thesis by blast
    qed
  qed
  then show ?thesis using rune decode_encode by blast
qed

section \<open>Strings\<close>

definition hex_digits :: string where "hex_digits = ''0123456789abcdef''"

definition line_sep :: nat where "line_sep = 0x2028"
definition paragraph_sep :: nat where "paragraph_sep = 0x2029"

text \<open>A character constant and an escape with two hex digits.\<close>

definition escape_byte :: "nat \<Rightarrow> string" where
  "escape_byte c =
     CHR 0x5C # (if c = 34 then [CHR 0x22] else if c = 92 then [CHR 0x5C]
        else if c = 10 then ''n'' else if c = 13 then ''r'' else if c = 9 then ''t''
        else ''u00'' @ [hex_digits ! (c div 16), hex_digits ! (c mod 16)])"

definition plain_byte :: "nat \<Rightarrow> bool" where
  "plain_byte c = (32 \<le> c \<and> c \<noteq> 34 \<and> c \<noteq> 92 \<and> c \<noteq> 60 \<and> c \<noteq> 62 \<and> c \<noteq> 38)"

definition str_slice :: "'a list \<Rightarrow> nat \<Rightarrow> nat \<Rightarrow> 'a list" where
  "str_slice s i j = take (j - i) (drop i s)"

text \<open>The loop: \<open>start\<close> is where the run not yet copied begins, \<open>i\<close> the cursor.\<close>

function json_loop :: "string \<Rightarrow> nat \<Rightarrow> nat \<Rightarrow> string \<Rightarrow> string" where
  "json_loop s start i dst =
     (if length s \<le> i then dst @ drop start s
      else (let c = byte_of (s ! i)
            in if c < 128 then
                 (if plain_byte c then json_loop s start (i + 1) dst
                  else json_loop s (i + 1) (i + 1) (dst @ str_slice s start i @ escape_byte c))
               else (let (r, sz) = decode_rune (drop i s)
                     in if r = rune_error \<and> sz = 1 then
                          json_loop s (i + sz) (i + sz) (dst @ str_slice s start i @ CHR 0x5C # ''ufffd'')
                        else if r = line_sep \<or> r = paragraph_sep then
                          json_loop s (i + sz) (i + sz)
                            (dst @ str_slice s start i @ CHR 0x5C # ''u202'' @ [hex_digits ! (r mod 16)])
                        else json_loop s start (i + sz) dst)))"
  by pat_completeness auto
termination
proof (relation "measure (\<lambda>(s, start, i, dst). length s - i)", goal_cases)
  case (4 s start i dst c p r sz)
  then have "0 < sz" using decode_rune_size[of "drop i s"] by (metis drop_eq_Nil snd_conv)
  with 4 show ?case by simp
next
  case (5 s start i dst c p r sz)
  then have "0 < sz" using decode_rune_size[of "drop i s"] by (metis drop_eq_Nil snd_conv)
  with 5 show ?case by simp
next
  case (6 s start i dst c p r sz)
  then have "0 < sz" using decode_rune_size[of "drop i s"] by (metis drop_eq_Nil snd_conv)
  with 6 show ?case by simp
qed auto

declare json_loop.simps [simp del]

definition append_json_string :: "string \<Rightarrow> string \<Rightarrow> string" where
  "append_json_string dst s = json_loop s 0 0 (dst @ [CHR 0x22]) @ [CHR 0x22]"

section \<open>Values, keys and objects\<close>

record json_env =
  je_time :: "gtime \<Rightarrow> string"
  je_float :: "rat \<Rightarrow> string"

definition append_json_key :: "string \<times> bool \<Rightarrow> string \<Rightarrow> string \<times> bool" where
  "append_json_key st key =
     (case st of (dst, first) \<Rightarrow> (append_json_string (if first then dst else dst @ '','') key @ '':'', False))"

definition append_json_time :: "json_env \<Rightarrow> string \<Rightarrow> gtime \<Rightarrow> string" where
  "append_json_time env dst t = dst @ [CHR 0x22] @ je_time env t @ [CHR 0x22]"

definition append_json_bool :: "string \<Rightarrow> bool \<Rightarrow> string" where
  "append_json_bool dst v = dst @ (if v then ''true'' else ''false'')"

definition append_json_float :: "json_env \<Rightarrow> string \<Rightarrow> gfloat \<Rightarrow> string" where
  "append_json_float env dst f = dst @ (case f of FFin q \<Rightarrow> je_float env q | _ \<Rightarrow> ''null'')"

definition append_json_value :: "json_env \<Rightarrow> string \<Rightarrow> gval \<Rightarrow> string" where
  "append_json_value env dst v =
     (case v of
        VNil \<Rightarrow> dst @ ''null''
      | VStr s \<Rightarrow> append_json_string dst s
      | VBool b \<Rightarrow> append_json_bool dst b
      | VInt n \<Rightarrow> dst @ itoa n
      | VInt32 n \<Rightarrow> dst @ itoa n
      | VInt64 n \<Rightarrow> dst @ itoa n
      | VF64 f \<Rightarrow> append_json_float env dst f
      | VF32 f \<Rightarrow> append_json_float env dst f
      | VTime t \<Rightarrow> append_json_time env dst t)"

fun append_extra :: "json_env \<Rightarrow> string \<times> bool \<Rightarrow> grec \<Rightarrow> string list \<Rightarrow> string \<times> bool" where
  "append_extra env st [] reserved = st"
| "append_extra env st ((k, v) # extra) reserved =
     (if k \<in> set reserved then append_extra env st extra reserved
      else (case append_json_key st k of
              (dst, first) \<Rightarrow> append_extra env (append_json_value env dst v, first) extra reserved))"

definition user_reserved :: "string list" where
  "user_reserved = [''id'', ''name'', ''email'', ''emailVerified'', ''image'', ''createdAt'', ''updatedAt'']"

definition session_reserved :: "string list" where
  "session_reserved = [''id'', ''userId'', ''expiresAt'', ''ipAddress'', ''userAgent'', ''createdAt'', ''updatedAt'', ''token'']"

text \<open>A key followed by a value.\<close>

definition put_with :: "(string \<Rightarrow> 'a \<Rightarrow> string) \<Rightarrow> string \<Rightarrow> 'a \<Rightarrow> string \<times> bool \<Rightarrow> string \<times> bool" where
  "put_with app key v st = (case append_json_key st key of (dst, first) \<Rightarrow> (app dst v, first))"

definition user_marshal :: "json_env \<Rightarrow> user \<Rightarrow> string" where
  "user_marshal env u =
     (let st0 = (''{'', True);
          st1 = put_with append_json_string ''id'' (u_id u) st0;
          st2 = put_with append_json_string ''name'' (u_name u) st1;
          st3 = put_with append_json_string ''email'' (u_email u) st2;
          st4 = put_with append_json_bool ''emailVerified'' (u_email_verified u) st3;
          st5 = (if u_image u \<noteq> '''' then put_with append_json_string ''image'' (u_image u) st4 else st4);
          st6 = put_with (append_json_time env) ''createdAt'' (u_created u) st5;
          st7 = put_with (append_json_time env) ''updatedAt'' (u_updated u) st6
      in fst (append_extra env st7 (u_extra u) user_reserved) @ ''}'')"

definition session_marshal :: "json_env \<Rightarrow> session \<Rightarrow> string" where
  "session_marshal env s =
     (let st0 = (''{'', True);
          st1 = put_with append_json_string ''id'' (s_id s) st0;
          st2 = put_with append_json_string ''userId'' (s_user s) st1;
          st3 = put_with (append_json_time env) ''expiresAt'' (s_expires s) st2;
          st4 = (if s_ip s \<noteq> '''' then put_with append_json_string ''ipAddress'' (s_ip s) st3 else st3);
          st5 = (if s_agent s \<noteq> '''' then put_with append_json_string ''userAgent'' (s_agent s) st4 else st4);
          st6 = put_with (append_json_time env) ''createdAt'' (s_created s) st5;
          st7 = put_with (append_json_time env) ''updatedAt'' (s_updated s) st6
      in fst (append_extra env st7 (s_extra s) session_reserved) @ ''}'')"

section \<open>The reference escaper\<close>

text \<open>
  One rune at a time, without a cursor: \<open>naiveJSONString\<close>, the differential reference of
  storage/fuzz_test.go.
\<close>

definition rune_text :: "nat \<Rightarrow> nat \<Rightarrow> string" where
  "rune_text r sz =
     (if r = rune_error \<and> sz = 1 then CHR 0x5C # ''ufffd''
      else if r = line_sep \<or> r = paragraph_sep then CHR 0x5C # ''u202'' @ [hex_digits ! (r mod 16)]
      else if r < 128 \<and> \<not> plain_byte r then escape_byte r
      else encode_rune r)"

function naive_json :: "string \<Rightarrow> string" where
  "naive_json s = (if s = [] then [] else rune_text (fst (decode_rune s)) (snd (decode_rune s)) @ naive_json (drop (snd (decode_rune s)) s))"
  by pat_completeness auto
termination by (relation "measure length") (auto simp: decode_rune_size)

declare naive_json.simps [simp del]

section \<open>The cursor does what the reference does\<close>

lemma encode_rune_not_Nil [simp]: "encode_rune r \<noteq> []" by (simp add: encode_rune_def)

lemma naive_json_Nil [simp]: "naive_json [] = []" by (simp add: naive_json.simps)

lemma naive_json_rune:
  "valid_rune r \<Longrightarrow> naive_json (encode_rune r @ t) = rune_text r (length (encode_rune r)) @ naive_json t"
  using naive_json.simps[of "encode_rune r @ t"] by (simp add: decode_encode)

lemma naive_json_invalid:
  "s \<noteq> [] \<Longrightarrow> decode_rune s = (rune_error, 1) \<Longrightarrow> naive_json s = CHR 0x5C # ''ufffd'' @ naive_json (tl s)"
  using naive_json.simps[of s] by (simp add: rune_text_def drop_Suc)

lemma encode_ascii: "byte_of c < 128 \<Longrightarrow> encode_rune (byte_of c) = [c]"
  by (simp add: encode_rune_def char_of_byte)

lemma encode_high:
  assumes "128 \<le> r" "c \<in> set (encode_rune r)" "valid_rune r"
  shows "128 \<le> byte_of c"
proof -
  have "128 \<le> b" "b < 256" if "c = char_of b" "b \<in> {192 + r div 64, 128 + r mod 64} \<and> r < 2048 \<or>
      b \<in> {224 + r div 4096, 128 + r div 64 mod 64, 128 + r mod 64} \<and> r < 65536 \<or>
      b \<in> {240 + r div 262144, 128 + r div 4096 mod 64, 128 + r div 64 mod 64, 128 + r mod 64} \<or> b \<in> {239, 191, 189}" for b
    using that assms(3) by (auto simp: valid_rune_def)
  moreover obtain b where "c = char_of b" "b \<in> {192 + r div 64, 128 + r mod 64} \<and> r < 2048 \<or>
      b \<in> {224 + r div 4096, 128 + r div 64 mod 64, 128 + r mod 64} \<and> r < 65536 \<or>
      b \<in> {240 + r div 262144, 128 + r div 4096 mod 64, 128 + r div 64 mod 64, 128 + r mod 64} \<or> b \<in> {239, 191, 189}"
    using assms(1,2) by (auto simp: encode_rune_def split: if_splits)
  ultimately show ?thesis by (metis byte_of_char_of)
qed

lemma encode_not_bad: "valid_rune r \<Longrightarrow> r = rune_error \<Longrightarrow> length (encode_rune r) \<noteq> Suc 0"
  by (simp add: encode_rune_def rune_error_def)

lemma rune_text_valid:
  "valid_rune r \<Longrightarrow> rune_text r (length (encode_rune r)) =
     (if r = line_sep \<or> r = paragraph_sep then CHR 0x5C # ''u202'' @ [hex_digits ! (r mod 16)]
      else if r < 128 \<and> \<not> plain_byte r then escape_byte r else encode_rune r)"
  using encode_not_bad[of r] by (auto simp: rune_text_def)

lemma slice_extend: "start \<le> i \<Longrightarrow> i + n \<le> length s \<Longrightarrow> str_slice s start (i + n) = str_slice s start i @ take n (drop i s)"
proof -
  assume le: "start \<le> i" "i + n \<le> length s"
  then have "i + n - start = (i - start) + n" by simp
  then have "str_slice s start (i + n) = take (i - start) (drop start s) @ take n (drop (i - start) (drop start s))"
    unfolding str_slice_def by (simp only: take_add)
  then show ?thesis using le by (simp add: str_slice_def)
qed

lemma slice_self [simp]: "str_slice s i i = []" by (simp add: str_slice_def)

lemma rune_text_ascii: "r < 128 \<Longrightarrow> rune_text r (Suc 0) = (if plain_byte r then [char_of r] else escape_byte r)"
  by (simp add: rune_text_def rune_error_def line_sep_def paragraph_sep_def encode_rune_def)

lemma json_loop_naive:
  "start \<le> i \<Longrightarrow> i \<le> length s \<Longrightarrow> json_loop s start i dst = dst @ str_slice s start i @ naive_json (drop i s)"
proof (induction s start i dst rule: json_loop.induct)
  case (1 s start i dst)
  show ?case
  proof (cases "length s \<le> i")
    case True
    then show ?thesis using 1 by (simp add: json_loop.simps str_slice_def)
  next
    case False
    then have drop: "drop i s = s ! i # drop (Suc i) s" by (simp add: Cons_nth_drop_Suc)
    let ?c = "byte_of (s ! i)"
    show ?thesis
    proof (cases "?c < 128")
      case True
      have valid: "valid_rune ?c" using True by (simp add: valid_rune_def)
      have naive: "naive_json (drop i s) = (if plain_byte ?c then [s ! i] else escape_byte ?c) @ naive_json (drop (Suc i) s)"
        using naive_json_rune[OF valid, of "drop (Suc i) s"] True
        by (simp add: drop encode_ascii rune_text_ascii char_of_byte)
      have ext: "str_slice s start (Suc i) = str_slice s start i @ [s ! i]"
        using slice_extend[of start i 1 s] "1.prems" False drop by simp
      show ?thesis
        using "1.IH"(1)[OF False refl True] "1.IH"(2)[OF False refl True] "1.prems" False True naive ext
        by (subst json_loop.simps) (auto simp: Let_def)
    next
      case high: False
      obtain r n where rn: "decode_rune (drop i s) = (r, n)" by force
      have ne: "drop i s \<noteq> []" using False by simp
      show ?thesis
        using ne
      proof (cases rule: decode_rune_cases)
        case invalid
        then have "json_loop s start i dst = json_loop s (i + 1) (i + 1) (dst @ str_slice s start i @ CHR 0x5C # ''ufffd'')"
          using False high by (subst json_loop.simps) (simp add: Let_def)
        also have "\<dots> = dst @ str_slice s start i @ CHR 0x5C # ''ufffd'' @ naive_json (drop (Suc i) s)"
          using "1.IH"(3)[OF False refl high refl invalid(1)[symmetric]] False by simp
        also have "CHR 0x5C # ''ufffd'' @ naive_json (drop (Suc i) s) = naive_json (drop i s)"
          using naive_json_invalid[OF ne invalid(1)] by (simp add: drop)
        finally show ?thesis by simp
      next
        case (rune r t)
        let ?n = "length (encode_rune r)"
        have hi: "128 \<le> r"
        proof (rule ccontr)
          assume "\<not> 128 \<le> r"
          then have "s ! i = char_of r" using rune(2) drop by (simp add: encode_rune_def)
          then show False using high \<open>\<not> 128 \<le> r\<close> by (simp add: byte_of_char_of)
        qed
        have n: "i + ?n \<le> length s" "drop (i + ?n) s = t" "take ?n (drop i s) = encode_rune r"
        proof -
          show "i + ?n \<le> length s" using False arg_cong[OF rune(2), of length] by simp
          show "drop (i + ?n) s = t" "take ?n (drop i s) = encode_rune r"
            using rune(2) by (simp_all add: add.commute[of i] drop_drop[symmetric])
        qed
        have ext: "str_slice s start (i + ?n) = str_slice s start i @ encode_rune r"
          using slice_extend[OF "1.prems"(1) n(1)] n(3) by simp
        have not_bad: "\<not> (r = rune_error \<and> ?n = 1)" using encode_not_bad[OF rune(1)] by auto
        have naive: "naive_json (drop i s) = rune_text r ?n @ naive_json t"
          using naive_json_rune[OF rune(1)] rune(2) by simp
        show ?thesis
        proof (cases "r = line_sep \<or> r = paragraph_sep")
          case True
          then have "json_loop s start i dst = json_loop s (i + ?n) (i + ?n)
              (dst @ str_slice s start i @ CHR 0x5C # ''u202'' @ [hex_digits ! (r mod 16)])"
            using False high rune(3) not_bad by (subst json_loop.simps) (auto simp: Let_def)
          also have "\<dots> = dst @ str_slice s start i @ CHR 0x5C # ''u202'' @ [hex_digits ! (r mod 16)] @ naive_json t"
            using "1.IH"(4)[OF False refl high refl rune(3)[symmetric] not_bad True] n by simp
          finally show ?thesis using naive True by (simp add: rune_text_valid[OF rune(1)])
        next
          case other: False
          then have "json_loop s start i dst = json_loop s start (i + ?n) dst"
            using False high rune(3) not_bad by (subst json_loop.simps) (auto simp: Let_def)
          also have "\<dots> = dst @ str_slice s start i @ encode_rune r @ naive_json t"
            using "1.IH"(5)[OF False refl high refl rune(3)[symmetric] not_bad other] "1.prems" n ext by simp
          finally show ?thesis using naive other hi by (simp add: rune_text_valid[OF rune(1)])
        qed
      qed
    qed
  qed
qed

text \<open>
  The escaper with its shared cursor writes exactly what the reference writes one
  rune at a time, behind what the buffer already holds and between quotes: no run of
  bytes is dropped, duplicated or taken from the wrong place.
\<close>

theorem json_cursor_is_reference:
  "append_json_string dst s = dst @ [CHR 0x22] @ naive_json s @ [CHR 0x22]"
  by (simp add: append_json_string_def json_loop_naive)

section \<open>The output is safe and reads back\<close>

text \<open>Runes that can neither leave a JSON string nor a script block.\<close>

definition safe_rune :: "nat \<Rightarrow> bool" where
  "safe_rune r = (valid_rune r \<and> 32 \<le> r \<and> r \<notin> {60, 62, 38, line_sep, paragraph_sep})"

definition rune_runes :: "nat \<Rightarrow> nat \<Rightarrow> nat list" where
  "rune_runes r n = (if r < 128 \<or> r = line_sep \<or> r = paragraph_sep \<or> r = rune_error \<and> n = 1 then map byte_of (rune_text r n) else [r])"

lemma encode_bytes: "list_all (\<lambda>c. byte_of c < 128) w \<Longrightarrow> concat (map encode_rune (map byte_of w)) = w"
  by (induction w) (simp_all add: encode_ascii)

definition safe_ascii :: "char \<Rightarrow> bool" where
  "safe_ascii c = (32 \<le> byte_of c \<and> byte_of c < 128 \<and> byte_of c \<notin> {60, 62, 38})"

lemma safe_ascii_rune: "safe_ascii c \<Longrightarrow> byte_of c < 128 \<and> safe_rune (byte_of c)"
  by (auto simp: safe_ascii_def safe_rune_def valid_rune_def line_sep_def paragraph_sep_def)

lemma hex_digit_safe: "d < 16 \<Longrightarrow> safe_ascii (hex_digits ! d)"
proof -
  have "list_all (\<lambda>d. safe_ascii (hex_digits ! d)) [0..<16]" by code_simp
  then show "d < 16 \<Longrightarrow> safe_ascii (hex_digits ! d)" by (simp add: list_all_iff)
qed

lemma ascii_text_safe:
  assumes "r < 128 \<or> r = line_sep \<or> r = paragraph_sep \<or> r = rune_error \<and> n = 1"
  shows "list_all safe_ascii (rune_text r n)"
proof -
  have c: "list_all safe_ascii (CHR 0x5C # ''ufffd'' @ ''u202'' @ ''u00nrt'' @ [CHR 0x22, CHR 0x5C])" by code_simp
  have plain: "safe_ascii (char_of r)" if "r < 128" "plain_byte r"
    using that by (auto simp: byte_of_char_of safe_ascii_def plain_byte_def)
  have "r div 16 < 16" if "r < 128" using that by simp
  then show ?thesis
    using assms c plain hex_digit_safe[of "r div 16"] hex_digit_safe[of "r mod 16"]
    by (auto simp: rune_text_def escape_byte_def encode_rune_def)
qed

lemma rune_text_safe:
  assumes "valid_rune r"
  shows "rune_text r n = concat (map encode_rune (rune_runes r n)) \<and> list_all safe_rune (rune_runes r n)"
proof (cases "r < 128 \<or> r = line_sep \<or> r = paragraph_sep \<or> r = rune_error \<and> n = 1")
  case True
  have a: "list_all (\<lambda>c. byte_of c < 128) (rune_text r n)" and b: "list_all safe_rune (map byte_of (rune_text r n))"
    using ascii_text_safe[OF True] safe_ascii_rune by (auto simp: list_all_iff)
  have "rune_runes r n = map byte_of (rune_text r n)" using True by (simp add: rune_runes_def)
  then show ?thesis using encode_bytes[OF a] b by simp
next
  case False
  then show ?thesis using assms by (auto simp: rune_runes_def rune_text_def safe_rune_def)
qed

lemma naive_json_safe: "\<exists>rs. naive_json s = concat (map encode_rune rs) \<and> list_all safe_rune rs"
proof (induction "length s" arbitrary: s rule: less_induct)
  case less
  show ?case
  proof (cases "s = []")
    case True
    then show ?thesis by (intro exI[of _ "[]"]) simp
  next
    case False
    then show ?thesis
    proof (cases rule: decode_rune_cases)
      case invalid
      obtain rs where rs: "naive_json (tl s) = concat (map encode_rune rs)" "list_all safe_rune rs"
        using less[of "tl s"] False by (cases s) auto
      have v: "valid_rune rune_error" by (simp add: valid_rune_def rune_error_def)
      have "naive_json s = rune_text rune_error 1 @ naive_json (tl s)"
        using naive_json_invalid[OF False invalid(1)] by (simp add: rune_text_def)
      then show ?thesis
        using rs rune_text_safe[OF v, of 1] by (intro exI[of _ "rune_runes rune_error 1 @ rs"]) simp
    next
      case (rune r t)
      obtain rs where rs: "naive_json t = concat (map encode_rune rs)" "list_all safe_rune rs"
        using less[of t] rune(2) by auto
      then show ?thesis
        using naive_json_rune[OF rune(1), of t] rune(2) rune_text_safe[OF rune(1), of "length (encode_rune r)"]
        by (intro exI[of _ "rune_runes r (length (encode_rune r)) @ rs"]) simp
    qed
  qed
qed

text \<open>A reader of JSON strings, after the opening quote (RFC 8259, without surrogate pairs).\<close>

definition simple_escape :: "char \<Rightarrow> char option" where
  "simple_escape e = map_of [(CHR 0x22, CHR 0x22), (CHR 0x5C, CHR 0x5C), (CHR ''/'', CHR ''/''), (CHR ''b'', CHR 0x08),
     (CHR ''f'', CHR 0x0C), (CHR ''n'', CHR 0x0A), (CHR ''r'', CHR 0x0D), (CHR ''t'', CHR 0x09)] e"

fun json_unquote :: "string \<Rightarrow> string option" where
  "json_unquote [] = None"
| "json_unquote (c # s) =
     (if c = CHR 0x22 then (if s = [] then Some [] else None)
      else if c = CHR 0x5C then
        (case s of
           [] \<Rightarrow> None
         | e # r \<Rightarrow>
             if e = CHR ''u'' then
               (case r of
                  a # b # x # y # t \<Rightarrow>
                    (case (hex_val a, hex_val b, hex_val x, hex_val y) of
                       (Some a', Some b', Some x', Some y') \<Rightarrow>
                         map_option ((@) (encode_rune (a' * 4096 + b' * 256 + x' * 16 + y'))) (json_unquote t)
                     | _ \<Rightarrow> None)
                | _ \<Rightarrow> None)
             else (case simple_escape e of None \<Rightarrow> None | Some d \<Rightarrow> map_option ((#) d) (json_unquote r)))
      else if byte_of c < 32 then None
      else map_option ((#) c) (json_unquote s))"

definition json_string_value :: "string \<Rightarrow> string option" where
  "json_string_value w = (case w of [] \<Rightarrow> None | c # s \<Rightarrow> if c = CHR 0x22 then json_unquote s else None)"

text \<open>The string with each invalid byte replaced by the replacement character.\<close>

function sanitize :: "string \<Rightarrow> string" where
  "sanitize s =
     (if s = [] then []
      else (if decode_rune s = (rune_error, 1) then encode_rune rune_error else take (snd (decode_rune s)) s)
        @ sanitize (drop (snd (decode_rune s)) s))"
  by pat_completeness auto
termination by (relation "measure length") (auto simp: decode_rune_size)

declare sanitize.simps [simp del]

lemma sanitize_Nil [simp]: "sanitize [] = []" by (simp add: sanitize.simps)

lemma sanitize_rune: "valid_rune r \<Longrightarrow> sanitize (encode_rune r @ t) = encode_rune r @ sanitize t"
  using encode_not_bad[of r] by (subst sanitize.simps) (auto simp: decode_encode)

lemma sanitize_invalid:
  "s \<noteq> [] \<Longrightarrow> decode_rune s = (rune_error, 1) \<Longrightarrow> sanitize s = encode_rune rune_error @ sanitize (tl s)"
  by (subst sanitize.simps) (simp add: drop_Suc)

lemma sanitize_valid: "list_all valid_rune rs \<Longrightarrow> sanitize (concat (map encode_rune rs)) = concat (map encode_rune rs)"
  by (induction rs) (simp_all add: sanitize_rune)

lemma unquote_plain:
  "\<forall>c\<in>set w. 32 \<le> byte_of c \<and> byte_of c \<noteq> 34 \<and> byte_of c \<noteq> 92 \<Longrightarrow>
   json_unquote (w @ t) = map_option ((@) w) (json_unquote t)"
proof (induction w)
  case Nil
  then show ?case by (simp add: option.map_ident)
next
  case (Cons c w)
  have "byte_of (CHR 0x22) = 34" "byte_of (CHR 0x5C) = 92" by code_simp+
  then have "c \<noteq> CHR 0x22" "c \<noteq> CHR 0x5C" "\<not> byte_of c < 32" using Cons.prems by auto
  then show ?case using Cons by (simp add: option.map_comp comp_def)
qed

lemma hex_val_digit: "d < 16 \<Longrightarrow> hex_val (hex_digits ! d) = Some d"
proof -
  have "list_all (\<lambda>d. hex_val (hex_digits ! d) = Some d) [0..<16]" by code_simp
  then show "d < 16 \<Longrightarrow> hex_val (hex_digits ! d) = Some d" by (simp add: list_all_iff)
qed

lemma hex_val_consts: "hex_val (CHR ''0'') = Some 0" "hex_val (CHR ''2'') = Some 2" "hex_val (CHR ''d'') = Some 13"
  "hex_val (CHR ''f'') = Some 15" by code_simp+

lemma append_single [simp]: "(@) [x] = (#) x" by (simp add: fun_eq_iff)

lemma unquote_escape:
  assumes "r < 128" "\<not> plain_byte r"
  shows "json_unquote (escape_byte r @ t) = map_option ((@) (encode_rune r)) (json_unquote t)"
proof -
  consider "r \<in> {34, 92, 10, 13, 9}" | "r \<notin> {34, 92, 10, 13, 9}" by blast
  then show ?thesis
  proof cases
    case 1
    have "char_of (34::nat) = CHR 0x22" "char_of (92::nat) = CHR 0x5C" "char_of (10::nat) = CHR 0x0A" "char_of (13::nat) = CHR 0x0D"
      "char_of (9::nat) = CHR 0x09" by code_simp+
    then show ?thesis using 1 by (auto simp: escape_byte_def simple_escape_def encode_rune_def)
  next
    case 2
    have "r div 16 < 16" using assms(1) by simp
    then show ?thesis
      using 2 by (simp add: escape_byte_def hex_val_digit hex_val_consts)
  qed
qed

lemma unquote_rune_text:
  assumes "valid_rune r"
  shows "json_unquote (rune_text r (length (encode_rune r)) @ t) = map_option ((@) (encode_rune r)) (json_unquote t)"
proof -
  consider "r = line_sep \<or> r = paragraph_sep" | "r < 128" "\<not> plain_byte r" | "r < 128" "plain_byte r"
    | "128 \<le> r" "r \<noteq> line_sep" "r \<noteq> paragraph_sep" by linarith
  then show ?thesis
  proof cases
    case 1
    have "r mod 16 < 16" by simp
    have "2 * 4096 + 0 * 256 + 2 * 16 + r mod 16 = r" using 1 by (auto simp: line_sep_def paragraph_sep_def)
    then show ?thesis using 1 hex_val_digit[of "r mod 16"] by (simp add: rune_text_valid[OF assms] hex_val_consts)
  next
    case 2
    then show ?thesis using unquote_escape by (simp add: rune_text_valid[OF assms] line_sep_def paragraph_sep_def)
  next
    case 3
    have "encode_rune r = [char_of r]" using 3 by (simp add: encode_rune_def)
    moreover have "json_unquote ([char_of r] @ t) = map_option ((@) [char_of r]) (json_unquote t)"
      by (rule unquote_plain) (use 3 in \<open>simp add: plain_byte_def byte_of_char_of\<close>)
    moreover have "rune_text r (length (encode_rune r)) = encode_rune r"
      using 3 by (auto simp: rune_text_valid[OF assms] line_sep_def paragraph_sep_def)
    ultimately show ?thesis by metis
  next
    case 4
    have "\<forall>c\<in>set (encode_rune r). 32 \<le> byte_of c \<and> byte_of c \<noteq> 34 \<and> byte_of c \<noteq> 92"
      using encode_high[OF 4(1) _ assms] by fastforce
    then show ?thesis using 4 unquote_plain[of "encode_rune r" t] by (simp add: rune_text_valid[OF assms])
  qed
qed

lemma unquote_naive: "json_unquote (naive_json s @ [CHR 0x22]) = Some (sanitize s)"
proof (induction "length s" arbitrary: s rule: less_induct)
  case less
  show ?case
  proof (cases "s = []")
    case False
    then show ?thesis
    proof (cases rule: decode_rune_cases)
      case invalid
      have "json_unquote (naive_json (tl s) @ [CHR 0x22]) = Some (sanitize (tl s))" using less[of "tl s"] False by (cases s) auto
      moreover have "15 * 4096 + 15 * 256 + 15 * 16 + 13 = rune_error" by (simp add: rune_error_def)
      ultimately show ?thesis
        using naive_json_invalid[OF False invalid(1)] sanitize_invalid[OF False invalid(1)] by (simp add: hex_val_consts)
    next
      case (rune r t)
      have "json_unquote (naive_json t @ [CHR 0x22]) = Some (sanitize t)" using less[of t] rune(2) by simp
      then show ?thesis
        using naive_json_rune[OF rune(1), of t] rune(2) unquote_rune_text[OF rune(1)] sanitize_rune[OF rune(1), of t] by simp
    qed
  qed simp
qed

text \<open>
  C14: whatever bytes a string holds, its JSON form is valid UTF-8 without control
  characters, without \<open><\<close>, \<open>>\<close> and \<open>&\<close> and without the line separators of JavaScript, so it
  cannot leave a script block; and a JSON reader gets the string back, with each byte
  that is not valid UTF-8 replaced by U+FFFD, and unchanged if there is none.
\<close>

theorem json_strings_safe:
  "(\<exists>rs. append_json_string [] s = concat (map encode_rune rs) \<and> list_all safe_rune rs)
   \<and> json_string_value (append_json_string [] s) = Some (sanitize s)
   \<and> (list_all valid_rune rs \<longrightarrow> sanitize (concat (map encode_rune rs)) = concat (map encode_rune rs))"
proof (intro conjI impI)
  obtain rs where rs: "naive_json s = concat (map encode_rune rs)" "list_all safe_rune rs" using naive_json_safe by blast
  have "byte_of (CHR 0x22) = 34" "safe_ascii (CHR 0x22)" by code_simp+
  then have q: "encode_rune 34 = [CHR 0x22]" "safe_rune 34" using encode_ascii[of "CHR 0x22"] safe_ascii_rune[of "CHR 0x22"] by auto
  show "\<exists>rs. append_json_string [] s = concat (map encode_rune rs) \<and> list_all safe_rune rs"
    using rs q by (intro exI[of _ "34 # rs @ [34]"]) (simp add: append_json_string_def json_loop_naive)
  show "json_string_value (append_json_string [] s) = Some (sanitize s)"
    by (simp add: append_json_string_def json_loop_naive json_string_value_def unquote_naive)
qed (rule sanitize_valid)

lemma json_strings_safe_witness:
  "sanitize (concat (map encode_rune [8232, 60, 97])) = concat (map encode_rune [8232, 60, 97])
   \<and> json_string_value (append_json_string [] (concat (map encode_rune [8232, 60, 97])))
     = Some (concat (map encode_rune [8232, 60, 97]))"
proof -
  have "list_all valid_rune [8232, 60, 97]" by (simp add: valid_rune_def)
  then show ?thesis
    using json_strings_safe[of "concat (map encode_rune [8232, 60, 97])" "[8232, 60, 97]"] by metis
qed

section \<open>Objects\<close>

lemma append_json_string_split: "append_json_string dst s = dst @ append_json_string [] s"
  by (simp add: append_json_string_def json_loop_naive)

lemma append_json_value_split: "append_json_value env dst v = dst @ append_json_value env [] v"
  using append_json_string_split[of dst]
  by (auto simp: append_json_value_def append_json_bool_def append_json_float_def append_json_time_def split: gval.split)

text \<open>An object as a list of keys with the text of their values.\<close>

definition json_member :: "string \<times> string \<Rightarrow> string" where
  "json_member p = append_json_string [] (fst p) @ '':'' @ snd p"

definition json_object :: "(string \<times> string) list \<Rightarrow> string" where
  "json_object fs = ''{'' @ str_join '','' (map json_member fs) @ ''}''"

definition written :: "string \<times> bool \<Rightarrow> (string \<times> string) list \<Rightarrow> bool" where
  "written st fs \<longleftrightarrow> fst st = ''{'' @ str_join '','' (map json_member fs) \<and> snd st = (fs = [])"

lemma str_join_snoc: "str_join sep (ws @ [w]) = (if ws = [] then w else str_join sep ws @ sep @ w)"
  by (induction sep ws rule: str_join.induct) auto

lemma written_start: "written (''{'', True) []" by (simp add: written_def)

lemma written_key:
  assumes "written st fs" and "append_json_key st k = (dst, first)"
  shows "written (dst @ v, first) (fs @ [(k, v)])"
  using assms append_json_string_split[of "fst st @ '',''" k] append_json_string_split[of "fst st" k]
  by (cases st) (auto simp: written_def append_json_key_def str_join_snoc json_member_def split: if_splits)

lemma written_put:
  assumes "written st fs" and "\<And>dst v. app dst v = dst @ app [] v"
  shows "written (put_with app k v st) (fs @ [(k, app [] v)])"
proof -
  obtain dst first where "append_json_key st k = (dst, first)" by force
  then show ?thesis using written_key[OF assms(1), of k dst first "app [] v"] assms(2)[of dst v] by (simp add: put_with_def)
qed

definition extra_members :: "json_env \<Rightarrow> grec \<Rightarrow> string list \<Rightarrow> (string \<times> string) list" where
  "extra_members env extra reserved =
     map (\<lambda>p. (fst p, append_json_value env [] (snd p))) (filter (\<lambda>p. fst p \<notin> set reserved) extra)"

lemma written_extra: "written st fs \<Longrightarrow> written (append_extra env st extra reserved) (fs @ extra_members env extra reserved)"
proof (induction extra arbitrary: st fs)
  case (Cons p extra)
  obtain k v where p: "p = (k, v)" by force
  show ?case
  proof (cases "k \<in> set reserved")
    case False
    obtain dst first where key: "append_json_key st k = (dst, first)" by force
    have "written (append_json_value env dst v, first) (fs @ [(k, append_json_value env [] v)])"
      using written_key[OF Cons.prems key, of "append_json_value env [] v"] append_json_value_split[of env dst v] by simp
    from Cons.IH[OF this] show ?thesis using False p key by (simp add: extra_members_def)
  next
    case True
    then show ?thesis using Cons p by (simp add: extra_members_def)
  qed
qed (simp add: extra_members_def)

definition opt_member :: "string \<Rightarrow> string \<Rightarrow> (string \<times> string) list" where
  "opt_member k v = (if v = '''' then [] else [(k, append_json_string [] v)])"

definition session_core_members :: "json_env \<Rightarrow> session \<Rightarrow> (string \<times> string) list" where
  "session_core_members env s =
     [(''id'', append_json_string [] (s_id s)), (''userId'', append_json_string [] (s_user s)),
      (''expiresAt'', append_json_time env [] (s_expires s))]
     @ opt_member ''ipAddress'' (s_ip s) @ opt_member ''userAgent'' (s_agent s)
     @ [(''createdAt'', append_json_time env [] (s_created s)), (''updatedAt'', append_json_time env [] (s_updated s))]"

definition user_core_members :: "json_env \<Rightarrow> user \<Rightarrow> (string \<times> string) list" where
  "user_core_members env u =
     [(''id'', append_json_string [] (u_id u)), (''name'', append_json_string [] (u_name u)),
      (''email'', append_json_string [] (u_email u)), (''emailVerified'', append_json_bool [] (u_email_verified u))]
     @ opt_member ''image'' (u_image u)
     @ [(''createdAt'', append_json_time env [] (u_created u)), (''updatedAt'', append_json_time env [] (u_updated u))]"

definition session_members :: "json_env \<Rightarrow> session \<Rightarrow> (string \<times> string) list" where
  "session_members env s = session_core_members env s @ extra_members env (s_extra s) session_reserved"

definition user_members :: "json_env \<Rightarrow> user \<Rightarrow> (string \<times> string) list" where
  "user_members env u = user_core_members env u @ extra_members env (u_extra u) user_reserved"

lemmas member_defs = session_members_def user_members_def session_core_members_def user_core_members_def

lemma written_opt:
  "written st fs \<Longrightarrow> written (if v \<noteq> '''' then put_with append_json_string k v st else st) (fs @ opt_member k v)"
  using written_put[of st fs append_json_string k v, OF _ append_json_string_split] by (simp add: opt_member_def)

lemma append_time_split: "append_json_time env dst t = dst @ append_json_time env [] t"
  and append_bool_split: "append_json_bool dst b = dst @ append_json_bool [] b"
  by (simp_all add: append_json_time_def append_json_bool_def)

lemmas written_fields = written_put[where app = append_json_string, OF _ append_json_string_split]
  written_put[where app = "append_json_time env" for env, OF _ append_time_split]
  written_put[where app = append_json_bool, OF _ append_bool_split] written_opt

lemma session_marshal_object: "session_marshal env s = json_object (session_members env s)"
proof -
  define st where "st = put_with (append_json_time env) ''updatedAt'' (s_updated s)
    (put_with (append_json_time env) ''createdAt'' (s_created s)
    ((\<lambda>st. if s_agent s \<noteq> '''' then put_with append_json_string ''userAgent'' (s_agent s) st else st)
    ((\<lambda>st. if s_ip s \<noteq> '''' then put_with append_json_string ''ipAddress'' (s_ip s) st else st)
    (put_with (append_json_time env) ''expiresAt'' (s_expires s)
    (put_with append_json_string ''userId'' (s_user s) (put_with append_json_string ''id'' (s_id s) (''{'', True)))))))"
  have "written st (((((((([] @ [(''id'', append_json_string [] (s_id s))]) @ [(''userId'', append_json_string [] (s_user s))])
      @ [(''expiresAt'', append_json_time env [] (s_expires s))]) @ opt_member ''ipAddress'' (s_ip s))
      @ opt_member ''userAgent'' (s_agent s)) @ [(''createdAt'', append_json_time env [] (s_created s))])
      @ [(''updatedAt'', append_json_time env [] (s_updated s))]))"
    unfolding st_def by (intro written_fields written_start)
  from written_extra[OF this, of env "s_extra s" session_reserved]
  have "written (append_extra env st (s_extra s) session_reserved) (session_members env s)"
    by (simp add: member_defs)
  then show ?thesis by (simp add: written_def json_object_def session_marshal_def st_def Let_def)
qed

lemma user_marshal_object: "user_marshal env u = json_object (user_members env u)"
proof -
  define st where "st = put_with (append_json_time env) ''updatedAt'' (u_updated u)
    (put_with (append_json_time env) ''createdAt'' (u_created u)
    ((\<lambda>st. if u_image u \<noteq> '''' then put_with append_json_string ''image'' (u_image u) st else st)
    (put_with append_json_bool ''emailVerified'' (u_email_verified u)
    (put_with append_json_string ''email'' (u_email u)
    (put_with append_json_string ''name'' (u_name u) (put_with append_json_string ''id'' (u_id u) (''{'', True)))))))"
  have "written st (((((((([] @ [(''id'', append_json_string [] (u_id u))]) @ [(''name'', append_json_string [] (u_name u))])
      @ [(''email'', append_json_string [] (u_email u))]) @ [(''emailVerified'', append_json_bool [] (u_email_verified u))])
      @ opt_member ''image'' (u_image u)) @ [(''createdAt'', append_json_time env [] (u_created u))])
      @ [(''updatedAt'', append_json_time env [] (u_updated u))]))"
    unfolding st_def by (intro written_fields written_start)
  from written_extra[OF this, of env "u_extra u" user_reserved]
  have "written (append_extra env st (u_extra u) user_reserved) (user_members env u)"
    by (simp add: member_defs)
  then show ?thesis by (simp add: written_def json_object_def user_marshal_def st_def Let_def)
qed

lemma extra_members_keys: "k \<in> set reserved \<Longrightarrow> map_of (extra_members env extra reserved) k = None"
  by (auto simp: extra_members_def map_of_eq_None_iff)

text \<open>
  The JSON of a session is an object of its core fields and the extra fields that
  shadow none of them; there is no member \<open>token\<close>, the output does not depend on the
  token at all, and an extra field cannot change a core member, for sessions and users.
\<close>

theorem session_json_hides_token:
  "session_marshal env s = json_object (session_members env s)
   \<and> user_marshal env u = json_object (user_members env u)
   \<and> map_of (session_members env s) ''token'' = None
   \<and> session_marshal env (s\<lparr>s_token := t\<rparr>) = session_marshal env s
   \<and> (k \<in> set session_reserved \<longrightarrow> map_of (session_members env s) k = map_of (session_members env (s\<lparr>s_extra := []\<rparr>)) k)
   \<and> (k \<in> set user_reserved \<longrightarrow> map_of (user_members env u) k = map_of (user_members env (u\<lparr>u_extra := []\<rparr>)) k)"
proof (intro conjI impI)
  have core: "session_core_members env (s\<lparr>s_extra := []\<rparr>) = session_core_members env s"
    "user_core_members env (u\<lparr>u_extra := []\<rparr>) = user_core_members env u"
    by (simp_all add: session_core_members_def user_core_members_def)
  note none = extra_members_keys[of _ session_reserved env "s_extra s"] extra_members_keys[of _ user_reserved env "u_extra u"]
  have "map_of (session_core_members env s) ''token'' = None" "''token'' \<in> set session_reserved"
    by (simp_all add: session_core_members_def opt_member_def session_reserved_def)
  then show "map_of (session_members env s) ''token'' = None"
    using none(1)[of "''token''"] by (simp add: session_members_def map_add_def)
  show "k \<in> set session_reserved \<Longrightarrow> map_of (session_members env s) k = map_of (session_members env (s\<lparr>s_extra := []\<rparr>)) k"
    using none(1)[of k] by (simp add: session_members_def core map_add_def extra_members_def split: option.split)
  show "k \<in> set user_reserved \<Longrightarrow> map_of (user_members env u) k = map_of (user_members env (u\<lparr>u_extra := []\<rparr>)) k"
    using none(2)[of k] by (simp add: user_members_def core map_add_def extra_members_def split: option.split)
  show "session_marshal env (s\<lparr>s_token := t\<rparr>) = session_marshal env s"
    by (simp add: session_marshal_object member_defs)
qed (rule session_marshal_object user_marshal_object)+

definition demo_json :: json_env where "demo_json = \<lparr>je_time = (\<lambda>_. ''T''), je_float = (\<lambda>_. ''0'')\<rparr>"

lemma session_json_hides_token_witness:
  "map_of (session_members demo_json
     (session_from_map [(''id'', VStr ''s1''), (''token'', VStr ''secret'')]\<lparr>s_extra := [(''id'', VStr ''x''), (''token'', VStr ''y'')]\<rparr>)) ''id''
   = Some (append_json_string [] ''s1'')"
proof -
  let ?s = "session_from_map [(''id'', VStr ''s1''), (''token'', VStr ''secret'')]\<lparr>s_extra := [(''id'', VStr ''x''), (''token'', VStr ''y'')]\<rparr>"
  have "''id'' \<in> set session_reserved" by (simp add: session_reserved_def)
  then have "map_of (session_members demo_json ?s) ''id'' = map_of (session_members demo_json (?s\<lparr>s_extra := []\<rparr>)) ''id''"
    using session_json_hides_token[of demo_json ?s undefined "''t''" "''id''"] by blast
  then show ?thesis by (simp add: member_defs session_from_map_def)
qed

end
