(* ===== verification/Scrypt.thy ===== *)
theory Scrypt
  imports Go_Strings
begin

text \<open>
  crypto/scrypt.go: the scrypt key derivation over pooled scratch buffers, with its
  straight-line Salsa20/8, the interleaved \<open>blockMix\<close> and the twofold unrolled \<open>smix\<close>.
  HMAC-SHA256 is an argument. The second half states scrypt the way RFC 7914 does and
  shows that the code computes it, whatever an earlier call left in the buffers.
\<close>

section \<open>Salsa20/8\<close>

type_synonym u32 = "32 word"

text \<open>One statement \<open>xd ^= bits.RotateLeft32(xa+xb, k)\<close>.\<close>

fun salsa_step :: "nat \<times> nat \<times> nat \<times> nat \<Rightarrow> u32 list \<Rightarrow> u32 list" where
  "salsa_step (d, a, b, k) x = x[d := xor (x ! d) (word_rotl k (x ! a + x ! b))]"

definition salsa_program :: "(nat \<times> nat \<times> nat \<times> nat) list" where
  "salsa_program =
    [(4, 0, 12, 7), (8, 4, 0, 9), (12, 8, 4, 13), (0, 12, 8, 18),
     (9, 5, 1, 7), (13, 9, 5, 9), (1, 13, 9, 13), (5, 1, 13, 18),
     (14, 10, 6, 7), (2, 14, 10, 9), (6, 2, 14, 13), (10, 6, 2, 18),
     (3, 15, 11, 7), (7, 3, 15, 9), (11, 7, 3, 13), (15, 11, 7, 18),
     (1, 0, 3, 7), (2, 1, 0, 9), (3, 2, 1, 13), (0, 3, 2, 18),
     (6, 5, 4, 7), (7, 6, 5, 9), (4, 7, 6, 13), (5, 4, 7, 18),
     (11, 10, 9, 7), (8, 11, 10, 9), (9, 8, 11, 13), (10, 9, 8, 18),
     (12, 15, 14, 7), (13, 12, 15, 9), (14, 13, 12, 13), (15, 14, 13, 18)]"

text \<open>What ends up in both \<open>out\<close> and \<open>tmp\<close>.\<close>

definition salsa_xor :: "u32 list \<Rightarrow> u32 list \<Rightarrow> u32 list" where
  "salsa_xor tmp inp =
     (let w = map2 xor tmp (take 16 inp)
      in map2 (+) ((fold salsa_step salsa_program ^^ 4) w) w)"

section \<open>Mixing\<close>

text \<open>\<open>copy(dst[i:], src)\<close>.\<close>

definition blit :: "'a list \<Rightarrow> nat \<Rightarrow> 'a list \<Rightarrow> 'a list" where
  "blit dst i src = take i dst @ src @ drop (i + length src) dst"

definition block_xor :: "u32 list \<Rightarrow> u32 list \<Rightarrow> nat \<Rightarrow> u32 list" where
  "block_xor dst src n = map2 xor (take n dst) (take n src) @ drop n dst"

text \<open>One round of the loop of \<open>blockMix\<close>, its \<open>i\<close> being \<open>2 * k\<close>.\<close>

definition block_mix_step :: "nat \<Rightarrow> u32 list \<Rightarrow> nat \<Rightarrow> u32 list \<times> u32 list \<Rightarrow> u32 list \<times> u32 list" where
  "block_mix_step r inp k st =
     (let t1 = salsa_xor (fst st) (drop (32 * k) inp);
          o1 = blit (snd st) (16 * k) t1;
          t2 = salsa_xor t1 (drop (32 * k + 16) inp)
      in (t2, blit o1 (16 * k + 16 * r) t2))"

definition block_mix :: "nat \<Rightarrow> u32 list \<Rightarrow> u32 list \<Rightarrow> u32 list" where
  "block_mix r inp out = snd (fold (block_mix_step r inp) [0..<r] (take 16 (drop ((2 * r - 1) * 16) inp), out))"

definition integer :: "u32 list \<Rightarrow> nat \<Rightarrow> 64 word" where
  "integer b r = or (ucast (b ! ((2 * r - 1) * 16))) (push_bit 32 (ucast (b ! ((2 * r - 1) * 16 + 1))))"

definition pick_block :: "u32 list \<Rightarrow> nat \<Rightarrow> nat \<Rightarrow> nat" where
  "pick_block b r N = unat (and (integer b r) (of_nat (N - 1)))"

fun le_words :: "string \<Rightarrow> u32 list" where
  "le_words (a # b # c # d # s) =
     of_nat (byte_of a + 256 * (byte_of b + 256 * (byte_of c + 256 * byte_of d))) # le_words s"
| "le_words _ = []"

definition le_bytes :: "u32 \<Rightarrow> string" where
  "le_bytes w = map (\<lambda>i. char_of (unat w div 256 ^ i mod 256)) [0..<4]"

type_synonym buffers = "u32 list \<times> u32 list \<times> u32 list"

text \<open>The loops of \<open>smix\<close> over \<open>v\<close>, \<open>x\<close> and \<open>y\<close>; their \<open>i\<close> is \<open>2 * k\<close>.\<close>

definition fill_step :: "nat \<Rightarrow> nat \<Rightarrow> buffers \<Rightarrow> buffers" where
  "fill_step r k st =
     (case st of (v, x, y) \<Rightarrow>
        (let v1 = blit v (2 * k * (32 * r)) (take (32 * r) x);
             y1 = block_mix r x y;
             v2 = blit v1 ((2 * k + 1) * (32 * r)) (take (32 * r) y1)
         in (v2, block_mix r y1 x, y1)))"

definition stir_step :: "nat \<Rightarrow> nat \<Rightarrow> nat \<Rightarrow> buffers \<Rightarrow> buffers" where
  "stir_step r N k st =
     (case st of (v, x, y) \<Rightarrow>
        (let x1 = block_xor x (drop (pick_block x r N * (32 * r)) v) (32 * r);
             y1 = block_mix r x1 y;
             y2 = block_xor y1 (drop (pick_block y1 r N * (32 * r)) v) (32 * r)
         in (v, block_mix r y2 x1, y2)))"

text \<open>\<open>smix\<close> rewrites the first \<open>128 * r\<close> bytes of \<open>b\<close> and leaves the buffers as they are then.\<close>

definition smix :: "nat \<Rightarrow> nat \<Rightarrow> string \<Rightarrow> u32 list \<times> u32 list \<Rightarrow> string \<times> (u32 list \<times> u32 list)" where
  "smix r N b bufs =
     (let y0 = drop (32 * r) (snd bufs);
          x0 = le_words (take (128 * r) b);
          rounds = [0..<(N + 1) div 2];
          (v, x, y) = fold (stir_step r N) rounds (fold (fill_step r) rounds (fst bufs, x0, y0))
      in (concat (map le_bytes (take (32 * r) x)) @ drop (128 * r) b, (v, x @ y)))"

section \<open>PBKDF2\<close>

type_synonym hmac_fun = "string \<Rightarrow> string \<Rightarrow> string"

definition be_bytes :: "nat \<Rightarrow> string" where
  "be_bytes n = map (\<lambda>i. char_of (n div 256 ^ (3 - i) mod 256)) [0..<4]"

definition xor_bytes :: "string \<Rightarrow> string \<Rightarrow> string" where
  "xor_bytes t u = map2 (\<lambda>a b. char_of (xor (byte_of a) (byte_of b))) t u"

definition pbkdf2_block :: "hmac_fun \<Rightarrow> string \<Rightarrow> string \<Rightarrow> nat \<Rightarrow> nat \<Rightarrow> string" where
  "pbkdf2_block hm password salt iter block =
     (let u1 = hm password (salt @ be_bytes block)
      in fst (((\<lambda>(t, u). let u' = hm password u in (xor_bytes t u', u')) ^^ (iter - 1)) (u1, u1)))"

definition pbkdf2 :: "hmac_fun \<Rightarrow> nat \<Rightarrow> string \<Rightarrow> string \<Rightarrow> nat \<Rightarrow> nat \<Rightarrow> string" where
  "pbkdf2 hm hash_len password salt iter key_len =
     (let blocks = (key_len + hash_len - 1) div hash_len
      in take key_len (concat (map (pbkdf2_block hm password salt iter) [1..<Suc blocks])))"

section \<open>Scrypt\<close>

record scratch =
  sc_v :: "u32 list"
  sc_xy :: "u32 list"

definition scratch_buffers :: "nat \<Rightarrow> nat \<Rightarrow> scratch \<Rightarrow> u32 list \<times> u32 list" where
  "scratch_buffers N r s =
     (take (32 * N * r) (if length (sc_v s) < 32 * N * r then replicate (32 * N * r) 0 else sc_v s),
      take (64 * r) (if length (sc_xy s) < 64 * r then replicate (64 * r) 0 else sc_xy s))"

text \<open>The guards, in machine arithmetic: \<open>int\<close> and \<open>uint64\<close> have 64 bits.\<close>

definition valid_cost :: "64 word \<Rightarrow> bool" where
  "valid_cost N = (1 < sint N \<and> and N (N - 1) = 0)"

definition params_fit :: "64 word \<Rightarrow> 64 word \<Rightarrow> 64 word \<Rightarrow> bool" where
  "params_fit N r p =
     (uint (r * p) < 2 ^ 30 \<and>
      sint r \<le> (2 ^ 31 - 1) div 128 div sint p \<and>
      sint r \<le> (2 ^ 31 - 1) div 128 div sint N \<and>
      sint N \<le> (2 ^ 31 - 1) div 128 div sint r)"

definition smix_all :: "nat \<Rightarrow> nat \<Rightarrow> nat \<Rightarrow> string \<Rightarrow> u32 list \<times> u32 list \<Rightarrow> string \<times> (u32 list \<times> u32 list)" where
  "smix_all r N p b bufs =
     fold (\<lambda>i (b, bufs). case smix r N (drop (i * 128 * r) b) bufs of
             (seg, bufs') \<Rightarrow> (take (i * 128 * r) b @ seg, bufs')) [0..<p] (b, bufs)"

definition scrypt_with ::
  "hmac_fun \<Rightarrow> scratch \<Rightarrow> string \<Rightarrow> string \<Rightarrow> 64 word \<Rightarrow> 64 word \<Rightarrow> 64 word \<Rightarrow> nat \<Rightarrow> string result" where
  "scrypt_with hmac sc password salt N r p key_len =
     (if \<not> valid_cost N then Inl (OtherError ''N must be > 1 and a power of 2'')
      else if sint r \<le> 0 \<or> sint p \<le> 0 then Inl (OtherError ''r and p must be positive'')
      else if \<not> params_fit N r p then Inl (OtherError ''parameters are too large'')
      else (let n = unat N; rr = unat r; pp = unat p;
                b = pbkdf2 hmac 32 password salt 1 (pp * 128 * rr);
                b' = fst (smix_all rr n pp b (scratch_buffers n rr sc))
            in Inr (pbkdf2 hmac 32 password b' 1 key_len)))"

definition scrypt :: "hmac_fun \<Rightarrow> string \<Rightarrow> string \<Rightarrow> 64 word \<Rightarrow> 64 word \<Rightarrow> 64 word \<Rightarrow> nat \<Rightarrow> string result" where
  "scrypt hmac password salt N r p key_len = scrypt_with hmac \<lparr>sc_v = [], sc_xy = []\<rparr> password salt N r p key_len"

section \<open>RFC 7914\<close>

text \<open>Quarter-rounds on the columns and then on the rows of a 4 by 4 matrix.\<close>

fun quarter_round :: "u32 \<times> u32 \<times> u32 \<times> u32 \<Rightarrow> u32 \<times> u32 \<times> u32 \<times> u32" where
  "quarter_round (y0, y1, y2, y3) =
     (let z1 = xor y1 (word_rotl 7 (y0 + y3));
          z2 = xor y2 (word_rotl 9 (z1 + y0));
          z3 = xor y3 (word_rotl 13 (z2 + z1));
          z0 = xor y0 (word_rotl 18 (z3 + z2))
      in (z0, z1, z2, z3))"

fun on_quarter :: "nat \<times> nat \<times> nat \<times> nat \<Rightarrow> u32 list \<Rightarrow> u32 list" where
  "on_quarter (a, b, c, d) x =
     (case quarter_round (x ! a, x ! b, x ! c, x ! d) of
        (za, zb, zc, zd) \<Rightarrow> x[b := zb, c := zc, d := zd, a := za])"

definition column_round :: "u32 list \<Rightarrow> u32 list" where
  "column_round = fold on_quarter [(0, 4, 8, 12), (5, 9, 13, 1), (10, 14, 2, 6), (15, 3, 7, 11)]"

definition row_round :: "u32 list \<Rightarrow> u32 list" where
  "row_round = fold on_quarter [(0, 1, 2, 3), (5, 6, 7, 4), (10, 11, 8, 9), (15, 12, 13, 14)]"

definition salsa20_8 :: "u32 list \<Rightarrow> u32 list" where
  "salsa20_8 b = map2 (+) (((\<lambda>x. row_round (column_round x)) ^^ 4) b) b"

text \<open>\<open>scryptBlockMix\<close> chains the blocks and puts the even results before the odd ones.\<close>

fun chain :: "u32 list \<Rightarrow> u32 list list \<Rightarrow> u32 list list" where
  "chain x [] = []"
| "chain x (b # bs) = (let y = salsa20_8 (map2 xor x b) in y # chain y bs)"

fun pairs_apart :: "'a list \<Rightarrow> 'a list \<times> 'a list" where
  "pairs_apart (a # b # xs) = (case pairs_apart xs of (es, os) \<Rightarrow> (a # es, b # os))"
| "pairs_apart xs = (xs, [])"

definition rfc_block_mix :: "u32 list list \<Rightarrow> u32 list list" where
  "rfc_block_mix bs = (case pairs_apart (chain (last bs) bs) of (es, os) \<Rightarrow> es @ os)"

text \<open>\<open>scryptROMix\<close>: \<open>Integerify\<close> reads the last block as a little-endian number.\<close>

definition integerify :: "u32 list list \<Rightarrow> nat" where
  "integerify bs = foldr (\<lambda>w n. unat w + 2 ^ 32 * n) (last bs) 0"

definition romix_step :: "u32 list list list \<Rightarrow> u32 list list \<Rightarrow> u32 list list" where
  "romix_step vs x = rfc_block_mix (map2 (map2 xor) x (vs ! (integerify x mod length vs)))"

definition romix :: "nat \<Rightarrow> u32 list list \<Rightarrow> u32 list list" where
  "romix N x =
     (let vs = map (\<lambda>i. (rfc_block_mix ^^ i) x) [0..<N]
      in (romix_step vs ^^ N) ((rfc_block_mix ^^ N) x))"

fun chunks :: "nat \<Rightarrow> nat \<Rightarrow> 'a list \<Rightarrow> 'a list list" where
  "chunks n 0 xs = []"
| "chunks n (Suc k) xs = take n xs # chunks n k (drop n xs)"

definition rfc_romix_bytes :: "nat \<Rightarrow> nat \<Rightarrow> string \<Rightarrow> string" where
  "rfc_romix_bytes r N b = concat (map le_bytes (concat (romix N (chunks 16 (2 * r) (le_words b)))))"

definition rfc_scrypt :: "hmac_fun \<Rightarrow> string \<Rightarrow> string \<Rightarrow> nat \<Rightarrow> nat \<Rightarrow> nat \<Rightarrow> nat \<Rightarrow> string" where
  "rfc_scrypt hmac password salt N r p key_len =
     (let b = pbkdf2 hmac 32 password salt 1 (p * 128 * r)
      in pbkdf2 hmac 32 password (concat (map (rfc_romix_bytes r N) (chunks (128 * r) p b))) 1 key_len)"

section \<open>Salsa20/8 is the RFC's\<close>

lemma length_salsa_step [simp]: "length (salsa_step s x) = length x"
  by (cases s) simp

lemma length_salsa_fold [simp]: "length (fold salsa_step ss x) = length x"
  by (induction ss arbitrary: x) simp_all

lemma length_on_quarter [simp]: "length (on_quarter q x) = length x"
  by (cases q) (simp add: Let_def)

lemma length_rounds [simp]: "length (column_round x) = length x" "length (row_round x) = length x"
  by (simp_all add: column_round_def row_round_def del: on_quarter.simps)

definition quarter_steps :: "nat \<times> nat \<times> nat \<times> nat \<Rightarrow> (nat \<times> nat \<times> nat \<times> nat) list" where
  "quarter_steps q = (case q of (a, b, c, d) \<Rightarrow> [(b, a, d, 7), (c, b, a, 9), (d, c, b, 13), (a, d, c, 18)])"

lemma quarter_steps_run:
  "distinct [a, b, c, d] \<Longrightarrow> list_all (\<lambda>i. i < length x) [a, b, c, d] \<Longrightarrow>
   fold salsa_step (quarter_steps (a, b, c, d)) x = on_quarter (a, b, c, d) x"
  by (simp add: quarter_steps_def Let_def)

lemma salsa_program_quarters:
  "salsa_program = concat (map quarter_steps
     ([(0, 4, 8, 12), (5, 9, 13, 1), (10, 14, 2, 6), (15, 3, 7, 11)] @
      [(0, 1, 2, 3), (5, 6, 7, 4), (10, 11, 8, 9), (15, 12, 13, 14)]))"
  by (simp add: salsa_program_def quarter_steps_def)

lemma salsa_program_run:
  assumes "length x = 16"
  shows "fold salsa_step salsa_program x = row_round (column_round x)"
  using assms unfolding salsa_program_quarters column_round_def row_round_def
  by (simp add: quarter_steps_run del: on_quarter.simps)

lemma double_rounds:
  "length w = 16 \<Longrightarrow>
   (fold salsa_step salsa_program ^^ n) w = ((\<lambda>x. row_round (column_round x)) ^^ n) w \<and>
   length (((\<lambda>x. row_round (column_round x)) ^^ n) w) = 16"
  by (induction n) (simp_all add: salsa_program_run)

lemma length_salsa20_8 [simp]: "length b = 16 \<Longrightarrow> length (salsa20_8 b) = 16"
  by (simp add: salsa20_8_def double_rounds)

lemma salsa_xor_spec:
  "length tmp = 16 \<Longrightarrow> 16 \<le> length inp \<Longrightarrow> salsa_xor tmp inp = salsa20_8 (map2 xor tmp (take 16 inp))"
  by (simp add: salsa_xor_def salsa20_8_def Let_def double_rounds)

section \<open>blockMix is the RFC's\<close>

lemma length_chunks [simp]: "length (chunks n k xs) = k"
  by (induction n k xs rule: chunks.induct) simp_all

lemma nth_chunks: "i < k \<Longrightarrow> chunks n k xs ! i = take n (drop (i * n) xs)"
  by (induction n k xs arbitrary: i rule: chunks.induct) (auto simp: nth_Cons add.commute split: nat.split)

lemma chunks_concat: "\<forall>b\<in>set bs. length b = n \<Longrightarrow> chunks n (length bs) (concat bs) = bs"
  by (induction bs) simp_all

lemma concat_chunks: "length xs = k * n \<Longrightarrow> concat (chunks n k xs) = xs"
  by (induction n k xs rule: chunks.induct) simp_all

definition blocks :: "nat \<Rightarrow> u32 list list \<Rightarrow> bool" where
  "blocks r bs \<longleftrightarrow> length bs = 2 * r \<and> (\<forall>b\<in>set bs. length b = 16)"

lemma blocks_chunks: "length xs = 32 * r \<Longrightarrow> blocks r (chunks 16 (2 * r) xs)"
  by (auto simp: blocks_def in_set_conv_nth nth_chunks)

lemma length_concat_same: "\<forall>b\<in>set bs. length b = n \<Longrightarrow> length (concat bs) = n * length bs"
  by (induction bs) simp_all

lemma drop_concat_same:
  "\<forall>b\<in>set bs. length b = n \<Longrightarrow> i < length bs \<Longrightarrow> take n (drop (n * i) (concat bs)) = bs ! i"
  by (induction bs arbitrary: i) (auto simp: nth_Cons split: nat.split)

lemma length_blocks [simp]: "blocks r bs \<Longrightarrow> length (concat bs) = 32 * r"
  using length_concat_same[of bs 16] by (simp add: blocks_def)

lemma take_block: "blocks r bs \<Longrightarrow> i < 2 * r \<Longrightarrow> take 16 (drop (16 * i) (concat bs)) = bs ! i"
  by (simp add: blocks_def drop_concat_same)

lemma length_chain [simp]: "length (chain x bs) = length bs"
  by (induction bs arbitrary: x) (simp_all add: Let_def)

lemma chain_nth:
  "i < length bs \<Longrightarrow>
   chain x bs ! i = salsa20_8 (map2 xor (if i = 0 then x else chain x bs ! (i - 1)) (bs ! i))"
proof (induction bs arbitrary: x i)
  case (Cons b bs)
  show ?case
  proof (cases i)
    case (Suc j)
    with Cons show ?thesis by (cases j) (simp_all add: Let_def)
  qed (simp add: Let_def)
qed simp

lemma chain_blocks:
  "length x = 16 \<Longrightarrow> \<forall>b\<in>set bs. length b = 16 \<Longrightarrow> \<forall>y\<in>set (chain x bs). length y = 16"
proof (induction bs arbitrary: x)
  case (Cons b bs)
  then have l: "length (salsa20_8 (map2 xor x b)) = 16" by simp
  have "\<forall>y\<in>set (chain (salsa20_8 (map2 xor x b)) bs). length y = 16"
    by (rule Cons.IH[OF l]) (use Cons.prems in simp)
  with l show ?case by (simp add: Let_def)
qed simp

lemma pairs_apart_nth:
  "length ys = 2 * r \<Longrightarrow>
   pairs_apart ys = (map (\<lambda>i. ys ! (2 * i)) [0..<r], map (\<lambda>i. ys ! (2 * i + 1)) [0..<r])"
proof (induction ys arbitrary: r rule: pairs_apart.induct)
  case (1 a b xs)
  then obtain q where r: "r = Suc q" by (cases r) auto
  have "[0..<Suc q] = 0 # map Suc [0..<q]" by (simp add: upt_conv_Cons map_Suc_upt del: upt_Suc)
  with 1 r show ?case by (simp add: o_def del: upt_Suc)
next
  case "2_2"
  then show ?case by simp
qed simp

lemma blit_mid:
  "length a = i \<Longrightarrow> length b = length w \<Longrightarrow> blit (a @ b @ c) i w = a @ w @ c"
  by (simp add: blit_def)

lemma block_mix_loop:
  assumes bs: "blocks r bs" and "length t0 = 16" and out: "length out = 32 * r" and "k \<le> r"
  defines "ys \<equiv> chain t0 bs"
  shows "\<exists>j1 j2. length j1 = 16 * (r - k) \<and> length j2 = 16 * (r - k) \<and>
     fold (block_mix_step r (concat bs)) [0..<k] (t0, out) =
       (if k = 0 then t0 else ys ! (2 * k - 1),
        concat (map (\<lambda>i. ys ! (2 * i)) [0..<k]) @ j1 @ concat (map (\<lambda>i. ys ! (2 * i + 1)) [0..<k]) @ j2)"
  using \<open>k \<le> r\<close>
proof (induction k)
  case 0
  show ?case using out by (intro exI[of _ "take (16 * r) out"] exI[of _ "drop (16 * r) out"]) simp
next
  case (Suc k)
  let ?E = "concat (map (\<lambda>i. ys ! (2 * i)) [0..<k])" and ?O = "concat (map (\<lambda>i. ys ! (2 * i + 1)) [0..<k])"
  obtain j1 j2 where l: "length j1 = 16 * (r - k)" "length j2 = 16 * (r - k)"
    and run: "fold (block_mix_step r (concat bs)) [0..<k] (t0, out) =
      (if k = 0 then t0 else ys ! (2 * k - 1), ?E @ j1 @ ?O @ j2)"
    using Suc by auto
  have len: "length ys = 2 * r" using bs by (simp add: ys_def blocks_def)
  have y16: "length (ys ! i) = 16" if "i < 2 * r" for i
    using chain_blocks[OF \<open>length t0 = 16\<close>, of bs] bs that len by (simp add: ys_def blocks_def)
  have EO: "length ?E = 16 * k" "length ?O = 16 * k"
    using length_concat_same[of "map (\<lambda>i. ys ! (2 * i)) [0..<k]" 16]
      length_concat_same[of "map (\<lambda>i. ys ! (2 * i + 1)) [0..<k]" 16] y16 Suc.prems by auto
  define t where "t = (if k = 0 then t0 else ys ! (2 * k - 1))"
  have t16: "length t = 16" using y16 Suc.prems \<open>length t0 = 16\<close> by (simp add: t_def)
  have cat: "length (concat bs) = 32 * r" using bs by simp
  have y: "ys ! (2 * k) = salsa20_8 (map2 xor t (bs ! (2 * k)))"
    "ys ! (2 * k + 1) = salsa20_8 (map2 xor (ys ! (2 * k)) (bs ! (2 * k + 1)))"
    using chain_nth[of "2 * k" bs t0] chain_nth[of "2 * k + 1" bs t0] bs Suc.prems
    by (simp_all add: ys_def t_def blocks_def)
  have t1: "salsa_xor t (drop (32 * k) (concat bs)) = ys ! (2 * k)"
    unfolding y(1) using take_block[OF bs, of "2 * k"] Suc.prems cat by (subst salsa_xor_spec[OF t16]) simp_all
  have t2: "salsa_xor (ys ! (2 * k)) (drop (32 * k + 16) (concat bs)) = ys ! (2 * k + 1)"
    unfolding y(2) using take_block[OF bs, of "2 * k + 1"] Suc.prems cat y16[of "2 * k"]
    by (subst salsa_xor_spec) (simp_all add: add.commute)
  define c1 c2 where "c1 = drop 16 j1" and "c2 = drop 16 j2"
  have "j1 = take 16 j1 @ c1" "j2 = take 16 j2 @ c2" by (simp_all add: c1_def c2_def)
  moreover have "length (take 16 j1) = 16" "length (take 16 j2) = 16" using l Suc.prems by simp_all
  ultimately obtain a1 a2 where j: "j1 = a1 @ c1" "j2 = a2 @ c2" and a16: "length a1 = 16" "length a2 = 16"
    by metis
  have o1: "blit (?E @ j1 @ ?O @ j2) (16 * k) (ys ! (2 * k)) = ?E @ ys ! (2 * k) @ c1 @ ?O @ j2"
    using blit_mid[OF EO(1), of a1 "ys ! (2 * k)" "c1 @ ?O @ j2"] a16 y16[of "2 * k"] Suc.prems by (simp add: j)
  have o2: "blit (?E @ ys ! (2 * k) @ c1 @ ?O @ j2) (16 * k + 16 * r) (ys ! (2 * k + 1)) =
      ?E @ ys ! (2 * k) @ c1 @ ?O @ ys ! (2 * k + 1) @ c2"
    using blit_mid[of "?E @ ys ! (2 * k) @ c1 @ ?O" "16 * k + 16 * r" a2 "ys ! (2 * k + 1)" c2]
      l a16 y16[of "2 * k"] y16[of "2 * k + 1"] EO Suc.prems
    by (simp add: j)
  have "fold (block_mix_step r (concat bs)) [0..<Suc k] (t0, out) =
      block_mix_step r (concat bs) k (t, ?E @ j1 @ ?O @ j2)" by (simp add: run t_def)
  also have "\<dots> = (ys ! (2 * k + 1), ?E @ ys ! (2 * k) @ c1 @ ?O @ ys ! (2 * k + 1) @ c2)"
    by (simp only: block_mix_step_def Let_def fst_conv snd_conv t1 t2 o1 o2)
  finally show ?case using l Suc.prems by (intro exI[of _ c1] exI[of _ c2]) (simp add: c1_def c2_def)
qed

lemma block_mix_spec:
  assumes bs: "blocks r bs" and "0 < r" and out: "length out = 32 * r"
  shows "block_mix r (concat bs) out = concat (rfc_block_mix bs)"
proof -
  have "bs \<noteq> []" using assms by (auto simp: blocks_def)
  then have t0: "take 16 (drop ((2 * r - 1) * 16) (concat bs)) = last bs"
    using take_block[OF bs, of "2 * r - 1"] assms by (simp add: last_conv_nth blocks_def mult.commute)
  have "length (last bs) = 16" using bs \<open>bs \<noteq> []\<close> by (simp add: blocks_def)
  from block_mix_loop[OF bs this out, of r] show ?thesis
    using bs unfolding block_mix_def t0 by (auto simp: rfc_block_mix_def pairs_apart_nth blocks_def)
qed

lemma blocks_rfc_block_mix [simp]:
  assumes bs: "blocks r bs" and "0 < r"
  shows "blocks r (rfc_block_mix bs)"
proof -
  have "bs \<noteq> []" using assms by (auto simp: blocks_def)
  then have l: "length (last bs) = 16" using bs by (simp add: blocks_def)
  have "\<forall>y\<in>set (chain (last bs) bs). length y = 16"
    by (rule chain_blocks[OF l]) (use bs in \<open>simp add: blocks_def\<close>)
  then have "length (chain (last bs) bs ! i) = 16" if "i < 2 * r" for i
    using that bs by (simp add: blocks_def)
  then show ?thesis using bs by (auto simp: rfc_block_mix_def pairs_apart_nth blocks_def)
qed

lemma blocks_power [simp]: "blocks r bs \<Longrightarrow> 0 < r \<Longrightarrow> blocks r ((rfc_block_mix ^^ i) bs)"
  by (induction i) simp_all

section \<open>smix is the RFC's\<close>

lemma integerify_blocks:
  assumes bs: "blocks r bs" and "0 < r" and N: "N = 2 ^ n" "n \<le> 64"
  shows "pick_block (concat bs) r N = integerify bs mod N"
proof -
  have ne: "bs \<noteq> []" using assms by (auto simp: blocks_def)
  then have last: "last bs = bs ! (2 * r - 1)" "length (last bs) = 16"
    using bs \<open>0 < r\<close> by (auto simp: blocks_def last_conv_nth)
  let ?i = "(2 * r - 1) * 16"
  have b: "take 16 (drop ?i (concat bs)) = last bs"
    using take_block[OF bs, of "2 * r - 1"] \<open>0 < r\<close> last by (simp add: mult.commute)
  have w: "concat bs ! ?i = last bs ! 0" "concat bs ! (?i + 1) = last bs ! 1"
    using length_blocks[OF bs] \<open>0 < r\<close> by (simp_all flip: b)
  obtain w0 w1 ws where l: "last bs = w0 # w1 # ws" using last(2)
    by (cases "last bs"; cases "tl (last bs)") auto
  let ?u = "ucast w0 :: 64 word" and ?v = "ucast w1 :: 64 word"
  have "or ?u (push_bit 32 ?v) = ?u + push_bit 32 ?v"
    by (rule disjunctive_add_eq_or [symmetric], rule bit_word_eqI) (auto simp: bit_simps dest: bit_imp_le_length)
  then have "unat (integer (concat bs) r) = (unat w0 + 2 ^ 32 * unat w1) mod 2 ^ 64"
    unfolding integer_def w l nth_Cons_0
    by (simp add: push_bit_eq_mult unat_word_ariths unsigned_ucast_eq take_bit_eq_mod mod_simps mult.commute)
  moreover have "of_nat (N - 1) = (mask n :: 64 word)" using N by (simp add: mask_eq_exp_minus_1 of_nat_diff)
  then have "pick_block (concat bs) r N = take_bit n (unat (integer (concat bs) r))"
    unfolding pick_block_def by (simp add: take_bit_eq_mask[symmetric] unsigned_take_bit_eq)
  ultimately have "pick_block (concat bs) r N = (unat w0 + 2 ^ 32 * unat w1) mod 2 ^ 64 mod 2 ^ n"
    by (simp add: take_bit_eq_mod)
  also have "\<dots> = (unat w0 + 2 ^ 32 * unat w1) mod 2 ^ n"
    by (rule mod_mod_cancel) (rule le_imp_power_dvd[OF N(2)])
  also have "\<dots> = integerify bs mod 2 ^ n"
  proof -
    have "integerify bs = unat w0 + 2 ^ 32 * unat w1 + 2 ^ 64 * foldr (\<lambda>w n. unat w + 2 ^ 32 * n) ws 0"
      by (simp add: integerify_def l algebra_simps)
    moreover have "(2 ^ n :: nat) dvd 2 ^ 64" by (rule le_imp_power_dvd[OF N(2)])
    moreover from this obtain d where "(2 ^ 64 :: nat) = 2 ^ n * d" by blast
    ultimately show ?thesis by (simp only: mult.assoc mod_mult_self2)
  qed
  finally show ?thesis using N by simp
qed

lemma map2_concat:
  "list_all2 (\<lambda>a b. length a = length b) xs ys \<Longrightarrow>
   map2 f (concat xs) (concat ys) = concat (map2 (map2 f) xs ys)"
  by (induction xs ys rule: list_all2_induct) simp_all

lemma blocks_all2: "blocks r bs \<Longrightarrow> blocks r cs \<Longrightarrow> list_all2 (\<lambda>a b. length a = length b) bs cs"
  by (simp add: blocks_def list_all2_conv_all_nth)

lemma blocks_xor: "blocks r bs \<Longrightarrow> blocks r cs \<Longrightarrow> blocks r (map2 (map2 xor) bs cs)"
  by (auto simp: blocks_def in_set_zip)

lemma block_xor_spec:
  "blocks r bs \<Longrightarrow> blocks r cs \<Longrightarrow> take (32 * r) src = concat cs \<Longrightarrow>
   block_xor (concat bs) src (32 * r) = concat (map2 (map2 xor) bs cs)"
  using map2_concat[OF blocks_all2, of r bs cs xor] length_blocks[of r bs]
  by (simp add: block_xor_def)

text \<open>\<open>V\<close> after some rounds, and the block that \<open>j\<close> selects.\<close>

definition rfc_table :: "nat \<Rightarrow> u32 list list \<Rightarrow> u32 list" where
  "rfc_table n bs = concat (map (\<lambda>i. concat ((rfc_block_mix ^^ i) bs)) [0..<n])"

lemma rfc_table_Suc: "rfc_table (Suc n) bs = rfc_table n bs @ concat ((rfc_block_mix ^^ n) bs)"
  by (simp add: rfc_table_def)

lemma length_rfc_table [simp]: "blocks r bs \<Longrightarrow> 0 < r \<Longrightarrow> length (rfc_table n bs) = n * (32 * r)"
proof (induction n)
  case (Suc n)
  then show ?case using length_blocks[OF blocks_power, of r bs n] by (simp add: rfc_table_Suc)
qed (simp add: rfc_table_def)

lemma rfc_table_nth:
  assumes "blocks r bs" "0 < r" "j < n"
  shows "take (32 * r) (drop (j * (32 * r)) (rfc_table n bs)) = concat ((rfc_block_mix ^^ j) bs)"
proof -
  let ?L = "map (\<lambda>i. concat ((rfc_block_mix ^^ i) bs)) [0..<n]"
  have "\<forall>b\<in>set ?L. length b = 32 * r" using assms length_blocks[OF blocks_power] by auto
  from drop_concat_same[OF this, of j] show ?thesis using assms by (simp add: rfc_table_def mult.commute)
qed

lemma fill_loop:
  assumes bs: "blocks r bs" and "0 < r" and "length y = 32 * r" and "2 * k \<le> n" and "length v = n * (32 * r)"
  shows "\<exists>y' rest. length y' = 32 * r \<and> length rest = (n - 2 * k) * (32 * r) \<and>
     fold (fill_step r) [0..<k] (v, concat bs, y) =
       (rfc_table (2 * k) bs @ rest, concat ((rfc_block_mix ^^ (2 * k)) bs), y')"
  using \<open>2 * k \<le> n\<close>
proof (induction k)
  case 0
  then show ?case using assms by (simp add: rfc_table_def)
next
  case (Suc k)
  then obtain y' rest where y': "length y' = 32 * r" and rest: "length rest = (n - 2 * k) * (32 * r)"
    and run: "fold (fill_step r) [0..<k] (v, concat bs, y) =
      (rfc_table (2 * k) bs @ rest, concat ((rfc_block_mix ^^ (2 * k)) bs), y')" by auto
  let ?X = "\<lambda>i. (rfc_block_mix ^^ i) bs" and ?m = "32 * r"
  note len = length_blocks[OF blocks_power[OF bs \<open>0 < r\<close>]]
  note mix = block_mix_spec[OF blocks_power[OF bs \<open>0 < r\<close>] \<open>0 < r\<close>]
  have "n - 2 * k = Suc (Suc (n - 2 * Suc k))" using Suc.prems by simp
  with rest have rest': "length rest = ?m + (?m + (n - 2 * Suc k) * ?m)" by simp
  define a b c where "a = take ?m rest" and "b = take ?m (drop ?m rest)" and "c = drop ?m (drop ?m rest)"
  have abc: "rest = a @ b @ c" by (simp only: a_def b_def c_def append_take_drop_id)
  have l: "length a = ?m" "length b = ?m" "length c = (n - 2 * Suc k) * ?m"
    using rest' by (simp_all add: a_def b_def c_def)
  have v1: "blit (rfc_table (2 * k) bs @ rest) (2 * k * ?m) (concat (?X (2 * k))) = rfc_table (2 * k + 1) bs @ b @ c"
    unfolding abc using len[of "2 * k"]
    by (subst blit_mid[OF length_rfc_table[OF bs \<open>0 < r\<close>]]) (simp_all add: l rfc_table_Suc)
  have v2: "blit (rfc_table (2 * k + 1) bs @ b @ c) ((2 * k + 1) * ?m) (concat (?X (2 * k + 1))) =
      rfc_table (2 * k + 2) bs @ c"
    using len[of "2 * k + 1"]
    by (subst blit_mid[OF length_rfc_table[OF bs \<open>0 < r\<close>]]) (simp_all add: l rfc_table_Suc)
  have y1: "block_mix r (concat (?X (2 * k))) y' = concat (?X (2 * k + 1))" using mix[of y' "2 * k"] y' by simp
  have x1: "block_mix r (concat (?X (2 * k + 1))) (concat (?X (2 * k))) = concat (?X (2 * k + 2))"
    using mix[of "concat (?X (2 * k))" "2 * k + 1"] len by simp
  have "fold (fill_step r) [0..<Suc k] (v, concat bs, y) =
      fill_step r k (rfc_table (2 * k) bs @ rest, concat (?X (2 * k)), y')" by (simp add: run)
  also have "\<dots> = (rfc_table (2 * k + 2) bs @ c, concat (?X (2 * k + 2)), concat (?X (2 * k + 1)))"
    unfolding fill_step_def prod.case Let_def y1 x1 take_all[OF eq_refl[OF len]] v1 v2 ..
  finally show ?case using l len[of "2 * k + 1"]
    by - (rule exI[of _ "concat (?X (2 * k + 1))"], rule exI[of _ c], simp)
qed

lemma stir_loop:
  assumes bs: "blocks r bs" and "0 < r" and N: "N = 2 ^ n" "n \<le> 64"
    and "blocks r x" and "length y = 32 * r"
  defines "vs \<equiv> map (\<lambda>i. (rfc_block_mix ^^ i) bs) [0..<N]"
  shows "\<exists>y'. length y' = 32 * r \<and>
     fold (stir_step r N) [0..<k] (rfc_table N bs, concat x, y) =
       (rfc_table N bs, concat ((romix_step vs ^^ (2 * k)) x), y') \<and> blocks r ((romix_step vs ^^ (2 * k)) x)"
proof (induction k)
  case 0
  then show ?case using assms by simp
next
  case (Suc k)
  let ?m = "32 * r" and ?v = "rfc_table N bs"
  have step: "block_mix r (block_xor (concat z) (drop (pick_block (concat z) r N * ?m) ?v) ?m) out =
      concat (romix_step vs z) \<and> blocks r (romix_step vs z) \<and>
      length (block_xor (concat z) (drop (pick_block (concat z) r N * ?m) ?v) ?m) = ?m"
    if z: "blocks r z" and out: "length out = ?m" for z out
  proof -
    let ?j = "integerify z mod N"
    have "0 < N" using N by simp
    then have j: "?j < N" by simp
    have vj: "vs ! ?j = (rfc_block_mix ^^ ?j) bs" using j by (simp add: vs_def)
    then have bj: "blocks r (vs ! ?j)" using bs \<open>0 < r\<close> by simp
    have "block_xor (concat z) (drop (pick_block (concat z) r N * ?m) ?v) ?m = concat (map2 (map2 xor) z (vs ! ?j))"
      unfolding integerify_blocks[OF z \<open>0 < r\<close> N]
      by (rule block_xor_spec[OF z bj]) (simp only: rfc_table_nth[OF bs \<open>0 < r\<close> j] vj)
    moreover have "blocks r (map2 (map2 xor) z (vs ! ?j))" by (rule blocks_xor[OF z bj])
    moreover have "length vs = N" by (simp add: vs_def)
    ultimately show ?thesis
      using block_mix_spec[of r "map2 (map2 xor) z (vs ! ?j)" out] out \<open>0 < r\<close> by (simp add: romix_step_def)
  qed
  obtain y' where y': "length y' = ?m" and run: "fold (stir_step r N) [0..<k] (?v, concat x, y) =
      (?v, concat ((romix_step vs ^^ (2 * k)) x), y')" and z: "blocks r ((romix_step vs ^^ (2 * k)) x)"
    using Suc by auto
  let ?z = "(romix_step vs ^^ (2 * k)) x"
  note s1 = step[OF z y']
  from s1 have b1: "blocks r (romix_step vs ?z)" by simp
  note s2 = step[OF b1 conjunct2[OF conjunct2[OF s1]]]
  have "fold (stir_step r N) [0..<Suc k] (?v, concat x, y) = stir_step r N k (?v, concat ?z, y')" by (simp add: run)
  also have "\<dots> = (?v, concat (romix_step vs (romix_step vs ?z)),
      block_xor (concat (romix_step vs ?z)) (drop (pick_block (concat (romix_step vs ?z)) r N * ?m) ?v) ?m)"
    unfolding stir_step_def prod.case Let_def conjunct1[OF s1] conjunct1[OF s2] ..
  also have "romix_step vs (romix_step vs ?z) = (romix_step vs ^^ (2 * Suc k)) x" by simp
  finally show ?case using s2 by simp
qed

lemma length_le_words: "length s = 4 * n \<Longrightarrow> length (le_words s) = n"
proof (induction s arbitrary: n rule: le_words.induct)
  case (1 a b c d s)
  then show ?case by (cases n) simp_all
qed auto

lemma smix_spec:
  assumes "length b \<ge> 128 * r" "0 < r" and N: "N = 2 ^ n" "0 < n" "n \<le> 64"
    and "length (fst bufs) = N * (32 * r)" "length (snd bufs) = 64 * r"
  shows "fst (smix r N b bufs) = rfc_romix_bytes r N (take (128 * r) b) @ drop (128 * r) b \<and>
     length (fst (snd (smix r N b bufs))) = N * (32 * r) \<and> length (snd (snd (smix r N b bufs))) = 64 * r"
proof -
  obtain v xy where bufs: "bufs = (v, xy)" by force
  let ?m = "32 * r" and ?w = "le_words (take (128 * r) b)"
  have w: "length ?w = ?m" using assms by (intro length_le_words) simp
  define bs where "bs = chunks 16 (2 * r) ?w"
  have bs: "blocks r bs" and cat: "concat bs = ?w"
    unfolding bs_def using w by (auto intro: blocks_chunks concat_chunks)
  obtain n' where n': "n = Suc n'" using N by (cases n) auto
  then have half: "2 * ((N + 1) div 2) = N" using N by simp
  have y0: "length (drop ?m xy) = ?m" using assms bufs by simp
  obtain y1 where y1: "length y1 = ?m" and fill: "fold (fill_step r) [0..<(N + 1) div 2] (v, concat bs, drop ?m xy) =
      (rfc_table N bs, concat ((rfc_block_mix ^^ N) bs), y1)"
    using fill_loop[OF bs \<open>0 < r\<close> y0, of "(N + 1) div 2" N v] assms bufs half by auto
  define vs where "vs = map (\<lambda>i. (rfc_block_mix ^^ i) bs) [0..<N]"
  obtain y2 where y2: "length y2 = ?m" and stir: "fold (stir_step r N) [0..<(N + 1) div 2]
      (rfc_table N bs, concat ((rfc_block_mix ^^ N) bs), y1) =
      (rfc_table N bs, concat ((romix_step vs ^^ N) ((rfc_block_mix ^^ N) bs)), y2)"
    and b2: "blocks r ((romix_step vs ^^ N) ((rfc_block_mix ^^ N) bs))"
    using stir_loop[OF bs \<open>0 < r\<close> N(1) N(3) blocks_power[OF bs \<open>0 < r\<close>, of N] y1, of "(N + 1) div 2"] half
    unfolding vs_def by auto
  have out: "(romix_step vs ^^ N) ((rfc_block_mix ^^ N) bs) = romix N bs" by (simp add: romix_def vs_def Let_def)
  show ?thesis using y2 b2 bs \<open>0 < r\<close> fill stir
    by (simp add: smix_def bufs out Let_def rfc_romix_bytes_def cat bs_def[symmetric] length_blocks)
qed

section \<open>The whole derivation\<close>

text \<open>What the code relies on of HMAC-SHA256: its results have 32 bytes.\<close>

definition mac_size :: "hmac_fun \<Rightarrow> bool" where
  "mac_size hmac \<longleftrightarrow> (\<forall>k m. length (hmac k m) = 32)"

lemma length_pbkdf2: "mac_size hmac \<Longrightarrow> length (pbkdf2 hmac 32 password salt (Suc 0) n) = n"
proof -
  assume h: "mac_size hmac"
  let ?k = "(n + 32 - 1) div 32" and ?f = "pbkdf2_block hmac password salt (Suc 0)"
  have "\<forall>b\<in>set (map ?f [1..<Suc ?k]). length b = 32"
    using h by (auto simp: pbkdf2_block_def mac_size_def Let_def)
  then have "length (concat (map ?f [1..<Suc ?k])) = 32 * ?k" by (subst length_concat_same) auto
  moreover have "n \<le> 32 * ?k" by simp
  ultimately show ?thesis by (simp add: pbkdf2_def Let_def del: upt_Suc)
qed

lemma length_rfc_romix_bytes:
  assumes "length b = 128 * r" "0 < r" "N = 2 ^ n" "0 < n" "n \<le> 64"
  shows "length (rfc_romix_bytes r N b) = 128 * r"
proof -
  let ?bufs = "(replicate (N * (32 * r)) 0, replicate (64 * r) 0)"
  have w: "length (le_words b) = 32 * r" using assms by (intro length_le_words) simp
  define bs where "bs = chunks 16 (2 * r) (le_words b)"
  have bs: "blocks r bs" unfolding bs_def using w by (rule blocks_chunks)
  define vs where "vs = map (\<lambda>i. (rfc_block_mix ^^ i) bs) [0..<N]"
  have half: "2 * (N div 2) = N" using assms by (cases n) auto
  have "blocks r ((romix_step vs ^^ N) ((rfc_block_mix ^^ N) bs))"
    using stir_loop[OF bs \<open>0 < r\<close> assms(3,5) blocks_power[OF bs \<open>0 < r\<close>, of N], of "replicate (32 * r) 0" "N div 2"] half
    unfolding vs_def by auto
  then have "length (concat (romix N bs)) = 32 * r" by (simp add: romix_def vs_def Let_def)
  moreover have "\<forall>w\<in>set (map le_bytes ws). length w = 4" for ws by (simp add: le_bytes_def)
  ultimately show ?thesis
    using length_concat_same[of "map le_bytes (concat (romix N bs))" 4]
    by (simp add: rfc_romix_bytes_def bs_def)
qed

lemma smix_all_spec:
  assumes "length b = p * (128 * r)" "0 < r" and N: "N = 2 ^ n" "0 < n" "n \<le> 64"
    and "length v = N * (32 * r)" "length xy = 64 * r"
  shows "fst (smix_all r N p b (v, xy)) = concat (map (rfc_romix_bytes r N) (chunks (128 * r) p b))"
proof -
  let ?m = "128 * r" and ?R = "rfc_romix_bytes r N"
  let ?st = "\<lambda>i (b, bufs). case smix r N (drop (i * 128 * r) b) bufs of
             (seg, bufs') \<Rightarrow> (take (i * 128 * r) b @ seg, bufs')"
  have "\<exists>v' xy'. length v' = N * (32 * r) \<and> length xy' = 64 * r \<and>
      fold ?st [0..<k] (b, v, xy) =
        (concat (map ?R (chunks ?m k b)) @ drop (k * ?m) b, v', xy') \<and>
      length (concat (map ?R (chunks ?m k b))) = k * ?m" if "k \<le> p" for k
    using that
  proof (induction k)
    case 0
    then show ?case using assms by simp
  next
    case (Suc k)
    then obtain v' xy' where buf: "length v' = N * (32 * r)" "length xy' = 64 * r"
      and run: "fold ?st [0..<k] (b, v, xy) = (concat (map ?R (chunks ?m k b)) @ drop (k * ?m) b, v', xy')"
      and len: "length (concat (map ?R (chunks ?m k b))) = k * ?m" by auto
    let ?rest = "drop (k * ?m) b"
    have more: "?m \<le> length ?rest"
    proof -
      have "Suc k * ?m \<le> p * ?m" using Suc.prems by (rule mult_le_mono1)
      then show ?thesis using assms(1) by simp
    qed
    obtain seg v2 xy2 where sm: "smix r N ?rest (v', xy') = (seg, v2, xy2)" by (metis prod.exhaust)
    have seg: "seg = ?R (take ?m ?rest) @ drop ?m ?rest" and buf2: "length v2 = N * (32 * r)" "length xy2 = 64 * r"
      using smix_spec[OF more \<open>0 < r\<close> N, of "(v', xy')"] buf sm by simp_all
    have cs: "chunks ?m (Suc k) b = chunks ?m k b @ [take ?m ?rest]"
      by (rule nth_equalityI) (auto simp: nth_append nth_chunks less_Suc_eq simp del: chunks.simps)
    have at: "k * 128 * r = k * ?m" by simp
    have d: "drop (k * ?m) (concat (map ?R (chunks ?m k b)) @ ?rest) = ?rest"
      "take (k * ?m) (concat (map ?R (chunks ?m k b)) @ ?rest) = concat (map ?R (chunks ?m k b))"
      using len by simp_all
    have "fold ?st [0..<Suc k] (b, v, xy) = ?st k (concat (map ?R (chunks ?m k b)) @ ?rest, v', xy')"
      by (simp add: run)
    also have "\<dots> = (concat (map ?R (chunks ?m (Suc k) b)) @ drop (Suc k * ?m) b, v2, xy2)"
      unfolding prod.case at d sm cs by (simp add: seg add.commute)
    finally show ?case
      using buf2 len length_rfc_romix_bytes[OF _ \<open>0 < r\<close> N, of "take ?m ?rest"] more by (simp add: cs del: chunks.simps)
  qed
  from this[of p] show ?thesis using assms(1) by (auto simp: smix_all_def)
qed

lemma nat_power_of_two:
  "0 < (n :: nat) \<Longrightarrow> and n (n - 1) = 0 \<Longrightarrow> \<exists>k. n = 2 ^ k"
proof (induction n rule: less_induct)
  case (less n)
  show ?case
  proof (cases "even n")
    case True
    then obtain m where m: "n = 2 * m" by blast
    then have "0 < m" "m < n" using less.prems by auto
    have "n - 1 = 2 * (m - 1) + 1" using m \<open>0 < m\<close> by simp
    then have "and n (n - 1) = 2 * and m (m - 1)" unfolding m by (simp add: and_rec[of "2 * m"])
    then obtain k where "m = 2 ^ k" using less.IH[OF \<open>m < n\<close> \<open>0 < m\<close>] less.prems by auto
    then show ?thesis using m by (metis power_Suc)
  next
    case False
    then obtain m where m: "n = 2 * m + 1" by (metis oddE)
    have "and n (n - 1) = 2 * and m m" unfolding m by (simp add: and_rec[of "Suc (2 * m)"])
    then have "n = 2 ^ 0" using less.prems m by simp
    then show ?thesis by blast
  qed
qed

lemma valid_cost_power:
  assumes "valid_cost N"
  shows "\<exists>n. 0 < n \<and> n \<le> 64 \<and> unat N = 2 ^ n"
proof -
  have "N \<noteq> 0" "N \<noteq> 1" using assms by (auto simp: valid_cost_def)
  then have "unat (N - 1) = unat N - 1" by (simp add: unat_minus_one)
  moreover have "unat (and N (N - 1)) = and (unat N) (unat (N - 1))" by (simp add: unsigned_and_eq)
  ultimately have "and (unat N) (unat N - 1) = 0" using assms by (simp add: valid_cost_def)
  moreover have "0 < unat N" using \<open>N \<noteq> 0\<close> by (simp add: unat_gt_0)
  ultimately obtain n where n: "unat N = 2 ^ n" using nat_power_of_two by blast
  have "(2 :: nat) ^ n < 2 ^ 64" using n unsigned_less[of N, where ?'a = nat] by simp
  then have "n < 64" by (simp only: power_strict_increasing_iff)
  moreover have "n \<noteq> 0" using n \<open>N \<noteq> 1\<close> by (metis power_0 unsigned_1 word_unat_eq_iff)
  ultimately show ?thesis using n by auto
qed

lemma div_div_bound: "0 < b \<Longrightarrow> a \<le> M div 128 div b \<Longrightarrow> 128 * (a * b) \<le> (M :: int)"
proof -
  assume b: "0 < b" and "a \<le> M div 128 div b"
  then have "a * b \<le> M div 128 div b * b" by simp
  also have "\<dots> \<le> M div 128" using b by (metis div_mult_mod_eq le_add_same_cancel1 pos_mod_sign)
  finally show ?thesis by simp
qed

lemma sint_unat: "0 < sint (w :: 64 word) \<Longrightarrow> sint w = int (unat w)"
proof -
  assume pos: "0 < sint w"
  have u: "0 \<le> uint w" "uint w < 2 ^ 64" using unsigned_less[of w, where ?'a = int] by simp_all
  have s: "sint w = (uint w + 2 ^ 63) mod 2 ^ 64 - 2 ^ 63"
    by (simp add: sint_uint signed_take_bit_eq_take_bit_shift take_bit_eq_mod)
  have "uint w < 2 ^ 63"
  proof (rule ccontr)
    assume "\<not> uint w < 2 ^ 63"
    then have "(uint w + 2 ^ 63) mod 2 ^ 64 = uint w + 2 ^ 63 - 2 ^ 64" using u by (simp add: mod_pos_geq)
    then show False using s pos u by simp
  qed
  then have "sint w = uint w" using s u by simp
  then show ?thesis by simp
qed

lemma int_bound_nat: "int x = sint (v :: 64 word) \<Longrightarrow> int y = sint (w :: 64 word) \<Longrightarrow> 128 * (sint v * sint w) \<le> 2 ^ 31 - 1
   \<Longrightarrow> 128 * (y * x) < 2 ^ 31"
proof -
  assume "int x = sint v" "int y = sint w" "128 * (sint v * sint w) \<le> 2 ^ 31 - 1"
  then have "int (128 * (x * y)) \<le> 2 ^ 31 - 1" by (metis of_nat_mult of_nat_numeral)
  then have "128 * (x * y) \<le> 2 ^ 31 - 1" by (intro iffD1[OF of_nat_le_iff[where ?'a = int]]) simp
  then show ?thesis by (simp add: mult.commute)
qed

lemma scrypt_with_rfc:
  assumes "mac_size hmac"
  shows "case scrypt_with hmac sc password salt N r p key_len of
     Inr key \<Rightarrow> key = rfc_scrypt hmac password salt (unat N) (unat r) (unat p) key_len \<and> length key = key_len
       \<and> (\<exists>n>0. unat N = 2 ^ n) \<and> 0 < unat r \<and> 0 < unat p
       \<and> 128 * (unat N * unat r) < 2 ^ 31 \<and> 128 * (unat p * unat r) < 2 ^ 31
   | Inl e \<Rightarrow> \<not> (valid_cost N \<and> 0 < sint r \<and> 0 < sint p \<and> params_fit N r p)"
proof (cases "valid_cost N \<and> 0 < sint r \<and> 0 < sint p \<and> params_fit N r p")
  case True
  obtain n where n: "unat N = 2 ^ n" "0 < n" "n \<le> 64" using valid_cost_power True by blast
  have pos: "0 < unat r" "0 < unat p" using True sint_unat[of r] sint_unat[of p] by linarith+
  have si: "sint N = int (unat N)" "sint r = int (unat r)" "sint p = int (unat p)"
    using True sint_unat by (simp_all add: valid_cost_def)
  have "128 * (sint r * sint N) \<le> 2 ^ 31 - 1" "128 * (sint r * sint p) \<le> 2 ^ 31 - 1"
    using True by (auto simp: params_fit_def valid_cost_def intro!: div_div_bound)
  then have fit: "128 * (unat N * unat r) < 2 ^ 31" "128 * (unat p * unat r) < 2 ^ 31"
    using int_bound_nat[OF si(2)[symmetric] si(1)[symmetric]] int_bound_nat[OF si(2)[symmetric] si(3)[symmetric]]
    by blast+
  let ?b = "pbkdf2 hmac 32 password salt 1 (unat p * 128 * unat r)"
  obtain v xy where buf: "scratch_buffers (unat N) (unat r) sc = (v, xy)" by force
  then have "length v = unat N * (32 * unat r)" "length xy = 64 * unat r"
    by (auto simp: scratch_buffers_def)
  then have "fst (smix_all (unat r) (unat N) (unat p) ?b (scratch_buffers (unat N) (unat r) sc)) =
      concat (map (rfc_romix_bytes (unat r) (unat N)) (chunks (128 * unat r) (unat p) ?b))"
    unfolding buf using pos(1) n by (intro smix_all_spec) (simp_all add: length_pbkdf2[OF assms])
  with True n pos fit show ?thesis
    by (auto simp: scrypt_with_def Let_def rfc_scrypt_def length_pbkdf2[OF assms])
qed (auto simp: scrypt_with_def Let_def)

text \<open>
  C15: whatever an earlier derivation left in the pooled buffers, an accepted call returns
  the key RFC 7914 defines, of the length asked for; then the cost is a power of two
  and no index or buffer size leaves the range of 31 bits. Every other call is refused.
\<close>

theorem scrypt_is_rfc:
  assumes "mac_size hmac"
  shows "case scrypt_with hmac sc password salt N r p key_len of
     Inr key \<Rightarrow> key = rfc_scrypt hmac password salt (unat N) (unat r) (unat p) key_len \<and> length key = key_len
       \<and> (\<exists>n>0. unat N = 2 ^ n) \<and> 0 < unat r \<and> 0 < unat p
       \<and> 128 * (unat N * unat r) < 2 ^ 31 \<and> 128 * (unat p * unat r) < 2 ^ 31
   | Inl e \<Rightarrow> \<not> (valid_cost N \<and> 0 < sint r \<and> 0 < sint p \<and> params_fit N r p)"
  by (rule scrypt_with_rfc[OF assms])

lemma scrypt_is_rfc_witness:
  "scrypt_with (\<lambda>k m. replicate 32 (CHR 0x01)) \<lparr>sc_v = [7], sc_xy = []\<rparr> ''pw'' ''salt'' 16 1 1 64 =
   Inr (rfc_scrypt (\<lambda>k m. replicate 32 (CHR 0x01)) ''pw'' ''salt'' 16 1 1 64)
   \<and> scrypt_with (\<lambda>k m. replicate 32 (CHR 0x01)) \<lparr>sc_v = [7], sc_xy = []\<rparr> ''pw'' ''salt'' 15 1 1 64 =
     Inl (OtherError ''N must be > 1 and a power of 2'')"
proof -
  let ?h = "\<lambda>k m. replicate 32 (CHR 0x01) :: string" and ?sc = "\<lparr>sc_v = [7], sc_xy = []\<rparr>"
  have h: "mac_size ?h" by (simp add: mac_size_def)
  have "valid_cost 16" "params_fit 16 1 1" by (simp_all add: valid_cost_def params_fit_def)
  then obtain key where k: "scrypt_with ?h ?sc ''pw'' ''salt'' 16 1 1 64 = Inr key"
    by (auto simp: scrypt_with_def Let_def)
  have "\<not> valid_cost 15" by (simp add: valid_cost_def)
  then show ?thesis using scrypt_is_rfc[OF h, where sc = ?sc and password = "''pw''" and salt = "''salt''" and N = 16 and r = 1 and p = 1 and key_len = 64] k by (simp add: scrypt_with_def)
qed

end
