(* ===== verification/Password.thy ===== *)
theory Password
  imports Scrypt
begin

text \<open>
  crypto/password.go: password hashes "saltHex:keyHex" over scrypt, with the defaults of
  the cost parameters and the bounded number of hashes in flight. Random bytes are an
  argument; every derivation runs on some buffers of the pool, also an argument.
\<close>

section \<open>Hexadecimal\<close>

definition hex_char :: "nat \<Rightarrow> char" where "hex_char n = ''0123456789abcdef'' ! n"

definition hex_val :: "char \<Rightarrow> nat option" where
  "hex_val c =
     (let b = byte_of c
      in if 48 \<le> b \<and> b \<le> 57 then Some (b - 48)
         else if 97 \<le> b \<and> b \<le> 102 then Some (b - 87)
         else if 65 \<le> b \<and> b \<le> 70 then Some (b - 55) else None)"

definition hex_encode :: "string \<Rightarrow> string" where
  "hex_encode s = concat (map (\<lambda>c. [hex_char (byte_of c div 16), hex_char (byte_of c mod 16)]) s)"

fun hex_decode :: "string \<Rightarrow> string option" where
  "hex_decode [] = Some []"
| "hex_decode [c] = None"
| "hex_decode (a # b # s) =
     (case (hex_val a, hex_val b) of
        (Some x, Some y) \<Rightarrow> map_option ((#) (char_of (16 * x + y))) (hex_decode s)
      | _ \<Rightarrow> None)"

lemma hex_val_char: "n < 16 \<Longrightarrow> hex_val (hex_char n) = Some n"
proof -
  have "list_all (\<lambda>n. hex_val (hex_char n) = Some n) [0..<16]" by code_simp
  then show "n < 16 \<Longrightarrow> hex_val (hex_char n) = Some n" by (simp add: list_all_iff)
qed

lemma hex_char_not_colon: "n < 16 \<Longrightarrow> hex_char n \<noteq> CHR '':''"
proof -
  have "list_all (\<lambda>n. hex_char n \<noteq> CHR '':'') [0..<16]" by code_simp
  then show "n < 16 \<Longrightarrow> hex_char n \<noteq> CHR '':''" by (simp add: list_all_iff)
qed

lemma hex_decode_encode [simp]: "hex_decode (hex_encode s) = Some s"
proof (induction s)
  case (Cons c s)
  have "byte_of c div 16 < 16" using byte_of_less[of c] by simp
  then show ?case using Cons by (simp add: hex_encode_def hex_val_char) (simp add: byte_of_def)
qed (simp add: hex_encode_def)

lemma hex_encode_no_colon [simp]: "CHR '':'' \<notin> set (hex_encode s)"
proof -
  have "hex_char (byte_of c div 16) \<noteq> CHR '':''" "hex_char (byte_of c mod 16) \<noteq> CHR '':''" for c
    using byte_of_less[of c] by (simp_all add: hex_char_not_colon)
  then show ?thesis by (auto simp: hex_encode_def) metis+
qed

section \<open>The hasher\<close>

record scrypt_params =
  sp_n :: "64 word"
  sp_r :: "64 word"
  sp_p :: "64 word"
  sp_key_len :: nat
  sp_max_concurrent :: int
  sp_max_wait :: duration

text \<open>\<open>init\<close> fills in what is zero; \<open>procs\<close> is \<open>GOMAXPROCS\<close>.\<close>

definition init_params :: "int \<Rightarrow> scrypt_params \<Rightarrow> scrypt_params" where
  "init_params procs sp =
     sp\<lparr>sp_n := (if sp_n sp = 0 then 16384 else sp_n sp),
        sp_r := (if sp_r sp = 0 then 16 else sp_r sp),
        sp_p := (if sp_p sp = 0 then 1 else sp_p sp),
        sp_key_len := (if sp_key_len sp = 0 then 64 else sp_key_len sp),
        sp_max_concurrent := (if sp_max_concurrent sp \<le> 0 then procs else sp_max_concurrent sp),
        sp_max_wait := (if sp_max_wait sp = 0 then seconds 3 else sp_max_wait sp)\<rparr>"

text \<open>
  \<open>acquire\<close> with a number of hashes in flight. \<open>freed\<close> tells whether a slot is given
  back before the timer fires.
\<close>

definition acquire :: "scrypt_params \<Rightarrow> nat \<Rightarrow> bool \<Rightarrow> gerror option" where
  "acquire sp inflight freed =
     (if int inflight < sp_max_concurrent sp then None
      else if sp_max_wait sp < 0 then Some ErrHasherBusy
      else if freed then None else Some ErrHasherBusy)"

text \<open>What a call finds: the hashes in flight, whether one ends in time, and the pooled buffers.\<close>

record pool_state =
  ps_inflight :: nat
  ps_freed :: bool
  ps_scratch :: scratch

definition derive :: "hmac_fun \<Rightarrow> int \<Rightarrow> scrypt_params \<Rightarrow> pool_state \<Rightarrow> string \<Rightarrow> string \<Rightarrow> string result" where
  "derive hmac procs sp0 ps password salt =
     (let sp = init_params procs sp0
      in case acquire sp (ps_inflight ps) (ps_freed ps) of
           Some e \<Rightarrow> Inl e
         | None \<Rightarrow> scrypt_with hmac (ps_scratch ps) password salt (sp_n sp) (sp_r sp) (sp_p sp) (sp_key_len sp))"

definition hash_password ::
  "hmac_fun \<Rightarrow> int \<Rightarrow> scrypt_params \<Rightarrow> pool_state \<Rightarrow> string option \<Rightarrow> string \<Rightarrow> string result" where
  "hash_password hmac procs sp ps rand password =
     (case rand of
        None \<Rightarrow> Inl (OtherError ''rand'')
      | Some salt \<Rightarrow>
          (case derive hmac procs sp ps password (hex_encode salt) of
             Inl e \<Rightarrow> Inl e
           | Inr key \<Rightarrow> Inr (hex_encode salt @ '':'' @ hex_encode key)))"

definition malformed_hash :: gerror where "malformed_hash = OtherError ''malformed password hash''"

definition verify_password ::
  "hmac_fun \<Rightarrow> int \<Rightarrow> scrypt_params \<Rightarrow> pool_state \<Rightarrow> string \<Rightarrow> string \<Rightarrow> bool result" where
  "verify_password hmac procs sp ps stored password =
     (case str_cut (CHR '':'') stored of
        None \<Rightarrow> Inl malformed_hash
      | Some (salt_hex, key_hex) \<Rightarrow>
          (case hex_decode key_hex of
             None \<Rightarrow> Inl malformed_hash
           | Some want \<Rightarrow>
               (case derive hmac procs sp ps password salt_hex of
                  Inl e \<Rightarrow> Inl e
                | Inr got \<Rightarrow> Inr (got = want))))"

section \<open>Laws\<close>

text \<open>The key of a password and a salt text, as RFC 7914 defines it.\<close>

definition password_key :: "hmac_fun \<Rightarrow> int \<Rightarrow> scrypt_params \<Rightarrow> string \<Rightarrow> string \<Rightarrow> string" where
  "password_key hmac procs sp0 password salt =
     (let sp = init_params procs sp0
      in rfc_scrypt hmac password salt (unat (sp_n sp)) (unat (sp_r sp)) (unat (sp_p sp)) (sp_key_len sp))"

lemma scrypt_with_key:
  "mac_size hmac \<Longrightarrow> scrypt_with hmac sc password salt N r p n = Inr key \<Longrightarrow>
   key = rfc_scrypt hmac password salt (unat N) (unat r) (unat p) n"
  using scrypt_with_rfc[of hmac, where sc = sc and password = password and salt = salt and N = N and r = r and p = p and key_len = n]
  by simp

lemma derive_key:
  "mac_size hmac \<Longrightarrow> derive hmac procs sp ps password salt = Inr key \<Longrightarrow> key = password_key hmac procs sp password salt"
  by (auto simp: derive_def password_key_def Let_def scrypt_with_key split: option.splits)

text \<open>
  C16: a hash that was stored is of the form salt, colon, key, and verifies exactly the
  passwords with the same scrypt key under that salt, its own among them, whatever
  buffers and however many hashes are in flight; and a verification that says yes
  has read a well-formed hash with the key of the password in it.
\<close>

theorem password_hash_verifies:
  assumes "mac_size hmac"
  shows "(hash_password hmac procs sp ps rand password = Inr stored \<longrightarrow>
       (\<exists>salt. rand = Some salt \<and> stored = hex_encode salt @ '':'' @ hex_encode (password_key hmac procs sp password (hex_encode salt)) \<and>
         (\<forall>ps' password' ok. verify_password hmac procs sp ps' stored password' = Inr ok \<longrightarrow>
            ok = (password_key hmac procs sp password' (hex_encode salt) = password_key hmac procs sp password (hex_encode salt)))))
   \<and> (verify_password hmac procs sp ps any password = Inr True \<longrightarrow>
       (\<exists>salt_hex key_hex. any = salt_hex @ '':'' @ key_hex \<and> CHR '':'' \<notin> set salt_hex \<and>
          hex_decode key_hex = Some (password_key hmac procs sp password salt_hex)))"
proof (intro conjI impI)
  assume "hash_password hmac procs sp ps rand password = Inr stored"
  then obtain salt key where r: "rand = Some salt" and d: "derive hmac procs sp ps password (hex_encode salt) = Inr key"
    and st: "stored = hex_encode salt @ CHR '':'' # hex_encode key"
    by (auto simp: hash_password_def split: option.splits sum.splits)
  have k: "key = password_key hmac procs sp password (hex_encode salt)" by (rule derive_key[OF assms d])
  have "ok = (password_key hmac procs sp password' (hex_encode salt) = key)"
    if v: "verify_password hmac procs sp ps' stored password' = Inr ok" for ps' password' ok
  proof -
    obtain got where "derive hmac procs sp ps' password' (hex_encode salt) = Inr got" "ok = (got = key)"
      using v by (auto simp: verify_password_def st split: sum.splits)
    then show ?thesis using derive_key[OF assms] by blast
  qed
  with r st k show "\<exists>salt. rand = Some salt \<and> stored = hex_encode salt @ '':'' @ hex_encode (password_key hmac procs sp password (hex_encode salt)) \<and>
      (\<forall>ps' password' ok. verify_password hmac procs sp ps' stored password' = Inr ok \<longrightarrow>
         ok = (password_key hmac procs sp password' (hex_encode salt) = password_key hmac procs sp password (hex_encode salt)))"
    by simp
next
  assume "verify_password hmac procs sp ps any password = Inr True"
  then obtain salt_hex key_hex want where c: "str_cut (CHR '':'') any = Some (salt_hex, key_hex)"
    and h: "hex_decode key_hex = Some want" and d: "derive hmac procs sp ps password salt_hex = Inr want"
    by (auto simp: verify_password_def split: option.splits sum.splits)
  show "\<exists>salt_hex key_hex. any = salt_hex @ '':'' @ key_hex \<and> CHR '':'' \<notin> set salt_hex \<and>
      hex_decode key_hex = Some (password_key hmac procs sp password salt_hex)"
    using str_cut_SomeD[OF c] h derive_key[OF assms d] by auto
qed

definition demo_hasher :: scrypt_params where
  "demo_hasher = \<lparr>sp_n = 16, sp_r = 1, sp_p = 1, sp_key_len = 8, sp_max_concurrent = 2, sp_max_wait = 0\<rparr>"

lemma password_hash_verifies_witness:
  "\<exists>stored. hash_password (\<lambda>k m. replicate 32 (CHR 0x01)) 4 demo_hasher
       \<lparr>ps_inflight = 1, ps_freed = False, ps_scratch = \<lparr>sc_v = [], sc_xy = []\<rparr>\<rparr> (Some ''0123456789abcdef'') ''pw'' = Inr stored
     \<and> verify_password (\<lambda>k m. replicate 32 (CHR 0x01)) 4 demo_hasher
       \<lparr>ps_inflight = 0, ps_freed = False, ps_scratch = \<lparr>sc_v = [9], sc_xy = []\<rparr>\<rparr> stored ''pw'' = Inr True"
proof -
  let ?h = "\<lambda>k m. replicate 32 (CHR 0x01) :: string"
  let ?s = "\<lparr>ps_inflight = 1, ps_freed = False, ps_scratch = \<lparr>sc_v = [], sc_xy = []\<rparr>\<rparr>"
  let ?t = "\<lparr>ps_inflight = 0, ps_freed = False, ps_scratch = \<lparr>sc_v = [9], sc_xy = []\<rparr>\<rparr>"
  have h: "mac_size ?h" by (simp add: mac_size_def)
  have ok: "valid_cost 16" "params_fit 16 1 1" by (simp_all add: valid_cost_def params_fit_def)
  have "\<exists>k. derive ?h 4 demo_hasher ?s pw salt = Inr k" "\<exists>k. derive ?h 4 demo_hasher ?t pw salt = Inr k" for pw salt
    using ok by (simp_all add: derive_def init_params_def demo_hasher_def acquire_def scrypt_with_def Let_def)
  then obtain k k' where k: "derive ?h 4 demo_hasher ?s ''pw'' (hex_encode ''0123456789abcdef'') = Inr k"
    "derive ?h 4 demo_hasher ?t ''pw'' (hex_encode ''0123456789abcdef'') = Inr k'" by blast
  obtain stored ok where st: "hash_password ?h 4 demo_hasher ?s (Some ''0123456789abcdef'') ''pw'' = Inr stored"
    and v: "verify_password ?h 4 demo_hasher ?t stored ''pw'' = Inr ok"
    using k by (simp add: hash_password_def verify_password_def)
  then have "ok" using password_hash_verifies[OF h, of 4 demo_hasher ?s "Some ''0123456789abcdef''" "''pw''" stored] by auto
  with st v show ?thesis by auto
qed

end
