(* ===== verification/Keyring.thy ===== *)
theory Keyring
  imports Password Signing
begin

text \<open>
  crypto/aead.go: values encrypted at rest, in three formats, under a ring of secrets.
  AES-256-GCM, SHA-256, HMAC-SHA256 and the random nonce are arguments; the key
  derivation is the scrypt of theory \<open>Scrypt\<close>, base64url that of \<open>Go_Base64\<close>.
\<close>

section \<open>Locations\<close>

datatype crypt_error =
    NoMatchingKey
  | MalformedCiphertext
  | UnboundCiphertext
  | InvalidBinding
  | CryptFailed gerror

record binding =
  bd_model :: string
  bd_record :: string
  bd_field :: string

definition place :: "string \<Rightarrow> string \<Rightarrow> string \<Rightarrow> binding" where
  "place m r f = \<lparr>bd_model = m, bd_record = r, bd_field = f\<rparr>"

definition binding_valid :: "binding \<Rightarrow> bool" where
  "binding_valid b = (bd_model b \<noteq> '''' \<and> bd_record b \<noteq> '''' \<and> bd_field b \<noteq> '''')"

text \<open>\<open>binary.BigEndian.PutUint64\<close>.\<close>

fun be_fixed :: "nat \<Rightarrow> nat \<Rightarrow> string" where
  "be_fixed 0 n = []"
| "be_fixed (Suc k) n = be_fixed k (n div 256) @ [char_of (n mod 256)]"

definition be64 :: "nat \<Rightarrow> string" where "be64 n = be_fixed 8 n"

definition enc_version_v1 :: string where "enc_version_v1 = ''v1''"
definition enc_version_v2 :: string where "enc_version_v2 = ''v2''"

definition binding_aad :: "binding \<Rightarrow> string \<Rightarrow> string" where
  "binding_aad b kid =
     enc_version_v2 @ ''.'' @ kid @ concat (map (\<lambda>s. be64 (length s) @ s) [bd_model b, bd_record b, bd_field b])"

section \<open>Keys\<close>

record crypto_env =
  ce_sha :: "string \<Rightarrow> string"
  ce_hmac :: hmac_fun
  ce_nonce_size :: nat
  ce_seal :: "string \<Rightarrow> string \<Rightarrow> string \<Rightarrow> string \<Rightarrow> string"
  ce_open :: "string \<Rightarrow> string \<Rightarrow> string \<Rightarrow> string \<Rightarrow> string option"

definition legacy_kdf_prefix :: string where "legacy_kdf_prefix = ''go-dev-auth-enc:''"
definition v1_kdf_salt :: string where "v1_kdf_salt = ''go-dev-auth-enc-v1''"
definition v1_key_label :: string where "v1_key_label = ''go-dev-auth-enc-v1:key''"
definition v1_key_id_label :: string where "v1_key_id_label = ''go-dev-auth-enc-v1:kid''"
definition key_id_len :: nat where "key_id_len = 6"

definition legacy_key :: "crypto_env \<Rightarrow> string \<Rightarrow> string" where
  "legacy_key env secret = ce_sha env (legacy_kdf_prefix @ secret)"

text \<open>The key identifier and the encryption key of a secret.\<close>

definition v1_key :: "crypto_env \<Rightarrow> string \<Rightarrow> (string \<times> string) result" where
  "v1_key env secret =
     (case scrypt (ce_hmac env) secret v1_kdf_salt 16384 8 1 32 of
        Inl e \<Rightarrow> Inl e
      | Inr master \<Rightarrow> Inr (b64_encode (take key_id_len (ce_sha env (v1_key_id_label @ master))),
                        ce_sha env (v1_key_label @ master)))"

text \<open>The process-wide cache of derived keys, which is emptied when it is full.\<close>

definition key_cache_limit :: nat where "key_cache_limit = 64"

definition key_for :: "string \<Rightarrow> string list \<Rightarrow> string \<times> string list" where
  "key_for secret cache =
     (if secret \<in> set cache then (secret, cache)
      else (secret, (if length cache \<ge> key_cache_limit then [] else cache) @ [secret]))"

lemma key_for_bounded: "length cache \<le> key_cache_limit \<Longrightarrow> length (snd (key_for secret cache)) \<le> key_cache_limit"
  by (simp add: key_for_def key_cache_limit_def)

section \<open>The keyring\<close>

record keyring =
  kr_keys :: "string list"
  kr_accept_unbound :: bool

definition new_keyring :: "string \<Rightarrow> string list \<Rightarrow> bool \<Rightarrow> keyring" where
  "new_keyring current previous reject_unbound =
     \<lparr>kr_keys = foldl (\<lambda>ks p. if p = '''' \<or> p = current then ks else add_new ks p) [current] previous,
      kr_accept_unbound = \<not> reject_unbound\<rparr>"

definition current_key :: "keyring \<Rightarrow> string" where "current_key kr = hd (kr_keys kr)"

definition current_key_id :: "crypto_env \<Rightarrow> keyring \<Rightarrow> string result" where
  "current_key_id env kr = map_sum id fst (v1_key env (current_key kr))"

definition encrypt :: "crypto_env \<Rightarrow> keyring \<Rightarrow> string option \<Rightarrow> binding \<Rightarrow> string \<Rightarrow> crypt_error + string" where
  "encrypt env kr nonce b plaintext =
     (if \<not> binding_valid b then Inl InvalidBinding
      else (case v1_key env (current_key kr) of
              Inl e \<Rightarrow> Inl (CryptFailed e)
            | Inr (kid, key) \<Rightarrow>
                (case nonce of
                   None \<Rightarrow> Inl (CryptFailed (OtherError ''rand''))
                 | Some n \<Rightarrow>
                     Inr (enc_version_v2 @ ''.'' @ kid @ ''.'' @
                          b64_encode (n @ ce_seal env key n plaintext (binding_aad b kid))))))"

definition open_raw :: "crypto_env \<Rightarrow> string \<Rightarrow> string \<Rightarrow> string \<Rightarrow> string option" where
  "open_raw env key raw aad = ce_open env key (take (ce_nonce_size env) raw) (drop (ce_nonce_size env) raw) aad"

fun decrypt_versioned ::
  "crypto_env \<Rightarrow> string list \<Rightarrow> string \<Rightarrow> string \<Rightarrow> string \<Rightarrow> crypt_error + string" where
  "decrypt_versioned env [] kid raw aad = Inl NoMatchingKey"
| "decrypt_versioned env (k # ks) kid raw aad =
     (case v1_key env k of
        Inl e \<Rightarrow> Inl (CryptFailed e)
      | Inr (i, key) \<Rightarrow>
          if i \<noteq> kid then decrypt_versioned env ks kid raw aad
          else if length raw < ce_nonce_size env then Inl MalformedCiphertext
          else (case open_raw env key raw aad of None \<Rightarrow> Inl MalformedCiphertext | Some pt \<Rightarrow> Inr pt))"

fun decrypt_trial :: "crypto_env \<Rightarrow> string list \<Rightarrow> string \<Rightarrow> crypt_error + string" where
  "decrypt_trial env [] raw = Inl NoMatchingKey"
| "decrypt_trial env (k # ks) raw =
     (if length raw < ce_nonce_size env then Inl MalformedCiphertext
      else (case open_raw env (legacy_key env k) raw '''' of
              Some pt \<Rightarrow> Inr pt
            | None \<Rightarrow> decrypt_trial env ks raw))"

definition decrypt_legacy :: "crypto_env \<Rightarrow> keyring \<Rightarrow> string \<Rightarrow> crypt_error + string" where
  "decrypt_legacy env kr e =
     (if \<not> kr_accept_unbound kr then Inl UnboundCiphertext
      else (case b64_decode e of
              None \<Rightarrow> Inl MalformedCiphertext
            | Some raw \<Rightarrow> decrypt_trial env (kr_keys kr) raw))"

text \<open>The additional data a version calls for, or why the value is refused.\<close>

definition version_aad :: "keyring \<Rightarrow> binding \<Rightarrow> string \<Rightarrow> string \<Rightarrow> crypt_error + string" where
  "version_aad kr b version kid =
     (if version = enc_version_v2 then (if binding_valid b then Inr (binding_aad b kid) else Inl InvalidBinding)
      else if version = enc_version_v1 then
        (if kr_accept_unbound kr then Inr (version @ ''.'' @ kid) else Inl UnboundCiphertext)
      else Inl MalformedCiphertext)"

definition decrypt :: "crypto_env \<Rightarrow> keyring \<Rightarrow> binding \<Rightarrow> string \<Rightarrow> crypt_error + string" where
  "decrypt env kr b e =
     (if CHR ''.'' \<notin> set e then decrypt_legacy env kr e
      else (case str_split (CHR ''.'') e of
              [version, kid, body] \<Rightarrow>
                (case version_aad kr b version kid of
                   Inl err \<Rightarrow> Inl err
                 | Inr aad \<Rightarrow>
                     (case b64_decode body of
                        None \<Rightarrow> Inl MalformedCiphertext
                      | Some raw \<Rightarrow> decrypt_versioned env (kr_keys kr) kid raw aad))
            | _ \<Rightarrow> Inl MalformedCiphertext))"

definition needs_reencryption :: "crypto_env \<Rightarrow> keyring \<Rightarrow> string \<Rightarrow> bool" where
  "needs_reencryption env kr e =
     (case str_split (CHR ''.'') e of
        [version, kid, body] \<Rightarrow>
          if version \<noteq> enc_version_v2 then True
          else (case v1_key env (current_key kr) of Inl _ \<Rightarrow> True | Inr (i, _) \<Rightarrow> kid \<noteq> i)
      | _ \<Rightarrow> True)"

definition encrypt_string :: "crypto_env \<Rightarrow> string option \<Rightarrow> string \<Rightarrow> binding \<Rightarrow> string \<Rightarrow> crypt_error + string" where
  "encrypt_string env nonce secret b plaintext = encrypt env (new_keyring secret [] False) nonce b plaintext"

definition decrypt_string :: "crypto_env \<Rightarrow> string \<Rightarrow> binding \<Rightarrow> string \<Rightarrow> crypt_error + string" where
  "decrypt_string env secret b e = decrypt env (new_keyring secret [] False) b e"

section \<open>What the code relies on\<close>

text \<open>
  GCM is deterministic in key, nonce, plaintext and additional data, and \<open>Open\<close> succeeds
  exactly on what \<open>Seal\<close> made of the plaintext it returns.
\<close>

definition gcm :: "crypto_env \<Rightarrow> bool" where
  "gcm env \<longleftrightarrow> (\<forall>k n c a p. ce_open env k n c a = Some p \<longleftrightarrow> c = ce_seal env k n p a)"

lemma v1_key_total: "\<exists>kid key. v1_key env secret = Inr (kid, key)"
proof -
  have "valid_cost 16384" "params_fit 16384 8 1" by (simp_all add: valid_cost_def params_fit_def)
  then show ?thesis by (simp add: v1_key_def scrypt_def scrypt_with_def Let_def)
qed

definition key_id :: "crypto_env \<Rightarrow> string \<Rightarrow> string" where
  "key_id env secret = (case v1_key env secret of Inl _ \<Rightarrow> '''' | Inr (kid, _) \<Rightarrow> kid)"

definition enc_key :: "crypto_env \<Rightarrow> string \<Rightarrow> string" where
  "enc_key env secret = (case v1_key env secret of Inl _ \<Rightarrow> '''' | Inr (_, key) \<Rightarrow> key)"

lemma v1_key_eq [simp]: "v1_key env secret = Inr (key_id env secret, enc_key env secret)"
  using v1_key_total[of env secret] by (auto simp: key_id_def enc_key_def)

lemma key_id_no_dot [simp]: "CHR ''.'' \<notin> set (key_id env secret)"
proof -
  obtain kid key where k: "v1_key env secret = Inr (kid, key)" using v1_key_total by blast
  then have "\<exists>x. kid = b64_encode x" by (auto simp: v1_key_def simp del: v1_key_eq split: sum.splits)
  then show ?thesis using k by (auto simp: key_id_def simp del: v1_key_eq)
qed

section \<open>Bindings do not collide\<close>

text \<open>Lengths that fit into the eight bytes; every Go string has one.\<close>

definition fits64 :: "binding \<Rightarrow> bool" where
  "fits64 b \<longleftrightarrow> length (bd_model b) < 2 ^ 64 \<and> length (bd_record b) < 2 ^ 64 \<and> length (bd_field b) < 2 ^ 64"

lemma length_be_fixed [simp]: "length (be_fixed k n) = k"
  by (induction k arbitrary: n) simp_all

lemma be_fixed_inject: "n < 256 ^ k \<Longrightarrow> m < 256 ^ k \<Longrightarrow> be_fixed k n = be_fixed k m \<Longrightarrow> n = m"
proof (induction k arbitrary: n m)
  case (Suc k)
  have "byte_of (char_of (n mod 256) :: char) = n mod 256" "byte_of (char_of (m mod 256) :: char) = m mod 256"
    by (rule byte_of_char_of; simp)+
  with Suc.prems(3) have "n mod 256 = m mod 256" by (metis append1_eq_conv be_fixed.simps(2))
  moreover have "n div 256 < 256 ^ k" "m div 256 < 256 ^ k"
    using Suc.prems(1,2) by (simp_all add: less_mult_imp_div_less mult.commute)
  then have "n div 256 = m div 256" using Suc.IH Suc.prems(3) by simp
  ultimately show ?case by (metis div_mult_mod_eq)
qed simp

lemma be64_inject: "n < 2 ^ 64 \<Longrightarrow> m < 2 ^ 64 \<Longrightarrow> be64 n = be64 m \<longleftrightarrow> n = m"
  using be_fixed_inject[of n 8 m] by (auto simp: be64_def)

lemma prefixed_inject:
  "length s < 2 ^ 64 \<Longrightarrow> length t < 2 ^ 64 \<Longrightarrow>
   be64 (length s) @ s @ u = be64 (length t) @ t @ v \<longleftrightarrow> s = t \<and> u = v"
  by (metis append_eq_append_conv be64_def be64_inject length_be_fixed)

lemma binding_aad_inject:
  "fits64 b \<Longrightarrow> fits64 c \<Longrightarrow> binding_aad b kid = binding_aad c kid \<longleftrightarrow> b = c"
  using prefixed_inject[of "bd_field b" "bd_field c" "[]" "[]"]
  by (auto simp: binding_aad_def fits64_def prefixed_inject)

section \<open>Reading and writing\<close>

lemma split_value:
  "CHR ''.'' \<notin> set v \<Longrightarrow> CHR ''.'' \<notin> set k \<Longrightarrow> CHR ''.'' \<notin> set b \<Longrightarrow>
   str_split (CHR ''.'') (v @ ''.'' @ k @ ''.'' @ b) = [v, k, b]"
  by (simp add: str_split_append str_split_no_sep)

lemma version_no_dot [simp]: "CHR ''.'' \<notin> set enc_version_v2" "CHR ''.'' \<notin> set enc_version_v1"
  by (simp_all add: enc_version_v2_def enc_version_v1_def)

text \<open>Under which conditions, and as what, a value is sealed.\<close>

definition sealed :: "crypto_env \<Rightarrow> string \<Rightarrow> string \<Rightarrow> binding \<Rightarrow> string \<Rightarrow> string" where
  "sealed env secret n b pt =
     enc_version_v2 @ ''.'' @ key_id env secret @ ''.'' @
     b64_encode (n @ ce_seal env (enc_key env secret) n pt (binding_aad b (key_id env secret)))"

lemma encrypt_sealed:
  "encrypt env kr nonce b pt = Inr e \<longleftrightarrow>
   binding_valid b \<and> (\<exists>n. nonce = Some n \<and> e = sealed env (current_key kr) n b pt)"
  by (auto simp: encrypt_def sealed_def split: option.splits)

lemma split_sealed:
  "str_split (CHR ''.'') (sealed env secret n b pt) =
   [enc_version_v2, key_id env secret, b64_encode (n @ ce_seal env (enc_key env secret) n pt (binding_aad b (key_id env secret)))]"
  unfolding sealed_def by (rule split_value) simp_all

lemma needs_reencryption_sealed:
  "needs_reencryption env kr (sealed env secret n b pt) \<longleftrightarrow> key_id env secret \<noteq> key_id env (current_key kr)"
  by (simp add: needs_reencryption_def split_sealed)

text \<open>The key that answers for an identifier is the first with it.\<close>

lemma decrypt_versioned_find:
  "decrypt_versioned env ks kid raw aad =
     (case find (\<lambda>k. key_id env k = kid) ks of
        None \<Rightarrow> Inl NoMatchingKey
      | Some k \<Rightarrow> if length raw < ce_nonce_size env then Inl MalformedCiphertext
                  else (case open_raw env (enc_key env k) raw aad of None \<Rightarrow> Inl MalformedCiphertext | Some pt \<Rightarrow> Inr pt))"
  by (induction ks) simp_all

lemma decrypt_sealed:
  assumes "length n = ce_nonce_size env"
  shows "decrypt env kr b' (sealed env secret n b pt) =
     (if \<not> binding_valid b' then Inl InvalidBinding
      else (case find (\<lambda>k. key_id env k = key_id env secret) (kr_keys kr) of
        None \<Rightarrow> Inl NoMatchingKey
      | Some k \<Rightarrow>
          (case ce_open env (enc_key env k) n (ce_seal env (enc_key env secret) n pt (binding_aad b (key_id env secret)))
                  (binding_aad b' (key_id env secret)) of
             None \<Rightarrow> Inl MalformedCiphertext | Some p \<Rightarrow> Inr p)))"
proof -
  have "CHR ''.'' \<in> set (sealed env secret n b pt)" by (simp add: sealed_def)
  then show ?thesis using assms
    by (simp add: decrypt_def split_sealed version_aad_def decrypt_versioned_find open_raw_def split: option.splits)
qed

definition add_secret :: "string \<Rightarrow> string list \<Rightarrow> string \<Rightarrow> string list" where
  "add_secret cur ks p = (if p = '''' \<or> p = cur then ks else add_new ks p)"

lemma kr_keys_new: "kr_keys (new_keyring cur prev rej) = foldl (add_secret cur) [cur] prev"
proof -
  have "(\<lambda>ks p. if p = '''' \<or> p = cur then ks else add_new ks p) = add_secret cur"
    by (simp add: add_secret_def fun_eq_iff)
  then show ?thesis by (simp add: new_keyring_def)
qed

lemma set_add_secret: "cur \<in> set ks \<Longrightarrow> set (add_secret cur ks p) = set ks \<union> ({p} - {''''})"
  by (auto simp: add_secret_def)

lemma set_foldl_secret: "cur \<in> set ks \<Longrightarrow> set (foldl (add_secret cur) ks prev) = set ks \<union> (set prev - {''''})"
proof (induction prev arbitrary: ks)
  case (Cons p prev)
  then have "cur \<in> set (add_secret cur ks p)" by (simp add: set_add_secret)
  from Cons.IH[OF this] show ?case using Cons.prems by (auto simp: set_add_secret)
qed simp

lemma set_new_keyring: "set (kr_keys (new_keyring cur prev rej)) = insert cur (set prev - {''''})"
  by (simp add: kr_keys_new set_foldl_secret)

lemma hd_foldl_secret: "ks \<noteq> [] \<Longrightarrow> hd (foldl (add_secret cur) ks prev) = hd ks"
proof (induction prev arbitrary: ks)
  case (Cons p prev)
  then have "add_secret cur ks p \<noteq> []" "hd (add_secret cur ks p) = hd ks" by (simp_all add: add_secret_def add_new_def)
  with Cons.IH show ?case by simp
qed simp

lemma current_new_keyring [simp]: "current_key (new_keyring cur prev rej) = cur"
  by (simp add: current_key_def kr_keys_new hd_foldl_secret)

lemma find_unique: "k \<in> set ks \<Longrightarrow> P k \<Longrightarrow> (\<forall>x\<in>set ks. P x \<longrightarrow> x = k) \<Longrightarrow> find P ks = Some k"
proof (induction ks)
  case (Cons y ys)
  show ?case
  proof (cases "P y")
    case True
    then have "y = k" using Cons.prems(3) by (meson list.set_intros(1))
    with True show ?thesis by simp
  next
    case False
    then have "k \<in> set ys" using Cons.prems(1,2) by auto
    then have "find P ys = Some k" by (rule Cons.IH[OF _ Cons.prems(2)]) (meson Cons.prems(3) list.set_intros(2))
    with False show ?thesis by simp
  qed
qed simp

lemma find_none: "(\<And>x. x \<in> set ks \<Longrightarrow> \<not> P x) \<Longrightarrow> find P ks = None"
  by (simp add: find_None_iff)

text \<open>
  C17: a value stays readable under every later ring that lists the secret it was written
  with, wherever in the ring and whether or not unbound values are accepted, and under
  any other ring the answer is that the key is missing; and it is due for rewriting
  exactly until that secret is the current one again.
\<close>

theorem rotation_keeps_values:
  assumes "gcm env" and "length n = ce_nonce_size env"
    and "inj_on (key_id env) ({old, cur} \<union> set prev)"
    and "encrypt env (new_keyring old prev0 rej0) (Some n) b pt = Inr e"
  shows "decrypt env (new_keyring cur prev rej) b e =
       (if old = cur \<or> (old \<in> set prev \<and> old \<noteq> '''') then Inr pt else Inl NoMatchingKey)
     \<and> (needs_reencryption env (new_keyring cur prev rej) e \<longleftrightarrow> old \<noteq> cur)"
proof -
  have b: "binding_valid b" and e: "e = sealed env old n b pt" using assms(4) by (auto simp: encrypt_sealed)
  have same: "key_id env k = key_id env old \<longleftrightarrow> k = old" if "k \<in> insert cur (set prev)" for k
    using inj_on_eq_iff[OF assms(3), of k old] that by auto
  let ?find = "find (\<lambda>k. key_id env k = key_id env old) (kr_keys (new_keyring cur prev rej))"
  have f: "?find = (if old = cur \<or> (old \<in> set prev \<and> old \<noteq> '''') then Some old else None)"
  proof (cases "old \<in> set (kr_keys (new_keyring cur prev rej))")
    case True
    then have "?find = Some old" using same by (intro find_unique) (auto simp: set_new_keyring)
    with True show ?thesis by (auto simp: set_new_keyring)
  next
    case False
    then have "?find = None" using same by (intro find_none) (auto simp: set_new_keyring)
    with False show ?thesis by (auto simp: set_new_keyring)
  qed
  have "ce_open env (enc_key env old) n (ce_seal env (enc_key env old) n pt a) a = Some pt" for a
    using assms(1) by (simp add: gcm_def)
  then show ?thesis using same[of cur] b
    by (auto simp: e decrypt_sealed[OF assms(2)] f needs_reencryption_sealed)
qed

lemma decrypt_trial_bound: "\<not> kr_accept_unbound kr \<Longrightarrow> decrypt_legacy env kr e = Inl UnboundCiphertext"
  by (simp add: decrypt_legacy_def)

lemma decrypt_strict:
  assumes "gcm env" and "\<not> kr_accept_unbound kr" and "decrypt env kr b e = Inr p"
  shows "binding_valid b \<and> (\<exists>k\<in>set (kr_keys kr). \<exists>n body.
     str_split (CHR ''.'') e = [enc_version_v2, key_id env k, body] \<and>
     b64_decode body = Some (n @ ce_seal env (enc_key env k) n p (binding_aad b (key_id env k))))"
proof -
  have dot: "CHR ''.'' \<in> set e"
  proof (rule ccontr)
    assume "CHR ''.'' \<notin> set e"
    then have "decrypt env kr b e = Inl UnboundCiphertext" using assms(2) by (simp add: decrypt_def decrypt_trial_bound)
    then show False using assms(3) by simp
  qed
  then obtain kid body raw where sp: "str_split (CHR ''.'') e = [enc_version_v2, kid, body]" and b: "binding_valid b"
    and raw: "b64_decode body = Some raw" and d: "decrypt_versioned env (kr_keys kr) kid raw (binding_aad b kid) = Inr p"
    using assms(2,3)
    by (auto simp: decrypt_def version_aad_def split: list.splits sum.splits option.splits if_splits)
  obtain k where k: "find (\<lambda>k. key_id env k = kid) (kr_keys kr) = Some k"
    and o: "open_raw env (enc_key env k) raw (binding_aad b kid) = Some p"
    using d by (auto simp: decrypt_versioned_find split: option.splits if_splits)
  have kk: "k \<in> set (kr_keys kr)" "key_id env k = kid" using k by (auto simp: find_Some_iff)
  have "drop (ce_nonce_size env) raw = ce_seal env (enc_key env k) (take (ce_nonce_size env) raw) p (binding_aad b kid)"
    using assms(1) o by (simp add: gcm_def open_raw_def)
  then have "raw = take (ce_nonce_size env) raw @ ce_seal env (enc_key env k) (take (ce_nonce_size env) raw) p (binding_aad b kid)"
    by (metis append_take_drop_id)
  then show ?thesis using b sp raw kk by metis
qed

text \<open>
  Once unbound values are refused, whatever opens at a location is what one of the
  listed secrets seals for exactly this location, and the authenticated bytes of two
  locations differ. So a stored value moved to another model, record or field opens
  there only if GCM gives the same ciphertext and tag for two different additional data.
\<close>

theorem sealed_values_stay_put:
  assumes "gcm env"
  shows "(\<not> kr_accept_unbound kr \<and> decrypt env kr b e = Inr p \<longrightarrow>
       binding_valid b \<and> (\<exists>k\<in>set (kr_keys kr). \<exists>n body.
         str_split (CHR ''.'') e = [enc_version_v2, key_id env k, body] \<and>
         b64_decode body = Some (n @ ce_seal env (enc_key env k) n p (binding_aad b (key_id env k)))))
   \<and> (fits64 b \<and> fits64 c \<and> b \<noteq> c \<longrightarrow> binding_aad b kid \<noteq> binding_aad c kid)
   \<and> (fits64 b \<and> fits64 c \<and> b \<noteq> c \<and> length n = ce_nonce_size env \<and>
       encrypt env kr0 (Some n) b pt = Inr v \<and> decrypt env kr c v = Inr p' \<longrightarrow>
       (\<exists>k\<in>set (kr_keys kr). \<exists>kid. binding_aad b kid \<noteq> binding_aad c kid \<and>
         ce_seal env (enc_key env (current_key kr0)) n pt (binding_aad b kid) = ce_seal env (enc_key env k) n p' (binding_aad c kid)))"
proof (intro conjI impI)
  assume a: "fits64 b \<and> fits64 c \<and> b \<noteq> c \<and> length n = ce_nonce_size env \<and>
    encrypt env kr0 (Some n) b pt = Inr v \<and> decrypt env kr c v = Inr p'"
  let ?s = "current_key kr0"
  have v: "v = sealed env ?s n b pt" using a by (auto simp: encrypt_sealed)
  have d: "decrypt env kr c (sealed env ?s n b pt) = Inr p'" and n: "length n = ce_nonce_size env" using a v by auto
  obtain k where k: "find (\<lambda>k. key_id env k = key_id env ?s) (kr_keys kr) = Some k"
    and o: "ce_open env (enc_key env k) n (ce_seal env (enc_key env ?s) n pt (binding_aad b (key_id env ?s)))
      (binding_aad c (key_id env ?s)) = Some p'"
    using d unfolding decrypt_sealed[OF n] by (auto split: if_splits option.splits)
  then have "k \<in> set (kr_keys kr)" by (auto simp: find_Some_iff)
  moreover have "binding_aad b (key_id env ?s) \<noteq> binding_aad c (key_id env ?s)" using a by (simp add: binding_aad_inject)
  moreover have "ce_seal env (enc_key env ?s) n pt (binding_aad b (key_id env ?s)) =
      ce_seal env (enc_key env k) n p' (binding_aad c (key_id env ?s))"
    using o assms by (simp add: gcm_def)
  ultimately show "\<exists>k\<in>set (kr_keys kr). \<exists>kid. binding_aad b kid \<noteq> binding_aad c kid \<and>
      ce_seal env (enc_key env ?s) n pt (binding_aad b kid) = ce_seal env (enc_key env k) n p' (binding_aad c kid)"
    by blast
qed (use decrypt_strict[OF assms] binding_aad_inject in blast)+

section \<open>Examples\<close>

text \<open>A cipher that keeps everything in the clear is deterministic and opens what it sealed.\<close>

definition demo_seal :: "string \<Rightarrow> string \<Rightarrow> string \<Rightarrow> string \<Rightarrow> string" where
  "demo_seal k n p a = be64 (length k) @ k @ be64 (length a) @ a @ p"

definition demo_open :: "string \<Rightarrow> string \<Rightarrow> string \<Rightarrow> string \<Rightarrow> string option" where
  "demo_open k n c a = (let pre = be64 (length k) @ k @ be64 (length a) @ a
     in if has_prefix c pre then Some (drop (length pre) c) else None)"

definition demo_crypto :: crypto_env where
  "demo_crypto = \<lparr>ce_sha = id, ce_hmac = (\<lambda>k m. take 32 (k @ replicate 32 (CHR 0x01))), ce_nonce_size = 2,
     ce_seal = demo_seal, ce_open = demo_open\<rparr>"

lemma gcm_demo: "gcm demo_crypto"
proof -
  have "demo_open k n c a = Some p \<longleftrightarrow> c = demo_seal k n p a" for k n c a p
    by (auto simp: demo_open_def demo_seal_def Let_def has_prefix_iff)
  then show ?thesis by (simp add: gcm_def demo_crypto_def)
qed

lemma rotation_keeps_values_witness:
  "\<exists>e. encrypt demo_crypto (new_keyring ''old'' [] False) (Some ''nn'') (place ''account'' ''1'' ''token'') ''secret'' = Inr e
     \<and> decrypt demo_crypto (new_keyring ''old'' [] True) (place ''account'' ''1'' ''token'') e = Inr ''secret''
     \<and> \<not> needs_reencryption demo_crypto (new_keyring ''old'' [] True) e"
proof -
  let ?b = "place ''account'' ''1'' ''token''" and ?n = "''nn''"
  have b: "binding_valid ?b" by (simp add: binding_valid_def place_def)
  then obtain e where e: "encrypt demo_crypto (new_keyring ''old'' [] False) (Some ?n) ?b ''secret'' = Inr e"
    by (simp add: encrypt_def)
  have "length ?n = ce_nonce_size demo_crypto" by (simp add: demo_crypto_def)
  moreover have "inj_on (key_id demo_crypto) ({''old'', ''old''} \<union> set [])" by simp
  ultimately show ?thesis using rotation_keeps_values[OF gcm_demo _ _ e, of "''old''" "[]" True] e by simp
qed

lemma sealed_values_stay_put_witness:
  "binding_aad (place ''a'' ''b'' ''cd'') ''k'' \<noteq> binding_aad (place ''a'' ''bc'' ''d'') ''k''"
proof -
  have "fits64 (place ''a'' ''b'' ''cd'')" "fits64 (place ''a'' ''bc'' ''d'')"
    "place ''a'' ''b'' ''cd'' \<noteq> place ''a'' ''bc'' ''d''" by (simp_all add: fits64_def place_def)
  then show ?thesis using sealed_values_stay_put[OF gcm_demo] by blast
qed

end
