(* ===== verification/Storage_Facts.thy ===== *)
theory Storage_Facts
  imports Storage_Spec
begin

text \<open>Facts on rows of the reference store that several components use.\<close>

lemma spec_update_many_cases:
  assumes "spec_update_many m ws u d = (d', r)"
  obtains e where "r = Inl e" "d' = d"
    | "u = []" "d' = d" "r = Inr 0"
    | "d' = set_rows m (map (\<lambda>r. if matches r ws then gmerge r u else r) (sd_rows d m)) d"
        "r = Inr (length (filter (\<lambda>r. matches r ws) (sd_rows d m)))"
  using assms by (auto simp: spec_update_many_def split: if_splits option.splits)

lemma same_id_same_row:
  assumes "sdb_inv d" "q \<in> set (sd_rows d m)" "r \<in> set (sd_rows d m)" "rget q ''id'' = rget r ''id''"
  shows "q = r"
proof (rule ccontr)
  assume "q \<noteq> r"
  obtain i j where ij: "i < length (sd_rows d m)" "j < length (sd_rows d m)" "sd_rows d m ! i = q" "sd_rows d m ! j = r"
    using assms(2,3) by (metis in_set_conv_nth)
  have "sorted_wrt (\<lambda>a b. \<not> clash ''id'' a b) (sd_rows d m)"
    using sdb_invD[OF assms(1), of m] id_in_uniq[OF assms(1), of m] by (simp add: rows_ok_def)
  then have "\<not> clash ''id'' q r"
    using ij \<open>q \<noteq> r\<close> by (metis clash_sym linorder_neqE_nat sorted_wrt_nth_less)
  moreover have "has_str_id q" "has_str_id r" using sdb_invD[OF assms(1), of m] assms(2,3) by (auto simp: rows_ok_def)
  ultimately show False using assms(4) by (auto simp: clash_id has_str_id_def rget_def)
qed

lemma length_filter_strict:
  assumes "\<And>x. P x \<Longrightarrow> Q x" "x \<in> set xs" "Q x" "\<not> P x"
  shows "length (filter P xs) < length (filter Q xs)"
proof -
  have "filter P xs = filter P (filter Q xs)" using assms(1) by (auto simp: filter_filter intro: filter_cong)
  then show ?thesis using length_filter_less[of x "filter Q xs" P] assms(2-4) by simp
qed

end
