(* ===== verification/Rotation.thy ===== *)
theory Rotation
  imports Keyring Store Storage_Facts
begin

text \<open>
  secrets.go: rewriting the stored ciphertexts under the current secret, page by page
  in the order of the ids, each value with a compare-and-set on what was read; and the
  account tokens of handler_account.go that carry the \<open>enc:\<close> marker.
\<close>

section \<open>Account tokens\<close>

definition enc_prefix :: string where "enc_prefix = ''enc:''"

definition has_enc_prefix :: "string \<Rightarrow> bool" where
  "has_enc_prefix v = (length enc_prefix < length v \<and> take (length enc_prefix) v = enc_prefix)"

definition account_binding :: "string \<Rightarrow> string \<Rightarrow> binding" where
  "account_binding i f = place model_account i f"

definition maybe_encrypt :: "crypto_env \<Rightarrow> keyring \<Rightarrow> bool \<Rightarrow> string option \<Rightarrow> binding \<Rightarrow> string \<Rightarrow> crypt_error + string" where
  "maybe_encrypt env kr enabled nonce b v =
     (if v = '''' \<or> \<not> enabled then Inr v
      else map_sum id ((@) enc_prefix) (encrypt env kr nonce b v))"

definition maybe_decrypt :: "crypto_env \<Rightarrow> keyring \<Rightarrow> binding \<Rightarrow> string \<Rightarrow> crypt_error + string" where
  "maybe_decrypt env kr b v =
     (if \<not> has_enc_prefix v then Inr v else decrypt env kr b (drop (length enc_prefix) v))"

section \<open>Counting\<close>

record reencrypt_result =
  rr_scanned :: nat
  rr_rewritten :: nat
  rr_unreadable :: nat
  rr_skipped :: nat
  rr_failed :: nat

definition rr_zero :: reencrypt_result where
  "rr_zero = \<lparr>rr_scanned = 0, rr_rewritten = 0, rr_unreadable = 0, rr_skipped = 0, rr_failed = 0\<rparr>"

definition rr_add :: "reencrypt_result \<Rightarrow> reencrypt_result \<Rightarrow> reencrypt_result" where
  "rr_add r q = \<lparr>rr_scanned = rr_scanned r + rr_scanned q, rr_rewritten = rr_rewritten r + rr_rewritten q,
     rr_unreadable = rr_unreadable r + rr_unreadable q, rr_skipped = rr_skipped r + rr_skipped q,
     rr_failed = rr_failed r + rr_failed q\<rparr>"

definition rr_done :: "reencrypt_result \<Rightarrow> bool" where
  "rr_done r = (rr_rewritten r = 0 \<and> rr_unreadable r = 0 \<and> rr_skipped r = 0 \<and> rr_failed r = 0)"

definition one_scanned :: reencrypt_result where "one_scanned = rr_zero\<lparr>rr_scanned := 1\<rparr>"
definition one_failed :: reencrypt_result where "one_failed = rr_zero\<lparr>rr_failed := 1\<rparr>"

type_synonym tally = "reencrypt_result \<times> gerror list"

definition tally_add :: "tally \<Rightarrow> tally \<Rightarrow> tally" where
  "tally_add a b = (rr_add (fst a) (fst b), snd a @ snd b)"

section \<open>The pass\<close>

text \<open>The ring, and the nonces that will be drawn for a place.\<close>

record rotation =
  ro_env :: crypto_env
  ro_ring :: keyring
  ro_rand :: "binding \<Rightarrow> string option"

definition stored_string :: "grec \<Rightarrow> string \<Rightarrow> string" where
  "stored_string r f = (case rget r f of VStr s \<Rightarrow> s | _ \<Rightarrow> '''')"

text \<open>The ciphertext in a field, if there is one.\<close>

definition stored_body :: "string \<Rightarrow> string \<Rightarrow> string option" where
  "stored_body prefix stored =
     (if prefix \<noteq> '''' then (if has_enc_prefix stored then Some (drop (length prefix) stored) else None)
      else if stored = '''' then None else Some stored)"

definition reencrypt_field ::
  "'s adapter \<Rightarrow> rotation \<Rightarrow> string \<Rightarrow> string \<Rightarrow> string \<Rightarrow> string \<Rightarrow> grec \<Rightarrow> 's \<Rightarrow> 's \<times> tally" where
  "reencrypt_field A ro model prefix i field rec s =
     (let stored = stored_string rec field; b = place model i field
      in case stored_body prefix stored of
           None \<Rightarrow> (s, rr_zero, [])
         | Some body \<Rightarrow>
             if \<not> needs_reencryption (ro_env ro) (ro_ring ro) body then (s, one_scanned, [])
             else (case decrypt (ro_env ro) (ro_ring ro) b body of
               Inl _ \<Rightarrow> (s, one_scanned\<lparr>rr_unreadable := 1\<rparr>, [])
             | Inr plain \<Rightarrow>
                 (case encrypt (ro_env ro) (ro_ring ro) (ro_rand ro b) b plain of
                    Inl _ \<Rightarrow> (s, one_scanned\<lparr>rr_failed := 1\<rparr>, [OtherError ''re-encrypting''])
                  | Inr rewritten \<Rightarrow>
                      (case ad_update_many A model [W ''id'' (VStr i), W field (VStr stored)]
                              [(field, VStr (prefix @ rewritten))] s of
                         (s', Inl e) \<Rightarrow>
                           if e = ErrNotFound then (s', one_scanned\<lparr>rr_skipped := 1\<rparr>, [])
                           else (s', one_scanned\<lparr>rr_failed := 1\<rparr>, [e])
                       | (s', Inr n) \<Rightarrow>
                           if n = 0 then (s', one_scanned\<lparr>rr_skipped := 1\<rparr>, [])
                           else (s', one_scanned\<lparr>rr_rewritten := 1\<rparr>, [])))))"

fun reencrypt_each ::
  "'s adapter \<Rightarrow> rotation \<Rightarrow> string \<Rightarrow> string \<Rightarrow> string \<Rightarrow> grec \<Rightarrow> string list \<Rightarrow> tally \<Rightarrow> 's \<Rightarrow> 's \<times> tally" where
  "reencrypt_each A ro model prefix i rec [] acc s = (s, acc)"
| "reencrypt_each A ro model prefix i rec (f # fs) acc s =
     (case reencrypt_field A ro model prefix i f rec s of
        (s', one) \<Rightarrow> reencrypt_each A ro model prefix i rec fs (tally_add acc one) s')"

text \<open>One page; \<open>cur_id\<close> becomes the greatest id seen.\<close>

fun reencrypt_page ::
  "'s adapter \<Rightarrow> rotation \<Rightarrow> string \<Rightarrow> string \<Rightarrow> string list \<Rightarrow> grec list \<Rightarrow> string \<Rightarrow> tally \<Rightarrow> 's \<Rightarrow> 's \<times> string \<times> tally" where
  "reencrypt_page A ro model prefix cols [] cur_id acc s = (s, cur_id, acc)"
| "reencrypt_page A ro model prefix cols (rec # recs) cur_id acc s =
     (let i = stored_string rec ''id''; last_id' = (if str_less cur_id i then i else cur_id)
      in if i = '''' then reencrypt_page A ro model prefix cols recs last_id' (tally_add acc (one_failed, [OtherError ''no id''])) s
         else (case reencrypt_each A ro model prefix i rec cols acc s of
                 (s', acc') \<Rightarrow> reencrypt_page A ro model prefix cols recs last_id' acc' s'))"

definition reencrypt_batch_size :: nat where "reencrypt_batch_size = 200"

definition id_cursor :: "string \<Rightarrow> clause list" where
  "id_cursor cur_id = (if cur_id \<noteq> '''' then [W_op ''id'' OpGt (VStr cur_id)] else [])"

definition id_page :: find_options where
  "id_page = \<lparr>fo_limit = int reencrypt_batch_size, fo_offset = 0, fo_sort = Some (''id'', ''asc'')\<rparr>"

partial_function (option) reencrypt_loop ::
  "'s adapter \<Rightarrow> rotation \<Rightarrow> string \<Rightarrow> string \<Rightarrow> string list \<Rightarrow> string \<Rightarrow> tally \<Rightarrow> 's \<Rightarrow> ('s \<times> tally) option" where
  "reencrypt_loop A ro model prefix cols cur_id acc s =
     (case ad_find_many A model (id_cursor cur_id) (Some id_page) s of
        Inl e \<Rightarrow> Some (s, fst acc, snd acc @ [e])
      | Inr recs \<Rightarrow>
          if recs = [] then Some (s, acc)
          else (case reencrypt_page A ro model prefix cols recs cur_id acc s of
                  (s', last_id', acc') \<Rightarrow>
                    if last_id' = cur_id then Some (s', acc')
                    else if length recs < reencrypt_batch_size then Some (s', acc')
                    else reencrypt_loop A ro model prefix cols last_id' acc' s'))"

definition reencrypt_fields ::
  "'s adapter \<Rightarrow> rotation \<Rightarrow> string \<Rightarrow> string \<Rightarrow> string list \<Rightarrow> 's \<Rightarrow> ('s \<times> tally) option" where
  "reencrypt_fields A ro model prefix cols s = reencrypt_loop A ro model prefix cols '''' (rr_zero, []) s"

definition reencrypt_account_tokens :: "'s adapter \<Rightarrow> rotation \<Rightarrow> 's \<Rightarrow> ('s \<times> tally) option" where
  "reencrypt_account_tokens A ro s =
     reencrypt_fields A ro model_account enc_prefix [''accessToken'', ''refreshToken'', ''idToken''] s"

definition reencrypt_records :: "'s adapter \<Rightarrow> rotation \<Rightarrow> string \<Rightarrow> string list \<Rightarrow> 's \<Rightarrow> ('s \<times> tally) option" where
  "reencrypt_records A ro model cols s = reencrypt_fields A ro model '''' cols s"

text \<open>All of it: the accounts, then every plugin that rotates, whatever errors there are.\<close>

fun run_rotators :: "('s \<Rightarrow> ('s \<times> tally) option) list \<Rightarrow> tally \<Rightarrow> 's \<Rightarrow> ('s \<times> tally) option" where
  "run_rotators [] acc s = Some (s, acc)"
| "run_rotators (p # ps) acc s =
     (case p s of None \<Rightarrow> None | Some (s', one) \<Rightarrow> run_rotators ps (tally_add acc one) s')"

definition reencrypt_secrets ::
  "'s adapter \<Rightarrow> rotation \<Rightarrow> ('s \<Rightarrow> ('s \<times> tally) option) list \<Rightarrow> 's \<Rightarrow> ('s \<times> tally) option" where
  "reencrypt_secrets A ro plugins s = run_rotators (reencrypt_account_tokens A ro # plugins) (rr_zero, []) s"

section \<open>One value\<close>

text \<open>
  The only thing a field's turn can do to the store: the rows with this id whose field
  still holds what was read get the same plaintext sealed under the current secret.
\<close>

definition rewritten_row :: "rotation \<Rightarrow> string \<Rightarrow> string \<Rightarrow> string \<Rightarrow> string \<Rightarrow> string \<Rightarrow> grec \<Rightarrow> grec \<Rightarrow> bool" where
  "rewritten_row ro model prefix i field stored r r' \<longleftrightarrow>
     rget r ''id'' = VStr i \<and> rget r field = VStr stored \<and>
     (\<exists>body plain sealed_value. stored_body prefix stored = Some body \<and>
        decrypt (ro_env ro) (ro_ring ro) (place model i field) body = Inr plain \<and>
        encrypt (ro_env ro) (ro_ring ro) (ro_rand ro (place model i field)) (place model i field) plain = Inr sealed_value \<and>
        r' = gmerge r [(field, VStr (prefix @ sealed_value))])"

text \<open>
  The pass never reverts a concurrent write. Whatever the store holds by the time a
  value that was read earlier is written back, every row is left as it is, other than
  rows with this id whose field still holds what was read; and those keep their plaintext.
\<close>

theorem rotation_compare_and_set:
  assumes "reencrypt_field spec_adapter ro model prefix i field rec d = (d', one)"
  shows "list_all2 (\<lambda>r r'. r' = r \<or> rewritten_row ro model prefix i field (stored_string rec field) r r')
       (sd_rows d model) (sd_rows d' model)
     \<and> (\<forall>m. m \<noteq> model \<longrightarrow> sd_rows d' m = sd_rows d m)
     \<and> (d' \<noteq> d \<longrightarrow> rr_rewritten (fst one) = 1)"
proof (cases "d' = d")
  case True
  then show ?thesis by (auto simp: list_all2_same)
next
  case False
  let ?st = "stored_string rec field" and ?b = "place model i field"
  let ?ws = "[W ''id'' (VStr i), W field (VStr ?st)]"
  obtain body plain v r where body: "stored_body prefix ?st = Some body"
    and dec: "decrypt (ro_env ro) (ro_ring ro) ?b body = Inr plain"
    and enc: "encrypt (ro_env ro) (ro_ring ro) (ro_rand ro ?b) ?b plain = Inr v"
    and upd: "spec_update_many model ?ws [(field, VStr (prefix @ v))] d = (d', r)"
    and one: "r = Inr n \<Longrightarrow> n \<noteq> 0 \<Longrightarrow> rr_rewritten (fst one) = 1" for n
    using assms False by (fastforce simp: reencrypt_field_def Let_def split: option.splits if_splits sum.splits prod.splits)
  have d': "d' = set_rows model (map (\<lambda>r. if matches r ?ws then gmerge r [(field, VStr (prefix @ v))] else r) (sd_rows d model)) d"
    and r: "r = Inr (length (filter (\<lambda>r. matches r ?ws) (sd_rows d model)))"
    using spec_update_many_cases[OF upd] False by auto
  have "\<exists>row\<in>set (sd_rows d model). matches row ?ws"
  proof (rule ccontr)
    assume "\<not> (\<exists>row\<in>set (sd_rows d model). matches row ?ws)"
    then have "map (\<lambda>r. if matches r ?ws then gmerge r [(field, VStr (prefix @ v))] else r) (sd_rows d model) = sd_rows d model"
      by (intro map_idI) auto
    then show False using False unfolding d' by (simp add: set_rows_def)
  qed
  then have "length (filter (\<lambda>r. matches r ?ws) (sd_rows d model)) \<noteq> 0" by (auto simp: filter_empty_conv)
  then have "rr_rewritten (fst one) = 1" using one r by blast
  moreover have "list_all2 (\<lambda>r r'. r' = r \<or> rewritten_row ro model prefix i field ?st r r') (sd_rows d model) (sd_rows d' model)"
    unfolding d' list_all2_conv_all_nth using body dec enc by (auto simp: rewritten_row_def)
  ultimately show ?thesis by (simp add: d')
qed

section \<open>The whole pass\<close>

text \<open>A tally that went on from another one: done and without errors only if that was.\<close>

definition quiet :: "tally \<Rightarrow> bool" where
  "quiet t \<longleftrightarrow> rr_done (fst t) \<and> snd t = []"

lemma quiet_add [simp]: "quiet (tally_add a b) \<longleftrightarrow> quiet a \<and> quiet b"
  by (auto simp: quiet_def tally_add_def rr_add_def rr_done_def)

lemma quiet_zero [simp]: "quiet (rr_zero, [])"
  by (simp add: quiet_def rr_done_def rr_zero_def)

lemma quiet_error [simp]: "\<not> quiet (r, e # es)" "\<not> quiet (r, es @ [e])"
  by (simp_all add: quiet_def)

text \<open>Nothing in this field of a row is left to do.\<close>

definition settled :: "rotation \<Rightarrow> string \<Rightarrow> grec \<Rightarrow> string \<Rightarrow> bool" where
  "settled ro prefix r f \<longleftrightarrow>
     (\<forall>body. stored_body prefix (stored_string r f) = Some body \<longrightarrow> \<not> needs_reencryption (ro_env ro) (ro_ring ro) body)"

definition row_ids :: "sdb \<Rightarrow> string \<Rightarrow> gval list" where
  "row_ids d m = map (\<lambda>r. rget r ''id'') (sd_rows d m)"

lemma spec_update_many_ids:
  "\<not> ghas u ''id'' \<Longrightarrow> row_ids (fst (spec_update_many m ws u d)) model = row_ids d model"
proof -
  assume "\<not> ghas u ''id''"
  then have "rget (gmerge r u) ''id'' = rget r ''id''" for r
    by (simp add: rget_def ghas_def map_add_def)
  then show ?thesis
    by (auto simp: spec_update_many_def row_ids_def split: option.splits)
qed

section \<open>Pages\<close>

lemma rget_id: "sdb_inv d \<Longrightarrow> r \<in> set (sd_rows d m) \<Longrightarrow> rget r ''id'' = VStr (stored_string r ''id'')"
  using sdb_invD[of d m] by (auto simp: rows_ok_def has_str_id_def rget_def stored_string_def)

lemma matches_cursor:
  "sdb_inv d \<Longrightarrow> r \<in> set (sd_rows d m) \<Longrightarrow>
   matches r (id_cursor cur_id) \<longleftrightarrow> cur_id = [] \<or> str_less cur_id (stored_string r ''id'')"
  by (simp add: id_cursor_def match_one_def val_compare_def cmp_op_def rget_id)

lemma page_facts:
  assumes d: "sdb_inv d" and find: "spec_find_many m (id_cursor cur_id) (Some id_page) d = Inr recs"
  shows "set recs \<subseteq> set (sd_rows d m) \<and>
     (\<forall>r\<in>set recs. cur_id = [] \<or> str_less cur_id (stored_string r ''id'')) \<and>
     (\<forall>r\<in>set (sd_rows d m). cur_id = [] \<or> str_less cur_id (stored_string r ''id'') \<longrightarrow>
        r \<in> set recs \<or> length recs = reencrypt_batch_size \<and>
          (\<forall>q\<in>set recs. str_less (stored_string q ''id'') (stored_string r ''id'')))"
proof -
  let ?F = "filter (\<lambda>r. matches r (id_cursor cur_id)) (sd_rows d m)" and ?n = reencrypt_batch_size
  define xs where "xs = stable_sort (less_by ''id'' False) ?F"
  have recs: "recs = take ?n xs"
    using find by (auto simp: spec_find_many_def page_def id_page_def xs_def reencrypt_batch_size_def split: option.splits)
  have set: "set xs = set ?F" by (simp add: xs_def)
  have lt: "less_by ''id'' False a b \<longleftrightarrow> str_less (stored_string a ''id'') (stored_string b ''id'')"
    if "a \<in> set ?F" "b \<in> set ?F" for a b
    using that rget_id[OF d, of a m] rget_id[OF d, of b m] by (simp add: less_by_def less_value_def)
  have "swo_on (set ?F) (less_by ''id'' False)"
    unfolding swo_on_def
  proof (intro conjI ballI impI)
    fix x y assume "x \<in> set ?F" "y \<in> set ?F" "less_by ''id'' False x y"
    then show "\<not> less_by ''id'' False y x" using lt str_less_asym by blast
  next
    fix x y z assume xyz: "x \<in> set ?F" "y \<in> set ?F" "z \<in> set ?F"
      and "\<not> less_by ''id'' False x y" "\<not> less_by ''id'' False y z"
    then have "\<not> str_less (stored_string x ''id'') (stored_string y ''id'')"
      "\<not> str_less (stored_string y ''id'') (stored_string z ''id'')" using lt by blast+
    then have "\<not> str_less (stored_string x ''id'') (stored_string z ''id'')"
      using str_less_linear[of "stored_string x ''id''" "stored_string y ''id''"]
        str_less_trans[of "stored_string y ''id''" "stored_string x ''id''" "stored_string z ''id''"] by auto
    then show "\<not> less_by ''id'' False x z" using lt xyz by blast
  qed
  then have "sorted_wrt (\<lambda>a b. \<not> less_by ''id'' False b a) xs" unfolding xs_def by (rule sorted_stable_sort)
  then have sorted: "\<not> less_by ''id'' False b a" if "a \<in> set (take ?n xs)" "b \<in> set (drop ?n xs)" for a b
    using that by (metis append_take_drop_id sorted_wrt_append)
  have mem: "r \<in> set xs" if "r \<in> set (sd_rows d m)" "cur_id = [] \<or> str_less cur_id (stored_string r ''id'')" for r
    using that matches_cursor[OF d] by (simp add: set)
  have "r \<in> set recs \<or> length recs = ?n \<and> (\<forall>q\<in>set recs. str_less (stored_string q ''id'') (stored_string r ''id''))"
    if r: "r \<in> set (sd_rows d m)" "cur_id = [] \<or> str_less cur_id (stored_string r ''id'')" for r
  proof (cases "r \<in> set recs")
    case False
    then have rd: "r \<in> set (drop ?n xs)" using mem[OF r] by (metis Un_iff append_take_drop_id recs set_append)
    then have "length recs = ?n" by (cases "?n \<le> length xs") (auto simp: recs)
    moreover have "str_less (stored_string q ''id'') (stored_string r ''id'')" if q: "q \<in> set recs" for q
    proof -
      have "q \<in> set ?F" "r \<in> set ?F" using q rd in_set_takeD in_set_dropD unfolding recs set[symmetric] by fast+
      then have "\<not> str_less (stored_string r ''id'') (stored_string q ''id'')" "q \<in> set (sd_rows d m)"
        using sorted[of q r] q rd lt by (auto simp: recs)
      then show ?thesis
        using same_id_same_row[OF d _ r(1), of q] rget_id[OF d r(1)] rget_id[OF d, of q m] False q str_less_linear by metis
    qed
    ultimately show ?thesis by blast
  qed simp
  moreover have "set recs \<subseteq> set ?F" using set_take_subset[of ?n xs] set by (simp add: recs)
  ultimately show ?thesis using matches_cursor[OF d] by auto
qed

context storage_contract
begin

lemma reencrypt_field_keeps:
  assumes "I s" and "f \<notin> set (uniq_in S model)" "f \<noteq> ''id''"
    and run: "reencrypt_field A ro model prefix i f rec s = (s', one)"
  shows "I s' \<and> row_ids (\<alpha> s') model = row_ids (\<alpha> s) model \<and>
     (quiet one \<longrightarrow> s' = s \<and> settled ro prefix rec f)"
proof -
  have sim: "sim \<alpha> I (ad_update_many A model ws [(f, v)]) (spec_update_many model ws [(f, v)])" for ws v
    by (rule update_many_sim) (use assms(2) in \<open>auto simp: ghas_def\<close>)
  have ids: "I t \<and> row_ids (\<alpha> t) model = row_ids (\<alpha> s) model"
    if "ad_update_many A model ws [(f, v)] s = (t, r)" for ws v t r
    using simD[OF sim \<open>I s\<close> that] spec_update_many_ids[of "[(f, v)]" model ws "\<alpha> s" model] \<open>f \<noteq> ''id''\<close>
    by (simp add: ghas_def)
  show ?thesis
    using run \<open>I s\<close> ids
    by (auto simp: reencrypt_field_def Let_def quiet_def rr_done_def one_scanned_def rr_zero_def settled_def
        split: option.splits if_splits sum.splits prod.splits)
qed

definition pass_ok :: "string \<Rightarrow> string list \<Rightarrow> bool" where
  "pass_ok model cols \<longleftrightarrow> (\<forall>f\<in>set cols. f \<notin> set (uniq_in S model) \<and> f \<noteq> ''id'')"

lemma reencrypt_each_keeps:
  "I s \<Longrightarrow> pass_ok model cols \<Longrightarrow> reencrypt_each A ro model prefix i rec cols acc s = (s', acc') \<Longrightarrow>
   I s' \<and> row_ids (\<alpha> s') model = row_ids (\<alpha> s) model \<and>
   (quiet acc' \<longrightarrow> quiet acc \<and> s' = s \<and> (\<forall>f\<in>set cols. settled ro prefix rec f))"
proof (induction cols arbitrary: acc s)
  case (Cons f cols)
  obtain s1 one where f: "reencrypt_field A ro model prefix i f rec s = (s1, one)" by (meson surj_pair)
  note keep = reencrypt_field_keeps[OF Cons.prems(1) _ _ f]
  have "pass_ok model cols" "f \<notin> set (uniq_in S model)" "f \<noteq> ''id''" using Cons.prems(2) by (auto simp: pass_ok_def)
  then show ?case using Cons.IH[of s1 "tally_add acc one"] keep Cons.prems(3) f by auto
qed simp

lemma reencrypt_page_keeps:
  "I s \<Longrightarrow> pass_ok model cols \<Longrightarrow> reencrypt_page A ro model prefix cols recs cur_id acc s = (s', last_id, acc') \<Longrightarrow>
   I s' \<and> row_ids (\<alpha> s') model = row_ids (\<alpha> s) model \<and>
   (last_id = cur_id \<or> str_less cur_id last_id \<and> last_id \<in> (\<lambda>r. stored_string r ''id'') ` set recs) \<and>
   (\<forall>r\<in>set recs. \<not> str_less last_id (stored_string r ''id'')) \<and>
   (quiet acc' \<longrightarrow> quiet acc \<and> s' = s \<and>
      (\<forall>r\<in>set recs. stored_string r ''id'' \<noteq> '''' \<and> (\<forall>f\<in>set cols. settled ro prefix r f)))"
proof (induction recs arbitrary: cur_id acc s)
  case (Cons rec recs)
  let ?i = "stored_string rec ''id''" and ?l = "if str_less cur_id (stored_string rec ''id'') then stored_string rec ''id'' else cur_id"
  have le: "\<not> str_less last_id ?i" if "last_id = ?l \<or> str_less ?l last_id"
  proof -
    have "\<not> str_less ?l ?i" by simp
    then show ?thesis using that str_less_trans by blast
  qed
  have up: "last_id = cur_id \<or> str_less cur_id last_id \<and> last_id \<in> (\<lambda>r. stored_string r ''id'') ` set (rec # recs)"
    if "last_id = ?l \<or> str_less ?l last_id \<and> last_id \<in> (\<lambda>r. stored_string r ''id'') ` set recs"
    using that str_less_trans by (auto split: if_splits)
  show ?case
  proof (cases "?i = ''''")
    case True
    then have "reencrypt_page A ro model prefix cols recs ?l (tally_add acc (one_failed, [OtherError ''no id''])) s = (s', last_id, acc')"
      using Cons.prems(3) by simp
    from Cons.IH[OF Cons.prems(1,2) this] show ?thesis using le up by auto
  next
    case False
    obtain s1 acc1 where e: "reencrypt_each A ro model prefix ?i rec cols acc s = (s1, acc1)" by (meson surj_pair)
    then have p: "reencrypt_page A ro model prefix cols recs ?l acc1 s1 = (s', last_id, acc')"
      using Cons.prems(3) False by (simp add: Let_def)
    note k = reencrypt_each_keeps[OF Cons.prems(1,2) e]
    from Cons.IH[OF _ Cons.prems(2) p] k False show ?thesis using le up by auto
  qed
qed simp

lemma reencrypt_loop_total:
  assumes "I s" "pass_ok model cols"
  shows "\<exists>s' acc'. reencrypt_loop A ro model prefix cols cur_id acc s = Some (s', acc') \<and> I s' \<and>
     row_ids (\<alpha> s') model = row_ids (\<alpha> s) model \<and>
     (quiet acc' \<longrightarrow> quiet acc \<and> s' = s \<and>
        (\<forall>r\<in>set (sd_rows (\<alpha> s) model). cur_id = [] \<or> str_less cur_id (stored_string r ''id'') \<longrightarrow>
           stored_string r ''id'' \<noteq> [] \<and> (\<forall>f\<in>set cols. settled ro prefix r f)))"
  using \<open>I s\<close>
proof (induction "length (filter (\<lambda>v. \<exists>x. v = VStr x \<and> str_less cur_id x) (row_ids (\<alpha> s) model))"
    arbitrary: cur_id acc s rule: less_induct)
  case less
  note d = inv_abs[OF less.prems]
  have fm: "ad_find_many A model (id_cursor cur_id) (Some id_page) s = spec_find_many model (id_cursor cur_id) (Some id_page) (\<alpha> s)"
    by (rule find_many_sim[OF less.prems])
  show ?case
  proof (cases "spec_find_many model (id_cursor cur_id) (Some id_page) (\<alpha> s)")
    case (Inl e)
    then show ?thesis using less.prems by (subst reencrypt_loop.simps) (simp add: fm)
  next
    case (Inr recs)
    note pf = page_facts[OF d Inr]
    show ?thesis
    proof (cases "recs = []")
      case True
      then show ?thesis using less.prems pf Inr
        by (subst reencrypt_loop.simps) (auto simp: fm reencrypt_batch_size_def)
    next
      case False
      obtain s1 last_id acc1 where p: "reencrypt_page A ro model prefix cols recs cur_id acc s = (s1, last_id, acc1)"
        by (meson prod_cases3)
      note k = reencrypt_page_keeps[OF less.prems assms(2) p]
      show ?thesis
      proof (cases "last_id = cur_id \<or> length recs < reencrypt_batch_size")
        case True
        have "\<not> quiet acc1" if "last_id = cur_id"
        proof
          assume "quiet acc1"
          obtain r where "r \<in> set recs" using False by (cases recs) auto
          then show False using k pf that \<open>quiet acc1\<close> str_less_linear[of "[]"]
            by (metis str_less.simps(1))
        qed
        moreover have "reencrypt_loop A ro model prefix cols cur_id acc s = Some (s1, acc1)"
          by (subst reencrypt_loop.simps) (use True False in \<open>auto simp: fm p Inr\<close>)
        moreover have "r \<in> set recs"
          if "last_id \<noteq> cur_id" "r \<in> set (sd_rows (\<alpha> s) model)" "cur_id = [] \<or> str_less cur_id (stored_string r ''id'')" for r
          using pf True that by auto
        ultimately show ?thesis using k by blast
      next
        case go: False
        have up: "str_less cur_id last_id" "last_id \<in> (\<lambda>r. stored_string r ''id'') ` set recs" using k go by auto
        have ids: "row_ids (\<alpha> s1) model = row_ids (\<alpha> s) model" and I1: "I s1" using k by auto
        have "VStr last_id \<in> set (row_ids (\<alpha> s) model)"
          using up(2) pf rget_id[OF d] by (force simp: row_ids_def)
        then have "length (filter (\<lambda>v. \<exists>x. v = VStr x \<and> str_less last_id x) (row_ids (\<alpha> s1) model))
            < length (filter (\<lambda>v. \<exists>x. v = VStr x \<and> str_less cur_id x) (row_ids (\<alpha> s) model))"
          unfolding ids using up(1) str_less_trans by (intro length_filter_strict[of _ _ "VStr last_id"]) auto
        from less.hyps[OF this I1, of acc1] obtain s' acc'
          where run: "reencrypt_loop A ro model prefix cols last_id acc1 s1 = Some (s', acc')"
            and I': "I s'" "row_ids (\<alpha> s') model = row_ids (\<alpha> s1) model"
            and q: "quiet acc' \<Longrightarrow> quiet acc1 \<and> s' = s1 \<and>
              (\<forall>r\<in>set (sd_rows (\<alpha> s1) model). last_id = [] \<or> str_less last_id (stored_string r ''id'') \<longrightarrow>
                 stored_string r ''id'' \<noteq> [] \<and> (\<forall>f\<in>set cols. settled ro prefix r f))"
          by blast
        have loop: "reencrypt_loop A ro model prefix cols cur_id acc s = Some (s', acc')"
          using False go run Inr by (subst reencrypt_loop.simps) (simp add: fm p)
        have "quiet acc \<and> s' = s \<and>
          (\<forall>r\<in>set (sd_rows (\<alpha> s) model). cur_id = [] \<or> str_less cur_id (stored_string r ''id'') \<longrightarrow>
             stored_string r ''id'' \<noteq> [] \<and> (\<forall>f\<in>set cols. settled ro prefix r f))" if "quiet acc'"
        proof -
          have q1: "quiet acc1" "s' = s1" using q[OF that] by auto
          then have k1: "quiet acc" "s1 = s"
            "\<forall>r\<in>set recs. stored_string r ''id'' \<noteq> [] \<and> (\<forall>f\<in>set cols. settled ro prefix r f)" using k by auto
          have "stored_string r ''id'' \<noteq> [] \<and> (\<forall>f\<in>set cols. settled ro prefix r f)"
            if r: "r \<in> set (sd_rows (\<alpha> s) model)" "cur_id = [] \<or> str_less cur_id (stored_string r ''id'')" for r
          proof (cases "r \<in> set recs")
            case False
            then have "str_less last_id (stored_string r ''id'')" using pf r up(2) by auto
            then show ?thesis using q[OF \<open>quiet acc'\<close>] r k1 by auto
          qed (use k1 in auto)
          then show ?thesis using q1 k1 by auto
        qed
        then show ?thesis using loop I' ids by auto
      qed
    qed
  qed
qed

end

section \<open>Retiring a secret\<close>

lemma kr_keys_head: "\<exists>ks. kr_keys (new_keyring cur prev rej) = cur # ks"
proof -
  have "kr_keys (new_keyring cur prev rej) \<noteq> []"
    using set_new_keyring[of cur prev rej] by (metis insert_not_empty list.set(1))
  moreover have "hd (kr_keys (new_keyring cur prev rej)) = cur" by (simp add: kr_keys_new hd_foldl_secret)
  ultimately show ?thesis by (metis list.collapse)
qed

lemma settled_readable:
  assumes "\<not> needs_reencryption env (new_keyring cur prev rej0) v"
  shows "decrypt env (new_keyring cur [] rej) b v = decrypt env (new_keyring cur prev rej0) b v"
proof -
  obtain body where sp: "str_split (CHR ''.'') v = [enc_version_v2, key_id env cur, body]"
    using assms by (auto simp: needs_reencryption_def split: list.splits if_splits)
  have dot: "CHR ''.'' \<in> set v" by (metis sp str_split_no_sep list.inject list.distinct(1))
  obtain ks where ks: "kr_keys (new_keyring cur prev rej0) = cur # ks" using kr_keys_head by blast
  have "kr_keys (new_keyring cur [] rej) = [cur]" by (simp add: new_keyring_def)
  then have "decrypt_versioned env (kr_keys (new_keyring cur [] rej)) (key_id env cur) raw aad =
      decrypt_versioned env (kr_keys (new_keyring cur prev rej0)) (key_id env cur) raw aad" for raw aad
    by (simp add: ks)
  then show ?thesis by (simp add: decrypt_def dot sp version_aad_def split: option.splits)
qed

text \<open>
  C18: on the in-memory store a pass over columns that are not unique comes to an end,
  whatever the table holds. If it reports that it is done, without an error, it changed
  nothing, and every ciphertext in these columns reads the same under the current
  secret alone with unbound values refused, so the previous secrets can go.
\<close>

theorem rotation_pass_ends:
  assumes "mem_inv S s" and "\<forall>f\<in>set cols. f \<notin> set (uniq_in S model) \<and> f \<noteq> ''id''"
    and "ro_ring ro = new_keyring cur prev rej"
  shows "\<exists>s' res errs. reencrypt_fields mem_adapter ro model prefix cols s = Some (s', res, errs) \<and> mem_inv S s' \<and>
     (rr_done res \<and> errs = [] \<longrightarrow> s' = s \<and>
        (\<forall>r\<in>set (mem_rows s model). \<forall>f\<in>set cols. \<forall>body b. stored_body prefix (stored_string r f) = Some body \<longrightarrow>
           decrypt (ro_env ro) (new_keyring cur [] True) b body = decrypt (ro_env ro) (ro_ring ro) b body))"
proof -
  have "mem.pass_ok S model cols" using assms(2) by (simp add: mem.pass_ok_def)
  from mem.reencrypt_loop_total[OF assms(1) this, of ro prefix "[]" "(rr_zero, [])"]
  obtain s' acc' where run: "reencrypt_loop mem_adapter ro model prefix cols [] (rr_zero, []) s = Some (s', acc')"
    and inv: "mem_inv S s'"
    and q: "quiet acc' \<Longrightarrow> s' = s \<and> (\<forall>r\<in>set (sd_rows (mem_abs s) model). \<forall>f\<in>set cols. settled ro prefix r f)"
    by auto
  obtain res errs where acc: "acc' = (res, errs)" by force
  have "decrypt (ro_env ro) (new_keyring cur [] True) b body = decrypt (ro_env ro) (ro_ring ro) b body"
    if "rr_done res \<and> errs = []" "r \<in> set (mem_rows s model)" "f \<in> set cols"
      "stored_body prefix (stored_string r f) = Some body" for r f body b
    using q that assms(3) settled_readable by (auto simp: acc quiet_def settled_def)
  then show ?thesis using run inv q by (auto simp: reencrypt_fields_def acc quiet_def)
qed

section \<open>Examples\<close>

definition demo_rotation :: rotation where
  "demo_rotation = \<lparr>ro_env = demo_crypto, ro_ring = new_keyring ''new'' [''old''] False, ro_rand = (\<lambda>_. Some ''nn'')\<rparr>"

text \<open>A value in the oldest format, and a store in which it has been replaced meanwhile.\<close>

definition demo_v0 :: string where
  "demo_v0 = b64_encode (''nn'' @ demo_seal (legacy_key demo_crypto ''new'') ''nn'' ''plain'' '''')"

definition demo_sdb :: "string \<Rightarrow> sdb" where
  "demo_sdb v = \<lparr>sd_rows = (\<lambda>m. if m = model_account then [[(''id'', VStr ''1''), (''accessToken'', VStr v)]] else []),
     sd_schema = None\<rparr>"

lemma demo_v0_facts:
  "needs_reencryption demo_crypto kr demo_v0"
  "decrypt demo_crypto (new_keyring ''new'' [''old''] False) b demo_v0 = Inr ''plain''"
proof -
  have sp: "str_split (CHR ''.'') demo_v0 = [demo_v0]" by (simp add: demo_v0_def str_split_no_sep)
  show "needs_reencryption demo_crypto kr demo_v0" by (simp add: needs_reencryption_def sp)
  obtain ks where ks: "kr_keys (new_keyring ''new'' [''old''] False) = ''new'' # ks" using kr_keys_head by blast
  have "demo_open k n (demo_seal k n p a) a = Some p" for k n p a
    using gcm_demo by (simp add: gcm_def demo_crypto_def)
  then show "decrypt demo_crypto (new_keyring ''new'' [''old''] False) b demo_v0 = Inr ''plain''"
    unfolding decrypt_def decrypt_legacy_def ks
    by (simp add: demo_v0_def open_raw_def demo_crypto_def) (simp add: new_keyring_def)
qed

lemma rotation_compare_and_set_witness:
  "\<exists>d' one. reencrypt_field spec_adapter demo_rotation model_account '''' ''1'' ''accessToken''
       [(''id'', VStr ''1''), (''accessToken'', VStr demo_v0)] (demo_sdb ''v2.x'') = (d', one)
     \<and> rr_skipped (fst one) = 1 \<and> sd_rows d' model_account = sd_rows (demo_sdb ''v2.x'') model_account"
proof -
  let ?rec = "[(''id'', VStr ''1''), (''accessToken'', VStr demo_v0)]" and ?b = "place model_account ''1'' ''accessToken''"
  have "CHR ''.'' \<notin> set demo_v0" "demo_v0 \<noteq> ''''" by (simp_all add: demo_v0_def)
  moreover have "CHR ''.'' \<in> set ''v2.x''" by simp
  ultimately have ne: "demo_v0 \<noteq> ''v2.x''" "demo_v0 \<noteq> ''''" by metis+
  have st: "stored_string ?rec ''accessToken'' = demo_v0" by (simp add: stored_string_def rget_def)
  have "binding_valid ?b" by (simp add: binding_valid_def place_def model_account_def)
  then obtain v where enc: "encrypt demo_crypto (new_keyring ''new'' [''old''] False) (Some ''nn'') ?b ''plain'' = Inr v"
    by (simp add: encrypt_def)
  obtain d' one where run: "reencrypt_field spec_adapter demo_rotation model_account '''' ''1'' ''accessToken'' ?rec (demo_sdb ''v2.x'') = (d', one)"
    by (meson surj_pair)
  have sk: "rr_skipped (fst one) = 1 \<and> rr_rewritten (fst one) = 0"
    using run ne unfolding reencrypt_field_def st demo_rotation_def stored_body_def
    by (simp add: demo_v0_facts enc spec_update_many_def check_where_fields_def check_writable_fields_def unknown_keys_def
        sd_table_def schema_table_def demo_sdb_def rget_def one_scanned_def rr_zero_def split: prod.splits) auto
  then have "d' = demo_sdb ''v2.x''" using rotation_compare_and_set[OF run] by auto
  then show ?thesis using run sk by blast
qed

lemma rotation_pass_ends_witness:
  "\<exists>s' res errs. reencrypt_account_tokens mem_adapter demo_rotation (mem_start core_schema) = Some (s', res, errs)
     \<and> mem_inv (Some core_schema) s'"
proof -
  let ?cols = "[''accessToken'', ''refreshToken'', ''idToken'']"
  have "uniq_in (Some core_schema) model_account = [''id'']" by code_simp
  then have cols: "\<forall>f\<in>set ?cols. f \<notin> set (uniq_in (Some core_schema) model_account) \<and> f \<noteq> ''id''"
    by simp
  have ring: "ro_ring demo_rotation = new_keyring ''new'' [''old''] False" by (simp add: demo_rotation_def)
  from rotation_pass_ends[OF mem_start_inv[OF wf_core_schema] cols ring, where prefix = enc_prefix]
  show ?thesis unfolding reencrypt_account_tokens_def by (elim exE conjE) (intro exI conjI, assumption+)
qed

section \<open>Where Done says too much\<close>

text \<open>
  A pass whose first read fails has counted nothing, so it is done; only the error next to
  the counts tells. And a damaged value that names the current key is not looked at.
\<close>

lemma done_despite_read_error:
  "ad_find_many A model [] (Some id_page) s = Inl e \<Longrightarrow>
   reencrypt_fields A ro model prefix cols s = Some (s, rr_zero, [e]) \<and> rr_done rr_zero"
  by (simp add: reencrypt_fields_def reencrypt_loop.simps id_cursor_def rr_done_def rr_zero_def)

lemma damaged_value_not_counted:
  assumes "CHR ''.'' \<notin> set body" and "b64_decode body = None"
    and v: "v = enc_version_v2 @ ''.'' @ key_id env cur @ ''.'' @ body"
  shows "\<not> needs_reencryption env (new_keyring cur prev rej) v
    \<and> (binding_valid b \<longrightarrow> decrypt env (new_keyring cur prev rej) b v = Inl MalformedCiphertext)"
proof -
  have sp: "str_split (CHR ''.'') v = [enc_version_v2, key_id env cur, body]"
    unfolding v by (rule split_value) (simp_all add: assms(1))
  have "CHR ''.'' \<in> set v" by (simp add: v)
  then show ?thesis using assms(2) by (simp add: decrypt_def sp version_aad_def needs_reencryption_def)
qed

end
