(* ===== verification/Api_Key.thy ===== *)
theory Api_Key
  imports Sessions Rate_Limit Signing Storage_Facts
begin

text \<open>
  plugins/apikey/apikey.go: API keys as credentials. The random bytes, SHA-256, JSON of
  the metadata and the time are arguments. A response is the record it shows; the HTTP
  output around it is not modelled.
\<close>

section \<open>Options\<close>

definition model_apikey :: string where "model_apikey = ''apikey''"

record apikey_options =
  ak_prefix :: string
  ak_key_length :: int
  ak_max_keys :: int
  ak_rate_max :: int
  ak_rate_window :: duration
  ak_no_sessions :: bool
  ak_allow_sensitive :: bool
  ak_usage_interval :: duration

definition new_apikey :: "apikey_options \<Rightarrow> apikey_options" where
  "new_apikey o' =
     o'\<lparr>ak_key_length := (if ak_key_length o' = 0 then 32 else ak_key_length o'),
        ak_usage_interval := (if ak_usage_interval o' = 0 then minutes 1 else ak_usage_interval o'),
        ak_rate_window := (if ak_rate_max o' > 0 \<and> ak_rate_window o' \<le> 0 then minutes 1 else ak_rate_window o')\<rparr>"

text \<open>The limiter of the plugin exists only with a maximum.\<close>

definition limits_keys :: "apikey_options \<Rightarrow> bool" where "limits_keys o' = (ak_rate_max o' > 0)"

definition apikey_table :: table where
  "apikey_table = \<lparr>tb_name = model_apikey, tb_fields =
     [unique (required (col ''id'' FieldString)),
      col ''name'' FieldString, col ''start'' FieldString, col ''prefix'' FieldString,
      indexed (required (col ''key'' FieldText)),
      references_user (indexed (required (col ''userId'' FieldString))),
      defaulted (VBool True) (col ''enabled'' FieldBool),
      col ''expiresAt'' FieldTime, col ''lastRequest'' FieldTime,
      defaulted (VInt 0) (col ''requestCount'' FieldInt),
      col ''remaining'' FieldInt, col ''metadata'' FieldText, col ''scopes'' FieldText,
      required (col ''createdAt'' FieldTime), required (col ''updatedAt'' FieldTime)],
     tb_uniques = []\<rparr>"

section \<open>Which paths a key may drive\<close>

definition denied_by_default :: "string list" where
  "denied_by_default = [''/set-password'', ''/delete-user'', ''/change-password'', ''/change-email'']"

definition denied_prefixes :: "string list" where
  "denied_prefixes = [''/admin/'', ''/api-key/'', ''/two-factor/'']"

definition str_of :: "gval \<Rightarrow> string" where
  "str_of v = (case v of VStr s \<Rightarrow> s | _ \<Rightarrow> '''')"

definition key_permits_path :: "apikey_options \<Rightarrow> grec \<Rightarrow> string \<Rightarrow> bool" where
  "key_permits_path o' rec path =
     (if \<not> ak_allow_sensitive o' \<and>
         (path \<in> set denied_by_default \<or> list_ex (has_prefix path) denied_prefixes) then False
      else (let scopes = str_fields (str_of (rget rec ''scopes''))
            in if scopes = [] then True else list_ex (\<lambda>sc. path = sc \<or> has_prefix path sc) scopes))"

section \<open>The quota\<close>

definition no_quota_left :: gerror where "no_quota_left = OtherError ''no remaining requests''"
definition malformed_quota :: gerror where "malformed_quota = OtherError ''malformed remaining-requests quota''"
definition quota_contended :: gerror where "quota_contended = OtherError ''quota update contended''"

text \<open>The compare-and-set: how many rows still had this count, each now with one less.\<close>

definition take_unit :: "'s adapter \<Rightarrow> string \<Rightarrow> int \<Rightarrow> ('s, nat) act" where
  "take_unit A i n =
     ad_update_many A model_apikey [W ''id'' (VStr i), W ''remaining'' (VInt64 n)] [(''remaining'', VInt64 (n - 1))]"

definition reread_key :: "'s adapter \<Rightarrow> string \<Rightarrow> ('s, grec) act" where
  "reread_key A i = query (ad_find_one A model_apikey [W ''id'' (VStr i)])"

fun spend_loop :: "'s adapter \<Rightarrow> string \<Rightarrow> grec \<Rightarrow> nat \<Rightarrow> int \<Rightarrow> ('s, grec) act" where
  "spend_loop A i rec 0 n = fail quota_contended"
| "spend_loop A i rec (Suc attempts) n =
     (if n \<le> 0 then fail no_quota_left
      else bind (take_unit A i n) (\<lambda>got.
        if got = 1 then ret (gput rec ''remaining'' (VInt64 (n - 1)))
        else bind (reread_key A i) (\<lambda>fresh.
          case rget fresh ''remaining'' of
            VNil \<Rightarrow> ret rec
          | VInt64 n' \<Rightarrow> spend_loop A i rec attempts n'
          | _ \<Rightarrow> fail malformed_quota)))"

definition spend_quota :: "'s adapter \<Rightarrow> grec \<Rightarrow> ('s, grec) act" where
  "spend_quota A rec =
     (case rget rec ''remaining'' of
        VNil \<Rightarrow> ret rec
      | VInt64 n \<Rightarrow> spend_loop A (str_of (rget rec ''id'')) rec 5 n
      | _ \<Rightarrow> fail malformed_quota)"

section \<open>Authentication\<close>

text \<open>A session that only names the user, for the guards.\<close>

definition blank_session :: session where
  "blank_session = \<lparr>s_id = '''', s_user = '''', s_token = '''', s_expires = zero_time, s_ip = '''', s_agent = '''',
     s_created = zero_time, s_updated = zero_time, s_extra = []\<rparr>"

definition verify_key ::
  "'s adapter \<Rightarrow> (string \<Rightarrow> string) \<Rightarrow> plugin list \<Rightarrow> gtime \<Rightarrow> string \<Rightarrow> ('s, grec \<times> user) act" where
  "verify_key A sha ps now key =
     bind (query (ad_find_one A model_apikey [W ''key'' (VStr (hash_token sha key))])) (\<lambda>rec.
       if rget rec ''enabled'' \<noteq> VBool True then fail (OtherError ''disabled'')
       else if (case rget rec ''expiresAt'' of VTime t \<Rightarrow> \<not> is_zero_time t \<and> t < now | _ \<Rightarrow> False)
       then fail (OtherError ''expired'')
       else bind (spend_quota A rec) (\<lambda>rec'.
         bind (find_user_by_id A (str_of (rget rec' ''userId''))) (\<lambda>u.
           case run_session_guards ps
                  \<lparr>sd_session = blank_session\<lparr>s_user := u_id u\<rparr>, sd_user = u, sd_from_cache = False\<rparr> of
             Some e \<Rightarrow> fail e
           | None \<Rightarrow> ret (rec', u))))"

definition record_usage :: "'s adapter \<Rightarrow> apikey_options \<Rightarrow> string \<Rightarrow> grec \<Rightarrow> gtime \<Rightarrow> ('s, unit) act" where
  "record_usage A o' i rec now =
     (if ak_usage_interval o' < 0 then ret ()
      else if (case rget rec ''lastRequest'' of
                 VTime t \<Rightarrow> \<not> is_zero_time t \<and> time_sub now t < ak_usage_interval o' | _ \<Rightarrow> False) then ret ()
      else (let count = (case rget rec ''requestCount'' of VInt64 n \<Rightarrow> n | _ \<Rightarrow> 0)
            in attempt (ad_update_many A model_apikey [W ''id'' (VStr i)]
                  [(''lastRequest'', VTime now), (''requestCount'', VInt64 (wrap_int64 (count + 1))), (''updatedAt'', VTime now)])
                (\<lambda>_. ret ())))"

text \<open>The session a key stands for: it expires in a minute and was created at the zero time.\<close>

definition key_session :: "string \<Rightarrow> user \<Rightarrow> gtime \<Rightarrow> session_data" where
  "key_session i u now =
     \<lparr>sd_session = blank_session\<lparr>s_id := ''apikey:'' @ i, s_user := u_id u, s_expires := time_add now (minutes 1), s_updated := now\<rparr>,
      sd_user = u, sd_from_cache = False\<rparr>"

text \<open>
  \<open>BeforeRequest\<close>. \<open>budget\<close> is the answer of the key's limiter. \<open>Inr None\<close> leaves the
  request as it was.
\<close>

definition before_request ::
  "'s adapter \<Rightarrow> (string \<Rightarrow> string) \<Rightarrow> plugin list \<Rightarrow> apikey_options \<Rightarrow> (string \<Rightarrow> rule \<Rightarrow> bool \<times> gerror option)
   \<Rightarrow> gtime \<Rightarrow> string \<Rightarrow> string \<Rightarrow> ('s, session_data option) act" where
  "before_request A sha ps o' budget now key path =
     (if ak_no_sessions o' \<or> key = '''' then ret None
      else attempt (verify_key A sha ps now key) (\<lambda>r. case r of
        Inl _ \<Rightarrow> ret None
      | Inr (rec, u) \<Rightarrow>
          (let i = str_of (rget rec ''id'')
           in if \<not> key_permits_path o' rec path then ret None
              else if limits_keys o' \<and>
                      budget (''apikey:'' @ i) \<lparr>rl_window = ak_rate_window o', rl_max = ak_rate_max o'\<rparr> = (False, None)
              then fail (ApiError 429 ''RATE_LIMITED'')
              else bind (record_usage A o' i rec now) (\<lambda>_. ret (Some (key_session i u now))))))"

section \<open>Managing keys\<close>

record create_body =
  cb_name :: string
  cb_expires_in :: "int option"
  cb_prefix :: string
  cb_remaining :: "int option"
  cb_metadata :: "string option"
  cb_scopes :: "string list"

definition first_n :: "string \<Rightarrow> nat \<Rightarrow> string" where
  "first_n s n = (if length s \<le> n then s else take n s)"

definition public_key_view :: "grec \<Rightarrow> grec" where
  "public_key_view rec = gdelete rec ''key''"

definition opt_field :: "string \<Rightarrow> gval option \<Rightarrow> grec \<Rightarrow> grec" where
  "opt_field k v r = (case v of None \<Rightarrow> r | Some x \<Rightarrow> gput r k x)"

text \<open>The new record; \<open>ExpiresIn\<close> is in seconds and multiplied in 64 bits.\<close>

definition new_key_record ::
  "(string \<Rightarrow> string) \<Rightarrow> apikey_options \<Rightarrow> create_body \<Rightarrow> user \<Rightarrow> gtime \<Rightarrow> string \<Rightarrow> string \<Rightarrow> string \<Rightarrow> grec" where
  "new_key_record sha o' b u now gen_id prefix plain =
     (opt_field ''scopes'' (if cb_scopes b \<noteq> [] then Some (VStr (str_join '' '' (cb_scopes b))) else None)
     (opt_field ''metadata'' (map_option VStr (cb_metadata b))
     (opt_field ''remaining'' (map_option VInt64 (cb_remaining b))
     (opt_field ''expiresAt''
        (case cb_expires_in b of
           Some n \<Rightarrow> if n > 0 then Some (VTime (time_add now (wrap_int64 (n * nsec_per_sec)))) else None
         | None \<Rightarrow> None)
       [(''id'', VStr gen_id), (''name'', VStr (cb_name b)), (''start'', VStr (first_n plain 6)),
        (''prefix'', VStr prefix), (''key'', VStr (hash_token sha plain)), (''userId'', VStr (u_id u)),
        (''enabled'', VBool True), (''requestCount'', VInt64 0), (''createdAt'', VTime now), (''updatedAt'', VTime now)]))))"

definition handle_create ::
  "'s adapter \<Rightarrow> (string \<Rightarrow> string) \<Rightarrow> apikey_options \<Rightarrow> session_data result \<Rightarrow> create_body \<Rightarrow> gtime \<Rightarrow> string \<Rightarrow> (nat \<Rightarrow> string) \<Rightarrow> ('s, grec) act" where
  "handle_create A sha o' sess b now gen_id rand =
     (case sess of
        Inl e \<Rightarrow> fail e
      | Inr sd \<Rightarrow>
          bind (if ak_max_keys o' > 0
                then bind (query (ad_count A model_apikey [W ''userId'' (VStr (u_id (sd_user sd)))]))
                       (\<lambda>n. if int n \<ge> ak_max_keys o' then fail (ApiError 400 ''KEY_LIMIT_REACHED'') else ret ())
                else ret ()) (\<lambda>_.
          (let prefix = (if cb_prefix b = '''' then ak_prefix o' else cb_prefix b);
               plain = prefix @ generate_token (ak_key_length o') rand;
               rec = new_key_record sha o' b (sd_user sd) now gen_id prefix plain
           in bind (ad_create A model_apikey rec) (\<lambda>_. ret (gput (public_key_view rec) ''key'' (VStr plain))))))"

definition user_key :: "'s adapter \<Rightarrow> session_data result \<Rightarrow> string \<Rightarrow> ('s, grec) act" where
  "user_key A sess i =
     (case sess of
        Inl e \<Rightarrow> fail e
      | Inr sd \<Rightarrow>
          attempt (query (ad_find_one A model_apikey [W ''id'' (VStr i), W ''userId'' (VStr (u_id (sd_user sd)))]))
            (\<lambda>r. case r of Inl _ \<Rightarrow> fail (ApiError 404 ''KEY_NOT_FOUND'') | Inr rec \<Rightarrow> ret rec))"

definition handle_get :: "'s adapter \<Rightarrow> session_data result \<Rightarrow> string \<Rightarrow> ('s, grec) act" where
  "handle_get A sess i = bind (user_key A sess i) (\<lambda>rec. ret (public_key_view rec))"

definition handle_list :: "'s adapter \<Rightarrow> session_data result \<Rightarrow> ('s, grec list) act" where
  "handle_list A sess =
     (case sess of
        Inl e \<Rightarrow> fail e
      | Inr sd \<Rightarrow>
          bind (query (ad_find_many A model_apikey [W ''userId'' (VStr (u_id (sd_user sd)))] (Some (sort_desc ''createdAt''))))
            (\<lambda>recs. ret (map public_key_view recs)))"

record update_body =
  ub_key_id :: string
  ub_name :: "string option"
  ub_enabled :: "bool option"
  ub_remaining :: "int option"

definition handle_update :: "'s adapter \<Rightarrow> session_data result \<Rightarrow> update_body \<Rightarrow> gtime \<Rightarrow> ('s, grec) act" where
  "handle_update A sess b now =
     bind (user_key A sess (ub_key_id b)) (\<lambda>rec.
       (let u = opt_field ''remaining'' (map_option VInt64 (ub_remaining b))
                (opt_field ''enabled'' (map_option VBool (ub_enabled b))
                (opt_field ''name'' (map_option VStr (ub_name b)) [(''updatedAt'', VTime now)]))
        in bind (ad_update A model_apikey [W ''id'' (VStr (str_of (rget rec ''id'')))] u)
             (\<lambda>updated. ret (public_key_view updated))))"

definition handle_delete :: "'s adapter \<Rightarrow> session_data result \<Rightarrow> string \<Rightarrow> ('s, unit) act" where
  "handle_delete A sess i =
     bind (user_key A sess i) (\<lambda>rec. ad_delete A model_apikey [W ''id'' (VStr (str_of (rget rec ''id'')))])"

text \<open>\<open>None\<close> is the answer that the key is not valid.\<close>

definition handle_verify ::
  "'s adapter \<Rightarrow> (string \<Rightarrow> string) \<Rightarrow> plugin list \<Rightarrow> gtime \<Rightarrow> string \<Rightarrow> ('s, grec option) act" where
  "handle_verify A sha ps now key =
     attempt (verify_key A sha ps now key) (\<lambda>r. case r of
       Inl _ \<Rightarrow> ret None
     | Inr (rec, _) \<Rightarrow> ret (Some (gdelete (public_key_view rec) ''metadata'')))"

section \<open>Racing for units\<close>

text \<open>
  Requests with the same key as processes: each step is one storage call of \<open>spend_loop\<close>,
  or a step \<open>E\<close> of the rest of the system.
\<close>

datatype qpc = QIdle | QTrying nat int | QReread nat | QSpent | QFree | QStopped

definition after_read :: "nat \<Rightarrow> grec result \<Rightarrow> qpc" where
  "after_read k r =
     (case r of
        Inl _ \<Rightarrow> QStopped
      | Inr rec \<Rightarrow> (case rget rec ''remaining'' of VNil \<Rightarrow> QFree | VInt64 n \<Rightarrow> QTrying k n | _ \<Rightarrow> QStopped))"

inductive quota_step ::
  "'s adapter \<Rightarrow> string \<Rightarrow> ('s \<Rightarrow> 's \<Rightarrow> bool) \<Rightarrow> 's \<times> (nat \<Rightarrow> qpc) \<Rightarrow> 's \<times> (nat \<Rightarrow> qpc) \<Rightarrow> bool"
  for A i E where
  arrive: "c p = QIdle \<Longrightarrow> ad_find_one A model_apikey [W ''key'' (VStr h)] s = Inr rec \<Longrightarrow> rget rec ''id'' = VStr i \<Longrightarrow>
    quota_step A i E (s, c) (s, c(p := after_read 5 (Inr rec)))"
| take: "c p = QTrying (Suc k) n \<Longrightarrow> n > 0 \<Longrightarrow> take_unit A i n s = (s', r) \<Longrightarrow>
    quota_step A i E (s, c) (s', c(p := (case r of Inl _ \<Rightarrow> QStopped | Inr got \<Rightarrow> if got = 1 then QSpent else QReread k)))"
| again: "c p = QReread k \<Longrightarrow> reread_key A i s = (s', r) \<Longrightarrow> quota_step A i E (s, c) (s', c(p := after_read k r))"
| stop: "c p = QTrying k n \<Longrightarrow> k = 0 \<or> n \<le> 0 \<Longrightarrow> quota_step A i E (s, c) (s, c(p := QStopped))"
| other: "E s s' \<Longrightarrow> quota_step A i E (s, c) (s', c)"

inductive_cases quota_stepE: "quota_step A i E (s, c) (s', c')"

lemma quota_step_cases:
  assumes "quota_step A i E (s, c) (s', c')"
  obtains (arrive) p h rec where "c p = QIdle" "ad_find_one A model_apikey [W ''key'' (VStr h)] s = Inr rec"
      "rget rec ''id'' = VStr i" "s' = s" "c' = c(p := after_read 5 (Inr rec))"
    | (take) p k n r where "c p = QTrying (Suc k) n" "n > 0" "take_unit A i n s = (s', r)"
      "c' = c(p := (case r of Inl _ \<Rightarrow> QStopped | Inr got \<Rightarrow> if got = 1 then QSpent else QReread k))"
    | (again) p k r where "c p = QReread k" "reread_key A i s = (s', r)" "c' = c(p := after_read k r)"
    | (stop) p k n where "c p = QTrying k n" "s' = s" "c' = c(p := QStopped)"
    | (other) "E s s'" "c' = c"
  using assms by (elim quota_stepE) blast+

text \<open>One call of \<open>spend_loop\<close> on its own is a run of such steps.\<close>

lemma spend_loop_steps:
  "spend_loop A i rec k n s = (s', r) \<Longrightarrow>
   \<exists>pc. (quota_step A i E)\<^sup>*\<^sup>* (s, c(p := QTrying k n)) (s', c(p := pc)) \<and>
     pc = (case r of Inl _ \<Rightarrow> QStopped | Inr rec' \<Rightarrow> if pc = QFree then QFree else QSpent)"
proof (induction k arbitrary: n s)
  case 0
  have "quota_step A i E (s, c(p := QTrying 0 n)) (s, (c(p := QTrying 0 n))(p := QStopped))" by (rule quota_step.stop) auto
  then have "(quota_step A i E)\<^sup>*\<^sup>* (s, c(p := QTrying 0 n)) (s, c(p := QStopped))" unfolding fun_upd_upd by (rule r_into_rtranclp)
  moreover have "s' = s" "r = Inl quota_contended" using 0 by simp_all
  ultimately show ?case by (intro exI[of _ QStopped] conjI) (simp_all only: sum.case)
next
  case (Suc k)
  let ?c = "c(p := QTrying (Suc k) n)"
  show ?case
  proof (cases "n \<le> 0")
    case True
    have "quota_step A i E (s, ?c) (s, ?c(p := QStopped))" using True by (intro quota_step.stop) auto
    then have "(quota_step A i E)\<^sup>*\<^sup>* (s, ?c) (s, c(p := QStopped))" unfolding fun_upd_upd by (rule r_into_rtranclp)
    moreover have "s' = s" "r = Inl no_quota_left" using Suc.prems True by simp_all
    ultimately show ?thesis by (intro exI[of _ QStopped] conjI) (simp_all only: sum.case)
  next
    case False
    obtain s1 r1 where t: "take_unit A i n s = (s1, r1)" by force
    have st: "quota_step A i E (s, ?c) (s1, ?c(p := (case r1 of Inl _ \<Rightarrow> QStopped | Inr got \<Rightarrow> if got = 1 then QSpent else QReread k)))"
      using False t by (intro quota_step.take) auto
    show ?thesis
    proof (cases "\<exists>got. r1 = Inr got \<and> got \<noteq> 1")
      case True
      then obtain got where got: "r1 = Inr got" "got \<noteq> 1" by blast
      obtain s2 r2 where g: "reread_key A i s1 = (s2, r2)" by force
      have "quota_step A i E (s1, ?c(p := QReread k)) (s2, (?c(p := QReread k))(p := after_read k r2))"
        using g by (intro quota_step.again) auto
      with st got have two: "(quota_step A i E)\<^sup>*\<^sup>* (s, ?c) (s2, c(p := after_read k r2))"
        by (auto intro: converse_rtranclp_into_rtranclp)
      have run: "(case r2 of Inl e \<Rightarrow> (s2, Inl e) | Inr fresh \<Rightarrow>
          (case rget fresh ''remaining'' of VNil \<Rightarrow> ret rec | VInt64 n' \<Rightarrow> spend_loop A i rec k n' | _ \<Rightarrow> fail malformed_quota) s2) = (s', r)"
        using Suc.prems False t got g by (cases r2) (auto simp: bind_def)
      show ?thesis
      proof (cases "\<exists>fresh n'. r2 = Inr fresh \<and> rget fresh ''remaining'' = VInt64 n'")
        case True
        then obtain n' where l: "spend_loop A i rec k n' s2 = (s', r)" "after_read k r2 = QTrying k n'"
          using run by (auto simp: after_read_def)
        from Suc.IH[OF l(1)] show ?thesis using two l(2) by (metis (no_types, lifting) rtranclp_trans)
      next
        case False
        then have eq: "s2 = s'" "after_read k r2 = (case r of Inl _ \<Rightarrow> QStopped | Inr _ \<Rightarrow> QFree)"
          using run by (auto simp: after_read_def split: sum.splits gval.splits)
        show ?thesis
        proof (intro exI conjI)
          show "(quota_step A i E)\<^sup>*\<^sup>* (s, ?c) (s', c(p := after_read k r2))" using two unfolding eq(1) .
        qed (use eq(2) in \<open>cases r; simp\<close>)
      qed
    next
      case False
      then have eq: "s1 = s'" "(case r1 of Inl _ \<Rightarrow> QStopped | Inr got \<Rightarrow> if got = 1 then QSpent else QReread k) =
          (case r of Inl _ \<Rightarrow> QStopped | Inr _ \<Rightarrow> QSpent)"
        using Suc.prems \<open>\<not> n \<le> 0\<close> t by (cases r1; auto simp: bind_def)+
      show ?thesis
      proof (intro exI conjI)
        show "(quota_step A i E)\<^sup>*\<^sup>* (s, ?c) (s', c(p := case r of Inl _ \<Rightarrow> QStopped | Inr _ \<Rightarrow> QSpent))"
          using st unfolding eq fun_upd_upd by (rule r_into_rtranclp)
      qed (cases r; simp)
    qed
  qed
qed

text \<open>The count that a key has left, as a list of the values in the rows with its id.\<close>

definition quota_of :: "sdb \<Rightarrow> string \<Rightarrow> gval list" where
  "quota_of d i = map (\<lambda>r. rget r ''remaining'') (filter (\<lambda>r. rget r ''id'' = VStr i) (sd_rows d model_apikey))"

definition spenders :: "(nat \<Rightarrow> qpc) \<Rightarrow> nat set" where "spenders c = {p. c p = QSpent}"

text \<open>The requests that were let through, whether they took a unit or were told that none are counted.\<close>

definition served :: "(nat \<Rightarrow> qpc) \<Rightarrow> nat set" where "served c = {p. c p = QSpent \<or> c p = QFree}"

definition quota_inv :: "int \<Rightarrow> string \<Rightarrow> sdb \<Rightarrow> (nat \<Rightarrow> qpc) \<Rightarrow> bool" where
  "quota_inv N i d c \<longleftrightarrow> finite (spenders c) \<and> int (card (spenders c)) \<le> N \<and>
     quota_of d i = [VInt64 (N - int (card (spenders c)))] \<and>
     (\<forall>p k n. c p = QTrying k n \<longrightarrow> n \<le> N) \<and> (\<forall>p. c p \<noteq> QFree)"

lemma spenders_upd:
  "spenders (c(p := x)) = (if x = QSpent then insert p (spenders c) else spenders c - {p})"
  by (auto simp: spenders_def)

lemma spec_take_unit:
  assumes q: "quota_of d i = [VInt64 m]" and "0 \<le> m" "m < 2 ^ 53" "0 < n" "n < 2 ^ 53"
    and run: "take_unit spec_adapter i n d = (d', r)"
  shows "(\<exists>e. r = Inl e \<and> quota_of d' i = quota_of d i) \<or>
     (if m = n then r = Inr 1 \<and> quota_of d' i = [VInt64 (n - 1)] else r = Inr 0 \<and> quota_of d' i = quota_of d i)"
proof -
  let ?ws = "[W ''id'' (VStr i), W ''remaining'' (VInt64 n)]" and ?u = "[(''remaining'', VInt64 (n - 1))]"
  let ?rows = "sd_rows d model_apikey"
  obtain row where f: "filter (\<lambda>r. rget r ''id'' = VStr i) ?rows = [row]" and m: "rget row ''remaining'' = VInt64 m"
    using q by (auto simp: quota_of_def)
  have eq: "val_equal (VInt64 m) (VInt64 n) \<longleftrightarrow> m = n"
    using assms(2-5) by (intro val_equal_int64_exact) auto
  have only: "matches r ?ws \<longleftrightarrow> m = n" if "r \<in> set ?rows" "rget r ''id'' = VStr i" for r
  proof -
    have "r \<in> set (filter (\<lambda>r. rget r ''id'' = VStr i) ?rows)" using that by simp
    then have "r = row" by (simp add: f)
    then show ?thesis using that m eq by simp
  qed
  have not_i: "\<not> matches r ?ws" if "rget r ''id'' \<noteq> VStr i" for r using that by simp
  have cnt: "filter (\<lambda>r. matches r ?ws) ?rows = (if m = n then [row] else [])"
  proof -
    have "filter (\<lambda>r. matches r ?ws) ?rows = filter (\<lambda>r. m = n) (filter (\<lambda>r. rget r ''id'' = VStr i) ?rows)"
      unfolding filter_filter by (rule filter_cong) (use only not_i in auto)
    then show ?thesis by (simp add: f)
  qed
  have idk: "rget (gmerge r ?u) ''id'' = rget r ''id''" for r by (simp add: rget_def map_add_def)
  have quota: "quota_of (set_rows model_apikey (map (\<lambda>r. if matches r ?ws then gmerge r ?u else r) ?rows) d) i =
      (if m = n then [VInt64 (n - 1)] else quota_of d i)"
  proof -
    have "filter (\<lambda>r. rget r ''id'' = VStr i) (map (\<lambda>r. if matches r ?ws then gmerge r ?u else r) ?rows) =
        map (\<lambda>r. if matches r ?ws then gmerge r ?u else r) (filter (\<lambda>r. rget r ''id'' = VStr i) ?rows)"
    proof -
      have "(\<lambda>r. rget (if matches r ?ws then gmerge r ?u else r) ''id'' = VStr i) = (\<lambda>r. rget r ''id'' = VStr i)"
        by (auto simp: fun_eq_iff idk)
      then show ?thesis by (simp only: filter_map o_def)
    qed
    moreover have "matches row ?ws \<longleftrightarrow> m = n"
    proof -
      have "row \<in> set (filter (\<lambda>r. rget r ''id'' = VStr i) ?rows)" by (simp add: f)
      then show ?thesis using only[of row] by simp
    qed
    ultimately show ?thesis using f m by (simp add: quota_of_def rget_def)
  qed
  have "spec_update_many model_apikey ?ws ?u d = (d', r)" using run by (simp add: take_unit_def)
  then show ?thesis
    by (cases rule: spec_update_many_cases) (use cnt quota in \<open>simp_all del: matches_pair\<close>)
qed

lemma env_keeps_quota: "quota_of d' i = quota_of d i \<Longrightarrow> quota_inv N i d c \<Longrightarrow> quota_inv N i d' c"
  by (simp add: quota_inv_def)

context storage_contract
begin

lemma take_unit_sim:
  "''remaining'' \<notin> set (uniq_in S model_apikey) \<Longrightarrow> sim \<alpha> I (take_unit A i n) (take_unit spec_adapter i n)"
  unfolding take_unit_def spec_adapter_sel by (rule update_many_sim) (auto simp: ghas_def)

lemma found_quota:
  assumes "I s" and q: "quota_of (\<alpha> s) i = [VInt64 m]" and "rget rec ''id'' = VStr i"
    and "ad_find_one A model_apikey [W f (VStr h)] s = Inr rec"
  shows "rget rec ''remaining'' = VInt64 m"
proof -
  have "spec_find_one model_apikey [W f (VStr h)] (\<alpha> s) = Inr rec" using assms find_one_sim by simp
  then have "rec \<in> set (sd_rows (\<alpha> s) model_apikey)"
    by (auto simp: spec_find_one_def find_Some_iff split: option.splits)
  then have "rget rec ''remaining'' \<in> set (quota_of (\<alpha> s) i)" using assms(3) by (simp add: quota_of_def)
  then show ?thesis by (simp add: q)
qed

lemma quota_step_inv:
  assumes rem: "''remaining'' \<notin> set (uniq_in S model_apikey)" and N: "N < 2 ^ 53"
    and env: "\<And>t t'. E t t' \<Longrightarrow> I t \<Longrightarrow> I t' \<and> quota_of (\<alpha> t') i = quota_of (\<alpha> t) i"
    and step: "quota_step A i E (s, c) (s', c')" and "I s" and inv: "quota_inv N i (\<alpha> s) c"
  shows "I s' \<and> quota_inv N i (\<alpha> s') c'"
proof -
  let ?m = "N - int (card (spenders c))"
  have fin: "finite (spenders c)" and le: "int (card (spenders c)) \<le> N" and q: "quota_of (\<alpha> s) i = [VInt64 ?m]"
    and tr: "\<And>p k n. c p = QTrying k n \<Longrightarrow> n \<le> N" and free: "\<And>p. c p \<noteq> QFree" using inv by (auto simp: quota_inv_def)
  have keep: "quota_inv N i d (c(p := x))"
    if "quota_of d i = quota_of (\<alpha> s) i" "c p \<noteq> QSpent" "x \<noteq> QSpent" "x \<noteq> QFree" "\<And>k n. x = QTrying k n \<Longrightarrow> n \<le> N" for d p x
  proof -
    have "spenders (c(p := x)) = spenders c" using that by (auto simp: spenders_def)
    then show ?thesis using that fin le q tr free by (auto simp: quota_inv_def)
  qed
  show ?thesis
    using step
  proof (cases rule: quota_step_cases)
    case (arrive p h rec)
    then have "after_read 5 (Inr rec) = QTrying 5 ?m" using found_quota[OF \<open>I s\<close> q] by (simp add: after_read_def)
    then show ?thesis using arrive keep[of "\<alpha> s" p "QTrying 5 ?m"] \<open>I s\<close> by simp
  next
    case (take p k n r)
    note taken = take
    have "n < 2 ^ 53" "0 < n" using take tr N by fastforce+
    moreover have "0 \<le> ?m" "?m < 2 ^ 53" using le N by auto
    moreover have sim: "I s'" "take_unit spec_adapter i n (\<alpha> s) = (\<alpha> s', r)"
      using simD[OF take_unit_sim[OF rem] \<open>I s\<close>] take by auto
    ultimately consider "\<exists>e. r = Inl e \<and> quota_of (\<alpha> s') i = quota_of (\<alpha> s) i"
      | "?m = n" "r = Inr 1" "quota_of (\<alpha> s') i = [VInt64 (n - 1)]"
      | "?m \<noteq> n" "r = Inr 0" "quota_of (\<alpha> s') i = quota_of (\<alpha> s) i"
      using spec_take_unit[OF q, of n "\<alpha> s'" r] by (auto split: if_splits)
    then show ?thesis
    proof cases
      case 1
      then show ?thesis using taken sim keep[of "\<alpha> s'" p QStopped] by auto
    next
      case 2
      have new: "spenders (c(p := QSpent)) = insert p (spenders c)" "p \<notin> spenders c"
        using taken by (auto simp: spenders_def)
      then have "card (spenders (c(p := QSpent))) = Suc (card (spenders c))" using fin by simp
      then have "quota_inv N i (\<alpha> s') (c(p := QSpent))"
        using 2 fin tr free new \<open>0 < n\<close> by (auto simp: quota_inv_def)
      then show ?thesis using taken sim 2 by simp
    next
      case 3
      then show ?thesis using taken sim keep[of "\<alpha> s'" p "QReread k"] by auto
    qed
  next
    case (again p k r)
    from again have s': "s' = s" and r: "r = ad_find_one A model_apikey [W ''id'' (VStr i)] s" by (auto simp: reread_key_def)
    have "after_read k r = QStopped \<or> after_read k r = QTrying k ?m"
    proof (cases r)
      case (Inr rec)
      then have "spec_find_one model_apikey [W ''id'' (VStr i)] (\<alpha> s) = Inr rec" using r find_one_sim \<open>I s\<close> by simp
      then have "rget rec ''id'' = VStr i" by (auto simp: spec_find_one_def find_Some_iff split: option.splits)
      then show ?thesis using found_quota[OF \<open>I s\<close> q, of rec "''id''" i] Inr r by (simp add: after_read_def)
    qed (simp add: after_read_def)
    then show ?thesis using again keep[of "\<alpha> s" p "after_read k r"] \<open>I s\<close> s' by auto
  next
    case (stop p k n)
    then show ?thesis using stop keep[of "\<alpha> s" p QStopped] \<open>I s\<close> by auto
  next
    case other
    then show ?thesis using other env \<open>I s\<close> inv env_keeps_quota by metis
  qed
qed

lemma quota_steps_inv:
  assumes rem: "''remaining'' \<notin> set (uniq_in S model_apikey)" and N: "N < 2 ^ 53"
    and env: "\<And>t t'. E t t' \<Longrightarrow> I t \<Longrightarrow> I t' \<and> quota_of (\<alpha> t') i = quota_of (\<alpha> t) i"
    and "(quota_step A i E)\<^sup>*\<^sup>* (s, c) (s', c')" and "I s" and "quota_inv N i (\<alpha> s) c"
  shows "I s' \<and> quota_inv N i (\<alpha> s') c'"
  using assms(4)
proof (induction "(s', c')" arbitrary: s' c' rule: rtranclp_induct)
  case base
  then show ?case using assms by simp
next
  case (step y s' c')
  obtain t b where y: "y = (t, b)" by force
  from step.hyps(3)[OF y] have "I t \<and> quota_inv N i (\<alpha> t) b" .
  then show ?case using quota_step_inv[OF rem N env] step.hyps(2) y by blast
qed

end

text \<open>The check of one request on its own is a run of its process, which is stopped exactly if the check fails.\<close>

lemma spend_quota_steps:
  assumes "spend_quota A rec s = (s', r)" and "rget rec ''id'' = VStr i"
  shows "\<exists>pc. (quota_step A i E)\<^sup>*\<^sup>* (s, c(p := after_read 5 (Inr rec))) (s', c(p := pc))
    \<and> (if is_ok r then pc \<in> {QSpent, QFree} else pc = QStopped)"
proof (cases "\<exists>n. rget rec ''remaining'' = VInt64 n")
  case True
  then obtain n where n: "rget rec ''remaining'' = VInt64 n" ..
  then have "spend_loop A i rec 5 n s = (s', r)" using assms by (simp add: spend_quota_def str_of_def)
  from spend_loop_steps[OF this, of E c p] obtain pc where
    "(quota_step A i E)\<^sup>*\<^sup>* (s, c(p := QTrying 5 n)) (s', c(p := pc))"
    "pc = (case r of Inl _ \<Rightarrow> QStopped | Inr rec' \<Rightarrow> if pc = QFree then QFree else QSpent)" by blast
  moreover have "after_read 5 (Inr rec) = QTrying 5 n" using n by (simp add: after_read_def)
  ultimately show ?thesis by (cases r) (auto split: if_splits)
next
  case False
  then have "s' = s" "after_read 5 (Inr rec) = (if is_ok r then QFree else QStopped)"
    using assms(1) by (auto simp: spend_quota_def after_read_def split: gval.splits)
  then show ?thesis by (intro exI[of _ "if is_ok r then QFree else QStopped"]) auto
qed

text \<open>
  C19: a key is never overspent. However the requests that carry one key interleave with each other and
  with the rest of the system, at most as many of them are let through as the key had units, counting those
  that are let through without taking one, and what is left in its row is exactly the
  units that were not spent. The steps are those of \<open>spendQuota\<close>: over any storage, whatever it answers, a
  call of it makes the steps of one such request, which is let through if the call succeeds and is stopped
  if it fails.
\<close>

theorem quota_never_overspent:
  assumes "mem_inv S s" and "''remaining'' \<notin> set (uniq_in S model_apikey)"
    and "quota_of (mem_abs s) i = [VInt64 N]" and "0 \<le> N" and "N < 2 ^ 53"
    and "\<And>t t'. E t t' \<Longrightarrow> mem_inv S t \<Longrightarrow> mem_inv S t' \<and> quota_of (mem_abs t') i = quota_of (mem_abs t) i"
    and "(quota_step mem_adapter i E)\<^sup>*\<^sup>* (s, \<lambda>_. QIdle) (s', c)"
  shows "finite (served c) \<and> int (card (served c)) \<le> N
    \<and> quota_of (mem_abs s') i = [VInt64 (N - int (card (served c)))]
    \<and> (spend_quota A rec t = (t', r) \<and> rget rec ''id'' = VStr i \<longrightarrow>
        (\<exists>pc. (quota_step A i (\<lambda>_ _. False))\<^sup>*\<^sup>* (t, (\<lambda>_. QIdle)(p := after_read 5 (Inr rec))) (t', (\<lambda>_. QIdle)(p := pc))
           \<and> (if is_ok r then pc \<in> {QSpent, QFree} else pc = QStopped)))"
proof -
  have "quota_inv N i (mem_abs s) (\<lambda>_. QIdle)" using assms(3,4) by (simp add: quota_inv_def spenders_def)
  from mem.quota_steps_inv[OF assms(2,5,6,7,1) this] have inv: "quota_inv N i (mem_abs s') c" by blast
  then have "served c = spenders c" by (auto simp: quota_inv_def served_def spenders_def)
  moreover have "spend_quota A rec t = (t', r) \<and> rget rec ''id'' = VStr i \<longrightarrow>
        (\<exists>pc. (quota_step A i (\<lambda>_ _. False))\<^sup>*\<^sup>* (t, (\<lambda>_. QIdle)(p := after_read 5 (Inr rec))) (t', (\<lambda>_. QIdle)(p := pc))
           \<and> (if is_ok r then pc \<in> {QSpent, QFree} else pc = QStopped))"
    using spend_quota_steps[of A rec t t' r i "\<lambda>_ _. False" "\<lambda>_. QIdle" p] by blast
  ultimately show ?thesis using inv by (simp add: quota_inv_def)
qed

section \<open>What a key gives\<close>

lemma bind_InrD: "bind f k s = (s', Inr v) \<Longrightarrow> \<exists>s1 x. f s = (s1, Inr x) \<and> k x s1 = (s', Inr v)"
  by (auto simp: bind_def split: prod.splits sum.splits)

lemma spend_loop_fields:
  "spend_loop A i rec k n s = (s', Inr rec') \<Longrightarrow> n > 0 \<and> (\<forall>f. f \<noteq> ''remaining'' \<longrightarrow> rget rec' f = rget rec f)"
proof (induction k arbitrary: n s)
  case (Suc k)
  then have n: "n > 0" by (auto split: if_splits)
  let ?next = "\<lambda>got. if got = 1 then ret (gput rec ''remaining'' (VInt64 (n - 1)))
        else bind (reread_key A i) (\<lambda>fresh.
          case rget fresh ''remaining'' of
            VNil \<Rightarrow> ret rec
          | VInt64 n' \<Rightarrow> spend_loop A i rec k n'
          | _ \<Rightarrow> fail malformed_quota)"
  have "bind (take_unit A i n) ?next s = (s', Inr rec')" using Suc.prems n by simp
  from bind_InrD[OF this] obtain s1 got where t: "take_unit A i n s = (s1, Inr got)"
    and rest: "?next got s1 = (s', Inr rec')" by blast
  show ?case
  proof (cases "got = 1")
    case True
    then show ?thesis using rest n by (auto simp: rget_def)
  next
    case False
    then have "bind (reread_key A i) (\<lambda>fresh.
          case rget fresh ''remaining'' of
            VNil \<Rightarrow> ret rec
          | VInt64 n' \<Rightarrow> spend_loop A i rec k n'
          | _ \<Rightarrow> fail malformed_quota) s1 = (s', Inr rec')" using rest by simp
    from bind_InrD[OF this] obtain s2 fresh where "(case rget fresh ''remaining'' of
            VNil \<Rightarrow> ret rec
          | VInt64 n' \<Rightarrow> spend_loop A i rec k n'
          | _ \<Rightarrow> fail malformed_quota) s2 = (s', Inr rec')" by blast
    then show ?thesis using Suc.IH n by (auto split: gval.splits)
  qed
qed simp

lemma spend_quota_fields:
  "spend_quota A rec s = (s', Inr rec') \<Longrightarrow>
   (rget rec ''remaining'' = VNil \<or> (\<exists>n>0. rget rec ''remaining'' = VInt64 n)) \<and>
   (\<forall>f. f \<noteq> ''remaining'' \<longrightarrow> rget rec' f = rget rec f)"
  by (auto simp: spend_quota_def split: gval.splits dest: spend_loop_fields)

text \<open>
  Over any storage, a request becomes a session through a key only if a row has the
  key's hash, is enabled with an explicit true, has not expired and had units left, the
  user of that row was found and every session guard let the user pass, the limiter did
  not refuse, and the path is inside the scopes and, unless configured otherwise, none of
  the sensitive ones. The session is that user's, ends in a minute, and is never fresh.
\<close>

theorem api_key_session_guarded:
  assumes "before_request A sha ps o' budget now key path s = (s', Inr (Some sd))"
    and "0 \<le> now" and "0 < fresh_age cfg" and "fresh_age cfg \<le> max_int64"
  shows "\<exists>rec s1 u. ad_find_one A model_apikey [W ''key'' (VStr (hash_token sha key))] s = Inr rec
     \<and> rget rec ''enabled'' = VBool True
     \<and> (\<forall>t. rget rec ''expiresAt'' = VTime t \<and> \<not> is_zero_time t \<longrightarrow> now \<le> t)
     \<and> (rget rec ''remaining'' = VNil \<or> (\<exists>n>0. rget rec ''remaining'' = VInt64 n))
     \<and> snd (find_user_by_id A (str_of (rget rec ''userId'')) s1) = Inr u
     \<and> run_session_guards ps \<lparr>sd_session = blank_session\<lparr>s_user := u_id u\<rparr>, sd_user = u, sd_from_cache = False\<rparr> = None
     \<and> (ak_allow_sensitive o' \<or> path \<notin> set denied_by_default \<and> (\<forall>p\<in>set denied_prefixes. \<not> has_prefix path p))
     \<and> (str_fields (str_of (rget rec ''scopes'')) = [] \<or> (\<exists>sc\<in>set (str_fields (str_of (rget rec ''scopes''))). has_prefix path sc))
     \<and> \<not> (limits_keys o' \<and> budget (''apikey:'' @ str_of (rget rec ''id'')) \<lparr>rl_window = ak_rate_window o', rl_max = ak_rate_max o'\<rparr> = (False, None))
     \<and> sd_user sd = u \<and> s_user (sd_session sd) = u_id u \<and> s_expires (sd_session sd) = now + minutes 1
     \<and> \<not> is_fresh cfg now (sd_session sd)"
proof -
  obtain sv rec' u where v: "verify_key A sha ps now key s = (sv, Inr (rec', u))"
    and perm: "key_permits_path o' rec' path"
    and lim: "\<not> (limits_keys o' \<and> budget (''apikey:'' @ str_of (rget rec' ''id'')) \<lparr>rl_window = ak_rate_window o', rl_max = ak_rate_max o'\<rparr> = (False, None))"
    and sd: "sd = key_session (str_of (rget rec' ''id'')) u now"
    using assms(1) unfolding before_request_def Let_def
    by (auto simp: attempt_def split: if_splits sum.splits prod.splits dest!: bind_InrD)
  obtain rec where find: "ad_find_one A model_apikey [W ''key'' (VStr (hash_token sha key))] s = Inr rec"
    and en: "rget rec ''enabled'' = VBool True"
    and ex: "\<not> (case rget rec ''expiresAt'' of VTime t \<Rightarrow> \<not> is_zero_time t \<and> t < now | _ \<Rightarrow> False)"
    and rest: "bind (spend_quota A rec) (\<lambda>rec'. bind (find_user_by_id A (str_of (rget rec' ''userId''))) (\<lambda>u.
           case run_session_guards ps
                  \<lparr>sd_session = blank_session\<lparr>s_user := u_id u\<rparr>, sd_user = u, sd_from_cache = False\<rparr> of
             Some e \<Rightarrow> fail e
           | None \<Rightarrow> ret (rec', u))) s = (sv, Inr (rec', u))"
    using v unfolding verify_key_def bind_query by (auto split: sum.splits if_splits)
  obtain s1 where q: "spend_quota A rec s = (s1, Inr rec')"
    and us: "snd (find_user_by_id A (str_of (rget rec' ''userId'')) s1) = Inr u"
    and g: "run_session_guards ps \<lparr>sd_session = blank_session\<lparr>s_user := u_id u\<rparr>, sd_user = u, sd_from_cache = False\<rparr> = None"
    using rest by (auto dest!: bind_InrD split: option.splits)
  note same = spend_quota_fields[OF q]
  have "time_sub now zero_time = max_int64" using assms(2) by (simp add: time_defs)
  then have fresh: "\<not> is_fresh cfg now (sd_session sd)"
    using assms(3,4) by (simp add: sd is_fresh_def key_session_def blank_session_def)
  have scopes: "rget rec' ''scopes'' = rget rec ''scopes''" "rget rec' ''userId'' = rget rec ''userId''"
    "rget rec' ''id'' = rget rec ''id''"
    using same by auto
  have paths: "(ak_allow_sensitive o' \<or> path \<notin> set denied_by_default \<and> (\<forall>p\<in>set denied_prefixes. \<not> has_prefix path p))
     \<and> (str_fields (str_of (rget rec ''scopes'')) = [] \<or> (\<exists>sc\<in>set (str_fields (str_of (rget rec ''scopes''))). has_prefix path sc))"
    using perm has_prefix_append[of path "[]"]
    unfolding key_permits_path_def scopes Let_def by (auto simp: list_ex_iff split: if_splits)
  have exp: "\<forall>t. rget rec ''expiresAt'' = VTime t \<and> \<not> is_zero_time t \<longrightarrow> now \<le> t" using ex by auto
  have sess: "sd_user sd = u" "s_user (sd_session sd) = u_id u" "s_expires (sd_session sd) = now + minutes 1"
    by (simp_all add: sd key_session_def time_add_def)
  show ?thesis
    by (intro exI[of _ rec] exI[of _ s1] exI[of _ u] conjI)
      (rule find en exp conjunct1[OF same] us[unfolded scopes] g conjunct1[OF paths] conjunct2[OF paths] lim[unfolded scopes] sess fresh)+
qed

section \<open>Own keys only\<close>

lemma remove_first_other: "x \<in> set xs \<Longrightarrow> \<not> P x \<Longrightarrow> x \<in> set (remove_first P xs)"
  by (induction xs) auto

lemma map_first_other: "x \<in> set xs \<Longrightarrow> \<not> P x \<Longrightarrow> x \<in> set (map_first P f xs)"
  by (induction xs) auto

lemma gdelete_ghas [simp]: "\<not> ghas (gdelete m k) k" and gdelete_rget [simp]: "f \<noteq> k \<Longrightarrow> rget (gdelete m k) f = rget m f"
  by (simp_all add: ghas_def rget_def)

lemma spec_user_key:
  "user_key spec_adapter (Inr sd) i d = (d', Inr rec) \<Longrightarrow>
   d' = d \<and> rec \<in> set (sd_rows d model_apikey) \<and> rget rec ''id'' = VStr i \<and> rget rec ''userId'' = VStr (u_id (sd_user sd))"
  by (auto simp: user_key_def attempt_def spec_find_one_def find_Some_iff split: sum.splits option.splits)

lemma user_key_state: "fst (user_key A sess i s) = s"
  by (auto simp: user_key_def attempt_def split: sum.splits)

text \<open>Rows of other users survive whatever is done to the row of a key one owns.\<close>

definition others_kept :: "string \<Rightarrow> sdb \<Rightarrow> sdb \<Rightarrow> bool" where
  "others_kept uid d d' \<longleftrightarrow>
     (\<forall>r\<in>set (sd_rows d model_apikey). rget r ''userId'' \<noteq> VStr uid \<longrightarrow> r \<in> set (sd_rows d' model_apikey)) \<and>
     (\<forall>m. m \<noteq> model_apikey \<longrightarrow> sd_rows d' m = sd_rows d m)"

lemma others_kept_refl [simp]: "others_kept uid d d"
  by (simp add: others_kept_def)

lemma own_row:
  assumes "sdb_inv d" "rec \<in> set (sd_rows d model_apikey)" "rget rec ''id'' = VStr i"
    and "rget rec ''userId'' = VStr uid" "r \<in> set (sd_rows d model_apikey)" "rget r ''userId'' \<noteq> VStr uid"
  shows "rget r ''id'' \<noteq> VStr i"
  using same_id_same_row[OF assms(1,2,5)] assms(3,4,6) by auto

lemma spec_handle_delete:
  assumes d: "sdb_inv d" and run: "handle_delete spec_adapter (Inr sd) i d = (d', r)"
  shows "others_kept (u_id (sd_user sd)) d d'"
proof (cases "snd (user_key spec_adapter (Inr sd) i d)")
  case (Inl e)
  then show ?thesis using run user_key_state[of spec_adapter "Inr sd" i d]
    by (cases "user_key spec_adapter (Inr sd) i d") (auto simp: handle_delete_def bind_def)
next
  case (Inr rec)
  then have uk: "user_key spec_adapter (Inr sd) i d = (d, Inr rec)"
    using user_key_state[of spec_adapter "Inr sd" i d] by (cases "user_key spec_adapter (Inr sd) i d") auto
  note rec = spec_user_key[OF uk]
  then have "handle_delete spec_adapter (Inr sd) i d = spec_delete model_apikey [W ''id'' (VStr i)] d"
    by (simp add: handle_delete_def bind_def uk str_of_def)
  then show ?thesis using run own_row[OF d, of rec i] rec
    by (auto simp: spec_delete_def others_kept_def split: option.splits intro!: remove_first_other)
qed

lemma spec_handle_update:
  assumes d: "sdb_inv d" and run: "handle_update spec_adapter (Inr sd) b now d = (d', r)"
  shows "others_kept (u_id (sd_user sd)) d d'"
proof (cases "snd (user_key spec_adapter (Inr sd) (ub_key_id b) d)")
  case (Inl e)
  then show ?thesis using run user_key_state[of spec_adapter "Inr sd" "ub_key_id b" d]
    by (cases "user_key spec_adapter (Inr sd) (ub_key_id b) d") (auto simp: handle_update_def bind_def)
next
  case (Inr rec)
  then have uk: "user_key spec_adapter (Inr sd) (ub_key_id b) d = (d, Inr rec)"
    using user_key_state[of spec_adapter "Inr sd" "ub_key_id b" d] by (cases "user_key spec_adapter (Inr sd) (ub_key_id b) d") auto
  note rec = spec_user_key[OF uk]
  have "\<exists>u. d' = fst (spec_update model_apikey [W ''id'' (VStr (ub_key_id b))] u d)"
    using run rec by (auto simp: handle_update_def bind_def uk str_of_def Let_def split: prod.splits sum.splits) (metis fst_conv)+
  then show ?thesis using own_row[OF d, of rec "ub_key_id b"] rec
    by (auto simp: spec_update_def others_kept_def split: option.splits intro!: map_first_other)
qed

context storage_contract
begin

lemma user_key_sim: "sim \<alpha> I (user_key A sess i) (user_key spec_adapter sess i)"
  unfolding user_key_def by (auto intro!: sim_intros storage_sims)

lemma handle_delete_sim: "sim \<alpha> I (handle_delete A sess i) (handle_delete spec_adapter sess i)"
  unfolding handle_delete_def by (auto intro!: sim_intros storage_sims user_key_sim)

lemma handle_update_sim: "sim \<alpha> I (handle_update A sess b now) (handle_update spec_adapter sess b now)"
proof -
  have "\<not> ghas (opt_field ''remaining'' x (opt_field ''enabled'' y (opt_field ''name'' z [(''updatedAt'', VTime now)]))) ''id''"
    for x y z by (cases x; cases y; cases z) (simp_all add: opt_field_def ghas_def)
  then show ?thesis unfolding handle_update_def Let_def by (auto intro!: sim_intros storage_sims user_key_sim)
qed

lemma own_keys_only:
  assumes "I s"
  shows "(handle_delete A (Inr sd) i s = (s', r) \<longrightarrow> others_kept (u_id (sd_user sd)) (\<alpha> s) (\<alpha> s'))
    \<and> (handle_update A (Inr sd) b now s = (s', r') \<longrightarrow> others_kept (u_id (sd_user sd)) (\<alpha> s) (\<alpha> s'))
    \<and> (handle_get A (Inr sd) i s = (s', Inr view) \<longrightarrow> s' = s \<and> rget view ''userId'' = VStr (u_id (sd_user sd)) \<and> \<not> ghas view ''key'')"
proof (intro conjI impI)
  assume "handle_delete A (Inr sd) i s = (s', r)"
  then show "others_kept (u_id (sd_user sd)) (\<alpha> s) (\<alpha> s')"
    using simD[OF handle_delete_sim assms] spec_handle_delete[OF inv_abs[OF assms]] by blast
next
  assume "handle_update A (Inr sd) b now s = (s', r')"
  then show "others_kept (u_id (sd_user sd)) (\<alpha> s) (\<alpha> s')"
    using simD[OF handle_update_sim assms] spec_handle_update[OF inv_abs[OF assms]] by blast
next
  assume g: "handle_get A (Inr sd) i s = (s', Inr view)"
  have "bind (user_key A (Inr sd) i) (\<lambda>rec. ret (public_key_view rec)) s = (s', Inr view)" using g by (simp add: handle_get_def)
  from bind_InrD[OF this] obtain rec where uk: "user_key A (Inr sd) i s = (s', Inr rec)" and v: "view = public_key_view rec"
    by auto
  have "rget rec ''userId'' = VStr (u_id (sd_user sd))"
    using simD[OF user_key_sim assms uk] spec_user_key by blast
  moreover have "s' = s" using uk user_key_state[of A "Inr sd" i s] by simp
  ultimately show "s' = s" "rget view ''userId'' = VStr (u_id (sd_user sd))" "\<not> ghas view ''key''"
    by (simp_all add: v public_key_view_def)
qed

end

text \<open>
  Through the endpoints for managing keys a user reads only keys of their own, without
  the hash, and can change or delete no row of anyone else, whatever ids are sent.
\<close>

theorem api_key_ownership:
  assumes "mem_inv S s"
  shows "(handle_delete mem_adapter (Inr sd) i s = (s', r) \<longrightarrow> others_kept (u_id (sd_user sd)) (mem_abs s) (mem_abs s'))
    \<and> (handle_update mem_adapter (Inr sd) b now s = (s', r') \<longrightarrow> others_kept (u_id (sd_user sd)) (mem_abs s) (mem_abs s'))
    \<and> (handle_get mem_adapter (Inr sd) i s = (s', Inr view) \<longrightarrow> s' = s \<and> rget view ''userId'' = VStr (u_id (sd_user sd)) \<and> \<not> ghas view ''key'')"
  using mem.own_keys_only[OF assms] .

text \<open>A list of scopes that are blank makes a key without any restriction.\<close>

lemma blank_scopes_unrestricted:
  "key_permits_path o' (new_key_record sha o' (b\<lparr>cb_scopes := ['''', '' '']\<rparr>) u now gen_id prefix plain) ''/list-sessions''"
proof -
  have "rget (new_key_record sha o' (b\<lparr>cb_scopes := ['''', '' '']\<rparr>) u now gen_id prefix plain) ''scopes'' = VStr ''  ''"
    by (simp add: new_key_record_def opt_field_def rget_def)
  moreover have "str_fields ''  '' = []" by code_simp
  moreover have "''/list-sessions'' \<notin> set denied_by_default \<and> \<not> list_ex (has_prefix ''/list-sessions'') denied_prefixes" by code_simp
  ultimately show ?thesis by (simp add: key_permits_path_def str_of_def)
qed

section \<open>Examples\<close>

definition demo_key_row :: grec where
  "demo_key_row = [(''id'', VStr ''k1''), (''userId'', VStr ''u1''), (''key'', VStr ''hash''), (''enabled'', VBool True),
     (''remaining'', VInt64 1)]"

definition demo_keys :: mem where
  "demo_keys = fst (mem_create model_apikey demo_key_row mem_new)"

lemma demo_keys_facts:
  "mem_inv None demo_keys" "sd_rows (mem_abs demo_keys) = (\<lambda>m. if m = model_apikey then [demo_key_row] else [])"
  "sd_schema (mem_abs demo_keys) = None"
proof -
  have inv: "mem_inv None mem_new"
    by (auto simp: mem_inv_def mem_new_def addrs_ok_def model_ok_def rows_ok_def mem_rows_def idx_ok_empty fun_eq_iff uniq_cache_def)
  have id: "has_str_id demo_key_row" by (simp add: has_str_id_def demo_key_row_def)
  obtain s r where c: "mem_create model_apikey demo_key_row mem_new = (s, r)" by force
  have new: "mem_abs mem_new = \<lparr>sd_rows = (\<lambda>_. []), sd_schema = None\<rparr>"
    by (simp add: mem_abs_def mem_rows_def mem_new_def fun_eq_iff)
  from simD[OF mem_create_sim[OF id] inv c]
  have "mem_inv None s" and sp: "spec_create model_apikey demo_key_row (mem_abs mem_new) = (mem_abs s, r)" by auto
  then have "mem_abs s = set_rows model_apikey [demo_key_row] (mem_abs mem_new)"
    by (auto simp: new spec_create_def check_writable_fields_def unknown_keys_def sd_table_def schema_table_def
        spec_violates_def violates_composite_def list_ex_iff sd_uniq_def uniq_of_def split: if_splits)
  then have "sd_rows (mem_abs s) = (\<lambda>m. if m = model_apikey then [demo_key_row] else [])" "sd_schema (mem_abs s) = None"
    unfolding new by (simp_all add: fun_eq_iff del: mem_abs_sel)
  then show "mem_inv None demo_keys" "sd_rows (mem_abs demo_keys) = (\<lambda>m. if m = model_apikey then [demo_key_row] else [])"
    "sd_schema (mem_abs demo_keys) = None"
    using \<open>mem_inv None s\<close> unfolding demo_keys_def c fst_conv by blast+
qed

lemma quota_never_overspent_witness:
  "\<exists>s c. (quota_step mem_adapter ''k1'' (\<lambda>_ _. False))\<^sup>*\<^sup>* (demo_keys, \<lambda>_. QIdle) (s, c)
     \<and> c 0 = QSpent \<and> card (served c) = 1 \<and> quota_of (mem_abs s) ''k1'' = [VInt64 0]"
proof -
  let ?E = "\<lambda>_ _. False"
  note d = demo_keys_facts
  have u: "''remaining'' \<notin> set (uniq_in None model_apikey)" by (simp add: uniq_in_def uniq_of_def schema_table_def)
  have q: "quota_of (mem_abs demo_keys) ''k1'' = [VInt64 1]"
    unfolding quota_of_def d by (simp add: demo_key_row_def rget_def)
  have "spec_find_one model_apikey [W ''key'' (VStr ''hash'')] (mem_abs demo_keys) = Inr demo_key_row"
    unfolding spec_find_one_def sd_table_def d
    by (simp add: check_where_fields_def unknown_keys_def schema_table_def demo_key_row_def rget_def)
  then have "ad_find_one mem_adapter model_apikey [W ''key'' (VStr ''hash'')] demo_keys = Inr demo_key_row"
    using mem.find_one_sim[OF _ d(1), of "[W ''key'' (VStr ''hash'')]" model_apikey] by simp
  then have "quota_step mem_adapter ''k1'' ?E (demo_keys, \<lambda>_. QIdle) (demo_keys, (\<lambda>_. QIdle)(0 := after_read 5 (Inr demo_key_row)))"
    by (intro quota_step.arrive) (simp_all add: demo_key_row_def rget_def)
  then have s1: "quota_step mem_adapter ''k1'' ?E (demo_keys, \<lambda>_. QIdle) (demo_keys, (\<lambda>_. QIdle)(0 := QTrying (Suc 4) 1))"
    by (simp add: after_read_def demo_key_row_def rget_def)
  obtain s2 r2 where t: "take_unit mem_adapter ''k1'' 1 demo_keys = (s2, r2)" by force
  then have "take_unit spec_adapter ''k1'' 1 (mem_abs demo_keys) = (mem_abs s2, r2)"
    using simD[OF mem.take_unit_sim[OF u] d(1)] by blast
  then have "r2 = Inr 1"
    unfolding take_unit_def spec_adapter_sel spec_update_many_def sd_table_def d
    by (auto simp: check_where_fields_def check_writable_fields_def unknown_keys_def schema_table_def demo_key_row_def rget_def val_equal_int64_exact)
  have "quota_step mem_adapter ''k1'' ?E (demo_keys, (\<lambda>_. QIdle)(0 := QTrying (Suc 4) 1))
      (s2, ((\<lambda>_. QIdle)(0 := QTrying (Suc 4) 1))(0 := (case r2 of Inl _ \<Rightarrow> QStopped | Inr got \<Rightarrow> if got = 1 then QSpent else QReread 4)))"
    by (rule quota_step.take[OF _ _ t]) simp_all
  then have s2: "quota_step mem_adapter ''k1'' ?E (demo_keys, (\<lambda>_. QIdle)(0 := QTrying (Suc 4) 1)) (s2, (\<lambda>_. QIdle)(0 := QSpent))"
    unfolding \<open>r2 = Inr 1\<close> fun_upd_upd by (simp only: sum.case simp_thms if_True)
  let ?c = "(\<lambda>_. QIdle)(0 := QSpent) :: nat \<Rightarrow> qpc"
  from s1 s2 have run: "(quota_step mem_adapter ''k1'' ?E)\<^sup>*\<^sup>* (demo_keys, \<lambda>_. QIdle) (s2, ?c)"
    by (metis (no_types, lifting) converse_rtranclp_into_rtranclp rtranclp.rtrancl_refl)
  have one: "served ?c = {0}" by (auto simp: served_def)
  have "quota_of (mem_abs s2) ''k1'' = [VInt64 (1 - int (card (served ?c)))]"
    using quota_never_overspent[OF d(1) u q _ _ _ run, THEN conjunct2, THEN conjunct2, THEN conjunct1] by simp
  then have "quota_of (mem_abs s2) ''k1'' = [VInt64 0]" unfolding one by simp
  moreover have "card (served ?c) = 1" unfolding one by simp
  ultimately show ?thesis using run by (intro exI[of _ s2] exI[of _ ?c]) simp
qed

text \<open>A store with one key and its owner, behind the abstract storage.\<close>

definition demo_opts :: apikey_options where
  "demo_opts = \<lparr>ak_prefix = ''ak_'', ak_key_length = 32, ak_max_keys = 0, ak_rate_max = 0, ak_rate_window = 0,
     ak_no_sessions = False, ak_allow_sensitive = False, ak_usage_interval = - 1\<rparr>"

definition demo_db :: sdb where
  "demo_db = \<lparr>sd_rows = (\<lambda>m. if m = model_apikey then [gput demo_key_row ''key'' (VStr '''')]
     else if m = model_user then [user_to_map demo_user_row] else []), sd_schema = None\<rparr>"

lemma demo_take_unit:
  "take_unit spec_adapter ''k1'' 1 demo_db =
   (set_rows model_apikey [gput (gput demo_key_row ''key'' (VStr '''')) ''remaining'' (VInt64 0)] demo_db, Inr 1)"
  by (simp add: take_unit_def spec_update_many_def sd_table_def demo_db_def check_where_fields_def check_writable_fields_def
      unknown_keys_def schema_table_def demo_key_row_def rget_def val_equal_int64_exact gmerge_def)

lemma api_key_session_guarded_witness:
  "\<exists>s' sd. before_request spec_adapter (\<lambda>_. '''') [] demo_opts (\<lambda>_ _. (True, None)) (seconds 10) ''ak_x'' ''/get-session'' demo_db
      = (s', Inr (Some sd)) \<and> s_user (sd_session sd) = ''u1'' \<and> \<not> is_fresh demo_cfg (seconds 10) (sd_session sd)"
proof -
  let ?row = "gput demo_key_row ''key'' (VStr '''')" and ?sha = "\<lambda>_::string. ''''"
  let ?d = "set_rows model_apikey [gput ?row ''remaining'' (VInt64 0)] demo_db"
  have h: "hash_token ?sha ''ak_x'' = ''''" by (simp add: hash_token_def)
  have find: "spec_find_one model_apikey [W ''key'' (VStr '''')] demo_db = Inr ?row"
    by (simp add: spec_find_one_def sd_table_def demo_db_def check_where_fields_def unknown_keys_def schema_table_def
        demo_key_row_def rget_def)
  have u: "find_user_by_id spec_adapter ''u1'' ?d = (?d, Inr (user_from_map (user_to_map demo_user_row)))"
    by (simp add: find_user_by_id_def bind_query spec_find_one_def sd_table_def demo_db_def check_where_fields_def
        unknown_keys_def schema_table_def model_apikey_def model_user_def user_to_map_def demo_user_row_def rget_def)
  have v: "verify_key spec_adapter ?sha [] (seconds 10) ''ak_x'' demo_db =
      (?d, Inr (gput ?row ''remaining'' (VInt64 0), user_from_map (user_to_map demo_user_row)))"
    unfolding verify_key_def h bind_query spec_adapter_sel find
    by (simp add: spend_quota_def demo_key_row_def rget_def bind_def u demo_take_unit[unfolded demo_key_row_def] str_of_def numeral_eq_Suc
        u[unfolded demo_key_row_def])
  have i: "rget demo_key_row ''id'' = VStr ''k1''" by (simp add: demo_key_row_def rget_def)
  have perm: "key_permits_path demo_opts (gput ?row ''remaining'' (VInt64 0)) ''/get-session''" by code_simp
  have lim: "\<not> limits_keys demo_opts" "\<not> ak_no_sessions demo_opts" "ak_usage_interval demo_opts < 0"
    by (simp_all add: demo_opts_def limits_keys_def)
  have b: "before_request spec_adapter ?sha [] demo_opts (\<lambda>_ _. (True, None)) (seconds 10) ''ak_x'' ''/get-session'' demo_db =
      (?d, Inr (Some (key_session ''k1'' (user_from_map (user_to_map demo_user_row)) (seconds 10))))"
    unfolding before_request_def attempt_def by (simp add: v perm lim record_usage_def ret_def bind_def str_of_def i Let_def)
  have cfg: "0 \<le> seconds 10" "0 < fresh_age demo_cfg" "fresh_age demo_cfg \<le> max_int64"
    by (simp_all add: demo_cfg_def time_defs max_int64_def)
  have u1: "u_id (user_from_map (user_to_map demo_user_row)) = ''u1''"
    by (simp add: user_from_map_def user_to_map_def demo_user_row_def rget_def)
  from api_key_session_guarded[OF b cfg]
  show ?thesis using b u1 by (auto simp: key_session_def)
qed

lemma api_key_ownership_witness:
  "demo_key_row \<in> set (sd_rows (mem_abs (fst (handle_delete mem_adapter (Inr \<lparr>sd_session = blank_session,
     sd_user = demo_user_row\<lparr>u_id := ''u2''\<rparr>, sd_from_cache = False\<rparr>) ''k1'' demo_keys))) model_apikey)"
proof -
  let ?sd = "\<lparr>sd_session = blank_session, sd_user = demo_user_row\<lparr>u_id := ''u2''\<rparr>, sd_from_cache = False\<rparr>"
  obtain s' r where h: "handle_delete mem_adapter (Inr ?sd) ''k1'' demo_keys = (s', r)" by force
  from api_key_ownership[OF demo_keys_facts(1), where sd = ?sd and i = "''k1''" and s' = s' and r = r] h
  have k: "others_kept ''u2'' (mem_abs demo_keys) (mem_abs s')" by simp
  have "demo_key_row \<in> set (sd_rows (mem_abs demo_keys) model_apikey)" "rget demo_key_row ''userId'' \<noteq> VStr ''u2''"
    unfolding demo_keys_facts by (simp_all add: demo_key_row_def rget_def)
  then show ?thesis unfolding h fst_conv using k unfolding others_kept_def by blast
qed

end
