(* ===== verification/Effects.thy ===== *)
theory Effects
  imports Session_Laws
begin

text \<open>
  What a handler does besides storage calls: the audit trail of events.go, the mails it
  asks the application to send, the password derivations it pays for and the session
  cookie. A handler acts on a \<open>world\<close>: the store, and everything done so far, in order.

  Also the error values of errors.go as seen by clients and by the audit trail, and the
  two operations of session.go through which every session comes into being.
\<close>

section \<open>Errors as clients see them\<close>

definition is_unique_violation :: "gerror \<Rightarrow> bool" where
  "is_unique_violation e = (e = ErrUniqueViolation)"

definition as_api_error :: "gerror \<Rightarrow> nat \<times> string" where
  "as_api_error e =
     (case e of
        ApiError status code \<Rightarrow> (status, code)
      | _ \<Rightarrow> if e = ErrHasherBusy then (503, ''SERVICE_BUSY'')
             else if is_unique_violation e then (409, ''ALREADY_EXISTS'')
             else (500, ''INTERNAL_SERVER_ERROR''))"

definition err_user_exists :: gerror where "err_user_exists = ApiError 422 ''USER_ALREADY_EXISTS''"
definition err_invalid_credentials :: gerror where
  "err_invalid_credentials = ApiError 401 ''INVALID_EMAIL_OR_PASSWORD''"
definition err_invalid_password :: gerror where "err_invalid_password = ApiError 400 ''INVALID_PASSWORD''"
definition err_invalid_email :: gerror where "err_invalid_email = ApiError 400 ''INVALID_EMAIL''"
definition err_email_not_verified :: gerror where "err_email_not_verified = ApiError 403 ''EMAIL_NOT_VERIFIED''"
definition err_password_too_short :: gerror where "err_password_too_short = ApiError 400 ''PASSWORD_TOO_SHORT''"
definition err_password_too_long :: gerror where "err_password_too_long = ApiError 400 ''PASSWORD_TOO_LONG''"
definition err_unauthorized :: gerror where "err_unauthorized = ApiError 401 ''UNAUTHORIZED''"
definition err_session_expired :: gerror where "err_session_expired = ApiError 401 ''SESSION_EXPIRED''"
definition err_session_not_fresh :: gerror where "err_session_not_fresh = ApiError 403 ''SESSION_NOT_FRESH''"
definition err_invalid_token :: gerror where "err_invalid_token = ApiError 400 ''INVALID_TOKEN''"
definition err_no_credential :: gerror where "err_no_credential = ApiError 400 ''CREDENTIAL_ACCOUNT_NOT_FOUND''"
definition err_sign_up_disabled :: gerror where "err_sign_up_disabled = ApiError 403 ''SIGNUP_DISABLED''"
definition err_account_not_found :: gerror where "err_account_not_found = ApiError 400 ''ACCOUNT_NOT_FOUND''"
definition err_last_account :: gerror where "err_last_account = ApiError 400 ''FAILED_TO_UNLINK_LAST_ACCOUNT''"
definition err_verification_disabled :: gerror where "err_verification_disabled = ApiError 400 ''VERIFICATION_DISABLED''"
definition err_invalid_body :: gerror where "err_invalid_body = ApiError 400 ''INVALID_BODY''"
definition err_provider_not_found :: gerror where "err_provider_not_found = ApiError 404 ''PROVIDER_NOT_FOUND''"
definition err_token_decryption :: gerror where "err_token_decryption = ApiError 500 ''TOKEN_DECRYPTION_FAILED''"
definition err_mail_failed :: gerror where "err_mail_failed = ApiError 500 ''FAILED_TO_SEND_EMAIL''"

definition event_reason_for :: "gerror \<Rightarrow> string" where
  "event_reason_for e =
     (let code = snd (as_api_error e)
      in if code \<in> {''INVALID_EMAIL_OR_PASSWORD'', ''INVALID_PASSWORD''} then ''invalid_password''
         else if code = ''USER_NOT_FOUND'' then ''unknown_user''
         else if code = ''CREDENTIAL_ACCOUNT_NOT_FOUND'' then ''no_credential_account''
         else if code = ''EMAIL_NOT_VERIFIED'' then ''email_not_verified''
         else if code = ''BANNED_USER'' then ''banned''
         else if code = ''INVALID_TWO_FACTOR_CODE'' then ''invalid_two_factor_code''
         else if code = ''TOO_MANY_ATTEMPTS'' then ''too_many_attempts''
         else if code = ''INVALID_TOKEN'' then ''invalid_token''
         else if code = ''SESSION_EXPIRED'' then ''session_expired''
         else if code = ''SESSION_NOT_FRESH'' then ''session_not_fresh''
         else if code = ''UNAUTHORIZED'' then ''not_authenticated''
         else if code \<in> {''FORBIDDEN'', ''NOT_ALLOWED''} then ''not_authorized''
         else if code = ''RATE_LIMITED'' then ''rate_limited''
         else if code = ''SIGNUP_DISABLED'' then ''sign_up_disabled''
         else if code \<in> {''USER_ALREADY_EXISTS'', ''ALREADY_EXISTS''} then ''already_exists''
         else if code = ''TOKEN_DECRYPTION_FAILED'' then ''decryption_failed''
         else ''internal_error'')"

section \<open>Requests\<close>

text \<open>
  What a handler reads of its request. \<open>cx_fresh\<close> are the random strings it will draw, told
  apart by what they are for; the clock is read once.
\<close>

record req_ctx =
  cx_now :: gtime
  cx_ip :: string
  cx_agent :: string
  cx_verb :: string
  cx_route :: string
  cx_auth_method :: string
  cx_fresh :: "string \<Rightarrow> string"

section \<open>Effects\<close>

record event =
  ev_type :: string
  ev_time :: gtime
  ev_outcome :: string
  ev_reason :: string
  ev_actor :: string
  ev_target :: string
  ev_email :: string
  ev_session :: string
  ev_method :: string
  ev_action :: string
  ev_ip :: string
  ev_agent :: string
  ev_verb :: string
  ev_route :: string

definition blank_event :: event where
  "blank_event = \<lparr>ev_type = '''', ev_time = zero_time, ev_outcome = '''', ev_reason = '''', ev_actor = '''',
     ev_target = '''', ev_email = '''', ev_session = '''', ev_method = '''', ev_action = '''', ev_ip = '''',
     ev_agent = '''', ev_verb = '''', ev_route = ''''\<rparr>"

text \<open>A link that is mailed: its kind, the user it is about, and the link in parts.\<close>

record mail =
  ml_kind :: string
  ml_user :: user
  ml_to :: string
  ml_path :: string
  ml_query :: "(string \<times> string) list"
  ml_token :: string
  ml_new_email :: string

datatype effect =
    Emitted event
  | Mailed mail
  | Derived
  | SessionCookie string bool
  | CookieCleared
  | StateCookie string bool
  | StateCookieCleared
  | PluginCookie string string int
  | Called string user

record 's world =
  w_db :: 's
  w_log :: "effect list"

definition db :: "('s, 'a) act \<Rightarrow> ('s world, 'a) act" where
  "db f w = (case f (w_db w) of (s, r) \<Rightarrow> (w\<lparr>w_db := s\<rparr>, r))"

definition did :: "effect \<Rightarrow> ('s world, unit) act" where
  "did x w = (w\<lparr>w_log := w_log w @ [x]\<rparr>, Inr ())"

definition fill_event :: "req_ctx \<Rightarrow> event \<Rightarrow> event" where
  "fill_event cx e = e\<lparr>
     ev_time := (if is_zero_time (ev_time e) then cx_now cx else ev_time e),
     ev_outcome := (if ev_outcome e \<noteq> '''' then ev_outcome e
                    else if ev_reason e \<noteq> '''' then ''failure'' else ''success''),
     ev_ip := (if ev_ip e = '''' then cx_ip cx else ev_ip e),
     ev_agent := (if ev_agent e = '''' then cx_agent cx else ev_agent e),
     ev_verb := (if ev_verb e = '''' then cx_verb cx else ev_verb e),
     ev_route := (if ev_route e = '''' then cx_route cx else ev_route e)\<rparr>"

definition emit :: "req_ctx \<Rightarrow> event \<Rightarrow> ('s world, unit) act" where
  "emit cx e = did (Emitted (fill_event cx e))"

text \<open>A mailer is the application's function; it answers with an error or none.\<close>

type_synonym mailer = "mail \<Rightarrow> gerror option"

definition send_mail :: "mailer \<Rightarrow> mail \<Rightarrow> ('s world, gerror option) act" where
  "send_mail send m = bind (did (Mailed m)) (\<lambda>_. ret (send m))"

section \<open>Hashing passwords\<close>

text \<open>
  The interface \<open>PasswordHasher\<close>: \<open>hs_hash\<close> gets the salt it will draw. Every call is one
  derivation, also the one that only burns time: that is the hasher's own \<open>DummyVerify\<close> where
  it has one (\<open>hs_dummy\<close>), and otherwise a hash that is thrown away.
\<close>

record hasher =
  hs_dummy :: bool
  hs_hash :: "string \<Rightarrow> string \<Rightarrow> string result"
  hs_verify :: "string \<Rightarrow> string \<Rightarrow> bool result"

definition hash_with :: "hasher \<Rightarrow> string \<Rightarrow> string \<Rightarrow> ('s world, string) act" where
  "hash_with h salt pw = bind (did Derived) (\<lambda>_. query (\<lambda>_. hs_hash h salt pw))"

definition verify_with :: "hasher \<Rightarrow> string \<Rightarrow> string \<Rightarrow> ('s world, bool) act" where
  "verify_with h stored pw = bind (did Derived) (\<lambda>_. query (\<lambda>_. hs_verify h stored pw))"

definition dummy_verify :: "hasher \<Rightarrow> string \<Rightarrow> ('s world, unit) act" where
  "dummy_verify h pw = (if hs_dummy h then did Derived else ignore (hash_with h '''' pw))"

section \<open>Sessions\<close>

text \<open>\<open>created.Extra["impersonatedBy"].(string)\<close>, and who an event about the session names.\<close>

definition impersonator :: "session \<Rightarrow> string" where
  "impersonator s = (case rget (s_extra s) ''impersonatedBy'' of VStr i \<Rightarrow> i | _ \<Rightarrow> '''')"

definition impersonator_or :: "string \<Rightarrow> string \<Rightarrow> string" where
  "impersonator_or imp uid = (if imp \<noteq> '''' then imp else uid)"

definition impersonator_target :: "string \<Rightarrow> string \<Rightarrow> string" where
  "impersonator_target imp uid = (if imp \<noteq> '''' then uid else '''')"

definition issue_session ::
  "'s adapter \<Rightarrow> db_hooks \<Rightarrow> session_config \<Rightarrow> req_ctx \<Rightarrow> user \<Rightarrow> bool \<Rightarrow> grec \<Rightarrow> duration \<Rightarrow> ('s world, session) act" where
  "issue_session A H cfg cx u remember extra dur =
     bind (db (create_session_with A H cfg (cx_now cx) (cx_fresh cx ''session-id'') (cx_fresh cx ''session-token'')
                 (cx_ip cx, cx_agent cx) u extra dur)) (\<lambda>s.
     bind (did (SessionCookie (s_token s) remember)) (\<lambda>_.
     bind (emit cx (blank_event\<lparr>ev_type := ''session.created'',
             ev_actor := impersonator_or (impersonator s) (u_id u),
             ev_target := impersonator_target (impersonator s) (u_id u),
             ev_email := u_email u, ev_session := s_id s, ev_method := cx_auth_method cx\<rparr>)) (\<lambda>_.
     ret s)))"

text \<open>\<open>SignInUser\<close>; \<open>None\<close> when a guard wrote the response.\<close>

definition sign_in ::
  "'s adapter \<Rightarrow> db_hooks \<Rightarrow> session_config \<Rightarrow> plugin list \<Rightarrow> req_ctx \<Rightarrow> user \<Rightarrow> bool \<Rightarrow> ('s world, session option) act" where
  "sign_in A H cfg ps cx u remember =
     (case run_sign_in_guards ps u of
        Inl e \<Rightarrow>
          bind (emit cx (blank_event\<lparr>ev_type := ''sign_in'', ev_outcome := ''failure'', ev_reason := event_reason_for e,
                  ev_actor := u_id u, ev_email := u_email u, ev_method := cx_auth_method cx\<rparr>)) (\<lambda>_. fail e)
      | Inr True \<Rightarrow>
          bind (emit cx (blank_event\<lparr>ev_type := ''sign_in.challenged'', ev_outcome := ''challenged'',
                  ev_reason := ''two_factor_required'', ev_actor := u_id u, ev_email := u_email u,
                  ev_method := cx_auth_method cx\<rparr>)) (\<lambda>_. ret None)
      | Inr False \<Rightarrow>
          bind (issue_session A H cfg cx u remember [] (expires_in cfg)) (\<lambda>s.
          bind (emit cx (blank_event\<lparr>ev_type := ''sign_in'', ev_actor := u_id u, ev_email := u_email u,
                  ev_session := s_id s, ev_method := cx_auth_method cx\<rparr>)) (\<lambda>_.
          ret (Some s))))"

section \<open>Laws\<close>

lemma db_run [simp]: "db f w = (w\<lparr>w_db := fst (f (w_db w))\<rparr>, snd (f (w_db w)))"
  by (simp add: db_def split_beta)

lemma did_run [simp]: "did x w = (w\<lparr>w_log := w_log w @ [x]\<rparr>, Inr ())" by (simp add: did_def)

lemma bind_did [simp]: "bind (did x) k w = k () (w\<lparr>w_log := w_log w @ [x]\<rparr>)"
  by (simp add: bind_def)

lemma emit_run [simp]: "emit cx e w = (w\<lparr>w_log := w_log w @ [Emitted (fill_event cx e)]\<rparr>, Inr ())"
  by (simp add: emit_def)

lemma bind_emit [simp]: "bind (emit cx e) k w = k () (w\<lparr>w_log := w_log w @ [Emitted (fill_event cx e)]\<rparr>)"
  by (simp add: bind_def)

lemma bind_okD: "bind f k s = (s', Inr v) \<Longrightarrow> \<exists>s1 x. f s = (s1, Inr x) \<and> k x s1 = (s', Inr v)"
  by (auto simp: bind_def split: prod.splits sum.splits)

lemma bind_db: "bind (db f) k w = (case f (w_db w) of
    (s, Inl e) \<Rightarrow> (w\<lparr>w_db := s\<rparr>, Inl e) | (s, Inr v) \<Rightarrow> k v (w\<lparr>w_db := s\<rparr>))"
  by (simp add: bind_def db_def split: prod.splits sum.splits)

lemma attempt_db: "attempt (db f) k w = (case f (w_db w) of (s, r) \<Rightarrow> k r (w\<lparr>w_db := s\<rparr>))"
  by (simp add: attempt_def db_def split: prod.splits)

text \<open>A simulation of the stores is one of the worlds, with the same log.\<close>

definition wmap :: "('s \<Rightarrow> 't) \<Rightarrow> 's world \<Rightarrow> 't world" where
  "wmap \<alpha> w = \<lparr>w_db = \<alpha> (w_db w), w_log = w_log w\<rparr>"

definition winv :: "('s \<Rightarrow> bool) \<Rightarrow> 's world \<Rightarrow> bool" where "winv I w = I (w_db w)"

lemma wmap_sel [simp]: "w_db (wmap \<alpha> w) = \<alpha> (w_db w)" "w_log (wmap \<alpha> w) = w_log w"
  by (simp_all add: wmap_def)

lemma sim_db [sim_intros]: "sim \<alpha> I f g \<Longrightarrow> sim (wmap \<alpha>) (winv I) (db f) (db g)"
proof (rule simI)
  fix w w' r assume s: "sim \<alpha> I f g" and i: "winv I w" and run: "db f w = (w', r)"
  from i have "I (w_db w)" by (simp add: winv_def)
  note 1 = sim_run[OF s this]
  from simD[OF s \<open>I (w_db w)\<close> surjective_pairing] have "I (fst (f (w_db w)))" by blast
  then show "winv I w' \<and> db g (wmap \<alpha> w) = (wmap \<alpha> w', r)"
    using run 1 by (auto simp: winv_def wmap_def db_def split: prod.splits)
qed

lemma sim_did [sim_intros]: "sim (wmap \<alpha>) (winv I) (did x) (did x)"
  by (rule simI) (auto simp: winv_def wmap_def did_def)

lemma sim_pure [sim_intros]: "sim \<alpha> I (query (\<lambda>_. r)) (query (\<lambda>_. r))"
  by (rule simI) auto

lemma sim_emit [sim_intros]: "sim (wmap \<alpha>) (winv I) (emit cx e) (emit cx e)"
  unfolding emit_def by (rule sim_did)

lemma sim_hashing [sim_intros]:
  "sim (wmap \<alpha>) (winv I) (hash_with h salt pw) (hash_with h salt pw)"
  "sim (wmap \<alpha>) (winv I) (verify_with h stored pw) (verify_with h stored pw)"
  "sim (wmap \<alpha>) (winv I) (dummy_verify h pw) (dummy_verify h pw)"
  "sim (wmap \<alpha>) (winv I) (send_mail send m) (send_mail send m)"
  unfolding hash_with_def verify_with_def dummy_verify_def send_mail_def by (intro sim_intros; simp)+

context storage_contract
begin

lemma issue_session_sim:
  assumes "hooks_ok H" and "\<not> ghas extra ''id''"
  shows "sim (wmap \<alpha>) (winv I) (issue_session A H cfg cx u rem extra dur) (issue_session spec_adapter H cfg cx u rem extra dur)"
  using assms unfolding issue_session_def create_session_with_def Let_def
  by (auto intro!: sim_intros store_sims)

lemma sign_in_sim:
  "hooks_ok H \<Longrightarrow> sim (wmap \<alpha>) (winv I) (sign_in A H cfg ps cx u rem) (sign_in spec_adapter H cfg ps cx u rem)"
  unfolding sign_in_def by (auto intro!: sim_intros issue_session_sim simp: ghas_def split: bool.splits)

lemmas effect_sims = issue_session_sim sign_in_sim

end

text \<open>What \<open>sign_in\<close> does to the store is what \<open>sign_in_user\<close> does.\<close>

lemma sign_in_db:
  "sign_in A H cfg ps cx u rem w = (w', r) \<Longrightarrow>
   sign_in_user A H cfg ps (cx_now cx) (cx_fresh cx ''session-id'') (cx_fresh cx ''session-token'')
     (cx_ip cx, cx_agent cx) u (w_db w) = (w_db w', r)"
  by (auto simp: sign_in_def sign_in_user_def issue_session_def emit_def bind_db bind_def
      split: sum.splits bool.splits prod.splits)

end
