(* ===== verification/Credentials.thy ===== *)
theory Credentials
  imports Effects Store_Laws Password
begin

text \<open>
  Email and password (handler_email.go): sign-up, sign-in, reset, change and set, over
  any storage, hasher and mailer. A handler returns the reply it writes or the error it
  gives back; a body that does not decode is \<open>None\<close>.
\<close>

section \<open>Configuration\<close>

record email_password =
  ep_disable_sign_up :: bool
  ep_require_verification :: bool
  ep_min_length :: int
  ep_max_length :: int
  ep_disable_auto_sign_in :: bool
  ep_send_reset :: "mailer option"
  ep_reset_url :: string
  ep_reset_ttl :: duration
  ep_keep_on_reset :: bool
  ep_keep_on_change :: bool
  ep_on_reset :: "(user \<Rightarrow> gerror option) option"

record email_verification =
  vf_send :: "mailer option"
  vf_on_sign_up :: bool
  vf_on_sign_in :: bool
  vf_auto_sign_in :: bool
  vf_ttl :: duration
  vf_confirm_page :: bool

record user_config =
  uc_writable :: "string list"
  uc_send_change :: "mailer option"
  uc_send_delete :: "mailer option"
  uc_delete_ttl :: duration
  uc_before_delete :: "user \<Rightarrow> gerror option"

text \<open>The parts of \<open>Auth\<close> the handlers use. \<open>au_redirect\<close> is \<open>safeRedirect\<close>.\<close>

record 's auth =
  au_db :: "'s adapter"
  au_hooks :: db_hooks
  au_schema :: "schema option"
  au_session :: session_config
  au_plugins :: "plugin list"
  au_digest :: "string \<Rightarrow> string"
  au_hasher :: hasher
  au_ep :: email_password
  au_vf :: email_verification
  au_uc :: user_config
  au_unlink_all :: bool
  au_base :: string
  au_redirect :: "string \<Rightarrow> string option"

datatype reply =
    StatusOk
  | Taken
  | SignedUp string user
  | SignedIn session user
  | Redirected string "(string \<times> string) list"
  | PasswordChanged string
  | Updated "user option"
  | Message string
  | ConfirmPage string "(string \<times> string) list"
  | Deleted

definition need_body :: "'b option \<Rightarrow> ('s world, 'b) act" where
  "need_body b = (case b of None \<Rightarrow> fail err_invalid_body | Some x \<Rightarrow> ret x)"

definition require_session :: "session_data result \<Rightarrow> ('s world, session_data) act" where
  "require_session sess = query (\<lambda>_. sess)"

section \<open>Checks\<close>

definition validate_password :: "email_password \<Rightarrow> string \<Rightarrow> gerror option" where
  "validate_password ep pw =
     (if int (length pw) < ep_min_length ep then Some err_password_too_short
      else if int (length pw) > ep_max_length ep then Some err_password_too_long
      else None)"

definition validate_email :: "string \<Rightarrow> gerror option" where
  "validate_email raw =
     (let email = trim_space raw
      in case str_cut_last (CHR ''@'') email of
           None \<Rightarrow> Some err_invalid_email
         | Some (local_part, domain) \<Rightarrow>
             if length email < 3 \<or> length email > 254 \<or> local_part = '''' \<or> domain = '''' then Some err_invalid_email
             else if list_ex (\<lambda>c. c \<in> {CHR '' '', CHR 0x09, CHR 0x0D, CHR 0x0A}) email then Some err_invalid_email
             else if CHR ''.'' \<notin> set domain \<and> domain \<noteq> ''localhost'' then Some err_invalid_email
             else None)"

definition check :: "gerror option \<Rightarrow> ('s world, unit) act" where
  "check e = (case e of None \<Rightarrow> ret () | Some x \<Rightarrow> fail x)"

text \<open>A hook of the application is told of the user; its error is for the caller to use or drop.\<close>

definition call_hook :: "string \<Rightarrow> (user \<Rightarrow> gerror option) \<Rightarrow> user \<Rightarrow> ('s world, unit) act" where
  "call_hook name h u = bind (did (Called name u)) (\<lambda>_. check (h u))"

text \<open>Only the fields the application declared as input, whatever else the body has.\<close>

definition collect_fields :: "string list \<Rightarrow> grec \<Rightarrow> grec" where
  "collect_fields writable raw = filter (\<lambda>(k, _). k \<in> set writable) raw"

section \<open>Verification mail\<close>

definition token_kind_reset :: string where "token_kind_reset = ''reset-password''"
definition token_kind_verify :: string where "token_kind_verify = ''email-verification''"
definition token_kind_change :: string where "token_kind_change = ''change-email''"
definition token_kind_delete :: string where "token_kind_delete = ''delete-account''"

text \<open>A fresh token of a kind, stored and returned.\<close>

definition new_token :: "'s auth \<Rightarrow> req_ctx \<Rightarrow> string \<Rightarrow> string \<Rightarrow> duration \<Rightarrow> ('s world, string) act" where
  "new_token au cx kind val ttl =
     db (store_token (au_db au) (au_digest au) (cx_now cx) (cx_fresh cx (''row:'' @ kind)) (cx_fresh cx (''token:'' @ kind)) kind val ttl)"

definition burn_token_write :: "'s auth \<Rightarrow> req_ctx \<Rightarrow> ('s world, unit) act" where
  "burn_token_write au cx =
     db (dummy_token_write (au_db au) (au_digest au) (cx_now cx) (cx_fresh cx ''row:dummy'') (cx_fresh cx ''token:dummy''))"

definition send_verification_email :: "'s auth \<Rightarrow> req_ctx \<Rightarrow> user \<Rightarrow> string \<Rightarrow> ('s world, unit) act" where
  "send_verification_email au cx u callback =
     (case vf_send (au_vf au) of
        None \<Rightarrow> fail err_verification_disabled
      | Some send \<Rightarrow>
          bind (new_token au cx token_kind_verify (u_id u @ ''|'' @ u_email u) (vf_ttl (au_vf au))) (\<lambda>tok.
          bind (send_mail send \<lparr>ml_kind = token_kind_verify, ml_user = u, ml_to = u_email u,
                  ml_path = au_base au @ ''/verify-email'',
                  ml_query = (''token'', tok) # (if callback \<noteq> '''' then [(''callbackURL'', callback)] else []),
                  ml_token = tok, ml_new_email = ''''\<rparr>) (\<lambda>e.
          case e of Some _ \<Rightarrow> fail err_mail_failed | None \<Rightarrow> ret ())))"

section \<open>Sign-up\<close>

record sign_up_body =
  su_name :: string
  su_email :: string
  su_password :: string
  su_image :: string
  su_callback :: string
  su_remember :: "bool option"
  su_raw :: grec

definition new_user :: "string \<Rightarrow> string \<Rightarrow> string \<Rightarrow> grec \<Rightarrow> user" where
  "new_user name email img extra =
     \<lparr>u_id = '''', u_name = name, u_email = email, u_email_verified = False, u_image = img,
      u_created = zero_time, u_updated = zero_time, u_extra = extra\<rparr>"

definition credential_account :: "string \<Rightarrow> string \<Rightarrow> account" where
  "credential_account uid hash =
     \<lparr>a_id = '''', a_user = uid, a_account = uid, a_provider = ''credential'', a_access_token = '''',
      a_refresh_token = '''', a_id_token = '''', a_access_expires = zero_time, a_refresh_expires = zero_time,
      a_scope = '''', a_password = hash, a_created = zero_time, a_updated = zero_time, a_extra = []\<rparr>"

text \<open>User and account in one transaction; the closure leaves the new user behind.\<close>

definition register_user :: "'s auth \<Rightarrow> req_ctx \<Rightarrow> user \<Rightarrow> string \<Rightarrow> ('s, user) act" where
  "register_user au cx u hash =
     bind (store_transaction (au_db au)
       (bind (create_user (au_db au) (au_hooks au) (cx_now cx) (cx_fresh cx ''user-id'') u) (\<lambda>u'.
        bind (create_account (au_db au) (au_hooks au) (cx_now cx) (cx_fresh cx ''account-id'')
                (credential_account (u_id u') hash)) (\<lambda>_.
        ret (user_to_map u'))))) (\<lambda>r. ret (user_from_map r))"

definition remember_of :: "bool option \<Rightarrow> bool" where
  "remember_of b = (case b of None \<Rightarrow> True | Some r \<Rightarrow> r)"

text \<open>What follows once the rows are written: the event, the mail, the first session.\<close>

definition finish_sign_up :: "'s auth \<Rightarrow> req_ctx \<Rightarrow> sign_up_body \<Rightarrow> user \<Rightarrow> ('s world, reply) act" where
  "finish_sign_up au cx b u =
     bind (emit cx (blank_event\<lparr>ev_type := ''sign_up'', ev_actor := u_id u, ev_email := u_email u,
             ev_method := ''credential''\<rparr>)) (\<lambda>_.
     bind (if vf_on_sign_up (au_vf au) then ignore (send_verification_email au cx u (su_callback b)) else ret ()) (\<lambda>_.
     if \<not> ep_disable_auto_sign_in (au_ep au) \<and> \<not> ep_require_verification (au_ep au)
     then bind (sign_in (au_db au) (au_hooks au) (au_session au) (au_plugins au) cx u (remember_of (su_remember b)))
            (\<lambda>s. case s of None \<Rightarrow> ret Taken | Some sess \<Rightarrow> ret (SignedUp (s_token sess) u))
     else ret (SignedUp '''' u)))"

definition handle_sign_up_email :: "'s auth \<Rightarrow> req_ctx \<Rightarrow> sign_up_body option \<Rightarrow> ('s world, reply) act" where
  "handle_sign_up_email au cx0 body =
     (let cx = cx0\<lparr>cx_auth_method := ''credential''\<rparr> in
      if ep_disable_sign_up (au_ep au) then fail err_sign_up_disabled
      else bind (need_body body) (\<lambda>b.
        bind (check (validate_email (su_email b))) (\<lambda>_.
        bind (check (validate_password (au_ep au) (su_password b))) (\<lambda>_.
        attempt (db (find_user_by_email (au_db au) (su_email b))) (\<lambda>found.
          if is_ok found then fail err_user_exists
          else if found \<noteq> Inl ErrNotFound then (case found of Inl e \<Rightarrow> fail e | Inr _ \<Rightarrow> fail err_user_exists)
          else bind (hash_with (au_hasher au) (cx_fresh cx ''salt'') (su_password b)) (\<lambda>hash.
            attempt (db (register_user au cx (new_user (su_name b) (su_email b) (su_image b)
                           (collect_fields (uc_writable (au_uc au)) (su_raw b))) hash)) (\<lambda>made.
              case made of
                Inl e \<Rightarrow> fail (if is_unique_violation e then err_user_exists else e)
              | Inr u \<Rightarrow> finish_sign_up au cx b u)))))))"

section \<open>Sign-in\<close>

record sign_in_body =
  si_email :: string
  si_password :: string
  si_callback :: string
  si_remember :: "bool option"

definition sign_in_failed :: "req_ctx \<Rightarrow> string \<Rightarrow> string \<Rightarrow> string \<Rightarrow> gerror \<Rightarrow> ('s world, 'a) act" where
  "sign_in_failed cx email uid reason e =
     bind (emit cx (blank_event\<lparr>ev_type := ''sign_in'', ev_outcome := ''failure'', ev_reason := reason,
             ev_actor := uid, ev_email := email, ev_method := cx_auth_method cx\<rparr>)) (\<lambda>_. fail e)"

definition handle_sign_in_email :: "'s auth \<Rightarrow> req_ctx \<Rightarrow> sign_in_body option \<Rightarrow> ('s world, reply) act" where
  "handle_sign_in_email au cx0 body =
     (let cx = cx0\<lparr>cx_auth_method := ''credential''\<rparr>; ep = au_ep au in
      bind (need_body body) (\<lambda>b.
        if si_email b = '''' \<or> si_password b = ''''
        then sign_in_failed cx (si_email b) '''' ''invalid_password'' err_invalid_credentials
        else attempt (db (find_user_by_email (au_db au) (si_email b))) (\<lambda>found. case found of
          Inl e \<Rightarrow>
            if e = ErrNotFound
            then bind (dummy_verify (au_hasher au) (si_password b)) (\<lambda>_.
                 sign_in_failed cx (si_email b) '''' ''unknown_user'' err_invalid_credentials)
            else fail e
        | Inr u \<Rightarrow>
            attempt (db (find_credential_account (au_db au) (u_id u))) (\<lambda>acc. case acc of
              Inl e \<Rightarrow>
                if e = ErrNotFound
                then bind (dummy_verify (au_hasher au) (si_password b)) (\<lambda>_.
                     sign_in_failed cx (si_email b) (u_id u) ''no_credential_account'' err_invalid_credentials)
                else fail e
            | Inr a \<Rightarrow>
                bind (verify_with (au_hasher au) (a_password a) (si_password b)) (\<lambda>ok.
                if \<not> ok
                then sign_in_failed cx (si_email b) (u_id u) ''invalid_password'' err_invalid_credentials
                else if ep_require_verification ep \<and> \<not> u_email_verified u
                then bind (if vf_on_sign_in (au_vf au) \<or> vf_send (au_vf au) \<noteq> None
                           then ignore (send_verification_email au cx u (si_callback b)) else ret ()) (\<lambda>_.
                     sign_in_failed cx (si_email b) (u_id u) ''email_not_verified'' err_email_not_verified)
                else bind (sign_in (au_db au) (au_hooks au) (au_session au) (au_plugins au) cx u (remember_of (si_remember b)))
                       (\<lambda>s. case s of None \<Rightarrow> ret Taken | Some sess \<Rightarrow> ret (SignedIn sess u)))))))"

section \<open>Reset\<close>

record forget_body =
  fo_email :: string
  fo_redirect :: string

definition handle_forget_password :: "'s auth \<Rightarrow> req_ctx \<Rightarrow> forget_body option \<Rightarrow> ('s world, reply) act" where
  "handle_forget_password au cx body =
     bind (need_body body) (\<lambda>b.
     bind (check (validate_email (fo_email b))) (\<lambda>_.
     case ep_send_reset (au_ep au) of
       None \<Rightarrow> ret StatusOk
     | Some send \<Rightarrow>
         attempt (db (find_user_by_email (au_db au) (fo_email b))) (\<lambda>found. case found of
           Inl _ \<Rightarrow> bind (burn_token_write au cx) (\<lambda>_. ret StatusOk)
         | Inr u \<Rightarrow>
             bind (new_token au cx token_kind_reset (u_id u) (ep_reset_ttl (au_ep au))) (\<lambda>tok.
             (let callback = (if fo_redirect b = '''' then ep_reset_url (au_ep au) else fo_redirect b) in
              bind (send_mail send \<lparr>ml_kind = token_kind_reset, ml_user = u, ml_to = u_email u,
                      ml_path = au_base au @ ''/reset-password/'' @ tok,
                      ml_query = (if callback \<noteq> '''' then [(''callbackURL'', callback)] else []),
                      ml_token = tok, ml_new_email = ''''\<rparr>) (\<lambda>e.
              case e of
                Some _ \<Rightarrow> fail err_mail_failed
              | None \<Rightarrow>
                  bind (emit cx (blank_event\<lparr>ev_type := ''password.reset_requested'', ev_actor := u_id u,
                          ev_email := u_email u\<rparr>)) (\<lambda>_. ret StatusOk)))))))"

text \<open>\<open>GET /reset-password/:token\<close>: the link in the mail.\<close>

definition handle_reset_redirect :: "'s auth \<Rightarrow> req_ctx \<Rightarrow> string \<Rightarrow> string \<Rightarrow> ('s world, reply) act" where
  "handle_reset_redirect au cx tok query_callback =
     (let callback = (if query_callback = '''' then ep_reset_url (au_ep au) else query_callback);
          error_page = ret (Redirected (au_base au @ ''/error'') [])
      in if callback = '''' then error_page
         else attempt (db (lookup_token (au_db au) (au_digest au) (cx_now cx) token_kind_reset tok)) (\<lambda>v.
           if \<not> is_ok v then error_page
           else (case au_redirect au callback of
                   Some to \<Rightarrow> ret (Redirected to [(''token'', tok)])
                 | None \<Rightarrow> error_page)))"

record reset_body =
  rs_password :: string
  rs_token :: string

definition store_password :: "'s auth \<Rightarrow> req_ctx \<Rightarrow> string \<Rightarrow> string \<Rightarrow> ('s, unit) act" where
  "store_password au cx uid hash =
     attempt (find_credential_account (au_db au) uid) (\<lambda>acc. case acc of
       Inl e \<Rightarrow>
         if e = ErrNotFound
         then bind (create_account (au_db au) (au_hooks au) (cx_now cx) (cx_fresh cx ''account-id'')
                      (credential_account uid hash)) (\<lambda>_. ret ())
         else fail e
     | Inr a \<Rightarrow> bind (update_account (au_db au) (cx_now cx) (a_id a) [(''password'', VStr hash)]) (\<lambda>_. ret ()))"

definition handle_reset_password :: "'s auth \<Rightarrow> req_ctx \<Rightarrow> string \<Rightarrow> reset_body option \<Rightarrow> ('s world, reply) act" where
  "handle_reset_password au cx query_token body =
     bind (need_body body) (\<lambda>b.
     (let tok = (if rs_token b = '''' then query_token else rs_token b) in
      if tok = '''' then fail err_invalid_token
      else bind (check (validate_password (au_ep au) (rs_password b))) (\<lambda>_.
        attempt (db (consume_token (au_db au) (au_digest au) (cx_now cx) token_kind_reset tok)) (\<lambda>r. case r of
          Inl _ \<Rightarrow> fail err_invalid_token
        | Inr uid \<Rightarrow>
            attempt (db (find_user_by_id (au_db au) uid)) (\<lambda>r. case r of
              Inl _ \<Rightarrow> fail err_invalid_token
            | Inr u \<Rightarrow>
                bind (hash_with (au_hasher au) (cx_fresh cx ''salt'') (rs_password b)) (\<lambda>hash.
                bind (db (store_password au cx uid hash)) (\<lambda>_.
                bind (emit cx (blank_event\<lparr>ev_type := ''password.reset'', ev_actor := u_id u, ev_email := u_email u\<rparr>)) (\<lambda>_.
                bind (if ep_keep_on_reset (au_ep au) then ret ()
                      else attempt (db (delete_user_sessions (au_db au) uid)) (\<lambda>r.
                        emit cx (blank_event\<lparr>ev_type := ''session.revoked'',
                          ev_outcome := (if is_ok r then '''' else ''failure''),
                          ev_actor := u_id u, ev_email := u_email u,
                          ev_action := ''all_sessions_after_password_reset''\<rparr>))) (\<lambda>_.
                bind (case ep_on_reset (au_ep au) of None \<Rightarrow> ret ()
                      | Some h \<Rightarrow> ignore (call_hook ''OnPasswordReset'' h u)) (\<lambda>_.
                ret StatusOk))))))))))"

section \<open>Change and set\<close>

record change_body =
  cp_new :: string
  cp_current :: string
  cp_revoke :: bool

definition session_event :: "session_data \<Rightarrow> event" where
  "session_event sd = blank_event\<lparr>ev_actor := u_id (sd_user sd), ev_email := u_email (sd_user sd),
     ev_session := s_id (sd_session sd)\<rparr>"

text \<open>Drop the other sessions unless they are kept; yields the token the reply shows.\<close>

definition drop_others :: "'s auth \<Rightarrow> req_ctx \<Rightarrow> session_data \<Rightarrow> bool \<Rightarrow> string \<Rightarrow> ('s world, string) act" where
  "drop_others au cx sd asked what =
     (if asked \<or> \<not> ep_keep_on_change (au_ep au)
      then attempt (db (revoke_other_sessions (au_db au) (u_id (sd_user sd)) (s_token (sd_session sd)))) (\<lambda>r.
        bind (emit cx (session_event sd\<lparr>ev_type := ''session.revoked'',
                ev_outcome := (if is_ok r then ''success'' else ''failure''), ev_action := what\<rparr>)) (\<lambda>_.
        ret (s_token (sd_session sd))))
      else ret '''')"

definition handle_change_password ::
  "'s auth \<Rightarrow> req_ctx \<Rightarrow> session_data result \<Rightarrow> change_body option \<Rightarrow> ('s world, reply) act" where
  "handle_change_password au cx sess body =
     bind (require_session sess) (\<lambda>sd.
     bind (need_body body) (\<lambda>b.
     bind (check (validate_password (au_ep au) (cp_new b))) (\<lambda>_.
     attempt (db (find_credential_account (au_db au) (u_id (sd_user sd)))) (\<lambda>acc. case acc of
       Inl _ \<Rightarrow> fail err_no_credential
     | Inr a \<Rightarrow>
         bind (verify_with (au_hasher au) (a_password a) (cp_current b)) (\<lambda>ok.
         if \<not> ok
         then bind (emit cx (session_event sd\<lparr>ev_type := ''password.changed'', ev_outcome := ''failure'',
                      ev_reason := ''invalid_password''\<rparr>)) (\<lambda>_. fail err_invalid_password)
         else bind (hash_with (au_hasher au) (cx_fresh cx ''salt'') (cp_new b)) (\<lambda>hash.
              bind (db (update_account (au_db au) (cx_now cx) (a_id a) [(''password'', VStr hash)])) (\<lambda>_.
              bind (emit cx (session_event sd\<lparr>ev_type := ''password.changed''\<rparr>)) (\<lambda>_.
              bind (drop_others au cx sd (cp_revoke b) ''other_sessions_after_password_change'') (\<lambda>tok.
              ret (PasswordChanged tok))))))))))"

record set_body =
  sp_new :: string
  sp_revoke :: bool

definition err_password_already_set :: gerror where
  "err_password_already_set = ApiError 400 ''PASSWORD_ALREADY_SET''"

definition handle_set_password ::
  "'s auth \<Rightarrow> req_ctx \<Rightarrow> session_data result \<Rightarrow> set_body option \<Rightarrow> ('s world, reply) act" where
  "handle_set_password au cx sess body =
     bind (require_session sess) (\<lambda>sd.
     if \<not> is_fresh (au_session au) (cx_now cx) (sd_session sd)
     then bind (emit cx (session_event sd\<lparr>ev_type := ''password.set'', ev_outcome := ''failure'',
                  ev_reason := ''session_not_fresh''\<rparr>)) (\<lambda>_. fail err_session_not_fresh)
     else bind (need_body body) (\<lambda>b.
          bind (check (validate_password (au_ep au) (sp_new b))) (\<lambda>_.
          attempt (db (find_credential_account (au_db au) (u_id (sd_user sd)))) (\<lambda>acc.
            if is_ok acc then fail err_password_already_set
            else bind (hash_with (au_hasher au) (cx_fresh cx ''salt'') (sp_new b)) (\<lambda>hash.
                 bind (db (create_account (au_db au) (au_hooks au) (cx_now cx) (cx_fresh cx ''account-id'')
                             (credential_account (u_id (sd_user sd)) hash))) (\<lambda>_.
                 bind (emit cx (session_event sd\<lparr>ev_type := ''password.set''\<rparr>)) (\<lambda>_.
                 bind (drop_others au cx sd (sp_revoke b) ''other_sessions_after_password_set'') (\<lambda>tok.
                 ret (PasswordChanged tok)))))))))"

section \<open>For plugins\<close>

definition create_credential_account :: "'s auth \<Rightarrow> req_ctx \<Rightarrow> string \<Rightarrow> string \<Rightarrow> ('s, unit) act" where
  "create_credential_account au cx uid hash =
     bind (create_account (au_db au) (au_hooks au) (cx_now cx) (cx_fresh cx ''account-id'') (credential_account uid hash))
       (\<lambda>_. ret ())"

definition set_credential_password :: "'s auth \<Rightarrow> req_ctx \<Rightarrow> string \<Rightarrow> string \<Rightarrow> ('s, unit) act" where
  "set_credential_password au cx uid hash =
     attempt (find_credential_account (au_db au) uid) (\<lambda>acc. case acc of
       Inl e \<Rightarrow> if e = ErrNotFound then create_credential_account au cx uid hash else fail e
     | Inr a \<Rightarrow> bind (update_account (au_db au) (cx_now cx) (a_id a) [(''password'', VStr hash)]) (\<lambda>_. ret ()))"

lemma store_password_is: "store_password au cx uid hash = set_credential_password au cx uid hash"
  unfolding store_password_def set_credential_password_def create_credential_account_def by (rule refl)

section \<open>Simulation\<close>

lemma sim_small [sim_intros]:
  "sim (wmap \<alpha>) (winv I) (need_body b) (need_body b)"
  "sim (wmap \<alpha>) (winv I) (require_session sess) (require_session sess)"
  "sim (wmap \<alpha>) (winv I) (check e) (check e)"
  "sim (wmap \<alpha>) (winv I) (sign_in_failed cx email uid reason x) (sign_in_failed cx email uid reason x)"
  "sim (wmap \<alpha>) (winv I) (call_hook name h u) (call_hook name h u)"
  unfolding need_body_def require_session_def call_hook_def check_def sign_in_failed_def
  by (auto intro!: sim_intros split: option.splits)

text \<open>The same handlers over the reference store.\<close>

definition on_spec :: "'s auth \<Rightarrow> sdb auth" where
  "on_spec au = \<lparr>au_db = spec_adapter, au_hooks = au_hooks au, au_schema = au_schema au, au_session = au_session au,
     au_plugins = au_plugins au, au_digest = au_digest au, au_hasher = au_hasher au, au_ep = au_ep au, au_vf = au_vf au,
     au_uc = au_uc au, au_unlink_all = au_unlink_all au, au_base = au_base au, au_redirect = au_redirect au\<rparr>"

lemma on_spec_sel [simp]:
  "au_db (on_spec au) = spec_adapter" "au_hooks (on_spec au) = au_hooks au" "au_schema (on_spec au) = au_schema au"
  "au_session (on_spec au) = au_session au" "au_plugins (on_spec au) = au_plugins au" "au_digest (on_spec au) = au_digest au"
  "au_hasher (on_spec au) = au_hasher au" "au_ep (on_spec au) = au_ep au" "au_vf (on_spec au) = au_vf au"
  "au_uc (on_spec au) = au_uc au" "au_unlink_all (on_spec au) = au_unlink_all au" "au_base (on_spec au) = au_base au"
  "au_redirect (on_spec au) = au_redirect au"
  by (simp_all add: on_spec_def)

context storage_contract
begin

lemma token_effect_sims:
  assumes db: "au_db au = A"
  shows "sim (wmap \<alpha>) (winv I) (new_token au cx kind val ttl) (new_token (on_spec au) cx kind val ttl)"
    and "sim (wmap \<alpha>) (winv I) (burn_token_write au cx) (burn_token_write (on_spec au) cx)"
  unfolding new_token_def burn_token_write_def db by (auto intro!: sim_intros token_sims)

lemma send_verification_sim:
  assumes db: "au_db au = A"
  shows "sim (wmap \<alpha>) (winv I) (send_verification_email au cx u cb) (send_verification_email (on_spec au) cx u cb)"
  unfolding send_verification_email_def by (auto intro!: sim_intros token_effect_sims[OF db] split: option.splits)

lemma store_password_sim:
  assumes db: "au_db au = A" and "hooks_ok (au_hooks au)"
  shows "sim \<alpha> I (store_password au cx uid hash) (store_password (on_spec au) cx uid hash)"
  using assms(2) unfolding store_password_def db by (auto intro!: sim_intros store_sims simp: credential_account_def ghas_def)

lemma drop_others_sim:
  assumes db: "au_db au = A"
  shows "sim (wmap \<alpha>) (winv I) (drop_others au cx sd asked what) (drop_others (on_spec au) cx sd asked what)"
  unfolding drop_others_def db by (auto intro!: sim_intros session_sims)

lemma register_user_sim:
  assumes db: "au_db au = A" and "hooks_ok (au_hooks au)" and "\<not> ghas (u_extra u) ''id''"
  shows "sim \<alpha> I (register_user au cx u hash) (register_user (on_spec au) cx u hash)"
  using assms(2,3) unfolding register_user_def db on_spec_sel
  by (intro sim_intros transaction_sims store_sims) (auto simp: credential_account_def ghas_def)

lemma finish_sign_up_sim:
  assumes db: "au_db au = A" and "hooks_ok (au_hooks au)"
  shows "sim (wmap \<alpha>) (winv I) (finish_sign_up au cx b u) (finish_sign_up (on_spec au) cx b u)"
  using assms(2) unfolding finish_sign_up_def db
  by (auto intro!: sim_intros send_verification_sim[OF db] effect_sims)

lemma handle_sign_up_email_sim:
  assumes db: "au_db au = A" and "hooks_ok (au_hooks au)" and "''id'' \<notin> set (uc_writable (au_uc au))"
  shows "sim (wmap \<alpha>) (winv I) (handle_sign_up_email au cx b) (handle_sign_up_email (on_spec au) cx b)"
proof -
  have "\<not> ghas (u_extra (new_user n e i (collect_fields (uc_writable (au_uc au)) raw))) ''id''" for n e i raw
    using assms(3) by (induction raw) (auto simp: new_user_def collect_fields_def ghas_def)
  then show ?thesis
    unfolding handle_sign_up_email_def Let_def db
    by (auto intro!: sim_intros store_sims register_user_sim[OF assms(1,2)] finish_sign_up_sim[OF assms(1,2)])
qed

lemma handle_sign_in_email_sim:
  assumes db: "au_db au = A" and "hooks_ok (au_hooks au)"
  shows "sim (wmap \<alpha>) (winv I) (handle_sign_in_email au cx b) (handle_sign_in_email (on_spec au) cx b)"
  using assms(2) unfolding handle_sign_in_email_def Let_def db
  by (auto intro!: sim_intros store_sims send_verification_sim[OF db] effect_sims)

lemma handle_reset_password_sim:
  assumes db: "au_db au = A" and "hooks_ok (au_hooks au)"
  shows "sim (wmap \<alpha>) (winv I) (handle_reset_password au cx q b) (handle_reset_password (on_spec au) cx q b)"
  unfolding handle_reset_password_def Let_def db
  by (auto intro!: sim_intros store_sims token_sims store_password_sim[OF assms])

lemma handle_change_password_sim:
  assumes db: "au_db au = A"
  shows "sim (wmap \<alpha>) (winv I) (handle_change_password au cx sess b) (handle_change_password (on_spec au) cx sess b)"
  unfolding handle_change_password_def db
  by (auto intro!: sim_intros store_sims drop_others_sim[OF db] simp: ghas_def)

end

end
