(* ===== verification/Account_Facts.thy ===== *)
theory Account_Facts
  imports Credentials Storage_Facts
begin

text \<open>
  How the steps of a handler run, and accounts on the reference store: what a successful
  lookup, write or update did.
\<close>

section \<open>Lookups\<close>

text \<open>A lookup leaves the store as it is, whatever the adapter answers.\<close>

lemma find_user_by_email_run: "find_user_by_email A e s = (s, snd (find_user_by_email A e s))"
  by (simp add: find_user_by_email_def bind_query split: sum.splits)

lemma find_user_by_id_run: "find_user_by_id A i s = (s, snd (find_user_by_id A i s))"
  by (simp add: find_user_by_id_def bind_query split: sum.splits)

lemma find_credential_run: "find_credential_account A i s = (s, snd (find_credential_account A i s))"
  by (simp add: find_credential_account_def bind_query split: sum.splits)

abbreviation user_with :: "'s auth \<Rightarrow> string \<Rightarrow> 's world \<Rightarrow> user result" where
  "user_with au e w \<equiv> snd (find_user_by_email (au_db au) e (w_db w))"

abbreviation user_named :: "'s auth \<Rightarrow> string \<Rightarrow> 's world \<Rightarrow> user result" where
  "user_named au i w \<equiv> snd (find_user_by_id (au_db au) i (w_db w))"

abbreviation credential_of :: "'s auth \<Rightarrow> string \<Rightarrow> 's world \<Rightarrow> account result" where
  "credential_of au i w \<equiv> snd (find_credential_account (au_db au) i (w_db w))"

lemma attempt_lookup [simp]:
  "attempt (db (find_user_by_email (au_db au) e)) k w = k (user_with au e w) w"
  "attempt (db (find_user_by_id (au_db au) i)) k w = k (user_named au i w) w"
  "attempt (db (find_credential_account (au_db au) i)) k' w = k' (credential_of au i w) w"
  unfolding attempt_db
  by (subst find_user_by_email_run find_user_by_id_run find_credential_run, simp)+

lemma bind_small [simp]:
  "bind (need_body (Some b)) k w = k b w"
  "bind (require_session (Inr sd)) k1 w = k1 sd w"
  "bind (check None) k2 w = k2 () w"
  "bind (verify_with h stored pw) k3 w =
     (case hs_verify h stored pw of Inl e \<Rightarrow> (w\<lparr>w_log := w_log w @ [Derived]\<rparr>, Inl e)
      | Inr v \<Rightarrow> k3 v (w\<lparr>w_log := w_log w @ [Derived]\<rparr>))"
  "bind (hash_with h salt pw) k4 w =
     (case hs_hash h salt pw of Inl e \<Rightarrow> (w\<lparr>w_log := w_log w @ [Derived]\<rparr>, Inl e)
      | Inr v \<Rightarrow> k4 v (w\<lparr>w_log := w_log w @ [Derived]\<rparr>))"
  "bind (dummy_verify h pw) k5 w = k5 () (w\<lparr>w_log := w_log w @ [Derived]\<rparr>)"
  by (simp_all add: need_body_def require_session_def check_def verify_with_def hash_with_def dummy_verify_def bind_def
      ignore_def attempt_def split: sum.splits)

lemma call_hook_db [simp]: "w_db (fst (call_hook name h u w)) = w_db w"
  by (simp add: call_hook_def check_def split: option.splits)

lemma world_log_twice [simp]: "w\<lparr>w_log := xs\<rparr>\<lparr>w_log := ys\<rparr> = w\<lparr>w_log := ys\<rparr>" by simp

section \<open>Account rows\<close>

abbreviation arows :: "sdb \<Rightarrow> grec list" where "arows d \<equiv> sd_rows d model_account"

definition is_credential :: "string \<Rightarrow> grec \<Rightarrow> bool" where
  "is_credential uid r \<longleftrightarrow> with_str ''userId'' uid r \<and> with_str ''providerId'' ''credential'' r"

lemma check_account:
  "set (map w_field ws) \<subseteq> set account_keys \<Longrightarrow> check_where_fields (Some account_table) ws = None"
  by (auto simp: check_where_fields_def unknown_keys_def filter_empty_conv subset_iff)

lemma find_credential_spec:
  assumes "sd_table d model_account = Some account_table"
  shows "find_credential_account spec_adapter uid d =
    (d, case find (is_credential uid) (arows d) of None \<Rightarrow> Inl ErrNotFound | Some r \<Rightarrow> Inr (account_from_map r))"
proof -
  have "check_where_fields (Some account_table) [W ''userId'' (VStr uid), W ''providerId'' (VStr ''credential'')] = None"
    by (rule check_account) (simp add: account_keys_def W_def)
  moreover have "(\<lambda>r. matches r [W ''userId'' (VStr uid), W ''providerId'' (VStr ''credential'')]) = is_credential uid"
    by (rule ext) (simp add: is_credential_def with_str_def)
  ultimately show ?thesis
    using assms by (simp add: find_credential_account_def bind_query spec_find_one_def split: option.splits)
qed

lemma update_account_ok:
  assumes "sd_table d model_account = Some account_table"
    and "update_account spec_adapter now i upd d = (d', Inr a)"
  shows "\<exists>row. find (with_str ''id'' i) (arows d) = Some row \<and>
    d' = set_rows model_account (map_first (with_str ''id'' i) (\<lambda>r. gmerge r (gput upd ''updatedAt'' (VTime now))) (arows d)) d"
proof -
  have "check_where_fields (Some account_table) [W ''id'' (VStr i)] = None"
    by (rule check_account) (simp add: account_keys_def W_def)
  moreover have "(\<lambda>r. matches r [W ''id'' (VStr i)]) = with_str ''id'' i" by (rule ext) (simp add: with_str_def)
  ultimately show ?thesis
    using assms by (auto simp: update_account_def bind_def spec_update_def split: option.splits if_splits)
qed

lemma create_account_ok:
  assumes "sd_table d model_account = Some account_table" and "a_extra a = []"
    and "create_account spec_adapter no_hooks now gen a d = (d', Inr a')"
  shows "\<exists>a1. a1 = a\<lparr>a_id := (if a_id a = '''' then gen else a_id a), a_created := now, a_updated := now\<rparr> \<and>
    d' = set_rows model_account (arows d @ [account_to_map a1]) d"
proof -
  have "apply_defaults account_table r = r" for r
    by (simp add: apply_defaults_def account_table_def col_def)
  then show ?thesis
    using assms by (auto simp: create_account_def no_hooks_def run_hook_def bind_def spec_create_def Let_def
        split: option.splits if_splits)
qed

lemma find_first: "find P xs = Some x \<Longrightarrow> \<exists>ys zs. xs = ys @ x # zs \<and> P x \<and> (\<forall>y\<in>set ys. \<not> P y)"
proof (induction xs)
  case (Cons y ys)
  show ?case
  proof (cases "P y")
    case True
    then show ?thesis using Cons.prems by (intro exI[of _ "[]"] exI[of _ ys]) simp
  next
    case False
    then obtain as bs where "ys = as @ x # bs \<and> P x \<and> (\<forall>z\<in>set as. \<not> P z)" using Cons by auto
    then show ?thesis using False by (intro exI[of _ "y # as"] exI[of _ bs]) simp
  qed
qed simp

lemma map_first_at: "\<forall>y\<in>set ys. \<not> P y \<Longrightarrow> P x \<Longrightarrow> map_first P f (ys @ x # zs) = ys @ f x # zs"
  by (induction ys) auto

text \<open>Storing a password replaces or adds the user's one, and touches nobody else's.\<close>

lemma store_password_ok:
  assumes db: "au_db au = spec_adapter" "au_hooks au = no_hooks" and core: "core_db d"
    and ok: "store_password au cx uid hash d = (d', Inr ())"
  shows "(\<forall>m. m \<noteq> model_account \<longrightarrow> sd_rows d' m = sd_rows d m)
    \<and> filter (\<lambda>r. \<not> with_str ''userId'' uid r) (arows d') = filter (\<lambda>r. \<not> with_str ''userId'' uid r) (arows d)
    \<and> (\<exists>a. snd (find_credential_account spec_adapter uid d') = Inr a \<and> a_password a = hash)"
proof -
  have t: "sd_table d model_account = Some account_table" using core by (simp add: core_db_def)
  note fc = find_credential_spec[OF t, of uid]
  show ?thesis
  proof (cases "find (is_credential uid) (arows d)")
    case None
    then obtain a' where c: "create_account spec_adapter no_hooks (cx_now cx) (cx_fresh cx ''account-id'')
        (credential_account uid hash) d = (d', Inr a')"
      using ok db fc by (auto simp: store_password_def attempt_def bind_def split: prod.splits sum.splits)
    obtain a1 where c1: "a1 = (credential_account uid hash)
        \<lparr>a_id := cx_fresh cx ''account-id'', a_created := cx_now cx, a_updated := cx_now cx\<rparr>"
      and d': "d' = set_rows model_account (arows d @ [account_to_map a1]) d"
      using create_account_ok[OF t _ c] by (auto simp: credential_account_def)
    have a1: "a_user a1 = uid" "a_provider a1 = ''credential''" "a_password a1 = hash" "a_extra a1 = []"
      by (simp_all add: c1 credential_account_def)
    have row: "with_str ''userId'' uid (account_to_map a1)" "is_credential uid (account_to_map a1)"
      "a_password (account_from_map (account_to_map a1)) = hash"
      using a1 by (simp_all add: account_to_map_def is_credential_def with_str_def rget_def account_from_map_def)
    have "find (is_credential uid) (arows d') = Some (account_to_map a1)"
      using None row(2) by (simp add: d' find_None_iff find_split)
    moreover have "sd_table d' model_account = Some account_table" using t by (simp add: d')
    ultimately show ?thesis using row by (simp add: d' find_credential_spec)
  next
    case (Some row)
    from find_first[OF Some] obtain ys zs where split: "arows d = ys @ row # zs"
      and cred: "is_credential uid row" and before: "\<forall>y\<in>set ys. \<not> is_credential uid y" by blast
    have inv: "sdb_inv d" using core by (simp add: core_db_def)
    then obtain i where i: "rget row ''id'' = VStr i"
      using sdb_invD[of d model_account] split by (auto simp: rows_ok_def has_str_id_def rget_def)
    let ?f = "\<lambda>r. gmerge r (gput [(''password'', VStr hash)] ''updatedAt'' (VTime (cx_now cx)))"
    obtain a' where "update_account spec_adapter (cx_now cx) (a_id (account_from_map row)) [(''password'', VStr hash)] d = (d', Inr a')"
      using ok db fc Some by (auto simp: store_password_def attempt_def bind_def split: prod.splits sum.splits)
    moreover have "a_id (account_from_map row) = i" using i by (simp add: account_from_map_def)
    ultimately have d': "d' = set_rows model_account (map_first (with_str ''id'' i) ?f (arows d)) d"
      using update_account_ok[OF t] by metis
    have "\<forall>y\<in>set ys. \<not> with_str ''id'' i y"
      using same_id_same_row[OF inv, of _ model_account row] before cred i by (auto simp: split with_str_def)
    then have rows: "arows d' = ys @ ?f row # zs" using i by (simp add: d' split map_first_at with_str_def)
    have keep: "rget (?f row) f = rget row f" if "f \<notin> {''password'', ''updatedAt''}" for f
      using that by (simp add: rget_def map_add_def)
    have new: "is_credential uid (?f row)" "with_str ''userId'' uid (?f row)" "with_str ''userId'' uid row"
      using cred keep by (auto simp: is_credential_def with_str_def)
    have "a_password (account_from_map (?f row)) = hash"
      by (simp add: account_from_map_def rget_def map_add_def)
    moreover have "find (is_credential uid) (arows d') = Some (?f row)"
      unfolding rows by (rule find_split[OF new(1) before])
    moreover have "sd_table d' model_account = Some account_table" using t by (simp add: d')
    ultimately show ?thesis using new(2,3) by (simp add: find_credential_spec rows split) (simp add: d')
  qed
qed

end
