(* ===== verification/Demo.thy ===== *)
theory Demo
  imports Account_Facts
begin

text \<open>
  A small installation on which the properties of the account handlers are tried out:
  an in-memory store filled row by row, a hasher that marks what it hashed, and the
  configuration of a new server. Runs are evaluated on the reference store and carried
  over by the simulation.
\<close>

definition seed_in :: "schema \<Rightarrow> (string \<times> grec) list \<Rightarrow> mem" where
  "seed_in sc rows = fold (\<lambda>(m, r) s. fst (mem_create m r s)) rows (mem_start sc)"

definition spec_seed_in :: "schema \<Rightarrow> (string \<times> grec) list \<Rightarrow> sdb" where
  "spec_seed_in sc rows = fold (\<lambda>(m, r) d. fst (spec_create m r d)) rows (sdb_start sc)"

definition seed :: "(string \<times> grec) list \<Rightarrow> mem" where "seed = seed_in core_schema"
definition spec_seed :: "(string \<times> grec) list \<Rightarrow> sdb" where "spec_seed = spec_seed_in core_schema"

lemma fold_seed:
  assumes "list_all (\<lambda>(m, r). has_str_id r) rows" and "mem_inv S s"
  shows "mem_inv S (fold (\<lambda>(m, r) s. fst (mem_create m r s)) rows s)
    \<and> mem_abs (fold (\<lambda>(m, r) s. fst (mem_create m r s)) rows s) = fold (\<lambda>(m, r) d. fst (spec_create m r d)) rows (mem_abs s)"
  using assms
proof (induction rows arbitrary: s)
  case (Cons p rows)
  obtain m r where p: "p = (m, r)" by force
  with Cons.prems(1) have id: "has_str_id r" by simp
  from simD[OF mem_create_sim[OF id] Cons.prems(2) surjective_pairing]
  have 1: "mem_inv S (fst (mem_create m r s))" "fst (spec_create m r (mem_abs s)) = mem_abs (fst (mem_create m r s))" by auto
  show ?case using Cons.IH[OF _ 1(1)] Cons.prems(1) 1(2) by (simp add: p)
qed simp

lemma seed_in_abs:
  assumes "wf_schema sc" and "list_all (\<lambda>(m, r). has_str_id r) rows"
  shows "mem_inv (Some sc) (seed_in sc rows)" and "mem_abs (seed_in sc rows) = spec_seed_in sc rows"
  using fold_seed[OF assms(2) mem_start_inv[OF assms(1)]]
  by (simp_all add: seed_in_def spec_seed_in_def sdb_start_def mem_abs_start)

lemma seed_abs:
  assumes "list_all (\<lambda>(m, r). has_str_id r) rows"
  shows "mem_inv (Some core_schema) (seed rows)" and "mem_abs (seed rows) = spec_seed rows"
  using seed_in_abs[OF wf_core_schema assms] by (simp_all add: seed_def spec_seed_def)

definition demo_account :: account where
  "demo_account = (credential_account ''u1'' ''h:secret99'')\<lparr>a_id := ''a1''\<rparr>"

definition demo_verification :: verification where
  "demo_verification = \<lparr>v_id = ''v1'', v_identifier = ''reset-password:r1'', v_value = ''u1'', v_expires = 1000,
     v_created = 0, v_updated = 0\<rparr>"

definition demo_rows :: "(string \<times> grec) list" where
  "demo_rows = [(model_user, user_to_map demo_user_row), (model_account, account_to_map demo_account),
     (model_session, session_to_map (demo_session 0 1000)),
     (model_session, session_to_map (demo_session 0 1000\<lparr>s_id := ''s2'', s_token := ''tok2''\<rparr>)),
     (model_verification, verification_to_map demo_verification)]"

definition demo_hasher :: hasher where
  "demo_hasher = \<lparr>hs_dummy = True, hs_hash = (\<lambda>salt pw. Inr (''h:'' @ pw)), hs_verify = (\<lambda>stored pw. Inr (stored = ''h:'' @ pw))\<rparr>"

definition demo_ep :: email_password where
  "demo_ep = \<lparr>ep_disable_sign_up = False, ep_require_verification = True, ep_min_length = 8, ep_max_length = 128,
     ep_disable_auto_sign_in = False, ep_send_reset = None, ep_reset_url = '''', ep_reset_ttl = 100,
     ep_keep_on_reset = False, ep_keep_on_change = False, ep_on_reset = None\<rparr>"

definition demo_vf :: email_verification where
  "demo_vf = \<lparr>vf_send = None, vf_on_sign_up = False, vf_on_sign_in = False, vf_auto_sign_in = False, vf_ttl = 100,
     vf_confirm_page = True\<rparr>"

definition demo_uc :: user_config where
  "demo_uc = \<lparr>uc_writable = [], uc_send_change = None, uc_send_delete = None, uc_delete_ttl = 100,
     uc_before_delete = (\<lambda>_. None)\<rparr>"

definition demo_auth :: "'s adapter \<Rightarrow> 's auth" where
  "demo_auth A = \<lparr>au_db = A, au_hooks = no_hooks, au_schema = Some core_schema, au_session = demo_cfg, au_plugins = [],
     au_digest = (\<lambda>x. x), au_hasher = demo_hasher, au_ep = demo_ep, au_vf = demo_vf, au_uc = demo_uc,
     au_unlink_all = False, au_base = '''', au_redirect = Some\<rparr>"

definition demo_cx :: req_ctx where
  "demo_cx = \<lparr>cx_now = 5, cx_ip = ''1.2.3.4'', cx_agent = ''test'', cx_verb = ''POST'', cx_route = '''', cx_auth_method = '''',
     cx_fresh = (\<lambda>x. ''new '' @ x)\<rparr>"

text \<open>A world over a filled store, and the same over the reference store.\<close>

definition seeded_in :: "schema \<Rightarrow> (string \<times> grec) list \<Rightarrow> mem world" where "seeded_in sc rows = \<lparr>w_db = seed_in sc rows, w_log = []\<rparr>"
definition spec_seeded_in :: "schema \<Rightarrow> (string \<times> grec) list \<Rightarrow> sdb world" where
  "spec_seeded_in sc rows = \<lparr>w_db = spec_seed_in sc rows, w_log = []\<rparr>"

definition seeded :: "(string \<times> grec) list \<Rightarrow> mem world" where "seeded rows = \<lparr>w_db = seed rows, w_log = []\<rparr>"
definition spec_seeded :: "(string \<times> grec) list \<Rightarrow> sdb world" where "spec_seeded rows = \<lparr>w_db = spec_seed rows, w_log = []\<rparr>"

definition str_id :: "grec \<Rightarrow> bool" where
  "str_id r = (case map_of r ''id'' of Some (VStr _) \<Rightarrow> True | _ \<Rightarrow> False)"

lemma str_id_iff: "str_id r \<longleftrightarrow> has_str_id r"
  by (auto simp: str_id_def has_str_id_def split: option.splits gval.splits)

definition rows_with_ids :: "(string \<times> grec) list \<Rightarrow> bool" where
  "rows_with_ids rows = list_all (\<lambda>(m, r). str_id r) rows"

lemma rows_with_ids_iff: "rows_with_ids rows \<longleftrightarrow> list_all (\<lambda>(m, r). has_str_id r) rows"
  by (simp add: rows_with_ids_def str_id_iff)

lemma seeded_in_facts:
  assumes "wf_schema sc" and "rows_with_ids rows"
  shows "mem_inv (Some sc) (w_db (seeded_in sc rows))" and "mem_abs (w_db (seeded_in sc rows)) = w_db (spec_seeded_in sc rows)"
    and "wmap mem_abs (seeded_in sc rows) = spec_seeded_in sc rows" and "winv (mem_inv (Some sc)) (seeded_in sc rows)"
    and "mem_rows (w_db (seeded_in sc rows)) = sd_rows (w_db (spec_seeded_in sc rows))"
  using seed_in_abs[OF assms(1) assms(2)[unfolded rows_with_ids_iff]]
  by (simp_all add: seeded_in_def spec_seeded_in_def wmap_def winv_def) (metis mem_abs_sel(1))

text \<open>A run on the in-memory store ends in what the same run on the reference store ends in.\<close>

lemma seeded_in_run:
  assumes "wf_schema sc" and "rows_with_ids rows" and "sim (wmap mem_abs) (winv (mem_inv (Some sc))) f g"
    and "snd (g (spec_seeded_in sc rows)) = r"
  shows "\<exists>w'. f (seeded_in sc rows) = (w', r) \<and> mem_rows (w_db w') = sd_rows (w_db (fst (g (spec_seeded_in sc rows))))
    \<and> mem_inv (Some sc) (w_db w')"
proof -
  note facts = seeded_in_facts[OF assms(1,2)]
  obtain w' r' where f: "f (seeded_in sc rows) = (w', r')" by (meson surj_pair)
  from simD[OF assms(3) facts(4) f]
  have "winv (mem_inv (Some sc)) w'" "g (spec_seeded_in sc rows) = (wmap mem_abs w', r')"
    by (auto simp: facts(3))
  moreover have "mem_rows (w_db w') = sd_rows (w_db (wmap mem_abs w'))" by simp
  ultimately show ?thesis using f assms(4) by (simp add: winv_def)
qed

lemma seeded_core: "seeded rows = seeded_in core_schema rows" "spec_seeded rows = spec_seeded_in core_schema rows"
  by (simp_all add: seeded_def spec_seeded_def seeded_in_def spec_seeded_in_def seed_def spec_seed_def)

lemmas seeded_facts = seeded_in_facts[OF wf_core_schema, folded seeded_core]
lemmas seeded_run = seeded_in_run[OF wf_core_schema, folded seeded_core]

definition demo_world :: "mem world" where "demo_world = seeded demo_rows"
definition demo_spec_world :: "sdb world" where "demo_spec_world = spec_seeded demo_rows"

lemma demo_ids: "rows_with_ids demo_rows" by code_simp

lemma demo_world_facts [simp]: "mem_inv (Some core_schema) (w_db demo_world)" "wmap mem_abs demo_world = demo_spec_world"
  "winv (mem_inv (Some core_schema)) demo_world"
  using seeded_facts[OF demo_ids] by (simp_all add: demo_world_def demo_spec_world_def)

lemma demo_abs: "mem_abs (w_db demo_world) = w_db demo_spec_world"
  using seeded_facts(2)[OF demo_ids] by (simp add: demo_world_def demo_spec_world_def)

lemma demo_lookup:
  "mem_rows (w_db demo_world) = sd_rows (w_db demo_spec_world)"
  "snd (find_user_by_email mem_adapter e (w_db demo_world)) = snd (find_user_by_email spec_adapter e (w_db demo_spec_world))"
  unfolding demo_abs[symmetric] using sim_run[OF mem.find_sims(2) demo_world_facts(1), of e] by simp_all

lemma demo_run:
  assumes "sim (wmap mem_abs) (winv (mem_inv (Some core_schema))) f g" and "snd (g demo_spec_world) = r"
  shows "\<exists>w'. f demo_world = (w', r)"
  using seeded_run[OF demo_ids assms(1) assms(2)[unfolded demo_spec_world_def]] by (auto simp: demo_world_def)

lemma demo_auth_sel [simp]:
  "au_db (demo_auth A) = A" "au_hooks (demo_auth A) = no_hooks" "au_ep (demo_auth A) = demo_ep" "au_uc (demo_auth A) = demo_uc"
  "au_hasher (demo_auth A) = demo_hasher" "au_plugins (demo_auth A) = []" "au_schema (demo_auth A) = Some core_schema"
  "on_spec (demo_auth A) = demo_auth spec_adapter"
  by (simp_all add: demo_auth_def on_spec_def)

end
