(* ===== verification/Frames.thy ===== *)
theory Frames
  imports Effects Storage_Facts
begin

text \<open>
  What an action leaves alone. An action moves along a relation on states if it relates
  every state to the one it ends in; for a preorder this is closed under everything the
  handlers are built of. The relations used are: no row outside some models changes,
  on the reference store and on worlds over it.
\<close>

definition moves :: "('s \<Rightarrow> 's \<Rightarrow> bool) \<Rightarrow> ('s, 'a) act \<Rightarrow> bool" where
  "moves R f \<longleftrightarrow> (\<forall>s. R s (fst (f s)))"

lemma movesD: "moves R f \<Longrightarrow> f s = (s', r) \<Longrightarrow> R s s'"
  by (metis fst_conv moves_def)

named_theorems frame_intros \<open>rules that build frame properties\<close>

locale step_order =
  fixes R :: "'s \<Rightarrow> 's \<Rightarrow> bool"
  assumes reflexive: "R s s" and transitive: "R s t \<Longrightarrow> R t u \<Longrightarrow> R s u"
begin

lemma basic: "moves R (ret v)" "moves R (fail e)" "moves R (query q)"
  by (simp_all add: moves_def reflexive)

lemma bind_rule: "moves R f \<Longrightarrow> (\<And>x. moves R (k x)) \<Longrightarrow> moves R (bind f k)"
  by (auto simp: moves_def bind_def split: prod.splits sum.splits) (metis fst_conv transitive)+

lemma attempt_rule: "moves R f \<Longrightarrow> (\<And>x. moves R (k x)) \<Longrightarrow> moves R (attempt f k)"
  by (auto simp: moves_def attempt_def split: prod.splits) (metis fst_conv transitive)

lemma if_rule: "(b \<Longrightarrow> moves R f) \<Longrightarrow> (\<not> b \<Longrightarrow> moves R g) \<Longrightarrow> moves R (if b then f else g)"
  by simp

lemma result_rule: "(\<And>e. r = Inl e \<Longrightarrow> moves R (F e)) \<Longrightarrow> (\<And>v. r = Inr v \<Longrightarrow> moves R (G v)) \<Longrightarrow>
    moves R (case r of Inl e \<Rightarrow> F e | Inr v \<Rightarrow> G v)"
  by (cases r) auto

lemma option_rule: "(r = None \<Longrightarrow> moves R F) \<Longrightarrow> (\<And>v. r = Some v \<Longrightarrow> moves R (G v)) \<Longrightarrow>
    moves R (case r of None \<Rightarrow> F | Some v \<Rightarrow> G v)"
  by (cases r) auto

lemma for_each_rule: "(\<And>x. moves R (F x)) \<Longrightarrow> moves R (for_each F xs)"
  by (induction xs) (auto intro: basic bind_rule)

lemmas rules = basic bind_rule attempt_rule if_rule result_rule option_rule for_each_rule

end

section \<open>Rows of other models\<close>

definition same_rows :: "string set \<Rightarrow> sdb \<Rightarrow> sdb \<Rightarrow> bool" where
  "same_rows M d d' \<longleftrightarrow> (\<forall>m. m \<notin> M \<longrightarrow> sd_rows d' m = sd_rows d m)"

interpretation frame: step_order "same_rows M" for M
  by unfold_locales (auto simp: same_rows_def)

abbreviation only :: "string set \<Rightarrow> (sdb, 'a) act \<Rightarrow> bool" where "only M f \<equiv> moves (same_rows M) f"

declare frame.rules [frame_intros]

lemma only_mono: "only M f \<Longrightarrow> M \<subseteq> N \<Longrightarrow> only N f"
  by (auto simp: moves_def same_rows_def)

lemma only_spec [frame_intros]:
  "m \<in> M \<Longrightarrow> only M (spec_create m data)" "m \<in> M \<Longrightarrow> only M (spec_update m ws u)"
  "m \<in> M \<Longrightarrow> only M (spec_update_many m ws u)" "m \<in> M \<Longrightarrow> only M (spec_delete m ws)"
  "m \<in> M \<Longrightarrow> only M (spec_delete_many m ws)"
  by (auto simp: moves_def same_rows_def spec_create_def spec_update_def spec_update_many_def spec_delete_def
      spec_delete_many_def Let_def split: option.splits)

lemma only_transaction [frame_intros]: "only M f \<Longrightarrow> only M (spec_transaction f)"
  by (auto simp: moves_def same_rows_def spec_transaction_def split: prod.splits sum.splits) (metis fst_conv)

lemma only_hook [frame_intros]: "only M (run_hook h r)"
  by (simp add: run_hook_def moves_def same_rows_def split: option.splits)

lemma only_create_user [frame_intros]: "model_user \<in> M \<Longrightarrow> only M (create_user spec_adapter H now gen u)"
  unfolding create_user_def Let_def by (auto intro!: frame_intros)

lemma only_create_session [frame_intros]: "model_session \<in> M \<Longrightarrow> only M (create_session spec_adapter H now gi gt s)"
  unfolding create_session_def Let_def by (auto intro!: frame_intros)

lemma only_create_account [frame_intros]: "model_account \<in> M \<Longrightarrow> only M (create_account spec_adapter H now gen a)"
  unfolding create_account_def Let_def by (auto intro!: frame_intros)

lemma only_finds [frame_intros]:
  "only M (find_user_by_id spec_adapter i)" "only M (find_user_by_email spec_adapter e)"
  "only M (find_session_by_token spec_adapter tok)" "only M (find_session_by_id spec_adapter i)"
  "only M (list_user_sessions spec_adapter i)" "only M (list_user_accounts spec_adapter i)"
  "only M (find_account spec_adapter pid aid)" "only M (find_credential_account spec_adapter i)"
  unfolding find_user_by_id_def find_user_by_email_def find_session_by_token_def find_session_by_id_def
    list_user_sessions_def list_user_accounts_def find_account_def find_credential_account_def
  by (auto intro!: frame_intros)

lemma only_updates [frame_intros]:
  "model_user \<in> M \<Longrightarrow> only M (update_user spec_adapter H now i upd)"
  "model_session \<in> M \<Longrightarrow> only M (update_session spec_adapter now tok upd)"
  "model_account \<in> M \<Longrightarrow> only M (update_account spec_adapter now i upd)"
  unfolding update_user_def update_session_def update_account_def by (auto intro!: frame_intros)

lemma only_deletes [frame_intros]:
  "model_session \<in> M \<Longrightarrow> only M (delete_session_by_token spec_adapter tok)"
  "model_session \<in> M \<Longrightarrow> only M (delete_session_by_id spec_adapter i)"
  "model_session \<in> M \<Longrightarrow> only M (delete_user_sessions spec_adapter i)"
  "model_account \<in> M \<Longrightarrow> only M (delete_account spec_adapter i)"
  "model_verification \<in> M \<Longrightarrow> only M (delete_verification spec_adapter i)"
  "model_verification \<in> M \<Longrightarrow> only M (delete_verifications_by_identifier spec_adapter ident)"
  unfolding delete_session_by_token_def delete_session_by_id_def delete_user_sessions_def delete_account_def
    delete_verification_def delete_verifications_by_identifier_def
  by (auto intro!: frame_intros)

lemma only_verifications [frame_intros]:
  "model_verification \<in> M \<Longrightarrow> only M (create_verification spec_adapter now gen ident val ttl)"
  "model_verification \<in> M \<Longrightarrow> only M (find_verification spec_adapter now ident)"
  unfolding create_verification_def find_verification_def Let_def by (auto intro!: frame_intros)

lemma only_tokens [frame_intros]:
  "model_verification \<in> M \<Longrightarrow> only M (store_token spec_adapter hash now gi gt kind val ttl)"
  "model_verification \<in> M \<Longrightarrow> only M (store_token_value spec_adapter hash now gi kind tok val ttl)"
  "model_verification \<in> M \<Longrightarrow> only M (dummy_token_write spec_adapter hash now gi gt)"
  "model_verification \<in> M \<Longrightarrow> only M (lookup_token spec_adapter hash now kind tok)"
  "model_verification \<in> M \<Longrightarrow> only M (claim_token spec_adapter v)"
  "model_verification \<in> M \<Longrightarrow> only M (consume_token spec_adapter hash now kind tok)"
  unfolding store_token_def store_token_value_def dummy_token_write_def lookup_token_def claim_token_def consume_token_def
  by (auto intro!: frame_intros)

lemma only_sessions [frame_intros]:
  "model_session \<in> M \<Longrightarrow> only M (create_session_with spec_adapter H cfg now gi gt cl u extra dur)"
  "model_session \<in> M \<Longrightarrow> only M (sign_in_user spec_adapter H cfg ps now gi gt cl u)"
  "model_session \<in> M \<Longrightarrow> only M (revoke_other_sessions spec_adapter uid keep)"
  "model_session \<in> M \<Longrightarrow> only M (get_session_from_token spec_adapter cfg ps now tok)"
  unfolding create_session_with_def sign_in_user_def revoke_other_sessions_def get_session_from_token_def
    slide_session_def Let_def
  by (auto intro!: frame_intros split: bool.splits)

section \<open>Worlds\<close>

definition same_world_rows :: "string set \<Rightarrow> sdb world \<Rightarrow> sdb world \<Rightarrow> bool" where
  "same_world_rows M w w' = same_rows M (w_db w) (w_db w')"

interpretation wframe: step_order "same_world_rows M" for M
  by unfold_locales (auto simp: same_world_rows_def same_rows_def)

abbreviation wonly :: "string set \<Rightarrow> (sdb world, 'a) act \<Rightarrow> bool" where "wonly M f \<equiv> moves (same_world_rows M) f"

declare wframe.rules [frame_intros]

lemma wonly_db [frame_intros]: "only M f \<Longrightarrow> wonly M (db f)"
  by (auto simp: moves_def same_world_rows_def)

lemma wonly_effects [frame_intros]:
  "wonly M (did x)" "wonly M (emit cx e)" "wonly M (send_mail send m)" "wonly M (hash_with h salt pw)"
  "wonly M (verify_with h stored pw)" "wonly M (dummy_verify h pw)"
  unfolding emit_def send_mail_def hash_with_def verify_with_def dummy_verify_def ignore_def
  by (auto intro!: frame_intros simp: moves_def same_world_rows_def same_rows_def bind_def attempt_def)

lemma wonly_sessions [frame_intros]:
  "model_session \<in> M \<Longrightarrow> wonly M (issue_session spec_adapter H cfg cx u rem extra dur)"
  "model_session \<in> M \<Longrightarrow> wonly M (sign_in spec_adapter H cfg ps cx u rem)"
  unfolding issue_session_def sign_in_def by (auto intro!: frame_intros split: bool.splits)

end
