(* ===== verification/Row_Steps.thy ===== *)
theory Row_Steps
  imports Frames Account_Facts
begin

text \<open>
  Where the rows of a model can come from. Every row after an action was there before or
  has a property \<open>Q\<close>: another preorder on states, so the rules of \<open>step_order\<close> apply. Also
  what a successful update of a user or use of a token does to the rows.
\<close>

definition new_rows :: "string \<Rightarrow> (grec \<Rightarrow> bool) \<Rightarrow> sdb \<Rightarrow> sdb \<Rightarrow> bool" where
  "new_rows m Q d d' \<longleftrightarrow> (\<forall>r\<in>set (sd_rows d' m). r \<in> set (sd_rows d m) \<or> Q r)"

interpretation rstep: step_order "new_rows m Q" for m Q
  by unfold_locales (auto simp: new_rows_def)

declare rstep.rules [frame_intros]

lemma set_remove_first: "set (remove_first P xs) \<subseteq> set xs"
  by (induction xs) auto

lemma new_rows_spec [frame_intros]:
  "moves (new_rows m Q) (spec_delete m' ws)" "moves (new_rows m Q) (spec_delete_many m' ws)"
  using set_remove_first
  by (auto simp: moves_def new_rows_def spec_delete_def spec_delete_many_def Let_def split: option.splits dest!: subsetD[OF set_remove_first])

lemma new_rows_other [frame_intros]:
  "m' \<noteq> m \<Longrightarrow> moves (new_rows m Q) (spec_create m' data)" "m' \<noteq> m \<Longrightarrow> moves (new_rows m Q) (spec_update m' ws u)"
  "m' \<noteq> m \<Longrightarrow> moves (new_rows m Q) (spec_update_many m' ws u)"
  by (auto simp: moves_def new_rows_def spec_create_def spec_update_def spec_update_many_def Let_def split: option.splits)

lemma only_new_rows: "only M f \<Longrightarrow> m \<notin> M \<Longrightarrow> moves (new_rows m Q) f"
  by (auto simp: moves_def same_rows_def new_rows_def)

lemma new_rows_tokens [frame_intros]:
  "moves (new_rows m Q) (lookup_token spec_adapter hash now kind tok)"
  "moves (new_rows m Q) (consume_token spec_adapter hash now kind tok)"
  unfolding consume_token_def lookup_token_def claim_token_def find_verification_def delete_verification_def
    delete_verifications_by_identifier_def
  by (auto intro!: frame_intros)

section \<open>Updates\<close>

lemma check_user_where:
  "set (map w_field ws) \<subseteq> set user_keys \<Longrightarrow> check_where_fields (Some user_table) ws = None"
proof -
  assume keys: "set (map w_field ws) \<subseteq> set user_keys"
  have "has_field user_table f" if "f \<in> set user_keys" for f using that by (auto simp: user_table_simps user_keys_def)
  then show ?thesis using keys by (auto simp: check_where_fields_def unknown_keys_def filter_empty_conv subset_iff)
qed

lemma update_user_ok:
  assumes "sd_table d model_user = Some user_table"
    and "update_user spec_adapter no_hooks now i upd d = (d', Inr u)"
  shows "\<exists>row. find (with_str ''id'' i) (urows d) = Some row \<and>
    u = user_from_map (gmerge row (gput upd ''updatedAt'' (VTime now))) \<and>
    d' = set_rows model_user (map_first (with_str ''id'' i) (\<lambda>r. gmerge r (gput upd ''updatedAt'' (VTime now))) (urows d)) d"
proof -
  have "check_where_fields (Some user_table) [W ''id'' (VStr i)] = None"
    by (rule check_user_where) (simp add: user_keys_def W_def)
  moreover have "(\<lambda>r. matches r [W ''id'' (VStr i)]) = with_str ''id'' i" by (rule ext) (simp add: with_str_def)
  ultimately show ?thesis
    using assms by (auto simp: update_user_def no_hooks_def run_hook_def bind_def spec_update_def split: option.splits if_splits)
qed

lemma spec_update_error: "spec_update m ws u d = (d', Inl e) \<Longrightarrow> d' = d"
  by (auto simp: spec_update_def Let_def split: option.splits if_splits)

lemma update_user_error: "update_user spec_adapter no_hooks now i upd d = (d', Inl e) \<Longrightarrow> d' = d"
  by (auto simp: update_user_def no_hooks_def run_hook_def bind_def dest: spec_update_error split: prod.splits sum.splits)

text \<open>A successful update makes one new row of the user's, and changes no other row.\<close>

lemma update_user_rows:
  assumes "sd_table d model_user = Some user_table"
    and "update_user spec_adapter no_hooks now i upd d = (d', Inr u)"
  shows "same_rows {model_user} d d'"
    and "row' \<in> set (urows d') \<Longrightarrow> row' \<in> set (urows d) \<or>
      (\<exists>row\<in>set (urows d). with_str ''id'' i row \<and> row' = gmerge row (gput upd ''updatedAt'' (VTime now)))"
  using update_user_ok[OF assms] by (auto simp: same_rows_def dest!: set_map_first)

lemma user_found:
  assumes "sd_table d model_user = Some user_table" and "find_user_by_id spec_adapter i d = (d', Inr u)"
  shows "\<exists>row\<in>set (urows d). with_str ''id'' i row \<and> u = user_from_map row \<and> u_id u = i"
proof -
  have "check_where_fields (Some user_table) [W ''id'' (VStr i)] = None"
    by (rule check_user_where) (simp add: user_keys_def W_def)
  moreover have "(\<lambda>r. matches r [W ''id'' (VStr i)]) = with_str ''id'' i" by (rule ext) (simp add: with_str_def)
  ultimately obtain row where "find (with_str ''id'' i) (urows d) = Some row" "u = user_from_map row"
    using assms by (auto simp: find_user_by_id_def bind_query spec_find_one_def split: option.splits)
  moreover from this(1) have "row \<in> set (urows d)" "with_str ''id'' i row" by (auto dest: find_in)
  ultimately show ?thesis by (auto simp: user_from_map_def with_str_def)
qed

lemma user_row_unique:
  assumes "core_db d" "row \<in> set (urows d)" "row' \<in> set (urows d)" "with_str ''id'' i row" "with_str ''id'' i row'"
  shows "row' = row"
  using same_id_same_row[of d row' model_user row] assms by (auto simp: core_db_def with_str_def)

section \<open>Tokens and mails\<close>

lemma core_db_keep: "core_db d \<Longrightarrow> sim id (spec_inv_of (sd_schema d)) f f \<Longrightarrow> f d = (d', r) \<Longrightarrow> core_db d'"
  using simD[of id "spec_inv_of (sd_schema d)" f f d d' r] sd_table_set_rows2[of d' d]
  by (auto simp: core_db_def spec_inv_of_def core_store_def)

lemma verification_row_id:
  assumes "core_db d" and "row \<in> set (vrows d)"
  shows "with_id (v_id (verification_from_map row)) row"
  using sdb_invD[of d model_verification] assms
  by (auto simp: core_db_def rows_ok_def has_str_id_def with_id_iff verification_from_map_def rget_def)

lemma consume_ok:
  assumes "core_store d" and "consume_token spec_adapter digest now kind tok d = (d', Inr val)"
  shows "\<exists>row\<in>set (vrows d). with_identifier (token_identifier digest kind tok) row
    \<and> v_expires (verification_from_map row) > now \<and> v_value (verification_from_map row) = val
    \<and> d' = set_rows model_verification (filter (\<lambda>r. \<not> with_id (v_id (verification_from_map row)) r) (vrows d)) d"
proof -
  obtain v d1 where f: "find_verification spec_adapter now (token_identifier digest kind tok) d = (d1, Inr v)"
    and c: "claim_token spec_adapter v d1 = (d', Inr val)"
    using assms(2) by (auto simp: consume_token_def lookup_token_def bind_def split: if_splits prod.splits sum.splits)
  from find_verification_found[OF assms(1) f] c show ?thesis
    by (auto simp: claim_token_spec[OF assms(1)] split: if_splits)
qed

lemma wonly_mail [frame_intros]:
  assumes db: "au_db au = spec_adapter" and "model_verification \<in> M"
  shows "wonly M (send_verification_email au cx u cb)" "wonly M (new_token au cx kind val ttl)" "wonly M (burn_token_write au cx)"
  using assms(2) unfolding send_verification_email_def new_token_def burn_token_write_def db
  by (auto intro!: frame_intros split: option.splits)

lemma wonly_ignoring [frame_intros]: "wonly M f \<Longrightarrow> wonly M (ignore f)"
  unfolding ignore_def by (intro frame_intros)

section \<open>What was done\<close>

text \<open>Every effect of an action was in the log before or has a property.\<close>

definition new_effects :: "(effect \<Rightarrow> bool) \<Rightarrow> 's world \<Rightarrow> 's world \<Rightarrow> bool" where
  "new_effects Q w w' \<longleftrightarrow> (\<forall>x\<in>set (w_log w'). x \<in> set (w_log w) \<or> Q x)"

interpretation estep: step_order "new_effects Q" for Q
  by unfold_locales (auto simp: new_effects_def)

declare estep.rules [frame_intros]

lemma new_effects_steps [frame_intros]:
  "moves (new_effects Q) (db f)" "Q x \<Longrightarrow> moves (new_effects Q) (did x)"
  "Q (Emitted (fill_event cx e)) \<Longrightarrow> moves (new_effects Q) (emit cx e)"
  "Q Derived \<Longrightarrow> moves (new_effects Q) (verify_with h stored pw)"
  "Q (Mailed m) \<Longrightarrow> moves (new_effects Q) (send_mail send m)"
  "moves (new_effects Q) (new_token au cx kind val ttl)"
  by (auto simp: moves_def new_effects_def emit_def verify_with_def send_mail_def bind_def did_def db_def new_token_def
      split: prod.splits sum.splits)

end
