(* ===== verification/Credential_Laws.thy ===== *)
theory Credential_Laws
  imports Demo Row_Steps
begin

text \<open>What signing in, resetting and changing a password guarantee.\<close>

section \<open>Signing in\<close>

lemma sign_in_failed_run:
  "\<exists>x. sign_in_failed cx email uid reason e w = (w\<lparr>w_log := w_log w @ [Emitted x]\<rparr>, Inl e) \<and>
    ev_type x = ''sign_in'' \<and> ev_outcome x = ''failure'' \<and> ev_email x = email \<and> ev_session x = '''' \<and> ev_reason x = reason"
  unfolding sign_in_failed_def bind_emit fail_def
  by (intro exI conjI, rule refl) (simp_all add: fill_event_def blank_event_def)

lemma sign_in_failed_never [simp]: "sign_in_failed cx email uid reason e w \<noteq> (w', Inr r)"
  by (simp add: sign_in_failed_def)

lemma sign_in_run:
  assumes "sign_in A H cfg ps cx u rem w = (w', Inr r)"
  shows "(r = None \<and> run_sign_in_guards ps u = Inr True \<and> w_db w' = w_db w)
    \<or> (\<exists>s e1 e2. r = Some s \<and> run_sign_in_guards ps u = Inr False
        \<and> create_session_with A H cfg (cx_now cx) (cx_fresh cx ''session-id'') (cx_fresh cx ''session-token'')
            (cx_ip cx, cx_agent cx) u [] (expires_in cfg) (w_db w) = (w_db w', Inr s)
        \<and> w_log w' = w_log w @ [SessionCookie (s_token s) rem, Emitted e1, Emitted e2]
        \<and> ev_type e1 = ''session.created'' \<and> ev_type e2 = ''sign_in'' \<and> ev_outcome e2 = ''success''
        \<and> ev_session e1 = s_id s \<and> ev_session e2 = s_id s \<and> ev_actor e2 = u_id u)"
  using assms
  by (cases "create_session_with A H cfg (cx_now cx) (cx_fresh cx ''session-id'') (cx_fresh cx ''session-token'')
        (cx_ip cx, cx_agent cx) u [] (expires_in cfg) (w_db w)")
    (auto simp: sign_in_def issue_session_def bind_db bind_def fill_event_def blank_event_def
      split: sum.splits bool.splits prod.splits)

text \<open>The three ways in which the credentials themselves are wrong.\<close>

definition credentials_wrong :: "'s auth \<Rightarrow> sign_in_body \<Rightarrow> 's world \<Rightarrow> bool" where
  "credentials_wrong au b w \<longleftrightarrow>
     user_with au (si_email b) w = Inl ErrNotFound \<or>
     (\<exists>u. user_with au (si_email b) w = Inr u \<and>
        (credential_of au (u_id u) w = Inl ErrNotFound \<or>
         (\<exists>a. credential_of au (u_id u) w = Inr a \<and> hs_verify (au_hasher au) (a_password a) (si_password b) = Inr False)))"

text \<open>
  C20: over any storage and any hasher, an unknown address, an address without a password
  and a wrong password cannot be told apart: the same answer, the same store, exactly one
  password derivation, no cookie and no mail. The audit trail gets one failed sign-in
  with the address that was tried.
\<close>

theorem sign_in_no_enumeration:
  assumes "si_email b \<noteq> ''''" and "si_password b \<noteq> ''''" and "credentials_wrong au b w"
  shows "\<exists>e. handle_sign_in_email au cx (Some b) w =
      (w\<lparr>w_log := w_log w @ [Derived, Emitted e]\<rparr>, Inl err_invalid_credentials)
    \<and> ev_type e = ''sign_in'' \<and> ev_outcome e = ''failure'' \<and> ev_email e = si_email b \<and> ev_session e = ''''"
  using assms unfolding credentials_wrong_def
  by (auto simp: handle_sign_in_email_def sign_in_failed_def fill_event_def blank_event_def Let_def)

lemma sign_in_no_enumeration_witness:
  "\<exists>e. handle_sign_in_email (demo_auth mem_adapter) demo_cx (Some \<lparr>si_email = ''nobody@example.com'', si_password = ''x'',
      si_callback = '''', si_remember = None\<rparr>) demo_world
    = (demo_world\<lparr>w_log := w_log demo_world @ [Derived, Emitted e]\<rparr>, Inl err_invalid_credentials) \<and> ev_session e = ''''"
proof -
  let ?b = "\<lparr>si_email = ''nobody@example.com'', si_password = ''x'', si_callback = '''', si_remember = None\<rparr>"
  have "snd (find_user_by_email spec_adapter ''nobody@example.com'' (w_db demo_spec_world)) = Inl ErrNotFound" by code_simp
  then have "user_with (demo_auth mem_adapter) (si_email ?b) demo_world = Inl ErrNotFound"
    by (simp add: demo_lookup)
  then have "credentials_wrong (demo_auth mem_adapter) ?b demo_world" unfolding credentials_wrong_def by (rule disjI1)
  from sign_in_no_enumeration[OF _ _ this] show ?thesis by auto
qed

text \<open>A storage that gives back the columns it was given, whatever it adds to them.\<close>

definition keeps_given :: "'s adapter \<Rightarrow> bool" where
  "keeps_given A \<longleftrightarrow> (\<forall>m r s s' out f. ad_create A m r s = (s', Inr out) \<longrightarrow> ghas r f \<longrightarrow> rget out f = rget r f)"

lemma defaults_keep: "ghas r f \<Longrightarrow> rget (apply_defaults t r) f = rget r f"
  by (auto simp: ghas_def rget_def apply_defaults_keep)

lemma adapters_keep_given: "keeps_given mem_adapter" "keeps_given spec_adapter"
  unfolding keeps_given_def mem_adapter_def spec_adapter_sel
  by (auto simp: mem_create_def spec_create_def Let_def defaults_keep split: option.splits if_splits)

lemma created_session_owner:
  assumes "create_session_with A no_hooks cfg now gi gt client u [] dur d = (d', Inr s)" and "keeps_given A"
  shows "s_user s = u_id u \<and> s_expires s = time_add now (if dur \<le> 0 then expires_in cfg else dur)"
proof -
  define r where "r = session_to_map \<lparr>s_id = gi, s_user = u_id u, s_token = gt,
     s_expires = time_add now (if dur \<le> 0 then expires_in cfg else dur), s_ip = fst client, s_agent = snd client,
     s_created = now, s_updated = now, s_extra = []\<rparr>"
  from assms(1) obtain out where c: "ad_create A model_session r d = (d', Inr out)" and s: "s = session_from_map out"
    unfolding create_session_with_def create_session_def Let_def no_hooks_def run_hook_def bind_def
    by (auto simp: r_def split: prod.splits sum.splits)
  have r: "rget r ''userId'' = VStr (u_id u)" "rget r ''expiresAt'' = VTime (time_add now (if dur \<le> 0 then expires_in cfg else dur))"
    "ghas r ''userId''" "ghas r ''expiresAt''" by (simp_all add: r_def session_to_map_def rget_def ghas_def)
  have "rget out ''userId'' = rget r ''userId''" "rget out ''expiresAt'' = rget r ''expiresAt''"
    using assms(2) c r(3,4) unfolding keeps_given_def by blast+
  then show ?thesis using r(1,2) s by (simp add: session_from_map_def)
qed

text \<open>
  C21: over any storage and any hasher, a password sign-in succeeds only for the user found
  under the address, whose stored hash verifies the password, with a verified address
  where that is required, and with the consent of every guard. A session that results was created in the
  store for that user, with the lifetime of the configuration, and is the only change to the store; over a storage
  that gives back the columns it is given, and without hooks of the application, it names that user and
  ends when that lifetime is over. Its cookie is the only one, and the audit trail ends with the session and the
  sign-in, under the session's id; if a guard took over there is no session at all.
\<close>

theorem sign_in_sound:
  assumes "handle_sign_in_email au cx (Some b) w = (w', Inr rep)"
  shows "\<exists>u a. user_with au (si_email b) w = Inr u \<and> credential_of au (u_id u) w = Inr a
    \<and> hs_verify (au_hasher au) (a_password a) (si_password b) = Inr True
    \<and> (ep_require_verification (au_ep au) \<longrightarrow> u_email_verified u)
    \<and> (rep = Taken \<and> run_sign_in_guards (au_plugins au) u = Inr True \<and> w_db w' = w_db w
       \<or> (\<exists>s e1 e2. rep = SignedIn s u \<and> run_sign_in_guards (au_plugins au) u = Inr False
           \<and> create_session_with (au_db au) (au_hooks au) (au_session au) (cx_now cx) (cx_fresh cx ''session-id'')
               (cx_fresh cx ''session-token'') (cx_ip cx, cx_agent cx) u [] (expires_in (au_session au)) (w_db w) = (w_db w', Inr s)
           \<and> (au_hooks au = no_hooks \<and> keeps_given (au_db au) \<longrightarrow>
               s_user s = u_id u \<and> s_expires s = time_add (cx_now cx) (expires_in (au_session au)))
           \<and> w_log w' = w_log w @ [Derived, SessionCookie (s_token s) (remember_of (si_remember b)), Emitted e1, Emitted e2]
           \<and> ev_type e1 = ''session.created'' \<and> ev_type e2 = ''sign_in'' \<and> ev_outcome e2 = ''success''
           \<and> ev_session e1 = s_id s \<and> ev_session e2 = s_id s \<and> ev_actor e2 = u_id u))"
proof -
  let ?cx = "cx\<lparr>cx_auth_method := ''credential''\<rparr>" and ?w = "w\<lparr>w_log := w_log w @ [Derived]\<rparr>"
  from assms obtain u a r where found: "user_with au (si_email b) w = Inr u" "credential_of au (u_id u) w = Inr a"
    "hs_verify (au_hasher au) (a_password a) (si_password b) = Inr True"
    "ep_require_verification (au_ep au) \<longrightarrow> u_email_verified u"
    and sg: "sign_in (au_db au) (au_hooks au) (au_session au) (au_plugins au) ?cx u (remember_of (si_remember b)) ?w = (w', Inr r)"
    and rep: "rep = (case r of None \<Rightarrow> Taken | Some s \<Rightarrow> SignedIn s u)"
    by (auto simp: handle_sign_in_email_def Let_def bind_def[of "sign_in _ _ _ _ _ _ _"]
        split: if_splits sum.splits option.splits prod.splits)
  note owner = created_session_owner[of "au_db au" "au_session au" "cx_now cx" "cx_fresh cx ''session-id''"
      "cx_fresh cx ''session-token''" "(cx_ip cx, cx_agent cx)" u "expires_in (au_session au)" "w_db w" "w_db w'"]
  from sign_in_run[OF sg] show ?thesis using found owner unfolding rep by auto
qed

lemma sign_in_sound_witness:
  "\<exists>w' s u. handle_sign_in_email (demo_auth mem_adapter) demo_cx (Some \<lparr>si_email = ''Ann@Example.com'', si_password = ''secret99'',
      si_callback = '''', si_remember = None\<rparr>) demo_world = (w', Inr (SignedIn s u)) \<and> s_user s = ''u1''"
proof -
  let ?b = "\<lparr>si_email = ''Ann@Example.com'', si_password = ''secret99'', si_callback = '''', si_remember = None\<rparr>"
  have sim: "sim (wmap mem_abs) (winv (mem_inv (Some core_schema))) (handle_sign_in_email (demo_auth mem_adapter) demo_cx (Some ?b))
      (handle_sign_in_email (demo_auth spec_adapter) demo_cx (Some ?b))"
    using mem.handle_sign_in_email_sim[of "demo_auth mem_adapter"] by simp
  have "is_ok (snd (handle_sign_in_email (demo_auth spec_adapter) demo_cx (Some ?b) demo_spec_world))" by code_simp
  then obtain rep where "snd (handle_sign_in_email (demo_auth spec_adapter) demo_cx (Some ?b) demo_spec_world) = Inr rep"
    by (auto simp: is_ok_iff)
  from demo_run[OF sim this] obtain w' where run: "handle_sign_in_email (demo_auth mem_adapter) demo_cx (Some ?b) demo_world = (w', Inr rep)" ..
  have "snd (find_user_by_email spec_adapter ''Ann@Example.com'' (w_db demo_spec_world)) = Inr demo_user_row" by code_simp
  then have "user_with (demo_auth mem_adapter) (si_email ?b) demo_world = Inr demo_user_row"
    by (simp add: demo_lookup)
  with sign_in_sound[OF run] have "\<exists>s u. rep = SignedIn s u \<and> s_user s = ''u1''"
    using adapters_keep_given(1) by (auto simp: demo_user_row_def)
  then show ?thesis using run by blast
qed

section \<open>Resetting a password\<close>

lemma reset_steps:
  assumes "handle_reset_password au cx q (Some b) w = (w', Inr rep)"
  shows "\<exists>uid u hash d1 d2. consume_token (au_db au) (au_digest au) (cx_now cx) token_kind_reset
        (if rs_token b = '''' then q else rs_token b) (w_db w) = (d1, Inr uid)
    \<and> snd (find_user_by_id (au_db au) uid d1) = Inr u
    \<and> hs_hash (au_hasher au) (cx_fresh cx ''salt'') (rs_password b) = Inr hash
    \<and> store_password au cx uid hash d1 = (d2, Inr ())
    \<and> w_db w' = (if ep_keep_on_reset (au_ep au) then d2 else fst (delete_user_sessions (au_db au) uid d2))"
  using assms
  by (auto simp: handle_reset_password_def Let_def attempt_db[of "consume_token _ _ _ _ _"]
      attempt_db[of "delete_user_sessions _ _"] bind_def[of "attempt _ _"] bind_db check_def split: if_splits sum.splits option.splits prod.splits)

lemma on_spec_same: "au_db au = spec_adapter \<Longrightarrow> on_spec au = au"
  by (cases au) (simp add: on_spec_def)

lemma reset_spec:
  assumes db: "au_db au = spec_adapter" "au_hooks au = no_hooks" and core: "core_db (w_db w)"
    and run: "handle_reset_password au cx q (Some b) w = (w', Inr rep)"
  shows "\<exists>row uid hash d2. row \<in> set (vrows (w_db w))
    \<and> with_identifier (token_identifier (au_digest au) token_kind_reset (if rs_token b = '''' then q else rs_token b)) row
    \<and> v_expires (verification_from_map row) > cx_now cx \<and> v_value (verification_from_map row) = uid
    \<and> hs_hash (au_hasher au) (cx_fresh cx ''salt'') (rs_password b) = Inr hash \<and> core_db d2
    \<and> row \<notin> set (vrows d2) \<and> (\<forall>m. m \<notin> {model_verification, model_account} \<longrightarrow> sd_rows d2 m = sd_rows (w_db w) m)
    \<and> filter (\<lambda>r. \<not> with_str ''userId'' uid r) (arows d2) = filter (\<lambda>r. \<not> with_str ''userId'' uid r) (arows (w_db w))
    \<and> (\<exists>a. snd (find_credential_account spec_adapter uid d2) = Inr a \<and> a_password a = hash)
    \<and> w_db w' = (if ep_keep_on_reset (au_ep au) then d2
        else set_rows model_session (filter (\<lambda>r. \<not> with_str ''userId'' uid r) (srows d2)) d2)"
proof -
  let ?tok = "if rs_token b = '''' then q else rs_token b" and ?d = "w_db w"
  from reset_steps[OF run] db obtain uid hash d1 d2 where
    c: "consume_token spec_adapter (au_digest au) (cx_now cx) token_kind_reset ?tok ?d = (d1, Inr uid)"
    and h: "hs_hash (au_hasher au) (cx_fresh cx ''salt'') (rs_password b) = Inr hash"
    and st: "store_password au cx uid hash d1 = (d2, Inr ())"
    and d': "w_db w' = (if ep_keep_on_reset (au_ep au) then d2 else fst (delete_user_sessions spec_adapter uid d2))" by auto
  from consume_ok[OF _ c] core obtain row where row: "row \<in> set (vrows ?d)"
    "with_identifier (token_identifier (au_digest au) token_kind_reset ?tok) row"
    "v_expires (verification_from_map row) > cx_now cx" "v_value (verification_from_map row) = uid"
    and d1: "d1 = set_rows model_verification (filter (\<lambda>r. \<not> with_id (v_id (verification_from_map row)) r) (vrows ?d)) ?d"
    by (auto simp: core_db_def)
  have core1: "core_db d1"
    by (rule core_db_keep[OF core, where f = "consume_token spec_adapter (au_digest au) (cx_now cx) token_kind_reset ?tok"])
      (rule spec.token_sims, rule c)
  have own: "with_id (v_id (verification_from_map row)) row" by (rule verification_row_id[OF core row(1)])
  note pw = store_password_ok[OF db core1 st]
  have "sim id (spec_inv_of S) (store_password au cx uid hash) (store_password au cx uid hash)" for S
    using spec.store_password_sim[of au S cx uid hash] db on_spec_same[OF db(1)] by simp
  then have core2: "core_db d2" by (rule core_db_keep[OF core1, where f = "store_password au cx uid hash"]) (rule st)
  then have "sd_table d2 model_session = Some session_table" by (simp add: core_db_def)
  then have "w_db w' = (if ep_keep_on_reset (au_ep au) then d2
      else set_rows model_session (filter (\<lambda>r. \<not> with_str ''userId'' uid r) (srows d2)) d2)"
    using spec_delete_many_eq[of d2 model_session session_table "''userId''" uid] by (simp add: d' delete_user_sessions_def bind_def)
  then show ?thesis
    using row h core2 pw own by (intro exI[of _ row] exI[of _ uid] exI[of _ hash] exI[of _ d2]) (simp add: d1 model_names)
qed

text \<open>
  C22: a reset on the in-memory store succeeds only with a token of its kind that has not
  expired, which is gone afterwards. The user the token was issued to then has the new
  password's hash and no session at all, and no user row, and no account of anyone
  else, has changed.
\<close>

theorem reset_password_effect:
  assumes "has_core_tables sc" and "mem_inv (Some sc) (w_db w)"
    and "au_db au = mem_adapter" and "au_hooks au = no_hooks" and "\<not> ep_keep_on_reset (au_ep au)"
    and "handle_reset_password au cx q (Some b) w = (w', Inr rep)"
  shows "\<exists>row uid hash a. row \<in> set (mem_rows (w_db w) model_verification)
    \<and> with_identifier (token_identifier (au_digest au) token_kind_reset (if rs_token b = '''' then q else rs_token b)) row
    \<and> v_expires (verification_from_map row) > cx_now cx \<and> v_value (verification_from_map row) = uid
    \<and> row \<notin> set (mem_rows (w_db w') model_verification)
    \<and> hs_hash (au_hasher au) (cx_fresh cx ''salt'') (rs_password b) = Inr hash
    \<and> snd (find_credential_account mem_adapter uid (w_db w')) = Inr a \<and> a_password a = hash
    \<and> mem_rows (w_db w') model_session = filter (\<lambda>r. \<not> with_str ''userId'' uid r) (mem_rows (w_db w) model_session)
    \<and> mem_rows (w_db w') model_user = mem_rows (w_db w) model_user
    \<and> filter (\<lambda>r. \<not> with_str ''userId'' uid r) (mem_rows (w_db w') model_account)
       = filter (\<lambda>r. \<not> with_str ''userId'' uid r) (mem_rows (w_db w) model_account)"
proof -
  let ?d = "mem_abs (w_db w)"
  have core: "core_db ?d" using core_db_mem assms(1,2) by blast
  have "winv (mem_inv (Some sc)) w" using assms(2) by (simp add: winv_def)
  from simD[OF mem.handle_reset_password_sim[OF assms(3)] this assms(6)] assms(4)
  have inv': "mem_inv (Some sc) (w_db w')"
    and run: "handle_reset_password (on_spec au) cx q (Some b) (wmap mem_abs w) = (wmap mem_abs w', Inr rep)"
    by (auto simp: winv_def)
  from reset_spec[OF _ _ _ run] core assms(4,5) obtain row uid hash d2 a where r: "row \<in> set (vrows ?d)"
    "with_identifier (token_identifier (au_digest au) token_kind_reset (if rs_token b = '''' then q else rs_token b)) row"
    "v_expires (verification_from_map row) > cx_now cx" "v_value (verification_from_map row) = uid"
    "hs_hash (au_hasher au) (cx_fresh cx ''salt'') (rs_password b) = Inr hash" "core_db d2" "row \<notin> set (vrows d2)"
    and others: "\<forall>m. m \<notin> {model_verification, model_account} \<longrightarrow> sd_rows d2 m = sd_rows ?d m"
    "filter (\<lambda>r. \<not> with_str ''userId'' uid r) (arows d2) = filter (\<lambda>r. \<not> with_str ''userId'' uid r) (arows ?d)"
    and a: "snd (find_credential_account spec_adapter uid d2) = Inr a" "a_password a = hash"
    and d': "mem_abs (w_db w') = set_rows model_session (filter (\<lambda>r. \<not> with_str ''userId'' uid r) (srows d2)) d2" by auto
  have "sd_table d2 model_account = Some account_table" using r(6) by (simp add: core_db_def)
  then have "snd (find_credential_account spec_adapter uid (mem_abs (w_db w'))) = Inr a"
    using a(1) unfolding d' by (simp add: find_credential_spec model_names)
  then have a': "snd (find_credential_account mem_adapter uid (w_db w')) = Inr a"
    using sim_run[OF mem.find_sims(8) inv', of uid] by simp
  have rows: "mem_rows (w_db w') m = sd_rows (mem_abs (w_db w')) m" "mem_rows (w_db w) m = sd_rows ?d m" for m by simp_all
  show ?thesis
    using r a' a(2) others
    by (intro exI[of _ row] exI[of _ uid] exI[of _ hash] exI[of _ a]) (simp add: rows d' model_names del: mem_abs_sel)
qed

lemma reset_password_effect_witness:
  "\<exists>w' a. handle_reset_password (demo_auth mem_adapter) demo_cx ''r1'' (Some \<lparr>rs_password = ''newsecret'', rs_token = ''''\<rparr>) demo_world
      = (w', Inr StatusOk)
    \<and> snd (find_credential_account mem_adapter ''u1'' (w_db w')) = Inr a \<and> a_password a = ''h:newsecret''"
proof -
  let ?b = "\<lparr>rs_password = ''newsecret'', rs_token = ''''\<rparr>"
  have sim: "sim (wmap mem_abs) (winv (mem_inv (Some core_schema))) (handle_reset_password (demo_auth mem_adapter) demo_cx ''r1'' (Some ?b))
      (handle_reset_password (demo_auth spec_adapter) demo_cx ''r1'' (Some ?b))"
    using mem.handle_reset_password_sim[of "demo_auth mem_adapter"] by simp
  have "snd (handle_reset_password (demo_auth spec_adapter) demo_cx ''r1'' (Some ?b) demo_spec_world) = Inr StatusOk" by code_simp
  from demo_run[OF sim this] obtain w' where
    run: "handle_reset_password (demo_auth mem_adapter) demo_cx ''r1'' (Some ?b) demo_world = (w', Inr StatusOk)" ..
  have rows: "mem_rows (w_db demo_world) model_verification = [verification_to_map demo_verification]"
  proof -
    have "sd_rows (w_db demo_spec_world) model_verification = [verification_to_map demo_verification]" by code_simp
    then show ?thesis by (simp add: demo_lookup)
  qed
  have val: "v_value (verification_from_map (verification_to_map demo_verification)) = ''u1''" by code_simp
  from reset_password_effect[OF core_schema_tables demo_world_facts(1) _ _ _ run] rows val
  obtain hash a where "hs_hash demo_hasher (cx_fresh demo_cx ''salt'') ''newsecret'' = Inr hash"
    "snd (find_credential_account mem_adapter ''u1'' (w_db w')) = Inr a" "a_password a = hash"
    by (auto simp: demo_ep_def)
  then show ?thesis using run by (auto simp: demo_hasher_def)
qed

section \<open>Changing a password\<close>

lemma list_user_sessions_spec:
  assumes "core_db d"
  shows "\<exists>rs. list_user_sessions spec_adapter uid d = (d, Inr (map session_from_map rs))
    \<and> set rs = {r \<in> set (srows d). with_str ''userId'' uid r}"
proof -
  have "(\<lambda>r. matches r [W ''userId'' (VStr uid)]) = with_str ''userId'' uid" by (rule ext) (simp add: with_str_def)
  then show ?thesis
    using assms by (auto simp: list_user_sessions_def bind_query spec_find_many_def core_db_def session_keys_def
        set_page_sort intro!: exI[of _ "page (Some (sort_desc ''createdAt'')) (filter (with_str ''userId'' uid) (srows d))"])
qed

text \<open>Revoking tokens one by one leaves the sessions with none of these tokens.\<close>

lemma revoke_tokens_spec:
  assumes "core_db d"
  shows "\<exists>d'. for_each (\<lambda>s. if s_token s \<noteq> keep then attempt (delete_session_by_token spec_adapter (s_token s)) (\<lambda>_. ret ()) else ret ()) ss d
      = (d', Inr ()) \<and> core_db d'
    \<and> (\<forall>m. m \<noteq> model_session \<longrightarrow> sd_rows d' m = sd_rows d m)
    \<and> srows d' = filter (\<lambda>r. \<forall>s\<in>set ss. s_token s \<noteq> keep \<longrightarrow> \<not> with_str ''token'' (s_token s) r) (srows d)"
  using assms
proof (induction ss arbitrary: d)
  case Nil
  then show ?case by simp
next
  case (Cons s ss)
  show ?case
  proof (cases "s_token s = keep")
    case True
    then show ?thesis using Cons by simp
  next
    case False
    let ?d = "set_rows model_session (remove_first (with_str ''token'' (s_token s)) (srows d)) d"
    have del: "delete_session_by_token spec_adapter (s_token s) d = (?d, Inr ())"
      by (rule delete_session_by_token_spec[OF Cons.prems])
    have "core_db ?d"
      by (rule core_db_keep[OF Cons.prems, where f = "delete_session_by_token spec_adapter (s_token s)"])
        (rule spec.delete_sims, rule del)
    from Cons.IH[OF this] obtain d' where ih: "for_each (\<lambda>s. if s_token s \<noteq> keep then attempt (delete_session_by_token spec_adapter (s_token s)) (\<lambda>_. ret ()) else ret ()) ss ?d
      = (d', Inr ())" "core_db d'" "\<forall>m. m \<noteq> model_session \<longrightarrow> sd_rows d' m = sd_rows ?d m"
      "srows d' = filter (\<lambda>r. \<forall>s\<in>set ss. s_token s \<noteq> keep \<longrightarrow> \<not> with_str ''token'' (s_token s) r) (srows ?d)" by blast
    have "srows ?d = filter (\<lambda>r. \<not> with_str ''token'' (s_token s) r) (srows d)"
      using remove_session[OF Cons.prems, of "''token''" "s_token s"] by simp
    then show ?thesis
      using ih False del by (auto simp: bind_def attempt_def intro!: filter_cong)
  qed
qed

lemma drop_others_ok:
  assumes db: "au_db au = spec_adapter" and core: "core_db (w_db w)" and yes: "asked \<or> \<not> ep_keep_on_change (au_ep au)"
    and run: "drop_others au cx sd asked what w = (w', r)"
  shows "(\<forall>m. m \<noteq> model_session \<longrightarrow> sd_rows (w_db w') m = sd_rows (w_db w) m)
    \<and> (\<forall>row\<in>set (srows (w_db w')). with_str ''userId'' (u_id (sd_user sd)) row \<longrightarrow>
         (\<forall>t. with_str ''token'' t row \<longrightarrow> t = s_token (sd_session sd)))
    \<and> filter (\<lambda>r. with_str ''token'' (s_token (sd_session sd)) r) (srows (w_db w'))
      = filter (\<lambda>r. with_str ''token'' (s_token (sd_session sd)) r) (srows (w_db w))"
proof -
  let ?uid = "u_id (sd_user sd)" and ?keep = "s_token (sd_session sd)"
  from list_user_sessions_spec[OF core, of ?uid] obtain rs where
    ls: "list_user_sessions spec_adapter ?uid (w_db w) = (w_db w, Inr (map session_from_map rs))"
    and rs: "set rs = {r \<in> set (srows (w_db w)). with_str ''userId'' ?uid r}" by blast
  from revoke_tokens_spec[OF core, of ?keep "map session_from_map rs"] obtain d' where
    rv: "revoke_other_sessions spec_adapter ?uid ?keep (w_db w) = (d', Inr ())"
    and others: "\<forall>m. m \<noteq> model_session \<longrightarrow> sd_rows d' m = sd_rows (w_db w) m"
    and rows: "srows d' = filter (\<lambda>r. \<forall>s\<in>set (map session_from_map rs). s_token s \<noteq> ?keep \<longrightarrow> \<not> with_str ''token'' (s_token s) r) (srows (w_db w))"
    unfolding revoke_other_sessions_def bind_run(1)[where f = "list_user_sessions spec_adapter ?uid", OF ls] by auto
  have w': "w_db w' = d'" using run yes rv by (auto simp: drop_others_def db attempt_db)
  have tok: "s_token (session_from_map r) = t" if "with_str ''token'' t r" for r t
    using that by (simp add: session_from_map_def with_str_def)
  have "t = ?keep" if "row \<in> set (srows d')" "with_str ''userId'' ?uid row" "with_str ''token'' t row" for row t
    using that rs tok unfolding rows by auto
  moreover have "filter (with_str ''token'' ?keep) (srows d') = filter (with_str ''token'' ?keep) (srows (w_db w))"
    unfolding rows by (auto simp: with_str_def intro!: filter_cong)
  ultimately show ?thesis using others unfolding w' by blast
qed

lemma change_steps:
  assumes "handle_change_password au cx sess (Some b) w = (w', Inr rep)"
  shows "\<exists>sd a hash d1 a1 w1 tok. sess = Inr sd \<and> credential_of au (u_id (sd_user sd)) w = Inr a
    \<and> hs_verify (au_hasher au) (a_password a) (cp_current b) = Inr True
    \<and> hs_hash (au_hasher au) (cx_fresh cx ''salt'') (cp_new b) = Inr hash
    \<and> update_account (au_db au) (cx_now cx) (a_id a) [(''password'', VStr hash)] (w_db w) = (d1, Inr a1)
    \<and> w_db w1 = d1 \<and> drop_others au cx sd (cp_revoke b) ''other_sessions_after_password_change'' w1 = (w', Inr tok)"
proof -
  have no: "require_session (Inl e) w = (w, Inl e)" for e :: gerror and w :: "'a world"
    by (simp add: require_session_def)
  obtain sd where sd: "sess = Inr sd" using assms by (cases sess) (auto simp: handle_change_password_def bind_def[of "require_session _"] no)
  have "\<exists>a hash d1 a1 w1. credential_of au (u_id (sd_user sd)) w = Inr a \<and> hs_verify (au_hasher au) (a_password a) (cp_current b) = Inr True
      \<and> hs_hash (au_hasher au) (cx_fresh cx ''salt'') (cp_new b) = Inr hash
      \<and> update_account (au_db au) (cx_now cx) (a_id a) [(''password'', VStr hash)] (w_db w) = (d1, Inr a1)
      \<and> bind (drop_others au cx sd (cp_revoke b) ''other_sessions_after_password_change'') (\<lambda>tok. ret (PasswordChanged tok)) w1 = (w', Inr rep)
      \<and> w_db w1 = d1"
    using assms unfolding sd
    by (auto simp: handle_change_password_def check_def bind_db split: if_splits sum.splits option.splits prod.splits)
  then obtain a hash d1 a1 w1 where st: "credential_of au (u_id (sd_user sd)) w = Inr a"
    "hs_verify (au_hasher au) (a_password a) (cp_current b) = Inr True"
    "hs_hash (au_hasher au) (cx_fresh cx ''salt'') (cp_new b) = Inr hash"
    "update_account (au_db au) (cx_now cx) (a_id a) [(''password'', VStr hash)] (w_db w) = (d1, Inr a1)" "w_db w1 = d1"
    and rest: "bind (drop_others au cx sd (cp_revoke b) ''other_sessions_after_password_change'') (\<lambda>tok. ret (PasswordChanged tok)) w1 = (w', Inr rep)"
    by (elim exE conjE)
  from bind_okD[where f = "drop_others au cx sd (cp_revoke b) ''other_sessions_after_password_change''", OF rest]
  obtain tok where "drop_others au cx sd (cp_revoke b) ''other_sessions_after_password_change'' w1 = (w', Inr tok)" by auto
  with st sd show ?thesis by (intro exI conjI)
qed

text \<open>
  C23: a change of password on the in-memory store needs a session and the current password
  of its user, and unless sessions are configured to be kept leaves the user exactly the
  session that asked, together with the new password.
\<close>

theorem password_change_evicts_others:
  assumes "has_core_tables sc" and "mem_inv (Some sc) (w_db w)" and "au_db au = mem_adapter"
    and "cp_revoke b \<or> \<not> ep_keep_on_change (au_ep au)"
    and "handle_change_password au cx sess (Some b) w = (w', Inr rep)"
  shows "\<exists>sd a hash. sess = Inr sd \<and> credential_of au (u_id (sd_user sd)) w = Inr a
    \<and> hs_verify (au_hasher au) (a_password a) (cp_current b) = Inr True
    \<and> hs_hash (au_hasher au) (cx_fresh cx ''salt'') (cp_new b) = Inr hash
    \<and> (\<exists>row\<in>set (mem_rows (w_db w') model_account). with_str ''id'' (a_id a) row \<and> with_str ''password'' hash row)
    \<and> (\<forall>row\<in>set (mem_rows (w_db w') model_session). with_str ''userId'' (u_id (sd_user sd)) row \<longrightarrow>
         (\<forall>t. with_str ''token'' t row \<longrightarrow> t = s_token (sd_session sd)))
    \<and> filter (\<lambda>r. with_str ''token'' (s_token (sd_session sd)) r) (mem_rows (w_db w') model_session)
      = filter (\<lambda>r. with_str ''token'' (s_token (sd_session sd)) r) (mem_rows (w_db w) model_session)"
proof -
  let ?au = "on_spec au" and ?w = "wmap mem_abs w"
  have core: "core_db (mem_abs (w_db w))" using core_db_mem assms(1,2) by blast
  have "winv (mem_inv (Some sc)) w" using assms(2) by (simp add: winv_def)
  from simD[OF mem.handle_change_password_sim[OF assms(3)] this assms(5)]
  have run: "handle_change_password ?au cx sess (Some b) ?w = (wmap mem_abs w', Inr rep)" by blast
  from change_steps[OF run] obtain sd a hash d1 a1 w1 tok where st: "sess = Inr sd" "credential_of ?au (u_id (sd_user sd)) ?w = Inr a"
    "hs_verify (au_hasher au) (a_password a) (cp_current b) = Inr True"
    "hs_hash (au_hasher au) (cx_fresh cx ''salt'') (cp_new b) = Inr hash"
    and up: "update_account spec_adapter (cx_now cx) (a_id a) [(''password'', VStr hash)] (mem_abs (w_db w)) = (d1, Inr a1)"
    and w1: "w_db w1 = d1" and dr: "drop_others ?au cx sd (cp_revoke b) ''other_sessions_after_password_change'' w1 = (wmap mem_abs w', Inr tok)"
    by auto
  have core1: "core_db d1"
    by (rule core_db_keep[OF core, where f = "update_account spec_adapter (cx_now cx) (a_id a) [(''password'', VStr hash)]"])
      (rule spec.update_sims, simp add: ghas_def, rule up)
  have t: "sd_table (mem_abs (w_db w)) model_account = Some account_table" using core by (simp add: core_db_def)
  from update_account_ok[OF t up] obtain row where row: "find (with_str ''id'' (a_id a)) (arows (mem_abs (w_db w))) = Some row"
    and d1: "d1 = set_rows model_account (map_first (with_str ''id'' (a_id a))
       (\<lambda>r. gmerge r (gput [(''password'', VStr hash)] ''updatedAt'' (VTime (cx_now cx)))) (arows (mem_abs (w_db w)))) (mem_abs (w_db w))" by blast
  let ?row = "gmerge row (gput [(''password'', VStr hash)] ''updatedAt'' (VTime (cx_now cx)))"
  from find_first[OF row] obtain ys zs where sp: "arows (mem_abs (w_db w)) = ys @ row # zs" "with_str ''id'' (a_id a) row"
    "\<forall>y\<in>set ys. \<not> with_str ''id'' (a_id a) y" by blast
  have "arows d1 = ys @ ?row # zs" unfolding d1 set_rows_sel fun_upd_same sp(1) by (rule map_first_at[OF sp(3,2)])
  moreover have "with_str ''id'' (a_id a) ?row" "with_str ''password'' hash ?row"
    using sp(2) by (simp_all add: with_str_def rget_def map_add_def)
  ultimately have new: "\<exists>row\<in>set (arows d1). with_str ''id'' (a_id a) row \<and> with_str ''password'' hash row" by auto
  have same: "srows d1 = srows (mem_abs (w_db w))" by (simp add: d1 model_names)
  have yes: "cp_revoke b \<or> \<not> ep_keep_on_change (au_ep ?au)" using assms(4) by simp
  from drop_others_ok[OF _ core1[folded w1] yes dr] have fin:
    "arows (w_db (wmap mem_abs w')) = arows d1"
    "\<forall>row\<in>set (srows (w_db (wmap mem_abs w'))). with_str ''userId'' (u_id (sd_user sd)) row \<longrightarrow>
         (\<forall>t. with_str ''token'' t row \<longrightarrow> t = s_token (sd_session sd))"
    "filter (\<lambda>r. with_str ''token'' (s_token (sd_session sd)) r) (srows (w_db (wmap mem_abs w')))
      = filter (\<lambda>r. with_str ''token'' (s_token (sd_session sd)) r) (srows (mem_abs (w_db w)))"
    unfolding w1 same by (simp_all add: model_names)
  have cred: "credential_of au (u_id (sd_user sd)) w = Inr a"
    using sim_run[OF mem.find_sims(8) assms(2), of "u_id (sd_user sd)"] st(2) assms(3) by simp
  have rows: "mem_rows (w_db v) m = sd_rows (w_db (wmap mem_abs v)) m" for v m by simp
  show ?thesis
    using st(1,3,4) cred new fin unfolding rows
    by (intro exI[of _ sd] exI[of _ a] exI[of _ hash] conjI) (simp_all del: wmap_sel(1) mem_abs_sel(1), simp_all)
qed

lemma password_change_evicts_others_witness:
  "\<exists>w' rep. handle_change_password (demo_auth mem_adapter) demo_cx (Inr (session_sd (demo_session 0 1000) demo_user_row))
      (Some \<lparr>cp_new = ''newsecret'', cp_current = ''secret99'', cp_revoke = False\<rparr>) demo_world = (w', Inr rep)
    \<and> (\<forall>row\<in>set (mem_rows (w_db w') model_session). with_str ''userId'' ''u1'' row \<longrightarrow> \<not> with_str ''token'' ''tok2'' row)"
proof -
  let ?sess = "Inr (session_sd (demo_session 0 1000) demo_user_row)" and ?b = "\<lparr>cp_new = ''newsecret'', cp_current = ''secret99'', cp_revoke = False\<rparr>"
  have sim: "sim (wmap mem_abs) (winv (mem_inv (Some core_schema))) (handle_change_password (demo_auth mem_adapter) demo_cx ?sess (Some ?b))
      (handle_change_password (demo_auth spec_adapter) demo_cx ?sess (Some ?b))"
    using mem.handle_change_password_sim[of "demo_auth mem_adapter"] by simp
  have "is_ok (snd (handle_change_password (demo_auth spec_adapter) demo_cx ?sess (Some ?b) demo_spec_world))" by code_simp
  then obtain rep where "snd (handle_change_password (demo_auth spec_adapter) demo_cx ?sess (Some ?b) demo_spec_world) = Inr rep"
    by (auto simp: is_ok_iff)
  from demo_run[OF sim this] obtain w' where
    run: "handle_change_password (demo_auth mem_adapter) demo_cx ?sess (Some ?b) demo_world = (w', Inr rep)" ..
  have "cp_revoke ?b \<or> \<not> ep_keep_on_change (au_ep (demo_auth mem_adapter))" by (simp add: demo_ep_def)
  from password_change_evicts_others[OF core_schema_tables demo_world_facts(1) _ this run]
  have "\<forall>row\<in>set (mem_rows (w_db w') model_session). with_str ''userId'' ''u1'' row \<longrightarrow> (\<forall>t. with_str ''token'' t row \<longrightarrow> t = ''tok'')"
    by (auto simp: session_sd_def demo_user_row_def demo_session_def)
  then show ?thesis using run by (intro exI[of _ w'] exI[of _ rep]) auto
qed

end
