(* ===== verification/Recovery_Laws.thy ===== *)
theory Recovery_Laws
  imports Credential_Laws Store_Laws
begin

text \<open>
  That something good comes about: who resets a forgotten password can then sign in. A
  session can be created whenever its random id and token are not taken.
\<close>

section \<open>Creating a session\<close>

definition unused :: "string \<Rightarrow> string \<Rightarrow> grec list \<Rightarrow> bool" where
  "unused i tok rows \<longleftrightarrow> list_all (\<lambda>r. rget r ''id'' \<noteq> VStr i \<and> rget r ''token'' \<noteq> VStr tok) rows"

lemma clash_strI: "map_of r f = Some (VStr x) \<Longrightarrow> clash f r row \<longleftrightarrow> rget row f = VStr x"
  by (auto simp: clash_iff rget_def split: option.splits)

lemma create_session_fresh:
  assumes core: "core_db d" and free: "unused i tok (srows d)"
  shows "\<exists>d' s. create_session_with spec_adapter no_hooks cfg now i tok client u [] dur d = (d', Inr s)
    \<and> s_user s = u_id u \<and> s_token s = tok \<and> s_id s = i"
proof -
  let ?s = "\<lparr>s_id = i, s_user = u_id u, s_token = tok, s_expires = time_add now (if dur \<le> 0 then expires_in cfg else dur),
     s_ip = fst client, s_agent = snd client, s_created = now, s_updated = now, s_extra = []\<rparr>"
  have t: "sd_table d model_session = Some session_table" using core by (simp add: core_db_def)
  have dflt: "apply_defaults session_table r = r" for r by (simp add: apply_defaults_def session_table_def col_def)
  have "\<not> spec_violates d model_session (session_to_map ?s) None"
    using free sd_uniq_session[OF core] t
    by (auto simp: spec_violates_def unused_def list_all_iff list_ex_iff clash_strI session_to_map_def
        violates_composite_def session_table_def col_def)
  moreover have "check_writable_fields (Some session_table) (session_to_map ?s) = None"
    by (simp add: check_writable_fields_def unknown_keys_def session_to_map_def)
  ultimately have "spec_create model_session (session_to_map ?s) d
      = (set_rows model_session (srows d @ [session_to_map ?s]) d, Inr (session_to_map ?s))"
    by (simp add: spec_create_def Let_def t dflt)
  then show ?thesis
    by (auto simp: create_session_with_def create_session_def Let_def no_hooks_def run_hook_def bind_def
        session_from_map_def session_to_map_def rget_def)
qed

lemma sign_in_fresh:
  assumes core: "core_db (w_db w)" and free: "unused (cx_fresh cx ''session-id'') (cx_fresh cx ''session-token'') (srows (w_db w))"
    and guards: "run_sign_in_guards ps u = Inr False"
  shows "\<exists>w' s. sign_in spec_adapter no_hooks cfg ps cx u rem w = (w', Inr (Some s)) \<and> s_user s = u_id u"
proof -
  from create_session_fresh[OF core free, of cfg "cx_now cx" "(cx_ip cx, cx_agent cx)" u "expires_in cfg"] obtain d' s where
    c: "create_session_with spec_adapter no_hooks cfg (cx_now cx) (cx_fresh cx ''session-id'') (cx_fresh cx ''session-token'')
      (cx_ip cx, cx_agent cx) u [] (expires_in cfg) (w_db w) = (d', Inr s)" "s_user s = u_id u" by blast
  then show ?thesis by (simp add: sign_in_def guards issue_session_def bind_db bind_def[of "bind _ _"])
qed

lemma sign_in_email_goes:
  assumes "si_email b \<noteq> ''''" and "si_password b \<noteq> ''''"
    and "find_user_by_email (au_db au) (si_email b) (w_db w) = (w_db w, Inr u)"
    and "find_credential_account (au_db au) (u_id u) (w_db w) = (w_db w, Inr a)"
    and "hs_verify (au_hasher au) (a_password a) (si_password b) = Inr True"
    and "ep_require_verification (au_ep au) \<longrightarrow> u_email_verified u"
    and "sign_in (au_db au) (au_hooks au) (au_session au) (au_plugins au) (cx\<lparr>cx_auth_method := ''credential''\<rparr>) u
      (remember_of (si_remember b)) (w\<lparr>w_log := w_log w @ [Derived]\<rparr>) = (w2, Inr (Some s))"
  shows "handle_sign_in_email au cx (Some b) w = (w2, Inr (SignedIn s u))"
proof -
  have no: "(ep_require_verification (au_ep au) \<and> \<not> u_email_verified u) = False" using assms(6) by simp
  show ?thesis
    using assms(1-5,7) unfolding handle_sign_in_email_def Let_def verify_with_def
    by (simp add: attempt_db no bind_def[of "bind _ _"] bind_def[of "sign_in _ _ _ _ _ _ _"])
qed

section \<open>Recovering an account\<close>

text \<open>
  C29: after a successful reset on the in-memory store, the user the token was issued to can
  sign in with the new password under the address they have, at any later time, if the
  address is verified where that is required and no guard objects. The random id and token
  of the session must not be taken, and the hasher must verify what it hashed.
\<close>

theorem reset_lets_user_in:
  assumes "has_core_tables sc" and "mem_inv (Some sc) (w_db w)" and "au_db au = mem_adapter" and "au_hooks au = no_hooks"
    and "handle_reset_password au cx q (Some b) w = (w1, Inr rep)"
    and "\<forall>row\<in>set (mem_rows (w_db w) model_verification).
      with_identifier (token_identifier (au_digest au) token_kind_reset (if rs_token b = '''' then q else rs_token b)) row
      \<longrightarrow> v_value (verification_from_map row) = u_id u"
    and "snd (find_user_by_email mem_adapter email (w_db w)) = Inr u" and "email \<noteq> ''''" and "rs_password b \<noteq> ''''"
    and "\<forall>h. hs_hash (au_hasher au) (cx_fresh cx ''salt'') (rs_password b) = Inr h \<longrightarrow>
      hs_verify (au_hasher au) h (rs_password b) = Inr True"
    and "ep_require_verification (au_ep au) \<longrightarrow> u_email_verified u" and "run_sign_in_guards (au_plugins au) u = Inr False"
    and "unused (cx_fresh later ''session-id'') (cx_fresh later ''session-token'') (mem_rows (w_db w1) model_session)"
  shows "\<exists>w2 s. handle_sign_in_email au later (Some \<lparr>si_email = email, si_password = rs_password b, si_callback = cb, si_remember = rm\<rparr>) w1
    = (w2, Inr (SignedIn s u)) \<and> s_user s = u_id u"
proof -
  let ?b = "\<lparr>si_email = email, si_password = rs_password b, si_callback = cb, si_remember = rm\<rparr>" and ?v = "wmap mem_abs w1"
  let ?cx = "later\<lparr>cx_auth_method := ''credential''\<rparr>"
  have core: "core_db (mem_abs (w_db w))" using core_db_mem assms(1,2) by blast
  have "winv (mem_inv (Some sc)) w" using assms(2) by (simp add: winv_def)
  from simD[OF mem.handle_reset_password_sim[OF assms(3)] this assms(5)] assms(4)
  have inv1: "mem_inv (Some sc) (w_db w1)"
    and run: "handle_reset_password (on_spec au) cx q (Some b) (wmap mem_abs w) = (?v, Inr rep)" by (auto simp: winv_def)
  have core1: "core_db (w_db ?v)" using core_db_mem[OF assms(1) inv1] by simp
  have spec: "au_db (on_spec au) = spec_adapter" "au_hooks (on_spec au) = no_hooks" "core_db (w_db (wmap mem_abs w))"
    using core assms(4) by simp_all
  obtain row uid hash d2 a where row: "row \<in> set (vrows (w_db (wmap mem_abs w)))"
    "with_identifier (token_identifier (au_digest au) token_kind_reset (if rs_token b = '''' then q else rs_token b)) row"
    "v_value (verification_from_map row) = uid"
    and h: "hs_hash (au_hasher au) (cx_fresh cx ''salt'') (rs_password b) = Inr hash"
    and d2: "core_db d2" "\<forall>m. m \<notin> {model_verification, model_account} \<longrightarrow> sd_rows d2 m = sd_rows (w_db (wmap mem_abs w)) m"
    and a0: "snd (find_credential_account spec_adapter uid d2) = Inr a" "a_password a = hash"
    and d0: "w_db ?v = (if ep_keep_on_reset (au_ep au) then d2
        else set_rows model_session (filter (\<lambda>r. \<not> with_str ''userId'' uid r) (srows d2)) d2)"
    using reset_spec[OF spec run] unfolding on_spec_sel by (elim exE conjE)
  have uid: "uid = u_id u" using assms(6) row by simp
  note a = a0[unfolded uid]
  have d': "w_db ?v = d2 \<or> w_db ?v = set_rows model_session (filter (\<lambda>r. \<not> with_str ''userId'' (u_id u) r) (srows d2)) d2"
    using d0 unfolding uid by metis
  have users: "sd_rows d2 model_user = urows (mem_abs (w_db w))" using d2(2) by (simp add: model_names)
  obtain d where d: "w_db ?v = d" by blast
  have rows: "arows d = arows d2" "urows d = urows (mem_abs (w_db w))"
    using d' users unfolding d by (auto simp: model_names)
  have cored: "core_db d" using core1 unfolding d .
  have cred: "find_credential_account spec_adapter (u_id u) d = (d, Inr a)"
    using a(1) d2(1) cored find_credential_spec[of d2 "u_id u"] find_credential_spec[of d "u_id u"]
    by (auto simp: core_db_def rows)
  have "snd (find_user_by_email spec_adapter email (mem_abs (w_db w))) = Inr u"
    using sim_run[OF mem.find_sims(2) assms(2), of email] assms(7) by simp
  then have user: "find_user_by_email spec_adapter email d = (d, Inr u)"
    using core cored by (auto simp: find_user_by_email_spec rows)
  have ok: "hs_verify (au_hasher au) (a_password a) (rs_password b) = Inr True" using assms(10) h a(2) by blast
  let ?w = "?v\<lparr>w_log := w_log ?v @ [Derived]\<rparr>"
  have "unused (cx_fresh ?cx ''session-id'') (cx_fresh ?cx ''session-token'') (srows (w_db ?w))" using assms(13) by simp
  from sign_in_fresh[OF _ this assms(12), of "au_session au" "remember_of rm"] core1 obtain w2 s where
    si: "sign_in spec_adapter no_hooks (au_session au) (au_plugins au) ?cx u (remember_of rm) ?w = (w2, Inr (Some s))"
    and su: "s_user s = u_id u" by auto
  have result: "handle_sign_in_email (on_spec au) later (Some ?b) ?v = (w2, Inr (SignedIn s u))"
    by (rule sign_in_email_goes) (use assms(4,8,9,11) user cred ok si in \<open>simp_all only: d on_spec_sel sign_in_body.simps simp_thms\<close>)
  obtain w3 r where mem: "handle_sign_in_email au later (Some ?b) w1 = (w3, r)" by (meson surj_pair)
  have "winv (mem_inv (Some sc)) w1" using inv1 by (simp add: winv_def)
  from simD[OF mem.handle_sign_in_email_sim[OF assms(3)] this mem] assms(4) result
  have "r = Inr (SignedIn s u)" by simp
  then show ?thesis using mem su by blast
qed

lemma reset_lets_user_in_witness:
  "\<exists>w1 w2 s. handle_reset_password (demo_auth mem_adapter) demo_cx ''r1'' (Some \<lparr>rs_password = ''newsecret'', rs_token = ''''\<rparr>) demo_world
      = (w1, Inr StatusOk)
    \<and> handle_sign_in_email (demo_auth mem_adapter) demo_cx (Some \<lparr>si_email = ''Ann@Example.com'', si_password = ''newsecret'',
        si_callback = '''', si_remember = None\<rparr>) w1 = (w2, Inr (SignedIn s demo_user_row))"
proof -
  let ?b = "\<lparr>rs_password = ''newsecret'', rs_token = ''''\<rparr>"
  let ?f = "\<lambda>A. handle_reset_password (demo_auth A) demo_cx ''r1'' (Some ?b)"
  have sim: "sim (wmap mem_abs) (winv (mem_inv (Some core_schema))) (?f mem_adapter) (?f spec_adapter)"
    using mem.handle_reset_password_sim[of "demo_auth mem_adapter"] by simp
  obtain v1 r1 where spec: "?f spec_adapter (spec_seeded demo_rows) = (v1, r1)" by (meson surj_pair)
  have "(case ?f spec_adapter (spec_seeded demo_rows) of (v, r) \<Rightarrow> r = Inr StatusOk \<and>
      unused (cx_fresh demo_cx ''session-id'') (cx_fresh demo_cx ''session-token'') (sd_rows (w_db v) model_session))" by code_simp
  then have ok: "r1 = Inr StatusOk"
    "unused (cx_fresh demo_cx ''session-id'') (cx_fresh demo_cx ''session-token'') (sd_rows (w_db v1) model_session)"
    by (simp_all add: spec)
  from seeded_run[OF demo_ids sim, of "Inr StatusOk"] obtain w1 where
    run: "?f mem_adapter demo_world = (w1, Inr StatusOk)" and rows: "mem_rows (w_db w1) = sd_rows (w_db v1)"
    using spec ok(1) by (auto simp: demo_world_def)
  have "list_all (\<lambda>row. v_value (verification_from_map row) = ''u1'') (sd_rows (w_db demo_spec_world) model_verification)" by code_simp
  then have one: "\<forall>row\<in>set (mem_rows (w_db demo_world) model_verification). P row \<longrightarrow> v_value (verification_from_map row) = u_id demo_user_row" for P
    by (simp add: demo_lookup list_all_iff demo_user_row_def)
  have "snd (find_user_by_email spec_adapter ''Ann@Example.com'' (w_db demo_spec_world)) = Inr demo_user_row" by code_simp
  then have "snd (find_user_by_email mem_adapter ''Ann@Example.com'' (w_db demo_world)) = Inr demo_user_row" by (simp add: demo_lookup)
  from reset_lets_user_in[OF core_schema_tables demo_world_facts(1) _ _ run _ this, of demo_cx "''''" None] one ok(2)[folded rows]
  have "\<exists>w2 s. handle_sign_in_email (demo_auth mem_adapter) demo_cx (Some \<lparr>si_email = ''Ann@Example.com'', si_password = ''newsecret'',
        si_callback = '''', si_remember = None\<rparr>) w1 = (w2, Inr (SignedIn s demo_user_row))"
    by (auto simp: demo_hasher_def demo_user_row_def)
  then show ?thesis using run by blast
qed

end
