(* ===== verification/Accounts.thy ===== *)
theory Accounts
  imports Credentials
begin

text \<open>
  The endpoints of a signed-in user: verifying and changing the address
  (handler_verification.go, handler_user.go), the profile, deleting the account, sessions
  (handler_session.go) and the list of accounts (handler_account.go). As in
  \<open>Credentials\<close> a handler gets the session it resolved and the decoded body.
\<close>

section \<open>Replies\<close>

text \<open>Redirect to the callback if it is one the server trusts, else answer in JSON.\<close>

definition redirect_or :: "'s auth \<Rightarrow> string \<Rightarrow> reply \<Rightarrow> ('s world, reply) act" where
  "redirect_or au callback rep =
     (case (if callback \<noteq> '''' then au_redirect au callback else None) of
        Some to \<Rightarrow> ret (Redirected to [])
      | None \<Rightarrow> ret rep)"

definition verify_failed :: "'s auth \<Rightarrow> string \<Rightarrow> ('s world, reply) act" where
  "verify_failed au callback =
     (case (if callback \<noteq> '''' then au_redirect au callback else None) of
        Some to \<Rightarrow> ret (Redirected to [(''error'', ''invalid_token'')])
      | None \<Rightarrow> fail err_invalid_token)"

definition err_email_taken :: gerror where "err_email_taken = ApiError 400 ''COULDNT_UPDATE_YOUR_EMAIL''"
definition err_email_same :: gerror where "err_email_same = ApiError 400 ''EMAIL_IS_THE_SAME''"
definition err_verification_required :: gerror where
  "err_verification_required = ApiError 400 ''VERIFICATION_REQUIRED''"

text \<open>\<open>htmlEscape\<close>, used for the two confirmation pages.\<close>

definition html_char :: "char \<Rightarrow> string" where
  "html_char c =
     (if c = CHR ''&'' then ''&amp;'' else if c = CHR ''<'' then ''&lt;'' else if c = CHR ''>'' then ''&gt;''
      else if c = CHR 0x22 then ''&quot;'' else if c = CHR 0x27 then ''&#39;'' else [c])"

definition html_escape :: "string \<Rightarrow> string" where "html_escape s = concat (map html_char s)"

section \<open>Verifying an address\<close>

record resend_body =
  sv_email :: string
  sv_callback :: string

definition handle_send_verification :: "'s auth \<Rightarrow> req_ctx \<Rightarrow> resend_body option \<Rightarrow> ('s world, reply) act" where
  "handle_send_verification au cx body =
     bind (need_body body) (\<lambda>b.
     bind (check (validate_email (sv_email b))) (\<lambda>_.
     attempt (db (find_user_by_email (au_db au) (sv_email b))) (\<lambda>found. case found of
       Inl _ \<Rightarrow> bind (burn_token_write au cx) (\<lambda>_. ret StatusOk)
     | Inr u \<Rightarrow>
         if u_email_verified u then bind (burn_token_write au cx) (\<lambda>_. ret StatusOk)
         else bind (send_verification_email au cx u (sv_callback b)) (\<lambda>_. ret StatusOk))))"

text \<open>The change of address approved from the old one: the value is \<open>user|address\<close>.\<close>

definition after_change :: "'s auth \<Rightarrow> req_ctx \<Rightarrow> string \<Rightarrow> user \<Rightarrow> ('s world, reply) act" where
  "after_change au cx callback u =
     bind (emit cx (blank_event\<lparr>ev_type := ''email.changed'', ev_actor := u_id u, ev_email := u_email u\<rparr>)) (\<lambda>_.
     bind (if vf_send (au_vf au) \<noteq> None then ignore (send_verification_email au cx u callback) else ret ()) (\<lambda>_.
     redirect_or au callback (Updated (Some u))))"

definition approve_change :: "'s auth \<Rightarrow> req_ctx \<Rightarrow> string \<Rightarrow> string \<Rightarrow> ('s world, reply) act" where
  "approve_change au cx val callback =
     (case str_cut (CHR ''|'') val of
        None \<Rightarrow> verify_failed au callback
      | Some (uid, new) \<Rightarrow>
          attempt (db (find_user_by_id (au_db au) uid)) (\<lambda>r. case r of
            Inl _ \<Rightarrow> verify_failed au callback
          | Inr u \<Rightarrow>
              attempt (db (find_user_by_email (au_db au) new)) (\<lambda>other.
              if (case other of Inr e \<Rightarrow> u_id e \<noteq> uid | Inl _ \<Rightarrow> False) then fail err_email_taken
              else attempt (db (update_user (au_db au) (au_hooks au) (cx_now cx) (u_id u)
                       [(''email'', VStr (normalize_email new)), (''emailVerified'', VBool False)])) (\<lambda>r. case r of
                Inl e \<Rightarrow> fail (if is_unique_violation e then err_email_taken else e)
              | Inr u' \<Rightarrow> after_change au cx callback u'))))"

text \<open>The address a token was sent to is proven, if it still is the user's.\<close>

definition mark_verified :: "'s auth \<Rightarrow> req_ctx \<Rightarrow> user \<Rightarrow> ('s world, user) act" where
  "mark_verified au cx u =
     (if u_email_verified u then ret u
      else bind (db (update_user (au_db au) (au_hooks au) (cx_now cx) (u_id u) [(''emailVerified'', VBool True)])) (\<lambda>u'.
           bind (emit cx (blank_event\<lparr>ev_type := ''email.verified'', ev_actor := u_id u', ev_email := u_email u'\<rparr>)) (\<lambda>_.
           ret u')))"

definition after_confirm :: "'s auth \<Rightarrow> req_ctx \<Rightarrow> string \<Rightarrow> user \<Rightarrow> ('s world, reply) act" where
  "after_confirm au cx callback u =
     (if vf_auto_sign_in (au_vf au)
      then bind (sign_in (au_db au) (au_hooks au) (au_session au) (au_plugins au)
                   (cx\<lparr>cx_auth_method := ''email-verification''\<rparr>) u True)
             (\<lambda>s. case s of None \<Rightarrow> ret Taken | Some _ \<Rightarrow> redirect_or au callback (Updated (Some u)))
      else redirect_or au callback (Updated (Some u)))"

definition confirm_address :: "'s auth \<Rightarrow> req_ctx \<Rightarrow> string \<Rightarrow> string \<Rightarrow> ('s world, reply) act" where
  "confirm_address au cx val callback =
     (case str_cut (CHR ''|'') val of
        None \<Rightarrow> verify_failed au callback
      | Some (uid, issued_for) \<Rightarrow>
          attempt (db (find_user_by_id (au_db au) uid)) (\<lambda>r. case r of
            Inl _ \<Rightarrow> verify_failed au callback
          | Inr u0 \<Rightarrow>
              if \<not> equal_fold (u_email u0) issued_for then verify_failed au callback
              else bind (mark_verified au cx u0) (after_confirm au cx callback)))"

definition perform_verify_email :: "'s auth \<Rightarrow> req_ctx \<Rightarrow> string \<Rightarrow> string \<Rightarrow> ('s world, reply) act" where
  "perform_verify_email au cx tok callback =
     (if tok = '''' then verify_failed au callback
      else attempt (db (consume_token (au_db au) (au_digest au) (cx_now cx) token_kind_change tok)) (\<lambda>r. case r of
        Inr val \<Rightarrow> approve_change au cx val callback
      | Inl _ \<Rightarrow>
          attempt (db (consume_token (au_db au) (au_digest au) (cx_now cx) token_kind_verify tok)) (\<lambda>r. case r of
            Inl _ \<Rightarrow> verify_failed au callback
          | Inr val \<Rightarrow> confirm_address au cx val callback)))"

text \<open>The GET of the link: a page that posts the token, where that is configured.\<close>

definition handle_verify_email :: "'s auth \<Rightarrow> req_ctx \<Rightarrow> string \<Rightarrow> string \<Rightarrow> ('s world, reply) act" where
  "handle_verify_email au cx tok callback =
     (if vf_confirm_page (au_vf au)
      then if tok = '''' then fail err_invalid_token
           else ret (ConfirmPage (au_base au @ ''/verify-email'')
                  ((''token'', tok) # (if callback \<noteq> '''' then [(''callbackURL'', callback)] else [])))
      else perform_verify_email au cx tok callback)"

section \<open>Profile\<close>

definition string_field :: "string \<Rightarrow> grec \<Rightarrow> grec" where
  "string_field f raw = (case map_of raw f of Some (VStr v) \<Rightarrow> [(f, VStr v)] | _ \<Rightarrow> [])"

definition profile_update :: "string list \<Rightarrow> grec \<Rightarrow> grec" where
  "profile_update writable raw =
     gmerge (string_field ''name'' raw @ string_field ''image'' raw) (collect_fields writable raw)"

definition handle_update_user :: "'s auth \<Rightarrow> req_ctx \<Rightarrow> session_data result \<Rightarrow> grec option \<Rightarrow> ('s world, reply) act" where
  "handle_update_user au cx sess body =
     bind (require_session sess) (\<lambda>sd.
     bind (need_body body) (\<lambda>raw.
     (let upd = profile_update (uc_writable (au_uc au)) raw in
      if upd = [] then ret StatusOk
      else bind (db (update_user (au_db au) (au_hooks au) (cx_now cx) (u_id (sd_user sd)) upd)) (\<lambda>u.
           ret (Updated (Some u))))))"

section \<open>Changing the address\<close>

record change_email_body =
  ce_new :: string
  ce_callback :: string

definition request_change :: "'s auth \<Rightarrow> req_ctx \<Rightarrow> session_data \<Rightarrow> string \<Rightarrow> string \<Rightarrow> ('s world, reply) act" where
  "request_change au cx sd new callback =
     (case uc_send_change (au_uc au) of
        None \<Rightarrow> fail err_verification_required
      | Some send \<Rightarrow>
          bind (new_token au cx token_kind_change (u_id (sd_user sd) @ ''|'' @ new) (vf_ttl (au_vf au))) (\<lambda>tok.
          bind (send_mail send \<lparr>ml_kind = token_kind_change, ml_user = sd_user sd, ml_to = u_email (sd_user sd),
                  ml_path = au_base au @ ''/verify-email'',
                  ml_query = (''token'', tok) # (if callback \<noteq> '''' then [(''callbackURL'', callback)] else []),
                  ml_token = tok, ml_new_email = new\<rparr>) (\<lambda>e.
          case e of
            Some _ \<Rightarrow> fail err_mail_failed
          | None \<Rightarrow>
              bind (emit cx (session_event sd\<lparr>ev_type := ''email.change_requested''\<rparr>)) (\<lambda>_.
              ret (Message ''verification email sent'')))))"

definition move_address :: "'s auth \<Rightarrow> req_ctx \<Rightarrow> session_data \<Rightarrow> string \<Rightarrow> string \<Rightarrow> ('s world, reply) act" where
  "move_address au cx sd new callback =
     attempt (db (update_user (au_db au) (au_hooks au) (cx_now cx) (u_id (sd_user sd))
               [(''email'', VStr new), (''emailVerified'', VBool False)])) (\<lambda>r. case r of
       Inl e \<Rightarrow> fail (if is_unique_violation e then err_email_taken else e)
     | Inr u \<Rightarrow>
         bind (emit cx (session_event sd\<lparr>ev_type := ''email.changed'', ev_email := new\<rparr>)) (\<lambda>_.
         bind (if vf_send (au_vf au) \<noteq> None then ignore (send_verification_email au cx u callback) else ret ()) (\<lambda>_.
         ret (Updated (Some u)))))"

definition handle_change_email ::
  "'s auth \<Rightarrow> req_ctx \<Rightarrow> session_data result \<Rightarrow> change_email_body option \<Rightarrow> ('s world, reply) act" where
  "handle_change_email au cx sess body =
     bind (require_session sess) (\<lambda>sd.
     bind (need_body body) (\<lambda>b.
     bind (check (validate_email (ce_new b))) (\<lambda>_.
     (let new = normalize_email (ce_new b) in
      if new = u_email (sd_user sd) then fail err_email_same
      else attempt (db (find_user_by_email (au_db au) new)) (\<lambda>found.
        if is_ok found then fail err_email_taken
        else if found \<noteq> Inl ErrNotFound then (case found of Inl e \<Rightarrow> fail e | Inr _ \<Rightarrow> fail err_email_taken)
        else if u_email_verified (sd_user sd) then request_change au cx sd new (ce_callback b)
        else move_address au cx sd new (ce_callback b))))))"

section \<open>Deleting the account\<close>

definition perform_delete_user :: "'s auth \<Rightarrow> req_ctx \<Rightarrow> user \<Rightarrow> ('s world, reply) act" where
  "perform_delete_user au cx u =
     bind (check (uc_before_delete (au_uc au) u)) (\<lambda>_.
     bind (db (delete_user (au_db au) (au_schema au) (u_id u))) (\<lambda>_.
     bind (did CookieCleared) (\<lambda>_.
     bind (emit cx (blank_event\<lparr>ev_type := ''account.deleted'', ev_actor := u_id u, ev_email := u_email u\<rparr>)) (\<lambda>_.
     ret Deleted))))"

definition owns_token :: "string \<Rightarrow> verification result \<Rightarrow> bool" where
  "owns_token uid r = (case r of Inl _ \<Rightarrow> False | Inr v \<Rightarrow> v_value v = uid)"

definition redeem_delete_token :: "'s auth \<Rightarrow> req_ctx \<Rightarrow> string \<Rightarrow> string \<Rightarrow> ('s world, reply) act" where
  "redeem_delete_token au cx tok expect =
     attempt (db (consume_token (au_db au) (au_digest au) (cx_now cx) token_kind_delete tok)) (\<lambda>r. case r of
       Inl _ \<Rightarrow> fail err_invalid_token
     | Inr uid \<Rightarrow>
         if expect \<noteq> '''' \<and> uid \<noteq> expect then fail err_invalid_token
         else attempt (db (find_user_by_id (au_db au) uid)) (\<lambda>r. case r of
           Inl _ \<Rightarrow> fail err_invalid_token
         | Inr u \<Rightarrow> perform_delete_user au cx u))"

definition complete_delete_user :: "'s auth \<Rightarrow> req_ctx \<Rightarrow> string \<Rightarrow> string \<Rightarrow> ('s world, reply) act" where
  "complete_delete_user au cx tok expect =
     (if expect \<noteq> ''''
      then attempt (db (lookup_token (au_db au) (au_digest au) (cx_now cx) token_kind_delete tok)) (\<lambda>r.
             if \<not> owns_token expect r then fail err_invalid_token else redeem_delete_token au cx tok expect)
      else redeem_delete_token au cx tok expect)"

record delete_body =
  dl_password :: string
  dl_token :: string
  dl_callback :: string

definition request_deletion :: "'s auth \<Rightarrow> req_ctx \<Rightarrow> session_data \<Rightarrow> string \<Rightarrow> mailer \<Rightarrow> ('s world, reply) act" where
  "request_deletion au cx sd callback send =
     bind (new_token au cx token_kind_delete (u_id (sd_user sd)) (uc_delete_ttl (au_uc au))) (\<lambda>tok.
     bind (send_mail send \<lparr>ml_kind = token_kind_delete, ml_user = sd_user sd, ml_to = u_email (sd_user sd),
             ml_path = au_base au @ ''/delete-user/callback'',
             ml_query = (''token'', tok) # (if callback \<noteq> '''' then [(''callbackURL'', callback)] else []),
             ml_token = tok, ml_new_email = ''''\<rparr>) (\<lambda>e.
     case e of Some _ \<Rightarrow> fail err_mail_failed | None \<Rightarrow> ret (Message ''verification email sent'')))"

definition handle_delete_user :: "'s auth \<Rightarrow> req_ctx \<Rightarrow> session_data result \<Rightarrow> delete_body option \<Rightarrow> ('s world, reply) act" where
  "handle_delete_user au cx sess body =
     bind (require_session sess) (\<lambda>sd.
     bind (need_body body) (\<lambda>b.
     (let me = u_id (sd_user sd) in
      if dl_token b \<noteq> '''' then complete_delete_user au cx (dl_token b) me
      else if dl_password b \<noteq> '''' then
        attempt (db (find_credential_account (au_db au) me)) (\<lambda>acc. case acc of
          Inl _ \<Rightarrow> fail err_no_credential
        | Inr a \<Rightarrow>
            bind (verify_with (au_hasher au) (a_password a) (dl_password b)) (\<lambda>ok.
            if \<not> ok then fail err_invalid_password else perform_delete_user au cx (sd_user sd)))
      else (case uc_send_delete (au_uc au) of
        Some send \<Rightarrow> request_deletion au cx sd (dl_callback b) send
      | None \<Rightarrow>
          if \<not> is_fresh (au_session au) (cx_now cx) (sd_session sd) then fail err_session_expired
          else perform_delete_user au cx (sd_user sd)))))"

text \<open>The page of the mailed link, and the POST of its form.\<close>

definition handle_delete_confirm :: "'s auth \<Rightarrow> req_ctx \<Rightarrow> string \<Rightarrow> string \<Rightarrow> ('s world, reply) act" where
  "handle_delete_confirm au cx tok callback =
     (if tok = '''' then fail err_invalid_token
      else attempt (db (lookup_token (au_db au) (au_digest au) (cx_now cx) token_kind_delete tok)) (\<lambda>r.
        if \<not> is_ok r then fail err_invalid_token
        else ret (ConfirmPage (au_base au @ ''/delete-user/callback'')
               ((''token'', tok) # (if callback \<noteq> '''' then [(''callbackURL'', callback)] else [])))))"

text \<open>The redirect that follows in the code comes after the response has been written.\<close>

definition handle_delete_callback :: "'s auth \<Rightarrow> req_ctx \<Rightarrow> string \<Rightarrow> ('s world, reply) act" where
  "handle_delete_callback au cx tok =
     (if tok = '''' then fail err_invalid_token else complete_delete_user au cx tok '''')"

section \<open>Sessions\<close>

definition handle_sign_out ::
  "'s auth \<Rightarrow> req_ctx \<Rightarrow> session_data option \<Rightarrow> string option \<Rightarrow> ('s world, reply) act" where
  "handle_sign_out au cx sess token =
     bind (case token of Some t \<Rightarrow> ignore (db (delete_session_by_token (au_db au) t)) | None \<Rightarrow> ret ()) (\<lambda>_.
     bind (did CookieCleared) (\<lambda>_.
     bind (case sess of Some sd \<Rightarrow> emit cx (session_event sd\<lparr>ev_type := ''sign_out''\<rparr>) | None \<Rightarrow> ret ()) (\<lambda>_.
     ret StatusOk)))"

definition handle_list_sessions :: "'s auth \<Rightarrow> session_data result \<Rightarrow> ('s world, session list) act" where
  "handle_list_sessions au sess =
     bind (require_session sess) (\<lambda>sd. db (list_user_sessions (au_db au) (u_id (sd_user sd))))"

definition revoke_one_session ::
  "'s auth \<Rightarrow> req_ctx \<Rightarrow> session_data result \<Rightarrow> (string \<times> string) option \<Rightarrow> ('s world, reply) act" where
  "revoke_one_session au cx sess body =
     bind (require_session sess) (\<lambda>sd.
     bind (need_body body) (\<lambda>b.
     bind (db (handle_revoke_session (au_db au) sd (fst b) (snd b))) (\<lambda>i.
     bind (emit cx (session_event sd\<lparr>ev_type := ''session.revoked'', ev_session := i, ev_action := ''revoke_session''\<rparr>)) (\<lambda>_.
     ret StatusOk))))"

definition handle_revoke_sessions :: "'s auth \<Rightarrow> req_ctx \<Rightarrow> session_data result \<Rightarrow> ('s world, reply) act" where
  "handle_revoke_sessions au cx sess =
     bind (require_session sess) (\<lambda>sd.
     bind (db (delete_user_sessions (au_db au) (u_id (sd_user sd)))) (\<lambda>_.
     bind (did CookieCleared) (\<lambda>_.
     bind (emit cx (session_event sd\<lparr>ev_type := ''session.revoked'', ev_session := '''', ev_action := ''revoke_all_sessions''\<rparr>)) (\<lambda>_.
     ret StatusOk))))"

definition handle_revoke_others :: "'s auth \<Rightarrow> req_ctx \<Rightarrow> session_data result \<Rightarrow> ('s world, reply) act" where
  "handle_revoke_others au cx sess =
     bind (require_session sess) (\<lambda>sd.
     bind (db (revoke_other_sessions (au_db au) (u_id (sd_user sd)) (s_token (sd_session sd)))) (\<lambda>_.
     bind (emit cx (session_event sd\<lparr>ev_type := ''session.revoked'', ev_action := ''revoke_other_sessions''\<rparr>)) (\<lambda>_.
     ret StatusOk)))"

section \<open>Linked accounts\<close>

text \<open>What a listing shows of an account: no token and no hash.\<close>

record account_view =
  av_id :: string
  av_provider :: string
  av_account :: string
  av_scopes :: string
  av_created :: gtime
  av_updated :: gtime

definition view_account :: "account \<Rightarrow> account_view" where
  "view_account a = \<lparr>av_id = a_id a, av_provider = a_provider a, av_account = a_account a, av_scopes = a_scope a,
     av_created = a_created a, av_updated = a_updated a\<rparr>"

definition handle_list_accounts :: "'s auth \<Rightarrow> session_data result \<Rightarrow> ('s world, account_view list) act" where
  "handle_list_accounts au sess =
     bind (require_session sess) (\<lambda>sd.
     bind (db (list_user_accounts (au_db au) (u_id (sd_user sd)))) (\<lambda>xs. ret (map view_account xs)))"

record unlink_body =
  ul_provider :: string
  ul_account :: string

definition linked_as :: "string \<Rightarrow> string \<Rightarrow> account \<Rightarrow> bool" where
  "linked_as provider acc a \<longleftrightarrow> a_provider a = provider \<and> (acc = '''' \<or> a_account a = acc)"

definition handle_unlink_account ::
  "'s auth \<Rightarrow> req_ctx \<Rightarrow> session_data result \<Rightarrow> unlink_body option \<Rightarrow> ('s world, reply) act" where
  "handle_unlink_account au cx sess body =
     bind (require_session sess) (\<lambda>sd.
     bind (need_body body) (\<lambda>b.
     if ul_provider b = '''' then fail err_invalid_body
     else bind (db (list_user_accounts (au_db au) (u_id (sd_user sd)))) (\<lambda>accs.
       if length accs \<le> 1 \<and> \<not> au_unlink_all au then fail err_last_account
       else (case find (linked_as (ul_provider b) (ul_account b)) accs of
         None \<Rightarrow> fail err_account_not_found
       | Some a \<Rightarrow>
           bind (db (delete_account (au_db au) (a_id a))) (\<lambda>_.
           bind (emit cx (session_event sd\<lparr>ev_type := ''account.unlinked'', ev_method := a_provider a\<rparr>)) (\<lambda>_.
           ret StatusOk))))))"

section \<open>Simulation\<close>

context storage_contract
begin

lemma sim_replies:
  "sim \<alpha>' I' (redirect_or au cb r) (redirect_or (on_spec au) cb r)"
  "sim \<alpha>' I' (verify_failed au cb) (verify_failed (on_spec au) cb)"
  unfolding redirect_or_def verify_failed_def by (auto intro!: sim_intros split: option.splits)

lemma perform_verify_email_sim:
  assumes db: "au_db au = A" and "hooks_ok (au_hooks au)"
  shows "sim (wmap \<alpha>) (winv I) (perform_verify_email au cx tok cb) (perform_verify_email (on_spec au) cx tok cb)"
  using assms(2)
  unfolding perform_verify_email_def approve_change_def after_change_def confirm_address_def
    mark_verified_def after_confirm_def db on_spec_sel
  by (auto intro!: sim_intros store_sims token_sims sim_replies send_verification_sim[OF db] effect_sims
      simp: ghas_def split: option.splits)

lemma handle_change_email_sim:
  assumes db: "au_db au = A" and "hooks_ok (au_hooks au)"
  shows "sim (wmap \<alpha>) (winv I) (handle_change_email au cx sess b) (handle_change_email (on_spec au) cx sess b)"
  using assms(2) unfolding handle_change_email_def request_change_def move_address_def Let_def db on_spec_sel
  by (auto intro!: sim_intros store_sims token_effect_sims[OF db] send_verification_sim[OF db]
      simp: ghas_def split: option.splits)

lemma perform_delete_user_sim:
  assumes db: "au_db au = A"
  shows "sim (wmap \<alpha>) (winv I) (perform_delete_user au cx u) (perform_delete_user (on_spec au) cx u)"
  unfolding perform_delete_user_def db on_spec_sel by (auto intro!: sim_intros delete_user_sim)

lemma complete_delete_user_sim:
  assumes db: "au_db au = A"
  shows "sim (wmap \<alpha>) (winv I) (complete_delete_user au cx tok e) (complete_delete_user (on_spec au) cx tok e)"
  unfolding complete_delete_user_def redeem_delete_token_def db on_spec_sel
  by (auto intro!: sim_intros store_sims token_sims perform_delete_user_sim[OF db])

lemma handle_delete_user_sim:
  assumes db: "au_db au = A"
  shows "sim (wmap \<alpha>) (winv I) (handle_delete_user au cx sess b) (handle_delete_user (on_spec au) cx sess b)"
  unfolding handle_delete_user_def request_deletion_def Let_def db on_spec_sel
  by (auto intro!: sim_intros store_sims token_effect_sims[OF db] complete_delete_user_sim[OF db]
      perform_delete_user_sim[OF db] split: option.splits)

lemma handle_unlink_account_sim:
  assumes db: "au_db au = A"
  shows "sim (wmap \<alpha>) (winv I) (handle_unlink_account au cx sess b) (handle_unlink_account (on_spec au) cx sess b)"
  unfolding handle_unlink_account_def db on_spec_sel
  by (auto intro!: sim_intros store_sims split: option.splits)

lemmas account_sims = perform_verify_email_sim handle_change_email_sim handle_delete_user_sim complete_delete_user_sim
  handle_unlink_account_sim

end

end
