(* ===== verification/Otp.thy ===== *)
theory Otp
  imports Keyring Go_Url Rate_Limit
begin

text \<open>
  crypto/otp.go: one-time passwords from a counter (RFC 4226) or the time (RFC 6238), the
  base32 form of their secrets, and the URI an authenticator scans. HMAC-SHA1 is an
  argument. A division by zero is the value \<open>None\<close>.
\<close>

section \<open>Base 32\<close>

definition b32_alphabet :: string where "b32_alphabet = ''ABCDEFGHIJKLMNOPQRSTUVWXYZ234567''"

definition b32_char :: "nat \<Rightarrow> char" where "b32_char n = b32_alphabet ! n"
definition b32_val :: "char \<Rightarrow> nat option" where "b32_val c = index_from 0 b32_alphabet c"

fun b32_groups :: "nat list \<Rightarrow> nat list" where
  "b32_groups (a # b # c # d # e # r) =
     [a div 8, (a mod 8) * 4 + b div 64, b div 2 mod 32, (b mod 2) * 16 + c div 16, (c mod 16) * 2 + d div 128,
      d div 4 mod 32, (d mod 4) * 8 + e div 32, e mod 32] @ b32_groups r"
| "b32_groups [a, b, c, d] =
     [a div 8, (a mod 8) * 4 + b div 64, b div 2 mod 32, (b mod 2) * 16 + c div 16, (c mod 16) * 2 + d div 128,
      d div 4 mod 32, (d mod 4) * 8]"
| "b32_groups [a, b, c] =
     [a div 8, (a mod 8) * 4 + b div 64, b div 2 mod 32, (b mod 2) * 16 + c div 16, (c mod 16) * 2]"
| "b32_groups [a, b] = [a div 8, (a mod 8) * 4 + b div 64, b div 2 mod 32, (b mod 2) * 16]"
| "b32_groups [a] = [a div 8, (a mod 8) * 4]"
| "b32_groups [] = []"

text \<open>Five bytes from eight letters; a last group of one, three or six letters gives nothing.\<close>

definition b32_last :: "nat list \<Rightarrow> nat list" where
  "b32_last vs =
     (case vs of
        [a, b, c, d, e, f, g] \<Rightarrow>
          [a * 8 + b div 4, (b mod 4) * 64 + c * 2 + d div 16, (d mod 16) * 16 + e div 2, (e mod 2) * 128 + f * 4 + g div 8]
      | [a, b, c, d, e] \<Rightarrow> [a * 8 + b div 4, (b mod 4) * 64 + c * 2 + d div 16, (d mod 16) * 16 + e div 2]
      | [a, b, c, d] \<Rightarrow> [a * 8 + b div 4, (b mod 4) * 64 + c * 2 + d div 16]
      | [a, b] \<Rightarrow> [a * 8 + b div 4]
      | _ \<Rightarrow> [])"

fun b32_ungroup :: "nat list \<Rightarrow> nat list" where
  "b32_ungroup (a # b # c # d # e # f # g # h # r) =
     [a * 8 + b div 4, (b mod 4) * 64 + c * 2 + d div 16, (d mod 16) * 16 + e div 2, (e mod 2) * 128 + f * 4 + g div 8,
      (g mod 8) * 32 + h] @ b32_ungroup r"
| "b32_ungroup vs = b32_last vs"

definition b32_encode :: "string \<Rightarrow> string" where
  "b32_encode s = map b32_char (b32_groups (map byte_of s))"

definition ascii_upper :: "char \<Rightarrow> char" where
  "ascii_upper c = (if 97 \<le> byte_of c \<and> byte_of c \<le> 122 then char_of (byte_of c - 32) else c)"

text \<open>\<open>decodeBase32\<close>: padding, case and line breaks do not matter.\<close>

definition decode_base32 :: "string \<Rightarrow> string option" where
  "decode_base32 s =
     (let up = map ascii_upper (rev (dropWhile (\<lambda>c. c = CHR ''='') (rev s)));
          vs = map b32_val (filter (\<lambda>c. byte_of c \<noteq> 10 \<and> byte_of c \<noteq> 13) up)
      in if None \<in> set vs then None else Some (map char_of (b32_ungroup (map the vs))))"

section \<open>Secrets\<close>

definition min_totp_secret_bytes :: nat where "min_totp_secret_bytes = 10"

definition validate_totp_secret :: "string \<Rightarrow> bool" where
  "validate_totp_secret secret =
     (secret \<noteq> '''' \<and> (case decode_base32 secret of None \<Rightarrow> False | Some key \<Rightarrow> min_totp_secret_bytes \<le> length key))"

definition generate_totp_secret :: "string \<Rightarrow> string" where
  "generate_totp_secret random = b32_encode random"

section \<open>Passwords\<close>

definition err_not_base32 :: gerror where "err_not_base32 = OtherError ''illegal base32 data''"

text \<open>The 31 bits at the offset that the last byte names, as \<open>uint32\<close>.\<close>

definition truncate_mac :: "string \<Rightarrow> 32 word" where
  "truncate_mac mac =
     (let o' = byte_of (mac ! (length mac - 1)) mod 16;
          b = (\<lambda>i. word_of_nat (byte_of (mac ! (o' + i))))
      in or (or (push_bit 24 (and (b 0) 0x7f)) (push_bit 16 (b 1))) (or (push_bit 8 (b 2)) (b 3)))"

text \<open>\<open>fmt.Sprintf("%0*d", digits, n)\<close>: a negative width pads with spaces on the right.\<close>

definition pad_decimal :: "int \<Rightarrow> nat \<Rightarrow> string" where
  "pad_decimal digits n =
     (let s = show_nat n
      in if digits < 0 then s @ replicate (nat (- digits) - length s) (CHR '' '')
         else replicate (nat digits - length s) (CHR ''0'') @ s)"

definition hotp :: "hmac_fun \<Rightarrow> string \<Rightarrow> nat \<Rightarrow> int \<Rightarrow> string result option" where
  "hotp hmac secret counter digits =
     (case decode_base32 secret of
        None \<Rightarrow> Some (Inl err_not_base32)
      | Some key \<Rightarrow>
          (let m = 10 ^ nat digits :: 32 word
           in if m = 0 then None
              else Some (Inr (pad_decimal digits (unat (truncate_mac (hmac key (be64 counter)) mod m))))))"

definition totp_step :: "gtime \<Rightarrow> int \<Rightarrow> int" where
  "totp_step t period = (unix_sec t mod 2 ^ 64) div (if period \<le> 0 then 30 else period)"

definition totp :: "hmac_fun \<Rightarrow> string \<Rightarrow> gtime \<Rightarrow> int \<Rightarrow> int \<Rightarrow> string result option" where
  "totp hmac secret t period digits = hotp hmac secret (nat (totp_step t period)) digits"

text \<open>The loop over the drift; the pair is what \<open>VerifyTOTPCounter\<close> returns.\<close>

fun totp_scan :: "hmac_fun \<Rightarrow> string \<Rightarrow> string \<Rightarrow> int \<Rightarrow> int \<Rightarrow> int list \<Rightarrow> (int \<times> bool) option" where
  "totp_scan hmac secret code digits counter [] = Some (0, False)"
| "totp_scan hmac secret code digits counter (i # is) =
     (let c = wrap_int64 (counter + i)
      in if c < 0 then totp_scan hmac secret code digits counter is
         else (case hotp hmac secret (nat c) digits of
                 None \<Rightarrow> None
               | Some (Inl _) \<Rightarrow> Some (0, False)
               | Some (Inr want) \<Rightarrow>
                   if want = code then Some (c, True) else totp_scan hmac secret code digits counter is))"

definition verify_totp_counter ::
  "hmac_fun \<Rightarrow> string \<Rightarrow> string \<Rightarrow> gtime \<Rightarrow> int \<Rightarrow> int \<Rightarrow> int \<Rightarrow> (int \<times> bool) option" where
  "verify_totp_counter hmac secret code t period digits skew =
     totp_scan hmac secret code digits (wrap_int64 (totp_step t period)) [- skew..skew]"

definition verify_totp :: "hmac_fun \<Rightarrow> string \<Rightarrow> string \<Rightarrow> gtime \<Rightarrow> int \<Rightarrow> int \<Rightarrow> int \<Rightarrow> bool option" where
  "verify_totp hmac secret code t period digits skew = map_option snd (verify_totp_counter hmac secret code t period digits skew)"

section \<open>The URI\<close>

definition hex_upper :: "nat \<Rightarrow> char" where "hex_upper n = ''0123456789ABCDEF'' ! n"

definition url_unreserved :: "char \<Rightarrow> bool" where
  "url_unreserved c = (is_alpha c \<or> is_digit c \<or> c \<in> set ''-_.~'')"

definition pct :: "char \<Rightarrow> string" where
  "pct c = [CHR ''%'', hex_upper (byte_of c div 16), hex_upper (byte_of c mod 16)]"

definition path_escape :: "string \<Rightarrow> string" where
  "path_escape s = concat (map (\<lambda>c. if url_unreserved c \<or> c \<in> set ''$&+:=@'' then [c] else pct c) s)"

definition query_escape :: "string \<Rightarrow> string" where
  "query_escape s = concat (map (\<lambda>c. if url_unreserved c then [c] else if c = CHR '' '' then ''+'' else pct c) s)"

text \<open>\<open>url.Values.Encode\<close> of a map with one value per key, given in the order of the keys.\<close>

definition values_encode :: "(string \<times> string) list \<Rightarrow> string" where
  "values_encode kvs = str_join ''&'' (map (\<lambda>(k, v). query_escape k @ ''='' @ query_escape v) kvs)"

definition totp_uri :: "string \<Rightarrow> string \<Rightarrow> string \<Rightarrow> int \<Rightarrow> int \<Rightarrow> string option" where
  "totp_uri issuer name secret period digits =
     (if \<not> validate_totp_secret secret then None
      else Some (''otpauth://totp/'' @ path_escape issuer @ '':'' @ path_escape name @ ''?'' @
        values_encode [(''algorithm'', ''SHA1''), (''digits'', itoa (if digits \<le> 0 then 6 else digits)), (''issuer'', issuer),
          (''period'', itoa (if period \<le> 0 then 30 else period)), (''secret'', secret)]))"

section \<open>Base 32 comes back\<close>

lemma b32_small:
  assumes "a < 256" "b < 256" "c < 256" "d < 256" "e < (256::nat)"
  shows "a div 8 < 32" "(a mod 8) * 4 + b div 64 < 32" "(b mod 2) * 16 + c div 16 < 32" "(c mod 16) * 2 + d div 128 < 32"
    "(d mod 4) * 8 + e div 32 < 32"
proof -
  have parts: "a mod 8 < 8" "b mod 2 < 2" "c mod 16 < 16" "d mod 4 < 4" by simp_all
  have rest: "a div 8 < 32" "b div 64 < 4" "c div 16 < 16" "d div 128 < 2" "e div 32 < 8"
    using assms by (simp_all add: less_mult_imp_div_less)
  show "a div 8 < 32" by (rule rest)
  show "(a mod 8) * 4 + b div 64 < 32" using parts(1) rest(2) by linarith
  show "(b mod 2) * 16 + c div 16 < 32" using parts(2) rest(3) by linarith
  show "(c mod 16) * 2 + d div 128 < 32" using parts(3) rest(4) by linarith
  show "(d mod 4) * 8 + e div 32 < 32" using parts(4) rest(5) by linarith
qed

lemma b32_groups_small: "list_all (\<lambda>b. b < 256) bs \<Longrightarrow> list_all (\<lambda>v. v < 32) (b32_groups bs)"
proof (induction bs rule: b32_groups.induct)
  case (1 a b c d e r)
  then have small: "a < 256" "b < 256" "c < 256" "d < 256" "e < 256" and ih: "list_all (\<lambda>v. v < 32) (b32_groups r)" by simp_all
  have "b div 2 mod 32 < 32" "d div 4 mod 32 < 32" "e mod 32 < 32" by simp_all
  then show ?case by (simp only: b32_groups.simps list_all_append list.pred_inject simp_thms b32_small[OF small] ih)
next
  case (2 a b c d)
  then show ?case using b32_small[of a b c d 0] by simp
next
  case (3 a b c)
  then show ?case using b32_small[of a b c 0 0] by simp
next
  case (4 a b)
  then show ?case using b32_small[of a b 0 0 0] by simp
next
  case (5 a)
  then show ?case using b32_small[of a 0 0 0 0] by simp
qed simp

lemma b32_bytes:
  assumes "a < 256" "b < 256" "c < 256" "d < 256" "e < (256::nat)"
  shows "a div 8 * 8 + ((a mod 8) * 4 + b div 64) div 4 = a"
    "((a mod 8) * 4 + b div 64) mod 4 * 64 + b div 2 mod 32 * 2 + ((b mod 2) * 16 + c div 16) div 16 = b"
    "((b mod 2) * 16 + c div 16) mod 16 * 16 + ((c mod 16) * 2 + d div 128) div 2 = c"
    "((c mod 16) * 2 + d div 128) mod 2 * 128 + d div 4 mod 32 * 4 + ((d mod 4) * 8 + e div 32) div 8 = d"
    "((d mod 4) * 8 + e div 32) mod 8 * 32 + e mod 32 = e"
proof -
  have rest: "b div 64 < 4" "c div 16 < 16" "d div 128 < 2" "e div 32 < 8"
    using assms by (simp_all add: less_mult_imp_div_less)
  then have mid: "((a mod 8) * 4 + b div 64) div 4 = a mod 8" "((a mod 8) * 4 + b div 64) mod 4 = b div 64"
    "((b mod 2) * 16 + c div 16) div 16 = b mod 2" "((b mod 2) * 16 + c div 16) mod 16 = c div 16"
    "((c mod 16) * 2 + d div 128) div 2 = c mod 16" "((c mod 16) * 2 + d div 128) mod 2 = d div 128"
    "((d mod 4) * 8 + e div 32) div 8 = d mod 4" "((d mod 4) * 8 + e div 32) mod 8 = e div 32"
    by simp_all
  show "a div 8 * 8 + ((a mod 8) * 4 + b div 64) div 4 = a"
    "((b mod 2) * 16 + c div 16) mod 16 * 16 + ((c mod 16) * 2 + d div 128) div 2 = c"
    "((d mod 4) * 8 + e div 32) mod 8 * 32 + e mod 32 = e" using rest by (simp_all add: mid)
  show "((a mod 8) * 4 + b div 64) mod 4 * 64 + b div 2 mod 32 * 2 + ((b mod 2) * 16 + c div 16) div 16 = b"
    using mod_mult2_eq[of b 2 32] div_mult_mod_eq[of b 64] rest by (simp add: mid)
  show "((c mod 16) * 2 + d div 128) mod 2 * 128 + d div 4 mod 32 * 4 + ((d mod 4) * 8 + e div 32) div 8 = d"
    using mod_mult2_eq[of d 4 32] div_mult_mod_eq[of d 128] rest by (simp add: mid)
qed

lemmas b32_short = b32_groups.simps b32_ungroup.simps b32_last_def list.case div_0 add_0_right

lemma b32_ungroup_groups: "list_all (\<lambda>b. b < 256) bs \<Longrightarrow> b32_ungroup (b32_groups bs) = bs"
proof (induction bs rule: b32_groups.induct)
  case (1 a b c d e r)
  then have small: "a < 256" "b < 256" "c < 256" "d < 256" "e < 256" and ih: "b32_ungroup (b32_groups r) = r" by simp_all
  show ?case by (simp only: b32_groups.simps append.simps b32_ungroup.simps b32_bytes[OF small] ih)
next
  case (2 a b c d)
  then have "a < 256" "b < 256" "c < 256" "d < 256" "(0::nat) < 256" by simp_all
  from b32_bytes[OF this] show ?case by (simp only: b32_short)
next
  case (3 a b c)
  then have "a < 256" "b < 256" "c < 256" "(0::nat) < 256" "(0::nat) < 256" by simp_all
  from b32_bytes[OF this] show ?case by (simp only: b32_short)
next
  case (4 a b)
  then have "a < 256" "b < 256" "(0::nat) < 256" "(0::nat) < 256" "(0::nat) < 256" by simp_all
  from b32_bytes[OF this] show ?case by (simp only: b32_short)
next
  case (5 a)
  then have "a < 256" "(0::nat) < 256" "(0::nat) < 256" "(0::nat) < 256" "(0::nat) < 256" by simp_all
  from b32_bytes[OF this] show ?case by (simp only: b32_short)
qed (simp add: b32_last_def)

lemma b32_alphabet_facts: "distinct b32_alphabet" "length b32_alphabet = 32"
  "list_all (\<lambda>c. ascii_upper c = c \<and> c \<noteq> CHR ''='' \<and> byte_of c \<noteq> 10 \<and> byte_of c \<noteq> 13) b32_alphabet"
  by code_simp+

lemma b32_val_char: "n < 32 \<Longrightarrow> b32_val (b32_char n) = Some n"
  using index_from_nth[OF b32_alphabet_facts(1), of n 0] by (simp add: b32_val_def b32_char_def b32_alphabet_facts(2))

lemma b32_char_plain:
  "n < 32 \<Longrightarrow> ascii_upper (b32_char n) = b32_char n \<and> b32_char n \<noteq> CHR ''='' \<and> byte_of (b32_char n) \<noteq> 10 \<and> byte_of (b32_char n) \<noteq> 13"
  using b32_alphabet_facts(2,3) by (auto simp: b32_char_def list_all_length)

lemma decode_encode_base32: "decode_base32 (b32_encode s) = Some s"
proof -
  let ?g = "b32_groups (map byte_of s)"
  have bytes: "list_all (\<lambda>b. b < 256) (map byte_of s)" by (simp add: list_all_iff byte_of_less)
  have small: "\<forall>v\<in>set ?g. v < 32" using b32_groups_small[OF bytes] by (simp add: list_all_iff)
  have enc: "\<forall>c\<in>set (b32_encode s). ascii_upper c = c \<and> c \<noteq> CHR ''='' \<and> byte_of c \<noteq> 10 \<and> byte_of c \<noteq> 13"
    using small b32_char_plain by (auto simp: b32_encode_def)
  have strip: "rev (dropWhile (\<lambda>c. c = CHR ''='') (rev (b32_encode s))) = b32_encode s"
  proof (cases "rev (b32_encode s)")
    case (Cons c cs)
    then have "c \<in> set (b32_encode s)" by (metis list.set_intros(1) set_rev)
    then show ?thesis using enc Cons by (metis (mono_tags) dropWhile.simps(2) rev_rev_ident)
  qed simp
  have up: "map ascii_upper (b32_encode s) = b32_encode s" using enc by (simp add: map_idI)
  have keep: "filter (\<lambda>c. byte_of c \<noteq> 10 \<and> byte_of c \<noteq> 13) (b32_encode s) = b32_encode s"
    using enc by (simp add: filter_id_conv)
  have vals: "map b32_val (b32_encode s) = map Some ?g" using small b32_val_char by (auto simp: b32_encode_def)
  have none: "None \<notin> set (map Some ?g)" by auto
  have "map the (map Some ?g) = ?g" by (simp add: comp_def)
  then have "map char_of (b32_ungroup (map the (map Some ?g))) = s"
    by (simp only: b32_ungroup_groups[OF bytes]) (simp add: comp_def byte_of_def)
  then show ?thesis unfolding decode_base32_def Let_def strip up keep vals by (simp only: none if_False)
qed

section \<open>Passwords\<close>

lemma length_show_nat: "n < 10 ^ Suc k \<Longrightarrow> length (show_nat n) \<le> Suc k"
proof (induction n arbitrary: k rule: show_nat.induct)
  case (1 n)
  show ?case
  proof (cases "n < 10")
    case True
    then show ?thesis by (subst show_nat.simps) simp
  next
    case False
    then obtain j where k: "k = Suc j" using "1.prems" by (cases k) auto
    have "n div 10 < 10 ^ Suc j" using "1.prems" by (simp add: k less_mult_imp_div_less mult.commute)
    from "1.IH"[OF False this] show ?thesis using False by (subst show_nat.simps) (simp add: k)
  qed
qed

lemma ten_power_word:
  assumes "k \<le> 9"
  shows "unat (10 ^ k :: 32 word) = 10 ^ k"
proof -
  have "(10::nat) ^ k \<le> 10 ^ 9" using assms by (intro power_increasing) auto
  then have "(10::nat) ^ k < 2 ^ 32" by simp
  moreover have "unat (word_of_nat n :: 32 word) = n" if "n < 2 ^ 32" for n
    using that by (simp add: unsigned_of_nat take_bit_nat_eq_self)
  ultimately have "unat (word_of_nat (10 ^ k) :: 32 word) = 10 ^ k" by blast
  then show ?thesis by simp
qed

lemma hotp_defined:
  assumes "validate_totp_secret secret" and "1 \<le> digits" and "digits \<le> 9"
  shows "\<exists>code. hotp hmac secret counter digits = Some (Inr code) \<and> length code = nat digits \<and> list_all is_digit code"
proof -
  obtain key where key: "decode_base32 secret = Some key" using assms(1) by (auto simp: validate_totp_secret_def split: option.splits)
  have m: "unat (10 ^ nat digits :: 32 word) = 10 ^ nat digits" by (rule ten_power_word) (use assms(3) in simp)
  then have ne: "(10 ^ nat digits :: 32 word) \<noteq> 0" by (metis power_eq_0_iff unsigned_0 zero_neq_numeral)
  let ?n = "unat (truncate_mac (hmac key (be64 counter)) mod 10 ^ nat digits)"
  obtain k where k: "nat digits = Suc k" using assms(2) by (cases "nat digits") auto
  have "?n < 10 ^ nat digits" using m by (simp add: unat_mod_distrib)
  then have "length (show_nat ?n) \<le> nat digits" using length_show_nat[of ?n k] by (simp add: k)
  then have "length (pad_decimal digits ?n) = nat digits" using assms(2) by (simp add: pad_decimal_def Let_def)
  moreover have "list_all is_digit (pad_decimal digits ?n)"
    using assms(2) show_nat_digits[of ?n] by (auto simp: pad_decimal_def Let_def list_all_iff is_digit_def byte_of_def)
  ultimately show ?thesis by (simp add: hotp_def key Let_def ne)
qed

text \<open>
  For one to nine digits a password is that many decimal digits, whatever the secret's
  key, the counter and the hash: a valid secret never gives an error or a panic.
\<close>

theorem hotp_has_digits:
  assumes "validate_totp_secret secret" and "1 \<le> digits" and "digits \<le> 9"
  shows "\<exists>code. hotp hmac secret counter digits = Some (Inr code) \<and> length code = nat digits \<and> list_all is_digit code"
  by (rule hotp_defined[OF assms])

lemma hotp_has_digits_witness:
  "\<exists>code. hotp (\<lambda>_ _. replicate 20 (CHR ''a'')) (generate_totp_secret ''12345678901234567890'') 1 6 = Some (Inr code)
    \<and> length code = 6 \<and> list_all is_digit code"
proof -
  have "validate_totp_secret (generate_totp_secret ''12345678901234567890'')"
    by (simp add: validate_totp_secret_def generate_totp_secret_def decode_encode_base32 min_totp_secret_bytes_def)
      (simp add: b32_encode_def)
  from hotp_has_digits[OF this, of 6] show ?thesis by auto
qed

section \<open>The window\<close>

lemma upto_shift: "map ((+) s) [a..b] = [s + a..s + b]"
proof (induction a b rule: upto.induct)
  case (1 a b)
  show ?case using 1 by (cases "a \<le> b") (simp_all add: upto_rec1 add.assoc)
qed

lemma upto_nonneg: "filter (\<lambda>c. 0 \<le> c) [a..b] = [max 0 a..b]"
proof (induction a b rule: upto.induct)
  case (1 a b)
  show ?case
  proof (cases "a \<le> b")
    case True
    then have "filter (\<lambda>c. 0 \<le> c) [a + 1..b] = [max 0 (a + 1)..b]" by (rule 1)
    moreover have "max 0 (a + 1) = max 0 a" if "\<not> 0 \<le> a" using that by simp
    ultimately show ?thesis using True by (cases "0 \<le> a") (simp_all add: upto_rec1[of a b])
  qed (simp add: max_def)
qed

lemma totp_scan_find:
  assumes "\<forall>i\<in>set is. wrap_int64 (counter + i) = counter + i"
    and "\<And>n. \<exists>x. hotp hmac secret n digits = Some (Inr x)"
  shows "totp_scan hmac secret code digits counter is =
    (case find (\<lambda>c. hotp hmac secret (nat c) digits = Some (Inr code)) (filter (\<lambda>c. 0 \<le> c) (map ((+) counter) is)) of
       None \<Rightarrow> Some (0, False) | Some c \<Rightarrow> Some (c, True))"
  using assms(1)
proof (induction "is")
  case (Cons i "is")
  obtain x where "hotp hmac secret (nat (counter + i)) digits = Some (Inr x)" using assms(2) by blast
  then show ?case using Cons by (auto simp: Let_def)
qed simp

text \<open>
  C31: verifying a password is searching the window for the first time step whose password
  it is: the steps from skew before to skew after the current one that are not negative.
\<close>

theorem totp_window_exact:
  assumes "validate_totp_secret secret" and "1 \<le> digits" and "digits \<le> 9" and "1 \<le> period"
    and "0 \<le> unix_sec t" and "unix_sec t < 2 ^ 62" and "0 \<le> skew" and "skew < 2 ^ 62"
  shows "verify_totp_counter hmac secret code t period digits skew =
    (case find (\<lambda>c. hotp hmac secret (nat c) digits = Some (Inr code))
            [max 0 (unix_sec t div period - skew)..unix_sec t div period + skew] of
       None \<Rightarrow> Some (0, False) | Some c \<Rightarrow> Some (c, True))"
proof -
  let ?s = "unix_sec t div period"
  have s: "0 \<le> ?s" "?s < 2 ^ 62"
    using assms(4,5,6) zdiv_mono2[of "unix_sec t" 1 period] by (simp_all add: pos_imp_zdiv_nonneg_iff)
  have step: "totp_step t period = ?s" using assms(4,5,6) by (simp add: totp_step_def)
  have wrap: "wrap_int64 n = n" if "- (2 ^ 62) \<le> n" "n < 2 ^ 63" for n using that by (simp add: wrap_int64_def)
  have c: "wrap_int64 (totp_step t period) = ?s" unfolding step using s by (intro wrap) simp_all
  have in_range: "\<forall>i\<in>set [- skew..skew]. wrap_int64 (?s + i) = ?s + i" using s assms(7,8) by (intro ballI wrap) auto
  have total: "\<exists>x. hotp hmac secret n digits = Some (Inr x)" for n
    using hotp_defined[OF assms(1-3), of hmac n] by blast
  show ?thesis unfolding verify_totp_counter_def c totp_scan_find[OF in_range total] upto_shift upto_nonneg
    by (simp add: algebra_simps)
qed

lemma totp_window_exact_witness:
  "verify_totp_counter (\<lambda>_ _. replicate 20 (CHR ''a'')) (generate_totp_secret ''12345678901234567890'') ''nope'' (seconds 59) 30 6 1
    = Some (0, False)"
proof -
  let ?h = "\<lambda>_ _. replicate 20 (CHR ''a'')" and ?s = "generate_totp_secret ''12345678901234567890''"
  have ok: "validate_totp_secret ?s"
    by (simp add: validate_totp_secret_def generate_totp_secret_def decode_encode_base32 min_totp_secret_bytes_def)
      (simp add: b32_encode_def)
  have "hotp ?h ?s n 6 \<noteq> Some (Inr ''nope'')" for n using hotp_defined[OF ok, of 6 ?h n] by auto
  then have "find (\<lambda>c. hotp ?h ?s (nat c) 6 = Some (Inr ''nope'')) xs = None" for xs by (simp add: find_None_iff)
  with totp_window_exact[OF ok, of 6 30 "seconds 59" 1 ?h "''nope''"] show ?thesis by (simp add: unix_sec_def seconds_def nsec_per_sec_def)
qed

end
