(* ===== verification/Two_Factor.thy ===== *)
theory Two_Factor
  imports Accounts Rotation Otp Signing
begin

text \<open>
  The second factor (plugins/twofactor/twofactor.go): enrolment, the challenge that
  replaces a session at sign-in, and the three ways to answer it. The random row id, secret
  and codes are told apart by what they are for, as everywhere; JSON of the backup codes is
  an argument.
\<close>

section \<open>Configuration\<close>

definition model_two_factor :: string where "model_two_factor = ''twoFactor''"

record two_factor =
  tf_issuer :: string
  tf_period :: int
  tf_digits :: int
  tf_skew :: int
  tf_send :: "(user \<Rightarrow> string \<Rightarrow> gerror option) option"
  tf_otp_ttl :: duration
  tf_code_count :: int
  tf_skip_verify :: bool
  tf_trust :: duration
  tf_mac :: hmac_fun
  tf_sign :: hmac_fun
  tf_key :: string
  tf_ring :: rotation
  tf_prefix :: string
  tf_write :: "string list \<Rightarrow> string"
  tf_read :: "string \<Rightarrow> string list option"

text \<open>\<open>New\<close> and \<open>Init\<close> fill in what is left out.\<close>

definition tf_defaults :: "string \<Rightarrow> two_factor \<Rightarrow> two_factor" where
  "tf_defaults app tf = tf\<lparr>
     tf_period := (if tf_period tf = 0 then 30 else tf_period tf),
     tf_digits := (if tf_digits tf = 0 then 6 else tf_digits tf),
     tf_skew := (if tf_skew tf = 0 then 1 else tf_skew tf),
     tf_otp_ttl := (if tf_otp_ttl tf = 0 then minutes 5 else tf_otp_ttl tf),
     tf_code_count := (if tf_code_count tf = 0 then 10 else tf_code_count tf),
     tf_issuer := (if tf_issuer tf = '''' then app else tf_issuer tf)\<rparr>"

definition two_factor_table :: table where
  "two_factor_table = \<lparr>tb_name = model_two_factor,
     tb_fields = [unique (required (col ''id'' FieldString)), references_user (indexed (required (col ''userId'' FieldString))),
       required (col ''secret'' FieldText), col ''backupCodes'' FieldText, defaulted (VInt 0) (col ''lastCounter'' FieldInt)],
     tb_uniques = []\<rparr>"

definition two_factor_schema :: "schema \<Rightarrow> schema" where
  "two_factor_schema sc = add_table two_factor_table
     (add_fields model_user [defaulted (VBool False) (col ''twoFactorEnabled'' FieldBool)] sc)"

definition token_kind_pending :: string where "token_kind_pending = ''two-factor-pending''"
definition token_kind_otp :: string where "token_kind_otp = ''two-factor-otp''"
definition pending_ttl :: duration where "pending_ttl = minutes 10"
definition max_verify_attempts :: int where "max_verify_attempts = 5"

definition err_wrong_code :: gerror where "err_wrong_code = ApiError 401 ''INVALID_TWO_FACTOR_CODE''"
definition err_too_many :: gerror where "err_too_many = ApiError 401 ''TOO_MANY_ATTEMPTS''"
definition err_not_enabled :: gerror where "err_not_enabled = ApiError 400 ''TWO_FACTOR_NOT_ENABLED''"
definition err_secret_unreadable :: gerror where "err_secret_unreadable = ApiError 500 ''TWO_FACTOR_SECRET_UNREADABLE''"
definition err_code_required :: gerror where "err_code_required = ApiError 401 ''CURRENT_CODE_REQUIRED''"

section \<open>Trusted devices\<close>

definition trust_purpose :: string where "trust_purpose = ''two-factor-trust-device''"

definition trust_name :: "two_factor \<Rightarrow> string" where "trust_name tf = tf_prefix tf @ ''.two_factor_trust''"
definition pending_name :: "two_factor \<Rightarrow> string" where "pending_name tf = tf_prefix tf @ ''.two_factor_pending''"

definition trust_value :: "two_factor \<Rightarrow> string \<Rightarrow> int \<Rightarrow> string" where
  "trust_value tf uid expires =
     (let payload = uid @ ''|'' @ itoa expires in payload @ ''|'' @ sign_hmac_purpose (tf_sign tf) (tf_key tf) trust_purpose payload)"

definition set_trusted_device :: "two_factor \<Rightarrow> gtime \<Rightarrow> string \<Rightarrow> ('s world, unit) act" where
  "set_trusted_device tf now uid =
     (if tf_trust tf \<le> 0 then ret ()
      else did (PluginCookie (trust_name tf) (trust_value tf uid (unix_sec (time_add now (tf_trust tf)))) (tf_trust tf div nsec_per_sec)))"

definition device_trusted :: "two_factor \<Rightarrow> gtime \<Rightarrow> string option \<Rightarrow> string \<Rightarrow> bool" where
  "device_trusted tf now cookie uid =
     (if tf_trust tf \<le> 0 then False
      else (case cookie of
        None \<Rightarrow> False
      | Some val \<Rightarrow>
          if val = '''' then False
          else (case str_cut (CHR ''|'') val of
            None \<Rightarrow> False
          | Some (i, rest) \<Rightarrow>
              (case str_cut (CHR ''|'') rest of
                 None \<Rightarrow> False
               | Some (expires, sig) \<Rightarrow>
                   if \<not> verify_hmac_purpose (tf_sign tf) (tf_key tf) trust_purpose (i @ ''|'' @ expires) sig then False
                   else if i \<noteq> uid then False
                   else (case parse_int64 expires of None \<Rightarrow> False | Some e \<Rightarrow> unix_sec now < e)))))"

section \<open>The challenge\<close>

definition set_pending :: "two_factor \<Rightarrow> string \<Rightarrow> ('s world, unit) act" where
  "set_pending tf tok = did (PluginCookie (pending_name tf) tok 600)"

definition clear_pending :: "two_factor \<Rightarrow> ('s world, unit) act" where
  "clear_pending tf = did (PluginCookie (pending_name tf) '''' (- 1))"

text \<open>The guard: \<open>True\<close> when a challenge is written instead of a session. An unreadable flag counts as set.\<close>

definition before_sign_in :: "'s auth \<Rightarrow> two_factor \<Rightarrow> req_ctx \<Rightarrow> string option \<Rightarrow> user \<Rightarrow> ('s world, bool) act" where
  "before_sign_in au tf cx trust u =
     (case map_of (u_extra u) ''twoFactorEnabled'' of
        None \<Rightarrow> ret False
      | Some v \<Rightarrow>
          if v = VNil \<or> v = VBool False then ret False
          else if device_trusted tf (cx_now cx) trust (u_id u) then ret False
          else bind (new_token au cx token_kind_pending (u_id u) pending_ttl) (\<lambda>tok.
               bind (set_pending tf tok) (\<lambda>_. ret True)))"

record challenge =
  ch_user :: user
  ch_token :: string
  ch_attempts :: int

definition parse_pending :: "string \<Rightarrow> string \<times> int" where
  "parse_pending val = (case str_cut (CHR ''|'') val of None \<Rightarrow> (val, 0) | Some (i, rest) \<Rightarrow> (i, atoi_lax rest))"

definition pending_challenge :: "'s auth \<Rightarrow> req_ctx \<Rightarrow> string option \<Rightarrow> ('s world, challenge) act" where
  "pending_challenge au cx cookie =
     (case cookie of
        None \<Rightarrow> fail err_unauthorized
      | Some tok \<Rightarrow>
          if tok = '''' then fail err_unauthorized
          else attempt (db (lookup_token (au_db au) (au_digest au) (cx_now cx) token_kind_pending tok)) (\<lambda>r. case r of
            Inl _ \<Rightarrow> fail err_unauthorized
          | Inr v \<Rightarrow>
              (let (uid, n) = parse_pending (v_value v) in
               attempt (db (find_user_by_id (au_db au) uid)) (\<lambda>r. case r of
                 Inl _ \<Rightarrow> fail err_unauthorized
               | Inr u \<Rightarrow> ret \<lparr>ch_user = u, ch_token = tok, ch_attempts = n\<rparr>))))"

definition factor_event :: "challenge \<Rightarrow> event" where
  "factor_event ch = blank_event\<lparr>ev_type := ''two_factor.verified'', ev_actor := u_id (ch_user ch), ev_email := u_email (ch_user ch)\<rparr>"

text \<open>A wrong guess: taken off the challenge first, which comes back with the count advanced.\<close>

definition fail_attempt :: "'s auth \<Rightarrow> two_factor \<Rightarrow> req_ctx \<Rightarrow> challenge \<Rightarrow> ('s world, 'a) act" where
  "fail_attempt au tf cx ch =
     attempt (db (consume_token (au_db au) (au_digest au) (cx_now cx) token_kind_pending (ch_token ch))) (\<lambda>r. case r of
       Inl _ \<Rightarrow> fail err_unauthorized
     | Inr val \<Rightarrow>
         (let n = wrap_int64 (snd (parse_pending val) + 1) in
          if n \<ge> max_verify_attempts
          then bind (clear_pending tf) (\<lambda>_.
               bind (emit cx (factor_event ch\<lparr>ev_outcome := ''failure'', ev_reason := ''too_many_attempts''\<rparr>)) (\<lambda>_.
               fail err_too_many))
          else bind (emit cx (factor_event ch\<lparr>ev_outcome := ''failure'', ev_reason := ''invalid_two_factor_code''\<rparr>)) (\<lambda>_.
               bind (ignore (db (store_token_value (au_db au) (au_digest au) (cx_now cx) (cx_fresh cx ''row:two-factor-pending'')
                       token_kind_pending (ch_token ch) (u_id (ch_user ch) @ ''|'' @ itoa n) pending_ttl))) (\<lambda>_.
               fail err_wrong_code))))"

datatype factor_reply =
    FactorOk
  | FactorTaken
  | FactorSession session user
  | Enrolled string "string list"
  | FactorUri string
  | FactorCodes "string list"

definition finish_factor :: "'s auth \<Rightarrow> two_factor \<Rightarrow> req_ctx \<Rightarrow> challenge \<Rightarrow> bool \<Rightarrow> ('s world, factor_reply) act" where
  "finish_factor au tf cx ch trust =
     (case run_sign_in_guards_after (au_plugins au) (ch_user ch) ''two-factor'' of
        Inl e \<Rightarrow> fail e
      | Inr True \<Rightarrow> ret FactorTaken
      | Inr False \<Rightarrow>
          bind (if trust then set_trusted_device tf (cx_now cx) (u_id (ch_user ch)) else ret ()) (\<lambda>_.
          bind (issue_session (au_db au) (au_hooks au) (au_session au) cx (ch_user ch) True [] (expires_in (au_session au))) (\<lambda>s.
          bind (emit cx (blank_event\<lparr>ev_type := ''sign_in'', ev_actor := u_id (ch_user ch), ev_email := u_email (ch_user ch),
                  ev_session := s_id s, ev_method := ''two-factor''\<rparr>)) (\<lambda>_.
          ret (FactorSession s (ch_user ch))))))"

definition complete_pending :: "'s auth \<Rightarrow> two_factor \<Rightarrow> req_ctx \<Rightarrow> challenge \<Rightarrow> bool \<Rightarrow> ('s world, factor_reply) act" where
  "complete_pending au tf cx ch trust =
     attempt (db (consume_token (au_db au) (au_digest au) (cx_now cx) token_kind_pending (ch_token ch))) (\<lambda>r. case r of
       Inl _ \<Rightarrow> fail err_unauthorized
     | Inr _ \<Rightarrow>
         bind (clear_pending tf) (\<lambda>_.
         bind (emit cx (factor_event ch\<lparr>ev_method := ''two-factor''\<rparr>)) (\<lambda>_.
         finish_factor au tf (cx\<lparr>cx_auth_method := ''two-factor''\<rparr>) ch trust)))"

section \<open>The row of a user\<close>

definition factor_row :: "'s adapter \<Rightarrow> string \<Rightarrow> ('s, grec) act" where
  "factor_row A uid = query (ad_find_one A model_two_factor [W ''userId'' (VStr uid)])"

definition record_int :: "gval \<Rightarrow> int" where
  "record_int v =
     (case v of VInt64 n \<Rightarrow> n | VInt n \<Rightarrow> n | VF64 (FFin q) \<Rightarrow> (if q < 0 then - \<lfloor>- q\<rfloor> else \<lfloor>q\<rfloor>) | _ \<Rightarrow> 0)"

text \<open>The compare-and-set that lets a time step be used once.\<close>

definition claim_counter :: "'s adapter \<Rightarrow> grec \<Rightarrow> int \<Rightarrow> ('s, bool) act" where
  "claim_counter A rec counter =
     (let seen = record_int (rget rec ''lastCounter'') in
      if counter \<le> seen then ret False
      else attempt (ad_update_many A model_two_factor [W ''id'' (rget rec ''id''), W ''lastCounter'' (VInt64 seen)]
                      [(''lastCounter'', VInt64 counter)]) (\<lambda>r. case r of Inl _ \<Rightarrow> ret False | Inr n \<Rightarrow> ret (n = 1)))"

definition factor_place :: "string \<Rightarrow> string \<Rightarrow> binding" where "factor_place i f = place model_two_factor i f"

definition seal_factor :: "two_factor \<Rightarrow> string \<Rightarrow> string \<Rightarrow> string \<Rightarrow> string result" where
  "seal_factor tf i f v =
     (let ro = tf_ring tf; b = factor_place i f
      in case encrypt (ro_env ro) (ro_ring ro) (ro_rand ro b) b v of
           Inl _ \<Rightarrow> Inl (OtherError ''encrypt'') | Inr c \<Rightarrow> Inr c)"

definition decrypt_secret :: "two_factor \<Rightarrow> grec \<Rightarrow> string result" where
  "decrypt_secret tf rec =
     (let ro = tf_ring tf
      in case decrypt (ro_env ro) (ro_ring ro) (factor_place (stored_string rec ''id'') ''secret'') (stored_string rec ''secret'') of
           Inl _ \<Rightarrow> Inl err_secret_unreadable
         | Inr s \<Rightarrow> if validate_totp_secret s then Inr s else Inl err_secret_unreadable)"

definition decrypt_codes :: "two_factor \<Rightarrow> string \<Rightarrow> string \<Rightarrow> string list result" where
  "decrypt_codes tf i enc =
     (let ro = tf_ring tf
      in case decrypt (ro_env ro) (ro_ring ro) (factor_place i ''backupCodes'') enc of
           Inl _ \<Rightarrow> Inl err_secret_unreadable
         | Inr raw \<Rightarrow> (case tf_read tf raw of None \<Rightarrow> Inl (OtherError ''json'') | Some codes \<Rightarrow> Inr codes))"

definition generate_codes :: "two_factor \<Rightarrow> req_ctx \<Rightarrow> string list" where
  "generate_codes tf cx = map (\<lambda>i. to_lower (cx_fresh cx (''code-'' @ show_nat i) @ ''-'' @ cx_fresh cx (''code+'' @ show_nat i)))
     [0..<nat (tf_code_count tf)]"

definition typed_code :: "string \<Rightarrow> string" where "typed_code c = trim_space (to_lower c)"

text \<open>A panic of the runtime.\<close>

definition no_panic :: "'a option \<Rightarrow> ('s, 'a) act" where
  "no_panic x = (case x of None \<Rightarrow> fail (OtherError ''panic'') | Some v \<Rightarrow> ret v)"

definition check_totp :: "two_factor \<Rightarrow> string \<Rightarrow> string \<Rightarrow> gtime \<Rightarrow> (int \<times> bool) option" where
  "check_totp tf secret code now = verify_totp_counter (tf_mac tf) secret code now (tf_period tf) (tf_digits tf) (tf_skew tf)"

definition two_factor_active :: "user \<Rightarrow> bool" where
  "two_factor_active u = (map_of (u_extra u) ''twoFactorEnabled'' = Some (VBool True))"

definition backup_code_matches :: "two_factor \<Rightarrow> grec \<Rightarrow> string \<Rightarrow> bool" where
  "backup_code_matches tf rec code =
     (case decrypt_codes tf (stored_string rec ''id'') (stored_string rec ''backupCodes'') of
        Inl _ \<Rightarrow> False | Inr codes \<Rightarrow> list_ex (\<lambda>c. c = typed_code code) codes)"

definition verify_existing :: "'s auth \<Rightarrow> two_factor \<Rightarrow> req_ctx \<Rightarrow> string \<Rightarrow> string \<Rightarrow> ('s world, bool) act" where
  "verify_existing au tf cx uid code =
     (if code = '''' then ret False
      else attempt (db (factor_row (au_db au) uid)) (\<lambda>r. case r of
        Inl _ \<Rightarrow> ret False
      | Inr rec \<Rightarrow>
          (case decrypt_secret tf rec of
             Inl _ \<Rightarrow> ret (backup_code_matches tf rec code)
           | Inr secret \<Rightarrow>
               bind (no_panic (check_totp tf secret code (cx_now cx))) (\<lambda>res.
               ret (snd res \<or> backup_code_matches tf rec code)))))"

definition verify_password :: "'s auth \<Rightarrow> string \<Rightarrow> string \<Rightarrow> ('s world, unit) act" where
  "verify_password au uid pw =
     (if pw = '''' then fail err_invalid_password
      else attempt (db (find_credential_account (au_db au) uid)) (\<lambda>acc. case acc of
        Inl _ \<Rightarrow> fail err_no_credential
      | Inr a \<Rightarrow> attempt (verify_with (au_hasher au) (a_password a) pw) (\<lambda>r.
          if r = Inr True then ret () else fail err_invalid_password)))"

text \<open>\<open>ReencryptSecrets\<close>: the plugin's part of a rotation.\<close>

definition reencrypt_factors :: "'s adapter \<Rightarrow> two_factor \<Rightarrow> 's \<Rightarrow> ('s \<times> tally) option" where
  "reencrypt_factors A tf = reencrypt_records A (tf_ring tf) model_two_factor [''secret'', ''backupCodes'']"

section \<open>Enrolment\<close>

record factor_body =
  fb_password :: string
  fb_code :: string

definition uri_for :: "two_factor \<Rightarrow> user \<Rightarrow> string \<Rightarrow> string option" where
  "uri_for tf u secret = totp_uri (tf_issuer tf) (u_email u) secret (tf_period tf) (tf_digits tf)"

text \<open>The old row goes only when the new values are sealed.\<close>

definition enrol :: "'s auth \<Rightarrow> two_factor \<Rightarrow> req_ctx \<Rightarrow> session_data \<Rightarrow> ('s world, factor_reply) act" where
  "enrol au tf cx sd =
     (let i = cx_fresh cx ''two-factor-id''; secret = generate_totp_secret (cx_fresh cx ''totp-secret''); codes = generate_codes tf cx;
          uid = u_id (sd_user sd) in
      bind (query (\<lambda>_. seal_factor tf i ''secret'' secret)) (\<lambda>enc.
      bind (query (\<lambda>_. seal_factor tf i ''backupCodes'' (tf_write tf codes))) (\<lambda>enc_codes.
      bind (query (\<lambda>_. case uri_for tf (sd_user sd) secret of None \<Rightarrow> Inl (OtherError ''secret'') | Some x \<Rightarrow> Inr x)) (\<lambda>uri.
      bind (ignore (db (ad_delete_many (au_db au) model_two_factor [W ''userId'' (VStr uid)]))) (\<lambda>_.
      bind (db (ad_create (au_db au) model_two_factor [(''id'', VStr i), (''userId'', VStr uid), (''secret'', VStr enc),
              (''backupCodes'', VStr enc_codes), (''lastCounter'', VInt64 0)])) (\<lambda>_.
      bind (if tf_skip_verify tf
            then bind (db (update_user (au_db au) (au_hooks au) (cx_now cx) uid [(''twoFactorEnabled'', VBool True)])) (\<lambda>_.
                 emit cx (session_event sd\<lparr>ev_type := ''two_factor.enabled''\<rparr>))
            else ret ()) (\<lambda>_.
      bind (emit cx (session_event sd\<lparr>ev_type := ''two_factor.backup_codes_generated'', ev_action := ''enrol''\<rparr>)) (\<lambda>_.
      ret (Enrolled uri codes)))))))))"

definition handle_enable :: "'s auth \<Rightarrow> two_factor \<Rightarrow> req_ctx \<Rightarrow> session_data result \<Rightarrow> factor_body option \<Rightarrow> ('s world, factor_reply) act" where
  "handle_enable au tf cx sess body =
     bind (require_session sess) (\<lambda>sd.
     bind (need_body body) (\<lambda>b.
     bind (verify_password au (u_id (sd_user sd)) (fb_password b)) (\<lambda>_.
     if two_factor_active (sd_user sd)
     then bind (verify_existing au tf cx (u_id (sd_user sd)) (fb_code b)) (\<lambda>ok.
          if \<not> ok then fail err_code_required else enrol au tf cx sd)
     else enrol au tf cx sd)))"

definition handle_disable :: "'s auth \<Rightarrow> req_ctx \<Rightarrow> session_data result \<Rightarrow> factor_body option \<Rightarrow> ('s world, factor_reply) act" where
  "handle_disable au cx sess body =
     bind (require_session sess) (\<lambda>sd.
     bind (need_body body) (\<lambda>b.
     bind (verify_password au (u_id (sd_user sd)) (fb_password b)) (\<lambda>_.
     bind (db (ad_delete_many (au_db au) model_two_factor [W ''userId'' (VStr (u_id (sd_user sd)))])) (\<lambda>_.
     bind (db (update_user (au_db au) (au_hooks au) (cx_now cx) (u_id (sd_user sd)) [(''twoFactorEnabled'', VBool False)])) (\<lambda>_.
     bind (emit cx (session_event sd\<lparr>ev_type := ''two_factor.disabled''\<rparr>)) (\<lambda>_.
     ret FactorOk))))))"

definition own_row :: "'s auth \<Rightarrow> session_data \<Rightarrow> ('s world, grec) act" where
  "own_row au sd = attempt (db (factor_row (au_db au) (u_id (sd_user sd)))) (\<lambda>r. case r of
     Inl _ \<Rightarrow> fail err_not_enabled | Inr rec \<Rightarrow> ret rec)"

definition handle_get_totp_uri :: "'s auth \<Rightarrow> two_factor \<Rightarrow> session_data result \<Rightarrow> factor_body option \<Rightarrow> ('s world, factor_reply) act" where
  "handle_get_totp_uri au tf sess body =
     bind (require_session sess) (\<lambda>sd.
     bind (need_body body) (\<lambda>b.
     bind (verify_password au (u_id (sd_user sd)) (fb_password b)) (\<lambda>_.
     bind (own_row au sd) (\<lambda>rec.
     bind (query (\<lambda>_. decrypt_secret tf rec)) (\<lambda>secret.
     case uri_for tf (sd_user sd) secret of None \<Rightarrow> fail err_secret_unreadable | Some uri \<Rightarrow> ret (FactorUri uri))))))"

definition handle_generate_codes :: "'s auth \<Rightarrow> two_factor \<Rightarrow> req_ctx \<Rightarrow> session_data result \<Rightarrow> factor_body option \<Rightarrow> ('s world, factor_reply) act" where
  "handle_generate_codes au tf cx sess body =
     bind (require_session sess) (\<lambda>sd.
     bind (need_body body) (\<lambda>b.
     bind (verify_password au (u_id (sd_user sd)) (fb_password b)) (\<lambda>_.
     bind (own_row au sd) (\<lambda>rec.
     (let i = stored_string rec ''id''; codes = generate_codes tf cx in
      bind (query (\<lambda>_. seal_factor tf i ''backupCodes'' (tf_write tf codes))) (\<lambda>enc.
      bind (db (ad_update (au_db au) model_two_factor [W ''id'' (VStr i)] [(''backupCodes'', VStr enc)])) (\<lambda>_.
      bind (emit cx (session_event sd\<lparr>ev_type := ''two_factor.backup_codes_generated'', ev_action := ''regenerate''\<rparr>)) (\<lambda>_.
      ret (FactorCodes codes)))))))))"

section \<open>Answering\<close>

record answer_body =
  an_code :: string
  an_trust :: bool

definition answer_totp :: "'s auth \<Rightarrow> two_factor \<Rightarrow> req_ctx \<Rightarrow> challenge \<Rightarrow> answer_body \<Rightarrow> ('s world, factor_reply) act" where
  "answer_totp au tf cx ch b =
     attempt (db (factor_row (au_db au) (u_id (ch_user ch)))) (\<lambda>r. case r of
       Inl _ \<Rightarrow> fail err_unauthorized
     | Inr rec \<Rightarrow>
         bind (query (\<lambda>_. decrypt_secret tf rec)) (\<lambda>secret.
         bind (no_panic (check_totp tf secret (an_code b) (cx_now cx))) (\<lambda>res.
         if \<not> snd res then fail_attempt au tf cx ch
         else bind (db (claim_counter (au_db au) rec (fst res))) (\<lambda>claimed.
              if \<not> claimed then fail_attempt au tf cx ch else complete_pending au tf cx ch (an_trust b)))))"

definition confirm_totp :: "'s auth \<Rightarrow> two_factor \<Rightarrow> req_ctx \<Rightarrow> session_data \<Rightarrow> answer_body \<Rightarrow> ('s world, factor_reply) act" where
  "confirm_totp au tf cx sd b =
     bind (own_row au sd) (\<lambda>rec.
     bind (query (\<lambda>_. decrypt_secret tf rec)) (\<lambda>secret.
     bind (no_panic (check_totp tf secret (an_code b) (cx_now cx))) (\<lambda>res.
     if \<not> snd res then fail err_wrong_code
     else bind (db (update_user (au_db au) (au_hooks au) (cx_now cx) (u_id (sd_user sd)) [(''twoFactorEnabled'', VBool True)])) (\<lambda>_.
          bind (emit cx (session_event sd\<lparr>ev_type := ''two_factor.enabled''\<rparr>)) (\<lambda>_. ret FactorOk)))))"

definition handle_verify_totp ::
  "'s auth \<Rightarrow> two_factor \<Rightarrow> req_ctx \<Rightarrow> string option \<Rightarrow> session_data result \<Rightarrow> answer_body option \<Rightarrow> ('s world, factor_reply) act" where
  "handle_verify_totp au tf cx cookie sess body =
     bind (need_body body) (\<lambda>b.
     attempt (pending_challenge au cx cookie) (\<lambda>r. case r of
       Inr ch \<Rightarrow> answer_totp au tf cx ch b
     | Inl _ \<Rightarrow> bind (require_session sess) (\<lambda>sd. confirm_totp au tf cx sd b)))"

definition send_code :: "'s auth \<Rightarrow> two_factor \<Rightarrow> req_ctx \<Rightarrow> (user \<Rightarrow> string \<Rightarrow> gerror option) \<Rightarrow> user \<Rightarrow> ('s world, factor_reply) act" where
  "send_code au tf cx send u =
     (let otp = cx_fresh cx ''otp'' in
      bind (db (store_token_value (au_db au) (au_digest au) (cx_now cx) (cx_fresh cx ''row:two-factor-otp'') token_kind_otp (u_id u)
                  (au_digest au otp) (tf_otp_ttl tf))) (\<lambda>_.
      case send u otp of Some _ \<Rightarrow> fail (ApiError 500 ''FAILED_TO_SEND_OTP'') | None \<Rightarrow> ret FactorOk))"

text \<open>The two endpoints exist only with a mailer.\<close>

definition handle_send_otp ::
  "'s auth \<Rightarrow> two_factor \<Rightarrow> req_ctx \<Rightarrow> (user \<Rightarrow> string \<Rightarrow> gerror option) \<Rightarrow> string option \<Rightarrow> session_data result \<Rightarrow> ('s world, factor_reply) act" where
  "handle_send_otp au tf cx send cookie sess =
     attempt (pending_challenge au cx cookie) (\<lambda>r. case r of
       Inr ch \<Rightarrow> send_code au tf cx send (ch_user ch)
     | Inl _ \<Rightarrow> bind (require_session sess) (\<lambda>sd. send_code au tf cx send (sd_user sd)))"

definition handle_verify_otp :: "'s auth \<Rightarrow> two_factor \<Rightarrow> req_ctx \<Rightarrow> string option \<Rightarrow> answer_body option \<Rightarrow> ('s world, factor_reply) act" where
  "handle_verify_otp au tf cx cookie body =
     bind (need_body body) (\<lambda>b.
     bind (pending_challenge au cx cookie) (\<lambda>ch.
     attempt (db (lookup_token (au_db au) (au_digest au) (cx_now cx) token_kind_otp (u_id (ch_user ch)))) (\<lambda>r. case r of
       Inl _ \<Rightarrow> fail (ApiError 401 ''INVALID_OTP'')
     | Inr v \<Rightarrow>
         if v_value v \<noteq> au_digest au (an_code b) then fail_attempt au tf cx ch
         else bind (ignore (db (delete_verification (au_db au) (v_id v)))) (\<lambda>_.
              complete_pending au tf cx ch (an_trust b)))))"

fun remove_code :: "string \<Rightarrow> string list \<Rightarrow> string list option" where
  "remove_code c [] = None"
| "remove_code c (x # xs) = (if x = c then Some xs else map_option ((#) x) (remove_code c xs))"

definition handle_verify_backup :: "'s auth \<Rightarrow> two_factor \<Rightarrow> req_ctx \<Rightarrow> string option \<Rightarrow> answer_body option \<Rightarrow> ('s world, factor_reply) act" where
  "handle_verify_backup au tf cx cookie body =
     bind (need_body body) (\<lambda>b.
     bind (pending_challenge au cx cookie) (\<lambda>ch.
     attempt (db (factor_row (au_db au) (u_id (ch_user ch)))) (\<lambda>r. case r of
       Inl _ \<Rightarrow> fail err_unauthorized
     | Inr rec \<Rightarrow>
         (let enc = stored_string rec ''backupCodes''; i = stored_string rec ''id'' in
          bind (query (\<lambda>_. decrypt_codes tf i enc)) (\<lambda>codes.
          case remove_code (typed_code (an_code b)) codes of
            None \<Rightarrow> fail_attempt au tf cx ch
          | Some remaining \<Rightarrow>
              bind (query (\<lambda>_. seal_factor tf i ''backupCodes'' (tf_write tf remaining))) (\<lambda>enc'.
              bind (db (ad_update_many (au_db au) model_two_factor [W ''id'' (VStr i), W ''backupCodes'' (VStr enc)]
                          [(''backupCodes'', VStr enc')])) (\<lambda>n.
              if n = 0 then fail (ApiError 409 ''RETRY'') else complete_pending au tf cx ch (an_trust b))))))))"

section \<open>Simulation\<close>

context storage_contract
begin

lemma factor_small_sims:
  assumes db: "au_db au = A"
  shows "sim \<alpha>' I' (no_panic x) (no_panic x)"
    and "sim (wmap \<alpha>) (winv I) (set_pending tf t) (set_pending tf t)"
    and "sim (wmap \<alpha>) (winv I) (clear_pending tf) (clear_pending tf)"
    and "sim (wmap \<alpha>) (winv I) (set_trusted_device tf now uid) (set_trusted_device tf now uid)"
    and "sim \<alpha> I (factor_row A uid) (factor_row spec_adapter uid)"
    and "sim (wmap \<alpha>) (winv I) (verify_password au uid pw) (verify_password (on_spec au) uid pw)"
    and "sim (wmap \<alpha>) (winv I) (pending_challenge au cx cookie) (pending_challenge (on_spec au) cx cookie)"
    and "sim (wmap \<alpha>) (winv I) (fail_attempt au tf cx ch) (fail_attempt (on_spec au) tf cx ch)"
  unfolding no_panic_def set_pending_def clear_pending_def set_trusted_device_def factor_row_def verify_password_def db on_spec_sel
    pending_challenge_def fail_attempt_def Let_def
  by (auto intro!: sim_intros store_sims storage_sims token_sims split: option.splits prod.splits)

lemma claim_counter_sim:
  assumes "''lastCounter'' \<notin> set (uniq_in S model_two_factor)"
  shows "sim \<alpha> I (claim_counter A rec c) (claim_counter spec_adapter rec c)"
  unfolding claim_counter_def Let_def
  using assms by (auto intro!: sim_intros storage_sims simp: ghas_def split: if_splits)

lemma complete_pending_sim:
  assumes db: "au_db au = A" and "hooks_ok (au_hooks au)"
  shows "sim (wmap \<alpha>) (winv I) (complete_pending au tf cx ch b) (complete_pending (on_spec au) tf cx ch b)"
proof -
  have "sim (wmap \<alpha>) (winv I) (finish_factor au tf c ch b) (finish_factor (on_spec au) tf c ch b)" for c
    using assms(2) unfolding finish_factor_def db on_spec_sel
    by (auto intro!: sim_intros factor_small_sims[OF db] effect_sims simp: ghas_def split: bool.splits sum.splits)
  then show ?thesis unfolding complete_pending_def db on_spec_sel
    by (auto intro!: sim_intros token_sims factor_small_sims[OF db])
qed

lemma answer_sims:
  assumes db: "au_db au = A" and hooks: "hooks_ok (au_hooks au)"
    and uniq: "''lastCounter'' \<notin> set (uniq_in S model_two_factor)" "''backupCodes'' \<notin> set (uniq_in S model_two_factor)"
  shows "sim (wmap \<alpha>) (winv I) (handle_verify_totp au tf cx cookie sess b) (handle_verify_totp (on_spec au) tf cx cookie sess b)"
    and "sim (wmap \<alpha>) (winv I) (handle_verify_otp au tf cx cookie b) (handle_verify_otp (on_spec au) tf cx cookie b)"
    and "sim (wmap \<alpha>) (winv I) (handle_verify_backup au tf cx cookie b) (handle_verify_backup (on_spec au) tf cx cookie b)"
proof -
  note small = factor_small_sims[OF db] claim_counter_sim[OF uniq(1)] complete_pending_sim[OF db hooks]
  have totp: "sim (wmap \<alpha>) (winv I) (answer_totp au tf cx ch b) (answer_totp (on_spec au) tf cx ch b)" for ch b
    unfolding answer_totp_def db on_spec_sel by (auto intro!: sim_intros small)
  have "sim (wmap \<alpha>) (winv I) (confirm_totp au tf cx sd b) (confirm_totp (on_spec au) tf cx sd b)" for sd b
    unfolding confirm_totp_def own_row_def db on_spec_sel using hooks by (auto intro!: sim_intros store_sims small simp: ghas_def)
  then show "sim (wmap \<alpha>) (winv I) (handle_verify_totp au tf cx cookie sess b) (handle_verify_totp (on_spec au) tf cx cookie sess b)"
    unfolding handle_verify_totp_def by (auto intro!: sim_intros small totp)
  show "sim (wmap \<alpha>) (winv I) (handle_verify_otp au tf cx cookie b) (handle_verify_otp (on_spec au) tf cx cookie b)"
    unfolding handle_verify_otp_def db on_spec_sel by (auto intro!: sim_intros store_sims token_sims small)
  show "sim (wmap \<alpha>) (winv I) (handle_verify_backup au tf cx cookie b) (handle_verify_backup (on_spec au) tf cx cookie b)"
    unfolding handle_verify_backup_def Let_def db on_spec_sel using uniq(2)
    by (auto intro!: sim_intros storage_sims small simp: ghas_def split: option.splits if_splits)
qed

end

end
