(* ===== verification/Account_Laws.thy ===== *)
theory Account_Laws
  imports Accounts Row_Steps Demo
begin

text \<open>
  Who may verify, move or delete an address or an account, and that the last way to sign
  in is not given up by accident.
\<close>

section \<open>Frames of the handlers\<close>

lemma wonly_replies [frame_intros]:
  "wonly M (redirect_or au cb rep)" "wonly M (verify_failed au cb)" "wonly M (check e)"
  unfolding redirect_or_def verify_failed_def check_def by (auto intro!: frame_intros split: option.splits)

lemma verify_failed_keeps: "verify_failed au cb w = (w', r) \<Longrightarrow> w' = w"
  by (auto simp: verify_failed_def split: option.splits if_splits)

section \<open>Verifying an address\<close>

lemma mark_verified_rows:
  assumes db: "au_db au = spec_adapter" "au_hooks au = no_hooks" and t: "sd_table (w_db w) model_user = Some user_table"
    and run: "mark_verified au cx u w = (w', r)"
  shows "same_rows {model_user} (w_db w) (w_db w')"
    and "row' \<in> set (urows (w_db w')) \<Longrightarrow> row' \<in> set (urows (w_db w)) \<or>
      (\<exists>row\<in>set (urows (w_db w)). with_str ''id'' (u_id u) row \<and>
         row' = gmerge row (gput [(''emailVerified'', VBool True)] ''updatedAt'' (VTime (cx_now cx))))"
proof -
  obtain d r1 where up: "update_user spec_adapter no_hooks (cx_now cx) (u_id u) [(''emailVerified'', VBool True)] (w_db w) = (d, r1)"
    by (meson surj_pair)
  consider "w_db w' = w_db w" | u1 where "r1 = Inr u1" "w_db w' = d"
    using run up update_user_error[of "cx_now cx" "u_id u" "[(''emailVerified'', VBool True)]" "w_db w"]
    by (cases r1) (auto simp: mark_verified_def db bind_db split: if_splits)
  then have "same_rows {model_user} (w_db w) (w_db w') \<and> (\<forall>row'. row' \<in> set (urows (w_db w')) \<longrightarrow> row' \<in> set (urows (w_db w)) \<or>
      (\<exists>row\<in>set (urows (w_db w)). with_str ''id'' (u_id u) row \<and>
         row' = gmerge row (gput [(''emailVerified'', VBool True)] ''updatedAt'' (VTime (cx_now cx)))))"
  proof cases
    case 1
    then show ?thesis by (simp add: same_rows_def)
  next
    case 2
    show ?thesis using update_user_rows[OF t up[unfolded 2(1)]] unfolding 2(2) by blast
  qed
  then show "same_rows {model_user} (w_db w) (w_db w')"
    and "row' \<in> set (urows (w_db w')) \<Longrightarrow> row' \<in> set (urows (w_db w)) \<or>
      (\<exists>row\<in>set (urows (w_db w)). with_str ''id'' (u_id u) row \<and>
         row' = gmerge row (gput [(''emailVerified'', VBool True)] ''updatedAt'' (VTime (cx_now cx))))" by blast+
qed

lemma wonly_after_confirm:
  "au_db au = spec_adapter \<Longrightarrow> wonly {model_session} (after_confirm au cx cb u)"
  unfolding after_confirm_def by (auto intro!: frame_intros split: option.splits)

lemma wonly_after_change:
  assumes db: "au_db au = spec_adapter"
  shows "wonly {model_verification} (after_change au cx cb u)"
  unfolding after_change_def by (auto intro!: frame_intros wonly_mail[OF db])

text \<open>How a token of a kind allows a row to be changed into another one.\<close>

definition token_permits :: "gtime \<Rightarrow> string \<Rightarrow> string \<Rightarrow> grec \<Rightarrow> grec \<Rightarrow> bool" where
  "token_permits now kind val row row' \<longleftrightarrow>
     (\<exists>uid e. str_cut (CHR ''|'') val = Some (uid, e) \<and> with_str ''id'' uid row \<and>
        (kind = token_kind_verify \<and> equal_fold (u_email (user_from_map row)) e \<and>
           row' = gmerge row (gput [(''emailVerified'', VBool True)] ''updatedAt'' (VTime now)) \<or>
         kind = token_kind_change \<and>
           row' = gmerge row (gput [(''email'', VStr (normalize_email e)), (''emailVerified'', VBool False)] ''updatedAt'' (VTime now))))"

definition permitted_step :: "gtime \<Rightarrow> string \<Rightarrow> string \<Rightarrow> sdb \<Rightarrow> sdb \<Rightarrow> bool" where
  "permitted_step now kind val d d' \<longleftrightarrow>
     (\<forall>row'\<in>set (urows d'). row' \<in> set (urows d) \<or> (\<exists>row\<in>set (urows d). token_permits now kind val row row'))"

lemma permitted_same: "same_rows M d d' \<Longrightarrow> model_user \<notin> M \<Longrightarrow> permitted_step now kind val d d'"
  by (simp add: permitted_step_def same_rows_def)

lemma permitted_then_same: "permitted_step now kind val d d1 \<Longrightarrow> same_rows M d1 d' \<Longrightarrow> model_user \<notin> M \<Longrightarrow> permitted_step now kind val d d'"
  by (simp add: permitted_step_def same_rows_def)

lemma bind_step: "bind f k s = (s', r) \<Longrightarrow> \<exists>s1 r1. f s = (s1, r1) \<and> (case r1 of Inl e \<Rightarrow> s' = s1 | Inr x \<Rightarrow> k x s1 = (s', r))"
  by (auto simp: bind_def split: prod.splits sum.splits)

lemma wonly_same: "wonly M f \<Longrightarrow> f w = (w', r) \<Longrightarrow> same_rows M (w_db w) (w_db w')"
  by (metis fst_conv moves_def same_world_rows_def)

lemma confirm_address_rows:
  assumes db: "au_db au = spec_adapter" "au_hooks au = no_hooks" and core: "core_db (w_db w)"
    and run: "confirm_address au cx val cb w = (w', r)"
  shows "permitted_step (cx_now cx) token_kind_verify val (w_db w) (w_db w')"
proof -
  have t: "sd_table (w_db w) model_user = Some user_table" using core by (simp add: core_db_def)
  have failed: "verify_failed au cb w = (w', r) \<Longrightarrow> ?thesis"
    using verify_failed_keeps[of au cb w w' r] by (auto simp: permitted_step_def)
  show ?thesis
  proof (cases "str_cut (CHR ''|'') val")
    case None
    then show ?thesis using run failed by (simp add: confirm_address_def)
  next
    case (Some p)
    then obtain uid e where cut: "str_cut (CHR ''|'') val = Some (uid, e)" by (cases p) auto
    show ?thesis
    proof (cases "user_named au uid w")
      case (Inl x)
      then show ?thesis using run failed cut by (simp add: confirm_address_def)
    next
      case (Inr u0)
      have "find_user_by_id spec_adapter uid (w_db w) = (w_db w, Inr u0)"
        using find_user_by_id_run[of spec_adapter uid "w_db w"] Inr db by simp
      from user_found[OF t this] obtain row0 where row0: "row0 \<in> set (urows (w_db w))" "with_str ''id'' uid row0"
        "u0 = user_from_map row0" "u_id u0 = uid" by blast
      show ?thesis
      proof (cases "equal_fold (u_email u0) e")
        case False
        then show ?thesis using run failed cut Inr by (simp add: confirm_address_def)
      next
        case True
        have "bind (mark_verified au cx u0) (after_confirm au cx cb) w = (w', r)" using run cut Inr True by (simp add: confirm_address_def)
        from bind_step[OF this] obtain w1 r1 where mv: "mark_verified au cx u0 w = (w1, r1)"
          and rest: "case r1 of Inl e \<Rightarrow> w' = w1 | Inr x \<Rightarrow> after_confirm au cx cb x w1 = (w', r)" by blast
        have "permitted_step (cx_now cx) token_kind_verify val (w_db w) (w_db w1)"
          unfolding permitted_step_def
        proof (rule ballI)
          fix row' assume "row' \<in> set (urows (w_db w1))"
          from mark_verified_rows(2)[OF db t mv this] show "row' \<in> set (urows (w_db w)) \<or>
              (\<exists>row\<in>set (urows (w_db w)). token_permits (cx_now cx) token_kind_verify val row row')"
          proof
            assume "\<exists>row\<in>set (urows (w_db w)). with_str ''id'' (u_id u0) row \<and>
               row' = gmerge row (gput [(''emailVerified'', VBool True)] ''updatedAt'' (VTime (cx_now cx)))"
            then obtain row where row: "row \<in> set (urows (w_db w))" "with_str ''id'' uid row"
              "row' = gmerge row (gput [(''emailVerified'', VBool True)] ''updatedAt'' (VTime (cx_now cx)))"
              using row0(4) by blast
            have "row = row0" by (rule user_row_unique[OF core row0(1) row(1) row0(2) row(2)])
            then have "token_permits (cx_now cx) token_kind_verify val row row'"
              unfolding token_permits_def using cut row True row0(3) by blast
            then show ?thesis using row(1) by blast
          qed blast
        qed
        moreover have "same_rows {model_session} (w_db w1) (w_db w')"
        proof (cases r1)
          case (Inl e)
          then show ?thesis using rest by (simp add: same_rows_def)
        next
          case r1: (Inr x)
          then show ?thesis using rest wonly_same[OF wonly_after_confirm[OF db(1)]] by simp
        qed
        ultimately show ?thesis by (rule permitted_then_same) (simp add: model_names)
      qed
    qed
  qed
qed

lemma approve_change_rows:
  assumes db: "au_db au = spec_adapter" "au_hooks au = no_hooks" and core: "core_db (w_db w)"
    and run: "approve_change au cx val cb w = (w', r)"
  shows "permitted_step (cx_now cx) token_kind_change val (w_db w) (w_db w')"
proof -
  let ?U = "\<lambda>new. [(''email'', VStr (normalize_email new)), (''emailVerified'', VBool False)]"
  have t: "sd_table (w_db w) model_user = Some user_table" using core by (simp add: core_db_def)
  have keep: "w_db w' = w_db w \<Longrightarrow> ?thesis" by (auto simp: permitted_step_def)
  show ?thesis
  proof (cases "str_cut (CHR ''|'') val")
    case None
    then show ?thesis using run verify_failed_keeps[of au cb w w' r] by (intro keep) (simp add: approve_change_def)
  next
    case (Some p)
    then obtain uid new where cut: "str_cut (CHR ''|'') val = Some (uid, new)" by (cases p) auto
    show ?thesis
    proof (cases "user_named au uid w")
      case (Inl x)
      then show ?thesis using run verify_failed_keeps[of au cb w w' r] cut by (intro keep) (simp add: approve_change_def)
    next
      case found: (Inr u0)
      have "find_user_by_id spec_adapter uid (w_db w) = (w_db w, Inr u0)"
        using find_user_by_id_run[of spec_adapter uid "w_db w"] found db by simp
      from user_found[OF t this] have u0: "u_id u0 = uid" by blast
      obtain d r1 where au: "update_user (au_db au) (au_hooks au) (cx_now cx) uid (?U new) (w_db w) = (d, r1)"
        by (meson surj_pair)
      note up = au[unfolded db] and step = run cut found u0 au
      show ?thesis
      proof (cases r1)
        case (Inl e)
        then have "d = w_db w" using update_user_error up by simp
        then show ?thesis using step Inl
          by (intro keep) (auto simp: approve_change_def attempt_db[of "update_user _ _ _ _ _"] split: if_splits)
      next
        case (Inr u1)
        consider "w_db w' = w_db w" | "after_change au cx cb u1 (w\<lparr>w_db := d\<rparr>) = (w', r)"
          using step Inr by (auto simp: approve_change_def attempt_db[of "update_user _ _ _ _ _"] split: if_splits)
        then show ?thesis
        proof cases
          case 2
          have "permitted_step (cx_now cx) token_kind_change val (w_db w) d"
            unfolding permitted_step_def token_permits_def
            using update_user_rows(2)[OF t up[unfolded Inr]] cut by blast
          moreover have "same_rows {model_verification} d (w_db w')"
            using wonly_same[OF wonly_after_change[OF db(1)] 2] by simp
          ultimately show ?thesis by (rule permitted_then_same) (simp add: model_names)
        qed (rule keep)
      qed
    qed
  qed
qed

text \<open>Consuming a token moves nothing but verifications, whether it succeeds or not.\<close>

lemma consume_frame:
  assumes "consume_token spec_adapter digest now kind tok d = (d1, r)"
  shows "same_rows {model_verification} d d1" and "row \<in> set (vrows d1) \<Longrightarrow> row \<in> set (vrows d)"
proof -
  have "only {model_verification} (consume_token spec_adapter digest now kind tok)" by (auto intro!: frame_intros)
  from movesD[OF this assms] show "same_rows {model_verification} d d1" .
  have "moves (new_rows model_verification (\<lambda>_. False)) (consume_token spec_adapter digest now kind tok)" by (rule frame_intros)
  from movesD[OF this assms] show "row \<in> set (vrows d1) \<Longrightarrow> row \<in> set (vrows d)" by (simp add: new_rows_def)
qed

lemma consume_core:
  assumes "core_db d" and "consume_token spec_adapter digest now kind tok d = (d1, r)"
  shows "core_db d1"
  by (rule core_db_keep[OF assms(1), where f = "consume_token spec_adapter digest now kind tok"]) (rule spec.token_sims, rule assms(2))

definition token_for :: "(string \<Rightarrow> string) \<Rightarrow> gtime \<Rightarrow> string \<Rightarrow> string \<Rightarrow> grec \<Rightarrow> bool" where
  "token_for digest now kind tok row \<longleftrightarrow>
     with_identifier (token_identifier digest kind tok) row \<and> v_expires (verification_from_map row) > now"

lemma perform_verify_spec:
  assumes db: "au_db au = spec_adapter" "au_hooks au = no_hooks" and core: "core_db (w_db w)"
    and run: "perform_verify_email au cx tok cb w = (w', r)"
    and new: "row' \<in> set (urows (w_db w'))" "row' \<notin> set (urows (w_db w))"
  shows "\<exists>kind. \<exists>vrow\<in>set (vrows (w_db w)). \<exists>row\<in>set (urows (w_db w)).
    token_for (au_digest au) (cx_now cx) kind tok vrow
    \<and> token_permits (cx_now cx) kind (v_value (verification_from_map vrow)) row row'"
proof -
  let ?C = "\<lambda>kind. consume_token spec_adapter (au_digest au) (cx_now cx) kind tok"
  have ne: "tok \<noteq> ''''" using run new verify_failed_keeps[of au cb w w' r] by (auto simp: perform_verify_email_def)
  obtain d1 r1 where c1: "?C token_kind_change (w_db w) = (d1, r1)" by (meson surj_pair)
  note f1 = consume_frame[OF c1] and core1 = consume_core[OF core c1]
  have u1: "urows d1 = urows (w_db w)" using f1(1) by (simp add: same_rows_def model_names)
  have found: "\<exists>vrow\<in>set (vrows d). token_for (au_digest au) (cx_now cx) kind tok vrow \<and> v_value (verification_from_map vrow) = val"
    if "core_db d" "?C kind d = (d', Inr val)" for kind d d' val
    using consume_ok[OF _ that(2)] that(1) by (auto simp: core_db_def token_for_def)
  show ?thesis
  proof (cases r1)
    case (Inr val)
    have "approve_change au cx val cb (w\<lparr>w_db := d1\<rparr>) = (w', r)"
      using run ne c1 Inr by (simp add: perform_verify_email_def attempt_db db)
    from approve_change_rows[OF db _ this] core1 new obtain row where
      "row \<in> set (urows (w_db w))" "token_permits (cx_now cx) token_kind_change val row row'"
      by (auto simp: permitted_step_def u1)
    then show ?thesis using found[OF core c1[unfolded Inr]] by blast
  next
    case (Inl e)
    obtain d2 r2 where c2: "?C token_kind_verify d1 = (d2, r2)" by (meson surj_pair)
    note f2 = consume_frame[OF c2] and core2 = consume_core[OF core1 c2]
    have u2: "urows d2 = urows (w_db w)" using f2(1) u1 by (simp add: same_rows_def model_names)
    show ?thesis
    proof (cases r2)
      case (Inl e2)
      then have "verify_failed au cb (w\<lparr>w_db := d2\<rparr>) = (w', r)"
        using run ne c1 \<open>r1 = Inl e\<close> c2 by (simp add: perform_verify_email_def attempt_db db)
      then show ?thesis using verify_failed_keeps[of au cb "w\<lparr>w_db := d2\<rparr>" w' r] new u2 by simp
    next
      case (Inr val)
      then have "confirm_address au cx val cb (w\<lparr>w_db := d2\<rparr>) = (w', r)"
        using run ne c1 \<open>r1 = Inl e\<close> c2 by (simp add: perform_verify_email_def attempt_db db)
      from confirm_address_rows[OF db _ this] core2 new obtain row where
        "row \<in> set (urows (w_db w))" "token_permits (cx_now cx) token_kind_verify val row row'"
        by (auto simp: permitted_step_def u2)
      then show ?thesis using found[OF core1 c2[unfolded Inr]] f1(2) by blast
    qed
  qed
qed

text \<open>
  C25: following a verification link on the in-memory store changes a user only by a live
  token. A verification token marks the address verified, and only while the user still
  has the address the token was sent to. A change token moves the user it was issued to, to
  the address it was issued for, which is then unverified. Nothing else about a user changes.
\<close>

theorem verified_email_was_proven:
  assumes "has_core_tables sc" and "mem_inv (Some sc) (w_db w)" and "au_db au = mem_adapter" and "au_hooks au = no_hooks"
    and "perform_verify_email au cx tok cb w = (w', r)"
    and "row' \<in> set (mem_rows (w_db w') model_user)" and "row' \<notin> set (mem_rows (w_db w) model_user)"
  shows "\<exists>vrow\<in>set (mem_rows (w_db w) model_verification). \<exists>row\<in>set (mem_rows (w_db w) model_user). \<exists>uid e.
    str_cut (CHR ''|'') (v_value (verification_from_map vrow)) = Some (uid, e) \<and> with_str ''id'' uid row
    \<and> v_expires (verification_from_map vrow) > cx_now cx
    \<and> (with_identifier (token_identifier (au_digest au) token_kind_verify tok) vrow
         \<and> equal_fold (u_email (user_from_map row)) e
         \<and> row' = gmerge row (gput [(''emailVerified'', VBool True)] ''updatedAt'' (VTime (cx_now cx)))
       \<or> with_identifier (token_identifier (au_digest au) token_kind_change tok) vrow
         \<and> row' = gmerge row (gput [(''email'', VStr (normalize_email e)), (''emailVerified'', VBool False)]
                     ''updatedAt'' (VTime (cx_now cx))))"
proof -
  have core: "core_db (w_db (wmap mem_abs w))" using core_db_mem assms(1,2) by simp
  have "winv (mem_inv (Some sc)) w" using assms(2) by (simp add: winv_def)
  from simD[OF mem.perform_verify_email_sim[OF assms(3)] this assms(5)] assms(4)
  have run: "perform_verify_email (on_spec au) cx tok cb (wmap mem_abs w) = (wmap mem_abs w', r)" by simp
  from perform_verify_spec[OF _ _ core run, of row'] assms(4,6,7)
  obtain kind vrow row where *: "vrow \<in> set (mem_rows (w_db w) model_verification)" "row \<in> set (mem_rows (w_db w) model_user)"
    "token_for (au_digest au) (cx_now cx) kind tok vrow" "token_permits (cx_now cx) kind (v_value (verification_from_map vrow)) row row'"
    by auto
  then show ?thesis unfolding token_for_def token_permits_def by blast
qed

definition pending_user :: user where "pending_user = demo_user_row\<lparr>u_email_verified := False\<rparr>"

definition pending_rows :: "(string \<times> grec) list" where
  "pending_rows = [(model_user, user_to_map pending_user),
     (model_verification, verification_to_map (demo_verification
        \<lparr>v_identifier := ''email-verification:e1'', v_value := ''u1|ann@example.com''\<rparr>))]"

lemma verified_email_was_proven_witness:
  "\<exists>w' r row'. perform_verify_email (demo_auth mem_adapter) demo_cx ''e1'' '''' (seeded pending_rows) = (w', r)
    \<and> row' \<in> set (mem_rows (w_db w') model_user) \<and> rget row' ''emailVerified'' = VBool True
    \<and> (\<exists>vrow\<in>set (mem_rows (w_db (seeded pending_rows)) model_verification). v_expires (verification_from_map vrow) > cx_now demo_cx)"
proof -
  let ?f = "perform_verify_email (demo_auth mem_adapter) demo_cx ''e1'' ''''"
  let ?g = "perform_verify_email (demo_auth spec_adapter) demo_cx ''e1'' ''''"
  let ?row = "gmerge (user_to_map pending_user) (gput [(''emailVerified'', VBool True)] ''updatedAt'' (VTime 5))"
  have ids: "rows_with_ids pending_rows" by code_simp
  have sim: "sim (wmap mem_abs) (winv (mem_inv (Some core_schema))) ?f ?g"
    using mem.perform_verify_email_sim[of "demo_auth mem_adapter"] by simp
  have rows: "sd_rows (w_db (fst (?g (spec_seeded pending_rows)))) model_user = [?row]" by code_simp
  have old: "sd_rows (w_db (spec_seeded pending_rows)) model_user = [user_to_map pending_user]" by code_simp
  have ver: "rget ?row ''emailVerified'' = VBool True" "rget (user_to_map pending_user) ''emailVerified'' = VBool False" by code_simp+
  have "?row \<noteq> user_to_map pending_user"
  proof
    assume "?row = user_to_map pending_user"
    from arg_cong[OF this, of "\<lambda>x. rget x ''emailVerified''"] show False using ver by simp
  qed
  note ne = this
  from seeded_run[OF ids sim refl] obtain w' where run: "?f (seeded pending_rows) = (w', snd (?g (spec_seeded pending_rows)))"
    and w': "mem_rows (w_db w') = sd_rows (w_db (fst (?g (spec_seeded pending_rows))))" by blast
  have new: "?row \<in> set (mem_rows (w_db w') model_user)" "?row \<notin> set (mem_rows (w_db (seeded pending_rows)) model_user)"
    using ne by (simp_all only: w' rows seeded_facts(5)[OF ids] old) simp_all
  from verified_email_was_proven[OF core_schema_tables seeded_facts(1)[OF ids] _ _ run new]
  have "\<exists>vrow\<in>set (mem_rows (w_db (seeded pending_rows)) model_verification). v_expires (verification_from_map vrow) > cx_now demo_cx"
    by auto
  then show ?thesis using run new(1) ver(1) by blast
qed

end
