(* ===== verification/Two_Factor_Laws.thy ===== *)
theory Two_Factor_Laws
  imports Two_Factor Account_Laws
begin

text \<open>
  What the second factor promises: a time step and a backup code are used up by the answer
  they were good for, a challenge allows five guesses, and a device is trusted only by the
  value the server signed for it.
\<close>

section \<open>The store\<close>

text \<open>The plugin adds a column to the users, so only two tables are known.\<close>

definition factor_schema :: "schema \<Rightarrow> bool" where
  "factor_schema sc \<longleftrightarrow> wf_schema sc \<and> map_of (sc_tables sc) model_verification = Some verification_table
     \<and> map_of (sc_tables sc) model_two_factor = Some two_factor_table"

definition factor_db :: "sdb \<Rightarrow> bool" where
  "factor_db d \<longleftrightarrow> sdb_inv d \<and> core_store d \<and> sd_table d model_two_factor = Some two_factor_table"

abbreviation frows :: "sdb \<Rightarrow> grec list" where "frows d \<equiv> sd_rows d model_two_factor"

lemma factor_db_mem: "factor_schema sc \<Longrightarrow> mem_inv (Some sc) s \<Longrightarrow> factor_db (mem_abs s)"
  by (simp add: factor_db_def core_store_def factor_schema_def mem_inv_abs mem_table_def schema_table_def mem_inv_schema)

lemma factor_fields [simp]:
  "has_field two_factor_table f \<longleftrightarrow> f \<in> set [''id'', ''userId'', ''secret'', ''backupCodes'', ''lastCounter'']"
  by (auto simp: has_field_def field_by_name_def two_factor_table_def col_def)

lemma check_factor [simp]:
  "check_where_fields (Some two_factor_table) [W ''userId'' x] = None"
  "check_where_fields (Some two_factor_table) [W ''id'' x, W ''lastCounter'' y] = None"
  "check_where_fields (Some two_factor_table) [W ''id'' x, W ''backupCodes'' y] = None"
  "check_writable_fields (Some two_factor_table) [(''lastCounter'', v)] = None"
  "check_writable_fields (Some two_factor_table) [(''backupCodes'', v)] = None"
  by (simp_all add: check_where_fields_def check_writable_fields_def unknown_keys_def)

lemma str_id_of: "sdb_inv d \<Longrightarrow> r \<in> set (sd_rows d m) \<Longrightarrow> \<exists>i. rget r ''id'' = VStr i"
  using sdb_invD[of d m] by (auto simp: rows_ok_def has_str_id_def rget_def)

lemma factor_row_spec:
  "factor_db d \<Longrightarrow> factor_row spec_adapter uid d =
    (d, case find (with_str ''userId'' uid) (frows d) of None \<Rightarrow> Inl ErrNotFound | Some r \<Rightarrow> Inr r)"
  by (simp add: factor_row_def factor_db_def spec_find_one_def with_str_def[abs_def] split: option.splits)

section \<open>Compare and set\<close>

definition id_of :: "grec \<Rightarrow> grec \<Rightarrow> bool" where "id_of rec r \<longleftrightarrow> rget r ''id'' = rget rec ''id''"

text \<open>An update of one row by its id and an old value, if it counts one, changed that row.\<close>

lemma cas_rows:
  assumes inv: "sdb_inv d" and rec: "rec \<in> set (sd_rows d m)"
    and run: "spec_update_many m [W ''id'' (rget rec ''id''), W f v] u d = (d', Inr 1)"
  shows "d' = set_rows m (map (\<lambda>r. if id_of rec r then gmerge r u else r) (sd_rows d m)) d \<and> val_equal (rget rec f) v"
proof -
  let ?P = "\<lambda>r. matches r [W ''id'' (rget rec ''id''), W f v]"
  obtain i where i: "rget rec ''id'' = VStr i" using str_id_of[OF inv rec] ..
  have d': "d' = set_rows m (map (\<lambda>r. if ?P r then gmerge r u else r) (sd_rows d m)) d"
    and n: "length (filter ?P (sd_rows d m)) = 1"
    using run by (auto elim!: spec_update_many_cases)
  from n obtain r where "filter ?P (sd_rows d m) = [r]" by (auto simp: length_Suc_conv)
  then have r: "r \<in> set (sd_rows d m)" "?P r" by (auto simp: filter_eq_Cons_iff)
  then have "r = rec" by (intro same_id_same_row[OF inv _ rec]) (auto simp: i)
  then have v: "val_equal (rget rec f) v" using r by simp
  have "?P q \<longleftrightarrow> id_of rec q" if "q \<in> set (sd_rows d m)" for q
    using v same_id_same_row[OF inv that rec] by (auto simp: i id_of_def)
  then have "map (\<lambda>r. if ?P r then gmerge r u else r) (sd_rows d m) = map (\<lambda>r. if id_of rec r then gmerge r u else r) (sd_rows d m)"
    by (intro map_cong) auto
  then show ?thesis using d' v by (simp only: simp_thms)
qed

lemma claim_ok:
  assumes db: "factor_db d" and rec: "rec \<in> set (frows d)" and run: "claim_counter spec_adapter rec c d = (d', Inr True)"
  shows "record_int (rget rec ''lastCounter'') < c
    \<and> d' = set_rows model_two_factor (map (\<lambda>r. if id_of rec r then gmerge r [(''lastCounter'', VInt64 c)] else r) (frows d)) d"
proof -
  let ?seen = "record_int (rget rec ''lastCounter'')"
  from run have c: "?seen < c"
    and up: "spec_update_many model_two_factor [W ''id'' (rget rec ''id''), W ''lastCounter'' (VInt64 ?seen)] [(''lastCounter'', VInt64 c)] d = (d', Inr 1)"
    by (auto simp: claim_counter_def Let_def attempt_def split: if_splits prod.splits sum.splits)
  from cas_rows[OF _ rec up] db c show ?thesis by (simp add: factor_db_def)
qed

section \<open>The steps of an answer\<close>

lemma user_by_id_ok:
  assumes run: "find_user_by_id spec_adapter i d = (d', Inr u)"
  shows "d' = d \<and> u_id u = i"
proof -
  from run obtain row where row: "find (with_str ''id'' i) (urows d) = Some row" "u = user_from_map row" "d' = d"
    unfolding find_user_by_id_def bind_query spec_adapter_sel spec_find_one_def matches_single match_one_W with_str_def[abs_def] ret_def
    by (cases "check_where_fields (sd_table d model_user) [W ''id'' (VStr i)]"; cases "find (with_str ''id'' i) (urows d)")
      (auto simp: with_str_def[abs_def])
  have "with_str ''id'' i row" using find_in[OF row(1)] ..
  then show ?thesis using row by (simp add: user_from_map_def with_str_def)
qed

lemma pending_ok:
  assumes db: "au_db au = spec_adapter" and core: "core_store (w_db w)"
    and run: "pending_challenge au cx cookie w = (w', Inr ch)"
  shows "w' = w \<and> (\<exists>v. cookie = Some (ch_token ch) \<and> ch_token ch \<noteq> ''''
    \<and> find_verification spec_adapter (cx_now cx) (token_identifier (au_digest au) token_kind_pending (ch_token ch)) (w_db w) = (w_db w, Inr v)
    \<and> fst (parse_pending (v_value v)) = u_id (ch_user ch))"
proof -
  from run db obtain tok d1 v u where c: "cookie = Some tok" "tok \<noteq> ''''"
    "find_verification spec_adapter (cx_now cx) (token_identifier (au_digest au) token_kind_pending tok) (w_db w) = (d1, Inr v)"
    and u: "find_user_by_id spec_adapter (fst (parse_pending (v_value v))) d1 = (w_db w', Inr u)"
    and ch: "ch_token ch = tok" "ch_user ch = u" "w_log w' = w_log w"
    by (auto simp: pending_challenge_def lookup_token_def attempt_db split: option.splits if_splits prod.splits sum.splits)
  from find_verification_found[OF core c(3)] have d1: "d1 = w_db w" by simp
  have "w' = w" using user_by_id_ok[OF u] ch(3) by (cases w, cases w') (simp add: d1)
  then show ?thesis using c ch user_by_id_ok[OF u] by (auto simp: d1)
qed

lemma complete_ok:
  assumes db: "au_db au = spec_adapter" and run: "complete_pending au tf cx ch trust w = (w', Inr (FactorSession s u))"
  shows "u = ch_user ch \<and> (\<exists>d1 val. consume_token spec_adapter (au_digest au) (cx_now cx) token_kind_pending (ch_token ch) (w_db w) = (d1, Inr val)
    \<and> same_rows {model_session} d1 (w_db w')) \<and> run_sign_in_guards_after (au_plugins au) u ''two-factor'' = Inr False"
proof -
  from run db obtain d1 val where c: "consume_token spec_adapter (au_digest au) (cx_now cx) token_kind_pending (ch_token ch) (w_db w) = (d1, Inr val)"
    and f: "bind (clear_pending tf) (\<lambda>_. bind (emit cx (factor_event ch\<lparr>ev_method := ''two-factor''\<rparr>)) (\<lambda>_.
         finish_factor au tf (cx\<lparr>cx_auth_method := ''two-factor''\<rparr>) ch trust)) (w\<lparr>w_db := d1\<rparr>) = (w', Inr (FactorSession s u))"
    by (auto simp: complete_pending_def attempt_db split: prod.splits sum.splits)
  have "wonly {model_session} (bind (clear_pending tf) (\<lambda>_. bind (emit cx (factor_event ch\<lparr>ev_method := ''two-factor''\<rparr>)) (\<lambda>_.
         finish_factor au tf (cx\<lparr>cx_auth_method := ''two-factor''\<rparr>) ch trust)))"
    unfolding finish_factor_def clear_pending_def set_trusted_device_def db
    by (auto intro!: frame_intros split: bool.splits)
  from wonly_same[OF this f] have "same_rows {model_session} d1 (w_db w')" by simp
  moreover have "u = ch_user ch \<and> run_sign_in_guards_after (au_plugins au) u ''two-factor'' = Inr False"
    using f by (auto simp: finish_factor_def clear_pending_def dest!: bind_okD split: sum.splits bool.splits)
  ultimately show ?thesis using c by blast
qed

section \<open>A time step is used once\<close>

lemma no_panic_ok: "no_panic x w = (w', Inr v) \<longleftrightarrow> w' = w \<and> x = Some v"
  by (auto simp: no_panic_def split: option.splits)

lemma fail_attempt_never [simp]: "fail_attempt au tf cx ch w \<noteq> (w', Inr r)"
  by (auto simp: fail_attempt_def attempt_db bind_db clear_pending_def bind_def[of "ignore _"] Let_def split: prod.splits sum.splits)

lemma confirm_no_session [simp]: "confirm_totp au tf cx sd b w \<noteq> (w', Inr (FactorSession s u))"
proof
  assume "confirm_totp au tf cx sd b w = (w', Inr (FactorSession s u))"
  then show False by (auto simp: confirm_totp_def dest!: bind_okD split: if_splits)
qed

lemma answer_totp_ok:
  assumes db: "au_db au = spec_adapter" and core: "factor_db (w_db w)"
    and run: "answer_totp au tf cx ch b w = (w', Inr (FactorSession s u))"
  shows "\<exists>rec secret c. find (with_str ''userId'' (u_id (ch_user ch))) (frows (w_db w)) = Some rec
    \<and> decrypt_secret tf rec = Inr secret \<and> check_totp tf secret (an_code b) (cx_now cx) = Some (c, True)
    \<and> record_int (rget rec ''lastCounter'') < c
    \<and> complete_pending au tf cx ch (an_trust b) (w\<lparr>w_db := set_rows model_two_factor
         (map (\<lambda>r. if id_of rec r then gmerge r [(''lastCounter'', VInt64 c)] else r) (frows (w_db w))) (w_db w)\<rparr>)
       = (w', Inr (FactorSession s u))"
proof -
  let ?fin = "\<lambda>claimed. if \<not> claimed then fail_attempt au tf cx ch else complete_pending au tf cx ch (an_trust b)"
  let ?claim = "\<lambda>rec res. if \<not> snd res then fail_attempt au tf cx ch else bind (db (claim_counter (au_db au) rec (fst res))) ?fin"
  let ?check = "\<lambda>rec secret. bind (no_panic (check_totp tf secret (an_code b) (cx_now cx))) (?claim rec)"
  have "attempt (db (factor_row (au_db au) (u_id (ch_user ch)))) k w =
      k (case find (with_str ''userId'' (u_id (ch_user ch))) (frows (w_db w)) of None \<Rightarrow> Inl ErrNotFound | Some r \<Rightarrow> Inr r) w" for k :: "_ \<Rightarrow> (_, factor_reply) act"
    by (simp add: attempt_db db factor_row_spec[OF core])
  with run obtain rec where rec: "find (with_str ''userId'' (u_id (ch_user ch))) (frows (w_db w)) = Some rec"
    and 1: "bind (query (\<lambda>_. decrypt_secret tf rec)) (?check rec) w = (w', Inr (FactorSession s u))"
    unfolding answer_totp_def by (auto split: option.splits)
  from bind_okD[OF 1] obtain secret where secret: "decrypt_secret tf rec = Inr secret"
    and 2: "?check rec secret w = (w', Inr (FactorSession s u))" by auto
  from bind_okD[OF 2] obtain c where code: "check_totp tf secret (an_code b) (cx_now cx) = Some (c, True)"
    and 3: "bind (db (claim_counter (au_db au) rec c)) ?fin w = (w', Inr (FactorSession s u))"
    by (auto simp: no_panic_ok split: if_splits)
  from bind_okD[OF 3] obtain d where claim: "claim_counter spec_adapter rec c (w_db w) = (d, Inr True)"
    and fin: "complete_pending au tf cx ch (an_trust b) (w\<lparr>w_db := d\<rparr>) = (w', Inr (FactorSession s u))"
    by (cases "claim_counter spec_adapter rec c (w_db w)") (auto simp: db split: if_splits)
  have "rec \<in> set (frows (w_db w))" using find_in[OF rec] by simp
  from claim_ok[OF core this claim] show ?thesis using rec secret code fin by blast
qed

text \<open>Completing consumes the row the challenge was read from.\<close>

lemma complete_consumes:
  assumes db: "au_db au = spec_adapter" and core: "factor_db d0" and same: "vrows d = vrows d0" "core_store d" and w: "w_db w = d"
    and tok: "ch_token ch \<noteq> ''''"
    and fv: "find_verification spec_adapter (cx_now cx) (token_identifier (au_digest au) token_kind_pending (ch_token ch)) d0 = (d0, Inr v)"
    and fin: "complete_pending au tf cx ch trust w = (w', Inr (FactorSession s u))"
  shows "u = ch_user ch \<and> frows (w_db w') = frows d \<and> (\<exists>row\<in>set (vrows d0).
    with_identifier (token_identifier (au_digest au) token_kind_pending (ch_token ch)) row
    \<and> v = verification_from_map row \<and> v_expires v > cx_now cx \<and> row \<notin> set (vrows (w_db w')))"
proof -
  let ?ident = "token_identifier (au_digest au) token_kind_pending (ch_token ch)"
  have cs: "core_store d0" "sdb_inv d0" using core by (simp_all add: factor_db_def)
  from complete_ok[OF db fin] obtain d1 val where u: "u = ch_user ch"
    and cons: "consume_token spec_adapter (au_digest au) (cx_now cx) token_kind_pending (ch_token ch) d = (d1, Inr val)"
    and after: "same_rows {model_session} d1 (w_db w')" unfolding w by auto
  have "find_verification spec_adapter (cx_now cx) ?ident d = (d, Inr v)"
    using fv unfolding find_verification_spec[OF cs(1)] find_verification_spec[OF same(2)] same(1) by (auto split: option.splits)
  with cons tok have cl: "claim_token spec_adapter v d = (d1, Inr val)"
    by (simp add: consume_token_def lookup_token_def bind_def)
  then have d1: "d1 = set_rows model_verification (filter (\<lambda>r. \<not> with_id (v_id v) r) (vrows d0)) d"
    unfolding claim_token_spec[OF same(2)] same(1) by simp
  from find_verification_found[OF cs(1) fv] obtain row where row: "row \<in> set (vrows d0)" "with_identifier ?ident row"
    "v = verification_from_map row" "v_expires v > cx_now cx" by blast
  obtain i where "rget row ''id'' = VStr i" using str_id_of[OF cs(2) row(1)] ..
  then have "with_id (v_id v) row" by (simp add: with_id_def row(3) verification_from_map_def)
  moreover have "vrows (w_db w') = vrows d1" "frows (w_db w') = frows d1"
    using after by (simp_all add: same_rows_def model_names model_two_factor_def)
  ultimately show ?thesis using u row by (auto simp: d1 model_names model_two_factor_def)
qed

lemma totp_answer_spec:
  assumes db: "au_db au = spec_adapter" and core: "factor_db (w_db w)"
    and run: "handle_verify_totp au tf cx cookie sess (Some b) w = (w', Inr (FactorSession s u))"
  shows "\<exists>tok row rec secret c. cookie = Some tok \<and> row \<in> set (vrows (w_db w))
    \<and> with_identifier (token_identifier (au_digest au) token_kind_pending tok) row
    \<and> v_expires (verification_from_map row) > cx_now cx
    \<and> fst (parse_pending (v_value (verification_from_map row))) = u_id u
    \<and> row \<notin> set (vrows (w_db w'))
    \<and> find (with_str ''userId'' (u_id u)) (frows (w_db w)) = Some rec
    \<and> decrypt_secret tf rec = Inr secret \<and> check_totp tf secret (an_code b) (cx_now cx) = Some (c, True)
    \<and> record_int (rget rec ''lastCounter'') < c
    \<and> frows (w_db w') = map (\<lambda>r. if id_of rec r then gmerge r [(''lastCounter'', VInt64 c)] else r) (frows (w_db w))"
proof -
  have cs: "core_store (w_db w)" using core by (simp add: factor_db_def)
  obtain w1 rc where pc: "pending_challenge au cx cookie w = (w1, rc)" by (meson surj_pair)
  with run obtain ch where rc: "rc = Inr ch" and ans: "answer_totp au tf cx ch b w1 = (w', Inr (FactorSession s u))"
    by (cases rc) (auto simp: handle_verify_totp_def attempt_def dest!: bind_okD)
  from pending_ok[OF db cs pc[unfolded rc]] obtain v where w1: "w1 = w" and tok: "cookie = Some (ch_token ch)" "ch_token ch \<noteq> ''''"
    and fv: "find_verification spec_adapter (cx_now cx) (token_identifier (au_digest au) token_kind_pending (ch_token ch)) (w_db w) = (w_db w, Inr v)"
    and uid: "fst (parse_pending (v_value v)) = u_id (ch_user ch)" by blast
  from answer_totp_ok[OF db core ans[unfolded w1]] obtain rec secret c where
    rec: "find (with_str ''userId'' (u_id (ch_user ch))) (frows (w_db w)) = Some rec" "decrypt_secret tf rec = Inr secret"
      "check_totp tf secret (an_code b) (cx_now cx) = Some (c, True)" "record_int (rget rec ''lastCounter'') < c"
    and fin: "complete_pending au tf cx ch (an_trust b) (w\<lparr>w_db := set_rows model_two_factor
         (map (\<lambda>r. if id_of rec r then gmerge r [(''lastCounter'', VInt64 c)] else r) (frows (w_db w))) (w_db w)\<rparr>)
       = (w', Inr (FactorSession s u))" by blast
  let ?d = "set_rows model_two_factor (map (\<lambda>r. if id_of rec r then gmerge r [(''lastCounter'', VInt64 c)] else r) (frows (w_db w))) (w_db w)"
  have "vrows ?d = vrows (w_db w)" "core_store ?d" using cs by (simp_all add: model_names model_two_factor_def)
  from complete_consumes[OF db core this _ tok(2) fv fin] obtain row where "u = ch_user ch"
    "row \<in> set (vrows (w_db w))" "with_identifier (token_identifier (au_digest au) token_kind_pending (ch_token ch)) row"
    "v = verification_from_map row" "v_expires v > cx_now cx" "row \<notin> set (vrows (w_db w'))" "frows (w_db w') = frows ?d"
    by auto
  then show ?thesis using tok(1) uid rec by (intro exI[of _ "ch_token ch"] exI[of _ row] exI[of _ rec] exI[of _ secret] exI[of _ c]) simp
qed

section \<open>On the in-memory store\<close>

lemma factor_uniq:
  assumes "factor_schema sc"
  shows "''lastCounter'' \<notin> set (uniq_in (Some sc) model_two_factor)" and "''backupCodes'' \<notin> set (uniq_in (Some sc) model_two_factor)"
  using assms by (simp_all add: uniq_in_def uniq_of_def schema_table_def factor_schema_def two_factor_table_def unique_fields_def col_def)

lemma totp_answer_mem:
  assumes sc: "factor_schema sc" and inv: "mem_inv (Some sc) (w_db w)" and db: "au_db au = mem_adapter" and hooks: "hooks_ok (au_hooks au)"
    and run: "handle_verify_totp au tf cx cookie sess (Some b) w = (w', Inr (FactorSession s u))"
  shows "\<exists>tok row rec secret c. cookie = Some tok \<and> row \<in> set (mem_rows (w_db w) model_verification)
    \<and> with_identifier (token_identifier (au_digest au) token_kind_pending tok) row
    \<and> v_expires (verification_from_map row) > cx_now cx
    \<and> fst (parse_pending (v_value (verification_from_map row))) = u_id u
    \<and> row \<notin> set (mem_rows (w_db w') model_verification)
    \<and> find (with_str ''userId'' (u_id u)) (mem_rows (w_db w) model_two_factor) = Some rec
    \<and> decrypt_secret tf rec = Inr secret \<and> check_totp tf secret (an_code b) (cx_now cx) = Some (c, True)
    \<and> record_int (rget rec ''lastCounter'') < c
    \<and> mem_rows (w_db w') model_two_factor
      = map (\<lambda>r. if id_of rec r then gmerge r [(''lastCounter'', VInt64 c)] else r) (mem_rows (w_db w) model_two_factor)"
proof -
  have core: "factor_db (w_db (wmap mem_abs w))" using factor_db_mem[OF sc inv] by simp
  have "winv (mem_inv (Some sc)) w" using inv by (simp add: winv_def)
  from simD[OF mem.answer_sims(1)[OF db hooks factor_uniq[OF sc]] this run]
  have run': "handle_verify_totp (on_spec au) tf cx cookie sess (Some b) (wmap mem_abs w) = (wmap mem_abs w', Inr (FactorSession s u))"
    by blast
  have rows: "mem_rows (w_db v) m = sd_rows (w_db (wmap mem_abs v)) m" for v m by simp
  have dig: "au_digest (on_spec au) = au_digest au" by simp
  show ?thesis unfolding rows dig[symmetric] by (rule totp_answer_spec[OF _ core run']) simp
qed

lemma find_map_same: "(\<And>x. P (f x) \<longleftrightarrow> P x) \<Longrightarrow> find P (map f xs) = map_option f (find P xs)"
  by (induction xs) auto

text \<open>
  C32: a time step is good for one sign-in. When two challenges of a user are answered with
  codes on the in-memory store, each answer consumes its live challenge, and if the rows of
  the second factor are as the first answer left them, both codes are checked against the
  same secret and the second is for a strictly later step than the first, which itself is later than any
  step accepted before.
\<close>

theorem totp_never_replayed:
  assumes "factor_schema sc" and "mem_inv (Some sc) (w_db w)" and "au_db au = mem_adapter" and "hooks_ok (au_hooks au)"
    and "handle_verify_totp au tf cx cookie sess (Some b) w = (w', Inr (FactorSession s u))"
    and "mem_inv (Some sc) (w_db v)" and "mem_rows (w_db v) model_two_factor = mem_rows (w_db w') model_two_factor"
    and "handle_verify_totp au tf later cookie' sess' (Some b') v = (v', Inr (FactorSession s' u'))" and "u_id u' = u_id u"
  shows "\<exists>tok row rec secret c c'. cookie = Some tok \<and> row \<in> set (mem_rows (w_db w) model_verification)
    \<and> with_identifier (token_identifier (au_digest au) token_kind_pending tok) row
    \<and> v_expires (verification_from_map row) > cx_now cx \<and> fst (parse_pending (v_value (verification_from_map row))) = u_id u
    \<and> row \<notin> set (mem_rows (w_db w') model_verification)
    \<and> find (with_str ''userId'' (u_id u)) (mem_rows (w_db w) model_two_factor) = Some rec \<and> decrypt_secret tf rec = Inr secret
    \<and> check_totp tf secret (an_code b) (cx_now cx) = Some (c, True)
    \<and> check_totp tf secret (an_code b') (cx_now later) = Some (c', True)
    \<and> record_int (rget rec ''lastCounter'') < c \<and> c < c'"
proof -
  from totp_answer_mem[OF assms(1-5)] obtain tok row rec secret c where 1: "cookie = Some tok" "row \<in> set (mem_rows (w_db w) model_verification)"
    "with_identifier (token_identifier (au_digest au) token_kind_pending tok) row" "v_expires (verification_from_map row) > cx_now cx"
    "fst (parse_pending (v_value (verification_from_map row))) = u_id u" "row \<notin> set (mem_rows (w_db w') model_verification)"
    and rec: "find (with_str ''userId'' (u_id u)) (mem_rows (w_db w) model_two_factor) = Some rec" "decrypt_secret tf rec = Inr secret"
      "check_totp tf secret (an_code b) (cx_now cx) = Some (c, True)" "record_int (rget rec ''lastCounter'') < c"
    and after: "mem_rows (w_db w') model_two_factor
      = map (\<lambda>r. if id_of rec r then gmerge r [(''lastCounter'', VInt64 c)] else r) (mem_rows (w_db w) model_two_factor)" by blast
  from totp_answer_mem[OF assms(1,6,3,4,8)] obtain rec' secret' c' where
    rec': "find (with_str ''userId'' (u_id u')) (mem_rows (w_db v) model_two_factor) = Some rec'" "decrypt_secret tf rec' = Inr secret'"
      "check_totp tf secret' (an_code b') (cx_now later) = Some (c', True)" "record_int (rget rec' ''lastCounter'') < c'" by blast
  let ?new = "gmerge rec [(''lastCounter'', VInt64 c)]"
  have keep: "rget (gmerge r [(''lastCounter'', VInt64 c)]) f = (if f = ''lastCounter'' then VInt64 c else rget r f)" for r f
    by (simp add: rget_def map_add_def)
  have "rec' = ?new"
    using rec' rec(1) unfolding assms(7,9) after by (subst (asm) find_map_same) (auto simp: with_str_def keep id_of_def)
  then have "decrypt_secret tf rec' = decrypt_secret tf rec" "record_int (rget rec' ''lastCounter'') = c"
    by (simp_all add: decrypt_secret_def stored_string_def keep record_int_def)
  then show ?thesis using 1 rec rec' by (intro exI conjI) (assumption | simp)+
qed

section \<open>A small installation\<close>

text \<open>
  A key ring that still reads the oldest format, over a cipher that leaves everything in the
  clear: the stored values can be written down and no key is derived.
\<close>

definition demo_secret :: string where "demo_secret = ''GEZDGNBVGY3TQOJQ''"

definition demo_clear :: rotation where
  "demo_clear = \<lparr>ro_env = \<lparr>ce_sha = id, ce_hmac = (\<lambda>k m. replicate 32 (CHR 0x01)), ce_nonce_size = 0, ce_seal = (\<lambda>k n p a. p),
       ce_open = (\<lambda>k n c a. Some c)\<rparr>, ro_ring = new_keyring ''key'' [] False, ro_rand = (\<lambda>_. Some [])\<rparr>"

definition demo_tf :: two_factor where
  "demo_tf = tf_defaults ''App'' \<lparr>tf_issuer = [], tf_period = 0, tf_digits = 0, tf_skew = 0, tf_send = None, tf_otp_ttl = 0,
     tf_code_count = 2, tf_skip_verify = False, tf_trust = seconds 60, tf_mac = (\<lambda>k m. drop 4 m @ replicate 16 (CHR 0x00)),
     tf_sign = (\<lambda>k m. k @ m), tf_key = ''key'', tf_ring = demo_clear, tf_prefix = ''app'',
     tf_write = concat, tf_read = (\<lambda>s. Some [s])\<rparr>"

definition demo_factor_row :: grec where
  "demo_factor_row = [(''id'', VStr ''f1''), (''userId'', VStr ''u1''), (''secret'', VStr ''R0VaREdOQlZHWTNUUU9KUQ''),
     (''backupCodes'', VStr ''YWEtYmI''), (''lastCounter'', VInt64 0)]"

definition demo_challenge :: "string \<Rightarrow> verification" where
  "demo_challenge tok = \<lparr>v_id = ''v-'' @ tok, v_identifier = ''two-factor-pending:'' @ tok, v_value = ''u1'',
     v_expires = minutes 10, v_created = 0, v_updated = 0\<rparr>"

definition demo_factor_schema :: schema where "demo_factor_schema = two_factor_schema core_schema"

definition demo_factor_rows :: "(string \<times> grec) list" where
  "demo_factor_rows = [(model_user, user_to_map (demo_user_row\<lparr>u_extra := [(''twoFactorEnabled'', VBool True)]\<rparr>)),
     (model_account, account_to_map demo_account), (model_session, session_to_map (demo_session 0 1000)),
     (model_two_factor, demo_factor_row), (model_verification, verification_to_map (demo_challenge ''p1'')),
     (model_verification, verification_to_map (demo_challenge ''p2''))]"

definition demo_answer :: "string \<Rightarrow> answer_body" where "demo_answer c = \<lparr>an_code = c, an_trust = False\<rparr>"

abbreviation demo_later :: "gtime \<Rightarrow> req_ctx" where
  "demo_later t \<equiv> demo_cx\<lparr>cx_now := t, cx_fresh := (\<lambda>x. ''later '' @ x)\<rparr>"

lemma demo_factor_ids: "rows_with_ids demo_factor_rows" by code_simp

lemma demo_factor_schema_ok: "factor_schema demo_factor_schema"
proof -
  have "wf_schema demo_factor_schema" by code_simp
  moreover have "map_of (sc_tables demo_factor_schema) model_verification = Some verification_table" by code_simp
  moreover have "map_of (sc_tables demo_factor_schema) model_two_factor = Some two_factor_table" by code_simp
  ultimately show ?thesis by (simp add: factor_schema_def)
qed

lemma demo_wf: "wf_schema demo_factor_schema" using demo_factor_schema_ok by (simp add: factor_schema_def)

lemma totp_never_replayed_witness:
  "\<exists>w s u v s' u'. handle_verify_totp (demo_auth mem_adapter) demo_tf demo_cx (Some ''p1'') (Inl err_unauthorized)
      (Some (demo_answer ''000001'')) (seeded_in demo_factor_schema demo_factor_rows) = (w, Inr (FactorSession s u))
    \<and> handle_verify_totp (demo_auth mem_adapter) demo_tf (demo_later (seconds 31)) (Some ''p2'') (Inl err_unauthorized)
      (Some (demo_answer ''000002'')) w = (v, Inr (FactorSession s' u'))
    \<and> check_totp demo_tf demo_secret ''000001'' 5 = Some (1, True) \<and> check_totp demo_tf demo_secret ''000002'' (seconds 31) = Some (2, True)"
proof -
  let ?f = "\<lambda>A cx tok c. handle_verify_totp (demo_auth A) demo_tf cx (Some tok) (Inl err_unauthorized) (Some (demo_answer c))"
  let ?w = "seeded_in demo_factor_schema demo_factor_rows" and ?v = "spec_seeded_in demo_factor_schema demo_factor_rows"
  have sim: "sim (wmap mem_abs) (winv (mem_inv (Some demo_factor_schema))) (?f mem_adapter cx tok c) (?f spec_adapter cx tok c)" for cx tok c
    using mem.answer_sims(1)[of "demo_auth mem_adapter", OF _ _ factor_uniq[OF demo_factor_schema_ok]] by simp
  have "(case ?f spec_adapter demo_cx ''p1'' ''000001'' ?v of (v1, Inr (FactorSession s u)) \<Rightarrow> u_id u = ''u1''
      \<and> (case ?f spec_adapter (demo_later (seconds 31)) ''p2'' ''000002'' v1 of (v2, Inr (FactorSession s u)) \<Rightarrow> u_id u = ''u1'' | _ \<Rightarrow> False) | _ \<Rightarrow> False)"
    by code_simp
  then obtain v1 s u v2 s' u' where 1: "?f spec_adapter demo_cx ''p1'' ''000001'' ?v = (v1, Inr (FactorSession s u))" "u_id u = ''u1''"
    and 2: "?f spec_adapter (demo_later (seconds 31)) ''p2'' ''000002'' v1 = (v2, Inr (FactorSession s' u'))" "u_id u' = ''u1''"
    by (auto split: prod.splits sum.splits factor_reply.splits)
  obtain w r where w: "?f mem_adapter demo_cx ''p1'' ''000001'' ?w = (w, r)" by (meson surj_pair)
  note facts = seeded_in_facts[OF demo_wf demo_factor_ids]
  from simD[OF sim facts(4) w] 1 have inv: "mem_inv (Some demo_factor_schema) (w_db w)" and r: "r = Inr (FactorSession s u)" "wmap mem_abs w = v1"
    by (auto simp: facts(3) winv_def)
  obtain v r' where v: "?f mem_adapter (demo_later (seconds 31)) ''p2'' ''000002'' w = (v, r')" by (meson surj_pair)
  from simD[OF sim _ v] inv 2 have r': "r' = Inr (FactorSession s' u')" by (auto simp: r winv_def)
  have c: "check_totp demo_tf demo_secret ''000001'' 5 = Some (1, True)" "check_totp demo_tf demo_secret ''000002'' (seconds 31) = Some (2, True)"
    by code_simp+
  from totp_never_replayed[OF demo_factor_schema_ok facts(1) _ _ w[unfolded r] inv refl v[unfolded r']] 1(2) 2(2)
  obtain tok row where "Some ''p1'' = Some tok" "row \<in> set (mem_rows (w_db ?w) model_verification)" by auto
  then show ?thesis using w v c unfolding r r' by blast
qed

end
