(* ===== verification/Guess_Limit.thy ===== *)
theory Guess_Limit
  imports Two_Factor_Laws "HOL-Library.Sublist"
begin

text \<open>
  How often a challenge can be answered wrongly. The counter lives in the row of the
  challenge, which a wrong guess consumes and writes anew; the number of guesses that are
  left is a potential that no step raises and every rejection lowers.
\<close>

section \<open>Guesses\<close>

datatype way = ByTotp | ByOtp | ByBackup

record attempt_at =
  at_cx :: req_ctx
  at_way :: way
  at_body :: "answer_body option"

text \<open>A request with the cookie of the challenge and no session.\<close>

definition guess :: "'s auth \<Rightarrow> two_factor \<Rightarrow> string \<Rightarrow> attempt_at \<Rightarrow> ('s world, factor_reply) act" where
  "guess au tf tok g =
     (case at_way g of
        ByTotp \<Rightarrow> handle_verify_totp au tf (at_cx g) (Some tok) (Inl err_unauthorized) (at_body g)
      | ByOtp \<Rightarrow> handle_verify_otp au tf (at_cx g) (Some tok) (at_body g)
      | ByBackup \<Rightarrow> handle_verify_backup au tf (at_cx g) (Some tok) (at_body g))"

fun guesses :: "'s auth \<Rightarrow> two_factor \<Rightarrow> string \<Rightarrow> attempt_at list \<Rightarrow> 's world \<Rightarrow> factor_reply result list" where
  "guesses au tf tok [] w = []"
| "guesses au tf tok (g # gs) w = (case guess au tf tok g w of (w', r) \<Rightarrow> r # guesses au tf tok gs w')"

definition rejected :: "'a result \<Rightarrow> bool" where "rejected r \<longleftrightarrow> r = Inl err_wrong_code \<or> r = Inl err_too_many"

section \<open>Rows that only go\<close>

definition thin :: "sdb \<Rightarrow> sdb \<Rightarrow> bool" where
  "thin d d' \<longleftrightarrow> sd_schema d' = sd_schema d \<and> subseq (vrows d') (vrows d)"

interpretation tstep: step_order thin
  by unfold_locales (auto simp: thin_def intro: subseq_order.trans)

definition wthin :: "sdb world \<Rightarrow> sdb world \<Rightarrow> bool" where "wthin w w' \<longleftrightarrow> thin (w_db w) (w_db w')"

interpretation wtstep: step_order wthin
  by unfold_locales (auto simp: wthin_def intro: tstep.reflexive tstep.transitive)

declare tstep.rules [frame_intros] wtstep.rules [frame_intros]

lemma subseq_remove_first: "subseq (remove_first P xs) xs"
  by (induction xs) (auto intro: subseq_Cons')

lemma thin_spec [frame_intros]:
  "moves thin (spec_delete m ws)" "moves thin (spec_delete_many m ws)"
  "m \<noteq> model_verification \<Longrightarrow> moves thin (spec_create m data)" "m \<noteq> model_verification \<Longrightarrow> moves thin (spec_update_many m ws u)"
  by (auto simp: moves_def thin_def spec_delete_def spec_delete_many_def spec_create_def spec_update_many_def Let_def subseq_remove_first
      split: option.splits)

lemma thin_steps [frame_intros]:
  "moves thin (find_verification spec_adapter now ident)" "moves thin (find_user_by_id spec_adapter i)"
  "moves thin (lookup_token spec_adapter hash now kind tok)" "moves thin (consume_token spec_adapter hash now kind tok)"
  "moves thin (delete_verification spec_adapter i)" "moves thin (factor_row spec_adapter i)" "moves thin (claim_counter spec_adapter rec c)"
  "moves thin (create_session_with spec_adapter H cfg now gi gt cl u extra dur)"
  unfolding find_verification_def find_user_by_id_def lookup_token_def consume_token_def claim_token_def delete_verification_def
    factor_row_def claim_counter_def create_session_with_def create_session_def run_hook_def Let_def
  by (auto intro!: frame_intros simp: model_names model_two_factor_def split: option.splits) (auto simp: moves_def tstep.reflexive split: option.splits)

lemma wthin_db [frame_intros]: "moves thin f \<Longrightarrow> moves wthin (db f)"
  by (simp add: moves_def wthin_def)

lemma wthin_effects [frame_intros]:
  "moves wthin (did x)" "moves wthin (emit cx e)" "moves wthin (no_panic y)"
  by (auto simp: moves_def wthin_def tstep.reflexive emit_def no_panic_def split: option.splits)

lemma wthin_finish [frame_intros]:
  assumes "au_db au = spec_adapter"
  shows "moves wthin (clear_pending tf)" "moves wthin (finish_factor au tf cx ch trust)"
  unfolding clear_pending_def finish_factor_def set_trusted_device_def issue_session_def assms
  by (auto intro!: frame_intros split: bool.splits)

section \<open>Guesses left\<close>

definition pend :: "string \<Rightarrow> sdb \<Rightarrow> grec list" where "pend ident d = filter (with_identifier ident) (vrows d)"

definition tries :: "grec \<Rightarrow> int" where "tries row = snd (parse_pending (v_value (verification_from_map row)))"

text \<open>At most one row, which counts fewer than five failures.\<close>

definition pend_ok :: "string \<Rightarrow> sdb \<Rightarrow> bool" where
  "pend_ok ident d \<longleftrightarrow> core_store d \<and> (\<forall>r\<in>set (vrows d). \<exists>i. rget r ''id'' = VStr i)
     \<and> (pend ident d = [] \<or> (\<exists>row. pend ident d = [row] \<and> 0 \<le> tries row \<and> tries row < max_verify_attempts))"

definition left :: "string \<Rightarrow> sdb \<Rightarrow> nat" where
  "left ident d = (case pend ident d of [] \<Rightarrow> 0 | row # _ \<Rightarrow> nat (max_verify_attempts - tries row))"

lemma thin_pend:
  assumes "thin d d'" and "pend_ok ident d"
  shows "pend_ok ident d' \<and> (pend ident d' = pend ident d \<or> pend ident d' = [])"
proof -
  have sub: "subseq (pend ident d') (pend ident d)" using assms(1) by (simp add: thin_def pend_def subseq_filter)
  have "length (pend ident d) \<le> 1" using assms(2) by (auto simp: pend_ok_def)
  then have same: "pend ident d' = pend ident d \<or> pend ident d' = []"
    using sub list_emb_length[OF sub] subseq_same_length[OF sub] by (cases "pend ident d'") auto
  have "core_store d'" "set (vrows d') \<subseteq> set (vrows d)"
    using assms by (auto simp: thin_def pend_ok_def core_store_def sd_table_def dest: list_emb_set)
  then show ?thesis using assms(2) same by (auto simp: pend_ok_def)
qed

lemma left_mono: "thin d d' \<Longrightarrow> pend_ok ident d \<Longrightarrow> left ident d' \<le> left ident d"
  using thin_pend[of d d' ident] by (auto simp: left_def split: list.splits)

text \<open>An action counts its rejections against the guesses that are left.\<close>

definition counts :: "string \<Rightarrow> (sdb world, 'a) act \<Rightarrow> bool" where
  "counts ident f \<longleftrightarrow> (\<forall>w w' r. f w = (w', r) \<longrightarrow> pend_ok ident (w_db w) \<longrightarrow>
     pend_ok ident (w_db w') \<and> left ident (w_db w') + (if rejected r then 1 else 0) \<le> left ident (w_db w))"

definition quiet :: "(sdb world, 'a) act \<Rightarrow> bool" where
  "quiet f \<longleftrightarrow> moves wthin f \<and> (\<forall>w. \<not> rejected (snd (f w)))"

lemma counts_quiet:
  assumes "quiet f"
  shows "counts ident f"
  unfolding counts_def
proof (intro allI impI)
  fix w w' r assume run: "f w = (w', r)" and ok: "pend_ok ident (w_db w)"
  have "thin (w_db w) (w_db w')" "\<not> rejected r"
    using assms run movesD[of wthin f w w' r] by (auto simp: quiet_def wthin_def dest: spec[of _ w])
  then show "pend_ok ident (w_db w') \<and> left ident (w_db w') + (if rejected r then 1 else 0) \<le> left ident (w_db w)"
    using thin_pend[OF _ ok] left_mono[OF _ ok] by simp
qed

lemma counts_attempt:
  assumes "moves wthin f" and "\<And>w. P (snd (f w))" and "\<And>r. P r \<Longrightarrow> counts ident (k r)"
  shows "counts ident (attempt f k)"
  unfolding counts_def
proof (intro allI impI)
  fix w w' r assume run: "attempt f k w = (w', r)" and ok: "pend_ok ident (w_db w)"
  obtain w1 x where f: "f w = (w1, x)" by (meson surj_pair)
  have "thin (w_db w) (w_db w1)" using assms(1) f by (metis fst_conv moves_def wthin_def)
  from thin_pend[OF this ok] left_mono[OF this ok] have 1: "pend_ok ident (w_db w1)" "left ident (w_db w1) \<le> left ident (w_db w)" by auto
  have "P x" using assms(2)[of w] f by simp
  moreover have "k x w1 = (w', r)" using run f by (simp add: attempt_def)
  ultimately have "pend_ok ident (w_db w') \<and> left ident (w_db w') + (if rejected r then 1 else 0) \<le> left ident (w_db w1)"
    using assms(3)[of x] 1(1) by (simp add: counts_def)
  then show "pend_ok ident (w_db w') \<and> left ident (w_db w') + (if rejected r then 1 else 0) \<le> left ident (w_db w)"
    using 1(2) by linarith
qed

lemma bind_as_attempt: "bind f k = attempt f (\<lambda>r. case r of Inl e \<Rightarrow> fail e | Inr v \<Rightarrow> k v)"
  by (rule ext) (simp add: bind_def attempt_def split: prod.splits sum.splits)

lemma counts_bind:
  assumes f: "quiet f" and ok: "\<And>w v. snd (f w) = Inr v \<Longrightarrow> P v" and k: "\<And>v. P v \<Longrightarrow> counts ident (k v)"
  shows "counts ident (bind f k)"
  unfolding bind_as_attempt
proof (rule counts_attempt[where P = "\<lambda>r. case r of Inl e \<Rightarrow> \<not> rejected (Inl e :: 'a result) | Inr v \<Rightarrow> P v"])
  show "moves wthin f" using f by (simp add: quiet_def)
  show "case snd (f w) of Inl e \<Rightarrow> \<not> rejected (Inl e :: 'a result) | Inr v \<Rightarrow> P v" for w
  proof (cases "snd (f w)")
    case (Inl e)
    then show ?thesis using f unfolding quiet_def by (metis sum.simps(5))
  qed (use ok in simp)
  show "counts ident (case r of Inl e \<Rightarrow> fail e | Inr v \<Rightarrow> k v)"
    if "case r of Inl e \<Rightarrow> \<not> rejected (Inl e :: 'a result) | Inr v \<Rightarrow> P v" for r
    using that k by (cases r) (auto simp: counts_def rejected_def)
qed

lemma counts_if: "counts ident f \<Longrightarrow> counts ident g \<Longrightarrow> counts ident (if b then f else g)" by simp

section \<open>The steps\<close>

lemma consume_empties:
  assumes ok: "pend_ok (token_identifier hash kind tok) d" and run: "consume_token spec_adapter hash now kind tok d = (d', Inr val)"
  shows "pend_ok (token_identifier hash kind tok) d' \<and> pend (token_identifier hash kind tok) d' = []
    \<and> (\<exists>row. pend (token_identifier hash kind tok) d = [row] \<and> v_value (verification_from_map row) = val)"
proof -
  let ?ident = "token_identifier hash kind tok"
  from consume_ok[OF _ run] ok obtain row where row: "row \<in> set (vrows d)" "with_identifier ?ident row" "v_value (verification_from_map row) = val"
    and d': "d' = set_rows model_verification (filter (\<lambda>r. \<not> with_id (v_id (verification_from_map row)) r) (vrows d)) d"
    by (auto simp: pend_ok_def)
  have "row \<in> set (pend ?ident d)" using row by (simp add: pend_def)
  then have one: "pend ?ident d = [row]" using ok by (auto simp: pend_ok_def)
  obtain i where "rget row ''id'' = VStr i" using ok row(1) by (auto simp: pend_ok_def)
  then have "with_id (v_id (verification_from_map row)) row" by (simp add: with_id_def verification_from_map_def)
  with filter_disjoint[OF one[unfolded pend_def]] have "pend ?ident d' = []" by (simp add: pend_def d')
  then show ?thesis using one row(3) ok by (auto simp: pend_ok_def d')
qed

lemma consume_error: "consume_token spec_adapter hash now kind tok d = (d', r) \<Longrightarrow> thin d d'"
  by (rule movesD[OF thin_steps(4)])

abbreviation pending_ident :: "'s auth \<Rightarrow> string \<Rightarrow> string" where
  "pending_ident au tok \<equiv> token_identifier (au_digest au) token_kind_pending tok"

lemma counts_consumed:
  assumes db: "au_db au = spec_adapter"
    and tail: "\<And>val w w' r. k val w = (w', r) \<Longrightarrow> pend_ok (pending_ident au tok) (w_db w) \<Longrightarrow> pend (pending_ident au tok) (w_db w) = [] \<Longrightarrow>
      snd (parse_pending val) < max_verify_attempts \<Longrightarrow> 0 \<le> snd (parse_pending val) \<Longrightarrow>
      pend_ok (pending_ident au tok) (w_db w') \<and>
      left (pending_ident au tok) (w_db w') + (if rejected r then 1 else 0) \<le> nat (max_verify_attempts - snd (parse_pending val))"
  shows "counts (pending_ident au tok) (attempt (db (consume_token (au_db au) (au_digest au) now token_kind_pending tok))
    (\<lambda>r. case r of Inl _ \<Rightarrow> fail err_unauthorized | Inr val \<Rightarrow> k val))"
  unfolding counts_def
proof (intro allI impI)
  let ?ident = "pending_ident au tok"
  fix w w' r
  assume run: "attempt (db (consume_token (au_db au) (au_digest au) now token_kind_pending tok))
    (\<lambda>r. case r of Inl _ \<Rightarrow> fail err_unauthorized | Inr val \<Rightarrow> k val) w = (w', r)" and ok: "pend_ok ?ident (w_db w)"
  obtain d x where c: "consume_token spec_adapter (au_digest au) now token_kind_pending tok (w_db w) = (d, x)" by (meson surj_pair)
  show "pend_ok ?ident (w_db w') \<and> left ?ident (w_db w') + (if rejected r then 1 else 0) \<le> left ?ident (w_db w)"
  proof (cases x)
    case (Inl e)
    then have "w' = w\<lparr>w_db := d\<rparr>" "r = Inl err_unauthorized" using run c db by (simp_all add: attempt_db)
    then show ?thesis using thin_pend[OF consume_error[OF c] ok] left_mono[OF consume_error[OF c] ok]
      by (simp add: rejected_def err_unauthorized_def err_wrong_code_def err_too_many_def)
  next
    case (Inr val)
    from consume_empties[OF ok c[unfolded Inr]] obtain row where d: "pend_ok ?ident d" "pend ?ident d = []"
      and row: "pend ?ident (w_db w) = [row]" "v_value (verification_from_map row) = val" by blast
    have t: "tries row = snd (parse_pending val)" using row(2) by (simp add: tries_def)
    then have "0 \<le> snd (parse_pending val)" "snd (parse_pending val) < max_verify_attempts" "left ?ident (w_db w) = nat (max_verify_attempts - snd (parse_pending val))"
      using ok row(1) by (auto simp: pend_ok_def left_def)
    moreover have "k val (w\<lparr>w_db := d\<rparr>) = (w', r)" using run c Inr db by (simp add: attempt_db)
    ultimately show ?thesis using tail[of val "w\<lparr>w_db := d\<rparr>" w' r] d by simp
  qed
qed

lemma thin_empty:
  assumes "moves wthin f" and "f w = (w', r)" and "pend_ok ident (w_db w)" and "pend ident (w_db w) = []"
  shows "pend_ok ident (w_db w') \<and> left ident (w_db w') = 0"
  using thin_pend[of "w_db w" "w_db w'" ident] movesD[OF assms(1,2)] assms(3,4) by (auto simp: wthin_def left_def)

lemma rejected_simps [simp]: "\<not> rejected (Inr x)" "\<not> rejected (Inl err_unauthorized)" "rejected (Inl err_wrong_code)" "rejected (Inl err_too_many)"
  "\<not> rejected (Inl (OtherError e))" "\<not> rejected (Inl err_secret_unreadable)" "\<not> rejected (Inl (ApiError 401 ''INVALID_OTP''))"
  "\<not> rejected (Inl err_invalid_body)"
  by (simp_all add: rejected_def err_unauthorized_def err_wrong_code_def err_too_many_def err_secret_unreadable_def err_invalid_body_def)

lemma counts_complete:
  assumes db: "au_db au = spec_adapter"
  shows "counts (pending_ident au (ch_token ch)) (complete_pending au tf cx ch trust)"
  unfolding complete_pending_def
proof (rule counts_consumed[OF db])
  let ?k = "bind (clear_pending tf) (\<lambda>_. bind (emit cx (factor_event ch\<lparr>ev_method := ''two-factor''\<rparr>)) (\<lambda>_.
      finish_factor au tf (cx\<lparr>cx_auth_method := ''two-factor''\<rparr>) ch trust))"
  fix val w w' r assume run: "?k w = (w', r)" and ok: "pend_ok (pending_ident au (ch_token ch)) (w_db w)"
    "pend (pending_ident au (ch_token ch)) (w_db w) = []" and n: "snd (parse_pending val) < max_verify_attempts"
  have "moves wthin ?k" by (intro frame_intros wthin_finish[OF db])
  from thin_empty[OF this run ok] n have "1 \<le> nat (max_verify_attempts - snd (parse_pending val))"
    "pend_ok (pending_ident au (ch_token ch)) (w_db w')" "left (pending_ident au (ch_token ch)) (w_db w') = 0" by auto
  then show "pend_ok (pending_ident au (ch_token ch)) (w_db w') \<and>
      left (pending_ident au (ch_token ch)) (w_db w') + (if rejected r then 1 else 0) \<le> nat (max_verify_attempts - snd (parse_pending val))"
    by simp
qed

text \<open>What a failed guess writes back, it can read.\<close>

lemma read_back:
  assumes "CHR ''|'' \<notin> set uid" and "0 < n" and "n < max_verify_attempts"
  shows "parse_pending (uid @ ''|'' @ itoa n) = (uid, n)"
proof -
  have "n \<in> {1, 2, 3, 4}" using assms(2,3) by (auto simp: max_verify_attempts_def)
  moreover have "atoi_lax (itoa 1) = 1" "atoi_lax (itoa 2) = 2" "atoi_lax (itoa 3) = 3" "atoi_lax (itoa 4) = 4" by code_simp+
  ultimately have "atoi_lax (itoa n) = n" by auto
  then show ?thesis using assms(1) str_cut_append[OF assms(1), of "itoa n"] by (simp add: parse_pending_def)
qed

lemma parsed_plain: "CHR ''|'' \<notin> set (fst (parse_pending val))"
  by (auto simp: parse_pending_def str_cut_None dest: str_cut_SomeD split: option.splits)

lemma store_again:
  assumes ok: "pend_ok (token_identifier hash kind tok) d" "pend (token_identifier hash kind tok) d = []"
    and uid: "CHR ''|'' \<notin> set uid" and n: "0 < n" "n < max_verify_attempts"
    and run: "store_token_value spec_adapter hash now gi kind tok (uid @ ''|'' @ itoa n) ttl d = (d', r)"
  shows "pend_ok (token_identifier hash kind tok) d' \<and> left (token_identifier hash kind tok) d' \<le> nat (max_verify_attempts - n)"
proof -
  let ?ident = "token_identifier hash kind tok" and ?v = "new_verification now gi (token_identifier hash kind tok) (uid @ ''|'' @ itoa n) ttl"
  have cs: "core_store d" using ok by (simp add: pend_ok_def)
  have rows: "filter (\<lambda>r. \<not> with_identifier ?ident r) (vrows d) = vrows d"
    using ok(2) by (simp add: pend_def filter_empty_conv filter_id_conv)
  have d1: "set_rows model_verification (vrows d) d = d" by (simp add: set_rows_def)
  have "d' = d \<or> d' = set_rows model_verification (vrows d @ [verification_to_map ?v]) d"
    using run by (auto simp: store_token_value_def delete_verifications_by_identifier_def bind_def delete_many_verification[OF cs] rows d1
        create_verification_spec[OF cs] split: if_splits)
  then show ?thesis
  proof
    assume "d' = d"
    then show ?thesis using ok by (simp add: left_def)
  next
    assume d': "d' = set_rows model_verification (vrows d @ [verification_to_map ?v]) d"
    have v: "v_identifier ?v = ?ident" "v_value ?v = uid @ ''|'' @ itoa n" "rget (verification_to_map ?v) ''id'' = VStr gi"
      by (simp_all add: new_verification_def verification_to_map_def rget_def)
    obtain row where row: "row = verification_to_map ?v" by blast
    have p: "pend ?ident d' = [row]" using ok(2) v(1) by (simp add: d' pend_def row)
    have t: "tries row = n" by (simp only: row tries_def verification_map_sel v read_back[OF uid n] snd_conv)
    have "core_store d'" "set (vrows d') = insert row (set (vrows d))" "\<exists>i. rget row ''id'' = VStr i" using cs v(3) by (auto simp: d' row)
    then show ?thesis using ok n cs by (simp add: pend_ok_def p t left_def row[symmetric])
  qed
qed

lemma counts_fail:
  assumes db: "au_db au = spec_adapter" and uid: "CHR ''|'' \<notin> set (u_id (ch_user ch))"
  shows "counts (pending_ident au (ch_token ch)) (fail_attempt au tf cx ch)"
  unfolding fail_attempt_def
proof (rule counts_consumed[OF db])
  let ?ident = "pending_ident au (ch_token ch)"
  fix val w w' and r :: "'a result"
  let ?n = "wrap_int64 (snd (parse_pending val) + 1)"
  let ?store = "store_token_value spec_adapter (au_digest au) (cx_now cx) (cx_fresh cx ''row:two-factor-pending'') token_kind_pending (ch_token ch)
      (u_id (ch_user ch) @ ''|'' @ itoa ?n) pending_ttl"
  assume run: "(let n = ?n in if n \<ge> max_verify_attempts
          then bind (clear_pending tf) (\<lambda>_.
               bind (emit cx (factor_event ch\<lparr>ev_outcome := ''failure'', ev_reason := ''too_many_attempts''\<rparr>)) (\<lambda>_.
               fail err_too_many))
          else bind (emit cx (factor_event ch\<lparr>ev_outcome := ''failure'', ev_reason := ''invalid_two_factor_code''\<rparr>)) (\<lambda>_.
               bind (ignore (db (store_token_value (au_db au) (au_digest au) (cx_now cx) (cx_fresh cx ''row:two-factor-pending'')
                       token_kind_pending (ch_token ch) (u_id (ch_user ch) @ ''|'' @ itoa n) pending_ttl))) (\<lambda>_.
               fail err_wrong_code))) w = (w', r)"
    and ok: "pend_ok ?ident (w_db w)" "pend ?ident (w_db w) = []"
    and a: "snd (parse_pending val) < max_verify_attempts" "0 \<le> snd (parse_pending val)"
  have n: "?n = snd (parse_pending val) + 1" using a by (simp add: wrap_int64_def max_verify_attempts_def)
  show "pend_ok ?ident (w_db w') \<and> left ?ident (w_db w') + (if rejected r then 1 else 0) \<le> nat (max_verify_attempts - snd (parse_pending val))"
  proof (cases "?n \<ge> max_verify_attempts")
    case True
    then have "w_db w' = w_db w" "r = Inl err_too_many" using run by (auto simp: Let_def clear_pending_def)
    then show ?thesis using ok a by (simp add: left_def)
  next
    case False
    obtain d x where st: "?store (w_db w) = (d, x)" by (meson surj_pair)
    with False run have "w_db w' = d" "r = Inl err_wrong_code"
      by (auto simp: Let_def db ignore_def bind_def[of "attempt _ _"] attempt_db)
    moreover from store_again[OF ok uid _ _ st] False n a have "pend_ok ?ident d" "left ?ident d \<le> nat (max_verify_attempts - (snd (parse_pending val) + 1))"
      by auto
    ultimately show ?thesis using a by auto
  qed
qed

section \<open>The handlers\<close>

lemma quiet_steps:
  assumes db: "au_db au = spec_adapter"
  shows "moves wthin (pending_challenge au cx cookie)" "quiet (pending_challenge au cx cookie)"
    and "quiet (query (\<lambda>_. decrypt_secret tf rec))" "quiet (query (\<lambda>_. decrypt_codes tf i e))" "quiet (no_panic y)"
    and "quiet (db (claim_counter (au_db au) rec c))" "quiet (ignore (db (delete_verification (au_db au) i)))"
    and "quiet (need_body body)" "quiet (require_session (Inl err_unauthorized))"
proof -
  show m: "moves wthin (pending_challenge au cx cookie)"
    unfolding pending_challenge_def db Let_def by (auto intro!: frame_intros split: option.splits prod.splits)
  have "\<not> rejected (snd (pending_challenge au cx cookie w))" for w
    by (auto simp: pending_challenge_def attempt_db split: option.splits prod.splits sum.splits)
  then show "quiet (pending_challenge au cx cookie)" using m by (simp add: quiet_def)
  show "quiet (query (\<lambda>_. decrypt_secret tf rec))" "quiet (query (\<lambda>_. decrypt_codes tf i e))" "quiet (no_panic y)"
    "quiet (need_body body)" "quiet (require_session (Inl err_unauthorized))"
    by (auto simp: quiet_def moves_def wthin_def tstep.reflexive decrypt_secret_def decrypt_codes_def no_panic_def need_body_def
        require_session_def Let_def split: sum.splits option.splits)
  have "moves wthin (db (claim_counter (au_db au) rec c))" "moves wthin (ignore (db (delete_verification (au_db au) i)))"
    unfolding db ignore_def by (intro frame_intros)+
  moreover have "\<exists>v. snd (claim_counter (au_db au) rec c d) = Inr v" for d
    by (auto simp: claim_counter_def Let_def attempt_def split: prod.splits sum.splits)
  then have "\<not> rejected (snd (claim_counter (au_db au) rec c d))" for d by (metis rejected_simps(1))
  ultimately show "quiet (db (claim_counter (au_db au) rec c))" "quiet (ignore (db (delete_verification (au_db au) i)))"
    by (auto simp: quiet_def ignore_def attempt_db split: prod.splits)
qed

text \<open>The challenge a cookie stands for.\<close>

definition challenged :: "string \<Rightarrow> challenge \<Rightarrow> bool" where
  "challenged tok ch \<longleftrightarrow> ch_token ch = tok \<and> CHR ''|'' \<notin> set (u_id (ch_user ch))"

lemma pending_challenged:
  assumes "au_db au = spec_adapter" and "snd (pending_challenge au cx (Some tok) w) = Inr ch"
  shows "challenged tok ch"
proof -
  obtain d and v :: verification where "ch_token ch = tok" "snd (find_user_by_id spec_adapter (fst (parse_pending (v_value v))) d) = Inr (ch_user ch)"
    using assms by (auto simp: pending_challenge_def attempt_db case_prod_beta Let_def split: if_splits sum.splits)
  then show ?thesis using user_by_id_ok parsed_plain by (metis challenged_def prod.collapse)
qed

lemma counts_ends:
  assumes "au_db au = spec_adapter" and "challenged tok ch"
  shows "counts (pending_ident au tok) (fail_attempt au tf cx ch)" "counts (pending_ident au tok) (complete_pending au tf cx ch trust)"
  using assms(2) counts_fail[OF assms(1), of ch] counts_complete[OF assms(1), of ch] by (auto simp: challenged_def)

lemma counts_lookup:
  assumes "moves thin f" and "\<And>v. counts ident (k v)" and "\<not> rejected (Inl e :: 'a result)"
  shows "counts ident (attempt (db f) (\<lambda>r. case r of Inl _ \<Rightarrow> fail e :: (sdb world, 'a) act | Inr v \<Rightarrow> k v))"
proof (rule counts_attempt[where P = "\<lambda>_. True"])
  show "moves wthin (db f)" using assms(1) by (intro frame_intros)
  show "counts ident (case r of Inl _ \<Rightarrow> fail e | Inr v \<Rightarrow> k v)" for r
    using assms(2,3) by (cases r) (auto simp: counts_def)
qed simp

lemma counts_fixed [simp]: "\<not> rejected (Inl e :: 'a result) \<Longrightarrow> counts ident (fail e :: (sdb world, 'a) act)"
  by (simp add: counts_def)

lemma counts_pending:
  assumes db: "au_db au = spec_adapter" and k: "\<And>ch. challenged tok ch \<Longrightarrow> counts ident (k ch)"
  shows "counts ident (bind (pending_challenge au cx (Some tok)) k)"
  by (rule counts_bind[where P = "challenged tok", OF quiet_steps(2)[OF db] pending_challenged[OF db] k])

lemma counts_totp:
  assumes db: "au_db au = spec_adapter" and ch: "challenged tok ch"
  shows "counts (pending_ident au tok) (answer_totp au tf cx ch b)"
proof -
  have "moves thin (factor_row (au_db au) i)" for i unfolding db by (intro frame_intros)
  then show ?thesis unfolding answer_totp_def
    by (intro counts_lookup counts_bind[where P = "\<lambda>_. True"] counts_if counts_ends[OF db] quiet_steps[OF db] TrueI ch) simp_all
qed

lemma counts_otp:
  assumes db: "au_db au = spec_adapter"
  shows "counts (pending_ident au tok) (handle_verify_otp au tf cx (Some tok) body)"
proof -
  have "moves thin (lookup_token (au_db au) (au_digest au) (cx_now cx) token_kind_otp i)" for i unfolding db by (intro frame_intros)
  then show ?thesis unfolding handle_verify_otp_def
    by (intro counts_bind[where P = "\<lambda>_. True"] quiet_steps[OF db] TrueI counts_pending[OF db] counts_lookup counts_if counts_ends db) simp_all
qed

lemma update_many_error:
  "spec_update_many m ws u d = (d', Inl e) \<Longrightarrow> \<not> rejected (Inl e)"
  by (auto simp: spec_update_many_def check_where_fields_def check_writable_fields_def rejected_def err_wrong_code_def err_too_many_def
      split: if_splits option.splits list.splits)

lemma counts_backup:
  assumes db: "au_db au = spec_adapter"
  shows "counts (pending_ident au tok) (handle_verify_backup au tf cx (Some tok) body)"
proof -
  have row: "moves thin (factor_row (au_db au) i)" for i unfolding db by (intro frame_intros)
  have seal: "quiet (query (\<lambda>_. seal_factor tf i f v))" for i f v
    by (auto simp: quiet_def moves_def wthin_def tstep.reflexive seal_factor_def Let_def split: sum.splits)
  have "moves wthin (db (ad_update_many (au_db au) model_two_factor ws u))" for ws u
    unfolding db spec_adapter_sel by (intro frame_intros) (simp add: model_names model_two_factor_def)
  moreover have "\<not> rejected (snd (db (ad_update_many (au_db au) model_two_factor ws u) w))" for ws u w
    using update_many_error[of model_two_factor ws u "w_db w"] unfolding db spec_adapter_sel db_run snd_conv
    by (cases "spec_update_many model_two_factor ws u (w_db w)"; cases "snd (spec_update_many model_two_factor ws u (w_db w))") auto
  ultimately have up: "quiet (db (ad_update_many (au_db au) model_two_factor ws u))" for ws u by (simp add: quiet_def)
  have split: "counts ident (f :: (sdb world, factor_reply) act) \<Longrightarrow> (\<And>x. counts ident (g x)) \<Longrightarrow> counts ident (case y of None \<Rightarrow> f | Some x \<Rightarrow> g x)" for ident f g and y :: "string list option"
    by (cases y) simp_all
  show ?thesis unfolding handle_verify_backup_def Let_def
  proof (rule counts_bind[where P = "\<lambda>_. True", OF quiet_steps(8)[OF db] TrueI], rule counts_pending[OF db])
    fix b ch assume ch: "challenged tok ch"
    show "counts (pending_ident au tok) (attempt (db (factor_row (au_db au) (u_id (ch_user ch)))) (\<lambda>r. case r of
       Inl _ \<Rightarrow> fail err_unauthorized
     | Inr rec \<Rightarrow> bind (query (\<lambda>_. decrypt_codes tf (stored_string rec ''id'') (stored_string rec ''backupCodes''))) (\<lambda>codes.
          case remove_code (typed_code (an_code b)) codes of
            None \<Rightarrow> fail_attempt au tf cx ch
          | Some remaining \<Rightarrow>
              bind (query (\<lambda>_. seal_factor tf (stored_string rec ''id'') ''backupCodes'' (tf_write tf remaining))) (\<lambda>enc'.
              bind (db (ad_update_many (au_db au) model_two_factor [W ''id'' (VStr (stored_string rec ''id'')),
                  W ''backupCodes'' (VStr (stored_string rec ''backupCodes''))] [(''backupCodes'', VStr enc')])) (\<lambda>n.
              if n = 0 then fail (ApiError 409 ''RETRY'') else complete_pending au tf cx ch (an_trust b))))))"
      by (intro counts_lookup counts_bind[where P = "\<lambda>_. True"] quiet_steps[OF db] seal up TrueI row split counts_if counts_ends[OF db] ch counts_fixed)
        (simp_all add: rejected_def err_wrong_code_def err_too_many_def err_unauthorized_def)
  qed
qed

lemma counts_guess:
  assumes db: "au_db au = spec_adapter"
  shows "counts (pending_ident au tok) (guess au tf tok g)"
proof -
  have "counts (pending_ident au tok) (handle_verify_totp au tf cx (Some tok) (Inl err_unauthorized) body)" for cx body
    unfolding handle_verify_totp_def
  proof (intro counts_bind[where P = "\<lambda>_. True"] quiet_steps[OF db] TrueI)
    fix b
    show "counts (pending_ident au tok) (attempt (pending_challenge au cx (Some tok)) (\<lambda>r. case r of
       Inr ch \<Rightarrow> answer_totp au tf cx ch b
     | Inl _ \<Rightarrow> bind (require_session (Inl err_unauthorized)) (\<lambda>sd. confirm_totp au tf cx sd b)))"
    proof (rule counts_attempt[where P = "\<lambda>r. \<forall>ch. r = Inr ch \<longrightarrow> challenged tok ch"])
      show "counts (pending_ident au tok) (case r of
         Inr ch \<Rightarrow> answer_totp au tf cx ch b
       | Inl _ \<Rightarrow> bind (require_session (Inl err_unauthorized)) (\<lambda>sd. confirm_totp au tf cx sd b))"
        if "\<forall>ch. r = Inr ch \<longrightarrow> challenged tok ch" for r
        using that counts_totp[OF db] by (cases r) (auto simp: require_session_def bind_query counts_def)
    qed (use pending_challenged[OF db] quiet_steps(1)[OF db] in auto)
  qed
  then show ?thesis using counts_otp[OF db] counts_backup[OF db] by (simp add: guess_def split: way.splits)
qed

section \<open>Any number of guesses\<close>

lemma guesses_bound:
  assumes db: "au_db au = spec_adapter"
  shows "pend_ok (pending_ident au tok) (w_db w) \<Longrightarrow> length (filter rejected (guesses au tf tok gs w)) \<le> left (pending_ident au tok) (w_db w)"
proof (induction gs arbitrary: w)
  case (Cons g gs)
  obtain w' r where g: "guess au tf tok g w = (w', r)" by (meson surj_pair)
  with counts_guess[OF db, of tok tf g] Cons.prems have "pend_ok (pending_ident au tok) (w_db w')"
    "left (pending_ident au tok) (w_db w') + (if rejected r then 1 else 0) \<le> left (pending_ident au tok) (w_db w)" by (auto simp: counts_def)
  with Cons.IH[of w'] g show ?case by (auto split: if_splits)
qed simp

lemma guess_sim:
  assumes "factor_schema sc" and "au_db au = mem_adapter" and "hooks_ok (au_hooks au)"
  shows "sim (wmap mem_abs) (winv (mem_inv (Some sc))) (guess au tf tok g) (guess (on_spec au) tf tok g)"
  using mem.answer_sims[OF assms(2,3) factor_uniq[OF assms(1)]] by (simp add: guess_def split: way.splits)

lemma guesses_same:
  assumes "factor_schema sc" and "au_db au = mem_adapter" and "hooks_ok (au_hooks au)"
  shows "mem_inv (Some sc) (w_db w) \<Longrightarrow> guesses au tf tok gs w = guesses (on_spec au) tf tok gs (wmap mem_abs w)"
proof (induction gs arbitrary: w)
  case (Cons g gs)
  obtain w' r where g: "guess au tf tok g w = (w', r)" by (meson surj_pair)
  have "winv (mem_inv (Some sc)) w" using Cons.prems by (simp add: winv_def)
  from simD[OF guess_sim[OF assms] this g] have "mem_inv (Some sc) (w_db w')"
    "guess (on_spec au) tf tok g (wmap mem_abs w) = (wmap mem_abs w', r)" by (auto simp: winv_def)
  then show ?case using Cons.IH[of w'] g by simp
qed simp

text \<open>
  C33: a challenge allows five guesses. However many answers are sent for one challenge to the
  in-memory store, in whatever order the three kinds of answer come, at whatever times and whatever they
  contain, at most five of them are turned down as wrong, starting from a challenge that has
  one row and has not been answered.
\<close>

theorem five_guesses:
  assumes "factor_schema sc" and "mem_inv (Some sc) (w_db w)" and "au_db au = mem_adapter" and "hooks_ok (au_hooks au)"
    and "filter (with_identifier (token_identifier (au_digest au) token_kind_pending tok)) (mem_rows (w_db w) model_verification)
      = [verification_to_map v]" and "CHR ''|'' \<notin> set (v_value v)"
  shows "length (filter (\<lambda>r. r = Inl err_wrong_code \<or> r = Inl err_too_many) (guesses au tf tok gs w)) \<le> 5"
proof -
  have core: "factor_db (mem_abs (w_db w))" by (rule factor_db_mem[OF assms(1,2)])
  have "parse_pending (v_value v) = (v_value v, 0)" using assms(6) by (simp add: parse_pending_def str_cut_None[THEN iffD2])
  then have t: "tries (verification_to_map v) = 0" by (simp add: tries_def)
  have p: "pend (pending_ident (on_spec au) tok) (w_db (wmap mem_abs w)) = [verification_to_map v]" using assms(5) by (simp add: pend_def)
  have "pend_ok (pending_ident (on_spec au) tok) (w_db (wmap mem_abs w))"
    using core str_id_of[of "mem_abs (w_db w)" _ model_verification] t unfolding pend_ok_def p
    by (auto simp: factor_db_def max_verify_attempts_def)
  from guesses_bound[OF _ this, of tf gs]
  have "length (filter rejected (guesses au tf tok gs w)) \<le> left (pending_ident (on_spec au) tok) (w_db (wmap mem_abs w))"
    unfolding guesses_same[OF assms(1,3,4,2)] by simp
  also have "left (pending_ident (on_spec au) tok) (w_db (wmap mem_abs w)) = 5"
    unfolding left_def p by (simp add: t max_verify_attempts_def)
  finally have "length (filter rejected (guesses au tf tok gs w)) \<le> 5" .
  then show ?thesis by (simp add: rejected_def[abs_def])
qed

lemma five_guesses_witness:
  "length (filter (\<lambda>r. r = Inl err_wrong_code \<or> r = Inl err_too_many) (guesses (demo_auth mem_adapter) demo_tf ''p1''
     (replicate 9 \<lparr>at_cx = demo_cx, at_way = ByBackup, at_body = Some (demo_answer ''no'')\<rparr>)
     (seeded_in demo_factor_schema demo_factor_rows))) \<le> 5"
proof -
  note facts = seeded_in_facts[OF demo_wf demo_factor_ids]
  have "filter (with_identifier ''two-factor-pending:p1'') (sd_rows (w_db (spec_seeded_in demo_factor_schema demo_factor_rows)) model_verification)
      = [verification_to_map (demo_challenge ''p1'')]" by code_simp
  then have "filter (with_identifier (token_identifier (au_digest (demo_auth mem_adapter)) token_kind_pending ''p1''))
      (mem_rows (w_db (seeded_in demo_factor_schema demo_factor_rows)) model_verification) = [verification_to_map (demo_challenge ''p1'')]"
    by (simp add: facts(5) token_identifier_def token_kind_pending_def demo_auth_def)
  from five_guesses[OF demo_factor_schema_ok facts(1) _ _ this] show ?thesis by (simp add: demo_challenge_def)
qed

end
