(* ===== verification/Trust_Laws.thy ===== *)
theory Trust_Laws
  imports Two_Factor_Laws
begin

text \<open>
  When the second factor is asked for, what a trusted device is, and what the current
  factor protects.
\<close>

section \<open>Trusted devices\<close>

lemma parse_int64_plain: "parse_int64 s = Some e \<Longrightarrow> CHR ''|'' \<notin> set s"
  by (cases s) (auto simp: parse_int64_def Let_def list_all_iff is_digit_def byte_of_def split: if_splits)

definition trust_payload :: "two_factor \<Rightarrow> string \<Rightarrow> string" where
  "trust_payload tf p = p @ ''|'' @ sign_hmac_purpose (tf_sign tf) (tf_key tf) trust_purpose p"

lemma device_trusted_iff:
  assumes "0 < tf_trust tf"
  shows "device_trusted tf now cookie uid \<longleftrightarrow> CHR ''|'' \<notin> set uid \<and>
    (\<exists>s e. cookie = Some (trust_payload tf (uid @ ''|'' @ s)) \<and> parse_int64 s = Some e \<and> unix_sec now < e)"
proof (cases "device_trusted tf now cookie uid")
  case True
  then obtain val where val: "cookie = Some val" by (cases cookie) (auto simp: device_trusted_def split: if_splits)
  with True obtain i rest where cut: "str_cut (CHR ''|'') val = Some (i, rest)"
    by (cases "str_cut (CHR ''|'') val") (auto simp: device_trusted_def split: if_splits)
  with True val obtain s sig where cut2: "str_cut (CHR ''|'') rest = Some (s, sig)"
    by (cases "str_cut (CHR ''|'') rest") (auto simp: device_trusted_def split: if_splits)
  from True val cut cut2 obtain e where c: "cookie = Some val" "str_cut (CHR ''|'') val = Some (uid, rest)"
    "str_cut (CHR ''|'') rest = Some (s, sig)" "verify_hmac_purpose (tf_sign tf) (tf_key tf) trust_purpose (uid @ ''|'' @ s) sig"
    "parse_int64 s = Some e" "unix_sec now < e"
    by (auto simp: device_trusted_def split: if_splits option.splits)
  from str_cut_SomeD[OF c(2)] str_cut_SomeD[OF c(3)] have "val = trust_payload tf (uid @ ''|'' @ s)" "CHR ''|'' \<notin> set uid"
    using c(4) by (simp_all add: trust_payload_def verify_hmac_purpose_def)
  with True c show ?thesis by blast
next
  case False
  have "device_trusted tf now (Some (trust_payload tf (uid @ ''|'' @ s))) uid"
    if "CHR ''|'' \<notin> set uid" "parse_int64 s = Some e" "unix_sec now < e" for s e
    using that assms parse_int64_plain[OF that(2)] str_cut_append[OF that(1), of "s @ ''|'' @ x" for x]
    by (simp add: device_trusted_def trust_payload_def verify_hmac_purpose_def)
  with False show ?thesis by blast
qed

section \<open>The guard\<close>

definition flag_set :: "user \<Rightarrow> bool" where
  "flag_set u = (case map_of (u_extra u) ''twoFactorEnabled'' of None \<Rightarrow> False | Some v \<Rightarrow> v \<noteq> VNil \<and> v \<noteq> VBool False)"

text \<open>
  C34: with two-factor authentication switched on for a user, over any storage, a sign-in goes
  on without a challenge exactly when the request carries the value the server
  signs for this user and a time that has not come yet, and trusting devices is enabled at
  all. In every other case a challenge for the user is stored and its cookie set, or
  the storage failed and the sign-in fails with it; any flag but a plain \<open>false\<close> or nothing counts
  as switched on.
\<close>

theorem second_factor_required:
  assumes "flag_set u"
  shows "before_sign_in au tf cx trust u w =
    (if 0 < tf_trust tf \<and> CHR ''|'' \<notin> set (u_id u) \<and>
        (\<exists>s e. trust = Some (trust_payload tf (u_id u @ ''|'' @ s)) \<and> parse_int64 s = Some e \<and> unix_sec (cx_now cx) < e)
     then (w, Inr False)
     else (case new_token au cx token_kind_pending (u_id u) pending_ttl w of
        (w', Inl e) \<Rightarrow> (w', Inl e)
      | (w', Inr tok) \<Rightarrow> (w'\<lparr>w_log := w_log w' @ [PluginCookie (pending_name tf) tok 600]\<rparr>, Inr True)))"
proof -
  have t: "device_trusted tf (cx_now cx) trust (u_id u) \<longleftrightarrow> 0 < tf_trust tf \<and> CHR ''|'' \<notin> set (u_id u) \<and>
      (\<exists>s e. trust = Some (trust_payload tf (u_id u @ ''|'' @ s)) \<and> parse_int64 s = Some e \<and> unix_sec (cx_now cx) < e)"
  proof (cases "0 < tf_trust tf")
    case True
    then show ?thesis using device_trusted_iff[OF True] by simp
  next
    case False
    then show ?thesis by (simp add: device_trusted_def)
  qed
  show ?thesis using assms unfolding t[symmetric]
    by (auto simp: before_sign_in_def flag_set_def set_pending_def bind_def[of "new_token _ _ _ _ _"] split: option.splits prod.splits sum.splits)
qed

lemma second_factor_required_witness:
  "snd (before_sign_in (demo_auth mem_adapter) demo_tf demo_cx (Some (trust_value demo_tf ''u1'' 3))
     (demo_user_row\<lparr>u_extra := [(''twoFactorEnabled'', VBool True)]\<rparr>) (seeded_in demo_factor_schema demo_factor_rows)) = Inr False"
proof -
  let ?u = "demo_user_row\<lparr>u_extra := [(''twoFactorEnabled'', VBool True)]\<rparr>"
  have f: "flag_set ?u" by code_simp
  have "trust_value demo_tf ''u1'' 3 = trust_payload demo_tf (u_id ?u @ ''|'' @ itoa 3)"
    by (simp add: trust_value_def trust_payload_def demo_user_row_def)
  moreover have "parse_int64 (itoa 3) = Some 3" "0 < tf_trust demo_tf" "unix_sec (cx_now demo_cx) < 3" "CHR ''|'' \<notin> set (u_id ?u)" by code_simp+
  ultimately show ?thesis unfolding second_factor_required[OF f] by auto
qed

section \<open>Changing the factor\<close>

text \<open>
  A finding: replacing an active factor needs a code of it, as the comment in
  \<open>handleEnable\<close> explains, but the same session and the same password switch it off, after which
  nothing is left to ask a code of.
\<close>

definition demo_sd :: session_data where
  "demo_sd = session_sd (demo_session 0 1000) (demo_user_row\<lparr>u_extra := [(''twoFactorEnabled'', VBool True)]\<rparr>)"

definition demo_password :: factor_body where "demo_password = \<lparr>fb_password = ''secret99'', fb_code = []\<rparr>"

lemma factor_removed_without_code:
  "snd (handle_enable (demo_auth spec_adapter) demo_tf demo_cx (Inr demo_sd) (Some demo_password)
      (spec_seeded_in demo_factor_schema demo_factor_rows)) = Inl err_code_required
   \<and> (case handle_disable (demo_auth spec_adapter) demo_cx (Inr demo_sd) (Some demo_password)
        (spec_seeded_in demo_factor_schema demo_factor_rows) of
      (w, r) \<Rightarrow> r = Inr FactorOk \<and> sd_rows (w_db w) model_two_factor = []
        \<and> map (\<lambda>r. rget r ''twoFactorEnabled'') (sd_rows (w_db w) model_user) = [VBool False])"
  by (intro conjI; code_simp)

text \<open>
  A second finding: the code that confirms an enrolment is checked but not claimed, so the same code
  answers a challenge afterwards.
\<close>

lemma confirmation_code_used_again:
  "case handle_verify_totp (demo_auth spec_adapter) demo_tf demo_cx None (Inr demo_sd) (Some (demo_answer ''000001''))
      (spec_seeded_in demo_factor_schema demo_factor_rows) of
    (w, r) \<Rightarrow> r = Inr FactorOk
     \<and> (case snd (handle_verify_totp (demo_auth spec_adapter) demo_tf demo_cx (Some ''p1'') (Inl err_unauthorized)
            (Some (demo_answer ''000001'')) w) of Inr (FactorSession s u) \<Rightarrow> u_id u = ''u1'' | _ \<Rightarrow> False)"
  by code_simp

section \<open>Backup codes\<close>

lemma remove_code_iff: "remove_code c codes = (if c \<in> set codes then Some (remove1 c codes) else None)"
  by (induction codes) auto

lemma decrypt_own:
  assumes "gcm env" and "length n = ce_nonce_size env" and "kr_keys kr \<noteq> []" and "encrypt env kr (Some n) b pt = Inr e"
  shows "decrypt env kr b e = Inr pt"
proof -
  obtain k ks where k: "kr_keys kr = k # ks" using assms(3) by (cases "kr_keys kr") auto
  have "binding_valid b" "e = sealed env (current_key kr) n b pt" using assms(4) by (auto simp: encrypt_sealed split: if_splits)
  moreover have "ce_open env (enc_key env k) n (ce_seal env (enc_key env k) n pt a) a = Some pt" for a
    using assms(1) by (simp add: gcm_def)
  ultimately show ?thesis by (simp add: decrypt_sealed[OF assms(2)] k current_key_def)
qed

lemma backup_answer_ok:
  assumes db: "au_db au = spec_adapter" and core: "factor_db (w_db w)"
    and run: "handle_verify_backup au tf cx cookie (Some b) w = (w', Inr (FactorSession s u))"
  shows "\<exists>rec codes enc. find (with_str ''userId'' (u_id u)) (frows (w_db w)) = Some rec
    \<and> decrypt_codes tf (stored_string rec ''id'') (stored_string rec ''backupCodes'') = Inr codes \<and> typed_code (an_code b) \<in> set codes
    \<and> seal_factor tf (stored_string rec ''id'') ''backupCodes'' (tf_write tf (remove1 (typed_code (an_code b)) codes)) = Inr enc
    \<and> frows (w_db w') = map (\<lambda>r. if id_of rec r then gmerge r [(''backupCodes'', VStr enc)] else r) (frows (w_db w))"
proof -
  have cs: "core_store (w_db w)" using core by (simp add: factor_db_def)
  let ?last = "\<lambda>ch n. if n = 0 then fail (ApiError 409 ''RETRY'') else complete_pending au tf cx ch (an_trust b)"
  let ?set = "\<lambda>rec ch enc. bind (db (ad_update_many (au_db au) model_two_factor [W ''id'' (VStr (stored_string rec ''id'')),
     W ''backupCodes'' (VStr (stored_string rec ''backupCodes''))] [(''backupCodes'', VStr enc)])) (?last ch)"
  let ?spend = "\<lambda>rec ch codes. case remove_code (typed_code (an_code b)) codes of None \<Rightarrow> fail_attempt au tf cx ch
     | Some remaining \<Rightarrow> bind (query (\<lambda>_. seal_factor tf (stored_string rec ''id'') ''backupCodes'' (tf_write tf remaining))) (?set rec ch)"
  from run obtain ch w1 where pc: "pending_challenge au cx cookie w = (w1, Inr ch)"
    and rest: "attempt (db (factor_row (au_db au) (u_id (ch_user ch)))) (\<lambda>r. case r of
       Inl _ \<Rightarrow> fail err_unauthorized
     | Inr rec \<Rightarrow> bind (query (\<lambda>_. decrypt_codes tf (stored_string rec ''id'') (stored_string rec ''backupCodes''))) (?spend rec ch)) w1
      = (w', Inr (FactorSession s u))"
    unfolding handle_verify_backup_def Let_def by (auto dest!: bind_okD)
  have w1: "w1 = w" using pending_ok[OF db cs pc] by simp
  have "attempt (db (factor_row (au_db au) i)) k w = k (case find (with_str ''userId'' i) (frows (w_db w)) of None \<Rightarrow> Inl ErrNotFound | Some r \<Rightarrow> Inr r) w"
    for i and k :: "_ \<Rightarrow> (_, factor_reply) act" by (simp add: attempt_db db factor_row_spec[OF core])
  with rest obtain rec where rec: "find (with_str ''userId'' (u_id (ch_user ch))) (frows (w_db w)) = Some rec"
    and 1: "bind (query (\<lambda>_. decrypt_codes tf (stored_string rec ''id'') (stored_string rec ''backupCodes''))) (?spend rec ch) w = (w', Inr (FactorSession s u))"
    unfolding w1 by (auto split: option.splits)
  from bind_okD[OF 1] obtain codes where codes: "decrypt_codes tf (stored_string rec ''id'') (stored_string rec ''backupCodes'') = Inr codes"
    and 2: "?spend rec ch codes w = (w', Inr (FactorSession s u))" by auto
  from 2 have used: "typed_code (an_code b) \<in> set codes"
    and 3: "bind (query (\<lambda>_. seal_factor tf (stored_string rec ''id'') ''backupCodes'' (tf_write tf (remove1 (typed_code (an_code b)) codes)))) (?set rec ch) w
      = (w', Inr (FactorSession s u))" by (auto simp: remove_code_iff split: if_splits)
  from bind_okD[OF 3] obtain enc where enc: "seal_factor tf (stored_string rec ''id'') ''backupCodes'' (tf_write tf (remove1 (typed_code (an_code b)) codes)) = Inr enc"
    and 4: "?set rec ch enc w = (w', Inr (FactorSession s u))" by auto
  let ?ws = "[W ''id'' (VStr (stored_string rec ''id'')), W ''backupCodes'' (VStr (stored_string rec ''backupCodes''))]"
  from bind_okD[OF 4] obtain d n where up: "spec_update_many model_two_factor ?ws [(''backupCodes'', VStr enc)] (w_db w) = (d, Inr n)"
    and n: "n \<noteq> 0" and fin: "complete_pending au tf cx ch (an_trust b) (w\<lparr>w_db := d\<rparr>) = (w', Inr (FactorSession s u))"
    by (cases "spec_update_many model_two_factor ?ws [(''backupCodes'', VStr enc)] (w_db w)") (auto simp: db split: if_splits)
  from complete_ok[OF db fin] obtain d1 val where u: "u = ch_user ch"
    and c: "consume_token spec_adapter (au_digest au) (cx_now cx) token_kind_pending (ch_token ch) d = (d1, Inr val)"
    and s1: "same_rows {model_session} d1 (w_db w')" by auto
  have "only {model_verification} (consume_token spec_adapter (au_digest au) (cx_now cx) token_kind_pending (ch_token ch))" by (intro frame_intros) simp
  from movesD[OF this c] s1 have f: "frows (w_db w') = frows d" by (simp add: same_rows_def model_names model_two_factor_def)
  have inv: "sdb_inv (w_db w)" and mem: "rec \<in> set (frows (w_db w))" using core find_in[OF rec] by (auto simp: factor_db_def)
  obtain i where i: "rget rec ''id'' = VStr i" using str_id_of[OF inv mem] ..
  then have id: "stored_string rec ''id'' = i" by (simp add: stored_string_def)
  have rows: "d = set_rows model_two_factor (map (\<lambda>r. if matches r ?ws then gmerge r [(''backupCodes'', VStr enc)] else r) (frows (w_db w))) (w_db w)"
    and hits: "n = length (filter (\<lambda>r. matches r ?ws) (frows (w_db w)))"
    using up by (auto elim!: spec_update_many_cases)
  have only_rec: "matches r ?ws \<longleftrightarrow> id_of rec r" if r: "r \<in> set (frows (w_db w))" for r
  proof -
    obtain q where q: "q \<in> set (frows (w_db w))" "matches q ?ws" using n hits by (metis filter_False length_0_conv)
    then have "q = rec" by (intro same_id_same_row[OF inv _ mem]) (auto simp: i id)
    then show ?thesis using q(2) same_id_same_row[OF inv r mem] by (auto simp: i id id_of_def)
  qed
  have "map (\<lambda>r. if matches r ?ws then gmerge r [(''backupCodes'', VStr enc)] else r) (frows (w_db w))
      = map (\<lambda>r. if id_of rec r then gmerge r [(''backupCodes'', VStr enc)] else r) (frows (w_db w))" by (intro map_cong) (auto simp: only_rec simp del: matches_pair)
  then have "frows d = map (\<lambda>r. if id_of rec r then gmerge r [(''backupCodes'', VStr enc)] else r) (frows (w_db w))"
    unfolding rows by (simp del: matches_pair)
  then show ?thesis using rec codes used enc u f by auto
qed

text \<open>
  C35: a backup code is good for one sign-in. When a challenge is answered with a backup code on
  the in-memory store, the code was among the user's, and what the row of the user
  holds afterwards decrypts to the list without it; nothing else in the row has changed. The
  cipher must open what it sealed, and the nonces drawn must have its length.
\<close>

theorem backup_code_spent:
  assumes "factor_schema sc" and "mem_inv (Some sc) (w_db w)" and "au_db au = mem_adapter" and "hooks_ok (au_hooks au)"
    and "gcm (ro_env (tf_ring tf))" and "kr_keys (ro_ring (tf_ring tf)) \<noteq> []"
    and "\<forall>p n. ro_rand (tf_ring tf) p = Some n \<longrightarrow> length n = ce_nonce_size (ro_env (tf_ring tf))"
    and "handle_verify_backup au tf cx cookie (Some b) w = (w', Inr (FactorSession s u))"
  shows "\<exists>rec rec' codes i. find (with_str ''userId'' (u_id u)) (mem_rows (w_db w) model_two_factor) = Some rec
    \<and> rget rec ''id'' = VStr i \<and> decrypt_codes tf i (stored_string rec ''backupCodes'') = Inr codes
    \<and> typed_code (an_code b) \<in> set codes
    \<and> find (with_str ''userId'' (u_id u)) (mem_rows (w_db w') model_two_factor) = Some rec'
    \<and> decrypt (ro_env (tf_ring tf)) (ro_ring (tf_ring tf)) (factor_place i ''backupCodes'') (stored_string rec' ''backupCodes'')
      = Inr (tf_write tf (remove1 (typed_code (an_code b)) codes))
    \<and> (\<forall>f. f \<noteq> ''backupCodes'' \<longrightarrow> rget rec' f = rget rec f)"
proof -
  have core: "factor_db (w_db (wmap mem_abs w))" using factor_db_mem[OF assms(1,2)] by simp
  have "winv (mem_inv (Some sc)) w" using assms(2) by (simp add: winv_def)
  from simD[OF mem.answer_sims(3)[OF assms(3,4) factor_uniq[OF assms(1)]] this assms(8)]
  have run: "handle_verify_backup (on_spec au) tf cx cookie (Some b) (wmap mem_abs w) = (wmap mem_abs w', Inr (FactorSession s u))" by blast
  have rows: "mem_rows (w_db v) m = sd_rows (w_db (wmap mem_abs v)) m" for v m by simp
  have on: "au_db (on_spec au) = spec_adapter" by simp
  from backup_answer_ok[OF on core run] obtain rec codes enc where
    rec: "find (with_str ''userId'' (u_id u)) (mem_rows (w_db w) model_two_factor) = Some rec"
    and codes: "decrypt_codes tf (stored_string rec ''id'') (stored_string rec ''backupCodes'') = Inr codes" "typed_code (an_code b) \<in> set codes"
    and enc: "seal_factor tf (stored_string rec ''id'') ''backupCodes'' (tf_write tf (remove1 (typed_code (an_code b)) codes)) = Inr enc"
    and after: "mem_rows (w_db w') model_two_factor
      = map (\<lambda>r. if id_of rec r then gmerge r [(''backupCodes'', VStr enc)] else r) (mem_rows (w_db w) model_two_factor)"
    unfolding rows by blast
  have "rec \<in> set (frows (mem_abs (w_db w)))" using find_in[OF rec] by simp
  with core obtain i where i: "rget rec ''id'' = VStr i" using str_id_of[of "mem_abs (w_db w)" rec model_two_factor] by (auto simp: factor_db_def)
  have keep: "rget (gmerge r [(''backupCodes'', VStr enc)]) f = (if f = ''backupCodes'' then VStr enc else rget r f)" for r f
    by (simp add: rget_def map_add_def)
  have new: "find (with_str ''userId'' (u_id u)) (mem_rows (w_db w') model_two_factor) = Some (gmerge rec [(''backupCodes'', VStr enc)])"
    unfolding after by (subst find_map_same) (auto simp: with_str_def keep rec id_of_def)
  from enc obtain n where n: "ro_rand (tf_ring tf) (factor_place (stored_string rec ''id'') ''backupCodes'') = Some n"
    and e: "encrypt (ro_env (tf_ring tf)) (ro_ring (tf_ring tf)) (Some n) (factor_place (stored_string rec ''id'') ''backupCodes'')
      (tf_write tf (remove1 (typed_code (an_code b)) codes)) = Inr enc"
    by (cases "ro_rand (tf_ring tf) (factor_place (stored_string rec ''id'') ''backupCodes'')")
      (auto simp: seal_factor_def Let_def encrypt_def split: sum.splits if_splits)
  have id: "stored_string rec ''id'' = i" by (simp add: stored_string_def i)
  from decrypt_own[OF assms(5) _ assms(6) e] assms(7) n
  have "decrypt (ro_env (tf_ring tf)) (ro_ring (tf_ring tf)) (factor_place i ''backupCodes'') enc
      = Inr (tf_write tf (remove1 (typed_code (an_code b)) codes))" unfolding id by blast
  then show ?thesis using rec i codes new unfolding id
    by (intro exI[of _ rec] exI[of _ "gmerge rec [(''backupCodes'', VStr enc)]"] exI[of _ codes] exI[of _ i]) (simp add: keep stored_string_def)
qed

text \<open>The run of the witness, with the new ciphertext left symbolic.\<close>

lemma backup_goes:
  assumes "pending_challenge au cx cookie w = (w, Inr ch)"
    and "factor_row (au_db au) (u_id (ch_user ch)) (w_db w) = (w_db w, Inr rec)"
    and "decrypt_codes tf (stored_string rec ''id'') (stored_string rec ''backupCodes'') = Inr codes"
    and "remove_code (typed_code (an_code b)) codes = Some remaining"
    and "seal_factor tf (stored_string rec ''id'') ''backupCodes'' (tf_write tf remaining) = Inr enc"
    and "ad_update_many (au_db au) model_two_factor [W ''id'' (VStr (stored_string rec ''id'')), W ''backupCodes'' (VStr (stored_string rec ''backupCodes''))]
      [(''backupCodes'', VStr enc)] (w_db w) = (d, Inr (Suc n))"
  shows "handle_verify_backup au tf cx cookie (Some b) w = complete_pending au tf cx ch (an_trust b) (w\<lparr>w_db := d\<rparr>)"
  using assms by (simp add: handle_verify_backup_def Let_def need_body_def bind_query bind_def[of "pending_challenge _ _ _"] attempt_db bind_db)

lemma backup_code_spent_witness:
  "\<exists>w' s u rec'. handle_verify_backup (demo_auth mem_adapter) demo_tf demo_cx (Some ''p1'') (Some (demo_answer ''AA-bb ''))
      (seeded_in demo_factor_schema demo_factor_rows) = (w', Inr (FactorSession s u))
    \<and> find (with_str ''userId'' ''u1'') (mem_rows (w_db w') model_two_factor) = Some rec'
    \<and> decrypt (ro_env demo_clear) (ro_ring demo_clear) (factor_place ''f1'' ''backupCodes'') (stored_string rec' ''backupCodes'') = Inr ''''"
proof -
  let ?f = "\<lambda>A. handle_verify_backup (demo_auth A) demo_tf demo_cx (Some ''p1'') (Some (demo_answer ''AA-bb ''))"
  let ?w = "seeded_in demo_factor_schema demo_factor_rows" and ?v = "spec_seeded_in demo_factor_schema demo_factor_rows"
  let ?u = "demo_user_row\<lparr>u_extra := [(''twoFactorEnabled'', VBool True)]\<rparr>"
  let ?ch = "\<lparr>ch_user = ?u, ch_token = ''p1'', ch_attempts = 0\<rparr>"
  let ?up = "\<lambda>enc. spec_update_many model_two_factor [W ''id'' (VStr ''f1''), W ''backupCodes'' (VStr ''YWEtYmI'')] [(''backupCodes'', VStr enc)] (w_db ?v)"
  note facts = seeded_in_facts[OF demo_wf demo_factor_ids]
  have core: "factor_db (w_db ?v)" using factor_db_mem[OF demo_factor_schema_ok facts(1)] facts(2) by simp
  have sim: "sim (wmap mem_abs) (winv (mem_inv (Some demo_factor_schema))) (?f mem_adapter) (?f spec_adapter)"
    using mem.answer_sims(3)[of "demo_auth mem_adapter", OF _ _ factor_uniq[OF demo_factor_schema_ok]] by simp
  obtain enc where enc: "seal_factor demo_tf ''f1'' ''backupCodes'' '''' = Inr enc"
    by (auto simp: seal_factor_def Let_def encrypt_def demo_tf_def tf_defaults_def demo_clear_def factor_place_def place_def binding_valid_def
        model_two_factor_def)
  have "snd (pending_challenge (demo_auth spec_adapter) demo_cx (Some ''p1'') ?v) = Inr ?ch" by code_simp
  then have pc: "pending_challenge (demo_auth spec_adapter) demo_cx (Some ''p1'') ?v = (?v, Inr ?ch)"
    using pending_ok[of "demo_auth spec_adapter" ?v demo_cx "Some ''p1''" "fst (pending_challenge (demo_auth spec_adapter) demo_cx (Some ''p1'') ?v)" ?ch]
      core by (simp add: factor_db_def) (metis prod.collapse)
  have row: "factor_row spec_adapter ''u1'' (w_db ?v) = (w_db ?v, Inr demo_factor_row)"
  proof -
    have "find (with_str ''userId'' ''u1'') (frows (w_db ?v)) = Some demo_factor_row" by code_simp
    then show ?thesis by (simp add: factor_row_spec[OF core])
  qed
  have codes: "decrypt_codes demo_tf (stored_string demo_factor_row ''id'') (stored_string demo_factor_row ''backupCodes'') = Inr [''aa-bb'']"
    "remove_code (typed_code ''AA-bb '') [''aa-bb''] = Some []" "tf_write demo_tf [] = ''''"
    "stored_string demo_factor_row ''id'' = ''f1''" "stored_string demo_factor_row ''backupCodes'' = ''YWEtYmI''" by code_simp+
  have up: "snd (?up enc) = Inr 1" by code_simp
  have "(case snd (complete_pending (demo_auth spec_adapter) demo_tf demo_cx ?ch False (?v\<lparr>w_db := fst (?up enc)\<rparr>)) of
      Inr (FactorSession s u) \<Rightarrow> u_id u = ''u1'' | _ \<Rightarrow> False)" by code_simp
  then obtain s u where fin: "snd (complete_pending (demo_auth spec_adapter) demo_tf demo_cx ?ch False (?v\<lparr>w_db := fst (?up enc)\<rparr>)) = Inr (FactorSession s u)"
    "u_id u = ''u1''" by (auto split: sum.splits factor_reply.splits)
  have "?up enc = (fst (?up enc), Inr (Suc 0))" using up by (metis One_nat_def prod.collapse)
  then have go: "?f spec_adapter ?v = complete_pending (demo_auth spec_adapter) demo_tf demo_cx ?ch False (?v\<lparr>w_db := fst (?up enc)\<rparr>)"
    using backup_goes[of "demo_auth spec_adapter" demo_cx "Some ''p1''" ?v ?ch demo_factor_row demo_tf "[''aa-bb'']" "demo_answer ''AA-bb ''" "[]" enc
        "fst (?up enc)" 0] pc row codes enc by (simp add: demo_answer_def demo_user_row_def)
  obtain w' where run: "?f mem_adapter ?w = (w', Inr (FactorSession s u))"
    using seeded_in_run[OF demo_wf demo_factor_ids sim, of "Inr (FactorSession s u)"] go fin(1) by auto
  have ring: "gcm (ro_env (tf_ring demo_tf))" "kr_keys (ro_ring (tf_ring demo_tf)) \<noteq> []"
    "\<forall>p n. ro_rand (tf_ring demo_tf) p = Some n \<longrightarrow> length n = ce_nonce_size (ro_env (tf_ring demo_tf))" "tf_ring demo_tf = demo_clear"
    by (simp_all add: gcm_def demo_tf_def tf_defaults_def demo_clear_def new_keyring_def)
  have old: "find (with_str ''userId'' ''u1'') (mem_rows (w_db ?w) model_two_factor) = Some demo_factor_row"
    using row unfolding facts(5) by (simp add: factor_row_spec[OF core] split: option.splits)
  from backup_code_spent[OF demo_factor_schema_ok facts(1) _ _ ring(1-3) run] obtain rec rec' cs i where
    *: "find (with_str ''userId'' ''u1'') (mem_rows (w_db ?w) model_two_factor) = Some rec" "rget rec ''id'' = VStr i"
    "decrypt_codes demo_tf i (stored_string rec ''backupCodes'') = Inr cs"
    "find (with_str ''userId'' ''u1'') (mem_rows (w_db w') model_two_factor) = Some rec'"
    "decrypt (ro_env demo_clear) (ro_ring demo_clear) (factor_place i ''backupCodes'') (stored_string rec' ''backupCodes'')
      = Inr (tf_write demo_tf (remove1 (typed_code ''AA-bb '') cs))"
    unfolding fin(2) ring(4) by (auto simp: demo_answer_def)
  then have "rec = demo_factor_row" using old by simp
  then have "i = ''f1''" "cs = [''aa-bb'']" using * codes by (auto simp: stored_string_def)
  moreover have "remove1 (typed_code ''AA-bb '') [''aa-bb''] = []" using codes(2) by (simp add: remove_code_iff split: if_splits)
  ultimately show ?thesis using run * codes(3) by (intro exI[of _ w'] exI[of _ s] exI[of _ u] exI[of _ rec']) simp
qed

end
