(* ===== verification/Sign_Up_Laws.thy ===== *)
theory Sign_Up_Laws
  imports Demo Row_Steps
begin

text \<open>Signing up is all or nothing, and a request sets only the columns it may set.\<close>

section \<open>Registering\<close>

lemma spec_create_ok:
  assumes "spec_create m data d = (d', Inr r)"
  shows "d' = set_rows m (sd_rows d m @ [r]) d \<and>
    r = (case sd_table d m of None \<Rightarrow> data | Some t \<Rightarrow> apply_defaults t data)"
  using assms by (auto simp: spec_create_def Let_def split: option.splits if_splits)

lemma spec_create_error: "spec_create m data d = (d', Inl e) \<Longrightarrow> d' = d"
  by (auto simp: spec_create_def Let_def split: option.splits if_splits)

text \<open>The value a new row of a model has in a column that was not given.\<close>

definition column_default :: "schema option \<Rightarrow> string \<Rightarrow> string \<Rightarrow> gval" where
  "column_default S m f = (case schema_table S m of None \<Rightarrow> VNil | Some t \<Rightarrow> rget (apply_defaults t []) f)"

lemma created_column:
  assumes "r = (case schema_table S m of None \<Rightarrow> data | Some t \<Rightarrow> apply_defaults t data)"
  shows "rget r f = (if ghas data f then rget data f else column_default S m f)"
proof (cases "schema_table S m")
  case None
  then show ?thesis using assms by (auto simp: column_default_def rget_def ghas_def split: option.splits)
next
  case (Some t)
  show ?thesis
  proof (cases "map_of data f")
    case None
    then show ?thesis
      using assms Some apply_default_fields_absent[of data f "tb_fields t"] apply_default_fields_absent[of "[]" f "tb_fields t"]
      by (simp add: column_default_def rget_def ghas_def apply_defaults_def)
  next
    case (Some v)
    then show ?thesis using assms \<open>schema_table S m = Some t\<close> apply_defaults_keep[of data f v t]
      by (simp add: rget_def ghas_def)
  qed
qed

text \<open>The new row: what was given, the fixed columns of a new user, and defaults.\<close>

lemma collect_keys: "ghas (collect_fields ws raw) f \<longleftrightarrow> f \<in> set ws \<and> ghas raw f"
  by (induction raw) (auto simp: collect_fields_def ghas_def)

lemma collect_get: "f \<in> set ws \<Longrightarrow> map_of (collect_fields ws raw) f = map_of raw f"
  by (induction raw) (auto simp: collect_fields_def)

definition new_user_row :: "schema option \<Rightarrow> string list \<Rightarrow> req_ctx \<Rightarrow> sign_up_body \<Rightarrow> grec \<Rightarrow> bool" where
  "new_user_row S ws cx b r \<longleftrightarrow>
     rget r ''id'' = VStr (cx_fresh cx ''user-id'') \<and> rget r ''email'' = VStr (normalize_email (su_email b)) \<and>
     rget r ''emailVerified'' = VBool False \<and> rget r ''name'' = VStr (su_name b) \<and>
     (\<forall>f. f \<notin> set user_keys \<longrightarrow>
        rget r f = (if f \<in> set ws \<and> ghas (su_raw b) f then rget (su_raw b) f else column_default S model_user f))"

definition credential_row :: "string \<Rightarrow> string \<Rightarrow> grec \<Rightarrow> bool" where
  "credential_row uid hash r \<longleftrightarrow> rget r ''userId'' = VStr uid \<and> rget r ''accountId'' = VStr uid \<and>
     rget r ''providerId'' = VStr ''credential'' \<and> rget r ''password'' = VStr hash"

lemma transaction_run:
  "f d = (d', Inr v) \<Longrightarrow> spec_transaction f d = (d', Inr v)"
  "f d = (d', Inl e) \<Longrightarrow> spec_transaction f d = (d, Inl e)"
  by (simp_all add: spec_transaction_def)

lemma register_user_spec:
  assumes db: "au_db au = spec_adapter" "au_hooks au = no_hooks" and "sd_schema d = S"
    and ws: "set ws \<inter> set user_keys = {}"
    and u: "u = new_user (su_name b) (su_email b) (su_image b) (collect_fields ws (su_raw b))"
    and run: "register_user au cx u hash d = (d', r)"
  shows "(\<exists>e. r = Inl e \<and> d' = d) \<or>
    (\<exists>ur ar. r = Inr (user_from_map (user_to_map (user_from_map ur))) \<and> new_user_row S ws cx b ur
      \<and> credential_row (cx_fresh cx ''user-id'') hash ar
      \<and> d' = set_rows model_account (sd_rows d model_account @ [ar]) (set_rows model_user (sd_rows d model_user @ [ur]) d))"
proof -
  let ?cu = "create_user spec_adapter no_hooks (cx_now cx) (cx_fresh cx ''user-id'') u"
  let ?ca = "\<lambda>u'. create_account spec_adapter no_hooks (cx_now cx) (cx_fresh cx ''account-id'') (credential_account (u_id u') hash)"
  let ?body = "bind ?cu (\<lambda>u'. bind (?ca u') (\<lambda>_. ret (user_to_map u')))"
  have run': "bind (spec_transaction ?body) (\<lambda>r. ret (user_from_map r)) d = (d', r)"
    using run db by (simp add: register_user_def store_transaction_def)
  show ?thesis
  proof (cases "snd (?body d)")
    case (Inl e)
    note body = surjective_pairing[of "?body d", unfolded Inl]
    from bind_run(2)[where f = "spec_transaction ?body", OF transaction_run(2)[where f = ?body, OF body], where k = "\<lambda>r. ret (user_from_map r)"] run'
    show ?thesis by (simp only: prod.inject) blast
  next
    case (Inr rec)
    then obtain d2 where body: "?body d = (d2, Inr rec)" using surjective_pairing[of "?body d", unfolded Inr] by blast
    from bind_run(1)[where f = "spec_transaction ?body", OF transaction_run(1)[where f = ?body, OF body], where k = "\<lambda>r. ret (user_from_map r)"] run'
    have out: "d' = d2" "r = Inr (user_from_map rec)" by (simp_all only: act_simps prod.inject)
    from bind_okD[OF body] obtain d1 u' where cu: "?cu d = (d1, Inr u')"
      and rest: "bind (?ca u') (\<lambda>_. ret (user_to_map u')) d1 = (d2, Inr rec)" by blast
    from bind_okD[OF rest] obtain a' where ca: "?ca u' d1 = (d2, Inr a')" and rec: "rec = user_to_map u'" by auto
    let ?u1 = "u\<lparr>u_id := cx_fresh cx ''user-id'', u_email := normalize_email (su_email b), u_created := cx_now cx, u_updated := cx_now cx\<rparr>"
    obtain ur where c: "spec_create model_user (user_to_map ?u1) d = (d1, Inr ur)" and u': "u' = user_from_map ur"
      using cu by (auto simp: create_user_def no_hooks_def run_hook_def bind_def u new_user_def Let_def
          split: prod.splits sum.splits)
    note cr = spec_create_ok[OF c]
    have extra: "map_of (u_extra u) f = None" if "f \<in> set user_keys" for f
      using that ws collect_keys[of ws "su_raw b" f] by (auto simp: u new_user_def ghas_def)
    have "ur = (case schema_table S model_user of None \<Rightarrow> user_to_map ?u1 | Some t \<Rightarrow> apply_defaults t (user_to_map ?u1))"
      using cr assms(3) by (simp add: sd_table_def)
    note col = created_column[OF this]
    have core: "rget ur f = rget (user_to_map (?u1\<lparr>u_extra := []\<rparr>)) f" if "f \<in> set user_keys" for f
      using extra[OF that] that unfolding col
      by (auto simp: user_to_map_def rget_def ghas_def map_add_def user_keys_def split: option.splits)
    have others: "rget ur f = (if f \<in> set ws \<and> ghas (su_raw b) f then rget (su_raw b) f else column_default S model_user f)"
      if "f \<notin> set user_keys" for f
      using that collect_keys[of ws "su_raw b" f] collect_get[of f ws "su_raw b"] unfolding col
      by (auto simp: user_to_map_def rget_def ghas_def map_add_def user_keys_def u new_user_def split: option.splits)
    have row: "new_user_row S ws cx b ur"
      unfolding new_user_row_def using core others
      by (simp add: user_keys_def user_to_map_def rget_def u new_user_def)
    have uid: "u_id u' = cx_fresh cx ''user-id''"
      using row by (simp add: u' user_from_map_def new_user_row_def)
    obtain ar where a: "spec_create model_account (account_to_map ((credential_account (u_id u') hash)
        \<lparr>a_id := cx_fresh cx ''account-id'', a_created := cx_now cx, a_updated := cx_now cx\<rparr>)) d1 = (d2, Inr ar)"
      using ca by (auto simp: create_account_def no_hooks_def run_hook_def bind_def credential_account_def Let_def
          split: prod.splits sum.splits)
    note ar = spec_create_ok[OF a]
    have "credential_row (cx_fresh cx ''user-id'') hash ar"
      unfolding credential_row_def uid[symmetric]
      using created_column[OF conjunct2[OF ar, unfolded sd_table_def]]
      by (simp add: account_to_map_def credential_account_def rget_def ghas_def)
    then show ?thesis
      using row cr ar by (auto simp: out rec u' model_names)
  qed
qed

section \<open>The handler\<close>

lemma only_register_user:
  "au_db au = spec_adapter \<Longrightarrow> only {model_user, model_account} (register_user au cx u hash)"
  unfolding register_user_def store_transaction_def by (auto intro!: frame_intros)

lemma wonly_finish_sign_up:
  assumes db: "au_db au = spec_adapter"
  shows "wonly {model_verification, model_session} (finish_sign_up au cx b u)"
  unfolding finish_sign_up_def db by (auto intro!: frame_intros wonly_mail[OF db])

lemma sign_up_steps:
  assumes "handle_sign_up_email au cx body w = (w', r)"
  shows "(\<exists>e. r = Inl e) \<and> w_db w' = w_db w \<or>
    (\<exists>b hash. body = Some b \<and> hs_hash (au_hasher au) (cx_fresh cx ''salt'') (su_password b) = Inr hash
       \<and> (case register_user au (cx\<lparr>cx_auth_method := ''credential''\<rparr>)
              (new_user (su_name b) (su_email b) (su_image b) (collect_fields (uc_writable (au_uc au)) (su_raw b))) hash (w_db w) of
            (d1, Inl _) \<Rightarrow> (\<exists>e. r = Inl e) \<and> w_db w' = d1
          | (d1, Inr u) \<Rightarrow> \<exists>w1. finish_sign_up au (cx\<lparr>cx_auth_method := ''credential''\<rparr>) b u w1 = (w', r) \<and> w_db w1 = d1))"
  using assms
  by (auto simp: handle_sign_up_email_def Let_def check_def need_body_def attempt_db[of "register_user _ _ _ _"]
      split: if_splits sum.splits option.splits prod.splits)

text \<open>
  C24: a sign-up on the in-memory store writes the user and the account with its password,
  or neither, whatever else goes wrong. The new user has the normalised address,
  unverified, and of the other columns the request sets only those declared as input:
  every other one, such as a role, has the default of its column.
\<close>

theorem sign_up_all_or_nothing:
  assumes "mem_inv S (w_db w)" and "au_db au = mem_adapter" and "au_hooks au = no_hooks"
    and "set (uc_writable (au_uc au)) \<inter> set user_keys = {}"
    and "handle_sign_up_email au cx body w = (w', r)"
  shows "(\<exists>e. r = Inl e) \<and> mem_rows (w_db w') model_user = mem_rows (w_db w) model_user
        \<and> mem_rows (w_db w') model_account = mem_rows (w_db w) model_account
    \<or> (\<exists>b hash ur ar. body = Some b \<and> hs_hash (au_hasher au) (cx_fresh cx ''salt'') (su_password b) = Inr hash
        \<and> new_user_row S (uc_writable (au_uc au)) cx b ur \<and> credential_row (cx_fresh cx ''user-id'') hash ar
        \<and> mem_rows (w_db w') model_user = mem_rows (w_db w) model_user @ [ur]
        \<and> mem_rows (w_db w') model_account = mem_rows (w_db w) model_account @ [ar])"
proof -
  let ?cx = "cx\<lparr>cx_auth_method := ''credential''\<rparr>" and ?ws = "uc_writable (au_uc au)"
  have "winv (mem_inv S) w" using assms(1) by (simp add: winv_def)
  moreover have "''id'' \<notin> set ?ws" using assms(4) by (auto simp: user_keys_def)
  ultimately have run: "handle_sign_up_email (on_spec au) cx body (wmap mem_abs w) = (wmap mem_abs w', r)"
    using simD[OF mem.handle_sign_up_email_sim[OF assms(2)] _ assms(5)] assms(3) by auto
  have rows: "mem_rows (w_db v) m = sd_rows (w_db (wmap mem_abs v)) m" for v m by simp
  from sign_up_steps[OF run, unfolded on_spec_sel] show ?thesis
  proof (elim disjE exE conjE, goal_cases)
    case (1 e)
    then show ?thesis unfolding rows by auto
  next
    case yes: (2 b hash)
    have "sd_schema (w_db (wmap mem_abs w)) = S" using assms(1) by (simp add: mem_inv_schema)
    obtain d1 made where reg: "register_user (on_spec au) ?cx (new_user (su_name b) (su_email b) (su_image b)
        (collect_fields ?ws (su_raw b))) hash (w_db (wmap mem_abs w)) = (d1, made)" by (meson surj_pair)
    note end_state = yes(3)[unfolded reg prod.case]
    from register_user_spec[OF _ _ \<open>sd_schema (w_db (wmap mem_abs w)) = S\<close> assms(4) refl reg] assms(3)
    consider e where "made = Inl e" "d1 = w_db (wmap mem_abs w)"
      | u ur ar where "made = Inr u" "new_user_row S ?ws ?cx b ur" "credential_row (cx_fresh cx ''user-id'') hash ar"
        "d1 = set_rows model_account (sd_rows (w_db (wmap mem_abs w)) model_account @ [ar])
           (set_rows model_user (sd_rows (w_db (wmap mem_abs w)) model_user @ [ur]) (w_db (wmap mem_abs w)))"
      by auto
    then show ?thesis
    proof cases
      case 1
      then show ?thesis using end_state unfolding rows by auto
    next
      case 2
      obtain w1 where w1: "finish_sign_up (on_spec au) ?cx b u w1 = (wmap mem_abs w', r) \<and> w_db w1 = d1"
        using end_state[unfolded 2(1) sum.case] by (rule exE)
      have "wonly {model_verification, model_session} (finish_sign_up (on_spec au) ?cx b u)"
        by (rule wonly_finish_sign_up) simp
      from movesD[OF this conjunct1[OF w1]]
      have "same_world_rows {model_verification, model_session} w1 (wmap mem_abs w')" .
      then have keep: "m \<notin> {model_verification, model_session} \<Longrightarrow> sd_rows (w_db (wmap mem_abs w')) m = sd_rows d1 m" for m
        unfolding same_world_rows_def same_rows_def conjunct2[OF w1] by blast
      have "sd_rows (w_db (wmap mem_abs w')) model_user = sd_rows (w_db (wmap mem_abs w)) model_user @ [ur]"
        "sd_rows (w_db (wmap mem_abs w')) model_account = sd_rows (w_db (wmap mem_abs w)) model_account @ [ar]"
        using keep[of model_user] keep[of model_account] unfolding 2(4) by (simp_all add: model_names del: wmap_sel)
      moreover have "new_user_row S ?ws cx b ur" using 2(2) by (simp add: new_user_row_def)
      ultimately show ?thesis using 2(3) yes(1,2) unfolding rows
        by (intro disjI2 exI[of _ b] exI[of _ hash] exI[of _ ur] exI[of _ ar] conjI)
    qed
  qed
qed

lemma sign_up_all_or_nothing_witness:
  "\<exists>w' rep ur. handle_sign_up_email (demo_auth mem_adapter) demo_cx (Some \<lparr>su_name = ''Bob'', su_email = ''Bob@example.com'',
      su_password = ''longenough'', su_image = '''', su_callback = '''', su_remember = None, su_raw = [(''role'', VStr ''admin'')]\<rparr>) demo_world
      = (w', Inr rep)
    \<and> mem_rows (w_db w') model_user = mem_rows (w_db demo_world) model_user @ [ur]
    \<and> rget ur ''role'' = column_default (Some core_schema) model_user ''role''"
proof -
  let ?b = "\<lparr>su_name = ''Bob'', su_email = ''Bob@example.com'', su_password = ''longenough'', su_image = '''', su_callback = '''',
      su_remember = None, su_raw = [(''role'', VStr ''admin'')]\<rparr>"
  have sim: "sim (wmap mem_abs) (winv (mem_inv (Some core_schema))) (handle_sign_up_email (demo_auth mem_adapter) demo_cx (Some ?b))
      (handle_sign_up_email (demo_auth spec_adapter) demo_cx (Some ?b))"
    using mem.handle_sign_up_email_sim[of "demo_auth mem_adapter"] by (simp add: demo_uc_def)
  have "is_ok (snd (handle_sign_up_email (demo_auth spec_adapter) demo_cx (Some ?b) demo_spec_world))" by code_simp
  then obtain rep where "snd (handle_sign_up_email (demo_auth spec_adapter) demo_cx (Some ?b) demo_spec_world) = Inr rep"
    by (auto simp: is_ok_iff)
  from demo_run[OF sim this] obtain w' where
    run: "handle_sign_up_email (demo_auth mem_adapter) demo_cx (Some ?b) demo_world = (w', Inr rep)" ..
  from sign_up_all_or_nothing[OF demo_world_facts(1) _ _ _ run] obtain ur where
    "mem_rows (w_db w') model_user = mem_rows (w_db demo_world) model_user @ [ur]" "new_user_row (Some core_schema) [] demo_cx ?b ur"
    by (auto simp: demo_uc_def)
  then show ?thesis using run
    by (intro exI[of _ w'] exI[of _ rep] exI[of _ ur]) (simp add: new_user_row_def user_keys_def)
qed

end
