(* ===== verification/Social.thy ===== *)
theory Social
  imports Accounts Rotation
begin

text \<open>
  Signing in with identity providers (handler_social.go) and the endpoints that use a
  linked account (handler_account.go). A provider is the record of functions of the
  interface \<open>oauth2.Provider\<close> with its optional extensions; its answers are arbitrary.
\<close>

section \<open>Providers\<close>

record tokens =
  tk_access :: string
  tk_refresh :: string
  tk_id :: string
  tk_scope :: string
  tk_access_expires :: gtime
  tk_refresh_expires :: gtime

record profile =
  pf_id :: string
  pf_name :: string
  pf_email :: string
  pf_verified :: bool
  pf_image :: string

record auth_request =
  rq_state :: string
  rq_redirect :: string
  rq_scopes :: "string list"
  rq_verifier :: string
  rq_hint :: string

record provider =
  pv_auth_url :: "auth_request \<Rightarrow> string result"
  pv_exchange :: "string \<Rightarrow> string \<Rightarrow> string \<Rightarrow> tokens result"
  pv_user_info :: "tokens \<Rightarrow> profile result"
  pv_refresh :: "(string \<Rightarrow> tokens result) option"
  pv_verify_id :: "(string \<Rightarrow> string \<Rightarrow> profile option) option"
  pv_cross_site :: bool

record oauth_state =
  st_provider :: string
  st_callback :: string
  st_new_user :: string
  st_error :: string
  st_verifier :: string
  st_link_user :: string
  st_sign_up :: bool
  st_scopes :: "string list"

text \<open>
  The settings, and what the handlers take from elsewhere: the JSON form of a state, and
  the ring with the nonces it will draw.
\<close>

record social =
  so_providers :: "string \<Rightarrow> provider option"
  so_no_sign_up :: bool
  so_no_linking :: bool
  so_trusted :: "string list"
  so_any_email :: bool
  so_encrypts :: bool
  so_no_nonce_check :: bool
  so_ring :: rotation
  so_root :: string
  so_write :: "oauth_state \<Rightarrow> string"
  so_read :: "string \<Rightarrow> oauth_state option"

definition token_kind_state :: string where "token_kind_state = ''oauth-state''"
definition token_kind_nonce :: string where "token_kind_nonce = ''id-token-nonce''"

definition err_not_linked :: gerror where "err_not_linked = ApiError 401 ''ACCOUNT_NOT_LINKED''"
definition err_linking_disabled :: gerror where "err_linking_disabled = ApiError 403 ''ACCOUNT_LINKING_DISABLED''"
definition err_email_mismatch :: gerror where "err_email_mismatch = ApiError 400 ''EMAIL_MISMATCH''"
definition err_already_linked :: gerror where "err_already_linked = ApiError 400 ''ACCOUNT_ALREADY_LINKED''"
definition err_no_email :: gerror where "err_no_email = ApiError 400 ''PROVIDER_NO_EMAIL''"

definition is_trusted_provider :: "social \<Rightarrow> string \<Rightarrow> bool" where
  "is_trusted_provider so pid = list_ex (\<lambda>p. p = pid) (so_trusted so)"

definition callback_url :: "'s auth \<Rightarrow> string \<Rightarrow> string" where
  "callback_url au pid = au_base au @ ''/callback/'' @ pid"

section \<open>Tokens of an account\<close>

definition seal_token :: "social \<Rightarrow> string \<Rightarrow> string \<Rightarrow> string \<Rightarrow> string result" where
  "seal_token so i f v =
     (let ro = so_ring so; b = account_binding i f
      in case maybe_encrypt (ro_env ro) (ro_ring ro) (so_encrypts so) (ro_rand ro b) b v of
           Inl _ \<Rightarrow> Inl (OtherError ''encrypt oauth token'')
         | Inr x \<Rightarrow> Inr x)"

definition open_token :: "social \<Rightarrow> string \<Rightarrow> string \<Rightarrow> string \<Rightarrow> string option" where
  "open_token so i f v =
     (let ro = so_ring so
      in case maybe_decrypt (ro_env ro) (ro_ring ro) (account_binding i f) v of Inl _ \<Rightarrow> None | Inr x \<Rightarrow> Some x)"

text \<open>\<open>tokenUpdate\<close>: the columns for what the provider returned.\<close>

definition sealed_columns :: "social \<Rightarrow> string \<Rightarrow> string \<Rightarrow> string \<Rightarrow> grec \<Rightarrow> grec result" where
  "sealed_columns so i f v extras =
     (if v = '''' then Inr []
      else case seal_token so i f v of Inl e \<Rightarrow> Inl e | Inr enc \<Rightarrow> Inr ((f, VStr enc) # extras))"

definition token_update :: "social \<Rightarrow> string \<Rightarrow> tokens \<Rightarrow> grec result" where
  "token_update so i tk =
     (case sealed_columns so i ''accessToken'' (tk_access tk) [(''accessTokenExpiresAt'', VTime (tk_access_expires tk))] of
        Inl e \<Rightarrow> Inl e
      | Inr a \<Rightarrow>
          (case sealed_columns so i ''refreshToken'' (tk_refresh tk) [(''refreshTokenExpiresAt'', VTime (tk_refresh_expires tk))] of
             Inl e \<Rightarrow> Inl e
           | Inr r \<Rightarrow>
               (case sealed_columns so i ''idToken'' (tk_id tk) [] of
                  Inl e \<Rightarrow> Inl e
                | Inr d \<Rightarrow> Inr (a @ r @ d @ (if tk_scope tk \<noteq> '''' then [(''scope'', VStr (tk_scope tk))] else [])))))"

section \<open>Linking\<close>

definition linking_policy :: "'s auth \<Rightarrow> social \<Rightarrow> user \<Rightarrow> profile \<Rightarrow> ('s, unit) act" where
  "linking_policy au so u pf =
     (if so_no_linking so
      then attempt (list_user_accounts (au_db au) (u_id u)) (\<lambda>r. case r of
             Inr (_ # _) \<Rightarrow> fail err_linking_disabled
           | _ \<Rightarrow> ret ())
      else if \<not> so_any_email so \<and> pf_email pf \<noteq> '''' \<and> u_email u \<noteq> ''''
              \<and> \<not> equal_fold (normalize_email (pf_email pf)) (u_email u)
      then fail err_email_mismatch
      else ret ())"

definition provider_account :: "string \<Rightarrow> string \<Rightarrow> string \<Rightarrow> string \<Rightarrow> account" where
  "provider_account i uid pid aid =
     \<lparr>a_id = i, a_user = uid, a_account = aid, a_provider = pid, a_access_token = '''', a_refresh_token = '''',
      a_id_token = '''', a_access_expires = zero_time, a_refresh_expires = zero_time, a_scope = '''', a_password = '''',
      a_created = zero_time, a_updated = zero_time, a_extra = []\<rparr>"

definition with_tokens :: "social \<Rightarrow> account \<Rightarrow> tokens option \<Rightarrow> account result" where
  "with_tokens so a tks =
     (case tks of
        None \<Rightarrow> Inr a
      | Some tk \<Rightarrow>
          (case seal_token so (a_id a) ''accessToken'' (tk_access tk) of
             Inl e \<Rightarrow> Inl e
           | Inr x \<Rightarrow>
               (case seal_token so (a_id a) ''refreshToken'' (tk_refresh tk) of
                  Inl e \<Rightarrow> Inl e
                | Inr y \<Rightarrow>
                    (case seal_token so (a_id a) ''idToken'' (tk_id tk) of
                       Inl e \<Rightarrow> Inl e
                     | Inr z \<Rightarrow> Inr (a\<lparr>a_access_token := x, a_refresh_token := y, a_id_token := z,
                                   a_access_expires := tk_access_expires tk, a_refresh_expires := tk_refresh_expires tk,
                                   a_scope := tk_scope tk\<rparr>)))))"

text \<open>Insert first; a conflict then tells whose the identity is.\<close>

definition link_account ::
  "'s auth \<Rightarrow> social \<Rightarrow> req_ctx \<Rightarrow> user \<Rightarrow> string \<Rightarrow> profile \<Rightarrow> tokens option \<Rightarrow> ('s, unit) act" where
  "link_account au so cx u pid pf tks =
     bind (linking_policy au so u pf) (\<lambda>_.
     bind (query (\<lambda>_. with_tokens so (provider_account (cx_fresh cx ''account-id'') (u_id u) pid (pf_id pf)) tks)) (\<lambda>a.
     attempt (create_account (au_db au) (au_hooks au) (cx_now cx) (cx_fresh cx ''account-id'') a) (\<lambda>r. case r of
       Inr _ \<Rightarrow> ret ()
     | Inl e \<Rightarrow>
         if \<not> is_unique_violation e then fail e
         else attempt (find_account (au_db au) pid (pf_id pf)) (\<lambda>r. case r of
           Inl _ \<Rightarrow> fail e
         | Inr other \<Rightarrow> if a_user other = u_id u then ret () else fail err_already_linked))))"

section \<open>Who a profile is\<close>

definition provider_user :: "profile \<Rightarrow> user" where
  "provider_user pf = (new_user (pf_name pf) (pf_email pf) (pf_image pf) [])\<lparr>u_email_verified := pf_verified pf\<rparr>"

definition register_provider_user ::
  "'s auth \<Rightarrow> social \<Rightarrow> req_ctx \<Rightarrow> string \<Rightarrow> profile \<Rightarrow> tokens option \<Rightarrow> ('s, user \<times> bool) act" where
  "register_provider_user au so cx pid pf tks =
     attempt (store_transaction (au_db au)
       (bind (create_user (au_db au) (au_hooks au) (cx_now cx) (cx_fresh cx ''user-id'') (provider_user pf)) (\<lambda>u.
        bind (link_account au so cx u pid pf tks) (\<lambda>_.
        ret (user_to_map u))))) (\<lambda>r. case r of
       Inl e \<Rightarrow> fail (if is_unique_violation e then err_not_linked else e)
     | Inr rec \<Rightarrow> ret (user_from_map rec, True))"

text \<open>An existing account: its user, with the new tokens if there are any.\<close>

definition returning_user :: "'s auth \<Rightarrow> social \<Rightarrow> req_ctx \<Rightarrow> account \<Rightarrow> tokens option \<Rightarrow> ('s, user \<times> bool) act" where
  "returning_user au so cx a tks =
     bind (find_user_by_id (au_db au) (a_user a)) (\<lambda>u.
     bind (case tks of
             None \<Rightarrow> ret ()
           | Some tk \<Rightarrow> bind (query (\<lambda>_. token_update so (a_id a) tk)) (\<lambda>upd. ignore (update_account (au_db au) (cx_now cx) (a_id a) upd)))
       (\<lambda>_. ret (u, False)))"

definition link_existing ::
  "'s auth \<Rightarrow> social \<Rightarrow> req_ctx \<Rightarrow> user \<Rightarrow> string \<Rightarrow> profile \<Rightarrow> tokens option \<Rightarrow> ('s, user \<times> bool) act" where
  "link_existing au so cx u pid pf tks =
     (if \<not> pf_verified pf \<or> \<not> is_trusted_provider so pid then fail err_not_linked
      else if \<not> u_email_verified u then fail err_not_linked
      else bind (link_account au so cx u pid pf tks) (\<lambda>_. ret (u, False)))"

definition first_visit ::
  "'s auth \<Rightarrow> social \<Rightarrow> req_ctx \<Rightarrow> string \<Rightarrow> profile \<Rightarrow> tokens option \<Rightarrow> bool \<Rightarrow> ('s, user \<times> bool) act" where
  "first_visit au so cx pid pf tks asked =
     (if so_no_sign_up so \<and> \<not> asked then fail err_sign_up_disabled
      else if pf_email pf = '''' then fail err_no_email
      else register_provider_user au so cx pid pf tks)"

definition resolve_oauth_user ::
  "'s auth \<Rightarrow> social \<Rightarrow> req_ctx \<Rightarrow> string \<Rightarrow> profile \<Rightarrow> tokens option \<Rightarrow> bool \<Rightarrow> ('s, user \<times> bool) act" where
  "resolve_oauth_user au so cx pid pf tks asked =
     attempt (find_account (au_db au) pid (pf_id pf)) (\<lambda>acc. case acc of
       Inr a \<Rightarrow> returning_user au so cx a tks
     | Inl e \<Rightarrow>
         if e \<noteq> ErrNotFound then fail e
         else if pf_email pf \<noteq> '''' \<and> \<not> so_no_linking so
         then attempt (find_user_by_email (au_db au) (pf_email pf)) (\<lambda>r. case r of
                Inr u \<Rightarrow> link_existing au so cx u pid pf tks
              | Inl e \<Rightarrow> if e \<noteq> ErrNotFound then fail e else first_visit au so cx pid pf tks asked)
         else first_visit au so cx pid pf tks asked)"

section \<open>The flow\<close>

text \<open>The state names the provider, is stored under its digest and tied to the browser by a cookie.\<close>

definition start_oauth_flow ::
  "'s auth \<Rightarrow> social \<Rightarrow> req_ctx \<Rightarrow> string \<Rightarrow> provider \<Rightarrow> oauth_state \<Rightarrow> string \<Rightarrow> ('s world, string) act" where
  "start_oauth_flow au so cx pid pv st hint =
     (let state = cx_fresh cx ''oauth-state''; st' = st\<lparr>st_verifier := cx_fresh cx ''code-verifier''\<rparr> in
      bind (db (store_token_value (au_db au) (au_digest au) (cx_now cx) (cx_fresh cx ''row:oauth-state'') token_kind_state
                  state (so_write so st') (minutes 10))) (\<lambda>_.
      bind (did (StateCookie state (pv_cross_site pv))) (\<lambda>_.
      query (\<lambda>_. pv_auth_url pv \<lparr>rq_state = state, rq_redirect = callback_url au pid, rq_scopes = st_scopes st',
                rq_verifier = st_verifier st', rq_hint = hint\<rparr>))))"

definition load_oauth_state :: "'s auth \<Rightarrow> social \<Rightarrow> req_ctx \<Rightarrow> string \<Rightarrow> ('s, oauth_state) act" where
  "load_oauth_state au so cx state =
     bind (consume_token (au_db au) (au_digest au) (cx_now cx) token_kind_state state) (\<lambda>val.
     query (\<lambda>_. case so_read so val of None \<Rightarrow> Inl (OtherError ''state'') | Some st \<Rightarrow> Inr st))"

datatype social_reply =
    AuthUrl string bool
  | Native session user bool
  | NonceReply string
  | ChallengeTaken

record native_token =
  nt_token :: string
  nt_nonce :: string

record social_body =
  sb_provider :: string
  sb_callback :: string
  sb_new_user :: string
  sb_error :: string
  sb_no_redirect :: bool
  sb_scopes :: "string list"
  sb_hint :: string
  sb_sign_up :: bool
  sb_native :: "native_token option"

definition body_state :: "social_body \<Rightarrow> oauth_state" where
  "body_state b = \<lparr>st_provider = sb_provider b, st_callback = sb_callback b, st_new_user = sb_new_user b, st_error = sb_error b,
     st_verifier = '''', st_link_user = '''', st_sign_up = sb_sign_up b, st_scopes = sb_scopes b\<rparr>"

definition handle_nonce :: "'s auth \<Rightarrow> req_ctx \<Rightarrow> ('s world, social_reply) act" where
  "handle_nonce au cx = bind (new_token au cx token_kind_nonce ''1'' (minutes 10)) (\<lambda>n. ret (NonceReply n))"

text \<open>A nonce must be one this server gave out, unless the check is off and none is sent.\<close>

definition check_nonce :: "'s auth \<Rightarrow> social \<Rightarrow> req_ctx \<Rightarrow> string \<Rightarrow> ('s world, unit) act" where
  "check_nonce au so cx nonce =
     (if nonce = '''' then (if so_no_nonce_check so then ret () else fail (ApiError 400 ''NONCE_REQUIRED''))
      else attempt (db (consume_token (au_db au) (au_digest au) (cx_now cx) token_kind_nonce nonce)) (\<lambda>r.
        if is_ok r then ret () else fail err_invalid_token))"

definition signed_up_event :: "req_ctx \<Rightarrow> user \<Rightarrow> string \<Rightarrow> bool \<Rightarrow> ('s world, unit) act" where
  "signed_up_event cx u pid is_new =
     (if is_new then emit cx (blank_event\<lparr>ev_type := ''sign_up'', ev_actor := u_id u, ev_email := u_email u, ev_method := pid\<rparr>)
      else ret ())"

definition native_sign_in ::
  "'s auth \<Rightarrow> social \<Rightarrow> req_ctx \<Rightarrow> string \<Rightarrow> provider \<Rightarrow> native_token \<Rightarrow> bool \<Rightarrow> ('s world, social_reply) act" where
  "native_sign_in au so cx0 pid pv nt asked =
     (case pv_verify_id pv of
        None \<Rightarrow> fail (ApiError 400 ''ID_TOKEN_NOT_SUPPORTED'')
      | Some verify \<Rightarrow>
          bind (check_nonce au so cx0 (nt_nonce nt)) (\<lambda>_.
          case verify (nt_token nt) (nt_nonce nt) of
            None \<Rightarrow> fail err_invalid_token
          | Some pf \<Rightarrow>
              (let cx = cx0\<lparr>cx_auth_method := pid\<rparr> in
               bind (db (resolve_oauth_user au so cx pid pf None asked)) (\<lambda>(u, is_new).
               bind (signed_up_event cx u pid is_new) (\<lambda>_.
               bind (sign_in (au_db au) (au_hooks au) (au_session au) (au_plugins au) cx u True) (\<lambda>s.
               case s of None \<Rightarrow> ret ChallengeTaken | Some sess \<Rightarrow> ret (Native sess u is_new)))))))"

definition handle_sign_in_social ::
  "'s auth \<Rightarrow> social \<Rightarrow> req_ctx \<Rightarrow> social_body option \<Rightarrow> ('s world, social_reply) act" where
  "handle_sign_in_social au so cx body =
     bind (need_body body) (\<lambda>b.
     case so_providers so (sb_provider b) of
       None \<Rightarrow> fail err_provider_not_found
     | Some pv \<Rightarrow>
         (case sb_native b of
            Some nt \<Rightarrow> if nt_token nt \<noteq> '''' then native_sign_in au so cx (sb_provider b) pv nt (sb_sign_up b)
                       else bind (start_oauth_flow au so cx (sb_provider b) pv (body_state b) (sb_hint b))
                              (\<lambda>url. ret (AuthUrl url (\<not> sb_no_redirect b)))
          | None \<Rightarrow> bind (start_oauth_flow au so cx (sb_provider b) pv (body_state b) (sb_hint b))
                      (\<lambda>url. ret (AuthUrl url (\<not> sb_no_redirect b)))))"

section \<open>The callback\<close>

definition error_target :: "'s auth \<Rightarrow> oauth_state option \<Rightarrow> string" where
  "error_target au st =
     (let home = au_base au @ ''/error''
      in case st of
           None \<Rightarrow> home
         | Some s \<Rightarrow>
             if st_error s \<noteq> '''' then (case au_redirect au (st_error s) of Some to \<Rightarrow> to | None \<Rightarrow> home)
             else if st_callback s \<noteq> '''' then (case au_redirect au (st_callback s) of Some to \<Rightarrow> to | None \<Rightarrow> home)
             else home)"

definition error_redirect :: "'s auth \<Rightarrow> oauth_state option \<Rightarrow> string \<Rightarrow> ('s world, reply) act" where
  "error_redirect au st code = ret (Redirected (error_target au st) [(''error'', code)])"

definition success_target :: "'s auth \<Rightarrow> social \<Rightarrow> string \<Rightarrow> string" where
  "success_target au so url =
     (if url \<noteq> '''' then (case au_redirect au url of Some to \<Rightarrow> to | None \<Rightarrow> so_root so) else so_root so)"

record callback_query =
  cq_state :: string
  cq_code :: string
  cq_error :: string
  cq_cookie :: string

text \<open>Linking for a session that asked for it; it must still be the session of the browser.\<close>

definition finish_linking ::
  "'s auth \<Rightarrow> social \<Rightarrow> req_ctx \<Rightarrow> string \<Rightarrow> oauth_state \<Rightarrow> session_data option \<Rightarrow> profile \<Rightarrow> tokens \<Rightarrow> ('s world, reply) act" where
  "finish_linking au so cx pid st sess pf tk =
     (case sess of
        None \<Rightarrow> error_redirect au (Some st) ''session_mismatch''
      | Some sd \<Rightarrow>
          if u_id (sd_user sd) \<noteq> st_link_user st then error_redirect au (Some st) ''session_mismatch''
          else attempt (db (link_account au so cx (sd_user sd) pid pf (Some tk))) (\<lambda>r. case r of
            Inl (ApiError status code) \<Rightarrow>
              bind (emit cx (blank_event\<lparr>ev_type := ''account.linked'', ev_outcome := ''failure'',
                      ev_reason := event_reason_for (ApiError status code), ev_actor := u_id (sd_user sd),
                      ev_email := u_email (sd_user sd), ev_method := pid\<rparr>)) (\<lambda>_.
              error_redirect au (Some st) code)
          | Inl _ \<Rightarrow> error_redirect au (Some st) ''link_failed''
          | Inr _ \<Rightarrow>
              bind (emit cx (session_event sd\<lparr>ev_type := ''account.linked'', ev_method := pid\<rparr>)) (\<lambda>_.
              ret (Redirected (success_target au so (st_callback st)) []))))"

definition finish_social_sign_in ::
  "'s auth \<Rightarrow> social \<Rightarrow> req_ctx \<Rightarrow> string \<Rightarrow> oauth_state \<Rightarrow> profile \<Rightarrow> tokens \<Rightarrow> ('s world, reply) act" where
  "finish_social_sign_in au so cx0 pid st pf tk =
     (let cx = cx0\<lparr>cx_auth_method := pid\<rparr> in
      attempt (db (resolve_oauth_user au so cx pid pf (Some tk) (st_sign_up st))) (\<lambda>r. case r of
        Inl (ApiError status code) \<Rightarrow>
          bind (emit cx (blank_event\<lparr>ev_type := ''sign_in'', ev_outcome := ''failure'',
                  ev_reason := event_reason_for (ApiError status code), ev_email := pf_email pf, ev_method := pid\<rparr>)) (\<lambda>_.
          error_redirect au (Some st) code)
      | Inl _ \<Rightarrow> error_redirect au (Some st) ''internal_error''
      | Inr (u, is_new) \<Rightarrow>
          bind (signed_up_event cx u pid is_new) (\<lambda>_.
          attempt (sign_in (au_db au) (au_hooks au) (au_session au) (au_plugins au) cx u True) (\<lambda>r. case r of
            Inl _ \<Rightarrow> error_redirect au (Some st) ''internal_error''
          | Inr None \<Rightarrow> ret Taken
          | Inr (Some _) \<Rightarrow>
              ret (Redirected (success_target au so
                     (if is_new \<and> st_new_user st \<noteq> '''' then st_new_user st else st_callback st)) [])))))"

text \<open>What follows once the state is known: the provider is asked who this is.\<close>

definition exchange_code ::
  "'s auth \<Rightarrow> social \<Rightarrow> req_ctx \<Rightarrow> string \<Rightarrow> provider \<Rightarrow> oauth_state \<Rightarrow> string \<Rightarrow> session_data option \<Rightarrow> ('s world, reply) act" where
  "exchange_code au so cx pid pv st code sess =
     (case pv_exchange pv code (st_verifier st) (callback_url au pid) of
        Inl _ \<Rightarrow> error_redirect au (Some st) ''code_exchange_failed''
      | Inr tk \<Rightarrow>
          (case pv_user_info pv tk of
             Inl _ \<Rightarrow> error_redirect au (Some st) ''user_info_failed''
           | Inr pf \<Rightarrow>
               if st_link_user st \<noteq> '''' then finish_linking au so cx pid st sess pf tk
               else finish_social_sign_in au so cx pid st pf tk))"

definition handle_oauth_callback ::
  "'s auth \<Rightarrow> social \<Rightarrow> req_ctx \<Rightarrow> string \<Rightarrow> callback_query \<Rightarrow> session_data option \<Rightarrow> ('s world, reply) act" where
  "handle_oauth_callback au so cx pid q sess =
     (case so_providers so pid of
        None \<Rightarrow> fail err_provider_not_found
      | Some pv \<Rightarrow>
          bind (did StateCookieCleared) (\<lambda>_.
          if cq_state q = '''' \<or> cq_cookie q = '''' \<or> cq_state q \<noteq> cq_cookie q
          then error_redirect au None ''state_mismatch''
          else attempt (db (load_oauth_state au so cx (cq_state q))) (\<lambda>r. case r of
            Inl _ \<Rightarrow> error_redirect au None ''state_mismatch''
          | Inr st \<Rightarrow>
              if st_provider st \<noteq> '''' \<and> st_provider st \<noteq> pid then error_redirect au (Some st) ''state_mismatch''
              else if cq_error q \<noteq> '''' then error_redirect au (Some st) (cq_error q)
              else if cq_code q = '''' then error_redirect au (Some st) ''missing_code''
              else exchange_code au so cx pid pv st (cq_code q) sess)))"

section \<open>Using a linked account\<close>

definition handle_link_social ::
  "'s auth \<Rightarrow> social \<Rightarrow> req_ctx \<Rightarrow> session_data result \<Rightarrow> social_body option \<Rightarrow> ('s world, social_reply) act" where
  "handle_link_social au so cx sess body =
     bind (require_session sess) (\<lambda>sd.
     bind (need_body body) (\<lambda>b.
     case so_providers so (sb_provider b) of
       None \<Rightarrow> fail err_provider_not_found
     | Some pv \<Rightarrow>
         bind (start_oauth_flow au so cx (sb_provider b) pv
                 \<lparr>st_provider = sb_provider b, st_callback = sb_callback b, st_new_user = '''', st_error = '''', st_verifier = '''',
                  st_link_user = u_id (sd_user sd), st_sign_up = False, st_scopes = sb_scopes b\<rparr> '''')
           (\<lambda>url. ret (AuthUrl url True))))"

definition report_unreadable :: "req_ctx \<Rightarrow> account \<Rightarrow> ('s world, 'a) act" where
  "report_unreadable cx a =
     bind (emit cx (blank_event\<lparr>ev_type := ''admin.action'', ev_action := ''oauth_token_decrypt'', ev_outcome := ''failure'',
             ev_reason := ''decryption_failed'', ev_target := a_user a, ev_method := a_provider a\<rparr>)) (\<lambda>_.
     fail err_token_decryption)"

definition handle_refresh_token ::
  "'s auth \<Rightarrow> social \<Rightarrow> req_ctx \<Rightarrow> session_data result \<Rightarrow> unlink_body option \<Rightarrow> ('s world, string \<times> gtime) act" where
  "handle_refresh_token au so cx sess body =
     bind (require_session sess) (\<lambda>sd.
     bind (need_body body) (\<lambda>b.
     if ul_provider b = '''' then fail err_invalid_body
     else bind (db (list_user_accounts (au_db au) (u_id (sd_user sd)))) (\<lambda>accs.
       case find (linked_as (ul_provider b) (ul_account b)) accs of
         None \<Rightarrow> fail err_account_not_found
       | Some a \<Rightarrow>
           (case so_providers so (ul_provider b) of
              None \<Rightarrow> fail err_provider_not_found
            | Some pv \<Rightarrow>
                (case pv_refresh pv of
                   None \<Rightarrow> fail (ApiError 400 ''REFRESH_NOT_SUPPORTED'')
                 | Some refresh \<Rightarrow>
                     (case open_token so (a_id a) ''refreshToken'' (a_refresh_token a) of
                        None \<Rightarrow> report_unreadable cx a
                      | Some old \<Rightarrow>
                          if old = '''' then fail (ApiError 400 ''NO_REFRESH_TOKEN'')
                          else (case refresh old of
                            Inl _ \<Rightarrow> fail (ApiError 400 ''FAILED_TO_REFRESH_TOKEN'')
                          | Inr tk \<Rightarrow>
                              bind (db (bind (query (\<lambda>_. token_update so (a_id a) tk)) (update_account (au_db au) (cx_now cx) (a_id a)))) (\<lambda>_.
                              ret (tk_access tk, tk_access_expires tk)))))))))"

definition handle_account_info ::
  "'s auth \<Rightarrow> social \<Rightarrow> req_ctx \<Rightarrow> session_data result \<Rightarrow> string \<Rightarrow> ('s world, profile) act" where
  "handle_account_info au so cx sess acc =
     bind (require_session sess) (\<lambda>sd.
     if acc = '''' then fail err_invalid_body
     else bind (db (list_user_accounts (au_db au) (u_id (sd_user sd)))) (\<lambda>accs.
       case find (\<lambda>a. a_account a = acc \<or> a_id a = acc) accs of
         None \<Rightarrow> fail err_account_not_found
       | Some a \<Rightarrow>
           (case so_providers so (a_provider a) of
              None \<Rightarrow> fail err_provider_not_found
            | Some pv \<Rightarrow>
                (case open_token so (a_id a) ''accessToken'' (a_access_token a) of
                   None \<Rightarrow> report_unreadable cx a
                 | Some tok \<Rightarrow>
                     (case pv_user_info pv \<lparr>tk_access = tok, tk_refresh = '''', tk_id = '''', tk_scope = '''',
                             tk_access_expires = zero_time, tk_refresh_expires = zero_time\<rparr> of
                        Inl _ \<Rightarrow> fail (ApiError 400 ''FAILED_TO_GET_ACCOUNT_INFO'')
                      | Inr pf \<Rightarrow> ret pf)))))"

section \<open>Simulation\<close>

text \<open>The update of the tokens does not name the row.\<close>

lemma sealed_columns_keys: "sealed_columns so i f v extras = Inr r \<Longrightarrow> f \<noteq> ''id'' \<Longrightarrow> \<not> ghas extras ''id'' \<Longrightarrow> \<not> ghas r ''id''"
  by (auto simp: sealed_columns_def ghas_def split: if_splits sum.splits)

lemma token_update_no_id: "token_update so i tk = Inr upd \<Longrightarrow> \<not> ghas upd ''id''"
  by (auto simp: token_update_def split: sum.splits if_splits dest!: sealed_columns_keys)
    (auto simp: ghas_def map_add_def split: option.splits)

lemma with_tokens_plain: "with_tokens so a tks = Inr a' \<Longrightarrow> a_extra a' = a_extra a \<and> a_id a' = a_id a"
  by (auto simp: with_tokens_def split: option.splits sum.splits)

lemma sim_value:
  assumes "\<And>v. R = Inr v \<Longrightarrow> sim \<alpha> I (F v) (G v)"
  shows "sim \<alpha> I (bind (query (\<lambda>_. R)) F) (bind (query (\<lambda>_. R)) G)"
proof (cases R)
  case (Inl e)
  then have "bind (query (\<lambda>_. R)) F = fail e" "bind (query (\<lambda>_. R)) G = fail e" by (auto simp: bind_query)
  then show ?thesis by (simp add: sim_intros)
next
  case (Inr v)
  then have "bind (query (\<lambda>_. R)) F = F v" "bind (query (\<lambda>_. R)) G = G v" by (auto simp: bind_query)
  then show ?thesis using assms[OF Inr] by simp
qed

context storage_contract
begin

lemma link_account_sim:
  assumes db: "au_db au = A" and "hooks_ok (au_hooks au)"
  shows "sim \<alpha> I (link_account au so cx u pid pf tks) (link_account (on_spec au) so cx u pid pf tks)"
proof -
  have pol: "sim \<alpha> I (linking_policy au so u pf) (linking_policy (on_spec au) so u pf)"
    unfolding linking_policy_def db on_spec_sel by (auto intro!: sim_intros store_sims split: list.splits)
  show ?thesis
    unfolding link_account_def db on_spec_sel
  proof (rule sim_bind[OF pol[unfolded on_spec_sel]], rule sim_value, goal_cases)
    case (1 _ a)
    then have "\<not> ghas (a_extra a) ''id''" using with_tokens_plain[OF 1] by (simp add: provider_account_def ghas_def)
    then show ?case using assms(2) by (auto intro!: sim_intros store_sims)
  qed
qed

lemma returning_user_sim:
  assumes db: "au_db au = A"
  shows "sim \<alpha> I (returning_user au so cx a tks) (returning_user (on_spec au) so cx a tks)"
proof -
  have upd: "sim \<alpha> I (bind (query (\<lambda>_. token_update so (a_id a) tk)) (\<lambda>upd. ignore (update_account A (cx_now cx) (a_id a) upd)))
      (bind (query (\<lambda>_. token_update so (a_id a) tk)) (\<lambda>upd. ignore (update_account spec_adapter (cx_now cx) (a_id a) upd)))" for tk
    by (rule sim_value) (auto intro!: sim_intros store_sims dest: token_update_no_id)
  show ?thesis unfolding returning_user_def db on_spec_sel by (intro sim_intros store_sims upd)
qed

lemma resolve_oauth_user_sim:
  assumes db: "au_db au = A" and "hooks_ok (au_hooks au)"
  shows "sim \<alpha> I (resolve_oauth_user au so cx pid pf tks asked) (resolve_oauth_user (on_spec au) so cx pid pf tks asked)"
proof -
  have id: "\<not> ghas (u_extra (provider_user pf)) ''id''" by (simp add: provider_user_def new_user_def ghas_def)
  have reg: "sim \<alpha> I (register_provider_user au so cx pid pf tks) (register_provider_user (on_spec au) so cx pid pf tks)"
    unfolding register_provider_user_def db on_spec_sel
    by (intro sim_intros transaction_sims store_sims link_account_sim assms id)
  have first: "sim \<alpha> I (first_visit au so cx pid pf tks asked) (first_visit (on_spec au) so cx pid pf tks asked)"
    unfolding first_visit_def by (intro sim_intros reg)
  have existing: "sim \<alpha> I (link_existing au so cx u pid pf tks) (link_existing (on_spec au) so cx u pid pf tks)" for u
    unfolding link_existing_def by (intro sim_intros link_account_sim assms)
  show ?thesis
    unfolding resolve_oauth_user_def db on_spec_sel
    by (intro sim_intros store_sims returning_user_sim[OF db] first existing)
qed

lemma start_oauth_flow_sim:
  assumes db: "au_db au = A"
  shows "sim (wmap \<alpha>) (winv I) (start_oauth_flow au so cx pid pv st hint) (start_oauth_flow (on_spec au) so cx pid pv st hint)"
  unfolding start_oauth_flow_def Let_def db on_spec_sel callback_url_def by (intro sim_intros token_sims)

lemma handle_oauth_callback_sim:
  assumes db: "au_db au = A" and "hooks_ok (au_hooks au)"
  shows "sim (wmap \<alpha>) (winv I) (handle_oauth_callback au so cx pid q sess) (handle_oauth_callback (on_spec au) so cx pid q sess)"
proof -
  have err: "sim \<alpha>' I' (error_redirect au st code) (error_redirect (on_spec au) st code)" for \<alpha>' I' st code
    unfolding error_redirect_def error_target_def on_spec_sel by (rule sim_intros)
  have ev: "sim (wmap \<alpha>) (winv I) (signed_up_event c u p b) (signed_up_event c u p b)" for c u p b
    unfolding signed_up_event_def by (intro sim_intros)
  have load: "sim \<alpha> I (load_oauth_state au so cx st) (load_oauth_state (on_spec au) so cx st)" for st
    unfolding load_oauth_state_def db on_spec_sel by (intro sim_intros token_sims)
  have link: "sim (wmap \<alpha>) (winv I) (finish_linking au so cx pid st sess pf tk) (finish_linking (on_spec au) so cx pid st sess pf tk)" for st pf tk
    unfolding finish_linking_def success_target_def on_spec_sel
    by (auto intro!: sim_intros err link_account_sim assms split: option.splits gerror.splits sum.splits)
  have sign: "sim (wmap \<alpha>) (winv I) (finish_social_sign_in au so cx pid st pf tk) (finish_social_sign_in (on_spec au) so cx pid st pf tk)" for st pf tk
    using assms(2) unfolding finish_social_sign_in_def Let_def success_target_def on_spec_sel db
    by (auto intro!: sim_intros err ev resolve_oauth_user_sim assms effect_sims split: option.splits gerror.splits sum.splits)
  have ex: "sim (wmap \<alpha>) (winv I) (exchange_code au so cx pid pv st c sess) (exchange_code (on_spec au) so cx pid pv st c sess)" for pv st c
    unfolding exchange_code_def callback_url_def on_spec_sel by (auto intro!: sim_intros err link sign split: sum.splits)
  show ?thesis
    unfolding handle_oauth_callback_def by (auto intro!: sim_intros err load ex split: option.splits)
qed

end

end
