(* ===== verification/Deletion_Laws.thy ===== *)
theory Deletion_Laws
  imports Account_Laws
begin

text \<open>Moving a verified address, deleting an account, and giving up a way to sign in.\<close>

section \<open>Moving an address\<close>

definition approval_mail :: "session_data \<Rightarrow> effect \<Rightarrow> bool" where
  "approval_mail sd x = (case x of Mailed m \<Rightarrow> ml_kind m = token_kind_change \<and> ml_to m = u_email (sd_user sd) | _ \<Rightarrow> True)"

lemma wonly_small [frame_intros]:
  "wonly M (require_session sess)" "wonly M (need_body b)"
  unfolding require_session_def need_body_def by (auto intro!: frame_intros split: option.splits)

lemma new_effects_small [frame_intros]:
  "moves (new_effects Q) (require_session sess)" "moves (new_effects Q) (need_body b)" "moves (new_effects Q) (check e)"
  unfolding require_session_def need_body_def check_def by (auto intro!: frame_intros split: option.splits)

lemma request_change_moves:
  "au_db au = spec_adapter \<Longrightarrow> wonly {model_verification} (request_change au cx sd new cb)"
  "moves (new_effects (approval_mail sd)) (request_change au cx sd new cb)"
  unfolding request_change_def
  by (auto intro!: frame_intros wonly_mail simp: approval_mail_def split: option.splits)

lemma change_of_verified:
  assumes "u_email_verified (sd_user sd)" and "handle_change_email au cx (Inr sd) body w = (w', r)"
  shows "w' = w \<or> (\<exists>new cb. request_change au cx sd new cb w = (w', r))"
  using assms
  by (auto simp: handle_change_email_def Let_def need_body_def check_def split: if_splits option.splits sum.splits)

text \<open>
  Asking to move the address of a session whose user is verified changes no user, no
  account and no session on the in-memory store: at most a change token is stored, and the
  only mail that is sent goes to the present address, never to the new one.
\<close>

theorem verified_address_stays:
  assumes "mem_inv S (w_db w)" and "au_db au = mem_adapter" and "au_hooks au = no_hooks"
    and "u_email_verified (sd_user sd)" and "handle_change_email au cx (Inr sd) body w = (w', r)"
  shows "(\<forall>m. m \<noteq> model_verification \<longrightarrow> mem_rows (w_db w') m = mem_rows (w_db w) m)
    \<and> (\<forall>m. Mailed m \<in> set (w_log w') \<longrightarrow> Mailed m \<in> set (w_log w) \<or>
         ml_kind m = token_kind_change \<and> ml_to m = u_email (sd_user sd))"
proof -
  have "winv (mem_inv S) w" using assms(1) by (simp add: winv_def)
  from simD[OF mem.handle_change_email_sim[OF assms(2)] this assms(5)] assms(3)
  have run: "handle_change_email (on_spec au) cx (Inr sd) body (wmap mem_abs w) = (wmap mem_abs w', r)" by simp
  from change_of_verified[OF assms(4) run] have
    "same_rows {model_verification} (w_db (wmap mem_abs w)) (w_db (wmap mem_abs w'))
     \<and> new_effects (approval_mail sd) (wmap mem_abs w) (wmap mem_abs w')"
  proof (elim disjE exE)
    assume "wmap mem_abs w' = wmap mem_abs w"
    then show ?thesis by (simp add: same_rows_def new_effects_def)
  next
    fix new cb assume "request_change (on_spec au) cx sd new cb (wmap mem_abs w) = (wmap mem_abs w', r)"
    then show ?thesis
      using wonly_same[OF request_change_moves(1)[of "on_spec au" cx sd new cb]] movesD[OF request_change_moves(2)] by fastforce
  qed
  then show ?thesis by (fastforce simp: same_rows_def new_effects_def approval_mail_def)
qed

lemma verified_address_stays_witness:
  "\<exists>w' r. handle_change_email (demo_auth mem_adapter) demo_cx (Inr (session_sd (demo_session 0 1000) demo_user_row))
      (Some \<lparr>ce_new = ''eve@example.com'', ce_callback = ''''\<rparr>) demo_world = (w', r)
    \<and> mem_rows (w_db w') model_user = mem_rows (w_db demo_world) model_user"
proof -
  let ?f = "handle_change_email (demo_auth mem_adapter) demo_cx (Inr (session_sd (demo_session 0 1000) demo_user_row))
      (Some \<lparr>ce_new = ''eve@example.com'', ce_callback = ''''\<rparr>)"
  obtain w' r where run: "?f demo_world = (w', r)" by (meson surj_pair)
  have "u_email_verified (sd_user (session_sd (demo_session 0 1000) demo_user_row))"
    by (simp add: session_sd_def demo_user_row_def)
  from verified_address_stays[OF demo_world_facts(1) _ _ this run] show ?thesis using run by (auto simp: model_names)
qed

text \<open>
  The handler decides by the user in the session, and the session may come from the cookie
  cache: while the cached user is still unverified, an address that has since been verified
  moves without approval.
\<close>

lemma stale_session_moves_verified_address:
  "bool_val (rget (hd (urows (w_db demo_spec_world))) ''emailVerified'') \<and>
   (case handle_change_email (demo_auth spec_adapter) demo_cx (Inr (session_sd (demo_session 0 1000) pending_user))
      (Some \<lparr>ce_new = ''eve@example.com'', ce_callback = ''''\<rparr>) demo_spec_world of
     (w', r) \<Rightarrow> rget (hd (urows (w_db w'))) ''email'' = VStr ''eve@example.com'')"
  by code_simp

section \<open>Deleting\<close>

text \<open>The rows left when everything of a user is gone.\<close>

definition rows_without :: "schema \<Rightarrow> string \<Rightarrow> (string \<Rightarrow> grec list) \<Rightarrow> string \<Rightarrow> grec list" where
  "rows_without sc uid rows m = filter (\<lambda>row. \<not> belongs_to sc uid m row) (rows m)"

lemma perform_delete_spec:
  assumes sc: "has_core_tables sc" "distinct (map fst (sc_tables sc))"
    and db: "au_db au = spec_adapter" "au_schema au = Some sc" and core: "core_db (w_db w)" "sd_schema (w_db w) = Some sc"
    and run: "perform_delete_user au cx u w = (w', r)"
  shows "(w_db w' = w_db w \<and> r \<noteq> Inr Deleted) \<or>
    (r = Inr Deleted \<and> (\<forall>m. sd_rows (w_db w') m = rows_without sc (u_id u) (sd_rows (w_db w)) m))"
proof -
  from delete_user_spec[OF sc core(1,2), of "u_id u"] obtain d' where
    body: "delete_user_body spec_adapter (Some sc) (u_id u) (w_db w) = (d', Inr ())"
    and rows: "\<And>m. sd_rows d' m = rows_without sc (u_id u) (sd_rows (w_db w)) m" by (auto simp: rows_without_def)
  have "delete_user (au_db au) (au_schema au) (u_id u) (w_db w) = (d', Inr ())"
    using body by (simp add: db delete_user_def store_transaction_def spec_transaction_def bind_def)
  then show ?thesis
    using run rows by (auto simp: perform_delete_user_def bind_db check_def bind_def[of "fail _"] split: option.splits)
qed

lemma consume_schema:
  "core_db d \<Longrightarrow> consume_token spec_adapter digest now kind tok d = (d', r) \<Longrightarrow> sd_schema d' = sd_schema d"
  using simD[OF spec.token_sims(6)[of "sd_schema d" digest now kind tok], of d d' r] by (simp add: spec_inv_of_def core_db_def)

text \<open>
  What a run of an endpoint of account deletion may do: nothing but to verifications, or it answers so
  and deletes everything of one user for whom it was allowed, and nothing else.
\<close>

definition deletes_only :: "schema \<Rightarrow> (string \<Rightarrow> bool) \<Rightarrow> sdb \<Rightarrow> sdb \<Rightarrow> reply result \<Rightarrow> bool" where
  "deletes_only sc allowed d d' r \<longleftrightarrow>
     (same_rows {model_verification} d d' \<and> r \<noteq> Inr Deleted) \<or>
     (r = Inr Deleted \<and> (\<exists>uid. allowed uid
        \<and> (\<forall>m. m \<noteq> model_verification \<longrightarrow> sd_rows d' m = rows_without sc uid (sd_rows d) m)))"

lemma deletes_only_later:
  assumes "same_rows {model_verification} d d1" and "deletes_only sc P d1 d' r" and "\<And>uid. P uid \<Longrightarrow> Q uid"
  shows "deletes_only sc Q d d' r"
proof -
  have "rows_without sc uid (sd_rows d1) m = rows_without sc uid (sd_rows d) m" if "m \<noteq> model_verification" for uid m
    using assms(1) that by (simp add: rows_without_def same_rows_def)
  moreover have "same_rows {model_verification} d1 d' \<Longrightarrow> same_rows {model_verification} d d'"
    using assms(1) by (rule frame.transitive)
  ultimately show ?thesis using assms(2,3) unfolding deletes_only_def by fastforce
qed

lemma deletes_nothing: "same_rows {model_verification} d d' \<Longrightarrow> r \<noteq> Inr Deleted \<Longrightarrow> deletes_only sc P d d' r"
  by (simp add: deletes_only_def)

text \<open>A live deletion token that was issued to the user, and that is gone afterwards.\<close>

definition spent_token :: "'s auth \<Rightarrow> req_ctx \<Rightarrow> string \<Rightarrow> grec list \<Rightarrow> grec list \<Rightarrow> string \<Rightarrow> bool" where
  "spent_token au cx tok vs vs' uid \<longleftrightarrow>
     (\<exists>vrow\<in>set vs. token_for (au_digest au) (cx_now cx) token_kind_delete tok vrow
        \<and> v_value (verification_from_map vrow) = uid \<and> vrow \<notin> set vs')"

text \<open>A redeemed deletion token is live, and deletes the user it was issued to.\<close>

lemma redeem_delete_spec:
  assumes sc: "has_core_tables sc" "distinct (map fst (sc_tables sc))"
    and db: "au_db au = spec_adapter" "au_schema au = Some sc" and core: "core_db (w_db w)" "sd_schema (w_db w) = Some sc"
    and run: "redeem_delete_token au cx tok expect w = (w', r)"
  shows "deletes_only sc (\<lambda>uid. spent_token au cx tok (vrows (w_db w)) (vrows (w_db w')) uid \<and> (expect \<noteq> '''' \<longrightarrow> uid = expect))
    (w_db w) (w_db w') r"
proof -
  obtain d1 r1 where c: "consume_token spec_adapter (au_digest au) (cx_now cx) token_kind_delete tok (w_db w) = (d1, r1)"
    by (meson surj_pair)
  note f = consume_frame[OF c] and core1 = consume_core[OF core(1) c] and schema1 = consume_schema[OF core(1) c]
  let ?w = "w\<lparr>w_db := d1\<rparr>"
  consider "w_db w' = d1" "r \<noteq> Inr Deleted" | uid u where "r1 = Inr uid" "expect \<noteq> '''' \<longrightarrow> uid = expect" "user_named au uid ?w = Inr u"
      "perform_delete_user au cx u ?w = (w', r)"
    using run c by (auto simp: redeem_delete_token_def attempt_db[of "consume_token _ _ _ _ _"] db(1)[symmetric] split: if_splits sum.splits)
  then show ?thesis
  proof cases
    case 1
    then show ?thesis using f(1) by (simp add: deletes_nothing)
  next
    case 2
    have t: "sd_table d1 model_user = Some user_table" using core1 by (simp add: core_db_def)
    have "find_user_by_id spec_adapter uid d1 = (d1, Inr u)"
      using find_user_by_id_run[of spec_adapter uid d1] 2(3) db(1) by simp
    from user_found[OF t this] have u: "u_id u = uid" by blast
    have "core_store (w_db w)" using core(1) by (simp add: core_db_def)
    from consume_ok[OF this c[unfolded 2(1)]] obtain vrow where v: "vrow \<in> set (vrows (w_db w))"
      "token_for (au_digest au) (cx_now cx) token_kind_delete tok vrow" "v_value (verification_from_map vrow) = uid"
      and d1: "d1 = set_rows model_verification (filter (\<lambda>r. \<not> with_id (v_id (verification_from_map vrow)) r) (vrows (w_db w))) (w_db w)"
      by (auto simp: token_for_def)
    have gone: "vrow \<notin> set (vrows d1)" using verification_row_id[OF core(1) v(1)] by (simp add: d1)
    have "core_db (w_db ?w)" "sd_schema (w_db ?w) = Some sc" using core1 schema1 core(2) by simp_all
    from perform_delete_spec[OF sc db this 2(4)] show ?thesis
    proof (elim disjE conjE)
      assume "w_db w' = w_db ?w" "r \<noteq> Inr Deleted"
      then show ?thesis using f(1) by (simp add: deletes_nothing)
    next
      assume r: "r = Inr Deleted" and rows: "\<forall>m. sd_rows (w_db w') m = rows_without sc (u_id u) (sd_rows (w_db ?w)) m"
      have "sd_rows (w_db w') m = rows_without sc uid (sd_rows (w_db w)) m" if "m \<noteq> model_verification" for m
        using rows f(1) that u by (simp add: rows_without_def same_rows_def)
      moreover have "vrow \<notin> set (vrows (w_db w'))" using rows gone by (auto simp: rows_without_def)
      then have "spent_token au cx tok (vrows (w_db w)) (vrows (w_db w')) uid" using v by (auto simp: spent_token_def)
      ultimately show ?thesis using 2(2) r unfolding deletes_only_def by blast
    qed
  qed
qed

lemma lookup_frame:
  assumes "core_db d" and "lookup_token spec_adapter digest now kind tok d = (d1, r)"
  shows "same_rows {model_verification} d d1" and "core_db d1" and "sd_schema d1 = sd_schema d"
    and "row \<in> set (vrows d1) \<Longrightarrow> row \<in> set (vrows d)"
proof -
  have "only {model_verification} (lookup_token spec_adapter digest now kind tok)" by (auto intro!: frame_intros)
  from movesD[OF this assms(2)] show "same_rows {model_verification} d d1" .
  have "moves (new_rows model_verification (\<lambda>_. False)) (lookup_token spec_adapter digest now kind tok)" by (rule frame_intros)
  from movesD[OF this assms(2)] show "row \<in> set (vrows d1) \<Longrightarrow> row \<in> set (vrows d)" by (simp add: new_rows_def)
  show "core_db d1"
    by (rule core_db_keep[OF assms(1), where f = "lookup_token spec_adapter digest now kind tok"]) (rule spec.token_sims, rule assms(2))
  show "sd_schema d1 = sd_schema d"
    using simD[OF spec.token_sims(4)[of "sd_schema d" digest now kind tok], of d d1 r] assms by (simp add: spec_inv_of_def core_db_def)
qed

text \<open>The mailed link, with the user it is expected to be of, or none.\<close>

lemma complete_delete_spec:
  assumes sc: "has_core_tables sc" "distinct (map fst (sc_tables sc))"
    and db: "au_db au = spec_adapter" "au_schema au = Some sc" and core: "core_db (w_db w)" "sd_schema (w_db w) = Some sc"
    and run: "complete_delete_user au cx tok expect w = (w', r)"
  shows "deletes_only sc (\<lambda>uid. spent_token au cx tok (vrows (w_db w)) (vrows (w_db w')) uid \<and> (expect \<noteq> '''' \<longrightarrow> uid = expect))
    (w_db w) (w_db w') r"
proof (cases "expect = ''''")
  case True
  then show ?thesis using redeem_delete_spec[OF sc db core, of cx tok expect w' r] run by (simp add: complete_delete_user_def)
next
  case False
  obtain d1 r1 where l: "lookup_token spec_adapter (au_digest au) (cx_now cx) token_kind_delete tok (w_db w) = (d1, r1)"
    by (meson surj_pair)
  note f = lookup_frame[OF core(1) l]
  consider "w_db w' = d1" "r \<noteq> Inr Deleted" | "redeem_delete_token au cx tok expect (w\<lparr>w_db := d1\<rparr>) = (w', r)"
    using run False l by (auto simp: complete_delete_user_def attempt_db db(1) split: if_splits)
  then show ?thesis
  proof cases
    case 1
    then show ?thesis using f(1) by (simp add: deletes_nothing)
  next
    case 2
    have "core_db (w_db (w\<lparr>w_db := d1\<rparr>))" "sd_schema (w_db (w\<lparr>w_db := d1\<rparr>)) = Some sc" using f(2,3) core(2) by simp_all
    from redeem_delete_spec[OF sc db this 2] have "deletes_only sc (\<lambda>uid. spent_token au cx tok (vrows d1) (vrows (w_db w')) uid
        \<and> (expect \<noteq> '''' \<longrightarrow> uid = expect)) d1 (w_db w') r" by simp
    then show ?thesis by (rule deletes_only_later[OF f(1)]) (use f(4) in \<open>auto simp: spent_token_def\<close>)
  qed
qed

text \<open>The requests by which an account is deleted, and what allows each to delete the account of a user.\<close>

datatype deletion =
    Delete_Account "session_data result" "delete_body option"
  | Delete_Confirm string string
  | Delete_Callback string

fun run_deletion :: "'s auth \<Rightarrow> req_ctx \<Rightarrow> deletion \<Rightarrow> ('s world, reply) act" where
  "run_deletion au cx (Delete_Account sess body) = handle_delete_user au cx sess body"
| "run_deletion au cx (Delete_Confirm tok cb) = handle_delete_confirm au cx tok cb"
| "run_deletion au cx (Delete_Callback tok) = handle_delete_callback au cx tok"

fun deletion_allowed :: "'s auth \<Rightarrow> req_ctx \<Rightarrow> deletion \<Rightarrow> (string \<Rightarrow> account result) \<Rightarrow> grec list \<Rightarrow> grec list \<Rightarrow> string \<Rightarrow> bool" where
  "deletion_allowed au cx (Delete_Account sess body) cred vs vs' uid \<longleftrightarrow>
     (\<exists>sd b. sess = Inr sd \<and> body = Some b \<and> uid = u_id (sd_user sd) \<and>
       (if dl_token b \<noteq> '''' then spent_token au cx (dl_token b) vs vs' uid
        else if dl_password b \<noteq> ''''
        then \<exists>a. cred uid = Inr a \<and> hs_verify (au_hasher au) (a_password a) (dl_password b) = Inr True
        else uc_send_delete (au_uc au) = None \<and> is_fresh (au_session au) (cx_now cx) (sd_session sd)))"
| "deletion_allowed au cx (Delete_Confirm tok cb) cred vs vs' uid \<longleftrightarrow> False"
| "deletion_allowed au cx (Delete_Callback tok) cred vs vs' uid \<longleftrightarrow> tok \<noteq> '''' \<and> spent_token au cx tok vs vs' uid"

text \<open>A session names its user.\<close>

definition named_session :: "deletion \<Rightarrow> bool" where
  "named_session q \<longleftrightarrow> (\<forall>sd body. q = Delete_Account (Inr sd) body \<longrightarrow> u_id (sd_user sd) \<noteq> '''')"

lemma own_deletion_spec:
  assumes sc: "has_core_tables sc" "distinct (map fst (sc_tables sc))"
    and db: "au_db au = spec_adapter" "au_schema au = Some sc" and core: "core_db (w_db w)" "sd_schema (w_db w) = Some sc"
    and me: "u_id (sd_user sd) \<noteq> ''''"
    and run: "handle_delete_user au cx (Inr sd) (Some b) w = (w', r)"
  shows "deletes_only sc (deletion_allowed au cx (Delete_Account (Inr sd) (Some b)) (\<lambda>uid. credential_of au uid w)
    (vrows (w_db w)) (vrows (w_db w'))) (w_db w) (w_db w') r" (is "deletes_only sc ?P _ _ _")
proof -
  let ?me = "u_id (sd_user sd)"
  have perform: "deletes_only sc ?P (w_db w) (w_db w') r"
    if "?P ?me" "w_db w1 = w_db w" "perform_delete_user au cx (sd_user sd) w1 = (w', r)" for w1
    using perform_delete_spec[OF sc db _ _ that(3)] core that(1,2) unfolding deletes_only_def by (auto simp: same_rows_def)
  consider (token) "dl_token b \<noteq> ''''" | (password) "dl_token b = ''''" "dl_password b \<noteq> ''''"
    | (fresh) "dl_token b = ''''" "dl_password b = ''''" "uc_send_delete (au_uc au) = None"
    | (mail) send where "dl_token b = ''''" "dl_password b = ''''" "uc_send_delete (au_uc au) = Some send"
    by (cases "uc_send_delete (au_uc au)") auto
  then show ?thesis
  proof cases
    case token
    then have "complete_delete_user au cx (dl_token b) ?me w = (w', r)" using run by (simp add: handle_delete_user_def Let_def)
    from complete_delete_spec[OF sc db core this] show ?thesis
      by (rule deletes_only_later[rotated]) (use me token in \<open>auto simp: same_rows_def\<close>)
  next
    case password
    consider "w_db w' = w_db w" "r \<noteq> Inr Deleted"
      | a where "credential_of au ?me w = Inr a" "hs_verify (au_hasher au) (a_password a) (dl_password b) = Inr True"
        "perform_delete_user au cx (sd_user sd) (w\<lparr>w_log := w_log w @ [Derived]\<rparr>) = (w', r)"
      using run password by (auto simp: handle_delete_user_def Let_def split: if_splits sum.splits)
    then show ?thesis
    proof cases
      case 1
      then show ?thesis by (simp add: deletes_nothing same_rows_def)
    next
      case 2
      show ?thesis by (rule perform[OF _ _ 2(3)]) (use 2 password in simp_all)
    qed
  next
    case fresh
    consider "w' = w" "r \<noteq> Inr Deleted" | "is_fresh (au_session au) (cx_now cx) (sd_session sd)" "perform_delete_user au cx (sd_user sd) w = (w', r)"
      using run fresh by (auto simp: handle_delete_user_def Let_def split: if_splits)
    then show ?thesis
    proof cases
      case 1
      then show ?thesis by (simp add: deletes_nothing same_rows_def)
    next
      case 2
      show ?thesis by (rule perform[OF _ refl 2(2)]) (use 2 fresh in simp_all)
    qed
  next
    case (mail send)
    then have req: "request_deletion au cx sd (dl_callback b) send w = (w', r)"
      using run by (simp add: handle_delete_user_def Let_def)
    have "wonly {model_verification} (request_deletion au cx sd (dl_callback b) send)"
      unfolding request_deletion_def by (auto intro!: frame_intros wonly_mail[OF db(1)] split: option.splits)
    from wonly_same[OF this req] have "same_rows {model_verification} (w_db w) (w_db w')" by simp
    moreover have "r \<noteq> Inr Deleted"
      using req unfolding request_deletion_def by (auto simp: bind_def ret_def fail_def split: prod.splits sum.splits option.splits)
    ultimately show ?thesis by (rule deletes_nothing)
  qed
qed

lemma run_deletion_spec:
  assumes sc: "has_core_tables sc" "distinct (map fst (sc_tables sc))"
    and db: "au_db au = spec_adapter" "au_schema au = Some sc" and core: "core_db (w_db w)" "sd_schema (w_db w) = Some sc"
    and me: "named_session q" and run: "run_deletion au cx q w = (w', r)"
  shows "deletes_only sc (deletion_allowed au cx q (\<lambda>uid. credential_of au uid w) (vrows (w_db w)) (vrows (w_db w'))) (w_db w) (w_db w') r"
proof (cases q)
  case (Delete_Account sess body)
  show ?thesis
  proof (cases "\<exists>sd b. sess = Inr sd \<and> body = Some b")
    case True
    then obtain sd b where sb: "sess = Inr sd" "body = Some b" by blast
    have "u_id (sd_user sd) \<noteq> ''''" using me unfolding named_session_def Delete_Account sb by blast
    from own_deletion_spec[OF sc db core this] run show ?thesis unfolding Delete_Account sb run_deletion.simps .
  next
    case False
    then have "w' = w \<and> r \<noteq> Inr Deleted"
      using run unfolding Delete_Account
      by (cases sess; cases body) (auto simp: handle_delete_user_def require_session_def need_body_def bind_def ret_def fail_def)
    then show ?thesis by (simp add: deletes_nothing same_rows_def)
  qed
next
  case (Delete_Confirm tok cb)
  have "wonly {model_verification} (run_deletion au cx q)"
    unfolding Delete_Confirm run_deletion.simps handle_delete_confirm_def db(1) by (auto intro!: frame_intros)
  note wonly_same[OF this run]
  moreover have "r \<noteq> Inr Deleted"
    using run unfolding Delete_Confirm by (auto simp: handle_delete_confirm_def attempt_db fail_def ret_def split: if_splits prod.splits)
  ultimately show ?thesis by (rule deletes_nothing)
next
  case (Delete_Callback tok)
  show ?thesis
  proof (cases "tok = ''''")
    case True
    then show ?thesis using run unfolding Delete_Callback
      by (auto simp: handle_delete_callback_def fail_def intro!: deletes_nothing simp: same_rows_def)
  next
    case False
    then have "complete_delete_user au cx tok '''' w = (w', r)" using run by (simp add: Delete_Callback handle_delete_callback_def)
    from complete_delete_spec[OF sc db core this] show ?thesis
      unfolding Delete_Callback by (rule deletes_only_later[rotated]) (use False in \<open>auto simp: same_rows_def\<close>)
  qed
qed

context storage_contract
begin

lemma run_deletion_sim:
  assumes db: "au_db au = A"
  shows "sim (wmap \<alpha>) (winv I) (run_deletion au cx q) (run_deletion (on_spec au) cx q)"
  by (cases q) (auto simp: handle_delete_confirm_def handle_delete_callback_def db
      intro!: sim_intros token_sims handle_delete_user_sim[OF db] complete_delete_user_sim[OF db])

end

text \<open>
  C26: on the in-memory store an account is deleted only by right, whichever endpoint is asked: by a session, for its
  own user only, with a live deletion token issued to that user, with the current password, or, where no mail is
  configured, with a fresh session; without a session, through the mailed link, with a live deletion token and only for
  the user it was issued to; a look at the confirmation page deletes nothing. The token is spent. Then everything the
  schema declares to be that user's is gone from every table, and nothing else, and the answer says so;
  otherwise nothing but verifications changes.
\<close>

theorem account_deletion_authorised:
  assumes "has_core_tables sc" and "distinct (map fst (sc_tables sc))" and "mem_inv (Some sc) (w_db w)"
    and "au_db au = mem_adapter" and "au_schema au = Some sc" and "named_session q"
    and "run_deletion au cx q w = (w', r)"
  shows "((\<forall>m. m \<noteq> model_verification \<longrightarrow> mem_rows (w_db w') m = mem_rows (w_db w) m) \<and> r \<noteq> Inr Deleted) \<or>
    r = Inr Deleted \<and> (\<exists>uid. deletion_allowed au cx q (\<lambda>i. credential_of au i w)
        (mem_rows (w_db w) model_verification) (mem_rows (w_db w') model_verification) uid
      \<and> (\<forall>m. m \<noteq> model_verification \<longrightarrow>
            mem_rows (w_db w') m = filter (\<lambda>row. \<not> belongs_to sc uid m row) (mem_rows (w_db w) m)))"
proof -
  have core: "core_db (w_db (wmap mem_abs w))" "sd_schema (w_db (wmap mem_abs w)) = Some sc"
    using core_db_mem assms(1,3) by (simp_all add: mem_inv_schema)
  have "winv (mem_inv (Some sc)) w" using assms(3) by (simp add: winv_def)
  from simD[OF mem.run_deletion_sim[OF assms(4)] this assms(7)]
  have run: "run_deletion (on_spec au) cx q (wmap mem_abs w) = (wmap mem_abs w', r)" by simp
  have cred: "credential_of (on_spec au) i (wmap mem_abs w) = credential_of au i w" for i
    using sim_run[OF mem.find_sims(8) assms(3), of i] assms(4) by simp
  have allow: "deletion_allowed (on_spec au) cx q c vs vs' uid = deletion_allowed au cx q c vs vs' uid" for c vs vs' uid
    by (cases q) (simp_all add: spent_token_def)
  from run_deletion_spec[OF assms(1,2) _ _ core assms(6) run] assms(5) show ?thesis
    unfolding cred by (auto simp: deletes_only_def same_rows_def allow rows_without_def)
qed

definition delete_rows :: "(string \<times> grec) list" where
  "delete_rows = demo_rows @ [(model_verification, verification_to_map (demo_verification
     \<lparr>v_id := ''v2'', v_identifier := token_identifier (\<lambda>x. x) token_kind_delete ''d1'', v_value := ''u1''\<rparr>))]"

lemma account_deletion_authorised_witness:
  "\<exists>w' uid. run_deletion (demo_auth mem_adapter) demo_cx (Delete_Callback ''d1'') (seeded delete_rows) = (w', Inr Deleted)
    \<and> (\<exists>vrow\<in>set (mem_rows (w_db (seeded delete_rows)) model_verification). v_value (verification_from_map vrow) = uid)
    \<and> mem_rows (w_db w') model_user =
        filter (\<lambda>row. \<not> belongs_to core_schema uid model_user row) (mem_rows (w_db (seeded delete_rows)) model_user)"
proof -
  let ?f = "\<lambda>A. run_deletion (demo_auth A) demo_cx (Delete_Callback ''d1'')"
  have ids: "rows_with_ids delete_rows" by code_simp
  have sim: "sim (wmap mem_abs) (winv (mem_inv (Some core_schema))) (?f mem_adapter) (?f spec_adapter)"
    using mem.run_deletion_sim[of "demo_auth mem_adapter"] by (simp del: run_deletion.simps)
  have "snd (?f spec_adapter (spec_seeded delete_rows)) = Inr Deleted" by code_simp
  from seeded_run[OF ids sim this] obtain w' where run: "?f mem_adapter (seeded delete_rows) = (w', Inr Deleted)" by blast
  have "named_session (Delete_Callback ''d1'')" by (simp add: named_session_def)
  from account_deletion_authorised[OF core_schema_tables core_distinct seeded_facts(1)[OF ids] _ _ this run] show ?thesis
    using run by (auto simp: spent_token_def model_names)
qed

section \<open>Unlinking\<close>

lemma list_accounts_spec:
  assumes "core_db d"
  shows "list_user_accounts spec_adapter uid d = (d, Inr (map account_from_map (filter (with_str ''userId'' uid) (arows d))))"
proof -
  have "check_where_fields (Some account_table) [W ''userId'' (VStr uid)] = None"
    by (rule check_account) (simp add: account_keys_def W_def)
  moreover have "(\<lambda>r. matches r [W ''userId'' (VStr uid)]) = with_str ''userId'' uid" by (rule ext) (simp add: with_str_def)
  ultimately show ?thesis
    using assms by (simp add: list_user_accounts_def bind_query spec_find_many_def core_db_def page_def)
qed

lemma delete_account_spec:
  assumes "core_db d"
  shows "delete_account spec_adapter i d = (set_rows model_account (filter (\<lambda>r. \<not> with_str ''id'' i r) (arows d)) d, Inr ())"
proof -
  have "check_where_fields (Some account_table) [W ''id'' (VStr i)] = None"
    by (rule check_account) (simp add: account_keys_def W_def)
  moreover have "(\<lambda>r. matches r [W ''id'' (VStr i)]) = with_str ''id'' i" by (rule ext) (simp add: with_str_def)
  moreover have "remove_first (with_str ''id'' i) (arows d) = filter (\<lambda>r. \<not> with_str ''id'' i r) (arows d)"
    using assms same_id_same_row[of d _ model_account]
    by (intro remove_first_eq_filter rows_distinct) (auto simp: core_db_def with_str_def)
  ultimately show ?thesis using assms by (simp add: delete_account_def spec_delete_def core_db_def)
qed

lemma unlink_steps:
  assumes "handle_unlink_account au cx sess body w = (w', r)"
  shows "w_db w' = w_db w \<or> (\<exists>sd b accs a d1 d2. sess = Inr sd \<and> body = Some b \<and> ul_provider b \<noteq> ''''
    \<and> list_user_accounts (au_db au) (u_id (sd_user sd)) (w_db w) = (d1, Inr accs)
    \<and> (1 < length accs \<or> au_unlink_all au) \<and> find (linked_as (ul_provider b) (ul_account b)) accs = Some a
    \<and> fst (delete_account (au_db au) (a_id a) d1) = d2 \<and> w_db w' = d2)"
proof (cases sess)
  case (Inl e)
  then show ?thesis using assms by (simp add: handle_unlink_account_def require_session_def bind_query)
next
  case (Inr sd)
  show ?thesis
  proof (cases body)
    case None
    then show ?thesis using assms Inr by (simp add: handle_unlink_account_def need_body_def)
  next
    case (Some b)
    have same: "fst (list_user_accounts (au_db au) uid s) = s" for uid s
      by (simp add: list_user_accounts_def bind_query split: sum.splits)
    obtain d1 r1 where l: "list_user_accounts (au_db au) (u_id (sd_user sd)) (w_db w) = (d1, r1)" by (meson surj_pair)
    have d1: "d1 = w_db w" using same[of "u_id (sd_user sd)" "w_db w"] l by simp
    show ?thesis
      using assms Inr Some l d1
      by (auto simp: handle_unlink_account_def bind_db split: if_splits sum.splits option.splits prod.splits)
  qed
qed

lemma two_others:
  assumes "2 \<le> length (filter P xs)" and "\<And>x y. x \<in> set xs \<Longrightarrow> y \<in> set xs \<Longrightarrow> Q x \<Longrightarrow> Q y \<Longrightarrow> x = y" and "distinct xs"
  shows "\<exists>x\<in>set xs. P x \<and> \<not> Q x"
proof (rule ccontr)
  assume "\<not> ?thesis"
  then have q: "\<forall>x\<in>set (filter P xs). Q x" by auto
  obtain x y zs where f: "filter P xs = x # y # zs" using assms(1) by (cases "filter P xs" rule: remdups_adj.cases) auto
  have "distinct (filter P xs)" using assms(3) by simp
  moreover have "x \<in> set (filter P xs)" "y \<in> set (filter P xs)" using f by simp_all
  then have "x = y" using q assms(2) by (meson filter_is_subset subsetD)
  ultimately show False using f by simp
qed

text \<open>
  Unlinking on the in-memory store, unless giving up every account is configured,
  leaves a user who had an account with an account. It removes one account, the user's own
  and of the named provider, or nothing; no other row of any table changes.
\<close>

theorem unlink_keeps_an_account:
  assumes "has_core_tables sc" and "mem_inv (Some sc) (w_db w)" and "au_db au = mem_adapter" and "\<not> au_unlink_all au"
    and "handle_unlink_account au cx sess body w = (w', r)"
  shows "mem_rows (w_db w') = mem_rows (w_db w) \<or>
    (\<exists>sd b. \<exists>row\<in>set (mem_rows (w_db w) model_account). sess = Inr sd \<and> body = Some b
       \<and> with_str ''userId'' (u_id (sd_user sd)) row \<and> a_provider (account_from_map row) = ul_provider b
       \<and> (ul_account b \<noteq> '''' \<longrightarrow> a_account (account_from_map row) = ul_account b)
       \<and> mem_rows (w_db w') = (mem_rows (w_db w))(model_account := filter (\<lambda>x. x \<noteq> row) (mem_rows (w_db w) model_account))
       \<and> (\<exists>other\<in>set (mem_rows (w_db w') model_account). with_str ''userId'' (u_id (sd_user sd)) other))"
proof -
  let ?d = "mem_abs (w_db w)"
  have core: "core_db ?d" using core_db_mem assms(1,2) by blast
  have "winv (mem_inv (Some sc)) w" using assms(2) by (simp add: winv_def)
  from simD[OF mem.handle_unlink_account_sim[OF assms(3)] this assms(5)]
  have "handle_unlink_account (on_spec au) cx sess body (wmap mem_abs w) = (wmap mem_abs w', r)" by simp
  from unlink_steps[OF this] consider "mem_abs (w_db w') = ?d"
    | sd b a where "sess = Inr sd" "body = Some b"
      "1 < length (filter (with_str ''userId'' (u_id (sd_user sd))) (arows ?d))"
      "find (linked_as (ul_provider b) (ul_account b)) (map account_from_map (filter (with_str ''userId'' (u_id (sd_user sd))) (arows ?d))) = Some a"
      "mem_abs (w_db w') = set_rows model_account (filter (\<lambda>r. \<not> with_str ''id'' (a_id a) r) (arows ?d)) ?d"
    using assms(4) by (auto simp: list_accounts_spec[OF core] delete_account_spec[OF core] on_spec_def)
  then show ?thesis
  proof cases
    case 1
    from arg_cong[OF this, of sd_rows] show ?thesis by simp
  next
    case 2
    from find_in[OF 2(4)] obtain row where row: "row \<in> set (arows ?d)" "with_str ''userId'' (u_id (sd_user sd)) row"
      "a = account_from_map row" "linked_as (ul_provider b) (ul_account b) a" by auto
    have rid: "has_str_id row" using row(1) core sdb_invD[of ?d model_account] by (auto simp: core_db_def rows_ok_def)
    then have own: "with_str ''id'' (a_id a) row" by (auto simp: row(3) has_str_id_def with_str_iff account_from_map_def rget_def)
    have uniq: "x = y" if "x \<in> set (arows ?d)" "y \<in> set (arows ?d)" "with_str ''id'' (a_id a) x" "with_str ''id'' (a_id a) y" for x y
      using same_id_same_row[of ?d x model_account y] that core by (auto simp: core_db_def with_str_def)
    have filt: "filter (\<lambda>r. \<not> with_str ''id'' (a_id a) r) (arows ?d) = filter (\<lambda>x. x \<noteq> row) (arows ?d)"
      using uniq[OF _ row(1) _ own] own by (intro filter_cong) auto
    have rows: "mem_rows (w_db w') = (mem_rows (w_db w))(model_account := filter (\<lambda>x. x \<noteq> row) (mem_rows (w_db w) model_account))"
      using arg_cong[OF 2(5), of sd_rows] unfolding filt by simp
    have "distinct (arows ?d)" by (rule rows_distinct) (use core in \<open>simp add: core_db_def\<close>)
    from two_others[OF _ uniq this, of "with_str ''userId'' (u_id (sd_user sd))"] 2(3) obtain other where
      "other \<in> set (arows ?d)" "with_str ''userId'' (u_id (sd_user sd)) other" "\<not> with_str ''id'' (a_id a) other" by auto
    then have "\<exists>other\<in>set (mem_rows (w_db w') model_account). with_str ''userId'' (u_id (sd_user sd)) other"
      using own by (intro bexI[of _ other]) (auto simp: rows)
    then show ?thesis using rows row 2(1,2) unfolding linked_as_def
      by (intro disjI2 exI[of _ sd] exI[of _ b] bexI[of _ row]) auto
  qed
qed

definition linked_rows :: "(string \<times> grec) list" where
  "linked_rows = demo_rows @ [(model_account, account_to_map (demo_account
     \<lparr>a_id := ''a2'', a_provider := ''google'', a_account := ''g1'', a_password := ''''\<rparr>))]"

lemma unlink_keeps_an_account_witness:
  "\<exists>w'. handle_unlink_account (demo_auth mem_adapter) demo_cx (Inr (session_sd (demo_session 0 1000) demo_user_row))
      (Some \<lparr>ul_provider = ''google'', ul_account = ''''\<rparr>) (seeded linked_rows) = (w', Inr StatusOk)
    \<and> (mem_rows (w_db w') = mem_rows (w_db (seeded linked_rows)) \<or>
       (\<exists>other\<in>set (mem_rows (w_db w') model_account). with_str ''userId'' ''u1'' other))"
proof -
  let ?f = "\<lambda>A. handle_unlink_account (demo_auth A) demo_cx (Inr (session_sd (demo_session 0 1000) demo_user_row))
      (Some \<lparr>ul_provider = ''google'', ul_account = ''''\<rparr>)"
  have ids: "rows_with_ids linked_rows" by code_simp
  have sim: "sim (wmap mem_abs) (winv (mem_inv (Some core_schema))) (?f mem_adapter) (?f spec_adapter)"
    using mem.handle_unlink_account_sim[of "demo_auth mem_adapter"] by simp
  have "snd (?f spec_adapter (spec_seeded linked_rows)) = Inr StatusOk" by code_simp
  from seeded_run[OF ids sim this] obtain w' where run: "?f mem_adapter (seeded linked_rows) = (w', Inr StatusOk)" by blast
  have "\<not> au_unlink_all (demo_auth mem_adapter)" by (simp add: demo_auth_def)
  from unlink_keeps_an_account[OF core_schema_tables seeded_facts(1)[OF ids] _ this run] show ?thesis
    using run by (auto simp: session_sd_def demo_user_row_def)
qed

end
