(* ===== verification/Social_Laws.thy ===== *)
theory Social_Laws
  imports Social Deletion_Laws
begin

text \<open>
  What an identity provider can bring about: a callback acts only on a flow that this
  browser started, and a profile becomes an existing user only under the linking policy.
\<close>

section \<open>Frames\<close>

lemma only_linking [frame_intros]:
  assumes db: "au_db au = spec_adapter"
  shows "only M (linking_policy au so u pf)"
    and "model_account \<in> M \<Longrightarrow> only M (link_account au so cx u pid pf tks)"
proof -
  show pol: "only M (linking_policy au so u pf)"
    unfolding linking_policy_def db by (auto intro!: frame_intros split: list.splits)
  show "model_account \<in> M \<Longrightarrow> only M (link_account au so cx u pid pf tks)"
    unfolding link_account_def db by (intro frame_intros pol)
qed

lemma only_ignoring [frame_intros]: "only M f \<Longrightarrow> only M (ignore f)"
  unfolding ignore_def by (intro frame_intros)

lemma only_resolve:
  assumes db: "au_db au = spec_adapter"
  shows "only {model_user, model_account} (resolve_oauth_user au so cx pid pf tks asked)"
proof -
  have "only {model_user, model_account} (returning_user au so cx a tks)" for a
    unfolding returning_user_def db by (intro frame_intros) simp_all
  moreover have "only {model_user, model_account} (link_existing au so cx u pid pf tks)" for u
    unfolding link_existing_def by (intro frame_intros only_linking[OF db]) simp_all
  moreover have "only {model_user, model_account} (first_visit au so cx pid pf tks asked)"
    unfolding first_visit_def register_provider_user_def store_transaction_def db spec_adapter_sel option.case
    by (intro frame_intros only_linking[OF db]) simp_all
  ultimately show ?thesis unfolding resolve_oauth_user_def db by (intro frame_intros)
qed

lemma wonly_finish:
  assumes db: "au_db au = spec_adapter"
  shows "wonly {model_user, model_account, model_session} (exchange_code au so cx pid pv st code sess)"
proof -
  have err: "wonly M (error_redirect au st c)" for M st c unfolding error_redirect_def by (rule frame_intros)
  have link: "wonly {model_user, model_account, model_session} (finish_linking au so cx pid st sess pf tk)" for pf tk
    unfolding finish_linking_def
    by (auto intro!: frame_intros err only_linking[OF db] split: option.splits gerror.splits sum.splits)
  have "only {model_user, model_account, model_session} (resolve_oauth_user au so c pid pf tks asked)" for c pf tks asked
    by (rule only_mono[OF only_resolve[OF db]]) blast
  then have sign: "wonly {model_user, model_account, model_session} (finish_social_sign_in au so cx pid st pf tk)" for pf tk
    unfolding finish_social_sign_in_def Let_def signed_up_event_def db
    by (auto intro!: frame_intros err split: option.splits gerror.splits sum.splits)
  show ?thesis unfolding exchange_code_def by (auto intro!: frame_intros err link sign split: sum.splits)
qed

section \<open>The callback\<close>

text \<open>The flow that a callback completes: the row of its state, and what was learnt.\<close>

definition completes_flow ::
  "'s auth \<Rightarrow> social \<Rightarrow> req_ctx \<Rightarrow> string \<Rightarrow> callback_query \<Rightarrow> session_data option \<Rightarrow> grec \<Rightarrow> bool" where
  "completes_flow au so cx pid q sess vrow \<longleftrightarrow>
     cq_state q \<noteq> '''' \<and> cq_cookie q = cq_state q \<and> cq_error q = '''' \<and> cq_code q \<noteq> ''''
     \<and> token_for (au_digest au) (cx_now cx) token_kind_state (cq_state q) vrow
     \<and> (\<exists>st pv tk pf. so_read so (v_value (verification_from_map vrow)) = Some st
          \<and> (st_provider st = '''' \<or> st_provider st = pid) \<and> so_providers so pid = Some pv
          \<and> pv_exchange pv (cq_code q) (st_verifier st) (callback_url au pid) = Inr tk \<and> pv_user_info pv tk = Inr pf
          \<and> (st_link_user st \<noteq> '''' \<longrightarrow> (\<exists>sd. sess = Some sd \<and> u_id (sd_user sd) = st_link_user st)))"

lemma exchange_acts:
  assumes "exchange_code au so cx pid pv st code sess w = (w', r)" and "w_db w' \<noteq> w_db w"
  shows "\<exists>tk pf. pv_exchange pv code (st_verifier st) (callback_url au pid) = Inr tk \<and> pv_user_info pv tk = Inr pf
    \<and> (st_link_user st \<noteq> '''' \<longrightarrow> (\<exists>sd. sess = Some sd \<and> u_id (sd_user sd) = st_link_user st))"
  using assms
  by (auto simp: exchange_code_def error_redirect_def finish_linking_def split: sum.splits if_splits option.splits)

lemma callback_steps:
  assumes db: "au_db au = spec_adapter" and core: "core_db (w_db w)"
    and run: "handle_oauth_callback au so cx pid q sess w = (w', r)"
  shows "same_rows {model_verification} (w_db w) (w_db w') \<or>
    (\<exists>vrow\<in>set (vrows (w_db w)). completes_flow au so cx pid q sess vrow \<and> vrow \<notin> set (vrows (w_db w')))"
proof (cases "so_providers so pid = None \<or> cq_state q = '''' \<or> cq_cookie q = '''' \<or> cq_state q \<noteq> cq_cookie q")
  case True
  then have "w_db w' = w_db w" using run by (auto simp: handle_oauth_callback_def error_redirect_def split: if_splits option.splits)
  then show ?thesis by (simp add: same_rows_def)
next
  case False
  then obtain pv where pv: "so_providers so pid = Some pv" by auto
  let ?w = "w\<lparr>w_log := w_log w @ [StateCookieCleared]\<rparr>"
  obtain d1 r1 where c: "consume_token spec_adapter (au_digest au) (cx_now cx) token_kind_state (cq_state q) (w_db w) = (d1, r1)"
    by (meson surj_pair)
  note f = consume_frame[OF c]
  consider "w_db w' = d1"
    | val st where "r1 = Inr val" "so_read so val = Some st" "st_provider st = '''' \<or> st_provider st = pid"
      "cq_error q = ''''" "cq_code q \<noteq> ''''"
      "exchange_code au so cx pid pv st (cq_code q) sess (?w\<lparr>w_db := d1\<rparr>) = (w', r)"
    using run False pv c
    by (auto simp: handle_oauth_callback_def load_oauth_state_def attempt_db bind_def[of "consume_token _ _ _ _ _"] db
        error_redirect_def split: if_splits option.splits sum.splits)
  then show ?thesis
  proof cases
    case 1
    then show ?thesis using f(1) by simp
  next
    case 2
    show ?thesis
    proof (cases "w_db w' = d1")
      case True
      then show ?thesis using f(1) by simp
    next
      case ne: False
      have "core_store (w_db w)" using core by (simp add: core_db_def)
      from consume_ok[OF this c[unfolded 2(1)]] obtain vrow where v: "vrow \<in> set (vrows (w_db w))"
        "token_for (au_digest au) (cx_now cx) token_kind_state (cq_state q) vrow" "v_value (verification_from_map vrow) = val"
        and d1: "d1 = set_rows model_verification (filter (\<lambda>r. \<not> with_id (v_id (verification_from_map vrow)) r) (vrows (w_db w))) (w_db w)"
        by (auto simp: token_for_def)
      have "vrows (w_db w') = vrows d1"
        using wonly_same[OF wonly_finish[OF db] 2(6)] by (simp add: same_rows_def model_names)
      then have gone: "vrow \<notin> set (vrows (w_db w'))" using verification_row_id[OF core v(1)] by (simp add: d1)
      have "w_db w' \<noteq> w_db (?w\<lparr>w_db := d1\<rparr>)" using ne by simp
      from exchange_acts[OF 2(6) this] have "completes_flow au so cx pid q sess vrow"
        unfolding completes_flow_def using False pv 2 v by (metis (no_types, lifting))
      then show ?thesis using v(1) gone by blast
    qed
  qed
qed

text \<open>
  C27: on the in-memory store a provider's callback changes users, accounts or sessions only
  if its state is that of the browser's own cookie and of a flow stored here, not expired,
  for this provider, which is used up; if the code is exchanged with that flow's verifier
  and the provider names someone; and, when linking, if the browser still has the session
  of the user who asked for it.
\<close>

theorem oauth_callback_bound:
  assumes "has_core_tables sc" and "mem_inv (Some sc) (w_db w)" and "au_db au = mem_adapter" and "au_hooks au = no_hooks"
    and "handle_oauth_callback au so cx pid q sess w = (w', r)"
    and "m \<noteq> model_verification" and "mem_rows (w_db w') m \<noteq> mem_rows (w_db w) m"
  shows "\<exists>vrow\<in>set (mem_rows (w_db w) model_verification).
    completes_flow au so cx pid q sess vrow \<and> vrow \<notin> set (mem_rows (w_db w') model_verification)"
proof -
  have core: "core_db (w_db (wmap mem_abs w))" using core_db_mem assms(1,2) by simp
  have "winv (mem_inv (Some sc)) w" using assms(2) by (simp add: winv_def)
  from simD[OF mem.handle_oauth_callback_sim[OF assms(3)] this assms(5)] assms(4)
  have "handle_oauth_callback (on_spec au) so cx pid q sess (wmap mem_abs w) = (wmap mem_abs w', r)" by simp
  from callback_steps[OF _ core this] assms(6,7) show ?thesis
    by (auto simp: same_rows_def completes_flow_def callback_url_def)
qed

section \<open>Linking\<close>

lemma find_account_run: "find_account A p i s = (s, snd (find_account A p i s))"
  by (simp add: find_account_def bind_query split: sum.splits)

lemma create_provider_user:
  assumes "core_db d" and "u_extra u = []" and "create_user spec_adapter no_hooks now gen u d = (d', Inr u')"
  shows "urows d' = urows d @ [user_to_map u'] \<and> u_email u' = normalize_email (u_email u)
    \<and> u_email_verified u' = u_email_verified u \<and> u_extra u' = []
    \<and> (\<forall>row\<in>set (urows d). \<not> with_str ''email'' (normalize_email (u_email u)) row)"
  using assms(3) create_user_spec[OF assms(1,2) refl, of now gen] assms(2) by (auto split: if_splits)

lemma transaction_okD:
  assumes "attempt (spec_transaction f) (\<lambda>r. case r of Inl e \<Rightarrow> fail (g e) | Inr v \<Rightarrow> ret (h v)) d = (d', Inr x)"
  shows "\<exists>v. f d = (d', Inr v) \<and> x = h v"
  using assms by (auto simp: attempt_def spec_transaction_def split: prod.splits sum.splits)

lemma register_provider_ok:
  assumes db: "au_db au = spec_adapter" "au_hooks au = no_hooks" and core: "core_db d"
    and run: "register_provider_user au so cx pid pf tks d = (d', Inr (u, b))"
  shows "b \<and> (\<forall>row\<in>set (urows d). \<not> with_str ''email'' (normalize_email (pf_email pf)) row)
    \<and> urows d' = urows d @ [user_to_map u] \<and> u_email u = normalize_email (pf_email pf) \<and> u_email_verified u = pf_verified pf"
proof -
  let ?cu = "create_user spec_adapter no_hooks (cx_now cx) (cx_fresh cx ''user-id'') (provider_user pf)"
  let ?body = "bind ?cu (\<lambda>u. bind (link_account au so cx u pid pf tks) (\<lambda>_. ret (user_to_map u)))"
  have ex: "u_extra (provider_user pf) = []" "u_email (provider_user pf) = pf_email pf" "u_email_verified (provider_user pf) = pf_verified pf"
    by (simp_all add: provider_user_def new_user_def)
  have "attempt (spec_transaction ?body) (\<lambda>r. case r of
       Inl e \<Rightarrow> fail (if is_unique_violation e then err_not_linked else e)
     | Inr rec \<Rightarrow> ret (user_from_map rec, True)) d = (d', Inr (u, b))"
    using run unfolding register_provider_user_def store_transaction_def db spec_adapter_sel option.case .
  from transaction_okD[OF this] obtain rec where body: "?body d = (d', Inr rec)" and pair: "(u, b) = (user_from_map rec, True)" by blast
  note eqs = pair[unfolded prod.inject]
  from bind_okD[OF body] obtain d1 u1 where cu: "?cu d = (d1, Inr u1)"
    and rest: "bind (link_account au so cx u1 pid pf tks) (\<lambda>_. ret (user_to_map u1)) d1 = (d', Inr rec)" by blast
  note c = create_provider_user[OF core ex(1) cu]
  from bind_okD[OF rest] have link: "\<exists>x. link_account au so cx u1 pid pf tks d1 = (d', Inr x)" "rec = user_to_map u1" by auto
  have "only {model_account} (link_account au so cx u1 pid pf tks)" by (rule only_linking(2)[OF db(1)]) simp
  with link(1) have "same_rows {model_account} d1 d'" by (auto dest: movesD)
  then have "urows d' = urows d1" by (simp add: same_rows_def model_names)
  moreover have "u = u1" using c by (simp add: eqs link(2))
  ultimately show ?thesis using c eqs by (simp add: ex)
qed

text \<open>The three ways a profile becomes a user.\<close>

definition policy_allows ::
  "'s auth \<Rightarrow> social \<Rightarrow> string \<Rightarrow> profile \<Rightarrow> 's \<Rightarrow> grec list \<Rightarrow> grec list \<Rightarrow> user \<Rightarrow> bool \<Rightarrow> bool" where
  "policy_allows au so pid pf s users users' u is_new \<longleftrightarrow>
     (if is_new
      then (\<forall>row\<in>set users. \<not> with_str ''email'' (normalize_email (pf_email pf)) row)
           \<and> users' = users @ [user_to_map u] \<and> u_email u = normalize_email (pf_email pf) \<and> u_email_verified u = pf_verified pf
      else users' = users \<and>
           ((\<exists>a. snd (find_account (au_db au) pid (pf_id pf) s) = Inr a \<and> snd (find_user_by_id (au_db au) (a_user a) s) = Inr u)
            \<or> snd (find_user_by_email (au_db au) (pf_email pf) s) = Inr u \<and> pf_email pf \<noteq> '''' \<and> pf_verified pf
              \<and> is_trusted_provider so pid \<and> u_email_verified u \<and> \<not> so_no_linking so))"

lemma resolve_spec:
  assumes db: "au_db au = spec_adapter" "au_hooks au = no_hooks" and core: "core_db d"
    and run: "resolve_oauth_user au so cx pid pf tks asked d = (d', Inr (u, is_new))"
  shows "policy_allows au so pid pf d (urows d) (urows d') u is_new"
proof -
  have first: "policy_allows au so pid pf d (urows d) (urows d') u is_new" if "first_visit au so cx pid pf tks asked d = (d', Inr (u, is_new))"
  proof -
    have "register_provider_user au so cx pid pf tks d = (d', Inr (u, is_new))" using that by (auto simp: first_visit_def split: if_splits)
    from register_provider_ok[OF db core this] show ?thesis by (simp add: policy_allows_def)
  qed
  obtain ra where fa: "find_account (au_db au) pid (pf_id pf) d = (d, ra)" by (rule that, rule find_account_run)
  show ?thesis
  proof (cases ra)
    case (Inr a)
    have r: "returning_user au so cx a tks d = (d', Inr (u, is_new))"
      using run fa Inr by (simp add: resolve_oauth_user_def attempt_def)
    have "only {model_account} (returning_user au so cx a tks)"
      unfolding returning_user_def db by (intro frame_intros) simp_all
    from movesD[OF this r] have same: "urows d' = urows d" by (simp add: same_rows_def model_names)
    from r have "snd (find_user_by_id (au_db au) (a_user a) d) = Inr u \<and> \<not> is_new"
      by (auto simp: returning_user_def dest!: bind_okD)
    then show ?thesis using same fa Inr by (auto simp: policy_allows_def)
  next
    case (Inl e)
    show ?thesis
    proof (cases "e = ErrNotFound \<and> pf_email pf \<noteq> '''' \<and> \<not> so_no_linking so")
      case False
      then show ?thesis using run fa Inl by (intro first) (auto simp: resolve_oauth_user_def attempt_def split: if_splits)
    next
      case True
      obtain ru where fu: "find_user_by_email (au_db au) (pf_email pf) d = (d, ru)" by (rule that, rule find_user_by_email_run)
      show ?thesis
      proof (cases ru)
        case (Inl e2)
        then show ?thesis using run fa fu \<open>ra = Inl e\<close> True
          by (intro first) (auto simp: resolve_oauth_user_def attempt_def split: if_splits)
      next
        case (Inr v)
        have r: "link_existing au so cx v pid pf tks d = (d', Inr (u, is_new))"
          using run fa fu \<open>ra = Inl e\<close> True Inr by (simp add: resolve_oauth_user_def attempt_def)
        have "only {model_account} (link_existing au so cx v pid pf tks)"
          unfolding link_existing_def by (intro frame_intros only_linking[OF db(1)]) simp_all
        from movesD[OF this r] have same: "urows d' = urows d" by (simp add: same_rows_def model_names)
        from r have "u = v" "\<not> is_new" "pf_verified pf" "is_trusted_provider so pid" "u_email_verified v"
          by (auto simp: link_existing_def dest!: bind_okD split: if_splits)
        then show ?thesis using same fu Inr True by (simp add: policy_allows_def)
      qed
    qed
  qed
qed

text \<open>
  C28: on the in-memory store a profile signs in an existing user only through an account
  already linked to that very identity, or, if linking is on, when the provider is trusted,
  vouches for the address, and the local user has proven the same address; no user row
  changes then. Otherwise it becomes one new user, whose address no user had.
\<close>

theorem profile_becomes_user_by_policy:
  assumes "has_core_tables sc" and "mem_inv (Some sc) s" and "au_db au = mem_adapter" and "au_hooks au = no_hooks"
    and "resolve_oauth_user au so cx pid pf tks asked s = (s', Inr (u, is_new))"
  shows "policy_allows au so pid pf s (mem_rows s model_user) (mem_rows s' model_user) u is_new"
proof -
  have core: "core_db (mem_abs s)" using core_db_mem assms(1,2) by blast
  from simD[OF mem.resolve_oauth_user_sim[OF assms(3)] assms(2,5)] assms(4)
  have "resolve_oauth_user (on_spec au) so cx pid pf tks asked (mem_abs s) = (mem_abs s', Inr (u, is_new))" by simp
  from resolve_spec[OF _ _ core this] assms(4)
  have pol: "policy_allows (on_spec au) so pid pf (mem_abs s) (urows (mem_abs s)) (urows (mem_abs s')) u is_new" by simp
  have eqs: "snd (find_account spec_adapter pid i (mem_abs s)) = snd (find_account mem_adapter pid i s)"
    "snd (find_user_by_id spec_adapter i (mem_abs s)) = snd (find_user_by_id mem_adapter i s)"
    "snd (find_user_by_email spec_adapter e (mem_abs s)) = snd (find_user_by_email mem_adapter e s)" for i e
    using sim_run[OF mem.find_sims(7) assms(2), of pid i] sim_run[OF mem.find_sims(1) assms(2), of i]
      sim_run[OF mem.find_sims(2) assms(2), of e] by simp_all
  show ?thesis using pol unfolding policy_allows_def on_spec_sel assms(3) mem_abs_sel(1) eqs .
qed

section \<open>Witnesses\<close>

definition demo_profile :: profile where
  "demo_profile = \<lparr>pf_id = ''g1'', pf_name = ''Bob'', pf_email = ''bob@example.com'', pf_verified = True, pf_image = ''''\<rparr>"

definition demo_tokens :: tokens where
  "demo_tokens = \<lparr>tk_access = ''t'', tk_refresh = '''', tk_id = '''', tk_scope = '''', tk_access_expires = 0, tk_refresh_expires = 0\<rparr>"

definition demo_provider :: provider where
  "demo_provider = \<lparr>pv_auth_url = (\<lambda>rq. Inr (rq_state rq)), pv_exchange = (\<lambda>code verifier to. Inr demo_tokens),
     pv_user_info = (\<lambda>tk. Inr demo_profile), pv_refresh = None, pv_verify_id = None, pv_cross_site = False\<rparr>"

definition demo_flow :: oauth_state where
  "demo_flow = \<lparr>st_provider = ''good'', st_callback = '''', st_new_user = '''', st_error = '''', st_verifier = ''x'',
     st_link_user = '''', st_sign_up = False, st_scopes = []\<rparr>"

text \<open>One trusted provider, and one that is merely configured.\<close>

definition demo_social :: social where
  "demo_social = \<lparr>so_providers = (\<lambda>pid. if pid = ''good'' \<or> pid = ''any'' then Some demo_provider else None), so_no_sign_up = False,
     so_no_linking = False, so_trusted = [''good''], so_any_email = False, so_encrypts = False, so_no_nonce_check = False,
     so_ring = demo_rotation, so_root = ''/'', so_write = (\<lambda>_. ''flow''),
     so_read = (\<lambda>v. if v = ''flow'' then Some demo_flow else None)\<rparr>"

definition flow_rows :: "(string \<times> grec) list" where
  "flow_rows = [(model_verification, verification_to_map (demo_verification
     \<lparr>v_identifier := ''oauth-state:s1'', v_value := ''flow''\<rparr>))]"

definition demo_query :: callback_query where
  "demo_query = \<lparr>cq_state = ''s1'', cq_code = ''c'', cq_error = '''', cq_cookie = ''s1''\<rparr>"

lemma oauth_callback_bound_witness:
  "\<exists>w'. handle_oauth_callback (demo_auth mem_adapter) demo_social demo_cx ''good'' demo_query None (seeded flow_rows)
      = (w', Inr (Redirected ''/'' []))
    \<and> (\<exists>vrow\<in>set (mem_rows (w_db (seeded flow_rows)) model_verification).
        completes_flow (demo_auth mem_adapter) demo_social demo_cx ''good'' demo_query None vrow
        \<and> vrow \<notin> set (mem_rows (w_db w') model_verification))"
proof -
  let ?f = "\<lambda>A. handle_oauth_callback (demo_auth A) demo_social demo_cx ''good'' demo_query None"
  have ids: "rows_with_ids flow_rows" by code_simp
  have sim: "sim (wmap mem_abs) (winv (mem_inv (Some core_schema))) (?f mem_adapter) (?f spec_adapter)"
    using mem.handle_oauth_callback_sim[of "demo_auth mem_adapter"] by simp
  obtain w2 r2 where spec: "?f spec_adapter (spec_seeded flow_rows) = (w2, r2)" by (meson surj_pair)
  have "(case ?f spec_adapter (spec_seeded flow_rows) of (w2, r2) \<Rightarrow> r2 = Inr (Redirected ''/'' []) \<and> sd_rows (w_db w2) model_user \<noteq> [])"
    by code_simp
  then have ok: "r2 = Inr (Redirected ''/'' [])" "sd_rows (w_db w2) model_user \<noteq> []" by (simp_all add: spec)
  from seeded_run[OF ids sim, of "Inr (Redirected ''/'' [])"] obtain w' where run: "?f mem_adapter (seeded flow_rows) = (w', Inr (Redirected ''/'' []))"
    and rows: "mem_rows (w_db w') = sd_rows (w_db w2)" using spec ok(1) by auto
  have "sd_rows (w_db (spec_seeded flow_rows)) model_user = []" by code_simp
  then have "mem_rows (w_db w') model_user \<noteq> mem_rows (w_db (seeded flow_rows)) model_user"
    unfolding rows seeded_facts(5)[OF ids] using ok(2) by metis
  from oauth_callback_bound[OF core_schema_tables seeded_facts(1)[OF ids] _ _ run _ this] show ?thesis
    using run by (auto simp: model_names)
qed

lemma profile_becomes_user_by_policy_witness:
  "\<exists>s' u. resolve_oauth_user (demo_auth mem_adapter) demo_social demo_cx ''any'' demo_profile None False (seed [])
      = (s', Inr (u, True))
    \<and> policy_allows (demo_auth mem_adapter) demo_social ''any'' demo_profile (seed [])
        (mem_rows (seed []) model_user) (mem_rows s' model_user) u True"
proof -
  let ?f = "\<lambda>A. resolve_oauth_user (demo_auth A) demo_social demo_cx ''any'' demo_profile None False"
  have start: "mem_inv (Some core_schema) (seed [])" "mem_abs (seed []) = spec_seed []" by (rule seed_abs, simp)+
  obtain s' r where run: "?f mem_adapter (seed []) = (s', r)" by (meson surj_pair)
  from simD[OF mem.resolve_oauth_user_sim[of "demo_auth mem_adapter"] start(1) run]
  have "?f spec_adapter (spec_seed []) = (mem_abs s', r)" by (simp add: start(2))
  moreover have "(case snd (?f spec_adapter (spec_seed [])) of Inr (u, b) \<Rightarrow> b | _ \<Rightarrow> False)" by code_simp
  ultimately obtain u where "r = Inr (u, True)" by (auto split: sum.splits prod.splits)
  note run' = run[unfolded this]
  from profile_becomes_user_by_policy[OF core_schema_tables start(1) _ _ run'] show ?thesis
    using run' by auto
qed

section \<open>Two ways round the policy\<close>

text \<open>
  \<open>DisableSocialSignUp\<close> is there so that only users who already exist can sign in, but the
  request itself may lift it: its \<open>requestSignUp\<close> is the last argument here.
\<close>

lemma request_lifts_disabled_sign_up:
  "snd (resolve_oauth_user (demo_auth spec_adapter) (demo_social\<lparr>so_no_sign_up := True\<rparr>) demo_cx ''any'' demo_profile None False
      (spec_seed [])) = Inl err_sign_up_disabled"
  "case snd (resolve_oauth_user (demo_auth spec_adapter) (demo_social\<lparr>so_no_sign_up := True\<rparr>) demo_cx ''any'' demo_profile None True
      (spec_seed [])) of Inr (u, is_new) \<Rightarrow> is_new | _ \<Rightarrow> False"
  by code_simp+

text \<open>
  A provider that is not trusted may say that an address is verified. The user it creates
  is stored as having proven the address, and the real owner, signing in with a trusted
  provider, is linked into that user's account.
\<close>

lemma untrusted_claim_is_believed_later:
  "case resolve_oauth_user (demo_auth spec_adapter) demo_social demo_cx ''any'' (demo_profile\<lparr>pf_id := ''mallory''\<rparr>) None False
      (spec_seed []) of
     (d, Inr (u, is_new)) \<Rightarrow> is_new \<and>
       (case resolve_oauth_user (demo_auth spec_adapter) demo_social (demo_cx\<lparr>cx_fresh := (\<lambda>x. ''next '' @ x)\<rparr>) ''good'' demo_profile None False d of
          (d', Inr (v, is_new')) \<Rightarrow> u_id v = u_id u \<and> \<not> is_new' | _ \<Rightarrow> False)
   | _ \<Rightarrow> False"
  by code_simp

end
