(* ===== verification/Organization.thy ===== *)
theory Organization
  imports Accounts
begin

text \<open>
  Organizations (plugins/organization/organization.go): the tables, the roles, and the
  endpoints that create, change, delete, list and select an organization. Query
  parameters and decoded bodies are arguments; \<open>AfterCreate\<close>, whose result is dropped, is
  not modelled. The copy of the active organization that the handlers leave in the session
  object of the request is not either: nothing reads it afterwards.
\<close>

section \<open>Configuration and data\<close>

definition model_organization :: string where "model_organization = ''organization''"
definition model_member :: string where "model_member = ''member''"
definition model_invitation :: string where "model_invitation = ''invitation''"
definition model_team :: string where "model_team = ''team''"
definition model_team_member :: string where "model_team_member = ''teamMember''"

definition role_owner :: string where "role_owner = ''owner''"
definition role_admin :: string where "role_admin = ''admin''"
definition role_member :: string where "role_member = ''member''"

record organization =
  og_id :: string
  og_name :: string
  og_slug :: string
  og_logo :: string
  og_metadata :: string
  og_created :: gtime

record member =
  mb_id :: string
  mb_org :: string
  mb_user :: string
  mb_role :: string
  mb_created :: gtime

record invitation =
  iv_id :: string
  iv_org :: string
  iv_email :: string
  iv_role :: string
  iv_status :: string
  iv_team :: string
  iv_inviter :: string
  iv_expires :: gtime

record org_options =
  oo_disabled :: bool
  oo_can_create :: "(user \<Rightarrow> bool) option"
  oo_org_limit :: int
  oo_member_limit :: int
  oo_creator_role :: string
  oo_invite_ttl :: duration
  oo_send :: "mailer option"
  oo_teams :: bool
  oo_before_delete :: "(organization \<Rightarrow> gerror option) option"

definition new_organization :: "org_options \<Rightarrow> org_options" where
  "new_organization oo = oo\<lparr>
     oo_org_limit := (if oo_org_limit oo = 0 then 5 else oo_org_limit oo),
     oo_member_limit := (if oo_member_limit oo = 0 then 100 else oo_member_limit oo),
     oo_creator_role := (if oo_creator_role oo = '''' then role_owner else oo_creator_role oo),
     oo_invite_ttl := (if oo_invite_ttl oo = 0 then hours 48 else oo_invite_ttl oo)\<rparr>"

section \<open>Tables\<close>

abbreviation belongs_to :: "string \<Rightarrow> field \<Rightarrow> field" where
  "belongs_to m f \<equiv> f\<lparr>fd_references := Some \<lparr>ref_model = m, ref_field = ''id'', ref_on_delete = ''cascade''\<rparr>\<rparr>"

definition id_column :: field where "id_column = unique (required (col ''id'' FieldString))"

definition organization_table :: table where
  "organization_table = \<lparr>tb_name = model_organization,
     tb_fields = [id_column, required (col ''name'' FieldString), unique (required (col ''slug'' FieldString)),
       col ''logo'' FieldText, col ''metadata'' FieldText, required (col ''createdAt'' FieldTime)],
     tb_uniques = []\<rparr>"

definition member_table :: table where
  "member_table = \<lparr>tb_name = model_member,
     tb_fields = [id_column, belongs_to model_organization (indexed (required (col ''organizationId'' FieldString))),
       references_user (indexed (required (col ''userId'' FieldString))), required (col ''role'' FieldString),
       required (col ''createdAt'' FieldTime)],
     tb_uniques = [[''organizationId'', ''userId'']]\<rparr>"

definition invitation_table :: table where
  "invitation_table = \<lparr>tb_name = model_invitation,
     tb_fields = [id_column, belongs_to model_organization (indexed (required (col ''organizationId'' FieldString))),
       indexed (required (col ''email'' FieldString)), required (col ''role'' FieldString), required (col ''status'' FieldString),
       col ''teamId'' FieldString, required (col ''inviterId'' FieldString), required (col ''expiresAt'' FieldTime),
       required (col ''createdAt'' FieldTime)],
     tb_uniques = []\<rparr>"

definition team_table :: table where
  "team_table = \<lparr>tb_name = model_team,
     tb_fields = [id_column, belongs_to model_organization (indexed (required (col ''organizationId'' FieldString))),
       required (col ''name'' FieldString), required (col ''createdAt'' FieldTime)],
     tb_uniques = []\<rparr>"

definition team_member_table :: table where
  "team_member_table = \<lparr>tb_name = model_team_member,
     tb_fields = [id_column, belongs_to model_team (indexed (required (col ''teamId'' FieldString))),
       indexed (required (col ''userId'' FieldString)), required (col ''createdAt'' FieldTime)],
     tb_uniques = []\<rparr>"

definition organization_schema :: "org_options \<Rightarrow> schema \<Rightarrow> schema" where
  "organization_schema oo sc =
     (let sc' = add_table invitation_table (add_table member_table (add_table organization_table
                  (add_fields model_session [col ''activeOrganizationId'' FieldString] sc)))
      in if oo_teams oo then add_table team_member_table (add_table team_table sc') else sc')"

section \<open>Reading rows\<close>

definition org_from_map :: "grec \<Rightarrow> organization" where
  "org_from_map m = \<lparr>og_id = str_val (rget m ''id''), og_name = str_val (rget m ''name''), og_slug = str_val (rget m ''slug''),
     og_logo = str_val (rget m ''logo''), og_metadata = str_val (rget m ''metadata''), og_created = time_val (rget m ''createdAt'')\<rparr>"

definition member_from_map :: "grec \<Rightarrow> member" where
  "member_from_map m = \<lparr>mb_id = str_val (rget m ''id''), mb_org = str_val (rget m ''organizationId''),
     mb_user = str_val (rget m ''userId''), mb_role = str_val (rget m ''role''), mb_created = time_val (rget m ''createdAt'')\<rparr>"

definition invitation_from_map :: "grec \<Rightarrow> invitation" where
  "invitation_from_map m = \<lparr>iv_id = str_val (rget m ''id''), iv_org = str_val (rget m ''organizationId''),
     iv_email = str_val (rget m ''email''), iv_role = str_val (rget m ''role''), iv_status = str_val (rget m ''status''),
     iv_team = str_val (rget m ''teamId''), iv_inviter = str_val (rget m ''inviterId''),
     iv_expires = time_val (rget m ''expiresAt'')\<rparr>"

section \<open>Helpers\<close>

definition err_not_a_member :: gerror where "err_not_a_member = ApiError 403 ''NOT_A_MEMBER''"
definition err_insufficient :: gerror where "err_insufficient = ApiError 403 ''INSUFFICIENT_PERMISSION''"
definition err_no_active_org :: gerror where "err_no_active_org = ApiError 400 ''NO_ACTIVE_ORGANIZATION''"
definition err_slug_taken :: gerror where "err_slug_taken = ApiError 400 ''SLUG_TAKEN''"
definition err_org_not_found :: gerror where "err_org_not_found = ApiError 404 ''ORGANIZATION_NOT_FOUND''"

definition membership :: "'s adapter \<Rightarrow> string \<Rightarrow> string \<Rightarrow> ('s, member) act" where
  "membership A org uid =
     bind (query (ad_find_one A model_member [W ''organizationId'' (VStr org), W ''userId'' (VStr uid)]))
       (\<lambda>r. ret (member_from_map r))"

definition active_org :: "session_data \<Rightarrow> string \<Rightarrow> string" where
  "active_org sd explicit =
     (if explicit \<noteq> '''' then explicit else str_val (rget (s_extra (sd_session sd)) ''activeOrganizationId''))"

definition need_org :: "session_data \<Rightarrow> string \<Rightarrow> ('s world, string) act" where
  "need_org sd explicit =
     (if active_org sd explicit = '''' then fail err_no_active_org else ret (active_org sd explicit))"

definition require_role :: "'s auth \<Rightarrow> string \<Rightarrow> session_data \<Rightarrow> string list \<Rightarrow> ('s world, member) act" where
  "require_role au org sd roles =
     attempt (db (membership (au_db au) org (u_id (sd_user sd)))) (\<lambda>r. case r of
       Inl _ \<Rightarrow> fail err_not_a_member
     | Inr m \<Rightarrow> if roles = [] \<or> mb_role m \<in> set roles then ret m else fail err_insufficient)"

definition slug_char :: "char \<Rightarrow> bool" where
  "slug_char c = ((97 \<le> byte_of c \<and> byte_of c \<le> 122) \<or> is_digit c \<or> c = CHR ''-'')"

definition slugify :: "req_ctx \<Rightarrow> string \<Rightarrow> string" where
  "slugify cx s =
     (let t = filter slug_char (map (\<lambda>c. if c = CHR '' '' then CHR ''-'' else c) (to_lower (trim_space s)))
      in if t = '''' then to_lower (cx_fresh cx ''slug'') else t)"

definition find_by_slug :: "'s adapter \<Rightarrow> string \<Rightarrow> ('s, grec) act" where
  "find_by_slug A slug = query (ad_find_one A model_organization [W ''slug'' (VStr slug)])"

definition find_org :: "'s adapter \<Rightarrow> string \<Rightarrow> ('s, grec) act" where
  "find_org A i = query (ad_find_one A model_organization [W ''id'' (VStr i)])"

definition set_active :: "'s auth \<Rightarrow> req_ctx \<Rightarrow> session_data \<Rightarrow> string \<Rightarrow> ('s world, unit) act" where
  "set_active au cx sd org =
     bind (db (update_session (au_db au) (cx_now cx) (s_token (sd_session sd)) [(''activeOrganizationId'', VStr org)])) (\<lambda>_. ret ())"

text \<open>What a handler answers. A member in the full view comes with the user it stands for.\<close>

datatype org_reply =
    OrgNone
  | OrgDone
  | OrgShown organization
  | OrgList "organization list"
  | OrgFull grec "(member \<times> grec option) list" "invitation list" "grec list option"
  | InvitationShown invitation
  | InvitationDetails invitation "(gval \<times> gval) option" "string option"
  | InvitationList "invitation list"
  | Joined invitation member
  | MemberShown member
  | TeamShown grec
  | TeamList "grec list"

section \<open>Creating\<close>

record create_org_body =
  co_name :: string
  co_slug :: string
  co_logo :: string
  co_metadata :: string
  co_keep :: bool

text \<open>\<open>slug\<close> must be free; \<open>own\<close> is the organization it may belong to.\<close>

definition need_free_slug :: "'s auth \<Rightarrow> string \<Rightarrow> string option \<Rightarrow> ('s world, unit) act" where
  "need_free_slug au slug own =
     attempt (db (find_by_slug (au_db au) slug)) (\<lambda>r. case r of
       Inr rec \<Rightarrow> if Some (str_val (rget rec ''id'')) = own then ret () else fail err_slug_taken
     | Inl e \<Rightarrow> if e = ErrNotFound then ret () else fail e)"

definition slug_error :: "gerror \<Rightarrow> gerror" where
  "slug_error e = (if is_unique_violation e then err_slug_taken else e)"

definition may_create :: "'s auth \<Rightarrow> org_options \<Rightarrow> session_data result \<Rightarrow> create_org_body option \<Rightarrow> ('s world, session_data \<times> create_org_body) act" where
  "may_create au oo sess body =
     bind (require_session sess) (\<lambda>sd.
     bind (check (if oo_disabled oo then Some (ApiError 403 ''ORGANIZATION_CREATION_DISABLED'') else None)) (\<lambda>_.
     bind (check (case oo_can_create oo of
                    Some f \<Rightarrow> if f (sd_user sd) then None else Some (ApiError 403 ''NOT_ALLOWED_TO_CREATE_ORGANIZATION'')
                  | None \<Rightarrow> None)) (\<lambda>_.
     bind (need_body body) (\<lambda>b.
     bind (check (if co_name b = '''' then Some err_invalid_body else None)) (\<lambda>_.
     bind (db (query (ad_count (au_db au) model_member
             [W ''userId'' (VStr (u_id (sd_user sd))), W ''role'' (VStr (oo_creator_role oo))]))) (\<lambda>n.
     bind (check (if int n \<ge> oo_org_limit oo then Some (ApiError 403 ''ORGANIZATION_LIMIT_REACHED'') else None)) (\<lambda>_.
     ret (sd, b))))))))"

definition new_org_record :: "req_ctx \<Rightarrow> create_org_body \<Rightarrow> grec" where
  "new_org_record cx b =
     [(''id'', VStr (cx_fresh cx ''organization-id'')), (''name'', VStr (co_name b)),
      (''slug'', VStr (slugify cx (if co_slug b = '''' then co_name b else co_slug b))), (''logo'', VStr (co_logo b)),
      (''metadata'', VStr (co_metadata b)), (''createdAt'', VTime (cx_now cx))]"

definition new_member_record :: "req_ctx \<Rightarrow> string \<Rightarrow> string \<Rightarrow> string \<Rightarrow> grec" where
  "new_member_record cx org uid role =
     [(''id'', VStr (cx_fresh cx ''member-id'')), (''organizationId'', VStr org), (''userId'', VStr uid),
      (''role'', VStr role), (''createdAt'', VTime (cx_now cx))]"

definition create_org :: "'s auth \<Rightarrow> org_options \<Rightarrow> req_ctx \<Rightarrow> session_data \<Rightarrow> create_org_body \<Rightarrow> ('s world, org_reply) act" where
  "create_org au oo cx sd b =
     (let rec = new_org_record cx b; org = org_from_map rec in
      bind (need_free_slug au (og_slug org) None) (\<lambda>_.
      attempt (db (ad_create (au_db au) model_organization rec)) (\<lambda>r. case r of
        Inl e \<Rightarrow> fail (slug_error e)
      | Inr _ \<Rightarrow>
          bind (db (ad_create (au_db au) model_member
                  (new_member_record cx (og_id org) (u_id (sd_user sd)) (oo_creator_role oo)))) (\<lambda>_.
          bind (if co_keep b then ret () else ignore (set_active au cx sd (og_id org))) (\<lambda>_.
          ret (OrgShown org))))))"

definition handle_create_org ::
  "'s auth \<Rightarrow> org_options \<Rightarrow> req_ctx \<Rightarrow> session_data result \<Rightarrow> create_org_body option \<Rightarrow> ('s world, org_reply) act" where
  "handle_create_org au oo cx sess body =
     bind (may_create au oo sess body) (\<lambda>(sd, b). create_org au oo cx sd b)"

section \<open>Changing and deleting\<close>

record update_org_body =
  uo_org :: string
  uo_data :: grec

definition handle_update_org ::
  "'s auth \<Rightarrow> req_ctx \<Rightarrow> session_data result \<Rightarrow> update_org_body option \<Rightarrow> ('s world, org_reply) act" where
  "handle_update_org au cx sess body =
     bind (require_session sess) (\<lambda>sd.
     bind (need_body body) (\<lambda>b.
     bind (need_org sd (uo_org b)) (\<lambda>org.
     bind (require_role au org sd [role_owner, role_admin]) (\<lambda>_.
     (let plain = string_field ''name'' (uo_data b) @ string_field ''logo'' (uo_data b) @ string_field ''metadata'' (uo_data b);
          wanted = str_val (rget (uo_data b) ''slug''); slug = slugify cx wanted;
          upd = (if wanted = '''' then plain else plain @ [(''slug'', VStr slug)]) in
      bind (if wanted = '''' then ret () else need_free_slug au slug (Some org)) (\<lambda>_.
      if upd = [] then fail err_invalid_body
      else attempt (db (ad_update (au_db au) model_organization [W ''id'' (VStr org)] upd)) (\<lambda>r. case r of
        Inl e \<Rightarrow> fail (slug_error e)
      | Inr rec \<Rightarrow> ret (OrgShown (org_from_map rec)))))))))"

text \<open>Team rows go team by team, whatever a storage does of the declared cascade.\<close>

definition delete_teams :: "'s auth \<Rightarrow> string \<Rightarrow> ('s world, unit) act" where
  "delete_teams au org =
     attempt (db (query (ad_find_many (au_db au) model_team [W ''organizationId'' (VStr org)] None))) (\<lambda>r.
     bind (for_each (\<lambda>t. ignore (db (ad_delete_many (au_db au) model_team_member [W ''teamId'' (VStr (str_val (rget t ''id'')))])))
             (case r of Inl _ \<Rightarrow> [] | Inr ts \<Rightarrow> ts)) (\<lambda>_.
     ignore (db (ad_delete_many (au_db au) model_team [W ''organizationId'' (VStr org)]))))"

definition purge_org :: "'s auth \<Rightarrow> org_options \<Rightarrow> string \<Rightarrow> ('s world, unit) act" where
  "purge_org au oo org =
     bind (ignore (db (ad_delete_many (au_db au) model_member [W ''organizationId'' (VStr org)]))) (\<lambda>_.
     bind (ignore (db (ad_delete_many (au_db au) model_invitation [W ''organizationId'' (VStr org)]))) (\<lambda>_.
     bind (if oo_teams oo then delete_teams au org else ret ()) (\<lambda>_.
     db (ad_delete (au_db au) model_organization [W ''id'' (VStr org)]))))"

definition handle_delete_org ::
  "'s auth \<Rightarrow> org_options \<Rightarrow> session_data result \<Rightarrow> string option \<Rightarrow> ('s world, org_reply) act" where
  "handle_delete_org au oo sess body =
     bind (require_session sess) (\<lambda>sd.
     bind (need_body body) (\<lambda>b.
     bind (need_org sd b) (\<lambda>org.
     bind (require_role au org sd [role_owner]) (\<lambda>_.
     attempt (db (find_org (au_db au) org)) (\<lambda>r. case r of
       Inl _ \<Rightarrow> fail err_org_not_found
     | Inr rec \<Rightarrow>
         bind (check (case oo_before_delete oo of None \<Rightarrow> None | Some f \<Rightarrow> f (org_from_map rec))) (\<lambda>_.
         bind (purge_org au oo org) (\<lambda>_.
         ret (OrgShown (org_from_map rec)))))))))"

section \<open>Looking\<close>

definition one_of :: "string \<Rightarrow> gval list \<Rightarrow> clause" where
  "one_of f vs = \<lparr>w_field = f, w_op = OpIn, w_value = WSlice vs, w_conn = ConnDefault\<rparr>"

definition string_values :: "string \<Rightarrow> grec list \<Rightarrow> gval list" where
  "string_values f rs = filter (\<lambda>v. case v of VStr _ \<Rightarrow> True | _ \<Rightarrow> False) (map (\<lambda>r. rget r f) rs)"

definition handle_list_orgs :: "'s auth \<Rightarrow> session_data result \<Rightarrow> ('s world, org_reply) act" where
  "handle_list_orgs au sess =
     bind (require_session sess) (\<lambda>sd.
     bind (db (query (ad_find_many (au_db au) model_member [W ''userId'' (VStr (u_id (sd_user sd)))] None))) (\<lambda>ms.
     if ms = [] then ret (OrgList [])
     else bind (db (query (ad_find_many (au_db au) model_organization [one_of ''id'' (string_values ''organizationId'' ms)] None)))
            (\<lambda>rs. ret (OrgList (map org_from_map rs)))))"

text \<open>The organization a slug names.\<close>

definition org_of_slug :: "'s auth \<Rightarrow> string \<Rightarrow> ('s world, string) act" where
  "org_of_slug au slug =
     attempt (db (find_by_slug (au_db au) slug)) (\<lambda>r. case r of
       Inl _ \<Rightarrow> fail err_org_not_found | Inr rec \<Rightarrow> ret (str_val (rget rec ''id'')))"

record set_active_body =
  ac_org :: string
  ac_slug :: string

definition handle_set_active ::
  "'s auth \<Rightarrow> req_ctx \<Rightarrow> session_data result \<Rightarrow> set_active_body option \<Rightarrow> ('s world, org_reply) act" where
  "handle_set_active au cx sess body =
     bind (require_session sess) (\<lambda>sd.
     bind (need_body body) (\<lambda>b.
     bind (if ac_org b = '''' \<and> ac_slug b \<noteq> '''' then org_of_slug au (ac_slug b) else ret (ac_org b)) (\<lambda>org.
     if org = '''' then bind (set_active au cx sd '''') (\<lambda>_. ret OrgNone)
     else bind (require_role au org sd []) (\<lambda>_.
          bind (set_active au cx sd org) (\<lambda>_.
          bind (db (find_org (au_db au) org)) (\<lambda>rec.
          ret (OrgShown (org_from_map rec))))))))"

definition public_user :: "grec \<Rightarrow> grec" where
  "public_user u = map (\<lambda>f. (f, rget u f)) [''id'', ''name'', ''email'', ''image'']"

definition public_org :: "grec \<Rightarrow> grec" where
  "public_org r = map (\<lambda>f. (f, rget r f)) [''id'', ''name'', ''slug'', ''logo'', ''metadata'', ''createdAt'']"

definition members_of :: "'s auth \<Rightarrow> org_options \<Rightarrow> string \<Rightarrow> ('s world, (member \<times> grec option) list) act" where
  "members_of au oo org =
     bind (db (query (ad_find_many (au_db au) model_member [W ''organizationId'' (VStr org)]
             (Some \<lparr>fo_limit = oo_member_limit oo, fo_offset = 0, fo_sort = None\<rparr>)))) (\<lambda>ms.
     (let ids = string_values ''userId'' ms in
      bind (if ids = [] then ret []
            else db (query (ad_find_many (au_db au) model_user [one_of ''id'' ids] None))) (\<lambda>us.
      (let by_id = map_of (rev (map (\<lambda>u. (str_val (rget u ''id''), public_user u)) us)) in
       ret (map (\<lambda>m. (member_from_map m, by_id (mb_user (member_from_map m)))) ms)))))"

text \<open>Invitations pending in the organization, for those who may see them.\<close>

definition pending_invitations :: "'s auth \<Rightarrow> string \<Rightarrow> member \<Rightarrow> ('s world, invitation list) act" where
  "pending_invitations au org viewer =
     (if mb_role viewer = role_owner \<or> mb_role viewer = role_admin
      then attempt (db (query (ad_find_many (au_db au) model_invitation
             [W ''organizationId'' (VStr org), W ''status'' (VStr ''pending'')] None)))
             (\<lambda>r. ret (case r of Inl _ \<Rightarrow> [] | Inr rs \<Rightarrow> map invitation_from_map rs))
      else ret [])"

definition handle_get_full ::
  "'s auth \<Rightarrow> org_options \<Rightarrow> session_data result \<Rightarrow> string \<Rightarrow> string \<Rightarrow> ('s world, org_reply) act" where
  "handle_get_full au oo sess org_param slug =
     bind (require_session sess) (\<lambda>sd.
     bind (if org_param = '''' \<and> slug \<noteq> '''' then org_of_slug au slug else ret org_param) (\<lambda>explicit.
     (let org = active_org sd explicit in
      if org = '''' then ret OrgNone
      else bind (require_role au org sd []) (\<lambda>viewer.
        attempt (db (find_org (au_db au) org)) (\<lambda>r. case r of
          Inl _ \<Rightarrow> fail err_org_not_found
        | Inr rec \<Rightarrow>
            bind (members_of au oo org) (\<lambda>ms.
            bind (pending_invitations au org viewer) (\<lambda>ivs.
            if oo_teams oo
            then attempt (db (query (ad_find_many (au_db au) model_team [W ''organizationId'' (VStr org)] None)))
                   (\<lambda>r. ret (OrgFull (public_org rec) ms ivs (Some (case r of Inl _ \<Rightarrow> [] | Inr ts \<Rightarrow> ts))))
            else ret (OrgFull (public_org rec) ms ivs None))))))))"

definition handle_check_slug :: "'s auth \<Rightarrow> req_ctx \<Rightarrow> session_data result \<Rightarrow> string option \<Rightarrow> ('s world, org_reply) act" where
  "handle_check_slug au cx sess body =
     bind (require_session sess) (\<lambda>_.
     bind (need_body body) (\<lambda>slug.
     bind (need_free_slug au (slugify cx slug) None) (\<lambda>_.
     ret OrgDone)))"

end
