(* ===== verification/Organization_Members.thy ===== *)
theory Organization_Members
  imports Organization
begin

text \<open>
  Invitations, members and teams (plugins/organization/members.go). The mail of an
  invitation carries its id as the token and the organization it is for as a parameter.
\<close>

section \<open>Inviting\<close>

record invite_body =
  ib_email :: string
  ib_role :: string
  ib_org :: string
  ib_team :: string
  ib_resend :: bool

definition err_already_member :: gerror where "err_already_member = ApiError 400 ''USER_ALREADY_A_MEMBER''"
definition err_member_limit :: gerror where "err_member_limit = ApiError 403 ''MEMBER_LIMIT_REACHED''"
definition err_invitation_expired :: gerror where "err_invitation_expired = ApiError 400 ''INVITATION_EXPIRED''"
definition err_invalid_role :: gerror where "err_invalid_role = ApiError 400 ''INVALID_ROLE''"

definition role_to_invite :: "invite_body \<Rightarrow> string" where
  "role_to_invite b = (if ib_role b = '''' then role_member else ib_role b)"

definition invite_role_error :: "string \<Rightarrow> gerror option" where
  "invite_role_error role =
     (if role = role_owner then Some (ApiError 400 ''CANNOT_INVITE_OWNER'')
      else if role \<noteq> role_admin \<and> role \<noteq> role_member then Some err_invalid_role
      else None)"

text \<open>Not yet a member, and room for one more.\<close>

definition is_member :: "'s auth \<Rightarrow> string \<Rightarrow> string \<Rightarrow> ('s world, bool) act" where
  "is_member au org email =
     attempt (db (find_user_by_email (au_db au) email)) (\<lambda>r. case r of
       Inl _ \<Rightarrow> ret False
     | Inr u \<Rightarrow> attempt (db (membership (au_db au) org (u_id u))) (\<lambda>r. ret (is_ok r)))"

definition need_room :: "'s auth \<Rightarrow> org_options \<Rightarrow> string \<Rightarrow> ('s world, unit) act" where
  "need_room au oo org =
     bind (db (query (ad_count (au_db au) model_member [W ''organizationId'' (VStr org)]))) (\<lambda>n.
     check (if int n \<ge> oo_member_limit oo then Some err_member_limit else None))"

text \<open>The invitation that is already out: \<open>None\<close> for a new one.\<close>

definition earlier_invitation :: "'s auth \<Rightarrow> string \<Rightarrow> string \<Rightarrow> bool \<Rightarrow> ('s world, grec option) act" where
  "earlier_invitation au org email resend =
     attempt (db (query (ad_find_one (au_db au) model_invitation
         [W ''organizationId'' (VStr org), W ''email'' (VStr email), W ''status'' (VStr ''pending'')]))) (\<lambda>r. case r of
       Inr rec \<Rightarrow> if resend then ret (Some rec) else fail (ApiError 400 ''INVITATION_ALREADY_SENT'')
     | Inl e \<Rightarrow> if e = ErrNotFound then ret None else fail e)"

definition need_team :: "'s auth \<Rightarrow> org_options \<Rightarrow> string \<Rightarrow> string \<Rightarrow> ('s world, unit) act" where
  "need_team au oo org team =
     (if team = '''' then ret ()
      else if \<not> oo_teams oo then fail (ApiError 400 ''TEAMS_DISABLED'')
      else attempt (db (query (ad_find_one (au_db au) model_team [W ''id'' (VStr team), W ''organizationId'' (VStr org)])))
             (\<lambda>r. case r of Inl _ \<Rightarrow> fail (ApiError 400 ''TEAM_NOT_FOUND'') | Inr _ \<Rightarrow> ret ()))"

definition new_invitation_record :: "org_options \<Rightarrow> req_ctx \<Rightarrow> session_data \<Rightarrow> string \<Rightarrow> string \<Rightarrow> string \<Rightarrow> string \<Rightarrow> grec" where
  "new_invitation_record oo cx sd org email role team =
     [(''id'', VStr (cx_fresh cx ''invitation-id'')), (''organizationId'', VStr org), (''email'', VStr email),
      (''role'', VStr role), (''status'', VStr ''pending''), (''teamId'', VStr team), (''inviterId'', VStr (u_id (sd_user sd))),
      (''expiresAt'', VTime (time_add (cx_now cx) (oo_invite_ttl oo))), (''createdAt'', VTime (cx_now cx))]"

definition write_invitation :: "'s auth \<Rightarrow> org_options \<Rightarrow> req_ctx \<Rightarrow> session_data \<Rightarrow> string \<Rightarrow> string \<Rightarrow> string \<Rightarrow> string \<Rightarrow> grec option \<Rightarrow> ('s world, grec) act" where
  "write_invitation au oo cx sd org email role team earlier =
     (case earlier of
        Some old \<Rightarrow> db (ad_update (au_db au) model_invitation [W ''id'' (rget old ''id'')]
          [(''expiresAt'', VTime (time_add (cx_now cx) (oo_invite_ttl oo))), (''role'', VStr role)])
      | None \<Rightarrow>
          (let rec = new_invitation_record oo cx sd org email role team in
           bind (db (ad_create (au_db au) model_invitation rec)) (\<lambda>_. ret rec)))"

definition mail_invitation :: "'s auth \<Rightarrow> org_options \<Rightarrow> session_data \<Rightarrow> string \<Rightarrow> invitation \<Rightarrow> ('s world, unit) act" where
  "mail_invitation au oo sd org iv =
     (case oo_send oo of
        None \<Rightarrow> ret ()
      | Some send \<Rightarrow>
          attempt (db (find_org (au_db au) org)) (\<lambda>r.
          bind (send_mail send \<lparr>ml_kind = ''organization-invitation'', ml_user = sd_user sd, ml_to = iv_email iv, ml_path = '''',
                  ml_query = (case r of Inl _ \<Rightarrow> [] | Inr rec \<Rightarrow> [(''organization'', og_id (org_from_map rec))]),
                  ml_token = iv_id iv, ml_new_email = ''''\<rparr>) (\<lambda>_. ret ())))"

definition handle_invite ::
  "'s auth \<Rightarrow> org_options \<Rightarrow> req_ctx \<Rightarrow> session_data result \<Rightarrow> invite_body option \<Rightarrow> ('s world, org_reply) act" where
  "handle_invite au oo cx sess body =
     bind (require_session sess) (\<lambda>sd.
     bind (need_body body) (\<lambda>b.
     bind (check (validate_email (ib_email b))) (\<lambda>_.
     bind (check (invite_role_error (role_to_invite b))) (\<lambda>_.
     bind (need_org sd (ib_org b)) (\<lambda>org.
     bind (require_role au org sd [role_owner, role_admin]) (\<lambda>_.
     (let email = normalize_email (ib_email b) in
      bind (is_member au org email) (\<lambda>already.
      bind (check (if already then Some (ApiError 400 ''USER_ALREADY_A_MEMBER'') else None)) (\<lambda>_.
      bind (need_room au oo org) (\<lambda>_.
      bind (earlier_invitation au org email (ib_resend b)) (\<lambda>earlier.
      bind (need_team au oo org (ib_team b)) (\<lambda>_.
      bind (write_invitation au oo cx sd org email (role_to_invite b) (ib_team b) earlier) (\<lambda>rec.
      bind (mail_invitation au oo sd org (invitation_from_map rec)) (\<lambda>_.
      ret (InvitationShown (invitation_from_map rec))))))))))))))))"

section \<open>Answering an invitation\<close>

definition invitation_error :: "req_ctx \<Rightarrow> user \<Rightarrow> invitation \<Rightarrow> gerror option" where
  "invitation_error cx u iv =
     (if iv_status iv \<noteq> ''pending'' \<or> iv_expires iv < cx_now cx then Some err_invitation_expired
      else if \<not> equal_fold (iv_email iv) (u_email u) then Some (ApiError 403 ''NOT_YOUR_INVITATION'')
      else if \<not> u_email_verified u then Some err_email_not_verified
      else None)"

definition invitation_row :: "'s auth \<Rightarrow> string \<Rightarrow> ('s world, invitation) act" where
  "invitation_row au i =
     attempt (db (query (ad_find_one (au_db au) model_invitation [W ''id'' (VStr i)]))) (\<lambda>r. case r of
       Inl _ \<Rightarrow> fail (ApiError 404 ''INVITATION_NOT_FOUND'')
     | Inr rec \<Rightarrow> ret (invitation_from_map rec))"

definition load_invitation :: "'s auth \<Rightarrow> req_ctx \<Rightarrow> session_data \<Rightarrow> string \<Rightarrow> ('s world, invitation) act" where
  "load_invitation au cx sd i =
     bind (invitation_row au i) (\<lambda>iv.
     bind (check (invitation_error cx (sd_user sd) iv)) (\<lambda>_. ret iv))"

text \<open>The transition out of \<open>pending\<close>: how many rows made it.\<close>

definition claim_invitation :: "'s adapter \<Rightarrow> invitation \<Rightarrow> ('s, nat) act" where
  "claim_invitation A iv =
     ad_update_many A model_invitation [W ''id'' (VStr (iv_id iv)), W ''status'' (VStr ''pending'')] [(''status'', VStr ''accepted'')]"

definition join_org :: "'s auth \<Rightarrow> org_options \<Rightarrow> req_ctx \<Rightarrow> session_data \<Rightarrow> invitation \<Rightarrow> ('s world, org_reply) act" where
  "join_org au oo cx sd iv =
     (let uid = u_id (sd_user sd); rec = new_member_record cx (iv_org iv) uid (iv_role iv) in
      attempt (db (ad_create (au_db au) model_member rec)) (\<lambda>r. case r of
        Inl e \<Rightarrow>
          if is_unique_violation e then fail err_already_member
          else bind (ignore (db (ad_update_many (au_db au) model_invitation [W ''id'' (VStr (iv_id iv))]
                       [(''status'', VStr ''pending'')]))) (\<lambda>_. fail e)
      | Inr _ \<Rightarrow>
          bind (if oo_teams oo \<and> iv_team iv \<noteq> ''''
                then ignore (db (ad_create (au_db au) model_team_member
                  [(''id'', VStr (cx_fresh cx ''team-member-id'')), (''teamId'', VStr (iv_team iv)), (''userId'', VStr uid),
                   (''createdAt'', VTime (cx_now cx))]))
                else ret ()) (\<lambda>_.
          bind (ignore (set_active au cx sd (iv_org iv))) (\<lambda>_.
          ret (Joined iv (member_from_map rec))))))"

definition handle_accept ::
  "'s auth \<Rightarrow> org_options \<Rightarrow> req_ctx \<Rightarrow> session_data result \<Rightarrow> string option \<Rightarrow> ('s world, org_reply) act" where
  "handle_accept au oo cx sess body =
     bind (require_session sess) (\<lambda>sd.
     bind (need_body body) (\<lambda>i.
     bind (load_invitation au cx sd i) (\<lambda>iv.
     attempt (db (membership (au_db au) (iv_org iv) (u_id (sd_user sd)))) (\<lambda>r.
     if is_ok r then fail err_already_member
     else bind (need_room au oo (iv_org iv)) (\<lambda>_.
          bind (db (claim_invitation (au_db au) iv)) (\<lambda>n.
          if n = 0 then fail err_invitation_expired else join_org au oo cx sd iv))))))"

definition end_invitation :: "'s auth \<Rightarrow> invitation \<Rightarrow> string \<Rightarrow> ('s world, org_reply) act" where
  "end_invitation au iv status =
     bind (db (ad_update (au_db au) model_invitation [W ''id'' (VStr (iv_id iv))] [(''status'', VStr status)])) (\<lambda>_. ret OrgDone)"

definition handle_reject :: "'s auth \<Rightarrow> req_ctx \<Rightarrow> session_data result \<Rightarrow> string option \<Rightarrow> ('s world, org_reply) act" where
  "handle_reject au cx sess body =
     bind (require_session sess) (\<lambda>sd.
     bind (need_body body) (\<lambda>i.
     bind (load_invitation au cx sd i) (\<lambda>iv.
     end_invitation au iv ''rejected'')))"

definition handle_cancel :: "'s auth \<Rightarrow> session_data result \<Rightarrow> string option \<Rightarrow> ('s world, org_reply) act" where
  "handle_cancel au sess body =
     bind (require_session sess) (\<lambda>sd.
     bind (need_body body) (\<lambda>i.
     bind (invitation_row au i) (\<lambda>iv.
     bind (require_role au (iv_org iv) sd [role_owner, role_admin]) (\<lambda>_.
     end_invitation au iv ''canceled''))))"

definition handle_get_invitation :: "'s auth \<Rightarrow> req_ctx \<Rightarrow> session_data result \<Rightarrow> string \<Rightarrow> ('s world, org_reply) act" where
  "handle_get_invitation au cx sess i =
     bind (require_session sess) (\<lambda>sd.
     if i = '''' then fail err_invalid_body
     else bind (load_invitation au cx sd i) (\<lambda>iv.
          attempt (db (find_org (au_db au) (iv_org iv))) (\<lambda>org.
          attempt (db (find_user_by_id (au_db au) (iv_inviter iv))) (\<lambda>inviter.
          ret (InvitationDetails iv
                (case org of Inl _ \<Rightarrow> None | Inr rec \<Rightarrow> Some (rget rec ''name'', rget rec ''slug''))
                (case inviter of Inl _ \<Rightarrow> None | Inr u \<Rightarrow> Some (u_email u)))))))"

definition handle_list_invitations :: "'s auth \<Rightarrow> session_data result \<Rightarrow> string \<Rightarrow> ('s world, org_reply) act" where
  "handle_list_invitations au sess org_param =
     bind (require_session sess) (\<lambda>sd.
     bind (need_org sd org_param) (\<lambda>org.
     bind (require_role au org sd [role_owner, role_admin]) (\<lambda>_.
     bind (db (query (ad_find_many (au_db au) model_invitation [W ''organizationId'' (VStr org)] None))) (\<lambda>rs.
     ret (InvitationList (map invitation_from_map rs))))))"

section \<open>Members\<close>

record member_body =
  me_member :: string
  me_org :: string

definition member_row :: "'s adapter \<Rightarrow> string \<Rightarrow> string \<Rightarrow> ('s, grec) act" where
  "member_row A org i = query (ad_find_one A model_member [W ''organizationId'' (VStr org), W ''id'' (VStr i)])"

definition err_member_not_found :: gerror where "err_member_not_found = ApiError 404 ''MEMBER_NOT_FOUND''"

text \<open>By id, else by the address of the user.\<close>

definition find_member :: "'s auth \<Rightarrow> string \<Rightarrow> string \<Rightarrow> ('s world, member) act" where
  "find_member au org key =
     attempt (db (member_row (au_db au) org key)) (\<lambda>r. case r of
       Inr rec \<Rightarrow> ret (member_from_map rec)
     | Inl _ \<Rightarrow>
         attempt (db (find_user_by_email (au_db au) key)) (\<lambda>r. case r of
           Inl _ \<Rightarrow> fail err_member_not_found
         | Inr u \<Rightarrow> attempt (db (membership (au_db au) org (u_id u))) (\<lambda>r. case r of
             Inl _ \<Rightarrow> fail err_member_not_found
           | Inr m \<Rightarrow> ret m)))"

definition removal_error :: "member \<Rightarrow> member \<Rightarrow> string \<Rightarrow> gerror option" where
  "removal_error actor target uid =
     (if mb_role target = role_owner \<and> mb_role actor \<noteq> role_owner then Some (ApiError 403 ''CANNOT_REMOVE_OWNER'')
      else if mb_user target = uid then Some (ApiError 400 ''CANNOT_REMOVE_YOURSELF'')
      else None)"

definition handle_remove_member :: "'s auth \<Rightarrow> session_data result \<Rightarrow> member_body option \<Rightarrow> ('s world, org_reply) act" where
  "handle_remove_member au sess body =
     bind (require_session sess) (\<lambda>sd.
     bind (need_body body) (\<lambda>b.
     bind (need_org sd (me_org b)) (\<lambda>org.
     bind (require_role au org sd [role_owner, role_admin]) (\<lambda>actor.
     bind (find_member au org (me_member b)) (\<lambda>target.
     bind (check (removal_error actor target (u_id (sd_user sd)))) (\<lambda>_.
     bind (db (ad_delete (au_db au) model_member [W ''id'' (VStr (mb_id target))])) (\<lambda>_.
     ret (MemberShown target))))))))"

record role_body =
  rb_member :: string
  rb_role :: string
  rb_org :: string

definition role_change_error :: "member \<Rightarrow> member \<Rightarrow> string \<Rightarrow> gerror option" where
  "role_change_error actor target role =
     (if (mb_role target = role_owner \<or> role = role_owner) \<and> mb_role actor \<noteq> role_owner then Some err_insufficient else None)"

definition handle_update_role :: "'s auth \<Rightarrow> session_data result \<Rightarrow> role_body option \<Rightarrow> ('s world, org_reply) act" where
  "handle_update_role au sess body =
     bind (require_session sess) (\<lambda>sd.
     bind (need_body body) (\<lambda>b.
     bind (check (if rb_role b \<notin> {role_owner, role_admin, role_member} then Some err_invalid_role else None)) (\<lambda>_.
     bind (need_org sd (rb_org b)) (\<lambda>org.
     bind (require_role au org sd [role_owner, role_admin]) (\<lambda>actor.
     attempt (db (member_row (au_db au) org (rb_member b))) (\<lambda>r. case r of
       Inl _ \<Rightarrow> fail err_member_not_found
     | Inr rec \<Rightarrow>
         (let target = member_from_map rec in
          bind (check (role_change_error actor target (rb_role b))) (\<lambda>_.
          bind (db (ad_update (au_db au) model_member [W ''id'' (VStr (mb_id target))] [(''role'', VStr (rb_role b))])) (\<lambda>rec'.
          ret (MemberShown (member_from_map rec')))))))))))"

definition handle_active_member :: "'s auth \<Rightarrow> session_data result \<Rightarrow> ('s world, org_reply) act" where
  "handle_active_member au sess =
     bind (require_session sess) (\<lambda>sd.
     if active_org sd '''' = '''' then ret OrgNone
     else attempt (db (membership (au_db au) (active_org sd '''') (u_id (sd_user sd)))) (\<lambda>r. case r of
       Inl _ \<Rightarrow> ret OrgNone | Inr m \<Rightarrow> ret (MemberShown m)))"

definition may_leave :: "'s auth \<Rightarrow> string \<Rightarrow> member \<Rightarrow> ('s world, unit) act" where
  "may_leave au org m =
     (if mb_role m = role_owner
      then bind (db (query (ad_count (au_db au) model_member [W ''organizationId'' (VStr org), W ''role'' (VStr role_owner)]))) (\<lambda>n.
           check (if n \<le> 1 then Some (ApiError 400 ''CANNOT_LEAVE_AS_ONLY_OWNER'') else None))
      else ret ())"

definition handle_leave :: "'s auth \<Rightarrow> req_ctx \<Rightarrow> session_data result \<Rightarrow> string option \<Rightarrow> ('s world, org_reply) act" where
  "handle_leave au cx sess body =
     bind (require_session sess) (\<lambda>sd.
     bind (need_body body) (\<lambda>b.
     bind (need_org sd b) (\<lambda>org.
     bind (require_role au org sd []) (\<lambda>m.
     bind (may_leave au org m) (\<lambda>_.
     bind (db (ad_delete (au_db au) model_member [W ''id'' (VStr (mb_id m))])) (\<lambda>_.
     bind (ignore (set_active au cx sd '''')) (\<lambda>_.
     ret OrgDone)))))))"

section \<open>Teams\<close>

record team_body =
  te_name :: string
  te_org :: string

definition handle_create_team :: "'s auth \<Rightarrow> req_ctx \<Rightarrow> session_data result \<Rightarrow> team_body option \<Rightarrow> ('s world, org_reply) act" where
  "handle_create_team au cx sess body =
     bind (require_session sess) (\<lambda>sd.
     bind (need_body body) (\<lambda>b.
     bind (check (if te_name b = '''' then Some err_invalid_body else None)) (\<lambda>_.
     bind (need_org sd (te_org b)) (\<lambda>org.
     bind (require_role au org sd [role_owner, role_admin]) (\<lambda>_.
     (let rec = [(''id'', VStr (cx_fresh cx ''team-id'')), (''organizationId'', VStr org), (''name'', VStr (te_name b)),
                 (''createdAt'', VTime (cx_now cx))] in
      bind (db (ad_create (au_db au) model_team rec)) (\<lambda>_. ret (TeamShown rec))))))))"

record team_id_body =
  ti_team :: string
  ti_org :: string

definition handle_remove_team :: "'s auth \<Rightarrow> session_data result \<Rightarrow> team_id_body option \<Rightarrow> ('s world, org_reply) act" where
  "handle_remove_team au sess body =
     bind (require_session sess) (\<lambda>sd.
     bind (need_body body) (\<lambda>b.
     bind (need_org sd (ti_org b)) (\<lambda>org.
     bind (require_role au org sd [role_owner, role_admin]) (\<lambda>_.
     attempt (db (query (ad_find_one (au_db au) model_team [W ''id'' (VStr (ti_team b)), W ''organizationId'' (VStr org)])))
       (\<lambda>r. case r of
         Inl _ \<Rightarrow> fail (ApiError 404 ''TEAM_NOT_FOUND'')
       | Inr _ \<Rightarrow>
           bind (ignore (db (ad_delete_many (au_db au) model_team_member [W ''teamId'' (VStr (ti_team b))]))) (\<lambda>_.
           bind (db (ad_delete (au_db au) model_team [W ''id'' (VStr (ti_team b))])) (\<lambda>_.
           ret OrgDone)))))))"

definition handle_list_teams :: "'s auth \<Rightarrow> session_data result \<Rightarrow> string \<Rightarrow> ('s world, org_reply) act" where
  "handle_list_teams au sess org_param =
     bind (require_session sess) (\<lambda>sd.
     bind (need_org sd org_param) (\<lambda>org.
     bind (require_role au org sd []) (\<lambda>_.
     bind (db (query (ad_find_many (au_db au) model_team [W ''organizationId'' (VStr org)] None))) (\<lambda>rs.
     ret (TeamList rs)))))"

section \<open>Requests\<close>

text \<open>The endpoints as the router calls them; those of teams exist where teams do.\<close>

datatype org_call =
    CallCreate "create_org_body option"
  | CallUpdate "update_org_body option"
  | CallDelete "string option"
  | CallList
  | CallSetActive "set_active_body option"
  | CallGetFull string string
  | CallCheckSlug "string option"
  | CallInvite "invite_body option"
  | CallAccept "string option"
  | CallReject "string option"
  | CallCancel "string option"
  | CallGetInvitation string
  | CallListInvitations string
  | CallRemoveMember "member_body option"
  | CallUpdateRole "role_body option"
  | CallActiveMember
  | CallLeave "string option"
  | CallCreateTeam "team_body option"
  | CallRemoveTeam "team_id_body option"
  | CallListTeams string

fun org_run :: "'s auth \<Rightarrow> org_options \<Rightarrow> req_ctx \<Rightarrow> session_data result \<Rightarrow> org_call \<Rightarrow> ('s world, org_reply) act" where
  "org_run au oo cx sess (CallCreate b) = handle_create_org au oo cx sess b"
| "org_run au oo cx sess (CallUpdate b) = handle_update_org au cx sess b"
| "org_run au oo cx sess (CallDelete b) = handle_delete_org au oo sess b"
| "org_run au oo cx sess CallList = handle_list_orgs au sess"
| "org_run au oo cx sess (CallSetActive b) = handle_set_active au cx sess b"
| "org_run au oo cx sess (CallGetFull org slug) = handle_get_full au oo sess org slug"
| "org_run au oo cx sess (CallCheckSlug b) = handle_check_slug au cx sess b"
| "org_run au oo cx sess (CallInvite b) = handle_invite au oo cx sess b"
| "org_run au oo cx sess (CallAccept b) = handle_accept au oo cx sess b"
| "org_run au oo cx sess (CallReject b) = handle_reject au cx sess b"
| "org_run au oo cx sess (CallCancel b) = handle_cancel au sess b"
| "org_run au oo cx sess (CallGetInvitation i) = handle_get_invitation au cx sess i"
| "org_run au oo cx sess (CallListInvitations org) = handle_list_invitations au sess org"
| "org_run au oo cx sess (CallRemoveMember b) = handle_remove_member au sess b"
| "org_run au oo cx sess (CallUpdateRole b) = handle_update_role au sess b"
| "org_run au oo cx sess CallActiveMember = handle_active_member au sess"
| "org_run au oo cx sess (CallLeave b) = handle_leave au cx sess b"
| "org_run au oo cx sess (CallCreateTeam b) = (if oo_teams oo then handle_create_team au cx sess b else fail (ApiError 404 ''NOT_FOUND''))"
| "org_run au oo cx sess (CallRemoveTeam b) = (if oo_teams oo then handle_remove_team au sess b else fail (ApiError 404 ''NOT_FOUND''))"
| "org_run au oo cx sess (CallListTeams org) = (if oo_teams oo then handle_list_teams au sess org else fail (ApiError 404 ''NOT_FOUND''))"

section \<open>Simulation\<close>

lemma ghas_fields:
  "\<not> ghas [] k" "ghas (p # m) k \<longleftrightarrow> fst p = k \<or> ghas m k" "ghas (a @ b) k \<longleftrightarrow> ghas a k \<or> ghas b k"
  "ghas (string_field f raw) k \<Longrightarrow> f = k"
  by (auto simp: ghas_iff string_field_def split: option.splits gval.splits)


context storage_contract
begin

lemma org_lookup_sims:
  assumes db: "au_db au = A"
  shows "sim (wmap \<alpha>) (winv I) (need_org sd x) (need_org sd x)"
    and "sim (wmap \<alpha>) (winv I) (require_role au org sd rs) (require_role (on_spec au) org sd rs)"
    and "sim (wmap \<alpha>) (winv I) (need_free_slug au slug own) (need_free_slug (on_spec au) slug own)"
    and "sim (wmap \<alpha>) (winv I) (org_of_slug au slug) (org_of_slug (on_spec au) slug)"
    and "sim (wmap \<alpha>) (winv I) (set_active au cx sd org) (set_active (on_spec au) cx sd org)"
    and "sim (wmap \<alpha>) (winv I) (may_create au oo sess cb) (may_create (on_spec au) oo sess cb)"
    and "sim (wmap \<alpha>) (winv I) (members_of au oo org) (members_of (on_spec au) oo org)"
    and "sim (wmap \<alpha>) (winv I) (pending_invitations au org m) (pending_invitations (on_spec au) org m)"
    and "sim (wmap \<alpha>) (winv I) (is_member au org e) (is_member (on_spec au) org e)"
    and "sim (wmap \<alpha>) (winv I) (need_room au oo org) (need_room (on_spec au) oo org)"
    and "sim (wmap \<alpha>) (winv I) (earlier_invitation au org e b) (earlier_invitation (on_spec au) org e b)"
    and "sim (wmap \<alpha>) (winv I) (need_team au oo org t) (need_team (on_spec au) oo org t)"
    and "sim (wmap \<alpha>) (winv I) (load_invitation au cx sd i) (load_invitation (on_spec au) cx sd i)"
    and "sim (wmap \<alpha>) (winv I) (invitation_row au i) (invitation_row (on_spec au) i)"
    and "sim (wmap \<alpha>) (winv I) (find_member au org k) (find_member (on_spec au) org k)"
    and "sim (wmap \<alpha>) (winv I) (may_leave au org m) (may_leave (on_spec au) org m)"
    and "sim \<alpha> I (membership A org uid) (membership spec_adapter org uid)"
    and "sim \<alpha> I (find_org A i) (find_org spec_adapter i)"
    and "sim \<alpha> I (member_row A org i) (member_row spec_adapter org i)"
  unfolding need_org_def require_role_def membership_def need_free_slug_def find_by_slug_def org_of_slug_def set_active_def
    may_create_def members_of_def pending_invitations_def is_member_def need_room_def earlier_invitation_def need_team_def
    load_invitation_def invitation_row_def find_member_def member_row_def may_leave_def find_org_def Let_def db on_spec_sel
  by (auto intro!: sim_intros store_sims storage_sims simp: ghas_def split: option.splits)

lemma org_write_sims:
  assumes db: "au_db au = A" and "''status'' \<notin> set (uniq_in S model_invitation)"
  shows "sim (wmap \<alpha>) (winv I) (create_org au oo cx sd b) (create_org (on_spec au) oo cx sd b)"
    and "sim (wmap \<alpha>) (winv I) (purge_org au oo org) (purge_org (on_spec au) oo org)"
    and "sim (wmap \<alpha>) (winv I) (write_invitation au oo cx sd org e role t old) (write_invitation (on_spec au) oo cx sd org e role t old)"
    and "sim (wmap \<alpha>) (winv I) (mail_invitation au oo sd org iv) (mail_invitation (on_spec au) oo sd org iv)"
    and "sim (wmap \<alpha>) (winv I) (join_org au oo cx sd iv) (join_org (on_spec au) oo cx sd iv)"
    and "sim (wmap \<alpha>) (winv I) (end_invitation au iv status) (end_invitation (on_spec au) iv status)"
    and "sim \<alpha> I (claim_invitation A iv) (claim_invitation spec_adapter iv)"
  using assms(2) unfolding create_org_def purge_org_def delete_teams_def write_invitation_def mail_invitation_def join_org_def
    end_invitation_def claim_invitation_def new_org_record_def new_member_record_def new_invitation_record_def Let_def db on_spec_sel
  by (auto intro!: sim_intros storage_sims org_lookup_sims[OF db] simp: has_str_id_def ghas_fields split: option.splits split del: if_split)

lemma org_run_sim:
  assumes db: "au_db au = A" and u: "''status'' \<notin> set (uniq_in S model_invitation)"
  shows "sim (wmap \<alpha>) (winv I) (org_run au oo cx sess call) (org_run (on_spec au) oo cx sess call)"
proof (cases call)
  case (CallUpdate b)
  then show ?thesis
    by (simp only: org_run.simps handle_update_org_def Let_def db on_spec_sel)
      (intro sim_intros store_sims storage_sims org_lookup_sims[OF db]; auto intro!: update_sim simp: ghas_fields dest: ghas_fields(4))
qed (simp_all only: org_run.simps handle_create_org_def handle_delete_org_def handle_list_orgs_def handle_set_active_def handle_get_full_def
    handle_check_slug_def handle_invite_def handle_accept_def handle_reject_def handle_cancel_def handle_get_invitation_def
    handle_list_invitations_def handle_remove_member_def handle_update_role_def handle_active_member_def handle_leave_def
    handle_create_team_def handle_remove_team_def handle_list_teams_def Let_def db on_spec_sel,
  (auto intro!: sim_intros store_sims storage_sims org_lookup_sims[OF db] org_write_sims[OF db u] simp: ghas_fields has_str_id_def split del: if_split)+)

end

end
