(* ===== verification/Organization_Laws.thy ===== *)
theory Organization_Laws
  imports Organization_Members Row_Steps Demo
begin

text \<open>
  Who may change who belongs to an organization. Every endpoint first reads and then
  writes; the rules of the first section walk along the reading part at a fixed state.
\<close>

section \<open>Reading first\<close>

interpretation still: step_order "(=) :: 's \<Rightarrow> 's \<Rightarrow> bool"
  by unfold_locales auto

abbreviation reads :: "('s, 'a) act \<Rightarrow> bool" where "reads f \<equiv> moves (=) f"

named_theorems read_intros \<open>rules that build reading actions\<close>
declare still.rules [read_intros]

lemma reads_db [read_intros]: "reads f \<Longrightarrow> reads (db f)"
  by (simp add: moves_def)

lemma reads_small [read_intros]:
  "reads (require_session s)" "reads (need_body b)" "reads (check x)" "reads (need_org sd org)"
  "reads (find_user_by_email A e)" "reads (find_user_by_id A i)" "reads (membership A org uid)"
  "reads (find_org A i)" "reads (find_by_slug A slug)" "reads (member_row A org i)"
  unfolding require_session_def need_body_def check_def need_org_def find_user_by_email_def find_user_by_id_def membership_def
    find_org_def find_by_slug_def member_row_def
  by (auto intro!: read_intros)

lemma reads_org [read_intros]:
  "reads (require_role au org sd rs)" "reads (need_free_slug au slug own)" "reads (org_of_slug au slug)" "reads (may_create au oo sess cb)"
  "reads (members_of au oo org)" "reads (pending_invitations au org m)" "reads (is_member au org e)" "reads (need_room au oo org)"
  "reads (earlier_invitation au org e b)" "reads (need_team au oo org t)" "reads (load_invitation au cx sd i)"
  "reads (invitation_row au i)" "reads (find_member au org k)" "reads (may_leave au org m)"
  unfolding require_role_def need_free_slug_def org_of_slug_def may_create_def members_of_def pending_invitations_def is_member_def
    need_room_def earlier_invitation_def need_team_def load_invitation_def invitation_row_def find_member_def may_leave_def Let_def
  by (auto intro!: read_intros)

text \<open>The rule for a step that reads: what it found is known of the state it started in.\<close>

lemma from_bind:
  assumes "reads f" and "R w w" and "\<And>x. f w = (w, Inr x) \<Longrightarrow> R w (fst (k x w))"
  shows "R w (fst (bind f k w))"
  using assms(2,3) movesD[OF assms(1), of w] by (cases "f w") (auto simp: bind_def split: sum.splits)

lemma from_attempt:
  assumes "reads f" and "\<And>x. f w = (w, x) \<Longrightarrow> R w (fst (k x w))"
  shows "R w (fst (attempt f k w))"
  using assms(2) movesD[OF assms(1), of w] by (cases "f w") (auto simp: attempt_def)

section \<open>The store\<close>

definition org_schema :: "schema \<Rightarrow> bool" where
  "org_schema sc \<longleftrightarrow> wf_schema sc \<and> map_of (sc_tables sc) model_organization = Some organization_table
     \<and> map_of (sc_tables sc) model_member = Some member_table \<and> map_of (sc_tables sc) model_invitation = Some invitation_table"

definition org_db :: "sdb \<Rightarrow> bool" where
  "org_db d \<longleftrightarrow> sdb_inv d \<and> sd_table d model_member = Some member_table"

lemma org_db_mem: "org_schema sc \<Longrightarrow> mem_inv (Some sc) s \<Longrightarrow> org_db (mem_abs s)"
  by (simp add: org_db_def org_schema_def mem_inv_abs mem_table_def schema_table_def mem_inv_schema)

lemma org_uniq: "org_schema sc \<Longrightarrow> ''status'' \<notin> set (uniq_in (Some sc) model_invitation)"
  by (simp add: org_schema_def uniq_in_def schema_table_def uniq_of_def unique_fields_def invitation_table_def id_column_def col_def)

lemma member_defaults [simp]: "apply_defaults member_table r = r"
  by (simp add: apply_defaults_def member_table_def id_column_def col_def)

lemma found_row:
  "spec_find_one m ws d = Inr r \<Longrightarrow> r \<in> set (sd_rows d m) \<and> matches r ws"
  by (auto simp: spec_find_one_def dest: find_in split: option.splits)

section \<open>What may happen to memberships\<close>

type_synonym tables = "string \<Rightarrow> grec list"

text \<open>A user who may act on a member with this role: an owner, or an admin if it is not an owner's.\<close>

definition has_power :: "tables \<Rightarrow> user \<Rightarrow> string \<Rightarrow> string \<Rightarrow> bool" where
  "has_power T u org role \<longleftrightarrow> (\<exists>a\<in>set (T model_member). mb_user (member_from_map a) = u_id u \<and> mb_org (member_from_map a) = org
     \<and> (mb_role (member_from_map a) = role_owner \<or> mb_role (member_from_map a) = role_admin \<and> role \<noteq> role_owner))"

text \<open>The user becomes the first member of an organization made in this request.\<close>

definition founded :: "tables \<Rightarrow> tables \<Rightarrow> user \<Rightarrow> string \<Rightarrow> grec \<Rightarrow> bool" where
  "founded T T' u role r \<longleftrightarrow> mb_user (member_from_map r) = u_id u \<and> mb_role (member_from_map r) = role
     \<and> (\<exists>g\<in>set (T' model_organization). rget g ''id'' = VStr (mb_org (member_from_map r)))
     \<and> (\<forall>g\<in>set (T model_organization). rget g ''id'' \<noteq> VStr (mb_org (member_from_map r)))"

text \<open>The user was invited, at an address known to be theirs, for this role, and not too long ago.\<close>

definition invited :: "tables \<Rightarrow> user \<Rightarrow> gtime \<Rightarrow> grec \<Rightarrow> bool" where
  "invited T u now r \<longleftrightarrow> mb_user (member_from_map r) = u_id u \<and> u_email_verified u
     \<and> (\<exists>q\<in>set (T model_invitation). let iv = invitation_from_map q in iv_org iv = mb_org (member_from_map r)
          \<and> iv_role iv = mb_role (member_from_map r) \<and> iv_status iv = ''pending'' \<and> now \<le> iv_expires iv
          \<and> equal_fold (iv_email iv) (u_email u))"

text \<open>Somebody with power over the old and the new role changed it.\<close>

definition changed :: "tables \<Rightarrow> user \<Rightarrow> grec \<Rightarrow> bool" where
  "changed T u r \<longleftrightarrow> (\<exists>old\<in>set (T model_member). \<exists>role\<in>{role_owner, role_admin, role_member}. r = gmerge old [(''role'', VStr role)]
     \<and> has_power T u (mb_org (member_from_map old)) (mb_role (member_from_map old)) \<and> has_power T u (mb_org (member_from_map old)) role)"

definition by_right :: "user \<Rightarrow> gtime \<Rightarrow> string \<Rightarrow> tables \<Rightarrow> tables \<Rightarrow> bool" where
  "by_right u now creator T T' \<longleftrightarrow>
     (\<forall>r\<in>set (T' model_member). r \<in> set (T model_member) \<or> founded T T' u creator r \<or> invited T u now r \<or> changed T u r) \<and>
     (\<forall>r\<in>set (T model_member). r \<in> set (T' model_member)
        \<or> mb_user (member_from_map r) = u_id u \<or> has_power T u (mb_org (member_from_map r)) (mb_role (member_from_map r)))"

lemma by_rightI:
  assumes "\<And>r. r \<in> set (T' model_member) \<Longrightarrow> r \<in> set (T model_member) \<or> founded T T' u creator r \<or> invited T u now r \<or> changed T u r"
    and "\<And>r. r \<in> set (T model_member) \<Longrightarrow> r \<notin> set (T' model_member) \<Longrightarrow>
      mb_user (member_from_map r) = u_id u \<or> has_power T u (mb_org (member_from_map r)) (mb_role (member_from_map r))"
  shows "by_right u now creator T T'"
  using assms unfolding by_right_def by blast

lemma by_right_same: "T' model_member = T model_member \<Longrightarrow> by_right u now creator T T'"
  by (auto simp: by_right_def)

lemma by_right_only: "same_rows M d d' \<Longrightarrow> model_member \<notin> M \<Longrightarrow> by_right u now creator (sd_rows d) (sd_rows d')"
  by (rule by_right_same) (simp add: same_rows_def)

lemma by_right_later:
  "by_right u now creator T (sd_rows d) \<Longrightarrow> same_rows M d d' \<Longrightarrow> model_member \<notin> M \<Longrightarrow> model_organization \<notin> M
   \<Longrightarrow> by_right u now creator T (sd_rows d')"
  by (simp add: by_right_def founded_def same_rows_def)

section \<open>What the lookups find\<close>

abbreviation trows :: "sdb world \<Rightarrow> tables" where "trows w \<equiv> sd_rows (w_db w)"

lemma db_result: "db f w = (w', r) \<Longrightarrow> f (w_db w) = (w_db w', r)"
  by (auto simp: db_def split: prod.splits)

lemma membership_ok:
  "membership spec_adapter org uid d = (d', Inr m) \<Longrightarrow>
   \<exists>a\<in>set (sd_rows d model_member). m = member_from_map a \<and> mb_org m = org \<and> mb_user m = uid"
  by (auto simp: membership_def bind_query member_from_map_def split: sum.splits dest!: found_row)

lemma role_ok:
  assumes "au_db au = spec_adapter" and "require_role au org sd rs w = (w', Inr m)"
  shows "\<exists>a\<in>set (trows w model_member). m = member_from_map a \<and> mb_org m = org \<and> mb_user m = u_id (sd_user sd)
    \<and> (rs = [] \<or> mb_role m \<in> set rs)"
  using assms by (auto simp: require_role_def attempt_db split: prod.splits sum.splits if_splits dest!: membership_ok)

lemma power_of:
  assumes "au_db au = spec_adapter" and "require_role au org sd rs w = (w', Inr m)"
    and "mb_role m = role_owner \<or> mb_role m = role_admin \<and> role \<noteq> role_owner"
  shows "has_power (trows w) (sd_user sd) org role"
  using role_ok[OF assms(1,2)] assms(3) unfolding has_power_def by blast

lemma member_row_ok:
  "member_row spec_adapter org i d = (d', Inr r) \<Longrightarrow> r \<in> set (sd_rows d model_member) \<and> mb_org (member_from_map r) = org"
  by (auto simp: member_row_def member_from_map_def dest!: found_row)

lemma find_member_ok:
  assumes db: "au_db au = spec_adapter" and run: "find_member au org k w = (w', Inr m)"
  shows "\<exists>a\<in>set (trows w model_member). m = member_from_map a \<and> mb_org m = org"
proof -
  obtain r d where mr: "member_row spec_adapter org k (w_db w) = (d, r)" by force
  have d: "d = w_db w" using movesD[OF reads_small(10) mr] ..
  show ?thesis
  proof (cases r)
    case (Inr row)
    then show ?thesis using run mr db by (auto simp: find_member_def attempt_db dest!: member_row_ok)
  next
    case (Inl e)
    have "attempt (db (member_row (au_db au) org k)) h w = h (Inl e) w" for h :: "grec result \<Rightarrow> (sdb world, member) act"
      by (simp add: attempt_db db mr d Inl)
    then have "attempt (db (find_user_by_email (au_db au) k)) (\<lambda>r. case r of
           Inl _ \<Rightarrow> fail err_member_not_found
         | Inr u \<Rightarrow> attempt (db (membership (au_db au) org (u_id u))) (\<lambda>r. case r of
             Inl _ \<Rightarrow> fail err_member_not_found
           | Inr m \<Rightarrow> ret m)) w = (w', Inr m)"
      using run by (simp add: find_member_def)
    then show ?thesis
      by (auto simp: attempt_db[of "membership _ _ _"] db[symmetric] split: sum.splits prod.splits) (auto simp: db dest!: membership_ok)
  qed
qed

lemma invitation_ok:
  assumes "au_db au = spec_adapter" and "load_invitation au cx sd i w = (w', Inr iv)"
  shows "\<exists>q\<in>set (trows w model_invitation). iv = invitation_from_map q \<and> invitation_error cx (sd_user sd) iv = None"
  using assms by (auto simp: load_invitation_def invitation_row_def check_def bind_def attempt_def split: sum.splits option.splits dest!: found_row)

text \<open>A member row is told by its id.\<close>

lemma member_row_id:
  assumes "org_db d" "a \<in> set (sd_rows d model_member)"
  shows "rget a ''id'' = VStr (mb_id (member_from_map a))"
  using sdb_invD[of d model_member] assms by (auto simp: org_db_def rows_ok_def has_str_id_def rget_def member_from_map_def)

lemma check_member_id [simp]: "check_where_fields (Some member_table) [W ''id'' x] = None"
  by (simp add: check_where_fields_def unknown_keys_def has_field_def field_by_name_def member_table_def id_column_def col_def)

lemma same_member:
  assumes "org_db d" "a \<in> set (sd_rows d model_member)" "b \<in> set (sd_rows d model_member)"
    and "matches b [W ''id'' (VStr (mb_id (member_from_map a)))]"
  shows "b = a"
  using same_id_same_row[of d b model_member a] assms member_row_id[OF assms(1,2)] by (simp add: org_db_def)

section \<open>The endpoints that write members\<close>

lemma remove_row:
  assumes "org_db d" "a \<in> set (sd_rows d model_member)"
    and "mb_user (member_from_map a) = u_id u \<or> has_power (sd_rows d) u (mb_org (member_from_map a)) (mb_role (member_from_map a))"
  shows "by_right u now creator (sd_rows d) (sd_rows (fst (spec_delete model_member [W ''id'' (VStr (mb_id (member_from_map a)))] d)))"
proof -
  let ?P = "\<lambda>r. matches r [W ''id'' (VStr (mb_id (member_from_map a)))]"
  have kept: "b \<in> set (remove_first ?P (sd_rows d model_member))" if b: "b \<in> set (sd_rows d model_member)" "b \<noteq> a" for b
  proof -
    have "b \<in> set xs \<Longrightarrow> set xs \<subseteq> set (sd_rows d model_member) \<Longrightarrow> b \<in> set (remove_first ?P xs)" for xs
      by (induction xs) (use same_member[OF assms(1,2)] b in auto)
    then show ?thesis using b by blast
  qed
  have "sd_rows (fst (spec_delete model_member [W ''id'' (VStr (mb_id (member_from_map a)))] d)) model_member
      = remove_first ?P (sd_rows d model_member)"
    using assms(1) by (simp add: spec_delete_def org_db_def)
  then show ?thesis using kept assms(3) set_remove_first[of ?P "sd_rows d model_member"] unfolding by_right_def
    by (metis (no_types, lifting) subsetD)
qed

text \<open>Whatever follows in tables other than the two.\<close>

abbreviation elsewhere :: "string set" where "elsewhere \<equiv> - {model_member, model_organization}"

lemma by_right_bind:
  assumes "by_right u now creator T (trows (fst (f w)))" and "\<And>x. wonly elsewhere (k x)"
  shows "by_right u now creator T (trows (fst (bind f k w)))"
proof -
  have "same_rows elsewhere (w_db v) (w_db (fst (k x v)))" for x v
    using assms(2) by (simp add: moves_def same_world_rows_def)
  then have "by_right u now creator T (trows v) \<Longrightarrow> by_right u now creator T (trows (fst (k x v)))" for x v
    using by_right_later[where M = elsewhere, of u now creator T "w_db v" "w_db (fst (k x v))"] by simp
  then show ?thesis using assms(1) by (auto simp: bind_def split: prod.splits sum.splits)
qed

lemma by_right_attempt:
  assumes "by_right u now creator T (trows (fst (f w)))" and "\<And>x. wonly elsewhere (k x)"
  shows "by_right u now creator T (trows (fst (attempt f k w)))"
  using by_right_bind[of u now creator T "\<lambda>w. (fst (f w), Inr (snd (f w)))" w k] assms
  by (simp add: bind_def attempt_def split_beta)

lemma wonly_ignored [frame_intros]: "wonly M f \<Longrightarrow> wonly M (ignore f)"
  unfolding ignore_def by (intro frame_intros)

lemma other_models: "model_session \<in> elsewhere" "model_invitation \<in> elsewhere" "model_team_member \<in> elsewhere"
  "model_session \<noteq> model_member" "model_invitation \<noteq> model_member" "model_team \<noteq> model_member" "model_team_member \<noteq> model_member"
  "model_organization \<noteq> model_member"
  by (simp_all add: model_names model_member_def model_organization_def model_invitation_def model_team_def model_team_member_def)

lemma wonly_active [frame_intros]:
  "au_db au = spec_adapter \<Longrightarrow> model_session \<in> M \<Longrightarrow> wonly M (set_active au cx sd org)"
  unfolding set_active_def by (auto intro!: frame_intros)

lemmas walk = from_bind[where R = "\<lambda>w v. by_right u now creator (trows w) (trows v)" for u now creator, OF _ by_right_same[OF refl]]

lemma leave_fair:
  assumes au: "au_db au = spec_adapter" and d: "org_db (w_db w)"
  shows "by_right (sd_user sd) now creator (trows w) (trows (fst (handle_leave au cx (Inr sd) body w)))"
  unfolding handle_leave_def au
proof ((rule walk, (intro read_intros; fail))+, goal_cases)
  case (1 sd' b org m u)
  from 1(1) have sd: "sd' = sd" by (simp add: require_session_def)
  obtain a where a: "a \<in> set (trows w model_member)" "m = member_from_map a" "mb_user m = u_id (sd_user sd)"
    using role_ok[OF au 1(4)] unfolding sd by blast
  show ?case unfolding a(2)
  proof (rule by_right_bind)
    show "by_right (sd_user sd) now creator (trows w)
        (trows (fst (db (ad_delete spec_adapter model_member [W ''id'' (VStr (mb_id (member_from_map a)))]) w)))"
      using remove_row[OF d a(1)] a(2,3) by simp
  qed (intro frame_intros au other_models)
qed

lemma remove_fair:
  assumes au: "au_db au = spec_adapter" and d: "org_db (w_db w)"
  shows "by_right (sd_user sd) now creator (trows w) (trows (fst (handle_remove_member au (Inr sd) body w)))"
  unfolding handle_remove_member_def au
proof ((rule walk, (intro read_intros; fail))+, goal_cases)
  case (1 sd' b org actor target u)
  from 1(1) have sd: "sd' = sd" by (simp add: require_session_def)
  obtain a where a: "a \<in> set (trows w model_member)" "target = member_from_map a" "mb_org target = org"
    using find_member_ok[OF au 1(5)] by blast
  have "mb_role actor = role_owner \<or> mb_role actor = role_admin \<and> mb_role target \<noteq> role_owner"
    using role_ok[OF au 1(4)] 1(6) by (auto simp: removal_error_def check_def split: if_splits)
  from power_of[OF au 1(4) this] have p: "has_power (trows w) (sd_user sd) (mb_org target) (mb_role target)" by (simp add: sd a(3))
  show ?case unfolding a(2)
  proof (rule by_right_bind)
    show "by_right (sd_user sd) now creator (trows w)
        (trows (fst (db (ad_delete spec_adapter model_member [W ''id'' (VStr (mb_id (member_from_map a)))]) w)))"
      using remove_row[OF d a(1)] p a(2) by simp
  qed (intro frame_intros)
qed

lemma map_first_keeps: "r \<in> set xs \<Longrightarrow> \<not> P r \<Longrightarrow> r \<in> set (map_first P f xs)"
  by (induction xs) auto

lemma change_row:
  assumes d: "org_db d" and a: "a \<in> set (sd_rows d model_member)" and role: "role \<in> {role_owner, role_admin, role_member}"
    and p: "has_power (sd_rows d) u (mb_org (member_from_map a)) (mb_role (member_from_map a))"
      "has_power (sd_rows d) u (mb_org (member_from_map a)) role"
  shows "by_right u now creator (sd_rows d)
    (sd_rows (fst (spec_update model_member [W ''id'' (VStr (mb_id (member_from_map a)))] [(''role'', VStr role)] d)))"
proof -
  let ?ws = "[W ''id'' (VStr (mb_id (member_from_map a)))]" and ?f = "\<lambda>r. gmerge r [(''role'', VStr role)]"
  let ?d' = "fst (spec_update model_member ?ws [(''role'', VStr role)] d)" and ?rows = "sd_rows d model_member"
  let ?new = "map_first (\<lambda>r. matches r ?ws) ?f ?rows"
  have "sd_rows ?d' model_member = ?rows \<or> sd_rows ?d' model_member = ?new"
    by (simp add: spec_update_def split: option.splits)
  then consider "sd_rows ?d' model_member = ?rows" | (new) "sd_rows ?d' model_member = ?new" by blast
  then show ?thesis
  proof cases
    case new
    show ?thesis
    proof (rule by_rightI, unfold new)
      fix r assume "r \<in> set ?new"
      from set_map_first[OF this] consider "r \<in> set ?rows" | x where "x \<in> set ?rows" "matches x ?ws" "r = ?f x" by blast
      then show "r \<in> set ?rows \<or> founded (sd_rows d) (sd_rows ?d') u creator r \<or> invited (sd_rows d) u now r \<or> changed (sd_rows d) u r"
      proof cases
        case 2
        then have "x = a" using same_member[OF d a] by blast
        then have "changed (sd_rows d) u r" using a role p 2(3) unfolding changed_def by blast
        then show ?thesis by blast
      qed blast
    next
      fix r assume "r \<in> set ?rows" "r \<notin> set ?new"
      then have "matches r ?ws" by (auto dest: map_first_keeps[where P = "\<lambda>r. matches r ?ws" and f = ?f])
      then have "r = a" by (rule same_member[OF d a \<open>r \<in> set ?rows\<close>])
      then show "mb_user (member_from_map r) = u_id u \<or> has_power (sd_rows d) u (mb_org (member_from_map r)) (mb_role (member_from_map r))"
        using p(1) by blast
    qed
  qed (rule by_right_same)
qed

lemma update_role_fair:
  assumes au: "au_db au = spec_adapter" and d: "org_db (w_db w)"
  shows "by_right (sd_user sd) now creator (trows w) (trows (fst (handle_update_role au (Inr sd) body w)))"
  unfolding handle_update_role_def au
proof ((rule walk, (intro read_intros; fail))+, rule from_attempt, intro read_intros, goal_cases)
  case (1 sd' b u org actor r)
  from 1(1) have sd: "sd' = sd" by (simp add: require_session_def)
  show ?case
  proof (cases r)
    case (Inr a)
    let ?m = "member_from_map a"
    have a: "a \<in> set (trows w model_member)" "mb_org ?m = org"
      using member_row_ok[OF db_result[OF 1(6)[unfolded Inr]]] by auto
    have role: "rb_role b \<in> {role_owner, role_admin, role_member}" using 1(3) by (auto simp: check_def split: if_splits)
    have "by_right (sd_user sd) now creator (trows w) (trows (fst (bind (check (role_change_error actor ?m (rb_role b)))
       (\<lambda>_. bind (db (ad_update spec_adapter model_member [W ''id'' (VStr (mb_id ?m))] [(''role'', VStr (rb_role b))]))
          (\<lambda>rec'. ret (MemberShown (member_from_map rec')))) w)))"
    proof (rule walk, intro read_intros)
      fix x :: unit assume "check (role_change_error actor ?m (rb_role b)) w = (w, Inr x)"
      then have "mb_role actor = role_owner \<or> mb_role actor = role_admin \<and> mb_role ?m \<noteq> role_owner"
        "mb_role actor = role_owner \<or> mb_role actor = role_admin \<and> rb_role b \<noteq> role_owner"
        using role_ok[OF au 1(5)] by (auto simp: role_change_error_def check_def split: if_splits)
      note p = this[THEN power_of[OF au 1(5)]]
      show "by_right (sd_user sd) now creator (trows w) (trows (fst (bind (db (ad_update spec_adapter model_member
          [W ''id'' (VStr (mb_id ?m))] [(''role'', VStr (rb_role b))])) (\<lambda>rec'. ret (MemberShown (member_from_map rec'))) w)))"
      proof (rule by_right_bind)
        show "by_right (sd_user sd) now creator (trows w)
            (trows (fst (db (ad_update spec_adapter model_member [W ''id'' (VStr (mb_id ?m))] [(''role'', VStr (rb_role b))]) w)))"
          using change_row[OF d a(1) role] p by (simp add: a(2) sd)
      qed (intro frame_intros)
    qed
    then show ?thesis by (simp add: Inr Let_def)
  qed (simp add: by_right_same)
qed

lemma by_right_shrunk:
  assumes "set (T' model_member) \<subseteq> set (T model_member)"
    and "\<And>r. r \<in> set (T model_member) \<Longrightarrow> r \<notin> set (T' model_member) \<Longrightarrow> has_power T u (mb_org (member_from_map r)) (mb_role (member_from_map r))"
  shows "by_right u now creator T T'"
  using assms unfolding by_right_def by blast

abbreviation no_member :: "string set" where "no_member \<equiv> - {model_member}"

lemma other_models2: "model_session \<in> no_member" "model_invitation \<in> no_member" "model_team \<in> no_member"
  "model_team_member \<in> no_member" "model_organization \<in> no_member"
  using other_models by auto

lemma delete_fair:
  assumes au: "au_db au = spec_adapter" and d: "org_db (w_db w)"
  shows "by_right (sd_user sd) now creator (trows w) (trows (fst (handle_delete_org au oo (Inr sd) body w)))"
  unfolding handle_delete_org_def au
proof ((rule walk, (intro read_intros; fail))+, rule from_attempt, intro read_intros, goal_cases)
  case (1 sd' b org actor r)
  from 1(1) have sd: "sd' = sd" by (simp add: require_session_def)
  have power: "has_power (trows w) (sd_user sd) org role" for role
    using power_of[OF au 1(4)] role_ok[OF au 1(4)] by (auto simp: sd)
  let ?gone = "filter (\<lambda>r. \<not> matches r [W ''organizationId'' (VStr org)]) (trows w model_member)"
  have "by_right (sd_user sd) now creator (trows w) (trows (fst (bind (purge_org au oo org) k w)))"
    if k: "\<And>x. wonly no_member (k x)" for k :: "unit \<Rightarrow> (sdb world, org_reply) act"
  proof -
    let ?w = "fst (db (spec_delete_many model_member [W ''organizationId'' (VStr org)]) w)"
    have "check_where_fields (Some member_table) [W ''organizationId'' (VStr org)] = None"
      by (simp add: check_where_fields_def unknown_keys_def has_field_def field_by_name_def member_table_def id_column_def col_def)
    then have rows: "trows ?w model_member = ?gone" using d by (simp add: spec_delete_many_def org_db_def)
    let ?rest = "bind (bind (ignore (db (ad_delete_many spec_adapter model_invitation [W ''organizationId'' (VStr org)]))) (\<lambda>_.
       bind (if oo_teams oo then delete_teams au org else ret ()) (\<lambda>_.
       db (ad_delete spec_adapter model_organization [W ''id'' (VStr org)])))) k"
    have "wonly no_member ?rest"
      using k unfolding delete_teams_def au by (auto intro!: frame_intros other_models2 split del: if_split)
    then have s: "same_rows no_member (w_db ?w) (w_db (fst (?rest ?w)))" unfolding moves_def same_world_rows_def by (rule spec)
    have e: "bind (purge_org au oo org) k w = ?rest ?w"
      by (simp add: purge_org_def au bind_def[of "purge_org _ _ _"] bind_def[of "bind _ _"])
    have "trows (fst (bind (purge_org au oo org) k w)) model_member = trows ?w model_member"
      using s unfolding e same_rows_def by blast
    note gone = trans[OF this rows]
    then show ?thesis
      by (intro by_right_shrunk) (auto simp: gone member_from_map_def intro: power)
  qed
  note purged = this
  show ?case
    by (cases r; simp add: by_right_same; intro walk read_intros purged frame_intros)
qed

lemma join_fair:
  assumes au: "au_db au = spec_adapter" and d: "org_db (w_db w)" and same: "same_rows {model_invitation} (w_db w) (w_db v)"
    and sc: "sd_schema (w_db v) = sd_schema (w_db w)"
    and q: "q \<in> set (trows w model_invitation)" and ok: "invitation_error cx (sd_user sd) (invitation_from_map q) = None"
  shows "by_right (sd_user sd) (cx_now cx) creator (trows w) (trows (fst (join_org au oo cx sd (invitation_from_map q) v)))"
proof -
  let ?iv = "invitation_from_map q"
  let ?rec = "new_member_record cx (iv_org ?iv) (u_id (sd_user sd)) (iv_role ?iv)"
  have members: "trows v model_member = trows w model_member"
    using same other_models by (simp add: same_rows_def)
  have "sd_table (w_db v) model_member = Some member_table" using d sc by (simp add: org_db_def sd_table_def)
  then have "trows (fst (db (spec_create model_member ?rec) v)) model_member \<in> {trows w model_member, trows w model_member @ [?rec]}"
    by (simp add: spec_create_def members Let_def split: option.splits)
  moreover have "invited (trows w) (sd_user sd) (cx_now cx) ?rec"
    using ok q unfolding invited_def by (auto simp: invitation_error_def new_member_record_def member_from_map_def rget_def Let_def split: if_splits)
  ultimately have "by_right (sd_user sd) (cx_now cx) creator (trows w) (trows (fst (db (spec_create model_member ?rec) v)))"
    unfolding by_right_def by (auto; force)
  then show ?thesis unfolding join_org_def Let_def au spec_adapter_sel
    by (rule by_right_attempt) (intro frame_intros au other_models)
qed

lemma accept_fair:
  assumes au: "au_db au = spec_adapter" and d: "org_db (w_db w)"
  shows "by_right (sd_user sd) (cx_now cx) creator (trows w) (trows (fst (handle_accept au oo cx (Inr sd) body w)))"
  unfolding handle_accept_def au
proof ((rule walk, (intro read_intros; fail))+, rule from_attempt, intro read_intros, goal_cases)
  case (1 sd' i iv r)
  from 1(1) have sd: "sd' = sd" by (simp add: require_session_def)
  obtain q where q: "q \<in> set (trows w model_invitation)" "iv = invitation_from_map q" "invitation_error cx (sd_user sd) iv = None"
    using invitation_ok[OF au 1(3)] unfolding sd by blast
  have "by_right (sd_user sd) (cx_now cx) creator (trows w) (trows (fst (bind (need_room au oo (iv_org iv)) (\<lambda>_.
      bind (db (claim_invitation spec_adapter iv)) (\<lambda>n. if n = 0 then fail err_invitation_expired else join_org au oo cx sd iv)) w)))"
  proof (rule walk, intro read_intros)
    let ?v = "fst (db (claim_invitation spec_adapter iv) w)"
    have "only {model_invitation} (claim_invitation spec_adapter iv)" unfolding claim_invitation_def by (auto intro!: frame_intros)
    then have v: "same_rows {model_invitation} (w_db w) (w_db ?v)" "sd_schema (w_db ?v) = sd_schema (w_db w)"
      by (simp_all add: moves_def claim_invitation_def)
    have "by_right (sd_user sd) (cx_now cx) creator (trows w) (trows (fst (join_org au oo cx sd iv ?v)))"
      using join_fair[OF au d v q(1)] q(2,3) by simp
    moreover have "by_right (sd_user sd) (cx_now cx) creator (trows w) (trows ?v)"
      using v(1) other_models by (intro by_right_only) auto
    ultimately show "by_right (sd_user sd) (cx_now cx) creator (trows w) (trows (fst (bind (db (claim_invitation spec_adapter iv))
        (\<lambda>n. if n = 0 then fail err_invitation_expired else join_org au oo cx sd iv) w)))"
      by (auto simp: bind_def split: prod.splits sum.splits)
  qed
  moreover have "by_right (sd_user sd) (cx_now cx) creator (trows w) (trows (fst (fail e w)))" for e by (rule by_right_same) simp
  ultimately show ?case unfolding sd by (cases "is_ok r") (simp_all only: if_True if_False simp_thms)
qed

text \<open>A row that could be created has an id that no row of its model had.\<close>

lemma created_fresh:
  assumes "sdb_inv d" and i: "map_of data ''id'' = Some (VStr i)" and run: "spec_create m data d = (d', Inr r)"
  shows "sd_rows d' = (sd_rows d)(m := sd_rows d m @ [r]) \<and> rget r ''id'' = VStr i \<and> (\<forall>g\<in>set (sd_rows d m). rget g ''id'' \<noteq> VStr i)
    \<and> sd_schema d' = sd_schema d \<and> sdb_inv d'"
proof -
  from run have r: "r = (case sd_table d m of None \<Rightarrow> data | Some t \<Rightarrow> apply_defaults t data)"
    and viol: "\<not> spec_violates d m r None" and d': "d' = set_rows m (sd_rows d m @ [r]) d"
    by (auto simp: spec_create_def Let_def split: option.splits if_splits)
  have rid: "map_of r ''id'' = Some (VStr i)"
    unfolding r using i by (auto simp: apply_defaults_keep split: option.splits)
  have "\<not> clash ''id'' r row" if "row \<in> set (sd_rows d m)" for row
    using viol id_in_uniq[OF assms(1), of m] that by (auto simp: spec_violates_def list_ex_iff skipped_def)
  then have "rget row ''id'' \<noteq> VStr i" if "row \<in> set (sd_rows d m)" for row
    using that rid by (fastforce simp: clash_iff rget_def split: option.splits)
  moreover have "has_str_id data" using i by (simp add: has_str_id_def)
  ultimately show ?thesis using rid spec_create_inv[OF assms(1), of data m] run by (auto simp: d' rget_def)
qed

lemma create_fair:
  assumes au: "au_db au = spec_adapter" and d: "org_db (w_db w)"
  shows "by_right (sd_user sd) now (oo_creator_role oo) (trows w) (trows (fst (handle_create_org au oo cx (Inr sd) body w)))"
  unfolding handle_create_org_def
proof (rule walk, intro read_intros, goal_cases)
  case (1 p)
  obtain sd' b where p: "p = (sd', b)" by force
  have sd: "sd' = sd" using 1 by (auto simp: p may_create_def bind_def require_session_def split: prod.splits sum.splits)
  let ?rec = "new_org_record cx b" and ?org = "og_id (org_from_map (new_org_record cx b))"
  let ?mem = "new_member_record cx ?org (u_id (sd_user sd)) (oo_creator_role oo)"
  have i: "map_of ?rec ''id'' = Some (VStr ?org)" by (simp add: new_org_record_def org_from_map_def rget_def)
  let ?after = "\<lambda>r. case r of Inl e \<Rightarrow> fail (slug_error e)
      | Inr _ \<Rightarrow> bind (db (spec_create model_member ?mem)) (\<lambda>_.
          bind (if co_keep b then ret () else ignore (set_active au cx sd ?org)) (\<lambda>_. ret (OrgShown (org_from_map ?rec))))"
  have made: "by_right (sd_user sd) now (oo_creator_role oo) (trows w)
      (trows (fst (attempt (db (spec_create model_organization ?rec)) ?after w)))"
  proof (cases "spec_create model_organization ?rec (w_db w)")
    case (Pair d1 r)
    show ?thesis
    proof (cases r)
      case (Inl e)
      then have "d1 = w_db w" using Pair by (auto simp: spec_create_def Let_def split: option.splits if_splits)
      then show ?thesis by (simp add: attempt_db Pair Inl by_right_same)
    next
      case (Inr row)
      have inv: "sdb_inv (w_db w)" using d by (simp add: org_db_def)
      note f = created_fresh[OF inv i Pair[unfolded Inr]]
      let ?w = "w\<lparr>w_db := d1\<rparr>"
      have T: "trows ?w model_organization = trows w model_organization @ [row]" "trows ?w model_member = trows w model_member"
        using f other_models by auto
      have "sd_table d1 model_member = Some member_table" using d f by (simp add: org_db_def sd_table_def)
      then have "trows (fst (db (spec_create model_member ?mem) ?w)) model_member \<in> {trows w model_member, trows w model_member @ [?mem]}"
        using T(2) by (simp add: spec_create_def Let_def split: option.splits)
      moreover have "trows (fst (db (spec_create model_member ?mem) ?w)) model_organization = trows w model_organization @ [row]"
        using T(1) other_models by (simp add: spec_create_def Let_def split: option.splits)
      moreover from this f have "founded (trows w) (trows (fst (db (spec_create model_member ?mem) ?w))) (sd_user sd) (oo_creator_role oo) ?mem"
        by (simp add: founded_def member_from_map_def new_member_record_def rget_def)
      ultimately have "by_right (sd_user sd) now (oo_creator_role oo) (trows w) (trows (fst (db (spec_create model_member ?mem) ?w)))"
        unfolding by_right_def by (auto; force)
      then have "by_right (sd_user sd) now (oo_creator_role oo) (trows w) (trows (fst (?after (Inr row) ?w)))"
        unfolding sum.case by (rule by_right_bind) (auto intro!: frame_intros au other_models split del: if_split)
      then show ?thesis by (simp only: attempt_db Pair Inr prod.case)
    qed
  qed
  show ?case unfolding p sd prod.case create_org_def Let_def au spec_adapter_sel
    by (rule walk) (intro read_intros, rule made)
qed

lemma others_fair:
  assumes au: "au_db au = spec_adapter"
  shows "wonly no_member (handle_update_org au cx sess b1)" "wonly no_member (handle_list_orgs au sess)"
    "wonly no_member (handle_set_active au cx sess b2)" "wonly no_member (handle_get_full au oo sess org slug)"
    "wonly no_member (handle_check_slug au cx sess b3)" "wonly no_member (handle_invite au oo cx sess b4)"
    "wonly no_member (handle_reject au cx sess b5)" "wonly no_member (handle_cancel au sess b6)"
    "wonly no_member (handle_get_invitation au cx sess i)" "wonly no_member (handle_list_invitations au sess org)"
    "wonly no_member (handle_active_member au sess)" "wonly no_member (handle_create_team au cx sess b7)"
    "wonly no_member (handle_remove_team au sess b8)" "wonly no_member (handle_list_teams au sess org)"
proof -
  have still: "wonly no_member f" if "reads f" for f :: "(sdb world, 'a) act"
    using that by (auto simp: moves_def same_world_rows_def same_rows_def)
  note r = reads_small[THEN still] reads_org[THEN still] reads_db[THEN still] still.basic[THEN still]
  note defs = handle_update_org_def handle_list_orgs_def handle_set_active_def handle_get_full_def handle_check_slug_def handle_invite_def
    handle_reject_def handle_cancel_def handle_get_invitation_def handle_list_invitations_def handle_active_member_def
    handle_create_team_def handle_remove_team_def handle_list_teams_def end_invitation_def write_invitation_def mail_invitation_def Let_def au
    spec_adapter_sel
  show "wonly no_member (handle_update_org au cx sess b1)" "wonly no_member (handle_list_orgs au sess)"
    "wonly no_member (handle_set_active au cx sess b2)" "wonly no_member (handle_get_full au oo sess org slug)"
    "wonly no_member (handle_check_slug au cx sess b3)" "wonly no_member (handle_invite au oo cx sess b4)"
    "wonly no_member (handle_reject au cx sess b5)" "wonly no_member (handle_cancel au sess b6)"
    "wonly no_member (handle_get_invitation au cx sess i)" "wonly no_member (handle_list_invitations au sess org)"
    "wonly no_member (handle_active_member au sess)" "wonly no_member (handle_create_team au cx sess b7)"
    "wonly no_member (handle_remove_team au sess b8)" "wonly no_member (handle_list_teams au sess org)"
    unfolding defs by (intro frame_intros r other_models2 au read_intros)+
qed

end
