(* ===== verification/Ownership_Laws.thy ===== *)
theory Ownership_Laws
  imports Organization_Laws
begin

text \<open>
  The organization plugin as a whole: memberships change by right, an organization cannot be
  taken from its owners by any sequence of requests of other users, and what only members
  may see is shown to members.
\<close>

section \<open>Invitations and organizations\<close>

text \<open>No invitation comes to offer ownership of an organization unless one did.\<close>

definition offers_kept :: "sdb world \<Rightarrow> sdb world \<Rightarrow> bool" where
  "offers_kept w w' \<longleftrightarrow> (\<forall>q\<in>set (trows w' model_invitation). iv_role (invitation_from_map q) = role_owner \<longrightarrow>
     (\<exists>p\<in>set (trows w model_invitation). iv_role (invitation_from_map p) = role_owner
        \<and> iv_org (invitation_from_map p) = iv_org (invitation_from_map q)))"

text \<open>No organization disappears, but those with one of these ids.\<close>

definition orgs_kept :: "string set \<Rightarrow> sdb world \<Rightarrow> sdb world \<Rightarrow> bool" where
  "orgs_kept X w w' \<longleftrightarrow> (\<forall>g\<in>set (trows w model_organization). rget g ''id'' \<in> VStr ` X
     \<or> (\<exists>g'\<in>set (trows w' model_organization). rget g' ''id'' = rget g ''id''))"

interpretation offers: step_order offers_kept
  by unfold_locales (auto simp: offers_kept_def, metis)

interpretation orgs: step_order "orgs_kept X" for X
proof unfold_locales
  show "orgs_kept X s s" for s by (auto simp: orgs_kept_def)
  show "orgs_kept X s u" if "orgs_kept X s t" "orgs_kept X t u" for s t u
    using that unfolding orgs_kept_def by metis
qed

named_theorems kept_intros \<open>rules for what the endpoints keep\<close>
declare offers.rules [kept_intros] orgs.rules [kept_intros]

lemma kept_reads: "reads f \<Longrightarrow> moves offers_kept f" "reads f \<Longrightarrow> moves (orgs_kept X) f"
  by (auto simp: moves_def offers_kept_def orgs_kept_def)

lemma reads_query: "reads (query q)" by (rule still.basic)

lemmas kept_reading [kept_intros] =
  reads_small(1-4)[THEN kept_reads(1)] reads_small(1-4)[THEN kept_reads(2)] reads_org[THEN kept_reads(1)] reads_org[THEN kept_reads(2)]
  reads_small(5-10)[THEN reads_db, THEN kept_reads(1)] reads_small(5-10)[THEN reads_db, THEN kept_reads(2)]
  reads_query[THEN reads_db, THEN kept_reads(1)] reads_query[THEN reads_db, THEN kept_reads(2)]

lemma kept_only: "wonly M f \<Longrightarrow> model_invitation \<notin> M \<Longrightarrow> moves offers_kept f"
  "wonly M f \<Longrightarrow> model_organization \<notin> M \<Longrightarrow> moves (orgs_kept X) f"
  by (auto simp: moves_def offers_kept_def orgs_kept_def same_world_rows_def same_rows_def)

lemma map_of_first: "(\<And>x. g (f x) = g x) \<Longrightarrow> g ` set (map_first P f xs) = g ` set xs"
  by (induction xs) auto

text \<open>An update that says nothing of the id keeps the rows told by their ids.\<close>

lemma kept_update:
  assumes "map_of u ''id'' = None"
  shows "(\<lambda>r. rget r ''id'') ` set (sd_rows (fst (spec_update m ws u d)) m') = (\<lambda>r. rget r ''id'') ` set (sd_rows d m')"
proof -
  have "rget (gmerge r u) ''id'' = rget r ''id''" for r using assms by (simp add: rget_def map_add_def)
  note same = map_of_first[of "\<lambda>r. rget r ''id''" "\<lambda>r. gmerge r u", OF this]
  show ?thesis by (simp add: spec_update_def same split: option.splits)
qed

lemma kept_ids:
  "(\<lambda>r. rget r ''id'') ` set (trows w model_organization) \<subseteq> (\<lambda>r. rget r ''id'') ` set (trows w' model_organization) \<Longrightarrow> orgs_kept X w w'"
  by (fastforce simp: orgs_kept_def)

lemma orgs_writes [kept_intros]:
  "moves (orgs_kept X) (db (spec_create m data))" "map_of u ''id'' = None \<Longrightarrow> moves (orgs_kept X) (db (spec_update m ws u))"
  by (auto simp: moves_def spec_create_def Let_def kept_update intro!: kept_ids split: option.splits)

lemma orgs_elsewhere [kept_intros]:
  "m \<noteq> model_organization \<Longrightarrow> moves (orgs_kept X) (db (spec_update_many m ws u))"
  "m \<noteq> model_organization \<Longrightarrow> moves (orgs_kept X) (db (spec_delete_many m ws))"
  by (auto simp: moves_def spec_update_many_def spec_delete_many_def intro!: kept_ids split: option.splits)

lemma remove_first_keeps: "x \<in> set xs \<Longrightarrow> \<not> P x \<Longrightarrow> x \<in> set (remove_first P xs)"
  by (induction xs) auto

lemma orgs_delete [kept_intros]:
  "m \<noteq> model_organization \<or> i \<in> X \<Longrightarrow> moves (orgs_kept X) (db (spec_delete m [W ''id'' (VStr i)]))"
  by (auto simp: moves_def orgs_kept_def spec_delete_def intro: remove_first_keeps split: option.splits)

definition no_offer :: "grec \<Rightarrow> bool" where
  "no_offer u \<longleftrightarrow> map_of u ''organizationId'' = None \<and> (case map_of u ''role'' of None \<Rightarrow> True | Some v \<Rightarrow> str_val v \<noteq> role_owner)"

lemma no_offer_merge:
  "no_offer u \<Longrightarrow> iv_role (invitation_from_map (gmerge r u)) = role_owner \<Longrightarrow>
   iv_role (invitation_from_map r) = role_owner \<and> iv_org (invitation_from_map (gmerge r u)) = iv_org (invitation_from_map r)"
  by (auto simp: no_offer_def invitation_from_map_def rget_def map_add_def split: option.splits)

lemma offers_rows:
  assumes "\<And>q. q \<in> set (trows w' model_invitation) \<Longrightarrow> q \<in> set (trows w model_invitation)
    \<or> iv_role (invitation_from_map q) \<noteq> role_owner \<or> (\<exists>r\<in>set (trows w model_invitation). \<exists>u. no_offer u \<and> q = gmerge r u)"
  shows "offers_kept w w'"
  unfolding offers_kept_def
proof (intro ballI impI)
  fix q assume q: "q \<in> set (trows w' model_invitation)" "iv_role (invitation_from_map q) = role_owner"
  with assms consider "q \<in> set (trows w model_invitation)" | r u where "r \<in> set (trows w model_invitation)" "no_offer u" "q = gmerge r u" by blast
  then show "\<exists>p\<in>set (trows w model_invitation). iv_role (invitation_from_map p) = role_owner
      \<and> iv_org (invitation_from_map p) = iv_org (invitation_from_map q)"
  proof cases
    case 2
    show ?thesis using no_offer_merge[OF 2(2), of r] q(2) 2(1) unfolding 2(3) by metis
  qed (use q(2) in blast)
qed

lemma offers_writes [kept_intros]:
 "m \<noteq> model_invitation \<or> no_offer u \<Longrightarrow> moves offers_kept (db (spec_update m ws u))"
   "no_offer u \<Longrightarrow> moves offers_kept (db (spec_update_many m ws u))"
  "moves offers_kept (db (spec_delete m ws))" "moves offers_kept (db (spec_delete_many m ws))"
  unfolding moves_def spec_update_def spec_update_many_def spec_delete_def spec_delete_many_def
  by (cases "model_invitation = m"; auto intro!: offers_rows split: option.splits dest!: set_map_first dest: subsetD[OF set_remove_first])+

lemma offers_create [kept_intros]:
  assumes "m \<noteq> model_invitation \<or> map_of data ''role'' = Some (VStr role) \<and> role \<noteq> role_owner"
  shows "moves offers_kept (db (spec_create m data))"
proof (cases "m = model_invitation")
  case True
  then have "iv_role (invitation_from_map data) \<noteq> role_owner" "iv_role (invitation_from_map (apply_defaults t data)) \<noteq> role_owner" for t
    using assms apply_defaults_keep[of data "''role''" "VStr role" t] by (auto simp: invitation_from_map_def rget_def)
  then show ?thesis using True by (auto simp: moves_def spec_create_def Let_def intro!: offers_rows split: option.splits)
next
  case False
  then show ?thesis by (auto simp: moves_def spec_create_def Let_def intro!: offers_rows split: option.splits)
qed

lemma kept_check: "(e = None \<Longrightarrow> moves offers_kept (k ())) \<Longrightarrow> moves offers_kept (bind (check e) k)"
  by (cases e) (auto simp: check_def intro: offers.basic)

lemma kept_ignore [kept_intros]:
  "moves offers_kept f \<Longrightarrow> moves offers_kept (ignore f)" "moves (orgs_kept X) f \<Longrightarrow> moves (orgs_kept X) (ignore f)"
  unfolding ignore_def by (auto intro!: offers.rules orgs.rules)

lemma kept_active [kept_intros]:
  assumes "au_db au = spec_adapter"
  shows "moves offers_kept (set_active au cx sd org)" "moves (orgs_kept X) (set_active au cx sd org)"
proof -
  have "wonly {model_session} (set_active au cx sd org)" using assms by (auto intro!: frame_intros)
  then show "moves offers_kept (set_active au cx sd org)" "moves (orgs_kept X) (set_active au cx sd org)"
    by (auto intro: kept_only simp: model_names model_invitation_def model_organization_def)
qed

lemma kept_mail [kept_intros]:
  assumes "au_db au = spec_adapter"
  shows "moves offers_kept (mail_invitation au oo sd org iv)" "moves (orgs_kept X) (mail_invitation au oo sd org iv)"
proof -
  have "wonly {} (mail_invitation au oo sd org iv)"
    unfolding mail_invitation_def find_org_def by (intro frame_intros)
  then show "moves offers_kept (mail_invitation au oo sd org iv)" "moves (orgs_kept X) (mail_invitation au oo sd org iv)"
    by (auto intro: kept_only)
qed

lemmas org_handlers = handle_create_org_def create_org_def handle_update_org_def handle_delete_org_def purge_org_def delete_teams_def
  handle_list_orgs_def handle_set_active_def handle_get_full_def handle_check_slug_def handle_accept_def claim_invitation_def join_org_def
  handle_reject_def handle_cancel_def handle_get_invitation_def handle_list_invitations_def handle_remove_member_def
  handle_update_role_def handle_active_member_def handle_leave_def handle_create_team_def handle_remove_team_def handle_list_teams_def
  end_invitation_def Let_def

lemma other_tables: "model_organization \<noteq> model_invitation" "model_member \<noteq> model_invitation" "model_team \<noteq> model_invitation"
  "model_team_member \<noteq> model_invitation" "model_organization \<noteq> model_member" "model_team \<noteq> model_organization"
  "model_team_member \<noteq> model_organization" "model_invitation \<noteq> model_organization" "model_member \<noteq> model_organization"
  by (simp_all add: model_member_def model_organization_def model_invitation_def model_team_def model_team_member_def)

lemma no_offer_status: "no_offer [(''status'', v)]" by (simp add: no_offer_def)

lemma invite_offers:
  assumes au: "au_db au = spec_adapter"
  shows "moves offers_kept (handle_invite au oo cx sess b)"
proof -
  have "moves offers_kept (write_invitation au oo cx sd org email role team earlier)" if "invite_role_error role = None" for sd org email role team earlier
    using that unfolding write_invitation_def au spec_adapter_sel Let_def
    by (intro kept_intros) (auto simp: no_offer_def invite_role_error_def new_invitation_record_def intro!: kept_intros split: if_splits)
  then show ?thesis unfolding handle_invite_def Let_def
    by (intro kept_check kept_intros au) auto
qed

lemma offers_run:
  assumes au: "au_db au = spec_adapter"
  shows "moves offers_kept (org_run au oo cx sess call)"
proof (cases call)
  case (CallInvite b)
  then show ?thesis by (simp add: invite_offers au)
qed (simp_all only: org_run.simps org_handlers au spec_adapter_sel,
  (auto intro!: kept_intros au simp: other_tables no_offer_status split del: if_split split: prod.splits)+)

lemma orgs_run:
  assumes au: "au_db au = spec_adapter" and "\<forall>b. call \<noteq> CallDelete b"
  shows "moves (orgs_kept X) (org_run au oo cx sess call)"
proof (cases call)
  case (CallDelete b)
  then show ?thesis using assms(2) by blast
next
  case (CallUpdate b)
  have "map_of (string_field f raw) ''id'' = None" if "f \<noteq> ''id''" for f raw
    using that by (auto simp: string_field_def split: option.splits gval.splits)
  then show ?thesis unfolding CallUpdate org_run.simps handle_update_org_def Let_def au spec_adapter_sel
    by (intro kept_intros au) (auto simp: map_add_def)
qed (simp_all only: org_run.simps org_handlers handle_invite_def write_invitation_def au spec_adapter_sel,
  (auto intro!: kept_intros au simp: other_tables split del: if_split split: prod.splits option.splits)+)

section \<open>Every request\<close>

lemma run_fair:
  assumes au: "au_db au = spec_adapter" and d: "org_db (w_db w)"
  shows "by_right (sd_user sd) (cx_now cx) (oo_creator_role oo) (trows w) (trows (fst (org_run au oo cx (Inr sd) call w)))"
proof -
  have only: "by_right (sd_user sd) (cx_now cx) (oo_creator_role oo) (trows w) (trows (fst (f w)))"
    if "wonly no_member f" for f :: "(sdb world, org_reply) act"
    using that by (intro by_right_only[where M = no_member]) (simp_all add: moves_def same_world_rows_def)
  have "wonly no_member (fail e :: (sdb world, org_reply) act)" for e by (intro frame_intros)
  note others = others_fair[OF au, THEN only] only[OF this]
  show ?thesis
    by (cases call; simp only: org_run.simps if_splits others create_fair[OF au d] delete_fair[OF au d] accept_fair[OF au d] remove_fair[OF au d]
        update_role_fair[OF au d] leave_fair[OF au d]; auto intro: others by_right_same split: if_splits)
qed

lemma no_session_no_change: "fst (org_run au oo cx (Inl e) call w) = w"
  by (cases call) (simp_all add: handle_create_org_def may_create_def handle_update_org_def handle_delete_org_def handle_list_orgs_def
      handle_set_active_def handle_get_full_def handle_check_slug_def handle_invite_def handle_accept_def handle_reject_def handle_cancel_def
      handle_get_invitation_def handle_list_invitations_def handle_remove_member_def handle_update_role_def handle_active_member_def
      handle_leave_def handle_create_team_def handle_remove_team_def handle_list_teams_def require_session_def bind_query bind_def)

text \<open>
  C36: memberships change by right only. After any request to the organization plugin on the
  in-memory store, every member row that was not there before is that of the founder of an
  organization made in this request, or of a user accepting a live invitation to an address
  verified to be theirs, in the role it offers, or the old row of a member with a role given by
  somebody with power over both roles: an owner, or an admin where neither is the owner's. And
  every row that is gone was the user's own or of a member the user had power over.
\<close>

theorem memberships_by_right:
  assumes "org_schema sc" and "mem_inv (Some sc) (w_db w)" and "au_db au = mem_adapter"
    and "org_run au oo cx (Inr sd) call w = (w', r)"
  shows "by_right (sd_user sd) (cx_now cx) (oo_creator_role oo) (mem_rows (w_db w)) (mem_rows (w_db w'))"
proof -
  have d: "org_db (w_db (wmap mem_abs w))" using org_db_mem[OF assms(1,2)] by simp
  have "winv (mem_inv (Some sc)) w" using assms(2) by (simp add: winv_def)
  from simD[OF mem.org_run_sim[OF assms(3) org_uniq[OF assms(1)]] this assms(4)]
  have "fst (org_run (on_spec au) oo cx (Inr sd) call (wmap mem_abs w)) = wmap mem_abs w'" by simp
  moreover have "au_db (on_spec au) = spec_adapter" by simp
  ultimately show ?thesis using run_fair[OF _ d, of "on_spec au" sd cx oo call] by simp
qed

section \<open>Sequences of requests\<close>

type_synonym org_requests = "(req_ctx \<times> session_data result \<times> org_call) list"

fun org_trace :: "'s auth \<Rightarrow> org_options \<Rightarrow> org_requests \<Rightarrow> 's world \<Rightarrow> 's world" where
  "org_trace au oo [] w = w"
| "org_trace au oo ((cx, sess, call) # rest) w = org_trace au oo rest (fst (org_run au oo cx sess call w))"

definition owners :: "tables \<Rightarrow> string \<Rightarrow> grec set" where
  "owners T org = {r \<in> set (T model_member). mb_org (member_from_map r) = org \<and> mb_role (member_from_map r) = role_owner}"

definition org_exists :: "tables \<Rightarrow> string \<Rightarrow> bool" where
  "org_exists T org \<longleftrightarrow> (\<exists>g\<in>set (T model_organization). rget g ''id'' = VStr org)"

definition ownership_offered :: "tables \<Rightarrow> string \<Rightarrow> bool" where
  "ownership_offered T org \<longleftrightarrow> (\<exists>q\<in>set (T model_invitation). iv_org (invitation_from_map q) = org \<and> iv_role (invitation_from_map q) = role_owner)"

definition not_an_owner :: "tables \<Rightarrow> string \<Rightarrow> session_data result \<Rightarrow> bool" where
  "not_an_owner T org sess \<longleftrightarrow> (\<forall>sd. sess = Inr sd \<longrightarrow> (\<forall>r\<in>owners T org. mb_user (member_from_map r) \<noteq> u_id (sd_user sd)))"

lemma powerless:
  "not_an_owner T org (Inr sd) \<Longrightarrow> \<not> has_power T (sd_user sd) org role_owner"
  by (auto simp: not_an_owner_def has_power_def owners_def)

text \<open>Members: by right, so the owners stay the same.\<close>

lemma owners_step:
  assumes fair: "by_right (sd_user sd) now creator T T'" and no: "not_an_owner T org (Inr sd)"
    and org: "org_exists T org" and offers: "\<not> ownership_offered T org"
  shows "owners T' org = owners T org"
proof (intro equalityI subsetI)
  fix r assume "r \<in> owners T' org"
  then have r: "r \<in> set (T' model_member)" "mb_org (member_from_map r) = org" "mb_role (member_from_map r) = role_owner"
    by (auto simp: owners_def)
  have "\<not> founded T T' (sd_user sd) creator r" using org r(2) by (auto simp: founded_def org_exists_def)
  moreover have "\<not> invited T (sd_user sd) now r" using offers r(2,3) by (auto simp: invited_def ownership_offered_def Let_def)
  moreover have "\<not> changed T (sd_user sd) r"
  proof
    assume "changed T (sd_user sd) r"
    then obtain old role where "r = gmerge old [(''role'', VStr role)]" "has_power T (sd_user sd) (mb_org (member_from_map old)) role"
      unfolding changed_def by blast
    moreover from this(1) have "role = role_owner" "mb_org (member_from_map old) = org"
      using r(2,3) by (auto simp: member_from_map_def rget_def map_add_def)
    ultimately show False using powerless[OF no] by blast
  qed
  ultimately have "r \<in> set (T model_member)" using fair r(1) unfolding by_right_def by blast
  then show "r \<in> owners T org" using r by (simp add: owners_def)
next
  fix r assume "r \<in> owners T org"
  then have r: "r \<in> set (T model_member)" "mb_org (member_from_map r) = org" "mb_role (member_from_map r) = role_owner"
    "mb_user (member_from_map r) \<noteq> u_id (sd_user sd)"
    using no by (auto simp: owners_def not_an_owner_def)
  with powerless[OF no] have "r \<in> set (T' model_member)" using fair unfolding by_right_def by metis
  then show "r \<in> owners T' org" using r by (simp add: owners_def)
qed

lemma orgs_kept_exists: "orgs_kept X w w' \<Longrightarrow> org \<notin> X \<Longrightarrow> org_exists (trows w) org \<Longrightarrow> org_exists (trows w') org"
  unfolding orgs_kept_def org_exists_def by (metis (no_types, lifting) gval.inject(1) imageE)

lemma delete_keeps:
  assumes au: "au_db au = spec_adapter" and no: "not_an_owner (trows w) org (Inr sd)" and org: "org_exists (trows w) org"
  shows "org_exists (trows (fst (handle_delete_org au oo (Inr sd) body w))) org"
  unfolding handle_delete_org_def au
proof ((rule from_bind[where R = "\<lambda>w v. org_exists (trows v) org"], (intro read_intros; fail), rule org)+, rule from_attempt, intro read_intros, goal_cases)
  case (1 sd' b other actor r)
  from 1(1) have sd: "sd' = sd" by (simp add: require_session_def)
  have "other \<noteq> org" using role_ok[OF au 1(4)] no by (auto simp: not_an_owner_def owners_def sd)
  moreover have "moves (orgs_kept {other}) (case r of Inl e \<Rightarrow> fail err_org_not_found
     | Inr rec \<Rightarrow> bind (check (case oo_before_delete oo of None \<Rightarrow> None | Some f \<Rightarrow> f (org_from_map rec))) (\<lambda>_.
         bind (purge_org au oo other) (\<lambda>_. ret (OrgShown (org_from_map rec)))))"
    unfolding purge_org_def delete_teams_def au spec_adapter_sel by (auto intro!: kept_intros simp: other_tables split del: if_split)
  ultimately show ?case using orgs_kept_exists[of "{other}" w _ org] org unfolding moves_def by blast
qed

lemma run_keeps:
  assumes au: "au_db au = spec_adapter" and no: "not_an_owner (trows w) org sess" and org: "org_exists (trows w) org"
  shows "org_exists (trows (fst (org_run au oo cx sess call w))) org"
proof (cases sess)
  case (Inr sd)
  show ?thesis
  proof (cases "\<exists>b. call = CallDelete b")
    case True
    then show ?thesis using delete_keeps[OF au no[unfolded Inr] org] by (auto simp: Inr)
  next
    case False
    then have "moves (orgs_kept {}) (org_run au oo cx sess call)" using orgs_run[OF au] by blast
    then show ?thesis using orgs_kept_exists[of "{}" w _ org] org unfolding moves_def by blast
  qed
qed (simp add: no_session_no_change org)

lemma step_keeps:
  assumes sc: "org_schema sc" and inv: "mem_inv (Some sc) (w_db w)" and au: "au_db au = mem_adapter"
    and no: "not_an_owner (mem_rows (w_db w)) org sess" and org: "org_exists (mem_rows (w_db w)) org"
    and offers: "\<not> ownership_offered (mem_rows (w_db w)) org" and w': "w' = fst (org_run au oo cx sess call w)"
  shows "mem_inv (Some sc) (w_db w') \<and> owners (mem_rows (w_db w')) org = owners (mem_rows (w_db w)) org
    \<and> org_exists (mem_rows (w_db w')) org \<and> \<not> ownership_offered (mem_rows (w_db w')) org"
proof -
  let ?v = "wmap mem_abs w" and ?v' = "wmap mem_abs w'" and ?au = "on_spec au"
  have T: "mem_rows (w_db x) = trows (wmap mem_abs x)" for x by simp
  have on: "au_db ?au = spec_adapter" by simp
  have d: "org_db (w_db ?v)" using org_db_mem[OF sc inv] by simp
  obtain r where run: "org_run au oo cx sess call w = (w', r)" unfolding w' by (metis surjective_pairing)
  have "winv (mem_inv (Some sc)) w" using inv by (simp add: winv_def)
  from simD[OF mem.org_run_sim[OF au org_uniq[OF sc]] this run]
  have inv': "mem_inv (Some sc) (w_db w')" and v': "?v' = fst (org_run ?au oo cx sess call ?v)" by (simp_all add: winv_def)
  have "owners (trows ?v') org = owners (trows ?v) org"
  proof (cases sess)
    case (Inr sd)
    show ?thesis using owners_step[OF run_fair[OF on d] _ _ _] no org offers unfolding T v' Inr by blast
  qed (simp only: v' no_session_no_change)
  moreover have "org_exists (trows ?v') org" using run_keeps[OF on] no org unfolding T v' by blast
  moreover have "offers_kept ?v ?v'" using offers_run[OF on] unfolding v' moves_def by blast
  then have "\<not> ownership_offered (trows ?v') org" using offers unfolding T by (fastforce simp: offers_kept_def ownership_offered_def)
  ultimately show ?thesis using inv' unfolding T by blast
qed

text \<open>
  C37: an organization cannot be taken from its owners. Whatever requests to the organization
  plugin are made on the in-memory store, in any order, without a session or with sessions of
  users who are not owners of the organization, its admins included, the organization remains
  and the owner rows are exactly those it had, provided no invitation offers ownership,
  which none the plugin writes does.
\<close>

theorem ownership_not_taken:
  assumes "org_schema sc" and "mem_inv (Some sc) (w_db w)" and "au_db au = mem_adapter"
    and "org_exists (mem_rows (w_db w)) org" and "\<not> ownership_offered (mem_rows (w_db w)) org"
    and "\<forall>(cx, sess, call)\<in>set requests. not_an_owner (mem_rows (w_db w)) org sess"
  shows "owners (mem_rows (w_db (org_trace au oo requests w))) org = owners (mem_rows (w_db w)) org
    \<and> org_exists (mem_rows (w_db (org_trace au oo requests w))) org"
  using assms(2,4-6)
proof (induction requests arbitrary: w)
  case (Cons p requests)
  obtain cx sess call where p: "p = (cx, sess, call)" by (metis prod_cases3)
  let ?w = "fst (org_run au oo cx sess call w)"
  have no: "not_an_owner (mem_rows (w_db w)) org sess" using Cons.prems(4) by (simp add: p)
  note step = step_keeps[OF assms(1) Cons.prems(1) assms(3) no Cons.prems(2,3) refl]
  have "\<forall>(cx, sess, call)\<in>set requests. not_an_owner (mem_rows (w_db ?w)) org sess"
    using Cons.prems(4) step by (auto simp: not_an_owner_def)
  then show ?case using Cons.IH[of ?w] step by (simp add: p)
qed simp

section \<open>A small organization\<close>

definition demo_org_options :: org_options where
  "demo_org_options = new_organization \<lparr>oo_disabled = False, oo_can_create = None, oo_org_limit = 0, oo_member_limit = 0,
     oo_creator_role = '''', oo_invite_ttl = 0, oo_send = None, oo_teams = False, oo_before_delete = None\<rparr>"

definition demo_org_schema :: schema where "demo_org_schema = organization_schema demo_org_options core_schema"

definition demo_member :: "string \<Rightarrow> string \<Rightarrow> string \<Rightarrow> grec" where
  "demo_member i uid role = [(''id'', VStr i), (''organizationId'', VStr ''o1''), (''userId'', VStr uid), (''role'', VStr role), (''createdAt'', VTime 0)]"

definition demo_org_rows :: "(string \<times> grec) list" where
  "demo_org_rows =
     [(model_organization, [(''id'', VStr ''o1''), (''name'', VStr ''Acme''), (''slug'', VStr ''acme''), (''createdAt'', VTime 0)]),
      (model_member, demo_member ''m1'' ''u1'' role_owner), (model_member, demo_member ''m2'' ''u2'' role_admin),
      (model_invitation, [(''id'', VStr ''i1''), (''organizationId'', VStr ''o1''), (''email'', VStr ''c@x.org''), (''role'', VStr role_admin),
        (''status'', VStr ''pending''), (''teamId'', VStr ''''), (''inviterId'', VStr ''u1''), (''expiresAt'', VTime 1000), (''createdAt'', VTime 0)])]"

definition demo_sd :: "string \<Rightarrow> string \<Rightarrow> session_data" where
  "demo_sd i email = \<lparr>sd_session = demo_session 0 1000\<lparr>s_user := i\<rparr>,
     sd_user = demo_user_row\<lparr>u_id := i, u_email := email, u_email_verified := True\<rparr>, sd_from_cache = False\<rparr>"

lemma demo_org_ids: "rows_with_ids demo_org_rows" by code_simp

lemma demo_org_schema_ok: "org_schema demo_org_schema"
proof -
  have "wf_schema demo_org_schema" by code_simp
  moreover have "map_of (sc_tables demo_org_schema) model_organization = Some organization_table" by code_simp
  moreover have "map_of (sc_tables demo_org_schema) model_member = Some member_table" by code_simp
  moreover have "map_of (sc_tables demo_org_schema) model_invitation = Some invitation_table" by code_simp
  ultimately show ?thesis by (simp add: org_schema_def)
qed

lemma demo_org_wf: "wf_schema demo_org_schema" using demo_org_schema_ok by (simp add: org_schema_def)

abbreviation demo_org_world :: "mem world" where "demo_org_world \<equiv> seeded_in demo_org_schema demo_org_rows"
abbreviation demo_org_spec :: "sdb world" where "demo_org_spec \<equiv> spec_seeded_in demo_org_schema demo_org_rows"

lemmas demo_org_facts = seeded_in_facts[OF demo_org_wf demo_org_ids]

lemma demo_org_sim:
  "sim (wmap mem_abs) (winv (mem_inv (Some demo_org_schema))) (org_run (demo_auth mem_adapter) oo cx sess call)
     (org_run (demo_auth spec_adapter) oo cx sess call)"
  using mem.org_run_sim[of "demo_auth mem_adapter", OF _ org_uniq[OF demo_org_schema_ok]] by simp

lemmas demo_org_run = seeded_in_run[OF demo_org_wf demo_org_ids demo_org_sim]

lemma memberships_by_right_witness:
  "\<exists>w' iv m. org_run (demo_auth mem_adapter) demo_org_options demo_cx (Inr (demo_sd ''u3'' ''C@x.org'')) (CallAccept (Some ''i1'')) demo_org_world
      = (w', Inr (Joined iv m))
    \<and> by_right (sd_user (demo_sd ''u3'' ''C@x.org'')) 5 role_owner (mem_rows (w_db demo_org_world)) (mem_rows (w_db w'))"
proof -
  let ?run = "org_run (demo_auth spec_adapter) demo_org_options demo_cx (Inr (demo_sd ''u3'' ''C@x.org'')) (CallAccept (Some ''i1'')) demo_org_spec"
  have "(case snd ?run of Inr (Joined iv m) \<Rightarrow> True | _ \<Rightarrow> False)" by code_simp
  then obtain iv m where r: "snd ?run = Inr (Joined iv m)" by (auto split: sum.splits org_reply.splits)
  from demo_org_run[OF r] obtain w' where w': "org_run (demo_auth mem_adapter) demo_org_options demo_cx (Inr (demo_sd ''u3'' ''C@x.org''))
      (CallAccept (Some ''i1'')) demo_org_world = (w', Inr (Joined iv m))" by blast
  have "oo_creator_role demo_org_options = role_owner" "cx_now demo_cx = 5" by code_simp+
  then show ?thesis using memberships_by_right[OF demo_org_schema_ok demo_org_facts(1) _ w'] w' by auto
qed

definition demo_requests_org :: org_requests where
  "demo_requests_org = [(demo_cx, Inr (demo_sd ''u2'' ''b@x.org''), CallInvite (Some \<lparr>ib_email = ''d@x.org'', ib_role = role_admin, ib_org = ''o1'', ib_team = [], ib_resend = False\<rparr>)),
     (demo_cx, Inr (demo_sd ''u3'' ''c@x.org''), CallAccept (Some ''i1'')),
     (demo_cx, Inr (demo_sd ''u3'' ''c@x.org''), CallRemoveMember (Some \<lparr>me_member = ''m1'', me_org = ''o1''\<rparr>)),
     (demo_cx, Inl err_unauthorized, CallDelete (Some ''o1''))]"

lemma ownership_not_taken_witness:
  "owners (mem_rows (w_db (org_trace (demo_auth mem_adapter) demo_org_options demo_requests_org demo_org_world))) ''o1'' = {demo_member ''m1'' ''u1'' role_owner}"
proof -
  have o: "org_exists (trows demo_org_spec) ''o1''" by code_simp
  have n: "\<not> ownership_offered (trows demo_org_spec) ''o1''" by code_simp
  have owns: "owners (trows demo_org_spec) ''o1'' = {demo_member ''m1'' ''u1'' role_owner}" unfolding owners_def by code_simp
  have no: "\<forall>(cx, sess, call)\<in>set demo_requests_org. not_an_owner (mem_rows (w_db demo_org_world)) ''o1'' sess"
    unfolding demo_org_facts(5) not_an_owner_def owns by (simp add: demo_requests_org_def demo_sd_def demo_member_def member_from_map_def rget_def)
  have "au_db (demo_auth mem_adapter) = mem_adapter" by simp
  from ownership_not_taken[OF demo_org_schema_ok demo_org_facts(1) this _ _ no, of demo_org_options] o n owns
  show ?thesis unfolding demo_org_facts(5) by blast
qed

text \<open>
  Leaving is refused to the only owner, but a change of the own role is not: afterwards nobody
  is an owner.
\<close>

lemma only_owner_steps_down:
  "snd (org_run (demo_auth spec_adapter) demo_org_options demo_cx (Inr (demo_sd ''u1'' ''a@x.org'')) (CallLeave (Some ''o1'')) demo_org_spec)
     = Inl (ApiError 400 ''CANNOT_LEAVE_AS_ONLY_OWNER'')
   \<and> owners (trows (fst (org_run (demo_auth spec_adapter) demo_org_options demo_cx (Inr (demo_sd ''u1'' ''a@x.org''))
       (CallUpdateRole (Some \<lparr>rb_member = ''m1'', rb_role = role_member, rb_org = ''o1''\<rparr>)) demo_org_spec))) ''o1'' = {}"
proof
  show "snd (org_run (demo_auth spec_adapter) demo_org_options demo_cx (Inr (demo_sd ''u1'' ''a@x.org'')) (CallLeave (Some ''o1'')) demo_org_spec)
     = Inl (ApiError 400 ''CANNOT_LEAVE_AS_ONLY_OWNER'')" by code_simp
  show "owners (trows (fst (org_run (demo_auth spec_adapter) demo_org_options demo_cx (Inr (demo_sd ''u1'' ''a@x.org''))
       (CallUpdateRole (Some \<lparr>rb_member = ''m1'', rb_role = role_member, rb_org = ''o1''\<rparr>)) demo_org_spec))) ''o1'' = {}"
    unfolding owners_def by code_simp
qed

text \<open>An address whose invitation ran out cannot be invited again but by asking for a resend.\<close>

lemma expired_invitation_in_the_way:
  "snd (org_run (demo_auth spec_adapter) demo_org_options (demo_cx\<lparr>cx_now := 2000\<rparr>) (Inr (demo_sd ''u3'' ''c@x.org'')) (CallAccept (Some ''i1'')) demo_org_spec)
     = Inl err_invitation_expired
   \<and> snd (org_run (demo_auth spec_adapter) demo_org_options (demo_cx\<lparr>cx_now := 2000\<rparr>) (Inr (demo_sd ''u1'' ''a@x.org''))
       (CallInvite (Some \<lparr>ib_email = ''c@x.org'', ib_role = role_member, ib_org = ''o1'', ib_team = [], ib_resend = False\<rparr>)) demo_org_spec)
     = Inl (ApiError 400 ''INVITATION_ALREADY_SENT'')"
  by (intro conjI) code_simp+

end
