(* ===== verification/Admin.thy ===== *)
theory Admin
  imports Accounts Rate_Limit
begin

text \<open>
  User administration (plugins/admin/admin.go): the ban that guards sign-in and sessions,
  the check for administrators, and the endpoints. Bodies are decoded, query parameters
  are looked up in an argument, and \<open>AdminUserIDs\<close> and the lists of roles are lists.
\<close>

section \<open>Options\<close>

record admin_options =
  ao_default_role :: string
  ao_admin_roles :: "string list"
  ao_roles :: "string list"
  ao_admin_ids :: "string list"
  ao_imp_duration :: duration
  ao_ban_reason :: string
  ao_ban_expires :: duration
  ao_imp_admins :: bool

definition new_admin :: "admin_options \<Rightarrow> admin_options" where
  "new_admin ao = ao\<lparr>
     ao_default_role := (if ao_default_role ao = '''' then ''user'' else ao_default_role ao),
     ao_admin_roles := (if ao_admin_roles ao = [] then [''admin''] else ao_admin_roles ao),
     ao_imp_duration := (if ao_imp_duration ao = 0 then hours 1 else ao_imp_duration ao),
     ao_ban_reason := (if ao_ban_reason ao = '''' then ''No reason'' else ao_ban_reason ao)\<rparr>"

definition admin_schema :: "schema \<Rightarrow> schema" where
  "admin_schema sc = add_fields model_session [col ''impersonatedBy'' FieldString]
     (add_fields model_user [col ''role'' FieldString, defaulted (VBool False) (col ''banned'' FieldBool),
        col ''banReason'' FieldText, col ''banExpires'' FieldTime] sc)"

definition max_list_limit :: int where "max_list_limit = 500"
definition max_search_length :: nat where "max_search_length = 128"

definition err_banned :: gerror where "err_banned = ApiError 403 ''BANNED_USER''"
definition err_not_allowed :: gerror where "err_not_allowed = ApiError 403 ''NOT_ALLOWED''"
definition err_while_impersonating :: gerror where "err_while_impersonating = ApiError 403 ''NOT_ALLOWED_WHILE_IMPERSONATING''"
definition err_user_not_found :: gerror where "err_user_not_found = ApiError 400 ''USER_NOT_FOUND''"
definition err_role :: gerror where "err_role = ApiError 400 ''INVALID_ROLE''"

section \<open>Bans\<close>

definition ban_lifted :: grec where
  "ban_lifted = [(''banned'', VBool False), (''banReason'', VStr ''''), (''banExpires'', VTime zero_time)]"

text \<open>Whether the flag says banned, and whether the ban has run out. A flag that cannot be read is a ban.\<close>

definition ban_flag :: "user \<Rightarrow> bool" where
  "ban_flag u = (case map_of (u_extra u) ''banned'' of None \<Rightarrow> False | Some v \<Rightarrow> v \<noteq> VNil \<and> v \<noteq> VBool False)"

definition ban_over :: "gtime \<Rightarrow> user \<Rightarrow> bool" where
  "ban_over now u = (map_of (u_extra u) ''banned'' = Some (VBool True) \<and>
     (case map_of (u_extra u) ''banExpires'' of Some (VTime t) \<Rightarrow> \<not> is_zero_time t \<and> t < now | _ \<Rightarrow> False))"

definition is_banned :: "'s adapter \<Rightarrow> db_hooks \<Rightarrow> gtime \<Rightarrow> user \<Rightarrow> ('s, bool) act" where
  "is_banned A H now u =
     (if \<not> ban_flag u then ret False
      else if ban_over now u then attempt (update_user A H now (u_id u) ban_lifted) (\<lambda>_. ret False)
      else ret True)"

definition admin_before_sign_in :: "'s adapter \<Rightarrow> db_hooks \<Rightarrow> gtime \<Rightarrow> user \<Rightarrow> ('s, bool) act" where
  "admin_before_sign_in A H now u = bind (is_banned A H now u) (\<lambda>b. if b then fail err_banned else ret False)"

definition admin_check_session :: "'s adapter \<Rightarrow> db_hooks \<Rightarrow> gtime \<Rightarrow> session_data \<Rightarrow> ('s, unit) act" where
  "admin_check_session A H now sd = bind (is_banned A H now (sd_user sd)) (\<lambda>b. if b then fail err_banned else ret ())"

text \<open>What the two guards decide, as the guards of the other components are modelled.\<close>

definition banned_now :: "gtime \<Rightarrow> user \<Rightarrow> bool" where "banned_now now u = (ban_flag u \<and> \<not> ban_over now u)"

definition admin_plugin :: "gtime \<Rightarrow> plugin" where
  "admin_plugin now = \<lparr>pl_id = ''admin'',
     pl_sign_in = Some (\<lambda>u. if banned_now now u then Inl err_banned else Inr False),
     pl_session = Some (\<lambda>sd. if banned_now now (sd_user sd) then Some err_banned else None)\<rparr>"

lemma guards_decide:
  "snd (admin_before_sign_in A H now u s) = the (pl_sign_in (admin_plugin now)) u"
  "snd (admin_check_session A H now sd s) = (case the (pl_session (admin_plugin now)) sd of None \<Rightarrow> Inr () | Some e \<Rightarrow> Inl e)"
  by (simp_all add: admin_before_sign_in_def admin_check_session_def admin_plugin_def is_banned_def banned_now_def bind_def attempt_def
      split: prod.splits)

section \<open>Administrators\<close>

definition is_admin :: "admin_options \<Rightarrow> user \<Rightarrow> bool" where
  "is_admin ao u = (u_id u \<in> set (ao_admin_ids ao) \<or>
     list_ex (\<lambda>r. trim_space r \<in> set (ao_admin_roles ao)) (str_split (CHR '','') (str_val (rget (u_extra u) ''role''))))"

definition audit :: "req_ctx \<Rightarrow> session_data option \<Rightarrow> event \<Rightarrow> ('s world, unit) act" where
  "audit cx sd e = emit cx (case sd of
     None \<Rightarrow> e
   | Some d \<Rightarrow> e\<lparr>ev_actor := (if ev_actor e = '''' then u_id (sd_user d) else ev_actor e),
                  ev_email := (if ev_email e = '''' then u_email (sd_user d) else ev_email e),
                  ev_session := (if ev_session e = '''' then s_id (sd_session d) else ev_session e)\<rparr>)"

definition refusal :: "req_ctx \<Rightarrow> string \<Rightarrow> event" where
  "refusal cx reason = blank_event\<lparr>ev_type := ''admin.action'', ev_outcome := ''failure'', ev_reason := reason, ev_action := cx_route cx\<rparr>"

definition require_admin :: "admin_options \<Rightarrow> req_ctx \<Rightarrow> session_data result \<Rightarrow> ('s world, session_data) act" where
  "require_admin ao cx sess =
     (case sess of
        Inl e \<Rightarrow> bind (audit cx None (refusal cx ''not_authenticated'')) (\<lambda>_. fail e)
      | Inr sd \<Rightarrow>
          if \<not> is_admin ao (sd_user sd)
          then bind (audit cx (Some sd) (refusal cx ''not_authorized'')) (\<lambda>_. fail err_not_allowed)
          else if impersonator (sd_session sd) \<noteq> ''''
          then bind (audit cx (Some sd) ((refusal cx ''not_authorized'')\<lparr>ev_target := u_id (sd_user sd)\<rparr>)) (\<lambda>_. fail err_while_impersonating)
          else ret sd)"

definition admin_event :: "string \<Rightarrow> string \<Rightarrow> event" where
  "admin_event action target = blank_event\<lparr>ev_type := ''admin.action'', ev_action := action, ev_target := target\<rparr>"

definition validate_role :: "admin_options \<Rightarrow> string \<Rightarrow> gerror option" where
  "validate_role ao role =
     (if ao_roles ao = [] then None
      else if role = ao_default_role ao \<or> role \<in> set (ao_admin_roles ao) \<or> role \<in> set (ao_roles ao) then None
      else Some err_role)"

definition map_user_write_error :: "gerror \<Rightarrow> gerror" where
  "map_user_write_error e =
     (if e = ErrNotFound then err_user_not_found else if is_unique_violation e then err_user_exists else e)"

definition first_error :: "gerror option \<Rightarrow> gerror option \<Rightarrow> gerror option" where
  "first_error a b = (case a of None \<Rightarrow> b | Some e \<Rightarrow> Some e)"

definition validate_user_data :: "admin_options \<Rightarrow> grec \<Rightarrow> gerror option" where
  "validate_user_data ao data =
     first_error (case map_of data ''email'' of None \<Rightarrow> None | Some (VStr e) \<Rightarrow> validate_email e | Some _ \<Rightarrow> Some err_invalid_email)
       (case map_of data ''role'' of None \<Rightarrow> None | Some (VStr r) \<Rightarrow> validate_role ao r | Some _ \<Rightarrow> Some err_role)"

section \<open>Users\<close>

datatype admin_reply =
    AdminDone
  | AdminUser user
  | AdminUsers "user list" nat int int
  | AdminSession session user
  | AdminSessions "session list"

record create_user_body =
  cu_email :: string
  cu_password :: string
  cu_name :: string
  cu_role :: string
  cu_data :: grec

definition new_account_error :: "'s auth \<Rightarrow> admin_options \<Rightarrow> create_user_body \<Rightarrow> string \<Rightarrow> gerror option" where
  "new_account_error au ao b role =
     first_error (validate_email (cu_email b))
     (first_error (if cu_password b \<noteq> '''' then validate_password (au_ep au) (cu_password b) else None)
     (first_error (validate_role ao role) (validate_user_data ao (cu_data b))))"

definition admin_made_user :: "create_user_body \<Rightarrow> string \<Rightarrow> user" where
  "admin_made_user b role = (new_user (cu_name b) (cu_email b) '''' (gput (gdelete (cu_data b) ''email'') ''role'' (VStr role)))
     \<lparr>u_email_verified := True\<rparr>"

definition handle_create_user ::
  "'s auth \<Rightarrow> admin_options \<Rightarrow> req_ctx \<Rightarrow> session_data result \<Rightarrow> create_user_body option \<Rightarrow> ('s world, admin_reply) act" where
  "handle_create_user au ao cx sess body =
     bind (require_admin ao cx sess) (\<lambda>sd.
     bind (need_body body) (\<lambda>b.
     (let role = (if cu_role b = '''' then ao_default_role ao else cu_role b) in
      bind (check (new_account_error au ao b role)) (\<lambda>_.
      attempt (db (find_user_by_email (au_db au) (cu_email b))) (\<lambda>found.
      if is_ok found then fail err_user_exists
      else attempt (db (create_user (au_db au) (au_hooks au) (cx_now cx) (cx_fresh cx ''user-id'') (admin_made_user b role))) (\<lambda>r. case r of
        Inl e \<Rightarrow> fail (if is_unique_violation e then err_user_exists else e)
      | Inr u \<Rightarrow>
          bind (if cu_password b = '''' then ret ()
                else bind (hash_with (au_hasher au) (cx_fresh cx ''salt'') (cu_password b)) (\<lambda>h.
                     db (create_credential_account au cx (u_id u) h))) (\<lambda>_.
          bind (audit cx (Some sd) (admin_event ''create-user'' (u_id u))) (\<lambda>_.
          ret (AdminUser u)))))))))"

text \<open>\<open>atoi\<close> with a default, and \<open>clampInt\<close>.\<close>

definition atoi_or :: "string \<Rightarrow> int \<Rightarrow> int" where
  "atoi_or s d = (if s = '''' then d else case parse_int64 s of None \<Rightarrow> d | Some n \<Rightarrow> n)"

definition clamp :: "int \<Rightarrow> int \<Rightarrow> int \<Rightarrow> int" where
  "clamp v lo hi = (if v < lo then lo else if v > hi then hi else v)"

definition user_column :: "'s auth \<Rightarrow> string \<Rightarrow> bool" where
  "user_column au f = (case schema_table (au_schema au) model_user of None \<Rightarrow> False | Some t \<Rightarrow> has_field t f)"

definition list_options :: "'s auth \<Rightarrow> (string \<Rightarrow> string) \<Rightarrow> find_options" where
  "list_options au q =
     \<lparr>fo_limit = clamp (atoi_or (q ''limit'') 100) 1 max_list_limit, fo_offset = clamp (atoi_or (q ''offset'') 0) 0 (2 ^ 31),
      fo_sort = Some (if user_column au (q ''sortBy'') then q ''sortBy'' else ''createdAt'',
                      if q ''sortDirection'' = '''' then ''desc'' else q ''sortDirection'')\<rparr>"

definition search_clause :: "(string \<Rightarrow> string) \<Rightarrow> clause list" where
  "search_clause q =
     (if q ''searchValue'' = '''' then []
      else [W_op (if q ''searchField'' = ''name'' then ''name'' else ''email'')
              (if q ''searchOperator'' = ''starts_with'' then OpStartsWith
               else if q ''searchOperator'' = ''ends_with'' then OpEndsWith else OpContains) (VStr (q ''searchValue''))])"

definition filter_clause :: "(string \<Rightarrow> string) \<Rightarrow> clause list" where
  "filter_clause q =
     (if q ''filterValue'' \<noteq> '''' \<and> q ''filterField'' \<noteq> '''' then [W (q ''filterField'') (VStr (q ''filterValue''))] else [])"

definition list_error :: "'s auth \<Rightarrow> (string \<Rightarrow> string) \<Rightarrow> gerror option" where
  "list_error au q =
     (if length (q ''searchValue'') > max_search_length then Some (ApiError 400 ''SEARCH_TOO_LONG'')
      else if filter_clause q \<noteq> [] \<and> \<not> user_column au (q ''filterField'') then Some (ApiError 400 ''INVALID_FILTER_FIELD'')
      else None)"

definition handle_list_users ::
  "'s auth \<Rightarrow> admin_options \<Rightarrow> req_ctx \<Rightarrow> session_data result \<Rightarrow> (string \<Rightarrow> string) \<Rightarrow> ('s world, admin_reply) act" where
  "handle_list_users au ao cx sess q =
     bind (require_admin ao cx sess) (\<lambda>sd.
     bind (check (list_error au q)) (\<lambda>_.
     (let ws = search_clause q @ filter_clause q; opts = list_options au q in
      bind (db (query (ad_find_many (au_db au) model_user ws (Some opts)))) (\<lambda>rs.
      bind (db (query (ad_count (au_db au) model_user ws))) (\<lambda>n.
      bind (audit cx (Some sd) (admin_event ''list-users'' '''')) (\<lambda>_.
      ret (AdminUsers (map user_from_map rs) n (fo_limit opts) (fo_offset opts))))))))"

text \<open>An update of a user by an administrator, its errors mapped.\<close>

definition admin_update :: "'s auth \<Rightarrow> req_ctx \<Rightarrow> string \<Rightarrow> grec \<Rightarrow> ('s world, user) act" where
  "admin_update au cx uid upd =
     attempt (db (update_user (au_db au) (au_hooks au) (cx_now cx) uid upd)) (\<lambda>r. case r of
       Inl e \<Rightarrow> fail (map_user_write_error e) | Inr u \<Rightarrow> ret u)"

definition handle_set_role ::
  "'s auth \<Rightarrow> admin_options \<Rightarrow> req_ctx \<Rightarrow> session_data result \<Rightarrow> (string \<times> string) option \<Rightarrow> ('s world, admin_reply) act" where
  "handle_set_role au ao cx sess body =
     bind (require_admin ao cx sess) (\<lambda>sd.
     bind (need_body body) (\<lambda>(uid, role).
     bind (check (validate_role ao role)) (\<lambda>_.
     bind (admin_update au cx uid [(''role'', VStr role)]) (\<lambda>u.
     bind (audit cx (Some sd) (admin_event (''set-role:'' @ role) (u_id u))) (\<lambda>_.
     ret (AdminUser u))))))"

definition handle_set_user_password ::
  "'s auth \<Rightarrow> admin_options \<Rightarrow> req_ctx \<Rightarrow> session_data result \<Rightarrow> (string \<times> string) option \<Rightarrow> ('s world, admin_reply) act" where
  "handle_set_user_password au ao cx sess body =
     bind (require_admin ao cx sess) (\<lambda>sd.
     bind (need_body body) (\<lambda>(uid, pw).
     bind (check (validate_password (au_ep au) pw)) (\<lambda>_.
     bind (hash_with (au_hasher au) (cx_fresh cx ''salt'') pw) (\<lambda>h.
     bind (db (set_credential_password au cx uid h)) (\<lambda>_.
     bind (audit cx (Some sd) (admin_event ''set-user-password'' uid)) (\<lambda>_.
     ret AdminDone))))))"

definition handle_admin_update ::
  "'s auth \<Rightarrow> admin_options \<Rightarrow> req_ctx \<Rightarrow> session_data result \<Rightarrow> (string \<times> grec) option \<Rightarrow> ('s world, admin_reply) act" where
  "handle_admin_update au ao cx sess body =
     bind (require_admin ao cx sess) (\<lambda>sd.
     bind (need_body body) (\<lambda>(uid, raw).
     if raw = [] then fail err_invalid_body
     else (let data = gdelete raw ''id'' in
      bind (check (validate_user_data ao data)) (\<lambda>_.
      bind (admin_update au cx uid data) (\<lambda>u.
      bind (audit cx (Some sd) (admin_event ''update-user'' (u_id u))) (\<lambda>_.
      ret (AdminUser u)))))))"

section \<open>Banning\<close>

record ban_body =
  bb_user :: string
  bb_reason :: string
  bb_expires_in :: "int option"

definition ban_update :: "admin_options \<Rightarrow> gtime \<Rightarrow> ban_body \<Rightarrow> grec" where
  "ban_update ao now b =
     [(''banned'', VBool True), (''banReason'', VStr (if bb_reason b = '''' then ao_ban_reason ao else bb_reason b))] @
     (case bb_expires_in b of
        Some n \<Rightarrow> if n > 0 then [(''banExpires'', VTime (time_add now (wrap_int64 (n * nsec_per_sec))))]
                  else if ao_ban_expires ao > 0 then [(''banExpires'', VTime (time_add now (ao_ban_expires ao)))] else []
      | None \<Rightarrow> if ao_ban_expires ao > 0 then [(''banExpires'', VTime (time_add now (ao_ban_expires ao)))] else [])"

definition handle_ban_user ::
  "'s auth \<Rightarrow> admin_options \<Rightarrow> req_ctx \<Rightarrow> session_data result \<Rightarrow> ban_body option \<Rightarrow> ('s world, admin_reply) act" where
  "handle_ban_user au ao cx sess body =
     bind (require_admin ao cx sess) (\<lambda>sd.
     bind (need_body body) (\<lambda>b.
     bind (check (if bb_user b = u_id (sd_user sd) then Some (ApiError 400 ''CANNOT_BAN_YOURSELF'') else None)) (\<lambda>_.
     bind (admin_update au cx (bb_user b) (ban_update ao (cx_now cx) b)) (\<lambda>u.
     bind (ignore (db (revoke_user_sessions (au_db au) (bb_user b)))) (\<lambda>_.
     bind (audit cx (Some sd) (blank_event\<lparr>ev_type := ''admin.user_banned'', ev_target := bb_user b\<rparr>)) (\<lambda>_.
     bind (audit cx (Some sd) (blank_event\<lparr>ev_type := ''session.revoked'', ev_target := bb_user b, ev_action := ''ban''\<rparr>)) (\<lambda>_.
     ret (AdminUser u))))))))"

definition handle_unban_user ::
  "'s auth \<Rightarrow> admin_options \<Rightarrow> req_ctx \<Rightarrow> session_data result \<Rightarrow> string option \<Rightarrow> ('s world, admin_reply) act" where
  "handle_unban_user au ao cx sess body =
     bind (require_admin ao cx sess) (\<lambda>sd.
     bind (need_body body) (\<lambda>uid.
     bind (admin_update au cx uid ban_lifted) (\<lambda>u.
     bind (audit cx (Some sd) (blank_event\<lparr>ev_type := ''admin.user_unbanned'', ev_target := u_id u\<rparr>)) (\<lambda>_.
     ret (AdminUser u)))))"

section \<open>Impersonation\<close>

definition imp_event :: "string \<Rightarrow> event" where
  "imp_event target = blank_event\<lparr>ev_type := ''admin.impersonation_started'', ev_target := target\<rparr>"

definition handle_impersonate ::
  "'s auth \<Rightarrow> admin_options \<Rightarrow> req_ctx \<Rightarrow> session_data result \<Rightarrow> string option \<Rightarrow> ('s world, admin_reply) act" where
  "handle_impersonate au ao cx sess body =
     bind (require_admin ao cx sess) (\<lambda>sd.
     bind (need_body body) (\<lambda>uid.
     attempt (db (find_user_by_id (au_db au) uid)) (\<lambda>r. case r of
       Inl _ \<Rightarrow> bind (audit cx (Some sd) ((imp_event uid)\<lparr>ev_outcome := ''failure'', ev_reason := ''unknown_user''\<rparr>)) (\<lambda>_. fail err_user_not_found)
     | Inr target \<Rightarrow>
         if is_admin ao target \<and> \<not> ao_imp_admins ao
         then bind (audit cx (Some sd) ((imp_event (u_id target))\<lparr>ev_outcome := ''failure'', ev_reason := ''not_authorized''\<rparr>)) (\<lambda>_.
              fail (ApiError 403 ''CANNOT_IMPERSONATE_ADMIN''))
         else bind (issue_session (au_db au) (au_hooks au) (au_session au) (cx\<lparr>cx_auth_method := ''impersonation''\<rparr>) target False
                      [(''impersonatedBy'', VStr (u_id (sd_user sd)))] (ao_imp_duration ao)) (\<lambda>s.
              bind (audit (cx\<lparr>cx_auth_method := ''impersonation''\<rparr>) (Some sd)
                      ((imp_event (u_id target))\<lparr>ev_session := s_id s, ev_method := ''impersonation''\<rparr>)) (\<lambda>_.
              ret (AdminSession s target))))))"

definition handle_stop_impersonating :: "'s auth \<Rightarrow> req_ctx \<Rightarrow> session_data result \<Rightarrow> ('s world, admin_reply) act" where
  "handle_stop_impersonating au cx sess =
     bind (require_session sess) (\<lambda>sd.
     (let imp = impersonator (sd_session sd) in
      if imp = '''' then fail (ApiError 400 ''NOT_IMPERSONATING'')
      else attempt (db (find_user_by_id (au_db au) imp)) (\<lambda>r. case r of
        Inl _ \<Rightarrow> fail err_user_not_found
      | Inr adm \<Rightarrow>
          bind (emit cx (blank_event\<lparr>ev_type := ''admin.impersonation_stopped'', ev_actor := u_id adm, ev_email := u_email adm,
                  ev_target := u_id (sd_user sd), ev_session := s_id (sd_session sd), ev_method := ''impersonation''\<rparr>)) (\<lambda>_.
          bind (ignore (db (revoke_session (au_db au) (s_token (sd_session sd))))) (\<lambda>_.
          bind (issue_session (au_db au) (au_hooks au) (au_session au) cx adm True [] (expires_in (au_session au))) (\<lambda>s.
          ret (AdminSession s adm)))))))"

section \<open>Sessions and removal\<close>

definition handle_admin_sessions ::
  "'s auth \<Rightarrow> admin_options \<Rightarrow> req_ctx \<Rightarrow> session_data result \<Rightarrow> string option \<Rightarrow> ('s world, admin_reply) act" where
  "handle_admin_sessions au ao cx sess body =
     bind (require_admin ao cx sess) (\<lambda>sd.
     bind (need_body body) (\<lambda>uid.
     bind (db (list_user_sessions (au_db au) uid)) (\<lambda>ss.
     bind (audit cx (Some sd) (admin_event ''list-user-sessions'' uid)) (\<lambda>_.
     ret (AdminSessions ss)))))"

definition handle_admin_revoke ::
  "'s auth \<Rightarrow> admin_options \<Rightarrow> req_ctx \<Rightarrow> session_data result \<Rightarrow> (string \<times> string) option \<Rightarrow> ('s world, admin_reply) act" where
  "handle_admin_revoke au ao cx sess body =
     bind (require_admin ao cx sess) (\<lambda>sd.
     bind (need_body body) (\<lambda>(tok, i).
     bind (if i \<noteq> '''' then db (revoke_session_by_id (au_db au) i)
           else if tok \<noteq> '''' then db (revoke_session (au_db au) tok)
           else fail err_invalid_body) (\<lambda>_.
     bind (audit cx (Some sd) (blank_event\<lparr>ev_type := ''session.revoked'', ev_action := ''admin-revoke-session''\<rparr>)) (\<lambda>_.
     ret AdminDone))))"

definition handle_admin_revoke_all ::
  "'s auth \<Rightarrow> admin_options \<Rightarrow> req_ctx \<Rightarrow> session_data result \<Rightarrow> string option \<Rightarrow> ('s world, admin_reply) act" where
  "handle_admin_revoke_all au ao cx sess body =
     bind (require_admin ao cx sess) (\<lambda>sd.
     bind (need_body body) (\<lambda>uid.
     bind (db (revoke_user_sessions (au_db au) uid)) (\<lambda>_.
     bind (audit cx (Some sd) (blank_event\<lparr>ev_type := ''session.revoked'', ev_target := uid, ev_action := ''admin-revoke-all-sessions''\<rparr>)) (\<lambda>_.
     ret AdminDone))))"

definition handle_remove_user ::
  "'s auth \<Rightarrow> admin_options \<Rightarrow> req_ctx \<Rightarrow> session_data result \<Rightarrow> string option \<Rightarrow> ('s world, admin_reply) act" where
  "handle_remove_user au ao cx sess body =
     bind (require_admin ao cx sess) (\<lambda>sd.
     bind (need_body body) (\<lambda>uid.
     bind (check (if uid = u_id (sd_user sd) then Some (ApiError 400 ''CANNOT_REMOVE_YOURSELF'') else None)) (\<lambda>_.
     bind (db (delete_user (au_db au) (au_schema au) uid)) (\<lambda>_.
     bind (audit cx (Some sd) (blank_event\<lparr>ev_type := ''account.deleted'', ev_target := uid, ev_action := ''admin-remove-user''\<rparr>)) (\<lambda>_.
     ret AdminDone)))))"

section \<open>Requests\<close>

datatype admin_call =
    AdmCreate "create_user_body option"
  | AdmList "string \<Rightarrow> string"
  | AdmSetRole "(string \<times> string) option"
  | AdmSetPassword "(string \<times> string) option"
  | AdmUpdate "(string \<times> grec) option"
  | AdmBan "ban_body option"
  | AdmUnban "string option"
  | AdmImpersonate "string option"
  | AdmStop
  | AdmSessions "string option"
  | AdmRevoke "(string \<times> string) option"
  | AdmRevokeAll "string option"
  | AdmRemove "string option"

fun admin_run :: "'s auth \<Rightarrow> admin_options \<Rightarrow> req_ctx \<Rightarrow> session_data result \<Rightarrow> admin_call \<Rightarrow> ('s world, admin_reply) act" where
  "admin_run au ao cx sess (AdmCreate b) = handle_create_user au ao cx sess b"
| "admin_run au ao cx sess (AdmList q) = handle_list_users au ao cx sess q"
| "admin_run au ao cx sess (AdmSetRole b) = handle_set_role au ao cx sess b"
| "admin_run au ao cx sess (AdmSetPassword b) = handle_set_user_password au ao cx sess b"
| "admin_run au ao cx sess (AdmUpdate b) = handle_admin_update au ao cx sess b"
| "admin_run au ao cx sess (AdmBan b) = handle_ban_user au ao cx sess b"
| "admin_run au ao cx sess (AdmUnban b) = handle_unban_user au ao cx sess b"
| "admin_run au ao cx sess (AdmImpersonate b) = handle_impersonate au ao cx sess b"
| "admin_run au ao cx sess AdmStop = handle_stop_impersonating au cx sess"
| "admin_run au ao cx sess (AdmSessions b) = handle_admin_sessions au ao cx sess b"
| "admin_run au ao cx sess (AdmRevoke b) = handle_admin_revoke au ao cx sess b"
| "admin_run au ao cx sess (AdmRevokeAll b) = handle_admin_revoke_all au ao cx sess b"
| "admin_run au ao cx sess (AdmRemove b) = handle_remove_user au ao cx sess b"

section \<open>Simulation\<close>

text \<open>The contract speaks of new rows that have an id, so a body that brings its own is left out.\<close>

definition no_own_id :: "admin_call \<Rightarrow> bool" where
  "no_own_id call = (case call of AdmCreate (Some b) \<Rightarrow> \<not> ghas (cu_data b) ''id'' | _ \<Rightarrow> True)"

lemma sim_require_admin [sim_intros]: "sim (wmap \<alpha>) (winv I) (require_admin ao cx sess) (require_admin ao cx sess)"
  and sim_audit [sim_intros]: "sim (wmap \<alpha>) (winv I) (audit cx sd e) (audit cx sd e)"
  unfolding require_admin_def audit_def by (auto intro!: sim_intros split: sum.splits)

lemma on_spec_requests [simp]:
  "new_account_error (on_spec au) = new_account_error au" "list_error (on_spec au) = list_error au"
  "list_options (on_spec au) = list_options au"
  by (simp_all add: fun_eq_iff new_account_error_def list_error_def list_options_def user_column_def)

lemma ban_update_no_id: "map_of (ban_update ao now b) ''id'' = None"
  by (auto simp: ban_update_def split: option.splits)

context storage_contract
begin

lemma is_banned_sim: "hooks_ok H \<Longrightarrow> sim \<alpha> I (is_banned A H now u) (is_banned spec_adapter H now u)"
  unfolding is_banned_def by (auto intro!: sim_intros store_sims simp: ban_lifted_def ghas_def)

lemma admin_update_sim:
  assumes "au_db au = A" and "hooks_ok (au_hooks au)" and "\<not> ghas upd ''id''"
  shows "sim (wmap \<alpha>) (winv I) (admin_update au cx uid upd) (admin_update (on_spec au) cx uid upd)"
  using assms unfolding admin_update_def assms(1) on_spec_sel by (auto intro!: sim_intros store_sims)

lemma credential_sims:
  assumes db: "au_db au = A" and hooks: "hooks_ok (au_hooks au)"
  shows "sim \<alpha> I (create_credential_account au cx uid h) (create_credential_account (on_spec au) cx uid h)"
    and "sim \<alpha> I (set_credential_password au cx uid h) (set_credential_password (on_spec au) cx uid h)"
  using hooks unfolding set_credential_password_def create_credential_account_def db on_spec_sel
  by (auto intro!: sim_intros store_sims simp: credential_account_def ghas_def)

lemma admin_run_sim:
  assumes db: "au_db au = A" and hooks: "hooks_ok (au_hooks au)" and id: "no_own_id call"
  shows "sim (wmap \<alpha>) (winv I) (admin_run au ao cx sess call) (admin_run (on_spec au) ao cx sess call)"
  using id
  by (cases call; simp only: admin_run.simps handle_create_user_def handle_list_users_def handle_set_role_def handle_set_user_password_def
      handle_admin_update_def handle_ban_user_def handle_unban_user_def handle_impersonate_def handle_stop_impersonating_def
      handle_admin_sessions_def handle_admin_revoke_def handle_admin_revoke_all_def handle_remove_user_def revoke_user_sessions_def
      revoke_session_def revoke_session_by_id_def Let_def db on_spec_sel;
    auto intro!: sim_intros store_sims storage_sims effect_sims credential_sims[OF db hooks] admin_update_sim[OF db hooks] hooks
      simp: no_own_id_def need_body_def ban_lifted_def ban_update_no_id admin_made_user_def new_user_def ghas_def
      split: option.splits split del: if_split)

end

end
