(* ===== verification/Admin_Laws.thy ===== *)
theory Admin_Laws
  imports Admin Sign_Up_Laws
begin

text \<open>
  What administration promises: only administrators acting as themselves get anything
  done and whatever they do is on record under their name, an impersonation is short and
  powerless, and a ban shuts its user out.
\<close>

section \<open>On record\<close>

definition log_grows :: "'s world \<Rightarrow> 's world \<Rightarrow> bool" where
  "log_grows w w' \<longleftrightarrow> (\<exists>l. w_log w' = w_log w @ l)"

interpretation growth: step_order log_grows
  by unfold_locales (auto simp: log_grows_def)

text \<open>An action that, if it succeeds, ends with an event of success in the name of this session.\<close>

definition recorded :: "session_data \<Rightarrow> 's world \<Rightarrow> 's world \<Rightarrow> bool" where
  "recorded sd w w' \<longleftrightarrow>
     (\<exists>l e. w_log w' = w_log w @ l @ [Emitted e] \<and> ev_outcome e = ''success'' \<and> ev_actor e = u_id (sd_user sd))"

definition on_record :: "session_data \<Rightarrow> ('s world, 'a) act \<Rightarrow> bool" where
  "on_record sd f \<longleftrightarrow> (\<forall>w w' v. f w = (w', Inr v) \<longrightarrow> recorded sd w w')"

lemma recorded_after: "log_grows w v \<Longrightarrow> recorded sd v w' \<Longrightarrow> recorded sd w w'"
  unfolding log_grows_def recorded_def by (metis append.assoc)

named_theorems record_intros \<open>rules for what is on record\<close>
declare growth.rules [record_intros]

lemma grows_small [record_intros]:
  "moves log_grows (db f)" "moves log_grows (did x)" "moves log_grows (emit cx e)" "moves log_grows (audit cx s e)"
  "moves log_grows (need_body b)" "moves log_grows (check c)" "moves log_grows (hash_with h salt pw)"
  by (auto simp: moves_def log_grows_def audit_def need_body_def check_def hash_with_def bind_def split: option.splits prod.splits)

lemma grows_more [record_intros]:
  "moves log_grows f \<Longrightarrow> moves log_grows (ignore f)"
  "moves log_grows (admin_update au cx uid upd)"
  "moves log_grows (issue_session A H cfg cx u rem extra dur)"
  by (simp add: ignore_def moves_def attempt_def split_beta)
    (auto simp: admin_update_def issue_session_def intro!: record_intros)

lemma on_record_bind [record_intros]:
  assumes "moves log_grows f" and "\<And>x. on_record sd (k x)"
  shows "on_record sd (bind f k)"
  unfolding on_record_def
proof (intro allI impI)
  fix w w' v assume "bind f k w = (w', Inr v)"
  from bind_okD[OF this] obtain w1 x where f: "f w = (w1, Inr x)" "k x w1 = (w', Inr v)" by blast
  from assms(2)[of x] f(2) have "recorded sd w1 w'" by (simp add: on_record_def)
  then show "recorded sd w w'" by (rule recorded_after[OF movesD[OF assms(1) f(1)]])
qed

lemma on_record_attempt [record_intros]:
  assumes "moves log_grows f" and "\<And>x. on_record sd (k x)"
  shows "on_record sd (attempt f k)"
  unfolding on_record_def
proof (intro allI impI)
  fix w w' v assume *: "attempt f k w = (w', Inr v)"
  obtain w1 x where f: "f w = (w1, x)" by force
  from * f have "k x w1 = (w', Inr v)" by (simp add: attempt_def)
  with assms(2)[of x] have "recorded sd w1 w'" by (simp add: on_record_def)
  then show "recorded sd w w'" by (rule recorded_after[OF movesD[OF assms(1) f]])
qed

lemma on_record_branches [record_intros]:
  "on_record sd (fail e)"
  "(b \<Longrightarrow> on_record sd f1) \<Longrightarrow> (\<not> b \<Longrightarrow> on_record sd f2) \<Longrightarrow> on_record sd (if b then f1 else f2)"
  "(\<And>e. r = Inl e \<Longrightarrow> on_record sd (g e)) \<Longrightarrow> (\<And>v. r = Inr v \<Longrightarrow> on_record sd (h v)) \<Longrightarrow>
    on_record sd (case r of Inl e \<Rightarrow> g e | Inr v \<Rightarrow> h v)"
  by (simp add: on_record_def fail_def, simp, cases r, simp_all)

lemma record_end [record_intros]:
  assumes "ev_actor e = ''''" "ev_outcome e = ''''" "ev_reason e = ''''"
  shows "on_record sd (bind (audit cx (Some sd) e) (\<lambda>_. ret v))"
  using assms by (auto simp: on_record_def recorded_def audit_def fill_event_def bind_emit ret_def)
section \<open>Only administrators\<close>

definition acts_as_admin :: "admin_options \<Rightarrow> session_data result \<Rightarrow> bool" where
  "acts_as_admin ao sess = (case sess of Inl _ \<Rightarrow> False | Inr sd \<Rightarrow> is_admin ao (sd_user sd) \<and> impersonator (sd_session sd) = '''')"

definition actor_of :: "session_data result \<Rightarrow> string" where
  "actor_of sess = (case sess of Inl _ \<Rightarrow> '''' | Inr sd \<Rightarrow> u_id (sd_user sd))"

lemma require_admin_run:
  "require_admin ao cx sess w = (w', Inr sd) \<longleftrightarrow> sess = Inr sd \<and> acts_as_admin ao sess \<and> w' = w"
  by (cases sess) (auto simp: require_admin_def acts_as_admin_def audit_def ret_def fail_def)

lemma require_admin_refuses:
  assumes "\<not> acts_as_admin ao sess"
  shows "\<exists>e w' ev. require_admin ao cx sess w = (w', Inl e) \<and> w_db w' = w_db w \<and> w_log w' = w_log w @ [Emitted ev]
    \<and> ev_type ev = ''admin.action'' \<and> ev_outcome ev = ''failure'' \<and> ev_actor ev = actor_of sess"
  using assms by (cases sess)
    (simp_all add: require_admin_def acts_as_admin_def actor_of_def audit_def refusal_def fill_event_def fail_def blank_event_def)

lemma stays_require_admin: "moves log_grows (require_admin ao cx sess)"
  by (simp add: require_admin_def fail_def ret_def moves_def log_grows_def audit_def split: sum.splits)

text \<open>Every endpoint but the end of an impersonation asks for an administrator, and then puts what it does on record.\<close>

lemma admin_run_shape:
  assumes "call \<noteq> AdmStop"
  shows "\<exists>k. admin_run au ao cx sess call = bind (require_admin ao cx sess) k \<and> (\<forall>sd. on_record sd (k sd))"
  using assms
  by (cases call; simp only: admin_run.simps handle_create_user_def handle_list_users_def handle_set_role_def handle_set_user_password_def
      handle_admin_update_def handle_ban_user_def handle_unban_user_def handle_impersonate_def handle_admin_sessions_def
      handle_admin_revoke_def handle_admin_revoke_all_def handle_remove_user_def Let_def split_def)
    (rule exI, rule conjI, rule refl, rule allI,
     (rule record_end | rule record_intros | (simp add: admin_event_def imp_event_def blank_event_def; fail))+)+
section \<open>An installation with an administrator\<close>

definition demo_admin_options :: admin_options where
  "demo_admin_options = new_admin \<lparr>ao_default_role = '''', ao_admin_roles = [], ao_roles = [], ao_admin_ids = [], ao_imp_duration = 0,
     ao_ban_reason = '''', ao_ban_expires = 0, ao_imp_admins = False\<rparr>"

definition demo_admin_schema :: schema where "demo_admin_schema = admin_schema core_schema"

definition demo_person :: "string \<Rightarrow> string \<Rightarrow> string \<Rightarrow> user" where
  "demo_person i email role = demo_user_row\<lparr>u_id := i, u_email := email, u_extra := [(''role'', VStr role)]\<rparr>"

definition demo_boss :: session_data where
  "demo_boss = \<lparr>sd_session = demo_session 0 1000, sd_user = demo_person ''u1'' ''a@x.org'' ''admin'', sd_from_cache = False\<rparr>"

definition demo_guest :: session_data where
  "demo_guest = \<lparr>sd_session = demo_session 0 1000\<lparr>s_user := ''u2''\<rparr>, sd_user = demo_person ''u2'' ''b@x.org'' ''user'', sd_from_cache = False\<rparr>"

definition demo_admin_rows :: "(string \<times> grec) list" where
  "demo_admin_rows = [(model_user, user_to_map (demo_person ''u1'' ''a@x.org'' ''admin'')), (model_user, user_to_map (demo_person ''u2'' ''b@x.org'' ''user'')),
     (model_session, session_to_map (demo_session 0 1000)),
     (model_session, session_to_map (demo_session 0 1000\<lparr>s_id := ''s2'', s_user := ''u2'', s_token := ''tok2''\<rparr>))]"

lemma demo_admin_ids: "rows_with_ids demo_admin_rows" by code_simp
lemma demo_admin_wf: "wf_schema demo_admin_schema" by code_simp

abbreviation demo_admin_world :: "mem world" where "demo_admin_world \<equiv> seeded_in demo_admin_schema demo_admin_rows"
abbreviation demo_admin_spec :: "sdb world" where "demo_admin_spec \<equiv> spec_seeded_in demo_admin_schema demo_admin_rows"

lemmas demo_admin_facts = seeded_in_facts[OF demo_admin_wf demo_admin_ids]

lemma demo_admin_sim: "no_own_id call \<Longrightarrow> sim (wmap mem_abs) (winv (mem_inv (Some demo_admin_schema)))
    (admin_run (demo_auth mem_adapter) ao cx sess call) (admin_run (demo_auth spec_adapter) ao cx sess call)"
  using mem.admin_run_sim[of "demo_auth mem_adapter" call] by simp

lemmas demo_admin_run = seeded_in_run[OF demo_admin_wf demo_admin_ids demo_admin_sim]

abbreviation demo_ban :: admin_call where "demo_ban \<equiv> AdmBan (Some \<lparr>bb_user = ''u2'', bb_reason = '''', bb_expires_in = Some 60\<rparr>)"

section \<open>Nobody else, and nothing off the record\<close>

text \<open>
  C38: every administrative endpoint (all but the end of an impersonation) asked for without a
  session, by a user who is no administrator, or in an impersonated session, fails, leaves the
  store as it is and puts exactly one event on record: a failed \<open>admin.action\<close> in the name of
  whoever asked. If it succeeds, the last thing it did was to record a success in the name of the
  administrator who asked.
\<close>

theorem admin_endpoints_guarded:
  assumes "call \<noteq> AdmStop" and "admin_run au ao cx sess call w = (w', r)"
  shows "(\<not> acts_as_admin ao sess \<longrightarrow> \<not> is_ok r \<and> w_db w' = w_db w \<and>
      (\<exists>ev. w_log w' = w_log w @ [Emitted ev] \<and> ev_type ev = ''admin.action'' \<and> ev_outcome ev = ''failure'' \<and> ev_actor ev = actor_of sess))
    \<and> (is_ok r \<longrightarrow> (\<exists>sd. sess = Inr sd \<and> recorded sd w w'))"
proof -
  obtain k where shape: "admin_run au ao cx sess call = bind (require_admin ao cx sess) k" and rec: "\<And>sd. on_record sd (k sd)"
    using admin_run_shape[OF assms(1)] by blast
  have "\<not> acts_as_admin ao sess \<Longrightarrow> \<not> is_ok r \<and> w_db w' = w_db w \<and>
      (\<exists>ev. w_log w' = w_log w @ [Emitted ev] \<and> ev_type ev = ''admin.action'' \<and> ev_outcome ev = ''failure'' \<and> ev_actor ev = actor_of sess)"
    using require_admin_refuses[of ao sess cx w] assms(2) unfolding shape by (auto simp: bind_def)
  moreover have "\<exists>sd. sess = Inr sd \<and> recorded sd w w'" if ok: "is_ok r"
  proof -
    obtain v where "r = Inr v" using ok by (cases r) auto
    with assms(2) shape obtain w1 sd where 1: "require_admin ao cx sess w = (w1, Inr sd)" and 2: "k sd w1 = (w', Inr v)"
      using bind_okD[of "require_admin ao cx sess" k w w' v] by auto
    from 1 have "sess = Inr sd" "w1 = w" by (simp_all add: require_admin_run)
    with 2 rec[of sd] show ?thesis by (auto simp: on_record_def)
  qed
  ultimately show ?thesis by blast
qed

lemma admin_endpoints_guarded_witness:
  "(\<exists>w' u. admin_run (demo_auth mem_adapter) demo_admin_options demo_cx (Inr demo_boss) demo_ban demo_admin_world = (w', Inr (AdminUser u))
      \<and> recorded demo_boss demo_admin_world w')
    \<and> (\<exists>w' e. admin_run (demo_auth mem_adapter) demo_admin_options demo_cx (Inr demo_guest) demo_ban demo_admin_world = (w', Inl e)
      \<and> w_db w' = w_db demo_admin_world)"
proof
  let ?run = "\<lambda>sd. admin_run (demo_auth spec_adapter) demo_admin_options demo_cx (Inr sd) demo_ban demo_admin_spec"
  have "(case snd (?run demo_boss) of Inr (AdminUser u) \<Rightarrow> True | _ \<Rightarrow> False)" by code_simp
  then obtain u where r: "snd (?run demo_boss) = Inr (AdminUser u)" by (auto split: sum.splits admin_reply.splits)
  have no: "no_own_id demo_ban" by (simp add: no_own_id_def)
  from demo_admin_run[OF no r] obtain w' where
    w': "admin_run (demo_auth mem_adapter) demo_admin_options demo_cx (Inr demo_boss) demo_ban demo_admin_world = (w', Inr (AdminUser u))" by blast
  show "\<exists>w' u. admin_run (demo_auth mem_adapter) demo_admin_options demo_cx (Inr demo_boss) demo_ban demo_admin_world = (w', Inr (AdminUser u))
      \<and> recorded demo_boss demo_admin_world w'"
    using admin_endpoints_guarded[OF _ w'] w' by auto
  have not: "\<not> acts_as_admin demo_admin_options (Inr demo_guest)" by code_simp
  obtain w' r where g: "admin_run (demo_auth mem_adapter) demo_admin_options demo_cx (Inr demo_guest) demo_ban demo_admin_world = (w', r)" by force
  from admin_endpoints_guarded[OF _ g] not have "\<not> is_ok r" "w_db w' = w_db demo_admin_world" by auto
  then show "\<exists>w' e. admin_run (demo_auth mem_adapter) demo_admin_options demo_cx (Inr demo_guest) demo_ban demo_admin_world = (w', Inl e)
      \<and> w_db w' = w_db demo_admin_world"
    using g by (cases r) auto
qed

end
