(* ===== verification/Ban_Laws.thy ===== *)
theory Ban_Laws
  imports Admin_Laws
begin

text \<open>
  What impersonations and bans amount to: the sessions minted for an administrator in
  another's name, and what is left to a user who has been banned. Then three things the
  endpoints do that they should not, on a small installation.
\<close>

section \<open>Impersonation\<close>

lemma found_user_id: "find_user_by_id spec_adapter i d = (d', Inr u) \<Longrightarrow> u_id u = i"
proof -
  assume "find_user_by_id spec_adapter i d = (d', Inr u)"
  then obtain row where row: "find (\<lambda>r. matches r [W ''id'' (VStr i)]) (sd_rows d model_user) = Some row" and u: "u = user_from_map row"
    by (auto simp: find_user_by_id_def bind_query spec_find_one_def split: option.splits)
  have "(\<lambda>r. matches r [W ''id'' (VStr i)]) = with_str ''id'' i" by (rule ext) (simp add: with_str_def)
  with find_in[OF row] show ?thesis by (simp add: u user_from_map_def with_str_def)
qed

lemma row_get: "rget (case sd_table d m of None \<Rightarrow> data | Some t \<Rightarrow> apply_defaults t data) k = v" if "map_of data k = Some v"
  using that by (auto simp: rget_def apply_defaults_keep split: option.splits)

lemma impersonator_row: "impersonator (session_from_map row) = (case rget row ''impersonatedBy'' of VStr i \<Rightarrow> i | _ \<Rightarrow> '''')"
proof -
  have "map_of (filter (\<lambda>p. fst p \<notin> set session_keys) row) ''impersonatedBy'' = map_of row ''impersonatedBy''"
    using map_of_filter_key[of "\<lambda>k. k \<notin> set session_keys" row "''impersonatedBy''"] by (simp add: session_keys_def)
  then show ?thesis by (simp add: impersonator_def session_from_map_def rget_def)
qed

text \<open>The session that is minted for an impersonation, and its row.\<close>

lemma minted_session:
  assumes "create_session_with spec_adapter no_hooks cfg now i tok client u [(''impersonatedBy'', VStr adm)] dur d = (d', Inr s)"
  shows "impersonator s = adm \<and> s_user s = u_id u \<and> s_token s = tok \<and> s_created s = now
    \<and> s_expires s = time_add now (if dur \<le> 0 then expires_in cfg else dur)
    \<and> (\<exists>row\<in>set (srows d'). session_from_map row = s)"
proof -
  define data where "data = session_to_map \<lparr>s_id = i, s_user = u_id u, s_token = tok,
     s_expires = time_add now (if dur \<le> 0 then expires_in cfg else dur), s_ip = fst client, s_agent = snd client,
     s_created = now, s_updated = now, s_extra = [(''impersonatedBy'', VStr adm)]\<rparr>"
  from assms obtain row where c: "spec_create model_session data d = (d', Inr row)" and s: "s = session_from_map row"
    unfolding create_session_with_def create_session_def Let_def no_hooks_def run_hook_def bind_def
    by (auto simp: data_def split: prod.splits sum.splits)
  from spec_create_ok[OF c] have d': "d' = set_rows model_session (srows d @ [row]) d"
    and row: "row = (case sd_table d model_session of None \<Rightarrow> data | Some t \<Rightarrow> apply_defaults t data)" by auto
  have "map_of data ''userId'' = Some (VStr (u_id u))" "map_of data ''token'' = Some (VStr tok)" "map_of data ''createdAt'' = Some (VTime now)"
    "map_of data ''expiresAt'' = Some (VTime (time_add now (if dur \<le> 0 then expires_in cfg else dur)))"
    "map_of data ''impersonatedBy'' = Some (VStr adm)"
    by (simp_all add: data_def session_to_map_def)
  from this[THEN row_get, of d model_session, folded row] show ?thesis
    unfolding s impersonator_row by (auto simp: session_from_map_def d')
qed

text \<open>Whoever gets something done is an administrator, and the endpoint goes on with that session.\<close>

lemma admin_ok_session:
  assumes "call \<noteq> AdmStop" and "admin_run au ao cx sess call w = (w', Inr v)"
  obtains sd where "sess = Inr sd" and "acts_as_admin ao (Inr sd)"
proof -
  obtain k where "admin_run au ao cx sess call = bind (require_admin ao cx sess) k" using admin_run_shape[OF assms(1)] by blast
  with assms(2) bind_okD[of "require_admin ao cx sess" k w w' v] obtain w1 sd where "require_admin ao cx sess w = (w1, Inr sd)" by auto
  then show ?thesis unfolding require_admin_run using that by blast
qed

lemma bind_admin: "acts_as_admin ao (Inr sd) \<Longrightarrow> bind (require_admin ao cx (Inr sd)) k w = k sd w"
  using require_admin_run[of ao cx "Inr sd" w w sd] by (simp add: bind_def)

lemma audit_okD: "audit cx x e w = (w', r) \<Longrightarrow> w_db w' = w_db w"
  by (auto simp: audit_def)

lemma issue_session_ok:
  assumes "issue_session A H cfg cx u rem extra dur w = (w2, Inr s)"
  shows "create_session_with A H cfg (cx_now cx) (cx_fresh cx ''session-id'') (cx_fresh cx ''session-token'') (cx_ip cx, cx_agent cx)
    u extra dur (w_db w) = (w_db w2, Inr s)"
  using assms by (auto simp: issue_session_def bind_db ret_def split: prod.splits sum.splits)

lemma impersonate_spec:
  assumes "au_db au = spec_adapter" and "au_hooks au = no_hooks"
    and "admin_run au ao cx (Inr sd) (AdmImpersonate (Some uid)) w = (w', Inr (AdminSession s u))"
    and acts: "acts_as_admin ao (Inr sd)"
  shows "u_id u = uid \<and> (is_admin ao u \<longrightarrow> ao_imp_admins ao)
    \<and> impersonator s = u_id (sd_user sd) \<and> s_user s = uid \<and> s_created s = cx_now cx
    \<and> s_expires s = time_add (cx_now cx) (if ao_imp_duration ao \<le> 0 then expires_in (au_session au) else ao_imp_duration ao)
    \<and> (\<exists>row\<in>set (srows (w_db w')). session_from_map row = s)"
proof -
  note run = assms(3)[unfolded admin_run.simps handle_impersonate_def bind_admin[OF acts]]
  from run obtain w2 where t: "user_named au uid w = Inr u" "is_admin ao u \<longrightarrow> ao_imp_admins ao"
    and i: "issue_session (au_db au) (au_hooks au) (au_session au) (cx\<lparr>cx_auth_method := ''impersonation''\<rparr>) u False
                      [(''impersonatedBy'', VStr (u_id (sd_user sd)))] (ao_imp_duration ao) w = (w2, Inr s)"
    and w': "w_db w' = w_db w2"
    by (cases "user_named au uid w") (auto simp: fail_def ret_def dest!: bind_okD audit_okD split: if_splits)
  note c = issue_session_ok[OF i, unfolded assms(1,2), simplified]
  have "u_id u = uid" using t(1) found_user_id[of uid "w_db w"] unfolding assms(1) by (metis prod.collapse)
  with minted_session[OF c] show ?thesis using t w' by auto
qed

text \<open>A session that is no administrator's gets nothing out of the endpoints of the plugin.\<close>

lemma no_admin_no_call:
  assumes "call \<noteq> AdmStop" and "\<not> acts_as_admin ao sess" and "admin_run au ao cx sess call v = (v', r)"
  shows "\<not> is_ok r \<and> w_db v' = w_db v"
proof -
  obtain k where "admin_run au ao cx sess call = bind (require_admin ao cx sess) k" using admin_run_shape[OF assms(1)] by blast
  then show ?thesis using require_admin_refuses[OF assms(2), of cx v] assms(3) by (auto simp: bind_def)
qed



section \<open>Bans\<close>

lemma other_model [simp]: "model_session \<noteq> model_user" "model_user \<noteq> model_session"
  by (simp_all add: model_session_def model_user_def)

text \<open>The moment a ban of these settings ends, if it does.\<close>

definition ban_end :: "admin_options \<Rightarrow> gtime \<Rightarrow> ban_body \<Rightarrow> gtime option" where
  "ban_end ao now b = (case map_of (ban_update ao now b) ''banExpires'' of Some (VTime t) \<Rightarrow> Some t | _ \<Rightarrow> None)"

definition no_ban_end :: "grec \<Rightarrow> bool" where
  "no_ban_end row = (case rget row ''banExpires'' of VTime t \<Rightarrow> is_zero_time t | _ \<Rightarrow> True)"

lemma user_extra_row: "k \<notin> set user_keys \<Longrightarrow> map_of (u_extra (user_from_map row)) k = map_of row k"
  using map_of_filter_key[of "\<lambda>k. k \<notin> set user_keys" row k] by (simp add: user_from_map_def)

lemma banned_row:
  assumes "case ban_end ao now b of Some E \<Rightarrow> t \<le> E | None \<Rightarrow> no_ban_end row"
  shows "banned_now t (user_from_map (gmerge row (gput (ban_update ao now b) ''updatedAt'' (VTime now'))))"
proof -
  have "map_of (ban_update ao now b) ''banned'' = Some (VBool True)" by (simp add: ban_update_def)
  moreover have "map_of (ban_update ao now b) ''banExpires'' = map_option VTime (ban_end ao now b)"
    by (auto simp: ban_update_def ban_end_def split: option.splits)
  ultimately show ?thesis using assms
    by (auto simp: banned_now_def ban_flag_def ban_over_def user_extra_row user_keys_def no_ban_end_def rget_def map_add_def split: option.splits gval.splits)
qed

lemma find_map_first: "(\<And>x. P x \<Longrightarrow> P (f x)) \<Longrightarrow> find P (map_first P f xs) = map_option f (find P xs)"
  by (induction xs) auto

text \<open>Updating a user on a store of any schema.\<close>

lemma user_updated:
  assumes "update_user spec_adapter no_hooks now i upd d = (d', Inr u)"
  shows "\<exists>row\<in>set (urows d). with_str ''id'' i row \<and> u = user_from_map (gmerge row (gput upd ''updatedAt'' (VTime now)))
    \<and> (map_of upd ''id'' = None \<longrightarrow> (\<exists>row'\<in>set (urows d'). with_str ''id'' i row' \<and> u = user_from_map row'))
    \<and> sd_rows d' model_session = srows d \<and> sd_schema d' = sd_schema d"
proof -
  define f where "f r = gmerge r (gput upd ''updatedAt'' (VTime now))" for r
  obtain row where row: "find (with_str ''id'' i) (urows d) = Some row" and u: "u = user_from_map (f row)"
    and d': "d' = set_rows model_user (map_first (with_str ''id'' i) f (urows d)) d"
    using assms unfolding f_def
    by (auto simp: update_user_def no_hooks_def run_hook_def bind_def spec_update_def with_str_def[abs_def] split: option.splits if_splits)
  have "\<exists>row'\<in>set (urows d'). with_str ''id'' i row' \<and> u = user_from_map row'" if "map_of upd ''id'' = None"
  proof -
    have "with_str ''id'' i (f x)" if "with_str ''id'' i x" for x
      using that \<open>map_of upd ''id'' = None\<close> by (simp add: f_def with_str_iff map_add_def)
    from find_map_first[of "with_str ''id'' i" f, OF this] row have "find (with_str ''id'' i) (urows d') = Some (f row)"
      by (simp add: d')
    from find_in[OF this] u show ?thesis by auto
  qed
  then show ?thesis using find_in[OF row] u by (auto simp: f_def d')
qed

lemma ban_spec:
  assumes au: "au_db au = spec_adapter" "au_hooks au = no_hooks" and inv: "sdb_inv (w_db w')"
    and acts: "acts_as_admin ao (Inr sd)"
    and run: "admin_run au ao cx (Inr sd) (AdmBan (Some b)) w = (w', Inr (AdminUser u))"
    and col: "check_where_fields (sd_table (w_db w) model_session) [W ''userId'' (VStr (bb_user b))] = None"
  shows "bb_user b \<noteq> u_id (sd_user sd)
    \<and> (\<exists>row\<in>set (urows (w_db w)). with_str ''id'' (bb_user b) row
        \<and> u = user_from_map (gmerge row (gput (ban_update ao (cx_now cx) b) ''updatedAt'' (VTime (cx_now cx)))))
    \<and> (\<exists>row\<in>set (urows (w_db w')). with_str ''id'' (bb_user b) row)
    \<and> (\<forall>row\<in>set (urows (w_db w')). with_str ''id'' (bb_user b) row \<longrightarrow> user_from_map row = u)
    \<and> (\<forall>row\<in>set (srows (w_db w')). \<not> with_str ''userId'' (bb_user b) row)"
proof -
  note run' = run[unfolded admin_run.simps handle_ban_user_def bind_admin[OF acts]]
  from run' obtain w1 where ne: "bb_user b \<noteq> u_id (sd_user sd)"
    and up: "admin_update au cx (bb_user b) (ban_update ao (cx_now cx) b) w = (w1, Inr u)"
    and w': "w_db w' = w_db (fst (db (revoke_user_sessions (au_db au) (bb_user b)) w1))"
    by (auto simp: check_def fail_def ret_def ignore_def attempt_def dest!: bind_okD audit_okD split: if_splits prod.splits)
  from up have "update_user spec_adapter no_hooks (cx_now cx) (bb_user b) (ban_update ao (cx_now cx) b) (w_db w) = (w_db w1, Inr u)"
    by (auto simp: admin_update_def attempt_db au fail_def ret_def split: prod.splits sum.splits)
  from user_updated[OF this] obtain row row' where
    row: "row \<in> set (urows (w_db w))" "with_str ''id'' (bb_user b) row"
      "u = user_from_map (gmerge row (gput (ban_update ao (cx_now cx) b) ''updatedAt'' (VTime (cx_now cx))))"
    and row': "row' \<in> set (urows (w_db w1))" "with_str ''id'' (bb_user b) row'" "u = user_from_map row'"
    and keep: "srows (w_db w1) = srows (w_db w)" "sd_schema (w_db w1) = sd_schema (w_db w)"
    by (auto simp: ban_update_no_id)
  have d': "w_db w' = set_rows model_session (filter (\<lambda>r. \<not> matches r [W ''userId'' (VStr (bb_user b))]) (srows (w_db w1))) (w_db w1)"
    using col keep(2) by (simp add: w' au revoke_user_sessions_def delete_user_sessions_def bind_def spec_delete_many_def sd_table_def)
  have "user_from_map r = u" if "r \<in> set (urows (w_db w'))" "with_str ''id'' (bb_user b) r" for r
    using same_id_same_row[OF inv that(1), of row'] that(2) row' by (simp add: d' with_str_def)
  moreover have "row' \<in> set (urows (w_db w'))" using row'(1) by (simp add: d')
  ultimately show ?thesis using ne row row'(2) by (auto simp: d' with_str_def)
qed

text \<open>A chain of guards with the ban among them lets no banned user through.\<close>

lemma ban_guards:
  assumes "admin_plugin t \<in> set ps" and "banned_now t u"
  shows "run_sign_in_guards ps u \<noteq> Inr False" and "sd_user sd = u \<Longrightarrow> run_session_guards ps sd \<noteq> None"
  using assms by (induction ps) (auto simp: admin_plugin_def split: option.splits sum.splits bool.splits)

lemma session_passed_guards:
  assumes "get_session_from_token A cfg ps now tok s = (s', Inr sd)"
  shows "run_session_guards ps sd = None"
  using assms unfolding get_session_from_token_def
  by (auto simp: attempt_def bind_def fail_def ret_def Let_def split: prod.splits sum.splits if_splits option.splits)

lemma sign_in_passed_guards:
  assumes "sign_in A H cfg ps cx u rem w = (w', Inr (Some s))"
  shows "run_sign_in_guards ps u = Inr False"
  using assms unfolding sign_in_def by (auto simp: ret_def fail_def split: sum.splits bool.splits)

text \<open>The columns of a ban are the same, whatever else about the user is not.\<close>

definition same_ban :: "user \<Rightarrow> user \<Rightarrow> bool" where
  "same_ban u v \<longleftrightarrow> (\<forall>k\<in>{''banned'', ''banExpires''}. map_of (u_extra u) k = map_of (u_extra v) k)"

lemma same_ban_banned: "same_ban u v \<Longrightarrow> banned_now t u = banned_now t v"
  by (simp add: same_ban_def banned_now_def ban_flag_def ban_over_def)

text \<open>A store in which the ban of a user, as the ban left it, still stands.\<close>

definition ban_stands :: "schema option \<Rightarrow> string \<Rightarrow> user \<Rightarrow> mem \<Rightarrow> bool" where
  "ban_stands S i u v \<longleftrightarrow> mem_inv S v \<and>
     (\<forall>row\<in>set (mem_rows v model_user). with_str ''id'' i row \<longrightarrow> same_ban (user_from_map row) u)"

text \<open>What a lookup of a user by id in the in-memory store finds.\<close>

lemma mem_user_found:
  assumes "mem_inv S v" and "find_user_by_id mem_adapter i v = (v', Inr u)"
  shows "\<exists>row\<in>set (mem_rows v model_user). with_str ''id'' i row \<and> u = user_from_map row"
proof -
  have "spec_find_one model_user [W ''id'' (VStr i)] (mem_abs v) = ad_find_one mem_adapter model_user [W ''id'' (VStr i)] v"
    using mem.find_one_sim[OF _ assms(1)] by simp
  then obtain row where "spec_find_one model_user [W ''id'' (VStr i)] (mem_abs v) = Inr row" "u = user_from_map row"
    using assms(2) by (auto simp: find_user_by_id_def bind_query split: sum.splits)
  then show ?thesis by (auto simp: spec_find_one_def with_str_def dest!: find_in split: option.splits)
qed

lemma session_user_found:
  assumes "mem_inv S v" and "get_session_from_token mem_adapter cfg ps now tok v = (v', Inr sd)"
  shows "\<exists>row\<in>set (mem_rows v model_user). sd_user sd = user_from_map row \<and> with_str ''id'' (u_id (sd_user sd)) row"
proof -
  from assms(2) obtain i v1 where "find_user_by_id mem_adapter i v = (v1, Inr (sd_user sd))"
    unfolding get_session_from_token_def
    by (auto simp: find_session_by_token_def bind_query attempt_def bind_def fail_def ret_def Let_def
        split: prod.splits sum.splits if_splits option.splits)
  from mem_user_found[OF assms(1) this] show ?thesis by (auto simp: user_from_map_def with_str_def)
qed

text \<open>
  C40: once an administrator has banned a user, who is not that administrator, the user has no
  session left. As long as the ban's columns stand in the user's row, whatever else changes in it and in the store, and
  until the ban ends, no sign-in of the user gives a session, and no session is resolved to the user, neither by
  its token nor, unless the configuration accepts stale authorization, through the cookie cache; wherever
  the plugin's guards are among the guards that run. A ban to which no end was given lasts, provided
  the user's row had no end of an earlier ban in it.
\<close>

theorem ban_takes_effect:
  assumes "au_db au = mem_adapter" and "au_hooks au = no_hooks" and inv: "winv (mem_inv S) w"
    and run: "admin_run au ao cx sess (AdmBan (Some b)) w = (w', Inr (AdminUser u))"
    and col: "check_where_fields (schema_table S model_session) [W ''userId'' (VStr (bb_user b))] = None"
    and lasts: "\<forall>row\<in>set (mem_rows (w_db w) model_user).
      case ban_end ao (cx_now cx) b of Some E \<Rightarrow> t \<le> E | None \<Rightarrow> with_str ''id'' (bb_user b) row \<longrightarrow> no_ban_end row"
    and plugged: "admin_plugin t \<in> set ps"
  shows "actor_of sess \<noteq> bb_user b \<and> ban_stands S (bb_user b) u (w_db w')
    \<and> (\<exists>row\<in>set (mem_rows (w_db w') model_user). with_str ''id'' (bb_user b) row)
    \<and> (\<forall>row\<in>set (mem_rows (w_db w') model_user). with_str ''id'' (bb_user b) row \<longrightarrow> user_from_map row = u)
    \<and> (\<forall>row\<in>set (mem_rows (w_db w') model_session). \<not> with_str ''userId'' (bb_user b) row)
    \<and> (\<forall>u' H cfg cx' rem v v' s. same_ban u' u \<longrightarrow> sign_in mem_adapter H cfg ps cx' u' rem v \<noteq> (v', Inr (Some s)))
    \<and> (\<forall>v. ban_stands S (bb_user b) u v \<longrightarrow>
        (\<forall>cfg now tok v' sd. get_session_from_token mem_adapter cfg ps now tok v = (v', Inr sd) \<longrightarrow> u_id (sd_user sd) \<noteq> bb_user b)
        \<and> (\<forall>cfg now tok cached v' sd. \<not> accept_stale cfg \<and> get_session mem_adapter cfg ps now tok cached v = (v', Inr sd)
            \<longrightarrow> u_id (sd_user sd) \<noteq> bb_user b))"
proof -
  obtain sd where sess: "sess = Inr sd" and acts: "acts_as_admin ao (Inr sd)" using admin_ok_session[OF _ run] by blast
  have "sim (wmap mem_abs) (winv (mem_inv S)) (admin_run au ao cx sess (AdmBan (Some b))) (admin_run (on_spec au) ao cx sess (AdmBan (Some b)))"
    using assms(1,2) by (intro mem.admin_run_sim) (simp_all add: no_own_id_def)
  from simD[OF this inv run] have inv': "mem_inv S (w_db w')"
    and run': "admin_run (on_spec au) ao cx (Inr sd) (AdmBan (Some b)) (wmap mem_abs w) = (wmap mem_abs w', Inr (AdminUser u))"
    by (simp_all add: sess winv_def)
  have "sd_table (w_db (wmap mem_abs w)) model_session = schema_table S model_session"
    using inv by (simp add: winv_def mem_inv_schema mem_table_def)
  with col have "check_where_fields (sd_table (w_db (wmap mem_abs w)) model_session) [W ''userId'' (VStr (bb_user b))] = None" by simp
  from ban_spec[OF _ _ _ acts run' this] assms(2) mem_inv_abs[OF inv'] have spec: "bb_user b \<noteq> u_id (sd_user sd)"
      "\<exists>row\<in>set (mem_rows (w_db w) model_user). with_str ''id'' (bb_user b) row
        \<and> u = user_from_map (gmerge row (gput (ban_update ao (cx_now cx) b) ''updatedAt'' (VTime (cx_now cx))))"
      "\<exists>row\<in>set (mem_rows (w_db w') model_user). with_str ''id'' (bb_user b) row"
      "\<forall>row\<in>set (mem_rows (w_db w') model_user). with_str ''id'' (bb_user b) row \<longrightarrow> user_from_map row = u"
      "\<forall>row\<in>set (mem_rows (w_db w') model_session). \<not> with_str ''userId'' (bb_user b) row"
    by simp_all
  from spec(2) obtain row where row: "row \<in> set (mem_rows (w_db w) model_user)" "with_str ''id'' (bb_user b) row"
    "u = user_from_map (gmerge row (gput (ban_update ao (cx_now cx) b) ''updatedAt'' (VTime (cx_now cx))))" by blast
  from lasts row(1,2) have "case ban_end ao (cx_now cx) b of Some E \<Rightarrow> t \<le> E | None \<Rightarrow> no_ban_end row" by (auto split: option.splits)
  note banned = banned_row[OF this, of "cx_now cx", folded row(3)]
  have stop: "run_sign_in_guards ps u' \<noteq> Inr False" "sd_user sd' = u' \<Longrightarrow> run_session_guards ps sd' \<noteq> None" if "same_ban u' u" for u' sd'
    using ban_guards[OF plugged] same_ban_banned[OF that] banned by blast+
  have no_session: "u_id (sd_user sd') \<noteq> bb_user b"
    if "ban_stands S (bb_user b) u v" "get_session_from_token mem_adapter cfg ps now tok v = (v', Inr sd')" for v cfg now tok v' sd'
    using session_user_found[OF _ that(2)] session_passed_guards[OF that(2)] stop(2)[of "sd_user sd'" sd'] that(1)
    unfolding ban_stands_def by fastforce
  have guarded: "has_session_guards ps" using plugged unfolding has_session_guards_def list_ex_iff by (rule bexI[rotated]) (simp add: admin_plugin_def)
  have no_cached: "u_id (sd_user sd') \<noteq> bb_user b"
    if "ban_stands S (bb_user b) u v" "\<not> accept_stale cfg \<and> get_session mem_adapter cfg ps now tok cached v = (v', Inr sd')"
    for v cfg now tok cached v' sd'
    using no_session[OF that(1)] that(2) guarded by (auto simp: get_session_def fail_def split: option.splits)
  have "sign_in mem_adapter H cfg ps cx' u' rem v \<noteq> (v', Inr (Some s))" if "same_ban u' u" for u' H cfg cx' rem v v' s
    using sign_in_passed_guards stop(1)[OF that] by blast
  note no_sign_in = this
  have "actor_of sess \<noteq> bb_user b" using spec(1) by (simp add: sess actor_of_def)
  moreover have "ban_stands S (bb_user b) u (w_db w')" using spec(4) inv' by (simp add: ban_stands_def same_ban_def)
  moreover note spec(3-5)
  ultimately show ?thesis
    by - (intro conjI allI impI, (assumption | erule no_sign_in | erule (1) no_session | erule (1) no_cached)+)
qed

lemma ban_takes_effect_witness:
  "\<exists>w'. fst (admin_run (demo_auth mem_adapter) demo_admin_options demo_cx (Inr demo_boss) demo_ban demo_admin_world) = w'
    \<and> (\<forall>row\<in>set (mem_rows (w_db w') model_session). \<not> with_str ''userId'' ''u2'' row)
    \<and> (\<exists>row\<in>set (mem_rows (w_db w') model_user). with_str ''id'' ''u2'' row
        \<and> sign_in mem_adapter no_hooks demo_cfg [admin_plugin (seconds 30)] demo_cx ((user_from_map row)\<lparr>u_name := ''New''\<rparr>) True w'
            \<noteq> (w', Inr (Some (demo_session 0 9))))"
proof -
  let ?run = "admin_run (demo_auth spec_adapter) demo_admin_options demo_cx (Inr demo_boss) demo_ban demo_admin_spec"
  have "(case snd ?run of Inr (AdminUser u) \<Rightarrow> True | _ \<Rightarrow> False)" by code_simp
  then obtain u where r: "snd ?run = Inr (AdminUser u)" by (auto split: sum.splits admin_reply.splits)
  have no: "no_own_id demo_ban" by (simp add: no_own_id_def)
  from demo_admin_run[OF no r] obtain w' where
    w': "admin_run (demo_auth mem_adapter) demo_admin_options demo_cx (Inr demo_boss) demo_ban demo_admin_world = (w', Inr (AdminUser u))" by blast
  let ?b = "\<lparr>bb_user = ''u2'', bb_reason = '''', bb_expires_in = Some 60\<rparr>"
  have col: "check_where_fields (schema_table (Some demo_admin_schema) model_session) [W ''userId'' (VStr (bb_user ?b))] = None" by code_simp
  have E: "ban_end demo_admin_options (cx_now demo_cx) ?b = Some (5 + seconds 60)" by code_simp
  have "seconds 30 \<le> 5 + seconds 60" by code_simp
  then have "\<forall>row\<in>set (mem_rows (w_db demo_admin_world) model_user). case ban_end demo_admin_options (cx_now demo_cx) ?b of
        Some E \<Rightarrow> seconds 30 \<le> E | None \<Rightarrow> with_str ''id'' (bb_user ?b) row \<longrightarrow> no_ban_end row"
    unfolding E by simp
  from ban_takes_effect[OF _ _ demo_admin_facts(4) w' col this, of "[admin_plugin (seconds 30)]"] show ?thesis
    unfolding w' by (auto simp: same_ban_def)
qed

section \<open>Where the endpoints go astray\<close>

text \<open>
  A ban that has run out stays in the row until its user comes back. If the user is banned again
  before that, this time for good, the old end remains and the new ban is over at once.
\<close>

lemma second_ban_void:
  "(case snd (admin_run (demo_auth spec_adapter) demo_admin_options demo_cx (Inr demo_boss) (AdmBan (Some \<lparr>bb_user = ''u3'', bb_reason = '''', bb_expires_in = None\<rparr>))
      (spec_seeded_in demo_admin_schema (demo_admin_rows @
        [(model_user, user_to_map (demo_user_row\<lparr>u_id := ''u3'', u_email := ''c@x.org'', u_extra := [(''banned'', VBool True), (''banExpires'', VTime 3)]\<rparr>))]))) of
     Inr (AdminUser u) \<Rightarrow> u_id u = ''u3'' \<and> ban_flag u \<and> \<not> banned_now (cx_now demo_cx) u | _ \<Rightarrow> False)"
  by code_simp

text \<open>An address set by an administrator is stored as it is given, but looked up in lower case.\<close>

lemma updated_address_unreachable:
  "(case admin_run (demo_auth spec_adapter) demo_admin_options demo_cx (Inr demo_boss) (AdmUpdate (Some (''u2'', [(''email'', VStr ''New@x.org'')]))) demo_admin_spec of
     (w', Inr (AdminUser u)) \<Rightarrow> u_email u = ''New@x.org'' \<and> \<not> is_ok (snd (find_user_by_email spec_adapter ''New@x.org'' (w_db w'))) | _ \<Rightarrow> False)"
  by code_simp

text \<open>The name in the free-form data of a new user wins over the name parameter, and the id in it over the generated one.\<close>

lemma data_wins_over_parameters:
  "(case snd (admin_run (demo_auth spec_adapter) demo_admin_options demo_cx (Inr demo_boss)
      (AdmCreate (Some \<lparr>cu_email = ''d@x.org'', cu_password = '''', cu_name = ''Dora'', cu_role = '''', cu_data = [(''name'', VStr ''Eve''), (''id'', VStr ''x'')]\<rparr>)) demo_admin_spec) of
     Inr (AdminUser u) \<Rightarrow> u_name u = ''Eve'' \<and> u_id u = ''x'' | _ \<Rightarrow> False)"
  by code_simp

end
