(* ===== verification/Spec2Isabelle.thy ===== *)
theory Spec2Isabelle
  imports Row_Types Store_Laws Router Cookies Json_Enc Rotation Api_Key Recovery_Laws Guess_Limit Trust_Laws Sign_Up_Laws Social_Laws
    Ownership_Laws Ban_Laws
begin

text \<open>
  \<^bold>\<open>go-dev-auth, an authentication library for Go: model and correctness.\<close>

  \<^bold>\<open>The program.\<close> An application mounts one HTTP handler (router.go). A request is matched
  with a route, checked for its origin and rate, resolved to a session, and given to a
  handler (the files handler_*.go) or to a plugin (plugins/). Handlers read and write users,
  sessions, provider accounts and one-time tokens with the typed store (store.go, token.go,
  session.go, cascade.go), which keeps them as records of dynamic values in a storage
  adapter (storage/). Secrets come from crypto/: password hashes, random codes, signatures
  and encryption at rest. Cookies carry the session token and may carry a signed, short-lived
  copy of the session.

  \<^bold>\<open>How the code is translated.\<close> A Go struct is a record and a set of constants a datatype. A
  dynamic value (\<open>any\<close>) is a \<open>gval\<close>, a \<open>map[string]any\<close> an association list (\<open>grec\<close>), a string
  the list of its bytes, an instant or a duration the integer of its nanoseconds. A function
  that returns a value and an error returns the sum type \<open>result\<close>. A function with effects is
  an \<open>act\<close>: it takes the state and returns the new state with a result, errors included; \<open>bind\<close>,
  \<open>attempt\<close>, \<open>query\<close> and \<open>fail\<close> are the ways Go code goes on after a call. The state of the
  storage layers is the adapter's; that of a handler is a \<open>world\<close>, the adapter's state and the
  log of what was done besides (audit events, mails, password derivations, cookies). The
  clock and the random values of a request are fields of its context. Loops that are not
  structural are functions with a proved measure or have fuel, below.

  \<^bold>\<open>The theories.\<close>
  \<^item> \<open>Prelude\<close>: association lists, bytes, time, errors, \<open>act\<close> and simulation.
  \<^item> \<open>Go_Values\<close>, \<open>Go_Strings\<close>, \<open>Go_Url\<close>, \<open>Go_Base64\<close>: comparison of dynamic values
    (storage/compare.go) and what is used of Go's strings, strconv, net/url and base64.
  \<^item> \<open>Storage_Query\<close>, \<open>Storage_Schema\<close>: filters and tables of storage/storage.go.
    \<open>Storage_Spec\<close>: the reference store, rows in order of insertion with no index, and the locale
    \<open>storage_contract\<close>: what clients may rely on in an adapter is that it simulates the
    reference store. \<open>Memory\<close>: the in-memory adapter with its heap of shared records and unique
    indexes, and the interpretation of the contract on it. \<open>Storage_Trace\<close>: sequences of calls.
  \<^item> \<open>Models\<close>, \<open>Tokens\<close>, \<open>Sessions\<close>, \<open>Store\<close>: storage/model.go, token.go, session.go with the
    session guards, store.go with its hooks and cascade.go. Each operation is proved to
    simulate itself on the reference store inside the contract, so a law shown there
    (\<open>Session_Laws\<close>, \<open>Store_Laws\<close>) holds of every adapter that keeps the contract.
  \<^item> \<open>Effects\<close>, \<open>Credentials\<close>, \<open>Accounts\<close>, \<open>Social\<close>: errors.go, events.go and session creation; the
    handlers for email and password; those for verification, profile, deletion, sessions
    and linked accounts; sign-in with identity providers.
  \<^item> \<open>Frames\<close>, \<open>Row_Steps\<close>: the locale \<open>step_order\<close>, preorders on states that actions move
    along, interpreted as "no row outside these models changes", "every new row has this
    property" and "every new effect has this property". \<open>Account_Facts\<close> and \<open>Demo\<close> hold facts on
    single steps and the small installation that the examples run on.
  \<^item> \<open>Credential_Laws\<close>, \<open>Sign_Up_Laws\<close>, \<open>Account_Laws\<close>, \<open>Deletion_Laws\<close>, \<open>Social_Laws\<close>,
    \<open>Recovery_Laws\<close>: what the handlers guarantee. \<open>Row_Types\<close>: the types of stored rows.
  \<^item> \<open>Otp\<close>, \<open>Two_Factor\<close>: crypto/otp.go and plugins/twofactor. \<open>Two_Factor_Laws\<close>, \<open>Guess_Limit\<close>,
    \<open>Trust_Laws\<close>: replay, the number of guesses (a potential that no step raises), trusted
    devices and backup codes.
  \<^item> \<open>Organization\<close>, \<open>Organization_Members\<close>: plugins/organization. \<open>Organization_Laws\<close> walks along the
    reading part of each endpoint; \<open>Ownership_Laws\<close> holds what sequences of requests keep.
  \<^item> \<open>Admin\<close>, \<open>Admin_Laws\<close>, \<open>Ban_Laws\<close>: plugins/admin. Who may administrate and what is recorded;
    impersonations and bans.
  \<^item> \<open>Router\<close>, \<open>Origins\<close>, \<open>Cookies\<close>, \<open>Rate_Limit\<close>, \<open>Json_Enc\<close>: router.go; origins.go, trustedproxy.go
    and the redirect policy; cookie.go and the session cache; ratelimit/; storage/json.go.
  \<^item> \<open>Signing\<close>, \<open>Scrypt\<close>, \<open>Password\<close>, \<open>Keyring\<close>, \<open>Rotation\<close>, \<open>Api_Key\<close>: crypto/random.go,
    crypto/scrypt.go, crypto/password.go, crypto/aead.go, secrets.go and plugins/apikey.

  \<^bold>\<open>What is shown.\<close> Of the storage: the in-memory adapter answers every sequence of calls as the
  reference store does, keeps unique columns unique, and a failed transaction leaves no
  trace. Of sessions and tokens: a session that is returned belongs to the token, has not
  expired and has passed every guard, whether or not it came from the cookie cache;
  revocation takes effect; of many consumers of a token one wins. Of the front door: which
  checks run before a handler, which origins are trusted, where redirects may go, how many
  requests the limiter lets through. Of secrets: scrypt is the function of RFC 7914, hashes
  verify, sealed values cannot be moved, rotation loses no value and ends, API key quotas are
  not overspent. Of the handlers: failed sign-ins look alike; sign-up is all or nothing; a
  reset or a change of password ends other sessions; an address is marked verified only by
  the token mailed to it and moved only with its approval; deletion needs proof; the last
  account stays; a provider's callback belongs to a flow of this browser, and a profile
  becomes an existing user only under the linking policy; who resets a password can sign in
  with the new one. Of the second factor: a code is the one for a step of the window, a step and a backup code
  are good for one sign-in, a challenge allows five wrong answers, and only the value signed for the
  user spares the challenge. Of organizations: every change of a membership is by right, and no
  requests of others take an organization from its owners. Of administration: only administrators acting as
  themselves get anything done, and it is on record; impersonations end and have no power; a ban
  shuts its user out. Lemmas with an example in their
  section titles record where code and documentation disagree.

  \<^bold>\<open>Bounds and fuel.\<close> Word-sized arithmetic is kept where it matters: scrypt works on 32-bit
  words, counters of the limiter are asked to stay below \<open>2 ^ 63\<close>, quotas below \<open>2 ^ 53\<close> because the
  adapters compare numbers as float64. The rotation pass has as fuel the number of rows plus
  one, and the termination property shows that it ends within it. Rejection sampling of
  random codes takes the batches it is given as a list.

  \<^bold>\<open>What is assumed.\<close> HMAC, SHA-256, AES-GCM, JSON of documents, printing of times, IP parsing,
  identity providers and mailers are arguments; where a law needs something of them (a seal
  opens only under its own binding, a digest is a function) it is a premise of that law. Facts
  on the in-memory store ask for a schema that contains the core tables (\<open>has_core_tables\<close>)
  and for the invariant that the store keeps from its start. Rows read by a paged query are
  asked to have the key (\<open>good_query\<close>).

  \<^bold>\<open>Not modelled.\<close> Case mapping and EqualFold outside ASCII; locks (operations are atomic, and
  interleavings are sequences of them); one request reads the clock once; text of error
  messages, log lines and HTML templates; mailed links are kept as path and query; results of
  application callbacks that the code discards. The SQL and MongoDB adapters print queries for
  other systems, and the provider clients exchange HTTP; the remaining plugins are listed in
  the manifest with their state.
\<close>

end
